(* ===== verification/Prelude.thy ===== *)
theory Prelude
  imports Main "HOL-Library.Word" "HOL-Library.AList" "HOL-Library.Char_ord"
    "HOL-Library.List_Lexorder" "HOL-Library.Sublist"
begin

text \<open>
  Shared vocabulary of the development: the machine integers of the Rust sources as words,
  byte strings, the little- and big-endian conversions of the standard library, the parts of
  Rust's \<open>str\<close> interface the sources use, and \<open>HashMap\<close> as an association list behind the
  locale \<open>hash_map\<close>.

  Rust strings are UTF-8, so a \<open>String\<close> is modelled as the list of its bytes (\<^typ>\<open>string\<close>,
  one \<^typ>\<open>char\<close> per byte) and \<open>len()\<close> is \<^const>\<open>length\<close>.  Integer arithmetic wraps
  (\<open>Cargo.toml\<close> sets no \<open>overflow-checks\<close>, so release builds wrap).
\<close>

unbundle bit_operations_syntax

named_theorems codec_simps \<open>byte-level encoders and decoders\<close>
named_theorems str_simps \<open>operations on strings\<close>
named_theorems hm_simps \<open>lookup after an update of a hash map\<close>

type_synonym byte = "8 word"
type_synonym bytes = "8 word list"
type_synonym u16 = "16 word"
type_synonym u32 = "32 word"
type_synonym u64 = "64 word"
type_synonym i64 = "64 word"

section \<open>Results\<close>

text \<open>Rust's \<open>?\<close> operator on \<open>Result\<close>: the error is the left summand.\<close>

definition and_then :: "'e + 'a \<Rightarrow> ('a \<Rightarrow> 'e + 'b) \<Rightarrow> 'e + 'b" where
  "and_then r f = (case r of Inl e \<Rightarrow> Inl e | Inr a \<Rightarrow> f a)"

definition ok_or :: "'e \<Rightarrow> 'a option \<Rightarrow> 'e + 'a" where
  "ok_or e x = (case x of None \<Rightarrow> Inl e | Some a \<Rightarrow> Inr a)"

lemma and_then_simps [simp]:
  "and_then (Inl e) f = Inl e"
  "and_then (Inr a) f = f a"
  by (simp_all add: and_then_def)

lemma and_then_eq_Inr: "and_then r f = Inr b \<longleftrightarrow> (\<exists>a. r = Inr a \<and> f a = Inr b)"
  by (cases r) simp_all

lemma ok_or_simps [simp]:
  "ok_or e None = Inl e"
  "ok_or e (Some a) = Inr a"
  by (simp_all add: ok_or_def)

lemma ok_or_eq_Inr [simp]: "ok_or e x = Inr a \<longleftrightarrow> x = Some a"
  by (cases x) simp_all

section \<open>Bytes and endianness\<close>

lemma unat_less: "unat (w :: 'a::len word) < 2 ^ LENGTH('a)"
  by (rule unsigned_less)

fun to_le :: "nat \<Rightarrow> 'a::len word \<Rightarrow> bytes" where
  "to_le 0 w = []"
| "to_le (Suc n) w = ucast w # to_le n (drop_bit 8 w)"

fun from_le :: "bytes \<Rightarrow> 'a::len word" where
  "from_le [] = 0"
| "from_le (b # bs) = ucast b OR push_bit 8 (from_le bs)"

abbreviation u16_to_le_bytes :: "u16 \<Rightarrow> bytes" where
  "u16_to_le_bytes \<equiv> to_le 2"

abbreviation u32_to_le_bytes :: "u32 \<Rightarrow> bytes" where
  "u32_to_le_bytes \<equiv> to_le 4"

abbreviation u64_to_le_bytes :: "u64 \<Rightarrow> bytes" where
  "u64_to_le_bytes \<equiv> to_le 8"

abbreviation u32_to_be_bytes :: "u32 \<Rightarrow> bytes" where
  "u32_to_be_bytes w \<equiv> rev (to_le 4 w)"

abbreviation u64_to_be_bytes :: "u64 \<Rightarrow> bytes" where
  "u64_to_be_bytes w \<equiv> rev (to_le 8 w)"

lemma to_le_eval:
  "to_le 2 w = [ucast w, ucast (drop_bit 8 w)]"
  "to_le 4 w = [ucast w, ucast (drop_bit 8 w), ucast (drop_bit 16 w), ucast (drop_bit 24 w)]"
  "to_le 8 w = [ucast w, ucast (drop_bit 8 w), ucast (drop_bit 16 w), ucast (drop_bit 24 w),
     ucast (drop_bit 32 w), ucast (drop_bit 40 w), ucast (drop_bit 48 w), ucast (drop_bit 56 w)]"
  by (simp_all add: numeral_eq_Suc)

lemma length_to_le [simp]: "length (to_le n w) = n"
  by (induction n arbitrary: w) simp_all

lemma from_le_to_le_take: "from_le (to_le n w) = take_bit (8 * n) w"
proof (induction n arbitrary: w)
  case 0
  show ?case by simp
next
  case (Suc n)
  have "ucast (ucast w :: byte) OR push_bit 8 (take_bit (8 * n) (drop_bit 8 w))
      = take_bit (8 * Suc n) w"
    by (rule bit_word_eqI) (auto simp: bit_simps)
  then show ?case by (simp add: Suc.IH)
qed

lemma from_le_to_le [codec_simps]:
  "LENGTH('a::len) \<le> 8 * n \<Longrightarrow> from_le (to_le n (w :: 'a word)) = w"
  by (simp add: from_le_to_le_take take_bit_word_eq_self)

lemma to_le_inject:
  "LENGTH('a::len) \<le> 8 * n \<Longrightarrow> to_le n (v :: 'a word) = to_le n w \<longleftrightarrow> v = w"
  by (metis from_le_to_le)

lemma drop_bit_from_le_Cons:
  assumes "8 * length (b # bs) \<le> LENGTH('a::len)"
  shows "drop_bit 8 (from_le (b # bs) :: 'a word) = from_le bs"
proof (rule bit_word_eqI)
  have *: "\<not> bit (from_le bs :: 'a word) n" if "8 * length bs \<le> n" for n
    using that
  proof (induction bs arbitrary: n)
    case (Cons c cs)
    then show ?case by (auto simp: bit_simps dest: bit_imp_le_length)
  qed simp
  fix n assume "n < LENGTH('a)"
  then show "bit (drop_bit 8 (from_le (b # bs) :: 'a word)) n = bit (from_le bs :: 'a word) n"
    using assms * [of n] by (auto simp: bit_simps dest: bit_imp_le_length)
qed

lemma to_le_from_le [codec_simps]:
  "8 * length bs \<le> LENGTH('a::len) \<Longrightarrow> to_le (length bs) (from_le bs :: 'a word) = bs"
proof (induction bs)
  case (Cons b bs)
  have "(ucast (from_le (b # bs) :: 'a word) :: byte) = b"
    using Cons.prems by (intro bit_word_eqI) (auto simp: bit_simps)
  moreover have "drop_bit 8 (from_le (b # bs) :: 'a word) = from_le bs"
    using Cons.prems by (rule drop_bit_from_le_Cons)
  ultimately show ?case using Cons by (simp del: from_le.simps)
qed simp

section \<open>Strings\<close>

text \<open>The bytes of a string, and the ASCII classes of \<open>char\<close>.\<close>

definition as_bytes :: "string \<Rightarrow> bytes" where
  "as_bytes s = map of_char s"

definition is_ascii_lowercase :: "char \<Rightarrow> bool" where
  "is_ascii_lowercase c \<longleftrightarrow> CHR ''a'' \<le> c \<and> c \<le> CHR ''z''"

definition is_ascii_uppercase :: "char \<Rightarrow> bool" where
  "is_ascii_uppercase c \<longleftrightarrow> CHR ''A'' \<le> c \<and> c \<le> CHR ''Z''"

definition is_ascii_digit :: "char \<Rightarrow> bool" where
  "is_ascii_digit c \<longleftrightarrow> CHR ''0'' \<le> c \<and> c \<le> CHR ''9''"

definition is_ascii_alphanumeric :: "char \<Rightarrow> bool" where
  "is_ascii_alphanumeric c \<longleftrightarrow>
     is_ascii_lowercase c \<or> is_ascii_uppercase c \<or> is_ascii_digit c"

definition is_ascii_hexdigit :: "char \<Rightarrow> bool" where
  "is_ascii_hexdigit c \<longleftrightarrow> is_ascii_digit c \<or>
     (CHR ''a'' \<le> c \<and> c \<le> CHR ''f'') \<or> (CHR ''A'' \<le> c \<and> c \<le> CHR ''F'')"

text \<open>
  \<open>to_lowercase\<close> on a string whose characters are all ASCII (the only strings the sources
  lower-case where the result matters to a theorem) moves the upper-case letters by 32.
\<close>

definition ascii_lower :: "char \<Rightarrow> char" where
  "ascii_lower c = (if is_ascii_uppercase c then char_of (of_char c + (32 :: nat)) else c)"

text \<open>
  A UTF-8 continuation byte has the bit pattern \<open>10xxxxxx\<close>; every other byte starts a
  character.  \<open>map_chars\<close> is \<open>s.chars().map(f).collect()\<close> for an \<open>f\<close> that keeps only
  ASCII characters and sends every other character to one ASCII character: it acts on the
  first byte of each character and drops the continuation bytes.
\<close>

definition is_continuation :: "char \<Rightarrow> bool" where
  "is_continuation c \<longleftrightarrow> (of_char c AND 0xC0 :: byte) = 0x80"

definition map_chars :: "(char \<Rightarrow> char) \<Rightarrow> string \<Rightarrow> string" where
  "map_chars f s = map f (filter (\<lambda>c. \<not> is_continuation c) s)"

text \<open>\<open>str::split\<close>, \<open>str::splitn\<close> with a character.\<close>

fun split_char :: "char \<Rightarrow> string \<Rightarrow> string list" where
  "split_char c [] = [[]]"
| "split_char c (x # xs) =
     (if x = c then [] # split_char c xs
      else (case split_char c xs of [] \<Rightarrow> [[x]] | f # fs \<Rightarrow> (x # f) # fs))"

fun splitn :: "nat \<Rightarrow> char \<Rightarrow> string \<Rightarrow> string list" where
  "splitn 0 c s = []"
| "splitn (Suc 0) c s = [s]"
| "splitn (Suc (Suc n)) c s =
     (if c \<in> set s
      then takeWhile (\<lambda>x. x \<noteq> c) s # splitn (Suc n) c (tl (dropWhile (\<lambda>x. x \<noteq> c) s))
      else [s])"

definition strip_prefix :: "string \<Rightarrow> string \<Rightarrow> string option" where
  "strip_prefix p s = (if prefix p s then Some (drop (length p) s) else None)"

definition trim_start_matches :: "char \<Rightarrow> string \<Rightarrow> string" where
  "trim_start_matches c s = dropWhile (\<lambda>x. x = c) s"

definition trim_end_matches :: "char \<Rightarrow> string \<Rightarrow> string" where
  "trim_end_matches c s = rev (dropWhile (\<lambda>x. x = c) (rev s))"

text \<open>
  The UTF-8 encodings of the characters with the Unicode property White\_Space, which
  \<open>str::trim\<close> removes on both sides.
\<close>

definition ws_encodings :: "string list" where
  "ws_encodings = map (map char_of)
     ([[9], [10], [11], [12], [13], [32], [0xC2, 0x85], [0xC2, 0xA0], [0xE1, 0x9A, 0x80],
       [0xE2, 0x80, 0x80], [0xE2, 0x80, 0x81], [0xE2, 0x80, 0x82], [0xE2, 0x80, 0x83],
       [0xE2, 0x80, 0x84], [0xE2, 0x80, 0x85], [0xE2, 0x80, 0x86], [0xE2, 0x80, 0x87],
       [0xE2, 0x80, 0x88], [0xE2, 0x80, 0x89], [0xE2, 0x80, 0x8A], [0xE2, 0x80, 0xA8],
       [0xE2, 0x80, 0xA9], [0xE2, 0x80, 0xAF], [0xE2, 0x81, 0x9F], [0xE3, 0x80, 0x80]]
      :: nat list list)"

fun strip_any :: "string list \<Rightarrow> string \<Rightarrow> nat" where
  "strip_any [] s = 0"
| "strip_any (w # ws) s = (if prefix w s then length w else strip_any ws s)"

function trim_with :: "string list \<Rightarrow> string \<Rightarrow> string" where
  "trim_with ws s =
     (if strip_any ws s = 0 \<or> s = [] then s else trim_with ws (drop (strip_any ws s) s))"
  by pat_completeness auto
termination
  by (relation "measure (\<lambda>(ws, s). length s)") auto

declare trim_with.simps [simp del]

definition trim_start :: "string \<Rightarrow> string" where
  "trim_start s = trim_with ws_encodings s"

definition trim_end :: "string \<Rightarrow> string" where
  "trim_end s = rev (trim_with (map rev ws_encodings) (rev s))"

definition trim :: "string \<Rightarrow> string" where
  "trim s = trim_end (trim_start s)"

lemma length_as_bytes [simp]: "length (as_bytes s) = length s"
  by (simp add: as_bytes_def)

lemma unat_of_char: "unat (of_char c :: byte) = of_char c"
proof -
  have "(of_char c :: byte) = of_nat (of_char c)" by (simp only: of_nat_of_char)
  moreover have "(of_char c :: nat) < 256" by simp
  ultimately show ?thesis by (simp only: unat_of_nat) simp
qed

lemma char_of_byte [simp]: "char_of (unat (of_char c :: byte)) = c"
  by (simp add: unat_of_char)

lemma byte_of_char [simp]: "(of_char (char_of (unat b)) :: byte) = b"
proof -
  have "(of_char (char_of (unat b)) :: byte) = of_nat (of_char (char_of (unat b)))" by (simp only: of_nat_of_char)
  moreover have "unat b < 256" using unat_less [of b] by simp
  ultimately show ?thesis by simp
qed

lemma as_bytes_append [simp]: "as_bytes (s @ t) = as_bytes s @ as_bytes t"
  by (simp add: as_bytes_def)

lemma of_char_byte_inject: "(of_char c :: byte) = of_char d \<longleftrightarrow> c = d"
proof
  assume "(of_char c :: byte) = of_char d"
  then have "unat (of_char c :: byte) = unat (of_char d :: byte)" by simp
  moreover have "unat (of_char x :: byte) = of_char x" for x :: char
  proof -
    have "(of_char x :: byte) = of_nat (of_char x)" by (simp only: of_nat_of_char)
    moreover have "(of_char x :: nat) < 256" by simp
    ultimately show ?thesis by (simp only: unat_of_nat) simp
  qed
  ultimately have "(of_char c :: nat) = of_char d" by simp
  then show "c = d" by simp
qed simp

lemma as_bytes_inject [simp]: "as_bytes s = as_bytes t \<longleftrightarrow> s = t"
  unfolding as_bytes_def by (rule inj_map_eq_map) (auto simp: inj_def of_char_byte_inject)

lemma strip_prefix_append [simp]: "strip_prefix p (p @ s) = Some s"
  by (simp add: strip_prefix_def)

lemma strip_prefix_eq_Some: "strip_prefix p s = Some t \<longleftrightarrow> s = p @ t"
  by (auto simp: strip_prefix_def prefix_def)

section \<open>Number formatting\<close>

text \<open>The decimal and hexadecimal renderings of \<open>format!\<close>.\<close>

definition hex_digit :: "nat \<Rightarrow> char" where
  "hex_digit n = (if n < 10 then char_of (48 + n) else char_of (87 + n))"

definition hex_digit_upper :: "nat \<Rightarrow> char" where
  "hex_digit_upper n = (if n < 10 then char_of (48 + n) else char_of (55 + n))"

fun fmt_dec :: "nat \<Rightarrow> string" where
  "fmt_dec n = (if n < 10 then [char_of (48 + n)] else fmt_dec (n div 10) @ [char_of (48 + n mod 10)])"

fun fmt_hex :: "nat \<Rightarrow> string" where
  "fmt_hex n = (if n < 16 then [hex_digit n] else fmt_hex (n div 16) @ [hex_digit (n mod 16)])"

declare fmt_dec.simps [simp del] fmt_hex.simps [simp del]

section \<open>Hash maps\<close>

text \<open>
  What the code relies on of \<open>std::collections::HashMap\<close>: lookups after an insertion, a
  removal or a \<open>retain\<close>, and that iteration visits each entry exactly once, in an order
  the client may not depend on.  The interface is the locale \<open>hash_map\<close>; the model's maps are
  association lists with distinct keys, whose list order stands for the iteration order.
\<close>

locale hash_map =
  fixes hempty :: "'m"
    and hget :: "'m \<Rightarrow> 'k \<Rightarrow> 'v option"
    and hinsert :: "'k \<Rightarrow> 'v \<Rightarrow> 'm \<Rightarrow> 'm"
    and hremove :: "'k \<Rightarrow> 'm \<Rightarrow> 'm"
    and hretain :: "('k \<Rightarrow> 'v \<Rightarrow> bool) \<Rightarrow> 'm \<Rightarrow> 'm"
    and hentries :: "'m \<Rightarrow> ('k \<times> 'v) list"
    and hinvar :: "'m \<Rightarrow> bool"
  assumes get_empty: "hget hempty k = None"
    and get_insert: "hinvar m \<Longrightarrow> hget (hinsert k v m) j = (if j = k then Some v else hget m j)"
    and get_remove: "hinvar m \<Longrightarrow> hget (hremove k m) j = (if j = k then None else hget m j)"
    and get_retain: "hinvar m \<Longrightarrow> hget (hretain P m) k =
      (case hget m k of None \<Rightarrow> None | Some v \<Rightarrow> if P k v then Some v else None)"
    and entries_get: "hinvar m \<Longrightarrow> (k, v) \<in> set (hentries m) \<longleftrightarrow> hget m k = Some v"
    and entries_distinct: "hinvar m \<Longrightarrow> distinct (map fst (hentries m))"
    and invar_empty: "hinvar hempty"
    and invar_insert: "hinvar m \<Longrightarrow> hinvar (hinsert k v m)"
    and invar_remove: "hinvar m \<Longrightarrow> hinvar (hremove k m)"
    and invar_retain: "hinvar m \<Longrightarrow> hinvar (hretain P m)"
begin

lemma entries_empty: "hentries hempty = []"
  using entries_get [OF invar_empty] get_empty by (metis list.set_intros(1) neq_Nil_conv
      option.distinct(1) surj_pair)

lemma entries_insert:
  assumes "hinvar m"
  shows "set (hentries (hinsert k v m)) = insert (k, v) {(j, w) \<in> set (hentries m). j \<noteq> k}"
  using assms entries_get invar_insert get_insert by (auto split: if_splits)

lemma entries_remove:
  assumes "hinvar m"
  shows "set (hentries (hremove k m)) = {(j, w) \<in> set (hentries m). j \<noteq> k}"
  using assms entries_get invar_remove get_remove by (auto split: if_splits)

lemma entries_retain:
  assumes "hinvar m"
  shows "set (hentries (hretain P m)) = {(j, w) \<in> set (hentries m). P j w}"
  using assms entries_get invar_retain get_retain by (auto split: if_splits option.splits)

lemma values_insert:
  assumes "hinvar m"
  shows "set (map snd (hentries (hinsert k v m))) =
    insert v {w. \<exists>j. j \<noteq> k \<and> hget m j = Some w}"
proof -
  have "set (map snd (hentries (hinsert k v m))) = snd ` set (hentries (hinsert k v m))"
    by simp
  also have "\<dots> = insert v {w. \<exists>j. j \<noteq> k \<and> hget m j = Some w}"
    unfolding entries_insert [OF assms] using entries_get [OF assms] by force
  finally show ?thesis .
qed

lemma length_entries:
  assumes "hinvar m"
  shows "length (hentries m) = card {k. hget m k \<noteq> None}"
proof -
  have "{k. hget m k \<noteq> None} = fst ` set (hentries m)"
    using entries_get [OF assms] by force
  then show ?thesis
    using distinct_card [OF entries_distinct [OF assms]] by simp
qed

end

type_synonym ('k, 'v) hmap = "('k \<times> 'v) list"

definition hm_get :: "('k, 'v) hmap \<Rightarrow> 'k \<Rightarrow> 'v option" where
  "hm_get m k = map_of m k"

definition hm_insert :: "'k \<Rightarrow> 'v \<Rightarrow> ('k, 'v) hmap \<Rightarrow> ('k, 'v) hmap" where
  "hm_insert k v m = AList.update k v m"

definition hm_remove :: "'k \<Rightarrow> ('k, 'v) hmap \<Rightarrow> ('k, 'v) hmap" where
  "hm_remove k m = AList.delete k m"

definition hm_retain :: "('k \<Rightarrow> 'v \<Rightarrow> bool) \<Rightarrow> ('k, 'v) hmap \<Rightarrow> ('k, 'v) hmap" where
  "hm_retain P m = filter (\<lambda>(k, v). P k v) m"

definition hm_values :: "('k, 'v) hmap \<Rightarrow> 'v list" where
  "hm_values m = map snd m"

definition hm_keys :: "('k, 'v) hmap \<Rightarrow> 'k list" where
  "hm_keys m = map fst m"

definition hm_ok :: "('k, 'v) hmap \<Rightarrow> bool" where
  "hm_ok m \<longleftrightarrow> distinct (map fst m)"

lemma map_of_filter_distinct:
  "distinct (map fst m) \<Longrightarrow> map_of (filter (\<lambda>(k, v). P k v) m) k =
     (case map_of m k of None \<Rightarrow> None | Some v \<Rightarrow> if P k v then Some v else None)"
proof (induction m)
  case (Cons a m)
  obtain j w where a: "a = (j, w)" by (cases a)
  show ?case
  proof (cases "j = k")
    case True
    then have "map_of m k = None"
      using Cons.prems a by (simp add: map_of_eq_None_iff)
    then show ?thesis using Cons a True by auto
  qed (use Cons a in auto)
qed simp

interpretation hm: hash_map "[]" hm_get hm_insert hm_remove hm_retain "\<lambda>m. m" hm_ok
proof unfold_locales
  show "hm_ok (hm_retain P m)" if "hm_ok m" for P and m :: "('a \<times> 'b) list"
    using that by (auto simp: hm_ok_def hm_retain_def distinct_map_filter)
qed (auto simp: hm_get_def hm_insert_def hm_remove_def hm_retain_def hm_ok_def
    update_conv' delete_conv' distinct_update distinct_delete map_of_filter_distinct
    AList.distinct_update)

lemmas hm_get_simps [simp, hm_simps] = hm.get_empty hm.get_insert hm.get_remove hm.get_retain
lemmas hm_ok_simps [simp, intro] = hm.invar_empty hm.invar_insert hm.invar_remove hm.invar_retain

lemma hm_get_insert_any [simp]: "hm_get (hm_insert k v m) j = (if j = k then Some v else hm_get m j)"
  by (simp add: hm_get_def hm_insert_def update_conv')

lemma hm_get_remove_any [simp]: "hm_get (hm_remove k m) j = (if j = k then None else hm_get m j)"
  by (simp add: hm_get_def hm_remove_def delete_conv')

lemma hm_values_iff: "hm_ok m \<Longrightarrow> v \<in> set (hm_values m) \<longleftrightarrow> (\<exists>k. hm_get m k = Some v)"
  using hm.entries_get by (force simp: hm_values_def)

lemma hm_keys_iff: "k \<in> set (hm_keys m) \<longleftrightarrow> hm_get m k \<noteq> None"
  by (auto simp: hm_keys_def hm_get_def map_of_eq_None_iff)

end
