(* ===== verification/Errors.thy ===== *)
theory Errors
  imports Prelude
begin

text \<open>
  The protocol error codes and the library error type of \<open>nsmt-core/src/error.rs\<close>, and the
  error kinds of \<open>std::io\<close> that the sources can meet.
\<close>

datatype io_error = NotFound | AlreadyExists | NotADirectory | IsADirectory | DirectoryNotEmpty
  | OtherIo string

datatype error_code =
    TenantNotFound | AuthFailed | TicketExpired | NotRegistered | TenantForbidden
  | UnsupportedVersionCode
  | MemoryPoolUnavailable | MemoryRecallTimeout | MemoryCaptureConflict
  | ObjectNotFound | TreeConflict
  | LockHeld | LockTimeout
  | QuotaExceeded | RateLimited
  | InternalError

fun error_code_as_u16 :: "error_code \<Rightarrow> u16" where
  "error_code_as_u16 TenantNotFound = 0xE001"
| "error_code_as_u16 AuthFailed = 0xE002"
| "error_code_as_u16 TicketExpired = 0xE003"
| "error_code_as_u16 NotRegistered = 0xE004"
| "error_code_as_u16 TenantForbidden = 0xE005"
| "error_code_as_u16 UnsupportedVersionCode = 0xE006"
| "error_code_as_u16 MemoryPoolUnavailable = 0xE010"
| "error_code_as_u16 MemoryRecallTimeout = 0xE011"
| "error_code_as_u16 MemoryCaptureConflict = 0xE012"
| "error_code_as_u16 ObjectNotFound = 0xE020"
| "error_code_as_u16 TreeConflict = 0xE021"
| "error_code_as_u16 LockHeld = 0xE030"
| "error_code_as_u16 LockTimeout = 0xE031"
| "error_code_as_u16 QuotaExceeded = 0xE040"
| "error_code_as_u16 RateLimited = 0xE041"
| "error_code_as_u16 InternalError = 0xE0FF"

definition error_code_from_raw :: "u16 \<Rightarrow> error_code" where
  "error_code_from_raw raw =
     (if raw = 0xE001 then TenantNotFound
      else if raw = 0xE002 then AuthFailed
      else if raw = 0xE003 then TicketExpired
      else if raw = 0xE004 then NotRegistered
      else if raw = 0xE005 then TenantForbidden
      else if raw = 0xE006 then UnsupportedVersionCode
      else if raw = 0xE010 then MemoryPoolUnavailable
      else if raw = 0xE011 then MemoryRecallTimeout
      else if raw = 0xE012 then MemoryCaptureConflict
      else if raw = 0xE020 then ObjectNotFound
      else if raw = 0xE021 then TreeConflict
      else if raw = 0xE030 then LockHeld
      else if raw = 0xE031 then LockTimeout
      else if raw = 0xE040 then QuotaExceeded
      else if raw = 0xE041 then RateLimited
      else InternalError)"

text \<open>\<open>Display\<close>: \<open>0x{:04X}\<close>, four upper-case hexadecimal digits.\<close>

definition error_code_fmt :: "error_code \<Rightarrow> string" where
  "error_code_fmt c =
     (let n = unat (error_code_as_u16 c)
      in ''0x'' @ [hex_digit_upper (n div 4096 mod 16), hex_digit_upper (n div 256 mod 16),
                   hex_digit_upper (n div 16 mod 16), hex_digit_upper (n mod 16)])"

datatype nsmt_error =
    Protocol string
  | FrameTooLarge nat
  | InvalidMagic byte
  | UnsupportedVersion byte
  | InvalidFqn string
  | Io io_error
  | Json

lemma error_code_from_as: "error_code_from_raw (error_code_as_u16 c) = c"
  by (cases c) (simp_all add: error_code_from_raw_def)

lemma error_code_as_from:
  "error_code_from_raw raw \<noteq> InternalError \<Longrightarrow> error_code_as_u16 (error_code_from_raw raw) = raw"
  unfolding error_code_from_raw_def by (simp split: if_splits)

lemma hex_digit_upper_inject:
  assumes "m < 16" and "n < 16" and "hex_digit_upper m = hex_digit_upper n"
  shows "m = n"
proof -
  have "of_char (hex_digit_upper k) = (if k < 10 then 48 + k else 55 + k)" if "k < 16" for k
    using that by (simp add: hex_digit_upper_def)
  then have "(if m < 10 then 48 + m else 55 + m) = (if n < 10 then 48 + n else 55 + n)"
    using assms by metis
  with assms(1,2) show ?thesis by (auto split: if_splits)
qed

lemma hex4_decomp:
  "n < 65536 \<Longrightarrow> n = 4096 * (n div 4096 mod 16) + 256 * (n div 256 mod 16)
     + 16 * (n div 16 mod 16) + (n mod 16 :: nat)"
proof -
  assume "n < 65536"
  have "n = 16 * (n div 16) + n mod 16" by simp
  moreover have "n div 16 = 16 * (n div 256) + n div 16 mod 16"
    using mult_div_mod_eq [of 16 "n div 16"] by (simp add: div_mult2_eq [symmetric])
  moreover have "n div 256 = 16 * (n div 4096) + n div 256 mod 16"
    using mult_div_mod_eq [of 16 "n div 256"] by (simp add: div_mult2_eq [symmetric])
  moreover have "n div 4096 mod 16 = n div 4096" using \<open>n < 65536\<close> by simp
  ultimately show ?thesis by linarith
qed

lemma error_code_fmt_inject:
  assumes "error_code_fmt c = error_code_fmt d"
  shows "c = d"
proof -
  let ?m = "unat (error_code_as_u16 c)" and ?n = "unat (error_code_as_u16 d)"
  have "?m div k mod 16 = ?n div k mod 16" if "k \<in> {4096, 256, 16, 1}" for k
    using that assms by (intro hex_digit_upper_inject) (auto simp: error_code_fmt_def Let_def)
  from this [of 4096] this [of 256] this [of 16] this [of 1]
  have "?m = ?n"
    using hex4_decomp [of ?m] hex4_decomp [of ?n] unat_less [of "error_code_as_u16 c"]
      unat_less [of "error_code_as_u16 d"] by simp
  then have "error_code_as_u16 c = error_code_as_u16 d" by (rule unsigned_word_eqI)
  then show ?thesis by (metis error_code_from_as)
qed

text \<open>
  Error codes survive the wire: the numeric code of an error code reads back as the same
  code, every unknown number reads as the internal error, and the printed forms of different
  codes differ.
\<close>

theorem error_code_roundtrip:
  "error_code_from_raw (error_code_as_u16 c) = c \<and>
   (error_code_from_raw raw = InternalError \<or> error_code_as_u16 (error_code_from_raw raw) = raw) \<and>
   (error_code_fmt c = error_code_fmt d \<longleftrightarrow> c = d)"
  using error_code_from_as error_code_as_from error_code_fmt_inject by blast

end
