(* ===== verification/Frame_Codec.thy ===== *)
theory Frame_Codec
  imports Errors
begin

text \<open>
  The binary frame codec of \<open>nsmt-core/src/frame.rs\<close>: frame types and their wire bytes, the
  frame record, \<open>FrameCodec::encode\<close> and \<open>FrameCodec::decode\<close>.  The contract of a codec (it
  round-trips, it asks for more bytes on every proper prefix, it accepts nothing but encodings)
  is the locale \<open>wire_codec\<close>; unique decodability of a byte stream is proved inside it once.
\<close>

definition MAGIC :: byte where "MAGIC = 0x59"
definition PROTOCOL_VERSION :: byte where "PROTOCOL_VERSION = 1"
definition CHUNK_SIZE :: nat where "CHUNK_SIZE = 1024 * 1024"
definition MAX_PAYLOAD_LEN :: u32 where "MAX_PAYLOAD_LEN = 16 * 1024 * 1024"

datatype frame_type =
  Hello | HelloAck | Auth | Ticket | Register | RegisterAck | Heartbeat | OnlineList |
  OnlineDelta | MemoryRecall | MemoryRecallResult | MemoryCapture | MemoryCaptureResult |
  FileTree | FileDiff | FileDiffResult | FileGet | FilePut | FileChunk | FilePutAck |
  LockAcquire | LockRenew | LockRelease | LockGranted | LockDenied | LockNotify | PeerHello
  | PeerAuth | PeerAuthOk | PeerHint | Error

fun frame_type_as_u8 :: "frame_type \<Rightarrow> byte" where
  "frame_type_as_u8 Hello = 0x01"
| "frame_type_as_u8 HelloAck = 0x02"
| "frame_type_as_u8 Auth = 0x03"
| "frame_type_as_u8 Ticket = 0x04"
| "frame_type_as_u8 Register = 0x05"
| "frame_type_as_u8 RegisterAck = 0x06"
| "frame_type_as_u8 Heartbeat = 0x10"
| "frame_type_as_u8 OnlineList = 0x11"
| "frame_type_as_u8 OnlineDelta = 0x12"
| "frame_type_as_u8 MemoryRecall = 0x20"
| "frame_type_as_u8 MemoryRecallResult = 0x21"
| "frame_type_as_u8 MemoryCapture = 0x22"
| "frame_type_as_u8 MemoryCaptureResult = 0x23"
| "frame_type_as_u8 FileTree = 0x30"
| "frame_type_as_u8 FileDiff = 0x31"
| "frame_type_as_u8 FileDiffResult = 0x32"
| "frame_type_as_u8 FileGet = 0x33"
| "frame_type_as_u8 FilePut = 0x34"
| "frame_type_as_u8 FileChunk = 0x35"
| "frame_type_as_u8 FilePutAck = 0x36"
| "frame_type_as_u8 LockAcquire = 0x40"
| "frame_type_as_u8 LockRenew = 0x41"
| "frame_type_as_u8 LockRelease = 0x42"
| "frame_type_as_u8 LockGranted = 0x43"
| "frame_type_as_u8 LockDenied = 0x44"
| "frame_type_as_u8 LockNotify = 0x45"
| "frame_type_as_u8 PeerHello = 0x50"
| "frame_type_as_u8 PeerAuth = 0x51"
| "frame_type_as_u8 PeerAuthOk = 0x52"
| "frame_type_as_u8 PeerHint = 0x53"
| "frame_type_as_u8 Error = 0xF0"

definition frame_type_from_raw :: "byte \<Rightarrow> frame_type option" where
  "frame_type_from_raw raw =
     (if raw = 0x01 then Some Hello
      else if raw = 0x02 then Some HelloAck
      else if raw = 0x03 then Some Auth
      else if raw = 0x04 then Some Ticket
      else if raw = 0x05 then Some Register
      else if raw = 0x06 then Some RegisterAck
      else if raw = 0x10 then Some Heartbeat
      else if raw = 0x11 then Some OnlineList
      else if raw = 0x12 then Some OnlineDelta
      else if raw = 0x20 then Some MemoryRecall
      else if raw = 0x21 then Some MemoryRecallResult
      else if raw = 0x22 then Some MemoryCapture
      else if raw = 0x23 then Some MemoryCaptureResult
      else if raw = 0x30 then Some FileTree
      else if raw = 0x31 then Some FileDiff
      else if raw = 0x32 then Some FileDiffResult
      else if raw = 0x33 then Some FileGet
      else if raw = 0x34 then Some FilePut
      else if raw = 0x35 then Some FileChunk
      else if raw = 0x36 then Some FilePutAck
      else if raw = 0x40 then Some LockAcquire
      else if raw = 0x41 then Some LockRenew
      else if raw = 0x42 then Some LockRelease
      else if raw = 0x43 then Some LockGranted
      else if raw = 0x44 then Some LockDenied
      else if raw = 0x45 then Some LockNotify
      else if raw = 0x50 then Some PeerHello
      else if raw = 0x51 then Some PeerAuth
      else if raw = 0x52 then Some PeerAuthOk
      else if raw = 0x53 then Some PeerHint
      else if raw = 0xF0 then Some Error
      else None)"

type_synonym flags = byte

definition e2e_encrypted :: "flags \<Rightarrow> bool" where
  "e2e_encrypted fl \<longleftrightarrow> fl AND 0x01 \<noteq> 0"

definition compressed :: "flags \<Rightarrow> bool" where
  "compressed fl \<longleftrightarrow> fl AND 0x02 \<noteq> 0"

record frame =
  frame_type :: frame_type
  flags :: flags
  stream_id :: u32
  payload :: bytes

definition frame_new :: "frame_type \<Rightarrow> u32 \<Rightarrow> bytes \<Rightarrow> frame" where
  "frame_new t sid p = \<lparr>frame_type = t, flags = 0, stream_id = sid, payload = p\<rparr>"

definition encode :: "frame \<Rightarrow> nsmt_error + bytes" where
  "encode f =
     (if length (payload f) > unat MAX_PAYLOAD_LEN then Inl (FrameTooLarge (length (payload f)))
      else Inr ([MAGIC, PROTOCOL_VERSION, flags f, frame_type_as_u8 (frame_type f)]
                @ u32_to_le_bytes (stream_id f)
                @ u32_to_le_bytes (of_nat (length (payload f)))
                @ payload f))"

definition decode :: "bytes \<Rightarrow> nsmt_error + frame option" where
  "decode buf =
     (if length buf < 12 then Inr None
      else if buf ! 0 \<noteq> MAGIC then Inl (InvalidMagic (buf ! 0))
      else if buf ! 1 \<noteq> PROTOCOL_VERSION then Inl (UnsupportedVersion (buf ! 1))
      else case frame_type_from_raw (buf ! 3) of
        None \<Rightarrow> Inl (Protocol (''unknown frame type 0x'' @ fmt_hex (unat (buf ! 3))))
      | Some ft \<Rightarrow>
          (let fl = buf ! 2;
               sid = from_le [buf ! 4, buf ! 5, buf ! 6, buf ! 7];
               payload_len = unat (from_le [buf ! 8, buf ! 9, buf ! 10, buf ! 11] :: u32)
           in if payload_len > unat MAX_PAYLOAD_LEN then Inl (FrameTooLarge payload_len)
              else if length buf < 12 + payload_len then Inr None
              else Inr (Some \<lparr>frame_type = ft, flags = fl, stream_id = sid,
                              payload = take payload_len (drop 12 buf)\<rparr>)))"

section \<open>Frame types\<close>

lemma frame_type_from_as [simp]: "frame_type_from_raw (frame_type_as_u8 t) = Some t"
  by (cases t) (simp_all add: frame_type_from_raw_def)

lemma frame_type_as_from: "frame_type_from_raw r = Some t \<Longrightarrow> frame_type_as_u8 t = r"
  unfolding frame_type_from_raw_def by (auto split: if_splits)

section \<open>Headers\<close>

lemma MAX_PAYLOAD_LEN_unat [simp]: "unat MAX_PAYLOAD_LEN = 16777216"
  by (simp add: MAX_PAYLOAD_LEN_def)

lemma unat_payload_len: "n \<le> 16777216 \<Longrightarrow> unat (of_nat n :: u32) = n"
  by (simp add: unat_of_nat)

lemma to_le_4_nths: "to_le 4 w = [to_le 4 w ! 0, to_le 4 w ! 1, to_le 4 w ! 2, to_le 4 w ! 3]"
  by (simp add: numeral_eq_Suc)

definition header :: "frame \<Rightarrow> bytes" where
  "header f = [MAGIC, PROTOCOL_VERSION, flags f, frame_type_as_u8 (frame_type f)]
     @ to_le 4 (stream_id f) @ to_le 4 (of_nat (length (payload f)) :: u32)"

lemma length_header [simp]: "length (header f) = 12"
  by (simp add: header_def)

lemma header_nths:
  "header f ! 0 = MAGIC" "header f ! 1 = PROTOCOL_VERSION" "header f ! 2 = flags f"
  "header f ! 3 = frame_type_as_u8 (frame_type f)"
  "from_le [header f ! 4, header f ! 5, header f ! 6, header f ! 7] = stream_id f"
  "from_le [header f ! 8, header f ! 9, header f ! 10, header f ! 11]
     = (of_nat (length (payload f)) :: u32)"
proof -
  have "from_le (to_le 4 (w :: u32)) = w" for w
    by (simp add: from_le_to_le)
  then have le: "from_le [to_le 4 w ! 0, to_le 4 w ! 1, to_le 4 w ! 2, to_le 4 w ! 3] = (w :: u32)"
    for w by (subst (asm) to_le_4_nths) simp
  show "from_le [header f ! 4, header f ! 5, header f ! 6, header f ! 7] = stream_id f"
    and "from_le [header f ! 8, header f ! 9, header f ! 10, header f ! 11]
     = (of_nat (length (payload f)) :: u32)"
    using le [of "stream_id f"] le [of "of_nat (length (payload f))"]
    by (simp_all add: header_def nth_append nth_Cons')
qed (simp_all add: header_def)

lemma encode_header:
  "encode f = (if length (payload f) > 16777216 then Inl (FrameTooLarge (length (payload f)))
     else Inr (header f @ payload f))"
  by (simp add: encode_def header_def)

lemma decode_header:
  assumes "length (payload f) \<le> 16777216" and "prefix (header f) buf"
  shows "decode buf =
    (if length buf < 12 + length (payload f) then Inr None
     else Inr (Some (f\<lparr>payload := take (length (payload f)) (drop 12 buf)\<rparr>)))"
proof -
  from assms(2) obtain rest where buf: "buf = header f @ rest" by (auto simp: prefix_def)
  have nth: "buf ! i = header f ! i" if "i < 12" for i
    using that by (simp add: buf nth_append)
  have len: "unat (of_nat (length (payload f)) :: u32) = length (payload f)"
    using assms(1) by (rule unat_payload_len)
  show ?thesis
    using assms(1) by (simp add: decode_def nth header_nths header_nths(2) [unfolded One_nat_def]
        len del: from_le.simps)
qed

lemma decode_short [simp]: "length buf < 12 \<Longrightarrow> decode buf = Inr None"
  by (simp add: decode_def)

lemma decode_encode_append:
  assumes "encode f = Inr w"
  shows "decode (w @ rest) = Inr (Some f)"
proof -
  from assms have "length (payload f) \<le> 16777216" and w: "w = header f @ payload f"
    by (auto simp: encode_header split: if_splits)
  then show ?thesis by (subst decode_header [where f = f]) simp_all
qed

lemma decode_strict_prefix:
  assumes "encode f = Inr w" and "strict_prefix p w"
  shows "decode p = Inr None"
proof (cases "length p < 12")
  case False
  from assms(1) have pl: "length (payload f) \<le> 16777216" and w: "w = header f @ payload f"
    by (auto simp: encode_header split: if_splits)
  from assms(2) w have "prefix p (header f @ payload f)" "p \<noteq> w" by auto
  then have "prefix (header f) p" using False
    by (metis length_header linorder_not_less prefixI prefix_length_prefix)
  moreover have "length p < length w" using assms(2) by (rule prefix_length_less)
  ultimately show ?thesis
    using pl w by (subst decode_header [where f = f]) simp_all
qed simp

lemma len32_bound: "8 * (4 :: nat) \<le> LENGTH(32)"
  by simp

lemma to_le_from_le_4: "to_le 4 (from_le [a, b, c, d] :: u32) = [a, b, c, d]"
proof -
  have "length [a, b, c, d] = 4" by simp
  then show ?thesis
    using to_le_from_le [of "[a, b, c, d]", where 'a = 32] by (metis le_refl len32_bound)
qed

lemma take_12:
  assumes "12 \<le> length xs"
  shows "take 12 xs = [xs ! 0, xs ! 1, xs ! 2, xs ! 3, xs ! 4, xs ! 5, xs ! 6, xs ! 7,
    xs ! 8, xs ! 9, xs ! 10, xs ! 11]"
  using assms by (auto simp: numeral_eq_Suc Suc_le_length_iff)

lemma take_drop_decomp: "xs = take m xs @ take n (drop m xs) @ drop (m + n) xs"
proof -
  have "take n (drop m xs) @ drop (m + n) xs = drop m xs"
    using append_take_drop_id [of n "drop m xs"] by (simp add: add.commute)
  then show ?thesis by simp
qed

lemma decode_SomeD:
  assumes "decode buf = Inr (Some f)"
  defines "pl \<equiv> unat (from_le [buf ! 8, buf ! 9, buf ! 10, buf ! 11] :: u32)"
  shows "12 \<le> length buf \<and> buf ! 0 = MAGIC \<and> buf ! 1 = PROTOCOL_VERSION \<and>
    pl \<le> 16777216 \<and> 12 + pl \<le> length buf \<and>
    frame_type_from_raw (buf ! 3) = Some (frame_type f) \<and> flags f = buf ! 2 \<and>
    stream_id f = from_le [buf ! 4, buf ! 5, buf ! 6, buf ! 7] \<and>
    payload f = take pl (drop 12 buf)"
proof -
  have "\<not> length buf < 12" "buf ! 0 = MAGIC" "buf ! 1 = PROTOCOL_VERSION"
    using assms(1) unfolding decode_def by (simp_all only: sum.simps option.simps not_False_eq_True split: if_splits)
  moreover from this assms(1) obtain ft where ft: "frame_type_from_raw (buf ! 3) = Some ft"
    unfolding decode_def by (cases "frame_type_from_raw (buf ! 3)") simp_all
  ultimately have "(if pl > 16777216 then Inl (FrameTooLarge pl)
      else if length buf < 12 + pl then Inr None
      else Inr (Some \<lparr>frame_type = ft, flags = buf ! 2,
        stream_id = from_le [buf ! 4, buf ! 5, buf ! 6, buf ! 7],
        payload = take pl (drop 12 buf)\<rparr>)) = Inr (Some f)"
    using assms(1) unfolding decode_def pl_def Let_def
    by (simp only: option.simps if_False if_True refl not_True_eq_False MAX_PAYLOAD_LEN_unat)
  with ft \<open>\<not> length buf < 12\<close> \<open>buf ! 0 = MAGIC\<close> \<open>buf ! 1 = PROTOCOL_VERSION\<close>
  show ?thesis by (auto split: if_splits)
qed

lemma decode_sound:
  assumes "decode buf = Inr (Some f)"
  shows "\<exists>w rest. encode f = Inr w \<and> buf = w @ rest"
proof -
  let ?pl = "from_le [buf ! 8, buf ! 9, buf ! 10, buf ! 11] :: u32"
  note D = decode_SomeD [OF assms]
  have len12: "12 \<le> length buf" and magic: "buf ! 0 = MAGIC"
    and ver: "buf ! 1 = PROTOCOL_VERSION" and ft: "frame_type_from_raw (buf ! 3) = Some (frame_type f)"
    and max: "unat ?pl \<le> 16777216" and enough: "12 + unat ?pl \<le> length buf"
    and f: "flags f = buf ! 2" "stream_id f = from_le [buf ! 4, buf ! 5, buf ! 6, buf ! 7]"
      "payload f = take (unat ?pl) (drop 12 buf)"
    using D by blast+
  have plen: "length (payload f) = unat ?pl" using enough f(3) by simp
  have "header f = [buf ! 0, buf ! 1, buf ! 2, buf ! 3, buf ! 4, buf ! 5, buf ! 6, buf ! 7,
      buf ! 8, buf ! 9, buf ! 10, buf ! 11]"
    using magic ver f(1,2) plen frame_type_as_from [OF ft]
    by (simp add: header_def to_le_from_le_4 del: from_le.simps)
  also have "\<dots> = take 12 buf" using take_12 [OF len12] ..
  finally have "header f = take 12 buf" .
  then have "buf = (header f @ payload f) @ drop (12 + unat ?pl) buf"
    using take_drop_decomp [of buf 12 "unat ?pl"] f(3) by (simp only: append_assoc)
  moreover have "encode f = Inr (header f @ payload f)"
    using plen max by (simp add: encode_header)
  ultimately show ?thesis by blast
qed

section \<open>The contract of a frame codec\<close>

text \<open>
  \<open>enc\<close> may refuse a frame; \<open>dec\<close> returns the first frame of a buffer, asks for more bytes, or
  rejects it.  From the three laws: encodings are prefix-free, so a concatenation of encodings
  determines the frames.
\<close>

locale wire_codec =
  fixes enc :: "'f \<Rightarrow> 'e + 'b list"
    and dec :: "'b list \<Rightarrow> 'e + 'f option"
  assumes dec_enc: "enc f = Inr w \<Longrightarrow> dec (w @ rest) = Inr (Some f)"
    and dec_partial: "enc f = Inr w \<Longrightarrow> strict_prefix p w \<Longrightarrow> dec p = Inr None"
    and dec_sound: "dec buf = Inr (Some f) \<Longrightarrow> \<exists>w rest. enc f = Inr w \<and> buf = w @ rest"
    and enc_nonempty: "enc f = Inr w \<Longrightarrow> w \<noteq> []"
begin

lemma enc_inject:
  assumes "enc f = Inr w" and "enc g = Inr w"
  shows "f = g"
  using dec_enc [OF assms(1), of "[]"] dec_enc [OF assms(2), of "[]"] by simp

lemma enc_prefix_free:
  assumes "enc f = Inr w" and "enc g = Inr v" and "prefix w v"
  shows "f = g"
proof -
  from assms(3) obtain z where v: "v = w @ z" by (auto simp: prefix_def)
  have "dec v = Inr (Some f)" using dec_enc [OF assms(1), of z] v by simp
  moreover have "dec v = Inr (Some g)" using dec_enc [OF assms(2), of "[]"] by simp
  ultimately show ?thesis by simp
qed

lemma append_enc_cancel:
  assumes "enc f = Inr w" and "enc g = Inr v" and "w @ r = v @ s"
  shows "f = g \<and> r = s"
proof -
  have "dec (w @ r) = Inr (Some f)" by (rule dec_enc [OF assms(1)])
  moreover have "dec (v @ s) = Inr (Some g)" by (rule dec_enc [OF assms(2)])
  ultimately have "f = g" using assms(3) by simp
  with assms show ?thesis by simp
qed

lemma concat_enc_unique:
  assumes "list_all2 (\<lambda>f w. enc f = Inr w) fs ws" and "list_all2 (\<lambda>f w. enc f = Inr w) gs vs"
    and "concat ws = concat vs"
  shows "fs = gs"
  using assms
proof (induction fs ws arbitrary: gs vs rule: list_all2_induct)
  case Nil
  then have "concat vs = []" by simp
  with Nil(1) show ?case
    by (cases gs; cases vs) (auto dest: enc_nonempty)
next
  case (Cons f fs w ws)
  have "gs \<noteq> []"
    using Cons.prems Cons.hyps(1) by (auto dest: enc_nonempty)
  then obtain g gs' v vs' where gs: "gs = g # gs'" "vs = v # vs'" "enc g = Inr v"
      "list_all2 (\<lambda>f w. enc f = Inr w) gs' vs'"
    using Cons.prems(1) by (cases gs) (auto simp: list_all2_Cons1)
  have "w @ concat ws = v @ concat vs'" using Cons.prems(2) gs by simp
  then have "f = g \<and> concat ws = concat vs'"
    using append_enc_cancel [OF Cons.hyps(1) gs(3)] by blast
  then show ?case using Cons.IH [OF gs(4)] gs(1) by simp
qed

end

lemma encode_length: "encode f = Inr w \<Longrightarrow> length w = 12 + length (payload f)"
  by (auto simp: encode_header split: if_splits)

interpretation codec: wire_codec encode decode
proof unfold_locales
  show "w \<noteq> []" if "encode f = Inr w" for f w
    using encode_length [OF that] by auto
qed (fact decode_encode_append decode_strict_prefix decode_sound)+

section \<open>Properties\<close>

text \<open>
  C10: the codec is exact.  A frame encodes if and only if its payload is within the limit; its
  encoding, followed by anything, decodes to this frame; and a buffer that decodes to a frame
  starts with the encoding of this frame.
\<close>

theorem frame_codec_exact:
  "((\<exists>w. encode f = Inr w) \<longleftrightarrow> length (payload f) \<le> unat MAX_PAYLOAD_LEN) \<and>
   (decode buf = Inr (Some f) \<longleftrightarrow> (\<exists>w rest. encode f = Inr w \<and> buf = w @ rest))"
proof
  show "(\<exists>w. encode f = Inr w) \<longleftrightarrow> length (payload f) \<le> unat MAX_PAYLOAD_LEN"
    by (auto simp: encode_header)
  show "decode buf = Inr (Some f) \<longleftrightarrow> (\<exists>w rest. encode f = Inr w \<and> buf = w @ rest)"
    using codec.dec_enc codec.dec_sound by blast
qed

text \<open>
  Decoding is incremental: on any proper prefix of an encoded frame it asks for more bytes
  and reports neither a frame nor an error, and distinct lists of frames never have the same
  concatenated encoding.
\<close>

theorem frame_stream_unambiguous:
  assumes "list_all2 (\<lambda>f w. encode f = Inr w) fs ws" and "list_all2 (\<lambda>f w. encode f = Inr w) gs vs"
  shows "(concat ws = concat vs \<longrightarrow> fs = gs) \<and>
    (\<forall>f w p. encode f = Inr w \<longrightarrow> strict_prefix p w \<longrightarrow> decode p = Inr None)"
  using codec.concat_enc_unique [OF assms] codec.dec_partial by blast

theorem frame_stream_unambiguous_witness:
  "let f = frame_new Heartbeat 0 [7] in
   list_all2 (\<lambda>f w. encode f = Inr w) [f] [[0x59, 1, 0, 0x10, 0, 0, 0, 0, 1, 0, 0, 0, 7]] \<and>
   decode [0x59, 1, 0, 0x10, 0, 0, 0, 0, 1, 0, 0, 0] = Inr None"
proof -
  let ?f = "frame_new Heartbeat 0 [7]" and ?w = "[0x59, 1, 0, 0x10, 0, 0, 0, 0, 1, 0, 0, 0, 7]"
  have enc: "encode ?f = Inr ?w"
    by (simp add: encode_def frame_new_def MAGIC_def PROTOCOL_VERSION_def to_le_eval)
  then have l: "list_all2 (\<lambda>f w. encode f = Inr w) [?f] [?w]" by simp
  have "strict_prefix [0x59, 1, 0, 0x10, 0, 0, 0, 0, 1, 0, 0, 0 :: byte] ?w"
    by (simp add: strict_prefix_def)
  with frame_stream_unambiguous [OF l l] enc
  have "decode [0x59, 1, 0, 0x10, 0, 0, 0, 0, 1, 0, 0, 0] = Inr None" by blast
  with l show ?thesis by (simp add: Let_def)
qed

end
