(* ===== verification/Wire.thy ===== *)
theory Wire
  imports Frame_Codec
begin

text \<open>
  The stream layer of \<open>nsmt-core/src/wire.rs\<close>: \<open>FrameStream::send\<close> and \<open>FrameStream::recv\<close>
  over a byte stream that delivers data in pieces of any size.

  A reader is the list of the pieces the transport will deliver: \<open>Data bs\<close> is handed out by as
  many \<open>read\<close> calls as the caller's buffer needs, \<open>Fail e\<close> makes one \<open>read\<close> return an error,
  and the end of the list is the end of the stream (\<open>read\<close> returns 0).
\<close>

datatype event = Data bytes | Fail io_error

type_synonym reader = "event list"

text \<open>\<open>AsyncReadExt::read\<close> on a buffer of \<open>k\<close> bytes.\<close>

fun read :: "nat \<Rightarrow> reader \<Rightarrow> (io_error + bytes) \<times> reader" where
  "read k [] = (Inr [], [])"
| "read k (Fail e # rd) = (Inl e, rd)"
| "read k (Data bs # rd) =
     (if length bs \<le> k then (Inr bs, rd) else (Inr (take k bs), Data (drop k bs) # rd))"

datatype fill_result = Filled bytes | Eof bytes | Failed io_error

lemma read_length: "read k rd = (Inr bs, rd') \<Longrightarrow> length bs \<le> k"
  by (cases "(k, rd)" rule: read.cases) (auto split: if_splits)

text \<open>The loops \<open>while got < n\<close> of \<open>recv\<close>: read until \<open>n\<close> bytes are there.\<close>

function fill :: "nat \<Rightarrow> bytes \<Rightarrow> reader \<Rightarrow> fill_result \<times> reader" where
  "fill n acc rd =
     (if length acc < n
      then (case read (n - length acc) rd of
              (Inl e, rd') \<Rightarrow> (Failed e, rd')
            | (Inr bs, rd') \<Rightarrow> if bs = [] then (Eof acc, rd') else fill n (acc @ bs) rd')
      else (Filled acc, rd))"
  by pat_completeness auto
termination
  by (relation "measure (\<lambda>(n, acc, rd). n - length acc)") (auto intro: diff_less_mono2)

declare fill.simps [simp del]

definition recv :: "reader \<Rightarrow> (nsmt_error + frame option) \<times> reader" where
  "recv rd =
     (case fill 12 [] rd of
        (Failed e, rd1) \<Rightarrow> (Inl (Io e), rd1)
      | (Eof got, rd1) \<Rightarrow>
          (if got = [] then Inr None else Inl (Protocol ''eof in frame header''), rd1)
      | (Filled hdr, rd1) \<Rightarrow>
          (if hdr ! 0 \<noteq> MAGIC then (Inl (InvalidMagic (hdr ! 0)), rd1)
           else if hdr ! 1 \<noteq> PROTOCOL_VERSION then (Inl (UnsupportedVersion (hdr ! 1)), rd1)
           else
             (let payload_len = unat (from_le [hdr ! 8, hdr ! 9, hdr ! 10, hdr ! 11] :: u32)
              in if payload_len > unat MAX_PAYLOAD_LEN then (Inl (FrameTooLarge payload_len), rd1)
                 else (case fill payload_len [] rd1 of
                         (Failed e, rd2) \<Rightarrow> (Inl (Io e), rd2)
                       | (Eof got, rd2) \<Rightarrow> (Inl (Protocol ''eof in frame payload''), rd2)
                       | (Filled pl, rd2) \<Rightarrow>
                           (and_then (decode (hdr @ pl))
                              (\<lambda>r. Inr (map_option (\<lambda>f. f\<lparr>payload := pl\<rparr>) r)), rd2)))))"

text \<open>A writer accepts bytes until it faults.\<close>

record writer =
  written :: bytes
  fault :: "io_error option"

definition write_all :: "bytes \<Rightarrow> writer \<Rightarrow> io_error + writer" where
  "write_all bs w = (case fault w of Some e \<Rightarrow> Inl e | None \<Rightarrow> Inr (w\<lparr>written := written w @ bs\<rparr>))"

definition send :: "frame \<Rightarrow> writer \<Rightarrow> nsmt_error + writer" where
  "send f w = and_then (encode f) (\<lambda>wire.
     (case write_all wire w of Inl e \<Rightarrow> Inl (Io e) | Inr w' \<Rightarrow> Inr w'))"

text \<open>A caller's loops: send a list of frames; receive until the end of the stream.\<close>

fun send_all :: "frame list \<Rightarrow> writer \<Rightarrow> nsmt_error + writer" where
  "send_all [] w = Inr w"
| "send_all (f # fs) w = and_then (send f w) (send_all fs)"

fun recv_n :: "nat \<Rightarrow> reader \<Rightarrow> (nsmt_error + frame list) \<times> reader" where
  "recv_n 0 rd = (Inr [], rd)"
| "recv_n (Suc n) rd =
     (case recv rd of
        (Inl e, rd') \<Rightarrow> (Inl e, rd')
      | (Inr None, rd') \<Rightarrow> (Inr [], rd')
      | (Inr (Some f), rd') \<Rightarrow>
          (case recv_n n rd' of (r, rd'') \<Rightarrow> (and_then r (\<lambda>fs. Inr (f # fs)), rd'')))"

section \<open>Reading does not depend on how the data is cut into pieces\<close>

text \<open>The bytes a fault-free reader delivers, and readers with no empty piece.\<close>

fun data_of :: "reader \<Rightarrow> bytes" where
  "data_of [] = []"
| "data_of (Data bs # rd) = bs @ data_of rd"
| "data_of (Fail e # rd) = data_of rd"

fun clean :: "reader \<Rightarrow> bool" where
  "clean [] = True"
| "clean (Data bs # rd) = (bs \<noteq> [] \<and> clean rd)"
| "clean (Fail e # rd) = False"

lemma read_clean:
  assumes "clean rd" and "0 < k"
  shows "\<exists>bs rd'. read k rd = (Inr bs, rd') \<and> clean rd' \<and> data_of rd = bs @ data_of rd' \<and>
    length bs \<le> k \<and> (bs = [] \<longleftrightarrow> rd = [])"
  using assms by (cases "(k, rd)" rule: read.cases) auto

lemma clean_empty: "clean rd \<Longrightarrow> data_of rd = [] \<longleftrightarrow> rd = []"
  by (cases rd rule: clean.cases) auto

lemma fill_clean:
  assumes "clean rd" and "length acc \<le> n"
  shows "\<exists>rd'. clean rd' \<and>
    (if n - length acc \<le> length (data_of rd)
     then fill n acc rd = (Filled (acc @ take (n - length acc) (data_of rd)), rd') \<and>
          data_of rd' = drop (n - length acc) (data_of rd)
     else fill n acc rd = (Eof (acc @ data_of rd), rd') \<and> rd' = [])"
  using assms
proof (induction n acc rd rule: fill.induct)
  case (1 n acc rd)
  show ?case
  proof (cases "length acc < n")
    case True
    then obtain bs rd1 where rd: "read (n - length acc) rd = (Inr bs, rd1)" "clean rd1"
        "data_of rd = bs @ data_of rd1" "length bs \<le> n - length acc" "bs = [] \<longleftrightarrow> rd = []"
      using read_clean [OF \<open>clean rd\<close>, of "n - length acc"] by auto
    show ?thesis
    proof (cases "bs = []")
      case bs: True
      then have "rd = []" "rd1 = []" using rd by auto
      then show ?thesis using True by (auto simp: fill.simps [of n acc])
    next
      case bs: False
      have step: "fill n acc rd = fill n (acc @ bs) rd1"
        using True rd(1) bs by (simp add: fill.simps [of n acc rd])
      have "length (acc @ bs) \<le> n" using rd(4) True by simp
      from "1.IH" [OF True rd(1) [symmetric] refl bs rd(2) this] True rd(4)
      show ?thesis
        by (cases "n - length acc \<le> length bs + length (data_of rd1)")
          (auto simp: step rd(3) diff_diff_add)
    qed
  next
    case False
    then show ?thesis using 1 by (auto simp: fill.simps [of n acc])
  qed
qed

text \<open>
  The reference for \<open>recv\<close> on a fault-free stream: it looks only at the bytes that are left.
\<close>

definition recv_flat :: "bytes \<Rightarrow> (nsmt_error + frame option) \<times> bytes" where
  "recv_flat s =
     (if length s < 12
      then (if s = [] then Inr None else Inl (Protocol ''eof in frame header''), [])
      else if s ! 0 \<noteq> MAGIC then (Inl (InvalidMagic (s ! 0)), drop 12 s)
      else if s ! 1 \<noteq> PROTOCOL_VERSION then (Inl (UnsupportedVersion (s ! 1)), drop 12 s)
      else
        (let n = unat (from_le [s ! 8, s ! 9, s ! 10, s ! 11] :: u32)
         in if n > unat MAX_PAYLOAD_LEN then (Inl (FrameTooLarge n), drop 12 s)
            else if length s < 12 + n then (Inl (Protocol ''eof in frame payload''), [])
            else (decode (take (12 + n) s), drop (12 + n) s)))"

lemma decode_payload:
  assumes "decode (hdr @ pl) = Inr (Some f)" and "length hdr = 12"
    and "unat (from_le [hdr ! 8, hdr ! 9, hdr ! 10, hdr ! 11] :: u32) = length pl"
  shows "payload f = pl"
  using decode_SomeD [OF assms(1)] assms(2,3) by (simp add: nth_append del: from_le.simps)

lemma recv_clean:
  assumes "clean rd"
  shows "\<exists>rd'. recv rd = (fst (recv_flat (data_of rd)), rd') \<and> clean rd' \<and>
    data_of rd' = snd (recv_flat (data_of rd))"
proof -
  let ?s = "data_of rd"
  obtain rd1 where rd1: "clean rd1"
    and fill1: "if 12 \<le> length ?s then fill 12 [] rd = (Filled (take 12 ?s), rd1) \<and> data_of rd1 = drop 12 ?s
      else fill 12 [] rd = (Eof ?s, rd1) \<and> rd1 = []"
    using fill_clean [OF assms, of "[]" 12] by auto
  show ?thesis
  proof (cases "12 \<le> length ?s")
    case False
    then show ?thesis using fill1 rd1 by (simp add: recv_def recv_flat_def)
  next
    case True
    let ?n = "unat (from_le [?s ! 8, ?s ! 9, ?s ! 10, ?s ! 11] :: u32)"
    obtain rd2 where rd2: "clean rd2"
      and fill2: "if ?n \<le> length ?s - 12
        then fill ?n [] rd1 = (Filled (take ?n (drop 12 ?s)), rd2) \<and> data_of rd2 = drop (12 + ?n) ?s
        else fill ?n [] rd1 = (Eof (drop 12 ?s), rd2) \<and> rd2 = []"
      using fill_clean [OF rd1, of "[]" ?n] fill1 True
      by (auto simp: add.commute simp del: from_le.simps)
    have cut: "take 12 ?s @ take ?n (drop 12 ?s) = take (12 + ?n) ?s"
      by (simp add: take_add)
    have pl: "map_option (\<lambda>f. f\<lparr>payload := take ?n (drop 12 ?s)\<rparr>) r = r"
      if "decode (take (12 + ?n) ?s) = Inr r" and "?n \<le> length ?s - 12" for r
    proof (cases r)
      case (Some f)
      then have "payload f = take ?n (drop 12 ?s)"
        using that True by (intro decode_payload [of "take 12 ?s"]) (simp_all add: cut del: from_le.simps)
      with Some show ?thesis by simp
    qed simp
    have dec: "and_then (decode (take 12 ?s @ take ?n (drop 12 ?s)))
        (\<lambda>r. Inr (map_option (\<lambda>f. f\<lparr>payload := take ?n (drop 12 ?s)\<rparr>) r)) = decode (take (12 + ?n) ?s)"
      if "?n \<le> length ?s - 12"
      using pl [OF _ that] by (cases "decode (take (12 + ?n) ?s)") (simp_all add: cut del: from_le.simps)
    show ?thesis
      using True fill1 rd1 fill2 rd2 dec
      by (cases "?n \<le> length ?s - 12")
        (auto simp: recv_def recv_flat_def Let_def simp del: from_le.simps)
  qed
qed

lemma recv_flat_encode:
  assumes "encode f = Inr w"
  shows "recv_flat (w @ rest) = (Inr (Some f), rest)"
proof -
  from assms have pl: "length (payload f) \<le> 16777216" and w: "w = header f @ payload f"
    by (auto simp: encode_header split: if_splits)
  have nth: "(header f @ payload f @ rest) ! i = header f ! i" if "i < 12" for i
    using that by (simp add: nth_append)
  have "decode w = Inr (Some f)" using codec.dec_enc [OF assms, of "[]"] by simp
  then show ?thesis
    using pl unat_payload_len [OF pl]
    by (simp add: recv_flat_def nth header_nths header_nths(2) [unfolded One_nat_def] w
        del: from_le.simps)
qed

section \<open>Sending and receiving\<close>

lemma send_eq_Inr:
  "send f w = Inr w' \<longleftrightarrow> (\<exists>v. encode f = Inr v \<and> write_all v w = Inr w')"
  by (cases "encode f") (auto simp: send_def split: sum.splits)

lemma send_all_written:
  assumes "send_all fs w = Inr w'"
  shows "\<exists>ws. list_all2 (\<lambda>f v. encode f = Inr v) fs ws \<and> written w' = written w @ concat ws"
  using assms
proof (induction fs arbitrary: w)
  case Nil
  then show ?case by (auto intro: exI [of _ "[]"])
next
  case (Cons f fs)
  then obtain v w1 where v: "encode f = Inr v" and w1: "write_all v w = Inr w1"
      and rest: "send_all fs w1 = Inr w'"
    by (auto simp: and_then_eq_Inr send_eq_Inr)
  from Cons.IH [OF rest] obtain ws where
    "list_all2 (\<lambda>f v. encode f = Inr v) fs ws" "written w' = written w1 @ concat ws" by blast
  with v w1 show ?case
    by (intro exI [of _ "v # ws"]) (auto simp: write_all_def split: option.splits)
qed

lemma send_all_ok:
  assumes "\<forall>f \<in> set fs. length (payload f) \<le> 16777216" and "fault w = None"
  shows "\<exists>w'. send_all fs w = Inr w' \<and> fault w' = None"
  using assms by (induction fs arbitrary: w) (auto simp: send_def write_all_def encode_header)

lemma recv_n_clean:
  assumes "list_all2 (\<lambda>f v. encode f = Inr v) fs ws" and "clean rd" and "data_of rd = concat ws"
    and "length fs < n"
  shows "recv_n n rd = (Inr fs, [])"
  using assms
proof (induction fs ws arbitrary: rd n rule: list_all2_induct)
  case Nil
  then obtain m where "n = Suc m" by (cases n) auto
  moreover have "rd = []" using Nil clean_empty by simp
  ultimately show ?case
    by (simp add: recv_def fill.simps)
next
  case (Cons f fs v ws)
  then obtain m where n: "n = Suc m" "length fs < m" by (cases n) auto
  have "recv_flat (data_of rd) = (Inr (Some f), concat ws)"
    using Cons.prems(2) Cons.hyps(1) recv_flat_encode by simp
  then obtain rd' where "recv rd = (Inr (Some f), rd')" "clean rd'" "data_of rd' = concat ws"
    using recv_clean [OF Cons.prems(1)] by auto
  with Cons.IH n show ?case by simp
qed

text \<open>
  C11: frames travel a stream unchanged.  Whatever list of frames is sent on a fresh writer, a
  receiver that gets the written bytes cut into any non-empty pieces reads exactly these
  frames, in order, and then the end of the stream.
\<close>

theorem send_recv_stream:
  assumes "fault w = None" and "written w = []" and "send_all fs w = Inr w'"
    and "clean rd" and "data_of rd = written w'"
  shows "recv_n (Suc (length fs)) rd = (Inr fs, [])"
proof -
  from send_all_written [OF assms(3)] assms(2,5) obtain ws where
    "list_all2 (\<lambda>f v. encode f = Inr v) fs ws" "data_of rd = concat ws" by auto
  with assms(4) show ?thesis by (intro recv_n_clean) simp_all
qed

theorem send_recv_stream_witness:
  "recv_n 2 [Data [0x59, 1], Data [0, 0x10, 7, 0, 0, 0, 2, 0, 0, 0, 5], Data [6]]
     = (Inr [\<lparr>frame_type = Heartbeat, flags = 0, stream_id = 7, payload = [5, 6]\<rparr>], [])"
proof -
  let ?f = "\<lparr>frame_type = Heartbeat, flags = 0, stream_id = 7, payload = [5, 6]\<rparr>"
  let ?w = "\<lparr>written = [], fault = None\<rparr>"
  let ?rd = "[Data [0x59, 1], Data [0, 0x10, 7, 0, 0, 0, 2, 0, 0, 0, 5], Data [6]]"
  have *: "send_all [?f] ?w = Inr \<lparr>written = data_of ?rd, fault = None\<rparr>"
    by (simp add: send_def encode_def write_all_def MAGIC_def PROTOCOL_VERSION_def to_le_eval)
  have "recv_n (Suc (length [?f])) ?rd = (Inr [?f], [])"
    by (rule send_recv_stream [OF _ _ *]) simp_all
  then show ?thesis by (simp add: numeral_2_eq_2 del: recv_n.simps)
qed

text \<open>
  C12: \<open>recv\<close> on a stream without faults depends only on the bytes still to come: it agrees with
  the reference \<open>recv_flat\<close> on every outcome (frame, clean end, each of the errors), for every
  way the transport cuts the bytes.
\<close>

theorem recv_chunking_independent:
  assumes "clean rd"
  shows "fst (recv rd) = fst (recv_flat (data_of rd)) \<and>
    data_of (snd (recv rd)) = snd (recv_flat (data_of rd))"
  using recv_clean [OF assms] by auto

theorem recv_chunking_independent_witness:
  "fst (recv [Data [0x58], Data [1, 0, 0, 0, 0, 0], Data [0, 0, 0, 0, 0]]) = Inl (InvalidMagic 0x58)"
  using recv_chunking_independent [of "[Data [0x58], Data [1, 0, 0, 0, 0, 0], Data [0, 0, 0, 0, 0]]"]
  by (simp add: recv_flat_def MAGIC_def)

end
