(* ===== verification/Identity.thy ===== *)
theory Identity
  imports Errors
begin

text \<open>
  Identities and namespaces of \<open>nsmt-core/src/identity.rs\<close>: the validated newtypes
  \<open>UserDomain\<close>, \<open>MachineId\<close> and \<open>AgentTag\<close>, the fully qualified name
  \<open>user_domain/machine_id/agent_tag\<close> with its printer and parser, and the machine code derived
  from hardware data.  SHA-256 and \<open>hex::encode\<close> are parameters.
\<close>

datatype user_domain = UserDomain (ud_as_str: string)
datatype machine_id = MachineId (mid_as_str: string)
datatype agent_tag = AgentTag (tag_as_str: string)

record fqn =
  user_domain :: user_domain
  machine_id :: machine_id
  agent_tag :: agent_tag

text \<open>
  The \<open>{:?}\<close> rendering of a string in an error message; characters outside ASCII are kept.
\<close>

definition escape_debug :: "char \<Rightarrow> string" where
  "escape_debug c =
     (if c = CHR ''\"'' then [CHR 0x5C, c]
      else if c = CHR 0x5C then [c, c]
      else if c = CHR 0x0A then [CHR 0x5C, CHR ''n'']
      else if c = CHR 0x0D then [CHR 0x5C, CHR ''r'']
      else if c = CHR 0x09 then [CHR 0x5C, CHR ''t'']
      else if c = CHR 0x00 then [CHR 0x5C, CHR ''0'']
      else if c < CHR 0x20 \<or> c = CHR 0x7F
        then [CHR 0x5C] @ ''u{'' @ fmt_hex (of_char c) @ ''}''
      else [c])"

definition debug_str :: "string \<Rightarrow> string" where
  "debug_str s = [CHR ''\"''] @ concat (map escape_debug s) @ [CHR ''\"'']"

definition in_dot_under_dash :: "char \<Rightarrow> bool" where
  "in_dot_under_dash c \<longleftrightarrow> c \<in> set ''._-''"

definition user_domain_new :: "string \<Rightarrow> nsmt_error + user_domain" where
  "user_domain_new s =
     (let valid = s \<noteq> [] \<and> length s \<le> 64
        \<and> list_all (\<lambda>c. is_ascii_lowercase c \<or> is_ascii_digit c \<or> in_dot_under_dash c) s
      in if \<not> valid then Inl (InvalidFqn (''invalid user_domain: '' @ debug_str s))
         else Inr (UserDomain s))"

definition agent_tag_new :: "string \<Rightarrow> nsmt_error + agent_tag" where
  "agent_tag_new s =
     (let valid = s \<noteq> [] \<and> length s \<le> 63
        \<and> list_all (\<lambda>c. is_ascii_alphanumeric c \<or> in_dot_under_dash c) s
      in if \<not> valid then Inl (InvalidFqn (''invalid agent_tag: '' @ debug_str s))
         else Inr (AgentTag s))"

definition fqn_to_string :: "fqn \<Rightarrow> string" where
  "fqn_to_string f = ud_as_str (user_domain f) @ ''/'' @ mid_as_str (machine_id f)
     @ ''/'' @ tag_as_str (agent_tag f)"

definition fqn_from_str :: "string \<Rightarrow> nsmt_error + fqn" where
  "fqn_from_str s =
     (case splitn 3 CHR ''/'' s of
        [] \<Rightarrow> Inl (InvalidFqn s)
      | [_] \<Rightarrow> Inl (InvalidFqn s)
      | [_, _] \<Rightarrow> Inl (InvalidFqn s)
      | ud # mid # tag # _ \<Rightarrow>
          (if length mid \<noteq> 16 \<or> \<not> list_all is_ascii_hexdigit mid
           then Inl (InvalidFqn (''invalid machine_id: '' @ debug_str mid))
           else and_then (user_domain_new ud) (\<lambda>d.
                  and_then (agent_tag_new tag) (\<lambda>t.
                    Inr \<lparr>user_domain = d, machine_id = MachineId (map ascii_lower mid),
                         agent_tag = t\<rparr>))))"

text \<open>
  The machine code: the first eight bytes of the digest of the hardware id and the host name
  (each when available) and \<open>os/arch\<close>, in hexadecimal; the flag says whether the hardware id
  was available.
\<close>

definition generate_machine_id ::
  "(bytes \<Rightarrow> bytes) \<Rightarrow> (bytes \<Rightarrow> string) \<Rightarrow> string option \<Rightarrow> string option \<Rightarrow> string \<Rightarrow> string
     \<Rightarrow> machine_id \<times> bool" where
  "generate_machine_id sha256 hex_encode hw host os arch =
     (let part = (\<lambda>x. case x of None \<Rightarrow> [] | Some s \<Rightarrow> as_bytes s);
          digest = sha256 (part hw @ part host @ as_bytes (os @ ''/'' @ arch))
      in (MachineId (hex_encode (take 8 digest)), hw \<noteq> None))"

section \<open>Which names are accepted\<close>

definition domain_char :: "char \<Rightarrow> bool" where
  "domain_char c \<longleftrightarrow> is_ascii_lowercase c \<or> is_ascii_digit c \<or> in_dot_under_dash c"

definition tag_char :: "char \<Rightarrow> bool" where
  "tag_char c \<longleftrightarrow> is_ascii_alphanumeric c \<or> in_dot_under_dash c"

definition lower_hex :: "char \<Rightarrow> bool" where
  "lower_hex c \<longleftrightarrow> is_ascii_digit c \<or> (CHR ''a'' \<le> c \<and> c \<le> CHR ''f'')"

definition valid_fqn :: "fqn \<Rightarrow> bool" where
  "valid_fqn f \<longleftrightarrow>
     (let d = ud_as_str (user_domain f); m = mid_as_str (machine_id f); t = tag_as_str (agent_tag f)
      in d \<noteq> [] \<and> length d \<le> 64 \<and> list_all domain_char d \<and>
         length m = 16 \<and> list_all lower_hex m \<and>
         t \<noteq> [] \<and> length t \<le> 63 \<and> list_all tag_char t)"

lemmas char_class_defs = is_ascii_lowercase_def is_ascii_uppercase_def is_ascii_digit_def
  is_ascii_alphanumeric_def is_ascii_hexdigit_def domain_char_def tag_char_def lower_hex_def
  in_dot_under_dash_def

lemma user_domain_new_iff:
  "user_domain_new s = Inr d \<longleftrightarrow>
     d = UserDomain s \<and> s \<noteq> [] \<and> length s \<le> 64 \<and> list_all domain_char s"
  by (auto simp: user_domain_new_def domain_char_def list_all_iff)

lemma agent_tag_new_iff:
  "agent_tag_new s = Inr t \<longleftrightarrow> t = AgentTag s \<and> s \<noteq> [] \<and> length s \<le> 63 \<and> list_all tag_char s"
  by (auto simp: agent_tag_new_def tag_char_def list_all_iff)

lemma slash_classes: "\<not> domain_char CHR ''/''" "\<not> tag_char CHR ''/''" "\<not> is_ascii_hexdigit CHR ''/''"
  by (simp_all add: char_class_defs)

lemma lower_hex_ascii_hexdigit: "lower_hex c \<Longrightarrow> is_ascii_hexdigit c"
  by (auto simp: char_class_defs)

lemma lower_hex_not_upper: "lower_hex c \<Longrightarrow> \<not> is_ascii_uppercase c"
  by (auto simp: char_class_defs less_eq_char_def)

lemma ascii_lower_lower_hex [simp]: "lower_hex c \<Longrightarrow> ascii_lower c = c"
  by (simp add: ascii_lower_def lower_hex_not_upper)

lemma lower_hex_ascii_lower: "is_ascii_hexdigit c \<Longrightarrow> lower_hex (ascii_lower c)"
  by (auto simp: char_class_defs ascii_lower_def less_eq_char_def)

lemma list_all_slash: "\<not> P CHR ''/'' \<Longrightarrow> list_all P s \<Longrightarrow> CHR ''/'' \<notin> set s"
  by (auto simp: list_all_iff)

lemma splitn_append:
  assumes "c \<notin> set s"
  shows "splitn (Suc (Suc n)) c (s @ c # t) = s # splitn (Suc n) c t"
  using assms by (simp add: takeWhile_append dropWhile_append)

lemma splitn_3: "c \<notin> set a \<Longrightarrow> c \<notin> set b \<Longrightarrow> splitn 3 c (a @ [c] @ b @ [c] @ t) = [a, b, t]"
  using splitn_append [of c a 1] splitn_append [of c b 0] by (simp add: numeral_3_eq_3 del: splitn.simps(3))

lemma splitn_3D:
  assumes "splitn 3 c s = a # b # t # r"
  shows "s = a @ [c] @ b @ [c] @ t \<and> c \<notin> set a \<and> c \<notin> set b \<and> r = []"
proof -
  have decomp: "xs = takeWhile (\<lambda>x. x \<noteq> c) xs @ c # tl (dropWhile (\<lambda>x. x \<noteq> c) xs)" if "c \<in> set xs" for xs
  proof -
    have "dropWhile (\<lambda>x. x \<noteq> c) xs \<noteq> []" using that by (simp add: dropWhile_eq_Nil_conv)
    moreover have "hd (dropWhile (\<lambda>x. x \<noteq> c) xs) = c" using hd_dropWhile calculation by blast
    ultimately show ?thesis by (metis list.collapse takeWhile_dropWhile_id)
  qed
  from assms have 1: "c \<in> set s" and a: "a = takeWhile (\<lambda>x. x \<noteq> c) s"
    and rest: "splitn 2 c (tl (dropWhile (\<lambda>x. x \<noteq> c) s)) = b # t # r"
    by (auto simp: numeral_3_eq_3 numeral_2_eq_2 split: if_splits)
  from rest have 2: "c \<in> set (tl (dropWhile (\<lambda>x. x \<noteq> c) s))"
    and b: "b = takeWhile (\<lambda>x. x \<noteq> c) (tl (dropWhile (\<lambda>x. x \<noteq> c) s))"
    and t: "t = tl (dropWhile (\<lambda>x. x \<noteq> c) (tl (dropWhile (\<lambda>x. x \<noteq> c) s)))" "r = []"
    by (auto simp: numeral_2_eq_2 split: if_splits)
  have "c \<notin> set a" "c \<notin> set b" by (auto simp: a b dest: set_takeWhileD)
  then show ?thesis using decomp [OF 1] decomp [OF 2] a b t by auto
qed

section \<open>Printing and parsing\<close>

lemma fqn_from_str_parts:
  assumes "CHR ''/'' \<notin> set d" and "CHR ''/'' \<notin> set m"
  shows "fqn_from_str (d @ ''/'' @ m @ ''/'' @ t) =
    (if length m \<noteq> 16 \<or> \<not> list_all is_ascii_hexdigit m
     then Inl (InvalidFqn (''invalid machine_id: '' @ debug_str m))
     else and_then (user_domain_new d) (\<lambda>d'. and_then (agent_tag_new t) (\<lambda>t'.
        Inr \<lparr>user_domain = d', machine_id = MachineId (map ascii_lower m), agent_tag = t'\<rparr>)))"
  using splitn_3 [OF assms, of t] by (simp add: fqn_from_str_def)

lemma fqn_from_str_InrD:
  assumes "fqn_from_str s = Inr f"
  shows "\<exists>d m t. s = d @ ''/'' @ m @ ''/'' @ t \<and> length m = 16 \<and> list_all is_ascii_hexdigit m \<and>
    user_domain_new d = Inr (user_domain f) \<and> agent_tag_new t = Inr (agent_tag f) \<and>
    machine_id f = MachineId (map ascii_lower m)"
proof -
  obtain d m t r where sp: "splitn 3 CHR ''/'' s = d # m # t # r"
    using assms by (auto simp: fqn_from_str_def split: list.splits)
  then have s: "s = d @ ''/'' @ m @ ''/'' @ t" and "CHR ''/'' \<notin> set d" "CHR ''/'' \<notin> set m"
    using splitn_3D [OF sp] by auto
  with assms have "length m = 16 \<and> list_all is_ascii_hexdigit m \<and>
    user_domain_new d = Inr (user_domain f) \<and> agent_tag_new t = Inr (agent_tag f) \<and>
    machine_id f = MachineId (map ascii_lower m)"
    by (auto simp: fqn_from_str_parts [of d m t, simplified] and_then_eq_Inr split: if_splits)
  with s show ?thesis by blast
qed

text \<open>
  Printing a well-formed name and parsing it gives the name back.
\<close>

theorem fqn_roundtrip:
  assumes "valid_fqn f"
  shows "fqn_from_str (fqn_to_string f) = Inr f"
proof -
  obtain d m t where f: "f = \<lparr>user_domain = UserDomain d, machine_id = MachineId m, agent_tag = AgentTag t\<rparr>"
    by (metis agent_tag.exhaust fqn.cases machine_id.exhaust user_domain.exhaust)
  from assms have v: "d \<noteq> []" "length d \<le> 64" "list_all domain_char d" "length m = 16"
      "list_all lower_hex m" "t \<noteq> []" "length t \<le> 63" "list_all tag_char t"
    by (auto simp: valid_fqn_def f Let_def)
  have hex: "list_all is_ascii_hexdigit m" and low: "map ascii_lower m = m"
    using v(5) lower_hex_ascii_hexdigit by (auto simp: list_all_iff intro: map_idI)
  have "CHR ''/'' \<notin> set d" "CHR ''/'' \<notin> set m"
    using v(3) hex slash_classes list_all_slash by blast+
  moreover have "user_domain_new d = Inr (UserDomain d)" "agent_tag_new t = Inr (AgentTag t)"
    using v by (simp_all add: user_domain_new_iff agent_tag_new_iff)
  ultimately show ?thesis
    using v(4) hex low fqn_from_str_parts [of d m t] by (simp add: fqn_to_string_def f)
qed

theorem fqn_roundtrip_witness:
  "fqn_from_str ''ser163/9f2c81d4deadbeef/maka'' =
     Inr \<lparr>user_domain = UserDomain ''ser163'', machine_id = MachineId ''9f2c81d4deadbeef'',
          agent_tag = AgentTag ''maka''\<rparr>"
proof -
  let ?f = "\<lparr>user_domain = UserDomain ''ser163'', machine_id = MachineId ''9f2c81d4deadbeef'',
          agent_tag = AgentTag ''maka''\<rparr>"
  have "valid_fqn ?f" by (simp add: valid_fqn_def char_class_defs)
  from fqn_roundtrip [OF this] show ?thesis by (simp add: fqn_to_string_def)
qed

text \<open>
  The parser accepts only well-formed names, and what it returns prints as the input with
  the machine code in lower case.
\<close>

theorem fqn_from_str_sound:
  assumes "fqn_from_str s = Inr f"
  shows "valid_fqn f \<and> (\<exists>d m t. s = d @ ''/'' @ m @ ''/'' @ t \<and>
    fqn_to_string f = d @ ''/'' @ map ascii_lower m @ ''/'' @ t)"
proof -
  from fqn_from_str_InrD [OF assms] obtain d m t where
    s: "s = d @ ''/'' @ m @ ''/'' @ t" "length m = 16" "list_all is_ascii_hexdigit m"
    and f: "user_domain_new d = Inr (user_domain f)" "agent_tag_new t = Inr (agent_tag f)"
      "machine_id f = MachineId (map ascii_lower m)" by blast
  have "list_all lower_hex (map ascii_lower m)"
    using s(3) lower_hex_ascii_lower by (simp add: list_all_iff)
  with s f show ?thesis
    by (auto simp: valid_fqn_def fqn_to_string_def user_domain_new_iff agent_tag_new_iff)
qed

theorem fqn_from_str_sound_witness:
  "valid_fqn \<lparr>user_domain = UserDomain ''ser163'', machine_id = MachineId ''9f2c81d4deadbeef'',
     agent_tag = AgentTag ''maka''\<rparr>"
proof -
  have "fqn_from_str (''ser163'' @ ''/'' @ ''9F2C81D4deadbeef'' @ ''/'' @ ''maka'') =
      Inr \<lparr>user_domain = UserDomain ''ser163'', machine_id = MachineId ''9f2c81d4deadbeef'',
        agent_tag = AgentTag ''maka''\<rparr>"
    by (subst fqn_from_str_parts)
      (simp_all add: user_domain_new_def agent_tag_new_def char_class_defs ascii_lower_def char_of_def bit_0)
  from fqn_from_str_sound [OF this] show ?thesis by simp
qed

text \<open>
  A user domain is accepted exactly when it has 1 to 64 bytes, all of them lower-case
  letters, digits, dots, underscores or dashes.  (The protocol document asks for at least three
  characters, the first one alphanumeric; neither is checked, so \<open>.\<close> and \<open>..\<close> are domains.)
\<close>

theorem user_domain_new_accepts:
  "(\<exists>d. user_domain_new s = Inr d) = (1 \<le> length s \<and> length s \<le> 64 \<and> list_all domain_char s)
   \<and> user_domain_new ''..'' = Inr (UserDomain ''..'')"
proof
  show "(\<exists>d. user_domain_new s = Inr d) = (1 \<le> length s \<and> length s \<le> 64 \<and> list_all domain_char s)"
    by (cases s) (auto simp: user_domain_new_iff)
  show "user_domain_new ''..'' = Inr (UserDomain ''..'')"
    by (simp add: user_domain_new_iff char_class_defs)
qed

lemma generate_machine_id_shape:
  assumes "\<And>b. length (sha256 b) = 32" and "\<And>b. length (hex_encode b) = 2 * length b"
    and "\<And>b. list_all lower_hex (hex_encode b)"
  shows "length (mid_as_str (fst (generate_machine_id sha256 hex_encode hw host os arch))) = 16 \<and>
    list_all lower_hex (mid_as_str (fst (generate_machine_id sha256 hex_encode hw host os arch)))"
  using assms by (simp add: generate_machine_id_def Let_def)

end
