(* ===== verification/Messages.thy ===== *)
theory Messages
  imports Wire
begin

text \<open>
  The message structures of \<open>nsmt-core/src/messages.rs\<close>, one record per struct with the fields
  of the source (prefixed, since Isabelle field names are global), their sum \<open>msg\<close>, and the
  JSON helpers \<open>Frame::payload_json\<close> and \<open>Frame::from_json\<close>.

  \<open>serde_json\<close> is not part of the repository: the record \<open>serde\<close> stands for it, with
  \<open>to_vec\<close> and one deserialiser per message type.  The only law used of it is
  \<open>serde_roundtrip\<close>: what was serialised from a message deserialises to this message.
  An \<open>f32\<close> is its IEEE bit pattern: the sources build scores only from the constant \<open>0.0\<close>
  and from what a memory pool returns, and never compute with them.
\<close>

type_synonym f32 = "32 word"

record hello =
  hello_user_domain :: string
  hello_protocol_version :: byte
  hello_client :: string

record hello_ack =
  hello_ack_nonce :: string
  hello_ack_tenant_exists :: bool

record auth =
  auth_user_domain :: string
  auth_nonce_signature :: string

record ticket =
  ticket_ticket :: string
  ticket_expires_at :: u64

record register =
  reg_machine_id :: string
  reg_agent_tag :: string
  reg_peer_addr :: string
  reg_machine_pubkey :: string
  reg_machine_signature :: string

record machine_info =
  mi_machine_id :: string
  mi_agents :: "string list"
  mi_addr :: string
  mi_peer_addr :: string
  mi_machine_pubkey :: string
  mi_last_seen :: u64

record register_ack =
  reg_ack_machines :: "machine_info list"

record heartbeat =
  hb_ts :: u64
  hb_load :: "byte option"

record online_list =
  ol_machines :: "machine_info list"

datatype online_delta_kind = Join | Leave | AgentChange

record online_delta =
  od_kind :: online_delta_kind
  od_machine :: machine_info

record memory_recall =
  mr_request_id :: string
  mr_query :: string
  mr_scope :: string
  mr_limit :: u32
  mr_timeout_ms :: u64
  mr_fallback_on_timeout :: bool

record memory_hit =
  mh_content :: string
  mh_fqn :: string
  mh_score :: f32
  mh_scope :: string

record memory_recall_result =
  mrr_request_id :: string
  mrr_source :: string
  mrr_memories :: "memory_hit list"
  mrr_latency_ms :: u64

record memory_capture =
  mc_request_id :: string
  mc_user_content :: string
  mc_assistant_content :: string
  mc_scope :: string
  mc_fqn :: string
  mc_observed_at :: u64

record memory_capture_result =
  mcr_request_id :: string
  mcr_committed :: bool
  mcr_queued :: bool

record file_tree_entry =
  fte_path :: string
  fte_blob_id :: string
  fte_mode :: u16
  fte_size :: u64
  fte_mtime_ns :: i64

record file_tree =
  ft_tree_hash :: string
  ft_entries :: "file_tree_entry list"

record file_diff =
  fd_old_tree :: string
  fd_new_tree :: "string option"

record file_diff_result =
  fdr_changed :: "string list"
  fdr_removed :: "string list"
  fdr_tree :: "file_tree option"

record file_get =
  fg_blob_id :: string
  fg_chunk_index :: "u64 option"

record file_put_ack =
  fpa_blob_id :: string
  fpa_have :: "u64 list"
  fpa_completed :: bool

record file_chunk_meta =
  fcm_blob_id :: string
  fcm_chunk_index :: u64
  fcm_len :: u64

record file_put =
  fp_blob_id :: string
  fp_total_chunks :: u64
  fp_size :: u64

record lock_acquire =
  la_path :: string
  la_requester :: string
  la_ttl_ms :: u64

record lock_renew =
  lr_path :: string
  lr_requester :: string

record lock_release =
  lrel_path :: string
  lrel_requester :: string

record lock_granted =
  lg_path :: string
  lg_expires_at :: u64

record lock_denied =
  ld_path :: string
  ld_holder :: string

record lock_notify =
  ln_path :: string
  ln_event :: string
  ln_holder :: "string option"

record peer_hello =
  ph_user_domain :: string
  ph_machine_id :: string
  ph_agent_tag :: string
  ph_machine_pubkey :: string

record peer_auth =
  pa_nonce :: string

record peer_auth_ok =
  pok_machine_id :: string
  pok_agent_tag :: string
  pok_machine_pubkey :: string
  pok_signature :: string

record peer_hint =
  phint_blob_id :: string
  phint_requester_addr :: string

record error_msg =
  em_code :: string
  em_message :: string
  em_request_id :: "string option"

datatype msg =
    MHello hello
  | MHelloAck hello_ack
  | MAuth auth
  | MTicket ticket
  | MRegister register
  | MRegisterAck register_ack
  | MHeartbeat heartbeat
  | MOnlineList online_list
  | MOnlineDelta online_delta
  | MMemoryRecall memory_recall
  | MMemoryRecallResult memory_recall_result
  | MMemoryCapture memory_capture
  | MMemoryCaptureResult memory_capture_result
  | MFileTree file_tree
  | MFileDiff file_diff
  | MFileDiffResult file_diff_result
  | MFileGet file_get
  | MFilePutAck file_put_ack
  | MFilePut file_put
  | MLockAcquire lock_acquire
  | MLockRenew lock_renew
  | MLockRelease lock_release
  | MLockGranted lock_granted
  | MLockDenied lock_denied
  | MLockNotify lock_notify
  | MPeerHello peer_hello
  | MPeerAuth peer_auth
  | MPeerAuthOk peer_auth_ok
  | MPeerHint peer_hint
  | MErrorMsg error_msg

definition default_scope :: string where "default_scope = ''user''"
definition default_limit :: u32 where "default_limit = 5"
definition default_timeout :: u64 where "default_timeout = 1500"
definition default_true :: bool where "default_true = True"

section \<open>JSON payloads\<close>

record serde =
  to_vec :: "msg \<Rightarrow> bytes option"
  de_hello :: "bytes \<Rightarrow> hello option"
  de_hello_ack :: "bytes \<Rightarrow> hello_ack option"
  de_auth :: "bytes \<Rightarrow> auth option"
  de_ticket :: "bytes \<Rightarrow> ticket option"
  de_register :: "bytes \<Rightarrow> register option"
  de_register_ack :: "bytes \<Rightarrow> register_ack option"
  de_heartbeat :: "bytes \<Rightarrow> heartbeat option"
  de_online_list :: "bytes \<Rightarrow> online_list option"
  de_online_delta :: "bytes \<Rightarrow> online_delta option"
  de_memory_recall :: "bytes \<Rightarrow> memory_recall option"
  de_memory_recall_result :: "bytes \<Rightarrow> memory_recall_result option"
  de_memory_capture :: "bytes \<Rightarrow> memory_capture option"
  de_memory_capture_result :: "bytes \<Rightarrow> memory_capture_result option"
  de_file_tree :: "bytes \<Rightarrow> file_tree option"
  de_file_diff :: "bytes \<Rightarrow> file_diff option"
  de_file_diff_result :: "bytes \<Rightarrow> file_diff_result option"
  de_file_get :: "bytes \<Rightarrow> file_get option"
  de_file_put_ack :: "bytes \<Rightarrow> file_put_ack option"
  de_file_put :: "bytes \<Rightarrow> file_put option"
  de_lock_acquire :: "bytes \<Rightarrow> lock_acquire option"
  de_lock_renew :: "bytes \<Rightarrow> lock_renew option"
  de_lock_release :: "bytes \<Rightarrow> lock_release option"
  de_lock_granted :: "bytes \<Rightarrow> lock_granted option"
  de_lock_denied :: "bytes \<Rightarrow> lock_denied option"
  de_lock_notify :: "bytes \<Rightarrow> lock_notify option"
  de_peer_hello :: "bytes \<Rightarrow> peer_hello option"
  de_peer_auth :: "bytes \<Rightarrow> peer_auth option"
  de_peer_auth_ok :: "bytes \<Rightarrow> peer_auth_ok option"
  de_peer_hint :: "bytes \<Rightarrow> peer_hint option"
  de_error_msg :: "bytes \<Rightarrow> error_msg option"

definition serde_roundtrip :: "serde \<Rightarrow> msg \<Rightarrow> bool" where
  "serde_roundtrip S m \<longleftrightarrow> (\<exists>b. to_vec S m = Some b \<and>
     (case m of
        MHello x \<Rightarrow> de_hello S b = Some x
      | MHelloAck x \<Rightarrow> de_hello_ack S b = Some x
      | MAuth x \<Rightarrow> de_auth S b = Some x
      | MTicket x \<Rightarrow> de_ticket S b = Some x
      | MRegister x \<Rightarrow> de_register S b = Some x
      | MRegisterAck x \<Rightarrow> de_register_ack S b = Some x
      | MHeartbeat x \<Rightarrow> de_heartbeat S b = Some x
      | MOnlineList x \<Rightarrow> de_online_list S b = Some x
      | MOnlineDelta x \<Rightarrow> de_online_delta S b = Some x
      | MMemoryRecall x \<Rightarrow> de_memory_recall S b = Some x
      | MMemoryRecallResult x \<Rightarrow> de_memory_recall_result S b = Some x
      | MMemoryCapture x \<Rightarrow> de_memory_capture S b = Some x
      | MMemoryCaptureResult x \<Rightarrow> de_memory_capture_result S b = Some x
      | MFileTree x \<Rightarrow> de_file_tree S b = Some x
      | MFileDiff x \<Rightarrow> de_file_diff S b = Some x
      | MFileDiffResult x \<Rightarrow> de_file_diff_result S b = Some x
      | MFileGet x \<Rightarrow> de_file_get S b = Some x
      | MFilePutAck x \<Rightarrow> de_file_put_ack S b = Some x
      | MFilePut x \<Rightarrow> de_file_put S b = Some x
      | MLockAcquire x \<Rightarrow> de_lock_acquire S b = Some x
      | MLockRenew x \<Rightarrow> de_lock_renew S b = Some x
      | MLockRelease x \<Rightarrow> de_lock_release S b = Some x
      | MLockGranted x \<Rightarrow> de_lock_granted S b = Some x
      | MLockDenied x \<Rightarrow> de_lock_denied S b = Some x
      | MLockNotify x \<Rightarrow> de_lock_notify S b = Some x
      | MPeerHello x \<Rightarrow> de_peer_hello S b = Some x
      | MPeerAuth x \<Rightarrow> de_peer_auth S b = Some x
      | MPeerAuthOk x \<Rightarrow> de_peer_auth_ok S b = Some x
      | MPeerHint x \<Rightarrow> de_peer_hint S b = Some x
      | MErrorMsg x \<Rightarrow> de_error_msg S b = Some x))"

definition payload_json :: "(bytes \<Rightarrow> 'a option) \<Rightarrow> frame \<Rightarrow> nsmt_error + 'a" where
  "payload_json de f = ok_or Json (de (payload f))"

definition from_json :: "serde \<Rightarrow> frame_type \<Rightarrow> u32 \<Rightarrow> msg \<Rightarrow> nsmt_error + frame" where
  "from_json S t sid m =
     (case to_vec S m of None \<Rightarrow> Inl Json | Some b \<Rightarrow> Inr (frame_new t sid b))"

definition send_json :: "serde \<Rightarrow> frame_type \<Rightarrow> u32 \<Rightarrow> msg \<Rightarrow> writer \<Rightarrow> nsmt_error + writer" where
  "send_json S t sid m w = and_then (from_json S t sid m) (\<lambda>f. send f w)"

lemma from_json_payload [simp]:
  "from_json S t sid m = Inr f \<longleftrightarrow>
     (\<exists>b. to_vec S m = Some b \<and> f = \<lparr>frame_type = t, flags = 0, stream_id = sid, payload = b\<rparr>)"
  by (auto simp: from_json_def frame_new_def split: option.splits)

lemma payload_json_Inr [simp]: "payload_json de f = Inr x \<longleftrightarrow> de (payload f) = Some x"
  by (simp add: payload_json_def)

text \<open>A serialiser that knows no message, to be extended in witnesses.\<close>

definition no_serde :: serde where
  "no_serde = serde.make (\<lambda>_. None) (\<lambda>_. None) (\<lambda>_. None) (\<lambda>_. None) (\<lambda>_. None) (\<lambda>_. None) (\<lambda>_. None)
     (\<lambda>_. None) (\<lambda>_. None) (\<lambda>_. None) (\<lambda>_. None) (\<lambda>_. None) (\<lambda>_. None) (\<lambda>_. None) (\<lambda>_. None) (\<lambda>_. None)
     (\<lambda>_. None) (\<lambda>_. None) (\<lambda>_. None) (\<lambda>_. None) (\<lambda>_. None) (\<lambda>_. None) (\<lambda>_. None) (\<lambda>_. None) (\<lambda>_. None)
     (\<lambda>_. None) (\<lambda>_. None) (\<lambda>_. None) (\<lambda>_. None) (\<lambda>_. None) (\<lambda>_. None)"

end
