(* ===== verification/File_System.thy ===== *)
theory File_System
  imports Errors
begin

text \<open>
  What the sources use of \<open>std::fs\<close> and \<open>std::path\<close>: paths as strings, \<open>Path::join\<close>, and a
  file system of regular files and directories with the calls \<open>exists\<close>, \<open>read\<close>,
  \<open>read_to_string\<close>, \<open>write\<close>, \<open>create_dir_all\<close>, \<open>remove_file\<close>, \<open>rename\<close> and the positioned
  write of an \<open>OpenOptions\<close> handle.  A path is resolved one component after the other the way
  the kernel does it, \<open>..\<close> included, so that a component that is missing or is not a directory
  stops the resolution.  Symbolic links, permissions and device faults are not modelled.
\<close>

type_synonym path = string

datatype node = File bytes | Dir

text \<open>The nodes below the root, by their resolved components; the root itself is a directory.\<close>

record fs =
  cwd :: "string list"
  nodes :: "(string list, node) hmap"

section \<open>Paths\<close>

definition join :: "path \<Rightarrow> string \<Rightarrow> path" where
  "join p q =
     (if prefix ''/'' q then q
      else if p = [] \<or> suffix ''/'' p then p @ q
      else p @ ''/'' @ q)"

text \<open>
  \<open>Path::parent\<close> of a path whose last component is a plain name: what precedes this component,
  without trailing slashes.
\<close>

definition parent :: "path \<Rightarrow> path" where
  "parent p =
     (let r = dropWhile (\<lambda>c. c \<noteq> CHR ''/'') (rev p) in
      if r = [] then []
      else let d = rev (dropWhile (\<lambda>c. c = CHR ''/'') r) in if d = [] then ''/'' else d)"

text \<open>A file name that denotes an entry of the directory it is looked up in.\<close>

definition simple_name :: "string \<Rightarrow> bool" where
  "simple_name n \<longleftrightarrow> n \<noteq> [] \<and> n \<noteq> ''.'' \<and> n \<noteq> ''..'' \<and> CHR ''/'' \<notin> set n \<and> CHR 0x00 \<notin> set n"

definition node_at :: "fs \<Rightarrow> string list \<Rightarrow> node option" where
  "node_at F cs = (if cs = [] then Some Dir else hm_get (nodes F) cs)"

fun walk :: "fs \<Rightarrow> string list \<Rightarrow> string list \<Rightarrow> io_error + string list" where
  "walk F cur [] = Inr cur"
| "walk F cur (c # cs) =
     (case node_at F cur of
        None \<Rightarrow> Inl NotFound
      | Some (File _) \<Rightarrow> Inl NotADirectory
      | Some Dir \<Rightarrow>
          if c = [] \<or> c = ''.'' then walk F cur cs
          else if c = ''..'' then walk F (butlast cur) cs
          else walk F (cur @ [c]) cs)"

definition start_of :: "fs \<Rightarrow> path \<Rightarrow> string list" where
  "start_of F p = (if prefix ''/'' p then [] else cwd F)"

definition resolve :: "fs \<Rightarrow> path \<Rightarrow> io_error + string list" where
  "resolve F p =
     (if CHR 0x00 \<in> set p then Inl (OtherIo ''InvalidInput'')
      else if p = [] then Inl NotFound
      else walk F (start_of F p) (split_char CHR ''/'' p))"

definition set_node :: "string list \<Rightarrow> node \<Rightarrow> fs \<Rightarrow> fs" where
  "set_node cs n F = F\<lparr>nodes := hm_insert cs n (nodes F)\<rparr>"

section \<open>Calls\<close>

definition fs_exists :: "fs \<Rightarrow> path \<Rightarrow> bool" where
  "fs_exists F p = (case resolve F p of Inl _ \<Rightarrow> False | Inr cs \<Rightarrow> node_at F cs \<noteq> None)"

definition fs_read :: "fs \<Rightarrow> path \<Rightarrow> io_error + bytes" where
  "fs_read F p = and_then (resolve F p) (\<lambda>cs.
     (case node_at F cs of
        None \<Rightarrow> Inl NotFound
      | Some Dir \<Rightarrow> Inl IsADirectory
      | Some (File bs) \<Rightarrow> Inr bs))"

definition parent_dir :: "fs \<Rightarrow> string list \<Rightarrow> io_error + unit" where
  "parent_dir F cs = (case node_at F (butlast cs) of
        None \<Rightarrow> Inl NotFound | Some (File _) \<Rightarrow> Inl NotADirectory | Some Dir \<Rightarrow> Inr ())"

text \<open>\<open>write\<close> creates the file or replaces its contents; the parent must be a directory.\<close>

definition fs_write :: "path \<Rightarrow> bytes \<Rightarrow> fs \<Rightarrow> io_error + fs" where
  "fs_write p bs F = and_then (resolve F p) (\<lambda>cs.
     (case node_at F cs of
        Some Dir \<Rightarrow> Inl IsADirectory
      | _ \<Rightarrow> and_then (parent_dir F cs) (\<lambda>_. Inr (set_node cs (File bs) F))))"

text \<open>
  \<open>OpenOptions::new().create(true).write(true).open\<close>, \<open>seek(SeekFrom::Start(off))\<close>,
  \<open>write_all\<close>: the file is created if needed and not truncated; a write past its end fills the
  gap with zeros.
\<close>

definition splice :: "nat \<Rightarrow> bytes \<Rightarrow> bytes \<Rightarrow> bytes" where
  "splice off data old =
     (if data = [] then old
      else take off (old @ replicate (off - length old) 0) @ data @ drop (off + length data) old)"

definition fs_write_at :: "path \<Rightarrow> nat \<Rightarrow> bytes \<Rightarrow> fs \<Rightarrow> io_error + fs" where
  "fs_write_at p off data F = and_then (resolve F p) (\<lambda>cs.
     (case node_at F cs of
        Some Dir \<Rightarrow> Inl IsADirectory
      | Some (File old) \<Rightarrow> Inr (set_node cs (File (splice off data old)) F)
      | None \<Rightarrow> and_then (parent_dir F cs) (\<lambda>_. Inr (set_node cs (File (splice off data [])) F))))"

definition fs_remove_file :: "path \<Rightarrow> fs \<Rightarrow> io_error + fs" where
  "fs_remove_file p F = and_then (resolve F p) (\<lambda>cs.
     (case node_at F cs of
        None \<Rightarrow> Inl NotFound
      | Some Dir \<Rightarrow> Inl IsADirectory
      | Some (File _) \<Rightarrow> Inr (F\<lparr>nodes := hm_remove cs (nodes F)\<rparr>)))"

text \<open>\<open>rename\<close> of a regular file, the only kind the sources rename.\<close>

definition fs_rename_file :: "path \<Rightarrow> path \<Rightarrow> fs \<Rightarrow> io_error + fs" where
  "fs_rename_file p q F = and_then (resolve F p) (\<lambda>cs. and_then (resolve F q) (\<lambda>ds.
     (case node_at F cs of
        None \<Rightarrow> Inl NotFound
      | Some Dir \<Rightarrow> Inl (OtherIo ''rename of a directory'')
      | Some (File bs) \<Rightarrow>
          (case node_at F ds of
             Some Dir \<Rightarrow> Inl IsADirectory
           | _ \<Rightarrow> and_then (parent_dir F ds) (\<lambda>_.
               Inr (set_node ds (File bs) (F\<lparr>nodes := hm_remove cs (nodes F)\<rparr>)))))))"

text \<open>\<open>create_dir_all\<close>: the walk of \<open>resolve\<close> that makes every missing directory on its way.\<close>

fun mkdirs :: "string list \<Rightarrow> string list \<Rightarrow> fs \<Rightarrow> io_error + fs" where
  "mkdirs cur [] F =
     (case node_at F cur of
        None \<Rightarrow> Inr (set_node cur Dir F)
      | Some Dir \<Rightarrow> Inr F
      | Some (File _) \<Rightarrow> Inl AlreadyExists)"
| "mkdirs cur (c # cs) F =
     (case node_at F cur of
        Some (File _) \<Rightarrow> Inl NotADirectory
      | r \<Rightarrow>
         (let F' = (if r = None then set_node cur Dir F else F) in
          if c = [] \<or> c = ''.'' then mkdirs cur cs F'
          else if c = ''..'' then mkdirs (butlast cur) cs F'
          else mkdirs (cur @ [c]) cs F'))"

definition fs_create_dir_all :: "path \<Rightarrow> fs \<Rightarrow> io_error + fs" where
  "fs_create_dir_all p F =
     (if p = [] then Inr F
      else if CHR 0x00 \<in> set p then Inl (OtherIo ''InvalidInput'')
      else mkdirs (start_of F p) (split_char CHR ''/'' p) F)"

text \<open>
  \<open>read_to_string\<close> accepts well-formed UTF-8 only (Unicode 15, table 3-7).
\<close>

definition cont :: "byte \<Rightarrow> bool" where
  "cont b \<longleftrightarrow> 0x80 \<le> b \<and> b \<le> 0xBF"

fun valid_utf8 :: "bytes \<Rightarrow> bool" where
  "valid_utf8 [] = True"
| "valid_utf8 (a # bs) =
     (if a \<le> 0x7F then valid_utf8 bs
      else if 0xC2 \<le> a \<and> a \<le> 0xDF then
        (case bs of b # r \<Rightarrow> cont b \<and> valid_utf8 r | _ \<Rightarrow> False)
      else if 0xE0 \<le> a \<and> a \<le> 0xEF then
        (case bs of
           b # c # r \<Rightarrow>
             cont b \<and> cont c \<and> (a = 0xE0 \<longrightarrow> 0xA0 \<le> b) \<and> (a = 0xED \<longrightarrow> b \<le> 0x9F) \<and> valid_utf8 r
         | _ \<Rightarrow> False)
      else if 0xF0 \<le> a \<and> a \<le> 0xF4 then
        (case bs of
           b # c # d # r \<Rightarrow>
             cont b \<and> cont c \<and> cont d \<and> (a = 0xF0 \<longrightarrow> 0x90 \<le> b) \<and> (a = 0xF4 \<longrightarrow> b \<le> 0x8F)
             \<and> valid_utf8 r
         | _ \<Rightarrow> False)
      else False)"

definition from_utf8 :: "bytes \<Rightarrow> string option" where
  "from_utf8 bs = (if valid_utf8 bs then Some (map (\<lambda>b. char_of (unat b)) bs) else None)"

definition fs_read_to_string :: "fs \<Rightarrow> path \<Rightarrow> io_error + string" where
  "fs_read_to_string F p = and_then (fs_read F p) (\<lambda>bs.
     ok_or (OtherIo ''InvalidData'') (from_utf8 bs))"

section \<open>Laws\<close>

lemma node_at_set_node [simp]:
  "cs \<noteq> [] \<Longrightarrow> node_at (set_node cs n F) ds = (if ds = cs then Some n else node_at F ds)"
  by (auto simp: node_at_def set_node_def)

lemma node_at_removed [simp]:
  "cs \<noteq> [] \<Longrightarrow> node_at (F\<lparr>nodes := hm_remove cs (nodes F)\<rparr>) ds = (if ds = cs then None else node_at F ds)"
  by (auto simp: node_at_def)

lemma cwd_set_node [simp]: "cwd (set_node cs n F) = cwd F"
  by (simp add: set_node_def)

lemma node_at_root [simp]: "node_at F [] = Some Dir"
  by (simp add: node_at_def)

lemma split_char_not_Nil [simp]: "split_char c s \<noteq> []"
  by (cases s) (auto split: list.splits)

lemma split_char_append:
  "split_char c (s @ c # t) = split_char c s @ split_char c t"
  by (induction s) (auto split: list.splits)

lemma split_char_none: "c \<notin> set s \<Longrightarrow> split_char c s = [s]"
  by (induction s) auto

lemma walk_append: "walk F cur (cs @ ds) = and_then (walk F cur cs) (\<lambda>cur'. walk F cur' ds)"
  by (induction F cur cs rule: walk.induct) (auto split: option.splits node.splits)

lemma parent_join:
  assumes "d \<noteq> []" and "\<not> suffix ''/'' d" and "CHR ''/'' \<notin> set n"
  shows "parent (join d n) = d"
proof -
  obtain e c where d: "d = e @ [c]" "c \<noteq> CHR ''/''"
    using assms(1,2) by (cases d rule: rev_cases) (auto simp: suffix_def)
  have "dropWhile (\<lambda>c. c \<noteq> CHR ''/'') (rev n @ CHR ''/'' # rev d) = CHR ''/'' # rev d"
    using assms(3) by (subst dropWhile_append2) auto
  moreover have "join d n = d @ CHR ''/'' # n"
    using assms by (auto simp: join_def prefix_def)
  ultimately show ?thesis using d by (simp add: parent_def Let_def)
qed

text \<open>
  The central fact on joined paths: below an existing directory a simple name is looked up in
  this directory.
\<close>

lemma split_join:
  assumes "p \<noteq> []" and "\<not> prefix ''/'' q"
  shows "walk F cur (split_char CHR ''/'' (join p q)) =
    and_then (walk F cur (split_char CHR ''/'' p)) (\<lambda>cs. walk F cs (split_char CHR ''/'' q))
    \<or> suffix ''/'' p"
  using assms by (auto simp: join_def split_char_append walk_append)

lemma walk_slash:
  "walk F cur (split_char CHR ''/'' (p @ ''/'')) =
     and_then (walk F cur (split_char CHR ''/'' p)) (\<lambda>cs. walk F cs [[]])"
  by (simp add: split_char_append [of _ p "[]", simplified] walk_append)

definition step_to :: "string list \<Rightarrow> string \<Rightarrow> string list" where
  "step_to cur c = (if c = [] \<or> c = ''.'' then cur else if c = ''..'' then butlast cur else cur @ [c])"

lemma resolve_step:
  assumes "resolve F p = Inr ds" and "node_at F ds = Some Dir"
    and "n \<noteq> []" and "CHR ''/'' \<notin> set n" and "CHR 0x00 \<notin> set n"
  shows "resolve F (join p n) = Inr (step_to ds n)"
proof -
  from assms(1) have p: "p \<noteq> []" "CHR 0x00 \<notin> set p"
    and w: "walk F (start_of F p) (split_char CHR ''/'' p) = Inr ds"
    by (auto simp: resolve_def split: if_splits)
  from assms(3-5) have n: "n \<noteq> []" "CHR ''/'' \<notin> set n" "CHR 0x00 \<notin> set n" "\<not> prefix ''/'' n"
    by (auto simp: prefix_def)
  have start: "start_of F (join p n) = start_of F p"
    using p n by (cases p) (auto simp: start_of_def join_def)
  have last: "walk F ds [n] = Inr (step_to ds n)" using assms(2) n by (simp add: step_to_def)
  have "walk F (start_of F p) (split_char CHR ''/'' (join p n)) = Inr (step_to ds n)"
  proof (cases "suffix ''/'' p")
    case True
    then obtain q where q: "p = q @ ''/''" by (auto simp: suffix_def)
    have j: "join p n = q @ CHR ''/'' # n" using True n by (simp add: join_def q)
    from w obtain es where es: "walk F (start_of F p) (split_char CHR ''/'' q) = Inr es"
        "walk F es [[]] = Inr ds"
      unfolding q walk_slash by (auto simp: and_then_eq_Inr)
    then have "es = ds" by (auto split: option.splits node.splits)
    then show ?thesis using es(1) last n
      by (simp add: j split_char_append walk_append split_char_none del: walk.simps)
  next
    case False
    then have "join p n = p @ CHR ''/'' # n" using p n by (simp add: join_def)
    then show ?thesis using w last n
      by (simp add: split_char_append walk_append split_char_none del: walk.simps)
  qed
  then show ?thesis
    using p n start by (auto simp: resolve_def join_def)
qed

lemma resolve_join:
  assumes "resolve F p = Inr ds" and "node_at F ds = Some Dir" and "simple_name n"
  shows "resolve F (join p n) = Inr (ds @ [n])"
  using resolve_step [OF assms(1,2), of n] assms(3) by (simp add: simple_name_def step_to_def)

text \<open>
  Growth of a file system: directories stay, so a path that resolves keeps its resolution.
\<close>

definition dirs_kept :: "fs \<Rightarrow> fs \<Rightarrow> bool" where
  "dirs_kept F F' \<longleftrightarrow> cwd F' = cwd F \<and> (\<forall>cs. node_at F cs = Some Dir \<longrightarrow> node_at F' cs = Some Dir)"

lemma dirs_kept_refl [simp, intro]: "dirs_kept F F"
  by (simp add: dirs_kept_def)

lemma dirs_kept_trans: "dirs_kept F G \<Longrightarrow> dirs_kept G H \<Longrightarrow> dirs_kept F H"
  by (simp add: dirs_kept_def)

lemma dirs_kept_set_File:
  "node_at F cs \<noteq> Some Dir \<Longrightarrow> dirs_kept F (set_node cs n F)"
  by (cases "cs = []") (auto simp: dirs_kept_def)

lemma dirs_kept_remove_File:
  "node_at F cs \<noteq> Some Dir \<Longrightarrow> dirs_kept F (F\<lparr>nodes := hm_remove cs (nodes F)\<rparr>)"
  by (cases "cs = []") (auto simp: dirs_kept_def)

lemma walk_kept:
  "walk F cur cs = Inr ds \<Longrightarrow> dirs_kept F F' \<Longrightarrow> walk F' cur cs = Inr ds"
  by (induction F cur cs rule: walk.induct)
    (auto simp: dirs_kept_def split: option.splits node.splits if_splits)

lemma resolve_kept:
  assumes "resolve F p = Inr ds" and "dirs_kept F F'"
  shows "resolve F' p = Inr ds"
  using assms walk_kept [OF _ assms(2)] by (auto simp: resolve_def start_of_def dirs_kept_def split: if_splits)

section \<open>Creating directories\<close>

definition ensure_dir :: "string list \<Rightarrow> fs \<Rightarrow> fs" where
  "ensure_dir cur F = (if node_at F cur = None then set_node cur Dir F else F)"

lemma walk_Cons: "walk F cur (c # cs) = Inr ds \<longleftrightarrow>
    node_at F cur = Some Dir \<and> walk F (step_to cur c) cs = Inr ds"
  by (auto simp: step_to_def split: option.splits node.splits)

lemma mkdirs_Cons: "mkdirs cur (c # cs) F = Inr F' \<longleftrightarrow>
    node_at F cur \<in> {None, Some Dir} \<and> mkdirs (step_to cur c) cs (ensure_dir cur F) = Inr F'"
proof (cases "node_at F cur")
  case (Some n)
  then show ?thesis by (cases n) (simp_all add: step_to_def ensure_dir_def)
qed (simp add: step_to_def ensure_dir_def)

lemma mkdirs_Nil: "mkdirs cur [] F = Inr F' \<longleftrightarrow>
    node_at F cur \<in> {None, Some Dir} \<and> F' = ensure_dir cur F"
  by (auto simp: ensure_dir_def split: option.splits node.splits)

lemma node_at_ensure_dir:
  "node_at (ensure_dir cur F) x = (if x = cur \<and> node_at F cur = None then Some Dir else node_at F x)"
  by (cases "cur = []") (auto simp: ensure_dir_def)

lemma cwd_ensure_dir [simp]: "cwd (ensure_dir cur F) = cwd F"
  by (simp add: ensure_dir_def)

lemma mkdirs_grows:
  assumes "mkdirs cur cs F = Inr F'"
  shows "cwd F' = cwd F \<and> (\<forall>x. node_at F x \<noteq> None \<longrightarrow> node_at F' x = node_at F x) \<and>
    (\<forall>x. node_at F x = None \<longrightarrow> node_at F' x \<in> {None, Some Dir})"
  using assms
proof (induction cs arbitrary: cur F)
  case Nil
  then show ?case by (auto simp: mkdirs_Nil node_at_ensure_dir simp del: mkdirs.simps)
next
  case (Cons c cs)
  then have m: "mkdirs (step_to cur c) cs (ensure_dir cur F) = Inr F'"
    by (simp add: mkdirs_Cons del: mkdirs.simps)
  from Cons.IH [OF m] show ?case
    by (simp add: node_at_ensure_dir split: if_splits) (metis option.distinct(1))
qed

lemma mkdirs_kept: "mkdirs cur cs F = Inr F' \<Longrightarrow> dirs_kept F F'"
  using mkdirs_grows unfolding dirs_kept_def by (metis option.distinct(1))

lemma mkdirs_walk:
  assumes "mkdirs cur cs F = Inr F'"
  shows "\<exists>ds. walk F' cur cs = Inr ds \<and> node_at F' ds = Some Dir"
  using assms
proof (induction cs arbitrary: cur F)
  case Nil
  then show ?case by (auto simp: mkdirs_Nil node_at_ensure_dir simp del: mkdirs.simps)
next
  case (Cons c cs)
  then have m: "mkdirs (step_to cur c) cs (ensure_dir cur F) = Inr F'"
    and "node_at (ensure_dir cur F) cur = Some Dir"
    by (auto simp: mkdirs_Cons node_at_ensure_dir simp del: mkdirs.simps)
  then have "node_at F' cur = Some Dir" using mkdirs_kept [OF m] by (simp add: dirs_kept_def)
  with Cons.IH [OF m] show ?case by (simp only: walk_Cons) simp
qed

lemma mkdirs_idem:
  "walk F cur cs = Inr ds \<Longrightarrow> node_at F ds = Some Dir \<Longrightarrow> mkdirs cur cs F = Inr F"
proof (induction cs arbitrary: cur)
  case (Cons c cs)
  then show ?case by (simp only: walk_Cons mkdirs_Cons) (simp add: ensure_dir_def)
qed simp

lemma create_dir_all_grows:
  assumes "fs_create_dir_all p F = Inr F'"
  shows "cwd F' = cwd F \<and> (\<forall>x. node_at F x \<noteq> None \<longrightarrow> node_at F' x = node_at F x) \<and>
    (\<forall>x. node_at F x = None \<longrightarrow> node_at F' x \<in> {None, Some Dir})"
  using assms mkdirs_grows [of _ _ F F'] by (auto simp: fs_create_dir_all_def split: if_splits)

lemma create_dir_all_kept: "fs_create_dir_all p F = Inr F' \<Longrightarrow> dirs_kept F F'"
  using mkdirs_kept by (auto simp: fs_create_dir_all_def split: if_splits)

lemma create_dir_all_resolves:
  assumes "fs_create_dir_all p F = Inr F'" and "p \<noteq> []"
  shows "\<exists>ds. resolve F' p = Inr ds \<and> node_at F' ds = Some Dir"
proof -
  from assms have m: "mkdirs (start_of F p) (split_char CHR ''/'' p) F = Inr F'" and "CHR 0x00 \<notin> set p"
    by (auto simp: fs_create_dir_all_def split: if_splits)
  moreover have "start_of F' p = start_of F p"
    using mkdirs_grows [OF m] by (simp add: start_of_def)
  ultimately show ?thesis using mkdirs_walk [OF m] assms(2) by (simp add: resolve_def)
qed

lemma create_dir_all_idem:
  "resolve F p = Inr ds \<Longrightarrow> node_at F ds = Some Dir \<Longrightarrow> fs_create_dir_all p F = Inr F"
  by (auto simp: resolve_def fs_create_dir_all_def intro: mkdirs_idem split: if_splits)

section \<open>Reading what was written\<close>

lemma write_in_dir:
  assumes "resolve F p = Inr ds" and "node_at F ds = Some Dir" and "simple_name n"
    and "node_at F (ds @ [n]) \<noteq> Some Dir"
  shows "fs_write (join p n) bs F = Inr (set_node (ds @ [n]) (File bs) F)"
  using resolve_join [OF assms(1-3)] assms(2,4)
  by (auto simp: fs_write_def parent_dir_def split: option.splits node.splits)

lemma read_in_dir:
  assumes "resolve F p = Inr ds" and "node_at F ds = Some Dir" and "simple_name n"
  shows "fs_read F (join p n) = (case node_at F (ds @ [n]) of
      None \<Rightarrow> Inl NotFound | Some Dir \<Rightarrow> Inl IsADirectory | Some (File bs) \<Rightarrow> Inr bs)"
  using resolve_join [OF assms] by (simp add: fs_read_def)

lemma exists_in_dir:
  assumes "resolve F p = Inr ds" and "node_at F ds = Some Dir" and "simple_name n"
  shows "fs_exists F (join p n) \<longleftrightarrow> node_at F (ds @ [n]) \<noteq> None"
  using resolve_join [OF assms] by (simp add: fs_exists_def)

lemma fs_write_InrD:
  assumes "fs_write p bs F = Inr F'"
  shows "\<exists>cs. resolve F p = Inr cs \<and> node_at F cs \<noteq> Some Dir \<and> F' = set_node cs (File bs) F"
proof -
  from assms obtain cs where cs: "resolve F p = Inr cs"
    and "(case node_at F cs of Some Dir \<Rightarrow> Inl IsADirectory
      | _ \<Rightarrow> and_then (parent_dir F cs) (\<lambda>_. Inr (set_node cs (File bs) F))) = Inr F'"
    by (auto simp: fs_write_def and_then_eq_Inr)
  then show ?thesis
    by (cases "node_at F cs"; cases "the (node_at F cs)") (auto simp: and_then_eq_Inr)
qed

lemma fs_remove_file_InrD:
  assumes "fs_remove_file p F = Inr F'"
  shows "\<exists>cs bs. resolve F p = Inr cs \<and> node_at F cs = Some (File bs) \<and>
    F' = F\<lparr>nodes := hm_remove cs (nodes F)\<rparr>"
proof -
  from assms obtain cs where cs: "resolve F p = Inr cs"
    and "(case node_at F cs of None \<Rightarrow> Inl NotFound | Some Dir \<Rightarrow> Inl IsADirectory
      | Some (File _) \<Rightarrow> Inr (F\<lparr>nodes := hm_remove cs (nodes F)\<rparr>)) = Inr F'"
    by (auto simp: fs_remove_file_def and_then_eq_Inr)
  then show ?thesis by (cases "node_at F cs"; cases "the (node_at F cs)") auto
qed

lemma fs_write_read:
  assumes "fs_write p bs F = Inr F'"
  shows "fs_read F' p = Inr bs"
proof -
  from fs_write_InrD [OF assms] obtain cs where cs: "resolve F p = Inr cs" "node_at F cs \<noteq> Some Dir"
      "F' = set_node cs (File bs) F" by blast
  then have "cs \<noteq> []" by auto
  moreover have "resolve F' p = Inr cs"
    using resolve_kept [OF cs(1)] dirs_kept_set_File [OF cs(2)] cs(3) by simp
  ultimately show ?thesis using cs(3) by (simp add: fs_read_def)
qed

lemma length_splice: "length (splice off data old) =
    (if data = [] then length old else max (length old) (off + length data))"
  by (auto simp: splice_def)

lemma nth_splice:
  assumes "i < length (splice off data old)"
  shows "splice off data old ! i =
    (if off \<le> i \<and> i < off + length data then data ! (i - off)
     else if i < length old then old ! i else 0)"
proof (cases "data = []")
  case False
  define front where "front = take off (old @ replicate (off - length old) 0)"
  have front: "length front = off" "\<And>j. j < off \<Longrightarrow> front ! j = (if j < length old then old ! j else 0)"
    by (auto simp: front_def nth_append)
  have "splice off data old = front @ data @ drop (off + length data) old"
    using False by (simp add: splice_def front_def)
  then show ?thesis
    using assms False front unfolding length_splice by (auto simp: nth_append)
qed (use assms in \<open>auto simp: splice_def\<close>)

end
