(* ===== verification/Object_Store.thy ===== *)
theory Object_Store
  imports File_System
begin

text \<open>
  The object stores of \<open>nsmt-fs/src/lib.rs\<close>.  The trait \<open>ObjectStore\<close> is the locale
  \<open>object_store\<close>; its implementations are the constructors of the datatype \<open>store\<close>, over which
  the four operations dispatch.

  The crate \<open>object_store\<close> (the S3 client and the in-memory backend) is not part of the
  repository: the record \<open>backend\<close> stands for it, with the state behind a handle as the type
  \<open>'x\<close>.  Environment variables are a function from names to values.
\<close>

type_synonym env = "string \<Rightarrow> string option"

record 'x backend =
  x_path :: "string \<Rightarrow> string"
  x_put :: "string \<Rightarrow> bytes \<Rightarrow> 'x \<Rightarrow> string + 'x"
  x_get :: "string \<Rightarrow> 'x \<Rightarrow> bytes option"
  x_head :: "string \<Rightarrow> 'x \<Rightarrow> bool"
  x_delete :: "string \<Rightarrow> 'x \<Rightarrow> string + 'x"

datatype store =
    LocalObjectStore path
  | S3ObjectStore nat
  | MemoryObjectStore nat
  | PrefixedObjectStore store string

text \<open>The state the stores act on: the disk, and the state behind each backend handle.\<close>

record 'x storage =
  disk :: fs
  remote :: "nat \<Rightarrow> 'x"

definition io_other :: "string \<Rightarrow> io_error" where
  "io_other e = OtherIo e"

section \<open>Local store\<close>

definition local_put :: "path \<Rightarrow> string \<Rightarrow> bytes \<Rightarrow> fs \<Rightarrow> io_error + fs" where
  "local_put root key bs F =
     and_then (fs_create_dir_all root F) (\<lambda>F1.
       let p = join root key in
       if fs_exists F1 p then Inr F1 else fs_write p bs F1)"

definition local_get :: "path \<Rightarrow> string \<Rightarrow> fs \<Rightarrow> bytes option" where
  "local_get root key F = (case fs_read F (join root key) of Inl _ \<Rightarrow> None | Inr bs \<Rightarrow> Some bs)"

definition local_exists :: "path \<Rightarrow> string \<Rightarrow> fs \<Rightarrow> bool" where
  "local_exists root key F = fs_exists F (join root key)"

definition local_delete :: "path \<Rightarrow> string \<Rightarrow> fs \<Rightarrow> io_error + fs" where
  "local_delete root key F = fs_remove_file (join root key) F"

section \<open>Backends of the crate \<open>object_store\<close>\<close>

text \<open>The UTF-8 bytes of the Chinese for ``not set'' in the error messages.\<close>

definition unset_text :: string where
  "unset_text = map char_of [0xE6, 0x9C, 0xAA, 0xE8, 0xAE, 0xBE, 0xE7, 0xBD, 0xAE :: nat]"

definition s3_from_env :: "env \<Rightarrow> (string \<Rightarrow> string \<Rightarrow> string \<Rightarrow> string \<Rightarrow> string \<Rightarrow> bool \<Rightarrow> string + nat) \<Rightarrow> string + nat" where
  "s3_from_env env build =
     and_then (ok_or (''NSMT_S3_ENDPOINT '' @ unset_text) (env ''NSMT_S3_ENDPOINT'')) (\<lambda>endpoint.
     and_then (ok_or (''NSMT_S3_BUCKET '' @ unset_text) (env ''NSMT_S3_BUCKET'')) (\<lambda>bucket.
     let region = (case env ''NSMT_S3_REGION'' of None \<Rightarrow> ''us-east-1'' | Some r \<Rightarrow> r) in
     and_then (ok_or (''NSMT_S3_ACCESS_KEY '' @ unset_text) (env ''NSMT_S3_ACCESS_KEY'')) (\<lambda>access.
     and_then (ok_or (''NSMT_S3_SECRET_KEY '' @ unset_text) (env ''NSMT_S3_SECRET_KEY'')) (\<lambda>secret.
     let allow_http = env ''NSMT_S3_HTTP'' \<noteq> None in
     build endpoint region bucket access secret allow_http))))"

definition remote_put :: "'x backend \<Rightarrow> nat \<Rightarrow> string \<Rightarrow> bytes \<Rightarrow> 'x storage \<Rightarrow> io_error + 'x storage" where
  "remote_put X h key bs W =
     (case x_put X (x_path X key) bs (remote W h) of
        Inl e \<Rightarrow> Inl (io_other e)
      | Inr x \<Rightarrow> Inr (W\<lparr>remote := (remote W)(h := x)\<rparr>))"

definition remote_get :: "'x backend \<Rightarrow> nat \<Rightarrow> string \<Rightarrow> 'x storage \<Rightarrow> bytes option" where
  "remote_get X h key W = x_get X (x_path X key) (remote W h)"

definition remote_exists :: "'x backend \<Rightarrow> nat \<Rightarrow> string \<Rightarrow> 'x storage \<Rightarrow> bool" where
  "remote_exists X h key W = x_head X (x_path X key) (remote W h)"

definition remote_delete :: "'x backend \<Rightarrow> nat \<Rightarrow> string \<Rightarrow> 'x storage \<Rightarrow> io_error + 'x storage" where
  "remote_delete X h key W =
     (case x_delete X (x_path X key) (remote W h) of
        Inl e \<Rightarrow> Inl (io_other e)
      | Inr x \<Rightarrow> Inr (W\<lparr>remote := (remote W)(h := x)\<rparr>))"

section \<open>Key prefixes\<close>

definition prefixed_new :: "store \<Rightarrow> string \<Rightarrow> store" where
  "prefixed_new inner p =
     PrefixedObjectStore inner (if p = [] \<or> suffix ''/'' p then p else p @ ''/'')"

definition prefixed_key :: "string \<Rightarrow> string \<Rightarrow> string" where
  "prefixed_key prfx k = prfx @ trim_start_matches CHR ''/'' k"

section \<open>Dispatch\<close>

fun put :: "'x backend \<Rightarrow> store \<Rightarrow> string \<Rightarrow> bytes \<Rightarrow> 'x storage \<Rightarrow> io_error + 'x storage" where
  "put X (LocalObjectStore root) key bs W =
     and_then (local_put root key bs (disk W)) (\<lambda>F. Inr (W\<lparr>disk := F\<rparr>))"
| "put X (S3ObjectStore h) key bs W = remote_put X h key bs W"
| "put X (MemoryObjectStore h) key bs W = remote_put X h key bs W"
| "put X (PrefixedObjectStore inner prfx) key bs W = put X inner (prefixed_key prfx key) bs W"

fun get :: "'x backend \<Rightarrow> store \<Rightarrow> string \<Rightarrow> 'x storage \<Rightarrow> bytes option" where
  "get X (LocalObjectStore root) key W = local_get root key (disk W)"
| "get X (S3ObjectStore h) key W = remote_get X h key W"
| "get X (MemoryObjectStore h) key W = remote_get X h key W"
| "get X (PrefixedObjectStore inner prfx) key W = get X inner (prefixed_key prfx key) W"

fun exists :: "'x backend \<Rightarrow> store \<Rightarrow> string \<Rightarrow> 'x storage \<Rightarrow> bool" where
  "exists X (LocalObjectStore root) key W = local_exists root key (disk W)"
| "exists X (S3ObjectStore h) key W = remote_exists X h key W"
| "exists X (MemoryObjectStore h) key W = remote_exists X h key W"
| "exists X (PrefixedObjectStore inner prfx) key W = exists X inner (prefixed_key prfx key) W"

fun delete :: "'x backend \<Rightarrow> store \<Rightarrow> string \<Rightarrow> 'x storage \<Rightarrow> io_error + 'x storage" where
  "delete X (LocalObjectStore root) key W =
     and_then (local_delete root key (disk W)) (\<lambda>F. Inr (W\<lparr>disk := F\<rparr>))"
| "delete X (S3ObjectStore h) key W = remote_delete X h key W"
| "delete X (MemoryObjectStore h) key W = remote_delete X h key W"
| "delete X (PrefixedObjectStore inner prfx) key W = delete X inner (prefixed_key prfx key) W"

text \<open>
  Choice of the backend.  \<open>s3\<close> is the outcome of \<open>S3ObjectStore::from_env\<close>, \<open>mem\<close> the handle of
  the in-memory backend that \<open>MemoryObjectStore::default()\<close> creates.
\<close>

definition from_env_or :: "env \<Rightarrow> (string + nat) \<Rightarrow> nat \<Rightarrow> path \<Rightarrow> store" where
  "from_env_or env s3 mem root =
     (if env ''NSMT_OBJECT_STORE'' = Some ''s3'' then
        (case s3 of Inr h \<Rightarrow> S3ObjectStore h | Inl e \<Rightarrow> LocalObjectStore root)
      else if env ''NSMT_OBJECT_STORE'' = Some ''memory'' then MemoryObjectStore mem
      else LocalObjectStore root)"

definition from_env_tenant :: "env \<Rightarrow> (string + nat) \<Rightarrow> nat \<Rightarrow> path \<Rightarrow> string \<Rightarrow> store" where
  "from_env_tenant env s3 mem root ud =
     (let base =
        (if env ''NSMT_OBJECT_STORE'' = Some ''s3'' then
           (case s3 of Inr h \<Rightarrow> S3ObjectStore h | Inl e \<Rightarrow> LocalObjectStore root)
         else if env ''NSMT_OBJECT_STORE'' = Some ''memory'' then MemoryObjectStore mem
         else LocalObjectStore root)
      in if env ''NSMT_OBJECT_STORE'' = Some ''s3'' \<or> env ''NSMT_OBJECT_STORE'' = Some ''memory''
         then prefixed_new base (''t/'' @ ud @ ''/objects'')
         else base)"

section \<open>The contract\<close>

text \<open>
  What a client of an object store may rely on.  Objects are content-addressed: a key is only
  ever written with the bytes it names, so an implementation may keep or overwrite an object
  that is already there.
\<close>

locale object_store =
  fixes oput :: "'k \<Rightarrow> bytes \<Rightarrow> 's \<Rightarrow> 'e + 's"
    and oget :: "'k \<Rightarrow> 's \<Rightarrow> bytes option"
    and oexists :: "'k \<Rightarrow> 's \<Rightarrow> bool"
    and odelete :: "'k \<Rightarrow> 's \<Rightarrow> 'e + 's"
    and okey :: "'k \<Rightarrow> bool"
    and oinvar :: "'s \<Rightarrow> bool"
  assumes put_total: "oinvar s \<Longrightarrow> okey k \<Longrightarrow> \<exists>s'. oput k b s = Inr s'"
    and put_invar: "oinvar s \<Longrightarrow> okey k \<Longrightarrow> oput k b s = Inr s' \<Longrightarrow> oinvar s'"
    and put_new: "oinvar s \<Longrightarrow> okey k \<Longrightarrow> oput k b s = Inr s' \<Longrightarrow> oget k s \<in> {None, Some b} \<Longrightarrow>
      oget k s' = Some b"
    and put_other: "oinvar s \<Longrightarrow> okey k \<Longrightarrow> okey j \<Longrightarrow> oput k b s = Inr s' \<Longrightarrow> j \<noteq> k \<Longrightarrow>
      oget j s' = oget j s"
    and exists_get: "oinvar s \<Longrightarrow> okey k \<Longrightarrow> oexists k s \<longleftrightarrow> oget k s \<noteq> None"
    and delete_get: "oinvar s \<Longrightarrow> okey k \<Longrightarrow> odelete k s = Inr s' \<Longrightarrow> oget k s' = None"
    and delete_other: "oinvar s \<Longrightarrow> okey k \<Longrightarrow> okey j \<Longrightarrow> odelete k s = Inr s' \<Longrightarrow> j \<noteq> k \<Longrightarrow>
      oget j s' = oget j s"
    and delete_invar: "oinvar s \<Longrightarrow> okey k \<Longrightarrow> odelete k s = Inr s' \<Longrightarrow> oinvar s'"
begin

text \<open>A sequence of puts.\<close>

fun puts :: "('k \<times> bytes) list \<Rightarrow> 's \<Rightarrow> 'e + 's" where
  "puts [] s = Inr s"
| "puts ((k, b) # kbs) s = (case oput k b s of Inl e \<Rightarrow> Inl e | Inr s' \<Rightarrow> puts kbs s')"

lemma puts_ok:
  assumes "oinvar s" and "\<forall>(k, b) \<in> set kbs. okey k"
  shows "\<exists>s'. puts kbs s = Inr s' \<and> oinvar s'"
  using assms
proof (induction kbs arbitrary: s)
  case (Cons kb kbs)
  obtain k b where kb: "kb = (k, b)" by (cases kb)
  with Cons.prems have k: "okey k" and rest: "\<forall>(k, b) \<in> set kbs. okey k" by auto
  obtain s1 where s1: "oput k b s = Inr s1" using put_total [OF Cons.prems(1) k] by blast
  with Cons.IH [OF put_invar [OF Cons.prems(1) k s1] rest] kb show ?case by simp
qed simp

text \<open>
  With keys that name their contents (\<open>name b\<close>), every object ever put is found again after any
  further puts.
\<close>

lemma puts_get:
  assumes "oinvar s" and "\<forall>(k, b) \<in> set kbs. okey k \<and> c k = b"
    and "\<forall>k b. okey k \<longrightarrow> oget k s = Some b \<longrightarrow> c k = b" and "puts kbs s = Inr s'" and "okey k"
  shows "oget k s' = (if k \<in> fst ` set kbs then Some (c k) else oget k s)"
  using assms(1-4)
proof (induction kbs arbitrary: s)
  case (Cons kb kbs)
  obtain j b where kb: "kb = (j, b)" by (cases kb)
  with Cons.prems have j: "okey j" "c j = b" by auto
  from Cons.prems kb obtain s1 where s1: "oput j b s = Inr s1" "puts kbs s1 = Inr s'"
    by (auto split: sum.splits)
  have get: "oget i s1 = (if i = j then Some (c j) else oget i s)" if "okey i" for i
  proof (cases "i = j")
    case True
    have "oget j s \<in> {None, Some b}" using Cons.prems(3) j by (cases "oget j s") auto
    with True put_new [OF Cons.prems(1) j(1) s1(1)] j(2) show ?thesis by simp
  next
    case False
    then show ?thesis using put_other [OF Cons.prems(1) j(1) that s1(1)] by simp
  qed
  have "oget k s' = (if k \<in> fst ` set kbs then Some (c k) else oget k s1)"
    using Cons.prems get s1 put_invar [OF Cons.prems(1) j(1) s1(1)] by (intro Cons.IH) auto
  then show ?case using get [OF assms(5)] kb by auto
qed simp

end

section \<open>The local store meets the contract\<close>

text \<open>
  The root is an existing directory without subdirectories, or it can be created and is empty
  when it has been.
\<close>

definition local_ready :: "path \<Rightarrow> fs \<Rightarrow> fs \<Rightarrow> string list \<Rightarrow> bool" where
  "local_ready root F F' ds \<longleftrightarrow>
     root \<noteq> [] \<and> fs_create_dir_all root F = Inr F' \<and> resolve F' root = Inr ds \<and>
     node_at F' ds = Some Dir \<and> (\<forall>n. node_at F' (ds @ [n]) \<noteq> Some Dir) \<and>
     (F' = F \<or> (\<forall>n. node_at F' (ds @ [n]) = None))"

definition local_ok :: "path \<Rightarrow> fs \<Rightarrow> bool" where
  "local_ok root F \<longleftrightarrow> (\<exists>F' ds. local_ready root F F' ds)"

lemma local_resolve:
  assumes "local_ready root F F' ds" and "simple_name k"
  shows "resolve F (join root k) = Inr (ds @ [k]) \<and> node_at F (ds @ [k]) = node_at F' (ds @ [k]) \<or>
    node_at F' (ds @ [k]) = None \<and>
    (\<forall>cs. resolve F (join root k) = Inr cs \<longrightarrow> node_at F cs = None)"
proof -
  have r': "resolve F' (join root k) = Inr (ds @ [k])"
    using assms by (intro resolve_join) (simp_all add: local_ready_def)
  have kept: "dirs_kept F F'" and grows: "\<forall>x. node_at F x \<noteq> None \<longrightarrow> node_at F' x = node_at F x"
    using assms(1) create_dir_all_kept create_dir_all_grows unfolding local_ready_def by blast+
  show ?thesis
  proof (cases "F' = F")
    case False
    then have none: "node_at F' (ds @ [k]) = None" using assms(1) by (auto simp: local_ready_def)
    have "node_at F cs = None" if "resolve F (join root k) = Inr cs" for cs
      using resolve_kept [OF that kept] r' none grows by auto
    then show ?thesis using none by blast
  qed (use r' in auto)
qed

lemma local_get_node:
  assumes "local_ready root F F' ds" and "simple_name k"
  shows "local_get root k F = (case node_at F' (ds @ [k]) of Some (File b) \<Rightarrow> Some b | _ \<Rightarrow> None)"
  using local_resolve [OF assms]
  by (elim disjE conjE; cases "resolve F (join root k)")
    (simp_all add: local_get_def fs_read_def split: option.split node.split)

lemma local_exists_node:
  assumes "local_ready root F F' ds" and "simple_name k"
  shows "local_exists root k F \<longleftrightarrow> node_at F' (ds @ [k]) \<noteq> None"
  using local_resolve [OF assms]
  by (elim disjE conjE; cases "resolve F (join root k)") (simp_all add: local_exists_def fs_exists_def)

lemma local_put_node:
  assumes "local_ready root F F' ds" and "simple_name k"
  shows "local_put root k b F =
    Inr (if node_at F' (ds @ [k]) = None then set_node (ds @ [k]) (File b) F' else F')"
proof -
  have *: "resolve F' root = Inr ds" "node_at F' ds = Some Dir" "node_at F' (ds @ [k]) \<noteq> Some Dir"
    "fs_create_dir_all root F = Inr F'"
    using assms(1) by (simp_all add: local_ready_def)
  from exists_in_dir [OF *(1,2) assms(2)] write_in_dir [OF *(1,2) assms(2) *(3)] *(4)
  show ?thesis by (simp add: local_put_def)
qed

lemma local_ready_update:
  assumes "local_ready root F F' ds" and "dirs_kept F' G"
    and "\<forall>n. node_at G (ds @ [n]) \<noteq> Some Dir"
  shows "local_ready root G G ds"
proof -
  have old: "root \<noteq> []" "resolve F' root = Inr ds" "node_at F' ds = Some Dir"
    using assms(1) unfolding local_ready_def by blast+
  have "resolve G root = Inr ds" using resolve_kept [OF old(2) assms(2)] .
  moreover have "node_at G ds = Some Dir" using old(3) assms(2) unfolding dirs_kept_def by blast
  ultimately show ?thesis
    using old(1) assms(3) create_dir_all_idem unfolding local_ready_def by blast
qed

lemma local_put_ready:
  assumes "local_ready root F F' ds" and "simple_name k"
    and "local_put root k b F = Inr G"
  shows "local_ready root G G ds \<and>
    node_at G (ds @ [j]) =
      (if j = k \<and> node_at F' (ds @ [k]) = None then Some (File b) else node_at F' (ds @ [j]))"
proof -
  have G: "G = (if node_at F' (ds @ [k]) = None then set_node (ds @ [k]) (File b) F' else F')"
    using local_put_node [OF assms(1,2), of b] assms(3) by simp
  have nd: "\<forall>n. node_at F' (ds @ [n]) \<noteq> Some Dir" using assms(1) by (simp add: local_ready_def)
  have "dirs_kept F' G" unfolding G using dirs_kept_set_File nd by auto
  then show ?thesis using local_ready_update [OF assms(1)] nd by (auto simp: G)
qed

lemma local_delete_ready:
  assumes "local_ready root F F' ds" and "simple_name k" and "local_delete root k F = Inr G"
  shows "local_ready root G G ds \<and>
    node_at G (ds @ [j]) = (if j = k then None else node_at F' (ds @ [j]))"
proof -
  obtain cs bs where cs: "resolve F (join root k) = Inr cs" "node_at F cs = Some (File bs)"
    "G = F\<lparr>nodes := hm_remove cs (nodes F)\<rparr>"
    using fs_remove_file_InrD [of "join root k" F G] assms(3) by (auto simp: local_delete_def)
  have ds: "cs = ds @ [k]" "node_at F' cs = Some (File bs)"
    using local_resolve [OF assms(1,2)] cs(1,2) by auto
  have F': "F' = F" using assms(1) ds by (auto simp: local_ready_def)
  have nd: "\<forall>n. node_at F' (ds @ [n]) \<noteq> Some Dir" using assms(1) by (simp add: local_ready_def)
  have "dirs_kept F' G" using dirs_kept_remove_File [of F cs] cs F' by simp
  then show ?thesis using local_ready_update [OF assms(1)] nd ds cs(3) F' by auto
qed

interpretation local_store: object_store
  "put X (LocalObjectStore root)" "get X (LocalObjectStore root)" "exists X (LocalObjectStore root)"
  "delete X (LocalObjectStore root)" simple_name "\<lambda>W. local_ok root (disk W)"
proof unfold_locales
  fix W W' :: "'a storage" and k j b
  assume "local_ok root (disk W)" and k: "simple_name k"
  then obtain F' ds where r: "local_ready root (disk W) F' ds" by (auto simp: local_ok_def)
  note get = local_get_node [OF r] and put_n = local_put_node [OF r k, of b]
  show "\<exists>W'. put X (LocalObjectStore root) k b W = Inr W'"
    by (simp add: put_n)
  show "exists X (LocalObjectStore root) k W \<longleftrightarrow> get X (LocalObjectStore root) k W \<noteq> None"
    using r by (auto simp: get [OF k] local_exists_node [OF r k] local_ready_def
        split: option.splits node.splits)
  { assume "put X (LocalObjectStore root) k b W = Inr W'"
    then have "local_put root k b (disk W) = Inr (disk W')" by (auto simp: and_then_eq_Inr)
    note G = local_put_ready [OF r k this]
    then have r': "local_ready root (disk W') (disk W') ds" by blast
    then show "local_ok root (disk W')" by (auto simp: local_ok_def)
    show "get X (LocalObjectStore root) k W' = Some b"
      if "get X (LocalObjectStore root) k W \<in> {None, Some b}"
      using that G [of k] r by (auto simp: get [OF k] local_get_node [OF r' k] local_ready_def
          split: option.splits node.splits)
    show "get X (LocalObjectStore root) j W' = get X (LocalObjectStore root) j W"
      if "simple_name j" and "j \<noteq> k"
      using that G [of j] by (simp add: get local_get_node [OF r']) }
  { assume "delete X (LocalObjectStore root) k W = Inr W'"
    then have "local_delete root k (disk W) = Inr (disk W')" by (auto simp: and_then_eq_Inr)
    note G = local_delete_ready [OF r k this]
    then have r': "local_ready root (disk W') (disk W') ds" by blast
    then show "local_ok root (disk W')" by (auto simp: local_ok_def)
    show "get X (LocalObjectStore root) k W' = None"
      using G [of k] by (simp add: local_get_node [OF r' k])
    show "get X (LocalObjectStore root) j W' = get X (LocalObjectStore root) j W"
      if "simple_name j" and "j \<noteq> k"
      using that G [of j] by (simp add: get local_get_node [OF r']) }
qed

section \<open>Tenants are kept apart by their prefixes\<close>

lemma prefixed_key_inject:
  assumes "trim_start_matches CHR ''/'' k = k" and "trim_start_matches CHR ''/'' j = j"
  shows "prefixed_key p k = prefixed_key p j \<longleftrightarrow> k = j"
  using assms by (simp add: prefixed_key_def)

definition tenant_prefix :: "string \<Rightarrow> string" where
  "tenant_prefix d = ''t/'' @ d @ ''/objects/''"

lemma split_at_slash:
  assumes "a @ CHR ''/'' # s = b @ CHR ''/'' # t" and "CHR ''/'' \<notin> set a" and "CHR ''/'' \<notin> set b"
  shows "a = b"
proof -
  have "takeWhile (\<lambda>c. c \<noteq> CHR ''/'') (x @ CHR ''/'' # y) = x" if "CHR ''/'' \<notin> set x" for x y
    using that by (subst takeWhile_append2) auto
  then show ?thesis using assms by metis
qed

text \<open>
  \<open>Path::from\<close> of the crate \<open>object_store\<close> cuts a key at the slashes, drops the empty pieces and
  escapes each of the others, the escape character included: two keys name the same object exactly
  when they have the same non-empty pieces.
\<close>

definition key_parts :: "string \<Rightarrow> string list" where
  "key_parts k = filter (\<lambda>s. s \<noteq> []) (split_char CHR ''/'' k)"

definition path_law :: "'x backend \<Rightarrow> bool" where
  "path_law X \<longleftrightarrow> (\<forall>k j. x_path X k = x_path X j \<longleftrightarrow> key_parts k = key_parts j)"

lemma key_parts_append: "key_parts (p @ CHR ''/'' # q) = key_parts p @ key_parts q"
  by (simp add: key_parts_def split_char_append)

lemma key_parts_name: "CHR ''/'' \<notin> set n \<Longrightarrow> key_parts n = (if n = [] then [] else [n])"
  by (simp add: key_parts_def split_char_none)

lemma tenant_key_parts:
  assumes "CHR ''/'' \<notin> set d"
  shows "key_parts (prefixed_key (tenant_prefix d) k) =
    ''t'' # (if d = [] then [] else [d]) @ ''objects'' # key_parts (trim_start_matches CHR ''/'' k)"
proof -
  have "prefixed_key (tenant_prefix d) k = ''t'' @ CHR ''/'' # (d @ CHR ''/'' # (''objects'' @ CHR ''/'' # trim_start_matches CHR ''/'' k))"
    by (simp add: prefixed_key_def tenant_prefix_def)
  then show ?thesis by (simp only: key_parts_append key_parts_name [OF assms]) (simp add: key_parts_name)
qed

lemma prefixed_keys_apart:
  assumes "CHR ''/'' \<notin> set d" and "CHR ''/'' \<notin> set e" and "d \<noteq> []" and "e \<noteq> []" and "d \<noteq> e"
  shows "key_parts (prefixed_key (tenant_prefix d) k) \<noteq> key_parts (prefixed_key (tenant_prefix e) j)"
  using assms by (simp add: tenant_key_parts)

text \<open>A tenant without a name shares objects with the tenant \<open>objects\<close>; nothing refuses such a name.\<close>

lemma empty_domain_collides:
  "key_parts (prefixed_key (tenant_prefix []) (''objects/'' @ k)) = key_parts (prefixed_key (tenant_prefix ''objects'') (CHR ''/'' # k))"
proof -
  have "key_parts (''objects'' @ CHR ''/'' # k) = ''objects'' # key_parts k" unfolding key_parts_append by (simp add: key_parts_name)
  moreover have "key_parts (trim_start_matches CHR ''/'' k) = key_parts k"
    by (induction k) (simp_all add: trim_start_matches_def key_parts_append [of "[]", simplified] key_parts_name)
  ultimately show ?thesis by (simp add: tenant_key_parts) (simp add: trim_start_matches_def)
qed

lemma from_env_tenant_shared:
  assumes "env ''NSMT_OBJECT_STORE'' = Some ''s3''"
  shows "from_env_tenant env (Inr h) m root d = PrefixedObjectStore (S3ObjectStore h) (tenant_prefix d)"
  using assms by (simp add: from_env_tenant_def prefixed_new_def tenant_prefix_def suffix_def)

section \<open>Properties\<close>

text \<open>
  On the local store a put succeeds, the object is then read back, exists, and every other
  object is untouched; an object that is already there is kept as it is.
\<close>

theorem local_store_put_get:
  assumes "local_ok root (disk W)" and "simple_name k"
  shows "\<exists>W'. put X (LocalObjectStore root) k b W = Inr W' \<and> local_ok root (disk W') \<and>
    get X (LocalObjectStore root) k W' =
      (case get X (LocalObjectStore root) k W of None \<Rightarrow> Some b | Some old \<Rightarrow> Some old) \<and>
    exists X (LocalObjectStore root) k W' \<and>
    (\<forall>j. simple_name j \<longrightarrow> j \<noteq> k \<longrightarrow>
       get X (LocalObjectStore root) j W' = get X (LocalObjectStore root) j W)"
proof -
  obtain F' ds where r: "local_ready root (disk W) F' ds" using assms(1) by (auto simp: local_ok_def)
  obtain W' where W': "put X (LocalObjectStore root) k b W = Inr W'"
    using local_store.put_total [OF assms] by blast
  then have "local_put root k b (disk W) = Inr (disk W')" by (auto simp: and_then_eq_Inr)
  note G = local_put_ready [OF r assms(2) this]
  have "local_ready root (disk W') (disk W') ds" using G by blast
  from G [of k] local_get_node [OF this assms(2)] local_get_node [OF r assms(2)] r
  have g: "get X (LocalObjectStore root) k W' =
      (case get X (LocalObjectStore root) k W of None \<Rightarrow> Some b | Some old \<Rightarrow> Some old)"
    by (auto simp: local_ready_def split: option.split node.split)
  have "exists X (LocalObjectStore root) k W'"
    using local_store.exists_get [OF local_store.put_invar [OF assms W'] assms(2), of X] g
    by (auto split: option.splits)
  with g W' show ?thesis
    using local_store.put_invar [OF assms W'] local_store.put_other [OF assms(1,2) _ W'] by blast
qed

definition no_backend :: "unit backend" where
  "no_backend = \<lparr>x_path = id, x_put = (\<lambda>p b x. Inr x), x_get = (\<lambda>p x. None),
     x_head = (\<lambda>p x. False), x_delete = (\<lambda>p x. Inr x)\<rparr>"

theorem local_store_put_get_witness:
  "\<exists>W'. put no_backend (LocalObjectStore ''/o'') ''ab'' [1, 2]
       \<lparr>disk = \<lparr>cwd = [], nodes = []\<rparr>, remote = \<lambda>_. ()\<rparr> = Inr W' \<and>
     get no_backend (LocalObjectStore ''/o'') ''ab'' W' = Some [1, 2]"
proof -
  let ?W = "\<lparr>disk = \<lparr>cwd = [], nodes = []\<rparr>, remote = \<lambda>_. ()\<rparr>"
  have "local_ready ''/o'' (disk ?W) \<lparr>cwd = [], nodes = [([''o''], Dir)]\<rparr> [''o'']"
    by (simp add: local_ready_def fs_create_dir_all_def start_of_def set_node_def node_at_def
        hm_get_def hm_insert_def resolve_def)
  then have ok: "local_ok ''/o'' (disk ?W)" by (auto simp: local_ok_def)
  have s: "simple_name ''ab''" by (simp add: simple_name_def)
  have g: "get no_backend (LocalObjectStore ''/o'') ''ab'' ?W = None"
    by (simp add: local_get_def fs_read_def resolve_def join_def start_of_def node_at_def hm_get_def)
  from local_store_put_get [OF ok s, of no_backend "[1, 2]"] g show ?thesis by auto
qed

text \<open>
  C32: tenants with different, non-empty names that share an S3 bucket never see each other's objects.
  Whatever backend keeps objects at different paths apart and forms paths as \<open>Path::from\<close> does, a put
  or a delete by one tenant changes no object of another tenant, whatever keys they use, keys with
  extra slashes included; and tenants with the names \<open>''\<close> and \<open>objects\<close> are not kept apart.
\<close>

theorem tenant_prefix_isolation:
  assumes "\<And>p q b x x'. x_put X p b x = Inr x' \<Longrightarrow> p \<noteq> q \<Longrightarrow> x_get X q x' = x_get X q x"
    and "\<And>p q x x'. x_delete X p x = Inr x' \<Longrightarrow> p \<noteq> q \<Longrightarrow> x_get X q x' = x_get X q x"
    and "path_law X" and "env ''NSMT_OBJECT_STORE'' = Some ''s3''"
    and "CHR ''/'' \<notin> set d" and "CHR ''/'' \<notin> set e" and "d \<noteq> []" and "e \<noteq> []" and "d \<noteq> e"
  shows "(\<forall>k b W W' j. put X (from_env_tenant env (Inr h) m root d) k b W = Inr W' \<or> delete X (from_env_tenant env (Inr h) m root d) k W = Inr W' \<longrightarrow>
      get X (from_env_tenant env (Inr h) m root e) j W' = get X (from_env_tenant env (Inr h) m root e) j W) \<and>
    get X (from_env_tenant env (Inr h) m root []) (''objects/'' @ i) V = get X (from_env_tenant env (Inr h) m root ''objects'') (CHR ''/'' # i) V"
proof -
  have ne: "x_path X (prefixed_key (tenant_prefix d) k) \<noteq> x_path X (prefixed_key (tenant_prefix e) j)" for k j
    using prefixed_keys_apart [OF assms(5-9)] assms(3) by (simp add: path_law_def)
  have "x_path X (prefixed_key (tenant_prefix []) (''objects/'' @ i)) = x_path X (prefixed_key (tenant_prefix ''objects'') (CHR ''/'' # i))"
    using assms(3) empty_domain_collides [of i] unfolding path_law_def by blast
  then show ?thesis
    unfolding from_env_tenant_shared [of env, OF assms(4)]
    using assms(1,2) [OF _ ne] by (auto simp: remote_put_def remote_delete_def remote_get_def split: sum.splits)
qed

text \<open>A backend that keeps a map, with paths that are put together again from the pieces.\<close>

definition map_backend :: "(string \<Rightarrow> bytes option) backend" where
  "map_backend = \<lparr>x_path = (\<lambda>k. concat (map (Cons CHR ''/'') (key_parts k))), x_put = (\<lambda>p b x. Inr (x(p := Some b))), x_get = (\<lambda>p x. x p),
     x_head = (\<lambda>p x. x p \<noteq> None), x_delete = (\<lambda>p x. Inr (x(p := None)))\<rparr>"

lemma split_char_pieces: "\<forall>s \<in> set (split_char c k). c \<notin> set s"
  by (induction k) (auto split: list.splits)

lemma split_joined: "\<forall>s \<in> set ps. c \<notin> set s \<Longrightarrow> split_char c (concat (map (Cons c) ps)) = [] # ps"
proof (induction ps rule: rev_induct)
  case (snoc p ps)
  have "concat (map (Cons c) (ps @ [p])) = concat (map (Cons c) ps) @ c # p" by simp
  with snoc show ?case by (simp only: split_char_append) (simp add: split_char_none)
qed simp

lemma map_backend_law: "path_law map_backend"
  unfolding path_law_def
proof (intro allI iffI)
  have p: "\<forall>s \<in> set (key_parts k). CHR ''/'' \<notin> set s" for k using split_char_pieces [of "CHR ''/''" k] by (simp add: key_parts_def)
  fix k j assume "x_path map_backend k = x_path map_backend j"
  then have "split_char CHR ''/'' (concat (map (Cons CHR ''/'') (key_parts k))) = split_char CHR ''/'' (concat (map (Cons CHR ''/'') (key_parts j)))"
    by (simp add: map_backend_def)
  then show "key_parts k = key_parts j" using split_joined p by (metis list.inject)
qed (simp add: map_backend_def)

theorem tenant_prefix_isolation_witness:
  "get map_backend (from_env_tenant [''NSMT_OBJECT_STORE'' \<mapsto> ''s3''] (Inr 0) 1 ''r'' ''bob'') ''k''
     \<lparr>disk = \<lparr>cwd = [], nodes = []\<rparr>, remote = (\<lambda>_. [''/t/bob/objects/k'' \<mapsto> [9]])(0 := [''/t/bob/objects/k'' \<mapsto> [9], ''/t/ann/objects/k'' \<mapsto> [7]])\<rparr> = Some [9]"
proof -
  let ?W = "\<lparr>disk = \<lparr>cwd = [], nodes = []\<rparr>, remote = \<lambda>_. [''/t/bob/objects/k'' \<mapsto> [9]]\<rparr> :: (string \<Rightarrow> bytes option) storage"
  let ?W' = "\<lparr>disk = \<lparr>cwd = [], nodes = []\<rparr>, remote = (\<lambda>_. [''/t/bob/objects/k'' \<mapsto> [9]])(0 := [''/t/bob/objects/k'' \<mapsto> [9], ''/t/ann/objects/k'' \<mapsto> [7]])\<rparr>"
  let ?env = "[''NSMT_OBJECT_STORE'' \<mapsto> ''s3'']"
  have p: "put map_backend (from_env_tenant ?env (Inr 0) 1 ''r'' ''ann'') ''k'' [7] ?W = Inr ?W'"
    by (simp add: from_env_tenant_shared remote_put_def map_backend_def tenant_key_parts trim_start_matches_def key_parts_name)
  have laws: "x_put map_backend p b x = Inr x' \<Longrightarrow> p \<noteq> q \<Longrightarrow> x_get map_backend q x' = x_get map_backend q x"
    "x_delete map_backend p x = Inr x' \<Longrightarrow> p \<noteq> q \<Longrightarrow> x_get map_backend q x' = x_get map_backend q x" for p q b x x'
    by (auto simp: map_backend_def)
  have env: "?env ''NSMT_OBJECT_STORE'' = Some ''s3''" by simp
  have "get map_backend (from_env_tenant ?env (Inr 0) 1 ''r'' ''bob'') ''k'' ?W' =
      get map_backend (from_env_tenant ?env (Inr 0) 1 ''r'' ''bob'') ''k'' ?W"
    using tenant_prefix_isolation [where X = map_backend and env = ?env and d = "''ann''" and e = "''bob''" and h = 0 and m = 1 and root = "''r''",
      OF laws map_backend_law env] p by simp
  also have "\<dots> = Some [9]"
    by (simp add: from_env_tenant_shared remote_get_def map_backend_def tenant_key_parts trim_start_matches_def key_parts_name)
  finally show ?thesis .
qed

text \<open>
  The fallback of the S3 backend to the local one does not store anything.  When the S3
  configuration is incomplete, the tenant's store is the local store under the tenant prefix,
  and as this prefix names a directory that \<open>put\<close> does not create, every put on a fresh root
  fails with \<open>NotFound\<close>.
\<close>

theorem s3_fallback_put_fails:
  assumes "env ''NSMT_OBJECT_STORE'' = Some ''s3''"
    and "fs_create_dir_all root (disk W) = Inr F'" and "root \<noteq> []" and "resolve F' root = Inr ds"
    and "node_at F' (ds @ [''t'']) = None" and "CHR 0x00 \<notin> set (d @ k)"
  shows "put X (from_env_tenant env (Inl e) m root d) k b W = Inl NotFound"
proof -
  let ?key = "prefixed_key (tenant_prefix d) k"
  have dir: "node_at F' ds = Some Dir" using create_dir_all_resolves [OF assms(2,3)] assms(4) by auto
  have t: "resolve F' (join root ''t'') = Inr (ds @ [''t''])"
    by (rule resolve_join [OF assms(4) dir]) (simp add: simple_name_def)
  have nul: "CHR 0x00 \<notin> set (join root ?key)"
    using assms(4,6) set_dropWhileD
    by (fastforce simp: resolve_def join_def prefixed_key_def tenant_prefix_def trim_start_matches_def
        split: if_splits)
  have key: "join root ?key = join root ''t'' @ CHR ''/'' # d @ ''/objects/'' @ trim_start_matches CHR ''/'' k"
    by (simp add: join_def prefixed_key_def tenant_prefix_def)
  have "walk F' (start_of F' (join root ''t'')) (split_char CHR ''/'' (join root ''t'')) = Inr (ds @ [''t''])"
    using t by (auto simp: resolve_def split: if_splits)
  moreover have "start_of F' (join root ?key) = start_of F' (join root ''t'')"
    using assms(3) by (cases root) (auto simp: start_of_def join_def prefixed_key_def tenant_prefix_def)
  moreover have "walk F' (ds @ [''t'']) (split_char CHR ''/'' x) = Inl NotFound" for x
    using assms(5) by (cases "split_char CHR ''/'' x") simp_all
  ultimately have "resolve F' (join root ?key) = Inl NotFound"
    using nul by (simp add: resolve_def key split_char_append walk_append)
  then show ?thesis using assms(1,2)
    by (simp add: from_env_tenant_def prefixed_new_def tenant_prefix_def suffix_def local_put_def
        fs_exists_def fs_write_def Let_def)
qed

theorem s3_fallback_put_fails_witness:
  "put no_backend (from_env_tenant [''NSMT_OBJECT_STORE'' \<mapsto> ''s3''] (Inl ''no endpoint'') 0 ''/o'' ''ann'')
     ''ab'' [1] \<lparr>disk = \<lparr>cwd = [], nodes = []\<rparr>, remote = \<lambda>_. ()\<rparr> = Inl NotFound"
  by (rule s3_fallback_put_fails [where F' = "\<lparr>cwd = [], nodes = [([''o''], Dir)]\<rparr>" and ds = "[''o'']"])
    (simp_all add: fs_create_dir_all_def start_of_def set_node_def node_at_def hm_get_def hm_insert_def
      resolve_def)

end
