(* ===== verification/Store_Refinement.thy ===== *)
theory Store_Refinement
  imports Object_Store
begin

text \<open>
  The local object store of \<open>nsmt-fs/src/lib.rs\<close> as a refinement of a map: whatever
  sequence of calls a client makes, it gets the answers of a finite map in which a key, once
  bound, keeps its contents until it is deleted.
\<close>

section \<open>Calls and their answers\<close>

datatype store_call =
    SPut string bytes
  | SGet string
  | SExists string
  | SDelete string

datatype store_answer =
    SDone
  | SBytes "bytes option"
  | SBool bool
  | SFailed

fun call_key :: "store_call \<Rightarrow> string" where
  "call_key (SPut k b) = k"
| "call_key (SGet k) = k"
| "call_key (SExists k) = k"
| "call_key (SDelete k) = k"

text \<open>A call that fails leaves the store as it was.\<close>

definition answer :: "'e + 's \<Rightarrow> 's \<Rightarrow> store_answer \<times> 's" where
  "answer r s = (case r of Inl _ \<Rightarrow> (SFailed, s) | Inr s' \<Rightarrow> (SDone, s'))"

fun call_store :: "'x backend \<Rightarrow> store \<Rightarrow> store_call \<Rightarrow> 'x storage \<Rightarrow> store_answer \<times> 'x storage" where
  "call_store X st (SPut k b) W = answer (put X st k b W) W"
| "call_store X st (SGet k) W = (SBytes (get X st k W), W)"
| "call_store X st (SExists k) W = (SBool (exists X st k W), W)"
| "call_store X st (SDelete k) W = answer (delete X st k W) W"

fun run_calls :: "(store_call \<Rightarrow> 's \<Rightarrow> store_answer \<times> 's) \<Rightarrow> store_call list \<Rightarrow> 's \<Rightarrow> store_answer list \<times> 's" where
  "run_calls f [] s = ([], s)"
| "run_calls f (c # cs) s = (case f c s of (a, s') \<Rightarrow> case run_calls f cs s' of (as, s'') \<Rightarrow> (a # as, s''))"

text \<open>The abstract store.\<close>

fun spec_call :: "store_call \<Rightarrow> (string \<rightharpoonup> bytes) \<Rightarrow> store_answer \<times> (string \<rightharpoonup> bytes)" where
  "spec_call (SPut k b) m = (SDone, if m k = None then m(k \<mapsto> b) else m)"
| "spec_call (SGet k) m = (SBytes (m k), m)"
| "spec_call (SExists k) m = (SBool (m k \<noteq> None), m)"
| "spec_call (SDelete k) m = (if m k = None then (SFailed, m) else (SDone, m(k := None)))"

section \<open>Stores that never overwrite\<close>

locale write_once_store = object_store oput oget oexists odelete okey oinvar
  for oput :: "string \<Rightarrow> bytes \<Rightarrow> 's \<Rightarrow> 'e + 's"
    and oget :: "string \<Rightarrow> 's \<Rightarrow> bytes option"
    and oexists :: "string \<Rightarrow> 's \<Rightarrow> bool"
    and odelete :: "string \<Rightarrow> 's \<Rightarrow> 'e + 's"
    and okey :: "string \<Rightarrow> bool"
    and oinvar :: "'s \<Rightarrow> bool" +
  assumes put_keeps: "oinvar s \<Longrightarrow> okey k \<Longrightarrow> oput k b s = Inr s' \<Longrightarrow> oget k s = Some c \<Longrightarrow> oget k s' = Some c"
    and delete_total: "oinvar s \<Longrightarrow> okey k \<Longrightarrow> (\<exists>s'. odelete k s = Inr s') \<longleftrightarrow> oget k s \<noteq> None"
begin

definition objects :: "'s \<Rightarrow> string \<rightharpoonup> bytes" where
  "objects s k = (if okey k then oget k s else None)"

fun ocall :: "store_call \<Rightarrow> 's \<Rightarrow> store_answer \<times> 's" where
  "ocall (SPut k b) s = answer (oput k b s) s"
| "ocall (SGet k) s = (SBytes (oget k s), s)"
| "ocall (SExists k) s = (SBool (oexists k s), s)"
| "ocall (SDelete k) s = answer (odelete k s) s"

lemma put_objects:
  assumes "oinvar s" and "okey k" and "oput k b s = Inr s'"
  shows "objects s' = snd (spec_call (SPut k b) (objects s))"
proof
  fix j
  show "objects s' j = snd (spec_call (SPut k b) (objects s)) j"
    using put_new [OF assms] put_keeps [OF assms] put_other [OF assms(1,2) _ assms(3), of j] assms(2)
    by (cases "j = k"; cases "oget k s") (auto simp: objects_def)
qed

lemma delete_objects:
  assumes "oinvar s" and "okey k" and "odelete k s = Inr s'"
  shows "objects s' = (objects s)(k := None)"
  using delete_get [OF assms] delete_other [OF assms(1,2) _ assms(3)] assms(2)
  by (auto simp: objects_def fun_eq_iff)

lemma ocall_refines:
  assumes "oinvar s" and "okey (call_key c)" and "ocall c s = (a, s')"
  shows "oinvar s' \<and> spec_call c (objects s) = (a, objects s')"
proof (cases c)
  case (SPut k b)
  then obtain t where t: "oput k b s = Inr t" using put_total [OF assms(1)] assms(2) by force
  then have "a = SDone" "s' = t" using SPut assms(3) by (auto simp: answer_def)
  then show ?thesis using put_objects [OF assms(1) _ t] put_invar [OF assms(1) _ t] assms(2) SPut by auto
next
  case (SGet k)
  then show ?thesis using assms by (auto simp: objects_def)
next
  case (SExists k)
  then show ?thesis using assms exists_get [OF assms(1)] by (auto simp: objects_def)
next
  case (SDelete k)
  then have k: "okey k" using assms(2) by simp
  show ?thesis
  proof (cases "odelete k s")
    case (Inl e)
    then have "oget k s = None" using delete_total [OF assms(1) k] by auto
    then show ?thesis using assms(1,3) SDelete Inl k by (auto simp: objects_def answer_def)
  next
    case (Inr t)
    then have "oget k s \<noteq> None" using delete_total [OF assms(1) k] by auto
    then show ?thesis
      using assms(3) SDelete Inr k delete_objects [OF assms(1) k Inr] delete_invar [OF assms(1) k Inr]
      by (auto simp: objects_def answer_def)
  qed
qed

lemma run_refines:
  assumes "oinvar s" and "\<forall>c \<in> set cs. okey (call_key c)" and "run_calls ocall cs s = (as, s')"
  shows "oinvar s' \<and> run_calls spec_call cs (objects s) = (as, objects s')"
  using assms
proof (induction cs arbitrary: s as)
  case (Cons c cs)
  obtain a t where t: "ocall c s = (a, t)" by (cases "ocall c s")
  obtain bs where u: "run_calls ocall cs t = (bs, s')" using Cons.prems(3) t by (auto split: prod.splits)
  from ocall_refines [OF Cons.prems(1) _ t] Cons.prems(2) have r: "oinvar t" "spec_call c (objects s) = (a, objects t)" by auto
  with Cons.IH [OF r(1) _ u] Cons.prems(2,3) t u show ?case by auto
qed simp

end

section \<open>The local store\<close>

interpretation local_once: write_once_store
  "put X (LocalObjectStore root)" "get X (LocalObjectStore root)" "exists X (LocalObjectStore root)"
  "delete X (LocalObjectStore root)" simple_name "\<lambda>W. local_ok root (disk W)"
proof unfold_locales
  fix W W' :: "'a storage" and k b c
  assume "local_ok root (disk W)" and k: "simple_name k"
  then obtain F' ds where r: "local_ready root (disk W) F' ds" by (auto simp: local_ok_def)
  note get = local_get_node [OF r k]
  { assume p: "put X (LocalObjectStore root) k b W = Inr W'" and g: "get X (LocalObjectStore root) k W = Some c"
    then have "local_put root k b (disk W) = Inr (disk W')" by (auto simp: and_then_eq_Inr)
    note G = local_put_ready [OF r k this]
    then have r': "local_ready root (disk W') (disk W') ds" by blast
    show "get X (LocalObjectStore root) k W' = Some c"
      using G [of k] g by (auto simp: get local_get_node [OF r' k] split: option.splits node.splits) }
  have nd: "node_at F' (ds @ [k]) \<noteq> Some Dir" using r by (simp add: local_ready_def)
  have "(\<exists>G. local_delete root k (disk W) = Inr G) \<longleftrightarrow> local_get root k (disk W) \<noteq> None"
    by (cases "resolve (disk W) (join root k)"; cases "node_at (disk W) (projr (resolve (disk W) (join root k)))";
        cases "the (node_at (disk W) (projr (resolve (disk W) (join root k))))")
      (simp_all add: local_delete_def fs_remove_file_def local_get_def fs_read_def)
  moreover have "(\<exists>W'. delete X (LocalObjectStore root) k W = Inr W') \<longleftrightarrow> (\<exists>G. local_delete root k (disk W) = Inr G)"
    by (cases "local_delete root k (disk W)") auto
  ultimately show "(\<exists>W'. delete X (LocalObjectStore root) k W = Inr W') \<longleftrightarrow> get X (LocalObjectStore root) k W \<noteq> None" by simp
qed

lemma local_once_call: "local_once.ocall X root c W = call_store X (LocalObjectStore root) c W"
  by (cases c) simp_all

text \<open>The objects in the directory of a local store.\<close>

definition local_objects :: "path \<Rightarrow> fs \<Rightarrow> string \<rightharpoonup> bytes" where
  "local_objects root F k = (if simple_name k then local_get root k F else None)"

lemma local_once_objects: "local_once.objects X root W = local_objects root (disk W)"
  by (auto simp: local_once.objects_def local_objects_def fun_eq_iff)

text \<open>
  C31: the local object store refines a write-once map.  From a directory that exists or can be
  created, any sequence of calls with plain keys gets exactly the answers of the abstract map that
  holds the objects of the directory, and the directory afterwards holds the abstract result: a put
  never fails and never replaces, a delete fails exactly for a missing object.
\<close>

theorem local_store_refines_map:
  assumes "local_ok root (disk W)" and "\<forall>c \<in> set cs. simple_name (call_key c)"
    and "run_calls (call_store X (LocalObjectStore root)) cs W = (as, W')"
  shows "run_calls spec_call cs (local_objects root (disk W)) = (as, local_objects root (disk W')) \<and> local_ok root (disk W')"
proof -
  have "local_once.ocall X root = call_store X (LocalObjectStore root)" by (simp add: fun_eq_iff local_once_call)
  with local_once.run_refines [OF assms(1,2), of X as W'] assms(3) show ?thesis by (simp add: local_once_objects)
qed

theorem local_store_refines_map_witness:
  "fst (run_calls (call_store no_backend (LocalObjectStore ''/o''))
     [SPut ''ab'' [1], SPut ''ab'' [2], SGet ''ab'', SDelete ''ab'', SDelete ''ab'', SExists ''ab'']
     \<lparr>disk = \<lparr>cwd = [], nodes = []\<rparr>, remote = \<lambda>_. ()\<rparr>) =
   [SDone, SDone, SBytes (Some [1]), SDone, SFailed, SBool False]"
proof -
  let ?W = "\<lparr>disk = \<lparr>cwd = [], nodes = []\<rparr>, remote = \<lambda>_. ()\<rparr> :: unit storage"
  let ?cs = "[SPut ''ab'' [1], SPut ''ab'' [2], SGet ''ab'', SDelete ''ab'', SDelete ''ab'', SExists ''ab'']"
  have "local_ready ''/o'' (disk ?W) \<lparr>cwd = [], nodes = [([''o''], Dir)]\<rparr> [''o'']"
    by (simp add: local_ready_def fs_create_dir_all_def start_of_def set_node_def node_at_def hm_get_def hm_insert_def resolve_def)
  then have ok: "local_ok ''/o'' (disk ?W)" by (auto simp: local_ok_def)
  have "local_objects ''/o'' (disk ?W) ''ab'' = None"
    by (simp add: local_objects_def local_get_def fs_read_def resolve_def join_def start_of_def node_at_def hm_get_def)
  then have spec: "fst (run_calls spec_call ?cs (local_objects ''/o'' (disk ?W))) = [SDone, SDone, SBytes (Some [1]), SDone, SFailed, SBool False]"
    by simp
  obtain as W' where run: "run_calls (call_store no_backend (LocalObjectStore ''/o'')) ?cs ?W = (as, W')"
    by (cases "run_calls (call_store no_backend (LocalObjectStore ''/o'')) ?cs ?W")
  have "\<forall>c \<in> set ?cs. simple_name (call_key c)" by (simp add: simple_name_def)
  from local_store_refines_map [OF ok this run] spec run show ?thesis by simp
qed

end
