(* ===== verification/Crypto.thy ===== *)
theory Crypto
  imports Object_Store
begin

text \<open>
  Identity keys and end-to-end encryption: \<open>nsmt-core/src/crypto.rs\<close> and
  \<open>nsmt-core/src/e2e.rs\<close>.

  The cryptographic crates (\<open>ed25519-dalek\<close>, \<open>chacha20poly1305\<close>, \<open>sha2\<close>, \<open>hex\<close>) are not part
  of the repository: the record \<open>crates\<close> stands for them.  A signing key is its 32-byte seed, a
  cipher its 32-byte key.  What the theorems use of the crates is stated in the predicates
  \<open>hex_law\<close>, \<open>ed25519_law\<close> and \<open>aead_law\<close>.
\<close>

record crates =
  sha256 :: "bytes \<Rightarrow> bytes"
  hex_encode :: "bytes \<Rightarrow> string"
  hex_decode :: "string \<Rightarrow> bytes option"
  verifying_key :: "bytes \<Rightarrow> bytes"
  vk_valid :: "bytes \<Rightarrow> bool"
  ed_sign :: "bytes \<Rightarrow> bytes \<Rightarrow> bytes"
  ed_verify :: "bytes \<Rightarrow> bytes \<Rightarrow> bytes \<Rightarrow> bool"
  seal :: "bytes \<Rightarrow> bytes \<Rightarrow> bytes \<Rightarrow> bytes option"
  unseal :: "bytes \<Rightarrow> bytes \<Rightarrow> bytes \<Rightarrow> bytes option"

text \<open>\<open>hex\<close>: decoding inverts encoding; the encoding uses hexadecimal digits only.\<close>

definition hex_law :: "crates \<Rightarrow> bool" where
  "hex_law C \<longleftrightarrow> (\<forall>b. hex_decode C (hex_encode C b) = Some b \<and>
     (\<forall>c \<in> set (hex_encode C b). is_ascii_hexdigit c))"

text \<open>Ed25519: keys have 32 bytes, signatures 64; a signature verifies under its key.\<close>

definition ed25519_law :: "crates \<Rightarrow> bool" where
  "ed25519_law C \<longleftrightarrow> (\<forall>sk m. length (verifying_key C sk) = 32 \<and> vk_valid C (verifying_key C sk) \<and>
     length (ed_sign C sk m) = 64 \<and> ed_verify C (verifying_key C sk) m (ed_sign C sk m))"

text \<open>The AEAD: opening inverts sealing under the same key and nonce.\<close>

definition aead_law :: "crates \<Rightarrow> bool" where
  "aead_law C \<longleftrightarrow> (\<forall>k n m c. seal C k n m = Some c \<longrightarrow> unseal C k n c = Some m)"

section \<open>Key pairs\<close>

record key_pair =
  signing :: bytes
  verifying :: bytes

definition from_signing :: "crates \<Rightarrow> bytes \<Rightarrow> key_pair" where
  "from_signing C sk = \<lparr>signing = sk, verifying = verifying_key C sk\<rparr>"

text \<open>\<open>rnd\<close> is the seed that \<open>OsRng\<close> delivers.\<close>

definition generate :: "crates \<Rightarrow> bytes \<Rightarrow> key_pair" where
  "generate C rnd = from_signing C rnd"

definition public_hex :: "crates \<Rightarrow> key_pair \<Rightarrow> string" where
  "public_hex C kp = hex_encode C (verifying kp)"

definition sign :: "crates \<Rightarrow> key_pair \<Rightarrow> bytes \<Rightarrow> string" where
  "sign C kp m = hex_encode C (ed_sign C (signing kp) m)"

text \<open>
  A public key of the wrong length is replaced by the 32 zero bytes of \<open>unwrap_or\<close>.
\<close>

definition verify :: "crates \<Rightarrow> string \<Rightarrow> bytes \<Rightarrow> string \<Rightarrow> bool" where
  "verify C pub_hex msg sig_hex =
     (case hex_decode C pub_hex of
        None \<Rightarrow> False
      | Some pk0 \<Rightarrow>
          (let pk = (if length pk0 = 32 then pk0 else replicate 32 0) in
           if \<not> vk_valid C pk then False
           else (case hex_decode C sig_hex of
                   None \<Rightarrow> False
                 | Some sg \<Rightarrow> if length sg \<noteq> 64 then False else ed_verify C pk msg sg)))"

definition to_pkcs8_der :: "key_pair \<Rightarrow> bytes" where
  "to_pkcs8_der kp = signing kp"

definition from_pkcs8_der :: "crates \<Rightarrow> bytes \<Rightarrow> nsmt_error + key_pair" where
  "from_pkcs8_der C der =
     (if length der \<noteq> 32 then Inl (Protocol ''invalid key length'') else Inr (from_signing C der))"

section \<open>Key files\<close>

definition keys_dir :: "env \<Rightarrow> path" where
  "keys_dir env =
     (case env ''NSMT_HOME'' of
        Some h \<Rightarrow> h
      | None \<Rightarrow> (case env ''HOME'' of Some h \<Rightarrow> join h ''.nsmt'' | None \<Rightarrow> ''.nsmt''))"

definition io_err :: "io_error + 'a \<Rightarrow> nsmt_error + 'a" where
  "io_err r = (case r of Inl e \<Rightarrow> Inl (Io e) | Inr a \<Rightarrow> Inr a)"

definition load_or_create ::
  "crates \<Rightarrow> env \<Rightarrow> bytes \<Rightarrow> string \<Rightarrow> string \<Rightarrow> fs \<Rightarrow> (nsmt_error + key_pair) \<times> fs" where
  "load_or_create C env rnd key_name pub_name F =
     (let dir = keys_dir env in
      case fs_create_dir_all dir F of
        Inl e \<Rightarrow> (Inl (Io e), F)
      | Inr F1 \<Rightarrow>
         (let key_path = join dir key_name; pub_path = join dir pub_name in
          if fs_exists F1 key_path then
            (and_then (io_err (fs_read F1 key_path)) (\<lambda>der.
             and_then (from_pkcs8_der C der) (\<lambda>kp.
               case fs_read_to_string F1 pub_path of
                 Inr pub_hex \<Rightarrow>
                   if trim pub_hex \<noteq> public_hex C kp
                   then Inl (Protocol (''key mismatch: '' @ key_name @ '' vs '' @ pub_name))
                   else Inr kp
               | Inl _ \<Rightarrow> Inr kp)), F1)
          else
            (let kp = generate C rnd in
             case fs_write key_path (to_pkcs8_der kp) F1 of
               Inl e \<Rightarrow> (Inl (Io e), F1)
             | Inr F2 \<Rightarrow>
                (case fs_write pub_path (as_bytes (public_hex C kp)) F2 of
                   Inl e \<Rightarrow> (Inl (Io e), F2)
                 | Inr F3 \<Rightarrow> (Inr kp, F3)))))"

definition load_or_create_machine_key :: "crates \<Rightarrow> env \<Rightarrow> bytes \<Rightarrow> fs \<Rightarrow> (nsmt_error + key_pair) \<times> fs" where
  "load_or_create_machine_key C env rnd = load_or_create C env rnd ''machine.key'' ''machine.pub''"

definition load_or_create_domain_key :: "crates \<Rightarrow> env \<Rightarrow> bytes \<Rightarrow> fs \<Rightarrow> (nsmt_error + key_pair) \<times> fs" where
  "load_or_create_domain_key C env rnd = load_or_create C env rnd ''domain.key'' ''domain.pub''"

definition read_public_key :: "path \<Rightarrow> fs \<Rightarrow> nsmt_error + string" where
  "read_public_key p F = and_then (io_err (fs_read_to_string F p)) (\<lambda>s. Inr (trim s))"

section \<open>End-to-end keys\<close>

record e2e_keys =
  newest :: bytes
  all_keys :: "bytes list"

definition cipher_from_bytes :: "bytes \<Rightarrow> bytes option" where
  "cipher_from_bytes bs = (if length bs \<noteq> 32 then None else Some bs)"

definition derive_tenant_key :: "crates \<Rightarrow> bytes \<Rightarrow> string \<Rightarrow> bytes" where
  "derive_tenant_key C master domain =
     sha256 C (as_bytes ''nsmt:e2e:v1:'' @ as_bytes domain @ master)"

definition masters_from_env :: "crates \<Rightarrow> env \<Rightarrow> bytes list option" where
  "masters_from_env C env =
     (case (case env ''NSMT_E2E_KEYS'' of Some v \<Rightarrow> Some v | None \<Rightarrow> env ''NSMT_E2E_KEY'') of
        None \<Rightarrow> None
      | Some raw \<Rightarrow>
         (let ks = filter (\<lambda>b. length b = 32)
            (List.map_filter (hex_decode C)
              (filter (\<lambda>s. s \<noteq> []) (map trim (split_char CHR '','' raw))))
          in if ks = [] then None else Some ks))"

fun collect_some :: "'a option list \<Rightarrow> 'a list option" where
  "collect_some [] = Some []"
| "collect_some (None # xs) = None"
| "collect_some (Some x # xs) = map_option ((#) x) (collect_some xs)"

text \<open>The closure of \<open>from_env\<close>: with a domain, the key is derived from the master key.\<close>

definition cipher_for :: "crates \<Rightarrow> string option \<Rightarrow> bytes \<Rightarrow> bytes option" where
  "cipher_for C domain m = cipher_from_bytes
     (case domain of
        Some d \<Rightarrow> if d \<noteq> [] then derive_tenant_key C m d else m
      | None \<Rightarrow> m)"

definition e2e_from_env :: "crates \<Rightarrow> env \<Rightarrow> string option \<Rightarrow> e2e_keys option" where
  "e2e_from_env C env domain =
     (case masters_from_env C env of
        None \<Rightarrow> None
      | Some masters \<Rightarrow>
         (case collect_some (map (cipher_for C domain) masters) of
            None \<Rightarrow> None
          | Some ks \<Rightarrow> Some \<lparr>newest = ks ! 0, all_keys = ks\<rparr>))"

definition nonce_for :: "u64 \<Rightarrow> bytes" where
  "nonce_for idx = u32_to_be_bytes 0x4E534D54 @ u64_to_be_bytes idx"

definition encrypt :: "crates \<Rightarrow> e2e_keys \<Rightarrow> bytes \<Rightarrow> u64 \<Rightarrow> nsmt_error + bytes" where
  "encrypt C ks m idx = ok_or (Protocol ''encrypt failed'') (seal C (newest ks) (nonce_for idx) m)"

fun try_keys :: "crates \<Rightarrow> bytes list \<Rightarrow> bytes \<Rightarrow> u64 \<Rightarrow> bytes option" where
  "try_keys C [] c idx = None"
| "try_keys C (k # ks) c idx =
     (case unseal C k (nonce_for idx) c of Some m \<Rightarrow> Some m | None \<Rightarrow> try_keys C ks c idx)"

definition decrypt :: "crates \<Rightarrow> e2e_keys \<Rightarrow> bytes \<Rightarrow> u64 \<Rightarrow> nsmt_error + bytes" where
  "decrypt C ks c idx =
     ok_or (Protocol ''decrypt failed (no key matched)'') (try_keys C (all_keys ks) c idx)"

definition e2e_key_from_env :: "crates \<Rightarrow> env \<Rightarrow> bytes option" where
  "e2e_key_from_env C env =
     (case env ''NSMT_E2E_KEY'' of
        None \<Rightarrow> None
      | Some hexkey \<Rightarrow> (case hex_decode C hexkey of None \<Rightarrow> None | Some b \<Rightarrow> cipher_from_bytes b))"

definition encrypt_payload :: "crates \<Rightarrow> bytes option \<Rightarrow> bytes \<Rightarrow> u64 \<Rightarrow> nsmt_error + bytes" where
  "encrypt_payload C cipher m idx =
     (case cipher of
        None \<Rightarrow> Inr m
      | Some k \<Rightarrow> ok_or (Protocol ''encrypt failed'') (seal C k (nonce_for idx) m))"

definition decrypt_payload :: "crates \<Rightarrow> bytes option \<Rightarrow> bytes \<Rightarrow> u64 \<Rightarrow> nsmt_error + bytes" where
  "decrypt_payload C cipher c idx =
     (case cipher of
        None \<Rightarrow> Inr c
      | Some k \<Rightarrow> ok_or (Protocol ''decrypt failed'') (unseal C k (nonce_for idx) c))"

section \<open>Signatures\<close>

lemma sign_verify_any:
  assumes "hex_law C" and "ed25519_law C"
  shows "verify C (public_hex C (from_signing C sk)) m (sign C (from_signing C sk) m)"
  using assms by (simp add: verify_def public_hex_def sign_def from_signing_def hex_law_def
      ed25519_law_def)

section \<open>Nonces and keys\<close>

lemma nonce_for_inject [simp]: "nonce_for i = nonce_for j \<longleftrightarrow> i = j"
  using to_le_inject [of 8 i j] by (simp add: nonce_for_def)

lemma length_nonce_for [simp]: "length (nonce_for i) = 12"
  by (simp add: nonce_for_def)

lemma collect_some_map:
  "collect_some (map f xs) = Some ys \<longleftrightarrow> (list_all2 (\<lambda>x y. f x = Some y) xs ys)"
proof (induction xs arbitrary: ys)
  case (Cons x xs)
  then show ?case by (cases "f x") (auto simp: list_all2_Cons1)
qed auto

lemma masters_from_env_keys:
  "masters_from_env C env = Some ks \<Longrightarrow> ks \<noteq> [] \<and> (\<forall>k \<in> set ks. length k = 32)"
  by (auto simp: masters_from_env_def Let_def split: option.splits if_splits)

lemma e2e_from_env_keys:
  assumes "e2e_from_env C env d = Some ks"
  shows "all_keys ks \<noteq> [] \<and> newest ks = hd (all_keys ks) \<and> (\<forall>k \<in> set (all_keys ks). length k = 32)"
proof -
  from assms obtain ms where ms: "masters_from_env C env = Some ms"
    and c: "list_all2 (\<lambda>m k. cipher_for C d m = Some k) ms (all_keys ks)"
    and n: "newest ks = all_keys ks ! 0"
    by (auto simp: e2e_from_env_def collect_some_map split: option.split_asm)
  have "length (all_keys ks) = length ms" using c list_all2_lengthD by metis
  then have "all_keys ks \<noteq> []" using masters_from_env_keys [OF ms] by auto
  moreover have "\<forall>k \<in> set (all_keys ks). length k = 32"
    using c by (induction rule: list_all2_induct) (auto simp: cipher_for_def cipher_from_bytes_def split: if_split_asm)
  ultimately show ?thesis using n by (simp add: hd_conv_nth)
qed

lemma try_keys_finds:
  assumes "unseal C k (nonce_for idx) c = Some m" and "k \<in> set ks"
    and "\<forall>j \<in> set ks. j \<noteq> k \<longrightarrow> unseal C j (nonce_for idx) c = None"
  shows "try_keys C ks c idx = Some m"
  using assms(2,3)
proof (induction ks)
  case (Cons j ks)
  show ?case
  proof (cases "j = k")
    case False
    then show ?thesis using Cons by simp
  qed (simp add: assms(1))
qed simp

lemma from_env_decrypt_encrypt:
  assumes "aead_law C" and "e2e_from_env C env d = Some ks" and "encrypt C ks m idx = Inr c"
  shows "decrypt C ks c idx = Inr m"
proof -
  obtain ks' where "all_keys ks = newest ks # ks'"
    using e2e_from_env_keys [OF assms(2)] by (cases "all_keys ks") auto
  moreover have "unseal C (newest ks) (nonce_for idx) c = Some m"
    using assms(1,3) by (auto simp: aead_law_def encrypt_def)
  ultimately show ?thesis by (simp add: decrypt_def)
qed

section \<open>Key files\<close>

lemma from_utf8_ascii:
  assumes "\<forall>c \<in> set s. (of_char c :: byte) \<le> 0x7F"
  shows "from_utf8 (as_bytes s) = Some s"
proof -
  have "valid_utf8 (as_bytes s)" using assms by (induction s) (auto simp: as_bytes_def)
  then show ?thesis by (simp add: from_utf8_def as_bytes_def o_def map_idI)
qed

lemma hexdigit_code: "is_ascii_hexdigit c \<longleftrightarrow>
    (of_char c :: nat) \<in> {48..57} \<union> {97..102} \<union> {65..70}"
  by (auto simp: is_ascii_hexdigit_def is_ascii_digit_def less_eq_char_def)

lemma hexdigit_ascii: "is_ascii_hexdigit c \<Longrightarrow> (of_char c :: byte) \<le> 0x7F"
proof -
  assume "is_ascii_hexdigit c"
  then have "(of_char c :: nat) < 128" by (auto simp: hexdigit_code)
  then show ?thesis by (simp add: word_le_nat_alt unat_of_char)
qed

lemma strip_any_none: "\<forall>w \<in> set ws. \<not> prefix w s \<Longrightarrow> strip_any ws s = 0"
  by (induction ws) auto

lemma trim_with_none: "\<forall>w \<in> set ws. \<not> prefix w s \<Longrightarrow> trim_with ws s = s"
  by (subst trim_with.simps) (simp add: strip_any_none)

lemma ws_not_hex:
  "\<forall>w \<in> set ws_encodings. w \<noteq> [] \<and> \<not> is_ascii_hexdigit (hd w) \<and> \<not> is_ascii_hexdigit (last w)"
  by (simp add: ws_encodings_def hexdigit_code)

lemma trim_hex: "\<forall>c \<in> set s. is_ascii_hexdigit c \<Longrightarrow> trim s = s"
proof -
  assume s: "\<forall>c \<in> set s. is_ascii_hexdigit c"
  have "\<not> prefix w t" if "w \<noteq> []" "\<not> is_ascii_hexdigit (hd w)" "\<forall>c \<in> set t. is_ascii_hexdigit c" for w t
    using that by (cases w; cases t) auto
  then have "trim_start s = s" "trim_end s = s"
    using s ws_not_hex unfolding trim_start_def trim_end_def
    by (subst trim_with_none; auto simp: hd_rev)+
  then show ?thesis by (simp add: trim_def)
qed

lemma simple_names:
  "simple_name ''machine.key''" "simple_name ''machine.pub''"
  "simple_name ''domain.key''" "simple_name ''domain.pub''"
  by (simp_all add: simple_name_def)

lemma load_or_create_created:
  assumes "load_or_create C env rnd kn pn F = (Inr kp, F')" and "keys_dir env \<noteq> []"
    and "simple_name kn" and "simple_name pn"
    and "\<forall>F1. fs_create_dir_all (keys_dir env) F = Inr F1 \<longrightarrow> \<not> fs_exists F1 (join (keys_dir env) kn)"
  shows "\<exists>ds. resolve F' (keys_dir env) = Inr ds \<and> node_at F' ds = Some Dir \<and> kp = generate C rnd \<and>
    (kn \<noteq> pn \<longrightarrow> node_at F' (ds @ [kn]) = Some (File rnd)) \<and>
    node_at F' (ds @ [pn]) = Some (File (as_bytes (public_hex C kp)))"
proof -
  let ?d = "keys_dir env" and ?kp = "generate C rnd"
  obtain F1 where F1: "fs_create_dir_all ?d F = Inr F1"
    using assms(1) by (cases "fs_create_dir_all ?d F") (simp_all add: load_or_create_def Let_def)
  then have "(case fs_write (join ?d kn) (to_pkcs8_der ?kp) F1 of Inl e \<Rightarrow> (Inl (Io e), F1)
      | Inr F2 \<Rightarrow> (case fs_write (join ?d pn) (as_bytes (public_hex C ?kp)) F2 of
          Inl e \<Rightarrow> (Inl (Io e), F2) | Inr F3 \<Rightarrow> (Inr ?kp, F3))) = (Inr kp, F')"
    using assms(1,5) by (simp add: load_or_create_def Let_def)
  then obtain F2 where F2: "fs_write (join ?d kn) (to_pkcs8_der ?kp) F1 = Inr F2"
    and F3: "fs_write (join ?d pn) (as_bytes (public_hex C ?kp)) F2 = Inr F'" and kp: "kp = ?kp"
    by (simp split: sum.split_asm)
  from create_dir_all_resolves [OF F1 assms(2)] obtain ds where ds: "resolve F1 ?d = Inr ds"
      "node_at F1 ds = Some Dir" by blast
  from fs_write_InrD [OF F2] resolve_join [OF ds assms(3)]
  have F2': "node_at F1 (ds @ [kn]) \<noteq> Some Dir" "F2 = set_node (ds @ [kn]) (File (to_pkcs8_der ?kp)) F1"
    by auto
  have k2: "dirs_kept F1 F2" using dirs_kept_set_File [OF F2'(1)] F2'(2) by simp
  have ds2: "resolve F2 ?d = Inr ds" "node_at F2 ds = Some Dir"
    using resolve_kept [OF ds(1) k2] ds(2) k2 by (auto simp: dirs_kept_def)
  from fs_write_InrD [OF F3] resolve_join [OF ds2 assms(4)]
  have F3': "node_at F2 (ds @ [pn]) \<noteq> Some Dir"
      "F' = set_node (ds @ [pn]) (File (as_bytes (public_hex C ?kp))) F2"
    by auto
  have k3: "dirs_kept F2 F'" using dirs_kept_set_File [OF F3'(1)] F3'(2) by simp
  have "resolve F' ?d = Inr ds" "node_at F' ds = Some Dir"
    using resolve_kept [OF ds2(1) k3] ds2(2) k3 by (auto simp: dirs_kept_def)
  moreover have "kn \<noteq> pn \<longrightarrow> node_at F' (ds @ [kn]) = Some (File rnd)"
    by (simp add: F3'(2) F2'(2) to_pkcs8_der_def generate_def from_signing_def)
  moreover have "node_at F' (ds @ [pn]) = Some (File (as_bytes (public_hex C kp)))"
    by (simp add: F3'(2) kp)
  ultimately show ?thesis using kp by blast
qed

lemma load_or_create_loads:
  assumes "hex_law C" and "resolve F (keys_dir env) = Inr ds" and "node_at F ds = Some Dir"
    and "simple_name kn" and "simple_name pn" and "length rnd = 32"
    and "node_at F (ds @ [kn]) = Some (File rnd)"
    and "node_at F (ds @ [pn]) = Some (File (as_bytes (public_hex C (generate C rnd))))"
  shows "load_or_create C env rnd' kn pn F = (Inr (generate C rnd), F)"
proof -
  let ?kp = "generate C rnd"
  have hex: "\<forall>c \<in> set (public_hex C ?kp). is_ascii_hexdigit c"
    using assms(1) by (simp add: hex_law_def public_hex_def)
  then have "from_utf8 (as_bytes (public_hex C ?kp)) = Some (public_hex C ?kp)"
    using from_utf8_ascii hexdigit_ascii by blast
  then have "fs_read_to_string F (join (keys_dir env) pn) = Inr (public_hex C ?kp)"
    using read_in_dir [OF assms(2,3,5)] assms(8) by (simp add: fs_read_to_string_def)
  then show ?thesis
    using create_dir_all_idem [OF assms(2,3)] exists_in_dir [OF assms(2-4)] read_in_dir [OF assms(2-4)]
      assms(6,7) trim_hex [OF hex]
    by (simp add: load_or_create_def Let_def io_err_def from_pkcs8_der_def generate_def)
qed

section \<open>Properties\<close>

text \<open>
  Functions that satisfy the laws, for the witnesses: real hexadecimal digits, and signatures and
  seals that carry the key.
\<close>

definition sample_hex :: "bytes \<Rightarrow> string" where
  "sample_hex bs = concat (map (\<lambda>b. [hex_digit (unat b div 16), hex_digit (unat b mod 16)]) bs)"

definition hex_val :: "char \<Rightarrow> nat" where
  "hex_val c = (let n = of_char c in if n < 58 then n - 48 else n - 87)"

fun sample_unhex :: "string \<Rightarrow> bytes option" where
  "sample_unhex [] = Some []"
| "sample_unhex [a] = None"
| "sample_unhex (a # b # r) =
     (if is_ascii_hexdigit a \<and> is_ascii_hexdigit b
      then map_option ((#) (of_nat (16 * hex_val a + hex_val b))) (sample_unhex r) else None)"

definition pad32 :: "bytes \<Rightarrow> bytes" where
  "pad32 b = take 32 (b @ replicate 32 0)"

definition sample_crates :: crates where
  "sample_crates = \<lparr>sha256 = pad32, hex_encode = sample_hex, hex_decode = sample_unhex,
     verifying_key = pad32, vk_valid = (\<lambda>b. True), ed_sign = (\<lambda>sk m. pad32 sk @ pad32 m),
     ed_verify = (\<lambda>pk m s. s = pk @ pad32 m), seal = (\<lambda>k n m. Some (k @ n @ m)),
     unseal = (\<lambda>k n c. if prefix (k @ n) c then Some (drop (length (k @ n)) c) else None)\<rparr>"

lemma length_pad32: "length (pad32 b) = 32"
  by (simp add: pad32_def min_def)

lemma hex_digit_val:
  assumes "n < 16"
  shows "hex_val (hex_digit n) = n" and "is_ascii_hexdigit (hex_digit n)"
proof -
  from assms have "n \<in> {0, 1, 2, 3, 4, 5, 6, 7, 8, 9, 10, 11, 12, 13, 14, 15}" by (simp add: insert_iff) arith
  then show "hex_val (hex_digit n) = n" "is_ascii_hexdigit (hex_digit n)"
    by (auto simp: hex_val_def hex_digit_def Let_def hexdigit_code)
qed

lemma nibbles: "unat (b :: byte) div 16 < 16" "of_nat (16 * (unat b div 16) + unat b mod 16) = b"
  using unat_less [of b] by (simp_all add: less_mult_imp_div_less)

lemma sample_crates_laws: "hex_law sample_crates" "ed25519_law sample_crates" "aead_law sample_crates"
proof -
  have "sample_unhex (sample_hex bs) = Some bs" for bs
    by (induction bs) (simp_all add: sample_hex_def hex_digit_val nibbles
        del: of_nat_add of_nat_mult mult_div_mod_eq)
  moreover have "\<forall>c \<in> set (sample_hex bs). is_ascii_hexdigit c" for bs
    by (auto simp: sample_hex_def hex_digit_val nibbles)
  ultimately show "hex_law sample_crates" by (simp add: hex_law_def sample_crates_def)
qed (auto simp: ed25519_law_def aead_law_def sample_crates_def length_pad32)

text \<open>
  A signature made with a key pair verifies under the pair's published hex key, so an
  honest client passes the checks of AUTH and REGISTER.
\<close>

theorem sign_verify:
  assumes "hex_law C" and "ed25519_law C"
  shows "verify C (public_hex C (generate C rnd)) m (sign C (generate C rnd) m)"
  unfolding generate_def by (rule sign_verify_any [OF assms])

theorem sign_verify_witness:
  "verify sample_crates (public_hex sample_crates (generate sample_crates [7])) [1, 2]
     (sign sample_crates (generate sample_crates [7]) [1, 2])"
  by (rule sign_verify [OF sample_crates_laws(1,2)])

text \<open>
  Identity keys are stable.  Once \<open>load_or_create\<close> has created a key, every later call, on
  whatever randomness, returns the same pair and leaves the files alone.
\<close>

theorem load_or_create_stable:
  assumes "hex_law C" and "length rnd = 32" and "keys_dir env \<noteq> []"
    and "load_or_create_machine_key C env rnd F = (Inr kp, F')"
    and "\<forall>F1. fs_create_dir_all (keys_dir env) F = Inr F1 \<longrightarrow>
      \<not> fs_exists F1 (join (keys_dir env) ''machine.key'')"
  shows "kp = generate C rnd \<and> load_or_create_machine_key C env rnd' F' = (Inr kp, F')"
proof -
  from load_or_create_created [OF assms(4) [unfolded load_or_create_machine_key_def] assms(3)
      simple_names(1,2) assms(5)]
  obtain ds where ds: "resolve F' (keys_dir env) = Inr ds" "node_at F' ds = Some Dir"
      "kp = generate C rnd" "node_at F' (ds @ [''machine.key'']) = Some (File rnd)"
      "node_at F' (ds @ [''machine.pub'']) = Some (File (as_bytes (public_hex C kp)))"
    by auto
  then show ?thesis
    using load_or_create_loads [OF assms(1) ds(1,2) simple_names(1,2) assms(2) ds(4)]
    by (simp add: load_or_create_machine_key_def)
qed

theorem load_or_create_stable_witness:
  "\<exists>F'. load_or_create_machine_key sample_crates [''NSMT_HOME'' \<mapsto> ''/k''] (replicate 32 9)
      \<lparr>cwd = [], nodes = []\<rparr> = (Inr (generate sample_crates (replicate 32 9)), F') \<and>
    load_or_create_machine_key sample_crates [''NSMT_HOME'' \<mapsto> ''/k''] (replicate 32 5) F'
      = (Inr (generate sample_crates (replicate 32 9)), F')"
proof -
  let ?env = "[''NSMT_HOME'' \<mapsto> ''/k'']" and ?F = "\<lparr>cwd = [], nodes = []\<rparr>"
  let ?rnd = "replicate 32 9" and ?C = sample_crates
  let ?F' = "\<lparr>cwd = [], nodes = [([''k''], Dir), ([''k'', ''machine.key''], File ?rnd),
    ([''k'', ''machine.pub''], File (as_bytes (public_hex ?C (generate ?C ?rnd))))]\<rparr>"
  have mk: "fs_create_dir_all ''/k'' ?F = Inr \<lparr>cwd = [], nodes = [([''k''], Dir)]\<rparr>"
    by (simp add: fs_create_dir_all_def start_of_def set_node_def node_at_def hm_get_def hm_insert_def)
  have d: "keys_dir ?env = ''/k''" by (simp add: keys_dir_def)
  have no: "\<forall>F1. fs_create_dir_all (keys_dir ?env) ?F = Inr F1 \<longrightarrow>
      \<not> fs_exists F1 (join (keys_dir ?env) ''machine.key'')"
    by (simp add: d mk fs_exists_def resolve_def join_def start_of_def node_at_def hm_get_def)
  have run: "load_or_create_machine_key ?C ?env ?rnd ?F = (Inr (generate ?C ?rnd), ?F')"
    by (simp add: load_or_create_machine_key_def load_or_create_def Let_def suffix_to_prefix d mk fs_exists_def fs_write_def
        resolve_def join_def start_of_def node_at_def hm_get_def hm_insert_def parent_dir_def
        set_node_def to_pkcs8_der_def generate_def from_signing_def)
  from load_or_create_stable [OF sample_crates_laws(1) _ _ run no, of "replicate 32 5"] run
  show ?thesis by (auto simp: d)
qed

text \<open>
  Key rotation loses no data.  What was sealed under any key that is still in the list is
  opened, wherever this key stands in the list, provided the other keys reject the ciphertext
  (the authenticity of the AEAD).
\<close>

theorem rotation_decrypts:
  assumes "aead_law C" and "encrypt C old m idx = Inr c" and "newest old \<in> set (all_keys ks)"
    and "\<forall>j \<in> set (all_keys ks). j \<noteq> newest old \<longrightarrow> unseal C j (nonce_for idx) c = None"
  shows "decrypt C ks c idx = Inr m"
proof -
  have "unseal C (newest old) (nonce_for idx) c = Some m"
    using assms(1,2) by (auto simp: aead_law_def encrypt_def)
  from try_keys_finds [OF this assms(3,4)] show ?thesis by (simp add: decrypt_def)
qed

theorem rotation_decrypts_witness:
  "decrypt sample_crates \<lparr>newest = [2], all_keys = [[2], [1]]\<rparr> ([1] @ nonce_for 3 @ [8, 9]) 3
     = Inr [8, 9]"
  by (rule rotation_decrypts [OF sample_crates_laws(3), of "\<lparr>newest = [1], all_keys = [[1]]\<rparr>"])
    (simp_all add: encrypt_def sample_crates_def)

text \<open>
  C37: both ends of a connection that read the same environment derive the same tenant keys, and
  one end opens what the other has sealed; the keys all have 32 bytes.
\<close>

theorem e2e_env_roundtrip:
  assumes "aead_law C" and "e2e_from_env C env (Some d) = Some ks" and "encrypt C ks m idx = Inr c"
  shows "decrypt C ks c idx = Inr m \<and> (\<forall>k \<in> set (all_keys ks). length k = 32)"
  using from_env_decrypt_encrypt [OF assms] e2e_from_env_keys [OF assms(2)] by blast

theorem e2e_env_roundtrip_witness:
  "\<exists>ks c. e2e_from_env sample_crates [''NSMT_E2E_KEY'' \<mapsto> sample_hex (replicate 32 1)] (Some ''ann'')
       = Some ks \<and> encrypt sample_crates ks [5] 7 = Inr c \<and> decrypt sample_crates ks c 7 = Inr [5]"
proof -
  let ?k = "replicate 32 (1 :: byte)" and ?C = sample_crates
  let ?ks = "\<lparr>newest = derive_tenant_key ?C ?k ''ann'', all_keys = [derive_tenant_key ?C ?k ''ann'']\<rparr>"
  have hex: "\<forall>c \<in> set (sample_hex ?k). is_ascii_hexdigit c" and un: "sample_unhex (sample_hex ?k) = Some ?k"
    using sample_crates_laws(1) unfolding hex_law_def by (simp_all add: sample_crates_def)
  have "sample_hex ?k \<noteq> []" by (simp add: sample_hex_def)
  moreover have "CHR '','' \<notin> set (sample_hex ?k)" using hex by (auto simp: hexdigit_code)
  ultimately have "masters_from_env ?C [''NSMT_E2E_KEY'' \<mapsto> sample_hex ?k] = Some [?k]"
    using un by (simp add: masters_from_env_def split_char_none trim_hex [OF hex] sample_crates_def
        map_filter_simps)
  then have ks: "e2e_from_env ?C [''NSMT_E2E_KEY'' \<mapsto> sample_hex ?k] (Some ''ann'') = Some ?ks"
    by (simp add: e2e_from_env_def cipher_for_def cipher_from_bytes_def derive_tenant_key_def
        sample_crates_def pad32_def)
  obtain c where c: "encrypt ?C ?ks [5] 7 = Inr c" by (simp add: encrypt_def sample_crates_def)
  from e2e_env_roundtrip [OF sample_crates_laws(3) ks c] ks c show ?thesis by blast
qed

end
