(* ===== verification/Locks.thy ===== *)
theory Locks
  imports Prelude
begin

text \<open>
  The lease locks of \<open>nsmt-server/src/fs.rs\<close> (\<open>LockEntry\<close>, \<open>LockRegistry\<close>).  Every operation
  runs under the write lock of its \<open>RwLock\<close> and is one atomic step; the clock reading
  \<open>now_ms()\<close> is an argument.  Expiry times are 64-bit words, so a lease whose end does not fit
  wraps around.

  The locale \<open>lease\<close> is the contract between the registry and the sessions that use it, and
  carries the mutual exclusion of holders over arbitrary interleavings.
\<close>

record lock_entry =
  le_holder :: string
  le_expires_at :: u64

type_synonym locks = "(string, lock_entry) hmap"

definition acquire :: "string \<Rightarrow> string \<Rightarrow> u64 \<Rightarrow> u64 \<Rightarrow> locks \<Rightarrow> (string + u64) \<times> locks" where
  "acquire path requester ttl_ms now g =
     (let granted = (let expires_at = now + ttl_ms in
            (Inr expires_at,
             hm_insert path \<lparr>le_holder = requester, le_expires_at = expires_at\<rparr> g))
      in case hm_get g path of
           Some e \<Rightarrow>
             if le_expires_at e > now \<and> le_holder e \<noteq> requester
             then (Inl (le_holder e), g) else granted
         | None \<Rightarrow> granted)"

definition renew :: "string \<Rightarrow> string \<Rightarrow> u64 \<Rightarrow> u64 \<Rightarrow> locks \<Rightarrow> bool \<times> locks" where
  "renew path requester ttl_ms now g =
     (case hm_get g path of
        Some e \<Rightarrow>
          if le_holder e = requester
          then (True, hm_insert path (e\<lparr>le_expires_at := now + ttl_ms\<rparr>) g)
          else (False, g)
      | None \<Rightarrow> (False, g))"

definition release :: "string \<Rightarrow> string \<Rightarrow> locks \<Rightarrow> bool \<times> locks" where
  "release path requester g =
     (case hm_get g path of
        Some e \<Rightarrow> if le_holder e = requester then (True, hm_remove path g) else (False, g)
      | None \<Rightarrow> (False, g))"

definition lock_holder :: "string \<Rightarrow> locks \<Rightarrow> string option" where
  "lock_holder path g = map_option le_holder (hm_get g path)"

definition lock_snapshot :: "locks \<Rightarrow> (string, string) hmap" where
  "lock_snapshot g = map (\<lambda>(p, e). (p, le_holder e)) g"

text \<open>One round of \<open>cleanup_loop\<close>.\<close>

definition cleanup :: "u64 \<Rightarrow> locks \<Rightarrow> locks" where
  "cleanup now g = hm_retain (\<lambda>_ e. le_expires_at e > now) g"

section \<open>Interleavings\<close>

text \<open>
  The operations of all sessions and of the cleanup task, in the order in which they take the
  lock, each with its clock reading.
\<close>

datatype ('p, 'r) lock_op =
    Acquire 'p 'r u64
  | Renew 'p 'r u64
  | Release 'p 'r
  | Cleanup

datatype 'r outcome = Granted u64 | Denied 'r | Done bool

definition lock_exec ::
  "('p \<Rightarrow> 'r \<Rightarrow> u64 \<Rightarrow> u64 \<Rightarrow> 's \<Rightarrow> ('r + u64) \<times> 's) \<Rightarrow> ('p \<Rightarrow> 'r \<Rightarrow> u64 \<Rightarrow> u64 \<Rightarrow> 's \<Rightarrow> bool \<times> 's) \<Rightarrow>
   ('p \<Rightarrow> 'r \<Rightarrow> 's \<Rightarrow> bool \<times> 's) \<Rightarrow> (u64 \<Rightarrow> 's \<Rightarrow> 's) \<Rightarrow> u64 \<Rightarrow> ('p, 'r) lock_op \<Rightarrow> 's \<Rightarrow> 'r outcome \<times> 's" where
  "lock_exec acq ren rel swp now op s =
     (case op of
        Acquire p r ttl \<Rightarrow> (case acq p r ttl now s of
            (Inl h, s') \<Rightarrow> (Denied h, s') | (Inr e, s') \<Rightarrow> (Granted e, s'))
      | Renew p r ttl \<Rightarrow> (case ren p r ttl now s of (b, s') \<Rightarrow> (Done b, s'))
      | Release p r \<Rightarrow> (case rel p r s of (b, s') \<Rightarrow> (Done b, s'))
      | Cleanup \<Rightarrow> (Done True, swp now s))"

fun run_with :: "(u64 \<Rightarrow> 'o \<Rightarrow> 's \<Rightarrow> 'r \<times> 's) \<Rightarrow> (u64 \<times> 'o) list \<Rightarrow> 's \<Rightarrow> 'r list \<times> 's" where
  "run_with ex [] s = ([], s)"
| "run_with ex ((now, op) # ops) s =
     (case ex now op s of (r, s') \<Rightarrow> case run_with ex ops s' of (rs, s'') \<Rightarrow> (r # rs, s''))"

definition run_locks ::
  "(u64 \<times> (string, string) lock_op) list \<Rightarrow> locks \<Rightarrow> string outcome list \<times> locks" where
  "run_locks = run_with (lock_exec acquire renew release cleanup)"

text \<open>The requests that \<open>r\<close> makes on the path \<open>p\<close>.\<close>

fun op_of :: "'p \<Rightarrow> 'r \<Rightarrow> ('p, 'r) lock_op \<Rightarrow> bool" where
  "op_of p r (Acquire p' r' ttl) = (p' = p \<and> r' = r)"
| "op_of p r (Renew p' r' ttl) = (p' = p \<and> r' = r)"
| "op_of p r (Release p' r') = (p' = p \<and> r' = r)"
| "op_of p r Cleanup = False"

fun is_acquire :: "'p \<Rightarrow> ('p, 'r) lock_op \<Rightarrow> bool" where
  "is_acquire p (Acquire p' r' ttl) = (p' = p)"
| "is_acquire p op = False"

section \<open>The lease contract\<close>

locale lease =
  fixes acq :: "'p \<Rightarrow> 'r \<Rightarrow> u64 \<Rightarrow> u64 \<Rightarrow> 's \<Rightarrow> ('r + u64) \<times> 's"
    and ren :: "'p \<Rightarrow> 'r \<Rightarrow> u64 \<Rightarrow> u64 \<Rightarrow> 's \<Rightarrow> bool \<times> 's"
    and rel :: "'p \<Rightarrow> 'r \<Rightarrow> 's \<Rightarrow> bool \<times> 's"
    and swp :: "u64 \<Rightarrow> 's \<Rightarrow> 's"
    and entry :: "'s \<Rightarrow> 'p \<Rightarrow> ('r \<times> u64) option"
    and linvar :: "'s \<Rightarrow> bool"
  assumes acq_denied: "entry s p = Some (h, e) \<Longrightarrow> now < e \<Longrightarrow> h \<noteq> r \<Longrightarrow> acq p r ttl now s = (Inl h, s)"
    and acq_granted: "linvar s \<Longrightarrow> \<forall>h e. entry s p = Some (h, e) \<longrightarrow> e \<le> now \<or> h = r \<Longrightarrow>
      \<exists>s'. acq p r ttl now s = (Inr (now + ttl), s') \<and> linvar s' \<and>
        entry s' = (entry s)(p \<mapsto> (r, now + ttl))"
    and ren_held: "linvar s \<Longrightarrow> entry s p = Some (r, e) \<Longrightarrow>
      \<exists>s'. ren p r ttl now s = (True, s') \<and> linvar s' \<and> entry s' = (entry s)(p \<mapsto> (r, now + ttl))"
    and ren_other: "\<forall>e. entry s p \<noteq> Some (r, e) \<Longrightarrow> ren p r ttl now s = (False, s)"
    and rel_held: "linvar s \<Longrightarrow> entry s p = Some (r, e) \<Longrightarrow>
      \<exists>s'. rel p r s = (True, s') \<and> linvar s' \<and> entry s' = (entry s)(p := None)"
    and rel_other: "\<forall>e. entry s p \<noteq> Some (r, e) \<Longrightarrow> rel p r s = (False, s)"
    and swp_entry: "linvar s \<Longrightarrow> entry (swp now s) p =
      (case entry s p of None \<Rightarrow> None | Some (h, e) \<Rightarrow> if now < e then Some (h, e) else None)"
    and swp_invar: "linvar s \<Longrightarrow> linvar (swp now s)"
begin

abbreviation ex :: "u64 \<Rightarrow> ('p, 'r) lock_op \<Rightarrow> 's \<Rightarrow> 'r outcome \<times> 's" where
  "ex \<equiv> lock_exec acq ren rel swp"

lemma acq_step:
  assumes "linvar s"
  shows "(\<exists>h e. entry s p = Some (h, e) \<and> now < e \<and> h \<noteq> r \<and> acq p r ttl now s = (Inl h, s)) \<or>
    (\<exists>s'. acq p r ttl now s = (Inr (now + ttl), s') \<and> linvar s' \<and>
       entry s' = (entry s)(p \<mapsto> (r, now + ttl)))"
proof (cases "\<exists>h e. entry s p = Some (h, e) \<and> now < e \<and> h \<noteq> r")
  case True
  then show ?thesis using acq_denied by blast
next
  case False
  then have "\<forall>h e. entry s p = Some (h, e) \<longrightarrow> e \<le> now \<or> h = r" by (auto simp: not_less)
  then show ?thesis using acq_granted [OF assms] by blast
qed

lemma ren_step:
  assumes "linvar s"
  shows "ren p r ttl now s = (False, s) \<or>
    (\<exists>e s'. entry s p = Some (r, e) \<and> ren p r ttl now s = (True, s') \<and> linvar s' \<and>
       entry s' = (entry s)(p \<mapsto> (r, now + ttl)))"
proof (cases "\<exists>e. entry s p = Some (r, e)")
  case True
  then show ?thesis using ren_held [OF assms] by blast
qed (use ren_other in blast)

lemma rel_step:
  assumes "linvar s"
  shows "rel p r s = (False, s) \<or>
    (\<exists>e s'. entry s p = Some (r, e) \<and> rel p r s = (True, s') \<and> linvar s' \<and>
       entry s' = (entry s)(p := None))"
proof (cases "\<exists>e. entry s p = Some (r, e)")
  case True
  then show ?thesis using rel_held [OF assms] by blast
qed (use rel_other in blast)

text \<open>The holder of an unexpired lease is touched by no operation but its own.\<close>

lemma step_keeps_lease:
  assumes "linvar s" and "entry s p = Some (r, e)" and "now < e" and "\<not> op_of p r op"
  shows "linvar (snd (ex now op s)) \<and> entry (snd (ex now op s)) p = Some (r, e) \<and>
    (is_acquire p op \<longrightarrow> fst (ex now op s) = Denied r)"
proof (cases op)
  case (Acquire p' r' ttl)
  show ?thesis
  proof (cases "p' = p")
    case True
    then have "acq p r' ttl now s = (Inl r, s)" using assms Acquire acq_denied by auto
    then show ?thesis using assms Acquire True by (simp add: lock_exec_def)
  next
    case False
    then show ?thesis using acq_step [OF assms(1), of p' now r' ttl] assms(1,2) Acquire
      by (auto simp: lock_exec_def)
  qed
next
  case (Renew p' r' ttl)
  then show ?thesis using ren_step [OF assms(1), of p' r' ttl now] assms
    by (auto simp: lock_exec_def)
next
  case (Release p' r')
  then show ?thesis using rel_step [OF assms(1), of p' r'] assms
    by (auto simp: lock_exec_def)
next
  case Cleanup
  then show ?thesis using assms by (simp add: lock_exec_def swp_entry swp_invar)
qed

lemma run_keeps_lease:
  assumes "linvar s" and "entry s p = Some (r, e)"
    and "\<forall>(now, op) \<in> set ops. now < e \<and> \<not> op_of p r op" and "run_with ex ops s = (rs, s')"
  shows "entry s' p = Some (r, e) \<and> linvar s' \<and>
    (\<forall>i < length ops. is_acquire p (snd (ops ! i)) \<longrightarrow> rs ! i = Denied r)"
  using assms
proof (induction ops arbitrary: s rs)
  case Nil
  then show ?case by simp
next
  case (Cons a ops)
  obtain now op where a: "a = (now, op)" by (cases a)
  obtain x s1 where x: "ex now op s = (x, s1)" by (cases "ex now op s")
  obtain xs where xs: "run_with ex ops s1 = (xs, s')" and rs: "rs = x # xs"
    using Cons.prems(4) a x by (auto split: prod.splits)
  have "now < e" "\<not> op_of p r op" using Cons.prems(3) a by auto
  note step = step_keeps_lease [OF Cons.prems(1,2) this, unfolded x, simplified]
  have "entry s' p = Some (r, e) \<and> linvar s' \<and>
      (\<forall>i < length ops. is_acquire p (snd (ops ! i)) \<longrightarrow> xs ! i = Denied r)"
    using Cons.IH [of s1 xs] step Cons.prems(3) xs by auto
  then show ?case using step rs a by (auto simp: less_Suc_eq_0_disj nth_Cons')
qed

end

section \<open>The lock registry meets the contract\<close>

definition lock_entry_of :: "locks \<Rightarrow> string \<Rightarrow> (string \<times> u64) option" where
  "lock_entry_of g p = map_option (\<lambda>e. (le_holder e, le_expires_at e)) (hm_get g p)"

interpretation locks: lease acquire renew release cleanup lock_entry_of hm_ok
proof unfold_locales
  fix s :: locks and p h r :: string and e ttl now :: u64
  show "lock_entry_of s p = Some (h, e) \<Longrightarrow> now < e \<Longrightarrow> h \<noteq> r \<Longrightarrow> acquire p r ttl now s = (Inl h, s)"
    by (auto simp: lock_entry_of_def acquire_def)
  show "\<exists>s'. acquire p r ttl now s = (Inr (now + ttl), s') \<and> hm_ok s' \<and>
      lock_entry_of s' = (lock_entry_of s)(p \<mapsto> (r, now + ttl))"
    if "hm_ok s" and "\<forall>h e. lock_entry_of s p = Some (h, e) \<longrightarrow> e \<le> now \<or> h = r"
    using that by (cases "hm_get s p") (auto simp: lock_entry_of_def acquire_def Let_def fun_eq_iff not_less)
  show "\<exists>s'. renew p r ttl now s = (True, s') \<and> hm_ok s' \<and>
      lock_entry_of s' = (lock_entry_of s)(p \<mapsto> (r, now + ttl))"
    if "hm_ok s" and "lock_entry_of s p = Some (r, e)"
    using that by (auto simp: lock_entry_of_def renew_def fun_eq_iff)
  show "\<forall>e. lock_entry_of s p \<noteq> Some (r, e) \<Longrightarrow> renew p r ttl now s = (False, s)"
    by (cases "hm_get s p") (auto simp: lock_entry_of_def renew_def)
  show "\<exists>s'. release p r s = (True, s') \<and> hm_ok s' \<and> lock_entry_of s' = (lock_entry_of s)(p := None)"
    if "hm_ok s" and "lock_entry_of s p = Some (r, e)"
    using that by (auto simp: lock_entry_of_def release_def fun_eq_iff)
  show "\<forall>e. lock_entry_of s p \<noteq> Some (r, e) \<Longrightarrow> release p r s = (False, s)"
    by (cases "hm_get s p") (auto simp: lock_entry_of_def release_def)
  show "hm_ok s \<Longrightarrow> lock_entry_of (cleanup now s) p = (case lock_entry_of s p of
      None \<Rightarrow> None | Some (h, e) \<Rightarrow> if now < e then Some (h, e) else None)"
    by (cases "hm_get s p") (auto simp: lock_entry_of_def cleanup_def)
  show "hm_ok s \<Longrightarrow> hm_ok (cleanup now s)" by (simp add: cleanup_def)
qed

lemma acquire_granted_entry:
  "acquire p r ttl now g = (Inr e, g') \<Longrightarrow> lock_entry_of g' p = Some (r, e) \<and> (hm_ok g \<longrightarrow> hm_ok g')"
  by (auto simp: acquire_def Let_def lock_entry_of_def split: option.split_asm if_split_asm)

section \<open>Properties\<close>

text \<open>
  C13: mutual exclusion.  After a granted \<open>acquire\<close>, whatever operations of other requesters, on
  this or other paths, and whatever cleanup rounds are interleaved before the lease ends, the
  requester stays the holder and every \<open>acquire\<close> of this path by somebody else is denied with
  its name.
\<close>

theorem lease_mutual_exclusion:
  assumes "hm_ok g" and "acquire p r ttl t0 g = (Inr e, g1)"
    and "\<forall>(now, op) \<in> set ops. now < e \<and> \<not> op_of p r op"
    and "run_locks ops g1 = (rs, g2)"
  shows "lock_holder p g2 = Some r \<and>
    (\<forall>i < length ops. is_acquire p (snd (ops ! i)) \<longrightarrow> rs ! i = Denied r)"
proof -
  have "lock_entry_of g1 p = Some (r, e)" "hm_ok g1"
    using acquire_granted_entry [OF assms(2)] assms(1) by auto
  from locks.run_keeps_lease [OF this(2,1) assms(3) assms(4) [unfolded run_locks_def]]
  show ?thesis by (auto simp: lock_entry_of_def lock_holder_def)
qed

theorem lease_mutual_exclusion_witness:
  "let g1 = snd (acquire ''a'' ''maka'' 100 5 []) in
   fst (run_locks [(7, Acquire ''a'' ''hermes'' 9), (8, Release ''a'' ''hermes''), (9, Cleanup)] g1) ! 0
     = Denied ''maka''"
proof -
  let ?ops = "[(7, Acquire ''a'' ''hermes'' 9), (8, Release ''a'' ''hermes''), (9, Cleanup)]
    :: (u64 \<times> (string, string) lock_op) list"
  let ?g1 = "snd (acquire ''a'' ''maka'' 100 5 [])"
  have acq: "acquire ''a'' ''maka'' 100 5 [] = (Inr 105, ?g1)" by (simp add: acquire_def)
  obtain rs g2 where run: "run_locks ?ops ?g1 = (rs, g2)" by (cases "run_locks ?ops ?g1")
  have "rs ! 0 = Denied ''maka''"
    using lease_mutual_exclusion [OF _ acq _ run] by (auto dest!: spec [of _ 0])
  with run show ?thesis by (simp add: Let_def)
qed

text \<open>
  \<open>acquire\<close> decides exactly by the lease contract: it is denied if and only if somebody
  else's lease is still running, it then names the holder and changes nothing; otherwise the
  requester becomes the holder until \<open>now + ttl\<close> and no other path is affected.
\<close>

theorem acquire_decides:
  "(case acquire p r ttl now g of
      (Inl h, g') \<Rightarrow> g' = g \<and> h \<noteq> r \<and> (\<exists>e. lock_entry_of g p = Some (h, e) \<and> now < e)
    | (Inr e, g') \<Rightarrow> e = now + ttl \<and> lock_entry_of g' = (lock_entry_of g)(p \<mapsto> (r, e)) \<and>
        (\<forall>h e'. lock_entry_of g p = Some (h, e') \<longrightarrow> e' \<le> now \<or> h = r))"
  by (cases "hm_get g p") (auto simp: acquire_def Let_def lock_entry_of_def fun_eq_iff not_less)

theorem acquire_decides_witness:
  "fst (acquire ''a'' ''bo'' 10 9 [(''a'', \<lparr>le_holder = ''al'', le_expires_at = 20\<rparr>)]) = Inl ''al''"
proof -
  let ?g = "[(''a'', \<lparr>le_holder = ''al'', le_expires_at = 20\<rparr>)]"
  have e: "lock_entry_of ?g ''a'' = Some (''al'', 20)" by (simp add: lock_entry_of_def hm_get_def)
  show ?thesis
    using acquire_decides [where p = "''a''" and r = "''bo''" and ttl = 10 and now = 9 and g = ?g] e
    by (cases "acquire ''a'' ''bo'' 10 9 ?g"; cases "fst (acquire ''a'' ''bo'' 10 9 ?g)") auto
qed

text \<open>
  The cleanup task is invisible to \<open>acquire\<close>: a round at an earlier clock reading changes
  neither the answer nor the entries of unexpired leases afterwards.
\<close>

theorem cleanup_transparent:
  assumes "hm_ok g" and "c \<le> now"
  shows "fst (acquire p r ttl now (cleanup c g)) = fst (acquire p r ttl now g) \<and>
    (lock_entry_of (cleanup c g) q = Some (h, e) \<longleftrightarrow> lock_entry_of g q = Some (h, e) \<and> c < e)"
proof
  show "fst (acquire p r ttl now (cleanup c g)) = fst (acquire p r ttl now g)"
    using assms by (cases "hm_get g p") (auto simp: acquire_def cleanup_def Let_def)
  show "lock_entry_of (cleanup c g) q = Some (h, e) \<longleftrightarrow> lock_entry_of g q = Some (h, e) \<and> c < e"
    using locks.swp_entry [OF assms(1), of c q] by (auto split: option.split_asm if_split_asm)
qed

theorem cleanup_transparent_witness:
  "fst (acquire ''a'' ''bo'' 10 9 (cleanup 8 [(''a'', \<lparr>le_holder = ''al'', le_expires_at = 7\<rparr>)])) = Inr 19"
  using cleanup_transparent [of "[(''a'', \<lparr>le_holder = ''al'', le_expires_at = 7\<rparr>)]" 8 9 "''a''" "''bo''" 10]
  by (simp add: hm_ok_def acquire_def hm_get_def)

text \<open>
  A lock cannot be stolen or dropped by others: \<open>renew\<close> and \<open>release\<close> by anybody but the
  holder answer \<open>false\<close> and change nothing; by the holder they set the new end of the lease, or
  remove the entry, and affect no other path.
\<close>

theorem renew_release_holder_only:
  "(lock_holder p g \<noteq> Some r \<longrightarrow> renew p r ttl now g = (False, g) \<and> release p r g = (False, g)) \<and>
   (lock_holder p g = Some r \<longrightarrow>
      fst (renew p r ttl now g) \<and>
      lock_entry_of (snd (renew p r ttl now g)) = (lock_entry_of g)(p \<mapsto> (r, now + ttl)) \<and>
      fst (release p r g) \<and> lock_entry_of (snd (release p r g)) = (lock_entry_of g)(p := None))"
  by (cases "hm_get g p")
    (auto simp: renew_def release_def lock_holder_def lock_entry_of_def fun_eq_iff)

theorem renew_release_holder_only_witness:
  "release ''a'' ''bo'' [(''a'', \<lparr>le_holder = ''al'', le_expires_at = 7\<rparr>)] =
     (False, [(''a'', \<lparr>le_holder = ''al'', le_expires_at = 7\<rparr>)])"
  using renew_release_holder_only [of "''a''" "[(''a'', \<lparr>le_holder = ''al'', le_expires_at = 7\<rparr>)]" "''bo''"]
  by (simp add: lock_holder_def hm_get_def)

end
