(* ===== verification/Server_Fs.thy ===== *)
theory Server_Fs
  imports Crypto Messages "HOL-Library.Multiset"
begin

text \<open>
  The server's shared file system, \<open>ServerFs\<close> of \<open>nsmt-server/src/fs.rs\<close>: objects through the
  object store, directory trees as JSON files, the difference of two trees and the tree hash.

  \<open>serde_json\<close> on trees is the record \<open>tree_json\<close>.
\<close>

record tree_json =
  tree_to_vec_pretty :: "file_tree \<Rightarrow> bytes option"
  tree_from_str :: "string \<Rightarrow> file_tree option"

text \<open>What is used of \<open>serde_json\<close>: it writes UTF-8, and reading inverts writing.\<close>

definition tree_json_law :: "tree_json \<Rightarrow> file_tree \<Rightarrow> bool" where
  "tree_json_law J t \<longleftrightarrow> (\<exists>b s. tree_to_vec_pretty J t = Some b \<and> from_utf8 b = Some s \<and>
     tree_from_str J s = Some t)"

record server_fs =
  sf_root :: path
  sf_objects :: store

text \<open>\<open>sanitize\<close>, and its twin \<open>sanitize_domain\<close> of \<open>state.rs\<close>.\<close>

definition sanitize_char :: "char \<Rightarrow> char" where
  "sanitize_char c =
     (if is_ascii_alphanumeric c \<or> c = CHR ''-'' \<or> c = CHR ''_'' then c else CHR ''_'')"

definition sanitize :: "string \<Rightarrow> string" where
  "sanitize s = map_chars sanitize_char s"

definition server_fs_new :: "path \<Rightarrow> string \<Rightarrow> store \<Rightarrow> server_fs" where
  "server_fs_new base ud objects =
     \<lparr>sf_root = join (join base ''server'') (sanitize ud), sf_objects = objects\<rparr>"

definition trees_dir :: "server_fs \<Rightarrow> path" where
  "trees_dir sf = join (sf_root sf) ''trees''"

definition latest_path :: "server_fs \<Rightarrow> path" where
  "latest_path sf = join (trees_dir sf) ''latest.json''"

definition put_object ::
  "'x backend \<Rightarrow> server_fs \<Rightarrow> string \<Rightarrow> bytes \<Rightarrow> 'x storage \<Rightarrow> io_error + 'x storage" where
  "put_object X sf blob_id bs W = put X (sf_objects sf) blob_id bs W"

definition get_object :: "'x backend \<Rightarrow> server_fs \<Rightarrow> string \<Rightarrow> 'x storage \<Rightarrow> bytes option" where
  "get_object X sf blob_id W = get X (sf_objects sf) blob_id W"

definition object_exists :: "'x backend \<Rightarrow> server_fs \<Rightarrow> string \<Rightarrow> 'x storage \<Rightarrow> bool" where
  "object_exists X sf blob_id W = exists X (sf_objects sf) blob_id W"

definition tree_file :: "server_fs \<Rightarrow> string \<Rightarrow> path" where
  "tree_file sf h = join (trees_dir sf) (h @ ''.json'')"

definition save_tree :: "tree_json \<Rightarrow> server_fs \<Rightarrow> file_tree \<Rightarrow> fs \<Rightarrow> (io_error + unit) \<times> fs" where
  "save_tree J sf t F =
     (case fs_create_dir_all (trees_dir sf) F of
        Inl e \<Rightarrow> (Inl e, F)
      | Inr F1 \<Rightarrow>
         (case tree_to_vec_pretty J t of
            None \<Rightarrow> (Inl (OtherIo ''json''), F1)
          | Some json \<Rightarrow>
             (case fs_write (tree_file sf (ft_tree_hash t)) json F1 of
                Inl e \<Rightarrow> (Inl e, F1)
              | Inr F2 \<Rightarrow>
                 (case fs_write (latest_path sf) json F2 of
                    Inl e \<Rightarrow> (Inl e, F2)
                  | Inr F3 \<Rightarrow> (Inr (), F3)))))"

definition read_tree :: "tree_json \<Rightarrow> path \<Rightarrow> fs \<Rightarrow> file_tree option" where
  "read_tree J p F =
     (if \<not> fs_exists F p then None
      else (case fs_read_to_string F p of Inl _ \<Rightarrow> None | Inr s \<Rightarrow> tree_from_str J s))"

definition get_tree :: "tree_json \<Rightarrow> server_fs \<Rightarrow> string \<Rightarrow> fs \<Rightarrow> file_tree option" where
  "get_tree J sf h F = read_tree J (tree_file sf h) F"

definition latest_tree :: "tree_json \<Rightarrow> server_fs \<Rightarrow> fs \<Rightarrow> file_tree option" where
  "latest_tree J sf F = read_tree J (latest_path sf) F"

definition temp_path_for :: "server_fs \<Rightarrow> string \<Rightarrow> path" where
  "temp_path_for sf blob_id = join (join (sf_root sf) ''tmp'') (blob_id @ ''.part'')"

section \<open>Differences\<close>

fun insert_entries :: "file_tree_entry list \<Rightarrow> (string, file_tree_entry) hmap \<Rightarrow> (string, file_tree_entry) hmap" where
  "insert_entries [] m = m"
| "insert_entries (e # es) m = insert_entries es (hm_insert (fte_path e) e m)"

fun diff_loop ::
  "file_tree_entry list \<Rightarrow> (string, file_tree_entry) hmap \<Rightarrow> string list \<Rightarrow> string list \<times> (string, file_tree_entry) hmap" where
  "diff_loop [] m changed = (changed, m)"
| "diff_loop (e # es) m changed =
     diff_loop es (hm_remove (fte_path e) m)
       (case hm_get m (fte_path e) of
          None \<Rightarrow> changed @ [fte_path e]
        | Some f \<Rightarrow>
            if fte_blob_id f \<noteq> fte_blob_id e \<or> fte_mtime_ns f \<noteq> fte_mtime_ns e
            then changed @ [fte_path e] else changed)"

definition diff :: "file_tree option \<Rightarrow> file_tree option \<Rightarrow> string list \<times> string list" where
  "diff old latest =
     (let old_map = (case old of None \<Rightarrow> [] | Some t \<Rightarrow> insert_entries (ft_entries t) []);
          (changed, m) = (case latest of
             None \<Rightarrow> ([], old_map) | Some t \<Rightarrow> diff_loop (ft_entries t) old_map [])
      in (changed, hm_keys m))"

section \<open>Tree hash\<close>

definition entry_bytes :: "file_tree_entry \<Rightarrow> bytes" where
  "entry_bytes e = as_bytes (fte_path e) @ as_bytes (fte_blob_id e) @
     u16_to_le_bytes (fte_mode e) @ u64_to_le_bytes (fte_size e)"

definition tree_hash :: "crates \<Rightarrow> file_tree \<Rightarrow> string" where
  "tree_hash C t =
     hex_encode C (sha256 C (concat (map entry_bytes (sort_key fte_path (ft_entries t)))))"

text \<open>The names of tree files.\<close>

lemma hex_name:
  assumes "hex_law C"
  shows "simple_name (hex_encode C b @ ''.json'')" "hex_encode C b \<noteq> ''latest''" "hex_encode C b \<noteq> [] \<Longrightarrow> simple_name (hex_encode C b)"
proof -
  have h: "\<forall>c \<in> set (hex_encode C b). is_ascii_hexdigit c" using assms by (simp add: hex_law_def)
  have x: "\<not> is_ascii_hexdigit CHR ''/''" "\<not> is_ascii_hexdigit CHR 0x00" "\<not> is_ascii_hexdigit CHR ''l''" "\<not> is_ascii_hexdigit CHR ''.''"
    by (simp_all add: hexdigit_code)
  with h have n: "CHR ''/'' \<notin> set (hex_encode C b)" "CHR 0x00 \<notin> set (hex_encode C b)" "CHR ''l'' \<notin> set (hex_encode C b)"
    "CHR ''.'' \<notin> set (hex_encode C b)" by blast+
  then show "simple_name (hex_encode C b @ ''.json'')" "hex_encode C b \<noteq> ''latest''"
    "hex_encode C b \<noteq> [] \<Longrightarrow> simple_name (hex_encode C b)"
    by (auto simp: simple_name_def append_eq_Cons_conv)
qed

lemma tree_hash_name:
  assumes "hex_law C"
  shows "simple_name (tree_hash C t @ ''.json'')" "tree_hash C t \<noteq> ''latest''"
  using hex_name(1,2) [OF assms] by (simp_all add: tree_hash_def)

section \<open>Lemmas on differences\<close>

text \<open>The view of a tree as a map from paths to contents, and the entries of an optional tree.\<close>

definition entries_of :: "file_tree option \<Rightarrow> file_tree_entry list" where
  "entries_of t = (case t of None \<Rightarrow> [] | Some t \<Rightarrow> ft_entries t)"

definition stamp :: "file_tree_entry \<Rightarrow> string \<times> i64" where
  "stamp e = (fte_blob_id e, fte_mtime_ns e)"

definition tree_map :: "file_tree_entry list \<Rightarrow> string \<Rightarrow> (string \<times> i64) option" where
  "tree_map es p = map_of (map (\<lambda>e. (fte_path e, stamp e)) es) p"

abbreviation distinct_paths :: "file_tree_entry list \<Rightarrow> bool" where
  "distinct_paths es \<equiv> distinct (map fte_path es)"

lemma hm_get_insert_entries:
  assumes "distinct_paths es"
  shows "hm_get (insert_entries es m) p =
    (case map_of (map (\<lambda>e. (fte_path e, e)) es) p of None \<Rightarrow> hm_get m p | Some e \<Rightarrow> Some e)"
  using assms
proof (induction es arbitrary: m)
  case (Cons e es)
  then have "map_of (map (\<lambda>e. (fte_path e, e)) es) (fte_path e) = None"
    by (force simp: map_of_eq_None_iff)
  with Cons show ?case by (auto split: option.splits)
qed simp

lemma tree_map_entry:
  "tree_map es p = map_option stamp (map_of (map (\<lambda>e. (fte_path e, e)) es) p)"
  by (induction es) (auto simp: tree_map_def)

lemma diff_loop_result:
  assumes "distinct_paths es" and "diff_loop es m acc = (changed, m')"
  shows "changed = acc @ map fte_path (filter (\<lambda>e. map_option stamp (hm_get m (fte_path e)) \<noteq> Some (stamp e)) es) \<and>
    (\<forall>p. hm_get m' p = (if p \<in> fte_path ` set es then None else hm_get m p))"
  using assms
proof (induction es arbitrary: m acc)
  case (Cons e es)
  let ?acc = "if map_option stamp (hm_get m (fte_path e)) \<noteq> Some (stamp e) then acc @ [fte_path e] else acc"
  have step: "diff_loop es (hm_remove (fte_path e) m) ?acc = (changed, m')"
    using Cons.prems(2) by (cases "hm_get m (fte_path e)") (auto simp: stamp_def)
  have "filter (\<lambda>e'. map_option stamp (hm_get (hm_remove (fte_path e) m) (fte_path e')) \<noteq> Some (stamp e')) es
      = filter (\<lambda>e'. map_option stamp (hm_get m (fte_path e')) \<noteq> Some (stamp e')) es"
    using Cons.prems(1) by (intro filter_cong refl) (force simp: image_iff)
  with Cons.IH [OF _ step] Cons.prems(1) show ?case by auto
qed simp

lemma diff_result:
  assumes "distinct_paths (entries_of old)" and "distinct_paths (entries_of latest)"
    and "diff old latest = (changed, removed)"
  shows "changed = map fte_path (filter (\<lambda>e. tree_map (entries_of old) (fte_path e) \<noteq> Some (stamp e))
      (entries_of latest))" (is ?A)
    and "set removed = {p. tree_map (entries_of old) p \<noteq> None \<and> tree_map (entries_of latest) p = None}" (is ?B)
proof -
  define m where "m = insert_entries (entries_of old) []"
  have get: "map_option stamp (hm_get m p) = tree_map (entries_of old) p" for p
    using hm_get_insert_entries [OF assms(1), of "[]" p]
    by (cases "map_of (map (\<lambda>e. (fte_path e, e)) (entries_of old)) p") (simp_all add: m_def tree_map_entry)
  have "diff old latest = (fst (diff_loop (entries_of latest) m []), hm_keys (snd (diff_loop (entries_of latest) m [])))"
    by (cases old; cases latest) (simp_all add: diff_def m_def entries_of_def case_prod_beta Let_def)
  then obtain m' where loop: "diff_loop (entries_of latest) m [] = (changed, m')" and r: "removed = hm_keys m'"
    using assms(3) by (cases "diff_loop (entries_of latest) m []") simp
  note res = diff_loop_result [OF assms(2) loop]
  show ?A using res by (simp add: get)
  have lat: "tree_map (entries_of latest) p = None \<longleftrightarrow> p \<notin> fte_path ` set (entries_of latest)" for p
    by (simp add: tree_map_entry map_of_eq_None_iff image_image)
  have "p \<in> set removed \<longleftrightarrow> tree_map (entries_of old) p \<noteq> None \<and> tree_map (entries_of latest) p = None" for p
    unfolding r hm_keys_iff lat get [symmetric] using res by simp
  then show ?B by blast
qed

section \<open>Saved trees\<close>

lemma read_tree_written:
  assumes "tree_json_law J t" and "tree_to_vec_pretty J t = Some b"
    and "resolve F p = Inr cs" and "node_at F cs = Some (File b)"
  shows "read_tree J p F = Some t"
proof -
  obtain s where "from_utf8 b = Some s" "tree_from_str J s = Some t"
    using assms(1,2) unfolding tree_json_law_def by (metis option.inject)
  with assms(3,4) show ?thesis
    by (simp add: read_tree_def fs_exists_def fs_read_to_string_def fs_read_def)
qed

lemma read_tree_cong:
  assumes "resolve F p = Inr cs" and "resolve F' p = Inr cs" and "node_at F' cs = node_at F cs"
  shows "read_tree J p F' = read_tree J p F"
  using assms by (simp add: read_tree_def fs_exists_def fs_read_to_string_def fs_read_def)

lemma save_tree_nodes:
  assumes "save_tree J sf t F = (Inr (), F')" and "simple_name (ft_tree_hash t @ ''.json'')"
    and "trees_dir sf \<noteq> []"
  shows "\<exists>ds b. resolve F' (trees_dir sf) = Inr ds \<and> node_at F' ds = Some Dir \<and>
    tree_to_vec_pretty J t = Some b \<and>
    node_at F' (ds @ [''latest.json'']) = Some (File b) \<and>
    node_at F' (ds @ [ft_tree_hash t @ ''.json'']) = Some (File b) \<and>
    (\<forall>n. n \<noteq> ''latest.json'' \<longrightarrow> n \<noteq> ft_tree_hash t @ ''.json'' \<longrightarrow> node_at F (ds @ [n]) \<noteq> None \<longrightarrow>
       node_at F' (ds @ [n]) = node_at F (ds @ [n]))"
proof -
  obtain F1 where F1: "fs_create_dir_all (trees_dir sf) F = Inr F1"
    using assms(1) by (cases "fs_create_dir_all (trees_dir sf) F") (simp_all add: save_tree_def)
  obtain b where b: "tree_to_vec_pretty J t = Some b"
    using assms(1) F1 by (cases "tree_to_vec_pretty J t") (simp_all add: save_tree_def)
  obtain F2 where F2: "fs_write (tree_file sf (ft_tree_hash t)) b F1 = Inr F2"
    using assms(1) F1 b
    by (cases "fs_write (tree_file sf (ft_tree_hash t)) b F1") (simp_all add: save_tree_def)
  have F3: "fs_write (latest_path sf) b F2 = Inr F'"
    using assms(1) F1 b F2 by (cases "fs_write (latest_path sf) b F2") (simp_all add: save_tree_def)
  from create_dir_all_resolves [OF F1 assms(3)] obtain ds where ds: "resolve F1 (trees_dir sf) = Inr ds"
      "node_at F1 ds = Some Dir" by blast
  have F2': "node_at F1 (ds @ [ft_tree_hash t @ ''.json'']) \<noteq> Some Dir"
      "F2 = set_node (ds @ [ft_tree_hash t @ ''.json'']) (File b) F1"
    using fs_write_InrD [OF F2] resolve_join [OF ds assms(2)] by (auto simp: tree_file_def)
  have k2: "dirs_kept F1 F2" using dirs_kept_set_File [OF F2'(1)] F2'(2) by simp
  have ds2: "resolve F2 (trees_dir sf) = Inr ds" "node_at F2 ds = Some Dir"
    using resolve_kept [OF ds(1) k2] ds(2) k2 by (auto simp: dirs_kept_def)
  have F3': "node_at F2 (ds @ [''latest.json'']) \<noteq> Some Dir"
      "F' = set_node (ds @ [''latest.json'']) (File b) F2"
    using fs_write_InrD [OF F3] resolve_join [OF ds2, of "''latest.json''"]
    by (auto simp: latest_path_def simple_name_def)
  have k3: "dirs_kept F2 F'" using dirs_kept_set_File [OF F3'(1)] F3'(2) by simp
  have "resolve F' (trees_dir sf) = Inr ds" "node_at F' ds = Some Dir"
    using resolve_kept [OF ds2(1) k3] ds2(2) k3 by (auto simp: dirs_kept_def)
  moreover have "node_at F' (ds @ [n]) = (if n = ''latest.json'' \<or> n = ft_tree_hash t @ ''.json''
      then Some (File b) else node_at F1 (ds @ [n]))" for n
    by (simp add: F3'(2) F2'(2))
  moreover have "node_at F x \<noteq> None \<longrightarrow> node_at F1 x = node_at F x" for x
    using create_dir_all_grows [OF F1] by blast
  ultimately show ?thesis using b by auto
qed

lemma fs_write_kept: "fs_write p b F = Inr F' \<Longrightarrow> dirs_kept F F'"
  using fs_write_InrD [of p b F F'] dirs_kept_set_File by auto

lemma save_tree_kept:
  assumes "save_tree J sf t F = (Inr (), F')"
  shows "dirs_kept F F'"
proof -
  from assms obtain F1 json F2 where "fs_create_dir_all (trees_dir sf) F = Inr F1"
    "fs_write (tree_file sf (ft_tree_hash t)) json F1 = Inr F2" "fs_write (latest_path sf) json F2 = Inr F'"
    by (simp add: save_tree_def split: sum.split_asm option.split_asm)
  then show ?thesis using create_dir_all_kept fs_write_kept dirs_kept_trans by blast
qed

lemma trees_dir_not_Nil [simp]: "trees_dir sf \<noteq> []"
  by (simp add: trees_dir_def join_def)

lemma saved_tree:
  assumes "tree_json_law J t" and "save_tree J sf t F = (Inr (), F')"
    and "simple_name (ft_tree_hash t @ ''.json'')"
  shows "latest_tree J sf F' = Some t \<and> get_tree J sf (ft_tree_hash t) F' = Some t \<and>
    (\<forall>h u. get_tree J sf h F = Some u \<longrightarrow> simple_name (h @ ''.json'') \<longrightarrow> h \<noteq> ''latest'' \<longrightarrow>
       h \<noteq> ft_tree_hash t \<longrightarrow> get_tree J sf h F' = Some u)"
proof -
  from save_tree_nodes [OF assms(2,3) trees_dir_not_Nil] obtain ds b where
    ds: "resolve F' (trees_dir sf) = Inr ds" "node_at F' ds = Some Dir" and
    b: "tree_to_vec_pretty J t = Some b" "node_at F' (ds @ [''latest.json'']) = Some (File b)"
      "node_at F' (ds @ [ft_tree_hash t @ ''.json'']) = Some (File b)" and
    other: "\<forall>n. n \<noteq> ''latest.json'' \<longrightarrow> n \<noteq> ft_tree_hash t @ ''.json'' \<longrightarrow> node_at F (ds @ [n]) \<noteq> None \<longrightarrow>
       node_at F' (ds @ [n]) = node_at F (ds @ [n])" by blast
  have "resolve F' (latest_path sf) = Inr (ds @ [''latest.json''])"
    unfolding latest_path_def by (rule resolve_join [OF ds]) (simp add: simple_name_def)
  moreover have rf: "resolve F' (tree_file sf h) = Inr (ds @ [h @ ''.json''])" if "simple_name (h @ ''.json'')" for h
    unfolding tree_file_def by (rule resolve_join [OF ds that])
  moreover have "get_tree J sf h F' = Some u"
    if g: "get_tree J sf h F = Some u" and h: "simple_name (h @ ''.json'')" "h \<noteq> ''latest''" "h \<noteq> ft_tree_hash t" for h u
  proof -
    have ex: "fs_exists F (tree_file sf h)" using g by (auto simp: get_tree_def read_tree_def split: if_splits)
    then obtain cs where cs: "resolve F (tree_file sf h) = Inr cs" "node_at F cs \<noteq> None"
      by (auto simp: fs_exists_def split: sum.splits)
    have "dirs_kept F F'" using assms(2) by (rule save_tree_kept)
    then have "cs = ds @ [h @ ''.json'']" using resolve_kept [OF cs(1)] rf [OF h(1)] by auto
    moreover have "h @ ''.json'' \<noteq> ''latest.json''" using h(2) append_same_eq [of h "''.json''" "''latest''"] by simp
    ultimately have "node_at F' cs = node_at F cs" using other cs(2) h(3) by auto
    from read_tree_cong [OF cs(1) _ this] rf [OF h(1)] g \<open>cs = ds @ [h @ ''.json'']\<close> show ?thesis
      by (simp add: get_tree_def)
  qed
  ultimately show ?thesis
    using read_tree_written [OF assms(1) b(1)] b(2,3) assms(3) by (auto simp: latest_tree_def get_tree_def)
qed

section \<open>Sanitised names\<close>

lemma sanitize_chars:
  "c \<in> set (sanitize s) \<Longrightarrow> is_ascii_alphanumeric c \<or> c = CHR ''-'' \<or> c = CHR ''_''"
  by (auto simp: sanitize_def map_chars_def sanitize_char_def split: if_splits)

lemma sanitize_simple:
  assumes "s \<noteq> []" and "\<not> is_continuation (hd s)"
  shows "simple_name (sanitize s)"
proof -
  have "sanitize s \<noteq> []"
    using assms by (cases s) (simp_all add: sanitize_def map_chars_def)
  moreover have "CHR ''.'' \<notin> set (sanitize s)" "CHR ''/'' \<notin> set (sanitize s)" "CHR 0x00 \<notin> set (sanitize s)"
    by (auto dest!: sanitize_chars simp: is_ascii_alphanumeric_def is_ascii_lowercase_def
        is_ascii_uppercase_def is_ascii_digit_def less_eq_char_def)
  ultimately show ?thesis by (auto simp: simple_name_def)
qed

section \<open>Properties\<close>

text \<open>
  C14: \<open>diff\<close> is a patch.  For trees whose entries have distinct paths, a client that drops the
  removed paths from the old tree and takes the changed paths from the latest tree has, for
  every path, exactly the content and time stamp of the latest tree; the changed paths are
  reported once each, in the order of the latest tree, and unchanged paths are not reported.
\<close>

theorem diff_patch:
  assumes "distinct_paths (entries_of old)" and "distinct_paths (entries_of latest)"
    and "diff old latest = (changed, removed)"
  shows "(if p \<in> set removed then None
      else if p \<in> set changed then tree_map (entries_of latest) p
      else tree_map (entries_of old) p) = tree_map (entries_of latest) p \<and>
    distinct changed \<and>
    (p \<in> set changed \<longleftrightarrow> tree_map (entries_of latest) p \<noteq> None \<and>
       tree_map (entries_of latest) p \<noteq> tree_map (entries_of old) p) \<and>
    (p \<in> set removed \<longleftrightarrow> tree_map (entries_of latest) p = None \<and> tree_map (entries_of old) p \<noteq> None)"
proof -
  note res = diff_result [OF assms]
  have mem: "tree_map (entries_of latest) p = Some x \<longleftrightarrow>
      (\<exists>e \<in> set (entries_of latest). fte_path e = p \<and> stamp e = x)" for x
    using assms(2) by (auto simp: tree_map_def map_of_eq_Some_iff o_def image_iff)
  have ch: "p \<in> set changed \<longleftrightarrow> tree_map (entries_of latest) p \<noteq> None \<and>
       tree_map (entries_of latest) p \<noteq> tree_map (entries_of old) p"
  proof -
    have "p \<in> set changed \<longleftrightarrow> (\<exists>x. tree_map (entries_of latest) p = Some x \<and>
        tree_map (entries_of old) p \<noteq> Some x)"
      unfolding res(1) mem by (auto simp del: split_paired_Ex)
    then show ?thesis by (cases "tree_map (entries_of latest) p") auto
  qed
  have "distinct changed" unfolding res(1) using assms(2) by (simp add: distinct_map_filter)
  with ch res(2) show ?thesis
    by (cases "tree_map (entries_of latest) p"; cases "tree_map (entries_of old) p") auto
qed

definition entry :: "string \<Rightarrow> string \<Rightarrow> i64 \<Rightarrow> file_tree_entry" where
  "entry p b t = \<lparr>fte_path = p, fte_blob_id = b, fte_mode = 0, fte_size = 1, fte_mtime_ns = t\<rparr>"

theorem diff_patch_witness:
  "let old = Some \<lparr>ft_tree_hash = ''x'', ft_entries = [entry ''a'' ''1'' 1, entry ''b'' ''2'' 1]\<rparr>;
       new = Some \<lparr>ft_tree_hash = ''y'', ft_entries = [entry ''a'' ''3'' 1, entry ''c'' ''4'' 1]\<rparr>
   in diff old new = ([''a'', ''c''], [''b'']) \<and> ''c'' \<notin> set (snd (diff old new))"
proof -
  let ?old = "Some \<lparr>ft_tree_hash = ''x'', ft_entries = [entry ''a'' ''1'' 1, entry ''b'' ''2'' 1]\<rparr>"
  let ?new = "Some \<lparr>ft_tree_hash = ''y'', ft_entries = [entry ''a'' ''3'' 1, entry ''c'' ''4'' 1]\<rparr>"
  have d: "diff ?old ?new = ([''a'', ''c''], [''b''])"
    by (simp add: diff_def entry_def hm_get_def hm_insert_def hm_remove_def hm_keys_def)
  have "''c'' \<notin> set [''b'']"
    using diff_patch [OF _ _ d, of "''c''"] by (simp add: entries_of_def entry_def tree_map_def)
  with d show ?thesis by (simp add: Let_def)
qed

text \<open>
  The tree hash does not depend on the order of the entries: trees with distinct paths and
  the same entries in any order have the same hash.
\<close>

theorem tree_hash_permutation:
  assumes "mset (ft_entries t) = mset (ft_entries u)" and "distinct_paths (ft_entries t)"
  shows "tree_hash C t = tree_hash C u"
proof -
  have "inj_on fte_path (set (ft_entries t))" using assms(2) by (simp add: distinct_map)
  with assms(1) have "sort_key fte_path (ft_entries t) = sort_key fte_path (ft_entries u)"
    by (intro sort_key_inj_key_eq) simp_all
  then show ?thesis by (simp add: tree_hash_def)
qed

theorem tree_hash_permutation_witness:
  "tree_hash sample_crates \<lparr>ft_tree_hash = '''', ft_entries = [entry ''b'' ''1'' 1, entry ''a'' ''2'' 2]\<rparr> =
   tree_hash sample_crates \<lparr>ft_tree_hash = '''', ft_entries = [entry ''a'' ''2'' 2, entry ''b'' ''1'' 1]\<rparr>"
  by (rule tree_hash_permutation) (simp_all add: entry_def)

text \<open>
  The tree hash does not determine the tree, whatever the hash function: path and blob id
  are hashed without a separator, so moving a character between them keeps the hash.
\<close>

theorem tree_hash_ambiguous:
  "tree_hash C \<lparr>ft_tree_hash = h, ft_entries = [entry (p @ [c]) b t]\<rparr> =
   tree_hash C \<lparr>ft_tree_hash = h, ft_entries = [entry p (c # b) t]\<rparr>"
  by (simp add: tree_hash_def entry_bytes_def entry_def as_bytes_def)

text \<open>
  C30: a saved tree is found again, both as the latest tree and under its hash, and trees saved
  earlier under other hashes stay as they are.
\<close>

theorem save_tree_roundtrip:
  assumes "tree_json_law J t" and "save_tree J sf t F = (Inr (), F')"
    and "simple_name (ft_tree_hash t @ ''.json'')"
  shows "latest_tree J sf F' = Some t \<and> get_tree J sf (ft_tree_hash t) F' = Some t \<and>
    (\<forall>h u. get_tree J sf h F = Some u \<longrightarrow> simple_name (h @ ''.json'') \<longrightarrow> h \<noteq> ''latest'' \<longrightarrow>
       h \<noteq> ft_tree_hash t \<longrightarrow> get_tree J sf h F' = Some u)"
  using assms by (rule saved_tree)

theorem save_tree_roundtrip_witness:
  "let t = \<lparr>ft_tree_hash = ''ab'', ft_entries = [entry ''a'' ''1'' 1]\<rparr>;
       J = \<lparr>tree_to_vec_pretty = (\<lambda>u. if u = t then Some (as_bytes ''{}'') else None),
            tree_from_str = [''{}'' \<mapsto> t]\<rparr>
   in latest_tree J \<lparr>sf_root = ''/s'', sf_objects = LocalObjectStore ''/o''\<rparr>
        (snd (save_tree J \<lparr>sf_root = ''/s'', sf_objects = LocalObjectStore ''/o''\<rparr> t \<lparr>cwd = [], nodes = []\<rparr>)) = Some t"
proof -
  define t where "t = \<lparr>ft_tree_hash = ''ab'', ft_entries = [entry ''a'' ''1'' 1]\<rparr>"
  define J where "J = \<lparr>tree_to_vec_pretty = (\<lambda>u. if u = t then Some (as_bytes ''{}'') else None),
            tree_from_str = [''{}'' \<mapsto> t]\<rparr>"
  let ?sf = "\<lparr>sf_root = ''/s'', sf_objects = LocalObjectStore ''/o''\<rparr>" and ?F = "\<lparr>cwd = [], nodes = []\<rparr>"
  have law: "tree_json_law J t" by (simp add: tree_json_law_def J_def from_utf8_ascii)
  have h: "ft_tree_hash t = ''ab''" and to: "tree_to_vec_pretty J t = Some (as_bytes ''{}'')"
    by (simp_all add: t_def J_def)
  have sv: "save_tree J ?sf t ?F = (Inr (), snd (save_tree J ?sf t ?F))"
    by (simp add: save_tree_def h to trees_dir_def tree_file_def latest_path_def join_def suffix_to_prefix
        fs_create_dir_all_def start_of_def set_node_def node_at_def hm_get_def hm_insert_def fs_write_def
        resolve_def parent_dir_def)
  have "latest_tree J ?sf (snd (save_tree J ?sf t ?F)) = Some t"
    using save_tree_roundtrip [OF law sv] by (simp add: h simple_name_def)
  then show ?thesis by (simp add: Let_def t_def J_def)
qed

text \<open>
  A tenant's directory stays below \<open>server/\<close>: the sanitised domain is a single plain
  directory name, so the trees of a tenant resolve below the server directory whatever the
  domain contains.  (The domain is non-empty and well-formed UTF-8, so its first byte is not a
  continuation byte.)
\<close>

theorem server_root_confined:
  assumes "resolve F (join base ''server'') = Inr ds" and "node_at F ds = Some Dir"
    and "ud \<noteq> []" and "\<not> is_continuation (hd ud)"
  shows "\<exists>n. resolve F (sf_root (server_fs_new base ud objects)) = Inr (ds @ [n]) \<and> simple_name n"
  using resolve_join [OF assms(1,2) sanitize_simple [OF assms(3,4)]] sanitize_simple [OF assms(3,4)]
  by (simp add: server_fs_new_def)

theorem server_root_confined_witness:
  "\<exists>n. resolve \<lparr>cwd = [], nodes = [([''n''], Dir), ([''n'', ''server''], Dir)]\<rparr>
      (sf_root (server_fs_new ''/n'' ''../../etc'' (LocalObjectStore ''/o''))) = Inr ([''n'', ''server''] @ [n])
    \<and> simple_name n"
  by (rule server_root_confined)
    (simp_all add: resolve_def join_def suffix_to_prefix start_of_def node_at_def hm_get_def is_continuation_def)

text \<open>
  Distinct tenants can share a directory: the domains \<open>a.b\<close> and \<open>a_b\<close>, both of which
  \<open>UserDomain::new\<close> accepts, are mapped to the same root.
\<close>

theorem sanitize_collision:
  "server_fs_new base ''a.b'' objects = server_fs_new base ''a_b'' objects"
  by (simp add: server_fs_new_def sanitize_def map_chars_def sanitize_char_def is_continuation_def
      is_ascii_alphanumeric_def is_ascii_lowercase_def is_ascii_uppercase_def is_ascii_digit_def less_eq_char_def)

end
