(* ===== verification/Registry.thy ===== *)
theory Registry
  imports Messages
begin

text \<open>
  The online registry of \<open>nsmt-server/src/registry.rs\<close>: per tenant the online machines and the
  subscribers of its broadcasts.

  A \<open>tokio\<close> unbounded channel is an identifier with a queue; \<open>send\<close> appends to the queue unless
  the receiver has been dropped.  Every operation takes the registry's \<open>RwLock\<close> and is one
  atomic step; only \<open>prune_loop\<close> takes it several times in a round, so its round is split into
  the scan, the removal and the notification.  Clock readings are arguments.
\<close>

record chan =
  queue :: "frame list"
  alive :: bool

record tenant =
  machines :: "(string, machine_info) hmap"
  subscribers :: "nat list"

record registry =
  tenants :: "(string, tenant) hmap"
  chans :: "nat \<Rightarrow> chan"
  next_chan :: nat

definition registry_default :: registry where
  "registry_default = \<lparr>tenants = [], chans = (\<lambda>_. \<lparr>queue = [], alive = False\<rparr>), next_chan = 0\<rparr>"

definition HEARTBEAT_INTERVAL :: u64 where "HEARTBEAT_INTERVAL = 10000"
definition OFFLINE_AFTER :: u64 where "OFFLINE_AFTER = 30000"

text \<open>\<open>entry(..).or_default()\<close>\<close>

definition tenant_or_default :: "string \<Rightarrow> registry \<Rightarrow> tenant" where
  "tenant_or_default d R =
     (case hm_get (tenants R) d of Some t \<Rightarrow> t | None \<Rightarrow> \<lparr>machines = [], subscribers = []\<rparr>)"

section \<open>Channels\<close>

definition chan_send :: "nat \<Rightarrow> frame \<Rightarrow> registry \<Rightarrow> registry" where
  "chan_send ch f R =
     (let c = chans R ch in
      if alive c then R\<lparr>chans := (chans R)(ch := c\<lparr>queue := queue c @ [f]\<rparr>)\<rparr> else R)"

text \<open>The session's side: take the next frame; drop the receiver at the end of the session.\<close>

definition chan_recv :: "nat \<Rightarrow> registry \<Rightarrow> frame option \<times> registry" where
  "chan_recv ch R =
     (case queue (chans R ch) of
        [] \<Rightarrow> (None, R)
      | f # fs \<Rightarrow> (Some f, R\<lparr>chans := (chans R)(ch := (chans R ch)\<lparr>queue := fs\<rparr>)\<rparr>))"

definition chan_drop :: "nat \<Rightarrow> registry \<Rightarrow> registry" where
  "chan_drop ch R = R\<lparr>chans := (chans R)(ch := \<lparr>queue = [], alive = False\<rparr>)\<rparr>"

section \<open>Operations\<close>

definition register :: "string \<Rightarrow> machine_info \<Rightarrow> registry \<Rightarrow> machine_info list \<times> registry" where
  "register d info R =
     (let t = tenant_or_default d R;
          t' = t\<lparr>machines := hm_insert (mi_machine_id info) info (machines t)\<rparr>
      in (hm_values (machines t'), R\<lparr>tenants := hm_insert d t' (tenants R)\<rparr>))"

definition subscribe :: "string \<Rightarrow> registry \<Rightarrow> (machine_info list \<times> nat) \<times> registry" where
  "subscribe d R =
     (let t = tenant_or_default d R;
          ch = next_chan R;
          t' = t\<lparr>subscribers := subscribers t @ [ch]\<rparr>
      in ((hm_values (machines t'), ch),
          R\<lparr>tenants := hm_insert d t' (tenants R),
            chans := (chans R)(ch := \<lparr>queue = [], alive = True\<rparr>),
            next_chan := Suc ch\<rparr>))"

definition unsubscribe :: "string \<Rightarrow> nat \<Rightarrow> registry \<Rightarrow> registry" where
  "unsubscribe d ch R =
     (case hm_get (tenants R) d of
        None \<Rightarrow> R
      | Some t \<Rightarrow> R\<lparr>tenants := hm_insert d
            (t\<lparr>subscribers := filter (\<lambda>s. s \<noteq> ch) (subscribers t)\<rparr>) (tenants R)\<rparr>)"

definition heartbeat_refresh :: "u64 \<Rightarrow> string \<Rightarrow> string \<Rightarrow> registry \<Rightarrow> registry" where
  "heartbeat_refresh now d machine_id R =
     (case hm_get (tenants R) d of
        None \<Rightarrow> R
      | Some t \<Rightarrow>
         (case hm_get (machines t) machine_id of
            None \<Rightarrow> R
          | Some m \<Rightarrow> R\<lparr>tenants := hm_insert d
                (t\<lparr>machines := hm_insert machine_id (m\<lparr>mi_last_seen := now\<rparr>) (machines t)\<rparr>) (tenants R)\<rparr>))"

definition broadcast :: "string \<Rightarrow> frame \<Rightarrow> registry \<Rightarrow> registry" where
  "broadcast d f R =
     (case hm_get (tenants R) d of
        None \<Rightarrow> R
      | Some t \<Rightarrow> fold (\<lambda>ch. chan_send ch f) (subscribers t) R)"

definition broadcast_except :: "string \<Rightarrow> frame \<Rightarrow> nat \<Rightarrow> registry \<Rightarrow> registry" where
  "broadcast_except d f except R =
     (case hm_get (tenants R) d of
        None \<Rightarrow> R
      | Some t \<Rightarrow> fold (\<lambda>ch R. if ch \<noteq> except then chan_send ch f R else R) (subscribers t) R)"

definition online_machine :: "string \<Rightarrow> string \<Rightarrow> registry \<Rightarrow> machine_info option" where
  "online_machine d machine_id R =
     (case hm_get (tenants R) d of None \<Rightarrow> None | Some t \<Rightarrow> hm_get (machines t) machine_id)"

definition all_online :: "registry \<Rightarrow> (string, machine_info list) hmap" where
  "all_online R = map (\<lambda>(d, t). (d, hm_values (machines t))) (tenants R)"

definition frame_or_error :: "nsmt_error + frame \<Rightarrow> frame" where
  "frame_or_error r = (case r of Inr f \<Rightarrow> f | Inl _ \<Rightarrow> frame_new Error 0 [])"

definition online_list_frame :: "serde \<Rightarrow> string \<Rightarrow> registry \<Rightarrow> frame" where
  "online_list_frame S d R =
     (let ms = (case hm_get (tenants R) d of None \<Rightarrow> [] | Some t \<Rightarrow> hm_values (machines t))
      in frame_or_error (from_json S OnlineList 0 (MOnlineList \<lparr>ol_machines = ms\<rparr>)))"

section \<open>Pruning\<close>

definition saturating_sub :: "u64 \<Rightarrow> u64 \<Rightarrow> u64" where
  "saturating_sub a b = (if a < b then 0 else a - b)"

definition stale_at :: "u64 \<Rightarrow> machine_info \<Rightarrow> bool" where
  "stale_at now m \<longleftrightarrow> mi_last_seen m < saturating_sub now OFFLINE_AFTER"

text \<open>The scan under the read lock; the clock is read once per tenant.\<close>

fun prune_scan :: "(nat \<Rightarrow> u64) \<Rightarrow> nat \<Rightarrow> (string, tenant) hmap \<Rightarrow> (string \<times> machine_info) list" where
  "prune_scan clk i [] = []"
| "prune_scan clk i ((d, t) # ts) =
     map (\<lambda>m. (d, m)) (filter (stale_at (clk i)) (hm_values (machines t))) @ prune_scan clk (Suc i) ts"

text \<open>The removal under the write lock, with the check repeated.\<close>

definition prune_remove :: "u64 \<Rightarrow> string \<Rightarrow> machine_info \<Rightarrow> registry \<Rightarrow> registry" where
  "prune_remove now d info R =
     (case hm_get (tenants R) d of
        None \<Rightarrow> R
      | Some t \<Rightarrow>
         (case hm_get (machines t) (mi_machine_id info) of
            None \<Rightarrow> R
          | Some m \<Rightarrow>
              if stale_at now m
              then R\<lparr>tenants := hm_insert d
                  (t\<lparr>machines := hm_remove (mi_machine_id info) (machines t)\<rparr>) (tenants R)\<rparr>
              else R))"

definition leave_frame :: "serde \<Rightarrow> machine_info \<Rightarrow> frame" where
  "leave_frame S info =
     frame_or_error (from_json S OnlineDelta 0 (MOnlineDelta \<lparr>od_kind = Leave, od_machine = info\<rparr>))"

definition prune_one :: "serde \<Rightarrow> u64 \<Rightarrow> string \<times> machine_info \<Rightarrow> registry \<Rightarrow> registry" where
  "prune_one S now x R = (case x of (d, info) \<Rightarrow>
     broadcast d (leave_frame S info) (prune_remove now d info R))"

text \<open>A round of \<open>prune_loop\<close> with no other operation in between.\<close>

definition prune_round :: "serde \<Rightarrow> (nat \<Rightarrow> u64) \<Rightarrow> registry \<Rightarrow> registry" where
  "prune_round S clk R =
     (let stale = prune_scan clk 0 (tenants R); n = length (tenants R)
      in fold (\<lambda>(i, x). prune_one S (clk (n + i)) x) (enumerate 0 stale) R)"

section \<open>Channel lemmas\<close>

lemma chan_send_simps [simp]:
  "tenants (chan_send ch f R) = tenants R" "next_chan (chan_send ch f R) = next_chan R"
  by (simp_all add: chan_send_def Let_def)

lemma chans_chan_send: "chans (chan_send ch f R) c =
    (if c = ch \<and> alive (chans R c) then (chans R c)\<lparr>queue := queue (chans R c) @ [f]\<rparr> else chans R c)"
  by (simp add: chan_send_def Let_def)

lemma fold_send:
  "tenants (fold (\<lambda>ch. chan_send ch f) cs R) = tenants R"
  "next_chan (fold (\<lambda>ch. chan_send ch f) cs R) = next_chan R"
  "alive (chans (fold (\<lambda>ch. chan_send ch f) cs R) c) = alive (chans R c)"
  "queue (chans (fold (\<lambda>ch. chan_send ch f) cs R) c) = queue (chans R c) @
     (if alive (chans R c) then replicate (count_list cs c) f else [])"
proof (induction cs arbitrary: R)
  case (Cons ch cs)
  { case 1 then show ?case by (simp add: Cons) next
    case 2 then show ?case by (simp add: Cons) next
    case 3 then show ?case by (simp add: Cons chans_chan_send) next
    case 4 then show ?case by (simp add: Cons chans_chan_send) }
qed simp_all

lemma fold_send_except:
  "fold (\<lambda>ch R. if ch \<noteq> x then chan_send ch f R else R) cs R =
   fold (\<lambda>ch. chan_send ch f) (filter (\<lambda>ch. ch \<noteq> x) cs) R"
  by (induction cs arbitrary: R) auto

lemma count_list_1: "distinct xs \<Longrightarrow> x \<in> set xs \<Longrightarrow> count_list xs x = 1"
  by (induction xs) (auto simp: count_list_0_iff)

section \<open>Invariant\<close>

definition tenant_ok :: "nat \<Rightarrow> tenant \<Rightarrow> bool" where
  "tenant_ok n t \<longleftrightarrow> hm_ok (machines t) \<and> distinct (subscribers t) \<and> (\<forall>s \<in> set (subscribers t). s < n) \<and>
     (\<forall>k m. hm_get (machines t) k = Some m \<longrightarrow> mi_machine_id m = k)"

definition subs_of :: "string \<Rightarrow> registry \<Rightarrow> nat list" where
  "subs_of d R = (case hm_get (tenants R) d of None \<Rightarrow> [] | Some t \<Rightarrow> subscribers t)"

definition reg_ok :: "registry \<Rightarrow> bool" where
  "reg_ok R \<longleftrightarrow> hm_ok (tenants R) \<and>
     (\<forall>d t. hm_get (tenants R) d = Some t \<longrightarrow> tenant_ok (next_chan R) t) \<and>
     (\<forall>d e. d \<noteq> e \<longrightarrow> set (subs_of d R) \<inter> set (subs_of e R) = {})"

lemma reg_ok_tenants:
  assumes "reg_ok R" and "tenants R' = tenants R" and "next_chan R' = next_chan R"
  shows "reg_ok R'"
  using assms by (simp add: reg_ok_def subs_of_def)

lemma subs_of_Some [simp]: "hm_get (tenants R) d = Some t \<Longrightarrow> subs_of d R = subscribers t"
  and subs_of_None [simp]: "hm_get (tenants R) d = None \<Longrightarrow> subs_of d R = []"
  by (simp_all add: subs_of_def)

lemma reg_ok_tenantD: "reg_ok R \<Longrightarrow> hm_get (tenants R) d = Some t \<Longrightarrow> tenant_ok (next_chan R) t"
  by (simp add: reg_ok_def)

lemma reg_ok_subs: "reg_ok R \<Longrightarrow> s \<in> set (subs_of e R) \<Longrightarrow> s < next_chan R"
  using reg_ok_tenantD [of R e] by (cases "hm_get (tenants R) e") (auto simp: tenant_ok_def)

lemma reg_ok_one_tenant:
  "reg_ok R \<Longrightarrow> c \<in> set (subs_of d R) \<Longrightarrow> c \<in> set (subs_of e R) \<Longrightarrow> d = e"
  unfolding reg_ok_def by blast

lemma reg_ok_machinesD:
  assumes "reg_ok R" and "hm_get (tenants R) d = Some t"
  shows "hm_ok (machines t)" and "hm_get (machines t) k = Some m \<Longrightarrow> mi_machine_id m = k"
  using reg_ok_tenantD [OF assms] by (auto simp: tenant_ok_def)

lemma tenant_ok_mono: "tenant_ok n t \<Longrightarrow> n \<le> m \<Longrightarrow> tenant_ok m t"
  by (force simp: tenant_ok_def)

text \<open>Replacing one tenant, with subscribers that are old ones of this tenant or new.\<close>

lemma reg_ok_update:
  assumes "reg_ok R" and "tenants R' = hm_insert d t (tenants R)" and "next_chan R \<le> next_chan R'"
    and "tenant_ok (next_chan R') t"
    and "set (subscribers t) \<subseteq> set (subs_of d R) \<union> {next_chan R ..}"
  shows "reg_ok R'"
proof -
  have old: "s < next_chan R" if "s \<in> set (subs_of e R)" for e s
    using reg_ok_subs [OF assms(1) that] .
  have subs: "subs_of e R' = (if e = d then subscribers t else subs_of e R)" for e
    by (simp add: subs_of_def assms(2))
  have disj: "set (subscribers t) \<inter> set (subs_of e R) = {}" if "e \<noteq> d" for e
    using assms(1,5) that old [of _ e] unfolding reg_ok_def by fastforce
  have "set (subs_of a R') \<inter> set (subs_of b R') = {}" if "a \<noteq> b" for a b
    using that disj assms(1) by (auto simp: subs reg_ok_def)
  moreover have "tenant_ok (next_chan R') u" if "hm_get (tenants R') e = Some u" for e u
    using that assms(4) tenant_ok_mono [OF reg_ok_tenantD [OF assms(1), of e u] assms(3)]
    by (auto simp: assms(2) split: if_splits)
  moreover have "hm_ok (tenants R')" using assms(1,2) by (simp add: reg_ok_def)
  ultimately show ?thesis by (simp add: reg_ok_def)
qed

lemma tenant_or_default_ok:
  "reg_ok R \<Longrightarrow> tenant_ok (next_chan R) (tenant_or_default d R)"
  by (auto simp: tenant_or_default_def reg_ok_def tenant_ok_def hm.get_empty split: option.splits)

lemma subs_tenant_or_default: "subscribers (tenant_or_default d R) = subs_of d R"
  by (simp add: tenant_or_default_def subs_of_def split: option.splits)

lemma register_ok:
  assumes "reg_ok R"
  shows "reg_ok (snd (register d info R))"
  using tenant_or_default_ok [OF assms, of d]
  by (intro reg_ok_update [OF assms, where d = d and t = "(tenant_or_default d R)
        \<lparr>machines := hm_insert (mi_machine_id info) info (machines (tenant_or_default d R))\<rparr>"])
    (simp_all add: register_def Let_def subs_tenant_or_default tenant_ok_def)

lemma subscribe_ok:
  assumes "reg_ok R"
  shows "reg_ok (snd (subscribe d R))"
  using tenant_or_default_ok [OF assms, of d]
  by (intro reg_ok_update [OF assms, where d = d and t = "(tenant_or_default d R)
        \<lparr>subscribers := subscribers (tenant_or_default d R) @ [next_chan R]\<rparr>"])
    (auto simp: subscribe_def Let_def subs_tenant_or_default tenant_ok_def)

lemma unsubscribe_ok:
  assumes "reg_ok R"
  shows "reg_ok (unsubscribe d ch R)"
proof (cases "hm_get (tenants R) d")
  case (Some t)
  with reg_ok_tenantD [OF assms Some] show ?thesis
    by (intro reg_ok_update [OF assms, where d = d and t = "t\<lparr>subscribers := filter (\<lambda>s. s \<noteq> ch) (subscribers t)\<rparr>"])
      (auto simp: unsubscribe_def tenant_ok_def)
qed (simp add: unsubscribe_def assms)

lemma machines_update_ok:
  assumes "reg_ok R" and "hm_get (tenants R) d = Some t" and "hm_ok ms"
    and "\<forall>k m. hm_get ms k = Some m \<longrightarrow> mi_machine_id m = k"
  shows "reg_ok (R\<lparr>tenants := hm_insert d (t\<lparr>machines := ms\<rparr>) (tenants R)\<rparr>)"
  using reg_ok_tenantD [OF assms(1,2)] assms(2-4)
  by (intro reg_ok_update [OF assms(1), where d = d and t = "t\<lparr>machines := ms\<rparr>"]) (auto simp: tenant_ok_def)

lemma heartbeat_ok:
  assumes "reg_ok R"
  shows "reg_ok (heartbeat_refresh now d mid R)"
proof (cases "\<exists>t m. hm_get (tenants R) d = Some t \<and> hm_get (machines t) mid = Some m")
  case True
  then obtain t m where tm: "hm_get (tenants R) d = Some t" "hm_get (machines t) mid = Some m" by blast
  with reg_ok_tenantD [OF assms tm(1)] show ?thesis
    using machines_update_ok [OF assms tm(1), of "hm_insert mid (m\<lparr>mi_last_seen := now\<rparr>) (machines t)"]
    by (simp add: heartbeat_refresh_def tenant_ok_def)
qed (auto simp: heartbeat_refresh_def assms split: option.splits)

lemma prune_remove_ok:
  assumes "reg_ok R"
  shows "reg_ok (prune_remove now d info R)"
proof (cases "hm_get (tenants R) d")
  case (Some t)
  have "reg_ok (R\<lparr>tenants := hm_insert d (t\<lparr>machines := hm_remove (mi_machine_id info) (machines t)\<rparr>) (tenants R)\<rparr>)"
    using reg_ok_tenantD [OF assms Some] by (intro machines_update_ok [OF assms Some]) (simp_all add: tenant_ok_def)
  with Some assms show ?thesis
    by (cases "hm_get (machines t) (mi_machine_id info)") (simp_all add: prune_remove_def)
qed (simp add: prune_remove_def assms)

lemma broadcast_simps [simp]:
  "tenants (broadcast d f R) = tenants R" "next_chan (broadcast d f R) = next_chan R"
  "tenants (broadcast_except d f x R) = tenants R" "next_chan (broadcast_except d f x R) = next_chan R"
  by (simp_all add: broadcast_def broadcast_except_def fold_send_except fold_send split: option.splits)

lemma chan_op_simps [simp]:
  "tenants (snd (chan_recv ch R)) = tenants R" "next_chan (snd (chan_recv ch R)) = next_chan R"
  "tenants (chan_drop ch R) = tenants R" "next_chan (chan_drop ch R) = next_chan R"
  by (simp_all add: chan_recv_def chan_drop_def split: list.splits)

section \<open>Steps\<close>

text \<open>
  One atomic operation of a session or of the pruning task at clock reading \<open>now\<close>.  Sessions
  register machines with \<open>last_seen: now_ms()\<close>.
\<close>

inductive reg_step :: "registry \<Rightarrow> u64 \<Rightarrow> registry \<Rightarrow> bool" where
  Register: "mi_last_seen info = now \<Longrightarrow> reg_step R now (snd (register d info R))"
| Subscribe: "reg_step R now (snd (subscribe d R))"
| Unsubscribe: "reg_step R now (unsubscribe d ch R)"
| Beat: "reg_step R now (heartbeat_refresh now d mid R)"
| Broadcast: "reg_step R now (broadcast d f R)"
| BroadcastExcept: "reg_step R now (broadcast_except d f ch R)"
| PruneRemove: "reg_step R now (prune_remove now d info R)"
| ChanRecv: "reg_step R now (snd (chan_recv ch R))"
| ChanDrop: "reg_step R now (chan_drop ch R)"

inductive reg_run :: "registry \<Rightarrow> u64 list \<Rightarrow> registry \<Rightarrow> bool" where
  RunNil: "reg_run R [] R"
| RunCons: "reg_step R now R1 \<Longrightarrow> reg_run R1 ts R2 \<Longrightarrow> reg_run R (now # ts) R2"

inductive_cases reg_run_ConsE: "reg_run R (now # ts) R2"

lemma reg_step_ok: "reg_step R now R' \<Longrightarrow> reg_ok R \<Longrightarrow> reg_ok R'"
  by (induction rule: reg_step.induct)
    (auto intro: register_ok subscribe_ok unsubscribe_ok heartbeat_ok prune_remove_ok
      elim: reg_ok_tenants)

lemma reg_ok_default: "reg_ok registry_default"
  by (simp add: reg_ok_def registry_default_def subs_of_def)

lemma online_machine_frame [simp]:
  "online_machine e k (broadcast d f R) = online_machine e k R"
  "online_machine e k (broadcast_except d f x R) = online_machine e k R"
  "online_machine e k (snd (chan_recv ch R)) = online_machine e k R"
  "online_machine e k (chan_drop ch R) = online_machine e k R"
  by (simp_all add: online_machine_def)

lemma online_machine_register: "online_machine e k (snd (register d info R)) =
    (if e = d \<and> k = mi_machine_id info then Some info else online_machine e k R)"
  by (auto simp: online_machine_def register_def Let_def tenant_or_default_def split: option.splits)

lemma online_machine_subscribe [simp]: "online_machine e k (snd (subscribe d R)) = online_machine e k R"
  by (auto simp: online_machine_def subscribe_def Let_def tenant_or_default_def split: option.splits)

lemma online_machine_unsubscribe [simp]: "online_machine e k (unsubscribe d ch R) = online_machine e k R"
  by (auto simp: online_machine_def unsubscribe_def split: option.splits)

lemma online_machine_heartbeat: "online_machine e k (heartbeat_refresh now d mid R) =
    (if e = d \<and> k = mid then map_option (\<lambda>m. m\<lparr>mi_last_seen := now\<rparr>) (online_machine e k R)
     else online_machine e k R)"
  by (auto simp: online_machine_def heartbeat_refresh_def split: option.splits)

lemma online_machine_prune: "online_machine e k (prune_remove now d info R) =
    (if e = d \<and> k = mi_machine_id info then
       (case online_machine e k R of Some m \<Rightarrow> if stale_at now m then None else Some m | None \<Rightarrow> None)
     else online_machine e k R)"
  by (auto simp: online_machine_def prune_remove_def split: option.splits)

lemmas online_machine_simps = online_machine_register online_machine_heartbeat online_machine_prune

text \<open>A machine seen since \<open>t0\<close> survives a step that is not later than \<open>t0\<close> plus the limit.\<close>

lemma reg_step_keeps_online:
  assumes "reg_step R now R'" and "online_machine d k R = Some m" and "t0 \<le> mi_last_seen m"
    and "t0 \<le> now" and "saturating_sub now OFFLINE_AFTER \<le> t0"
  shows "\<exists>m'. online_machine d k R' = Some m' \<and> t0 \<le> mi_last_seen m'"
  using assms
proof (induction rule: reg_step.induct)
  case (PruneRemove R now e info)
  then have "\<not> stale_at now m" by (auto simp: stale_at_def)
  with PruneRemove show ?case by (auto simp: online_machine_prune)
qed (auto simp: online_machine_register online_machine_heartbeat)

section \<open>Broadcasts\<close>

lemma broadcast_queue:
  assumes "reg_ok R"
  shows "queue (chans (broadcast d f R) c) = queue (chans R c) @
    (if c \<in> set (subs_of d R) \<and> alive (chans R c) then [f] else [])"
    and "alive (chans (broadcast d f R) c) = alive (chans R c)"
proof -
  have "count_list (subs_of d R) c = (if c \<in> set (subs_of d R) then 1 else 0)"
    using reg_ok_tenantD [OF assms, of d]
    by (cases "hm_get (tenants R) d") (auto simp: tenant_ok_def count_list_0_iff count_list_1 [simplified])
  then show "queue (chans (broadcast d f R) c) = queue (chans R c) @
      (if c \<in> set (subs_of d R) \<and> alive (chans R c) then [f] else [])"
    by (cases "hm_get (tenants R) d") (auto simp: broadcast_def fold_send)
  show "alive (chans (broadcast d f R) c) = alive (chans R c)"
    by (simp add: broadcast_def fold_send split: option.splits)
qed

lemma broadcast_except_queue:
  assumes "reg_ok R"
  shows "queue (chans (broadcast_except d f x R) c) = queue (chans R c) @
    (if c \<in> set (subs_of d R) \<and> c \<noteq> x \<and> alive (chans R c) then [f] else [])"
proof -
  have "count_list (filter (\<lambda>ch. ch \<noteq> x) (subs_of d R)) c =
      (if c \<in> set (subs_of d R) \<and> c \<noteq> x then 1 else 0)"
    using reg_ok_tenantD [OF assms, of d]
    by (cases "hm_get (tenants R) d") (auto simp: tenant_ok_def count_list_0_iff count_list_1 [simplified])
  then show ?thesis
    by (cases "hm_get (tenants R) d") (auto simp: broadcast_except_def fold_send_except fold_send)
qed

section \<open>A pruning round\<close>

lemma prune_scan_iff:
  assumes "\<And>i. clk i = now"
  shows "(d, m) \<in> set (prune_scan clk i ts) \<longleftrightarrow>
    (\<exists>t. (d, t) \<in> set ts \<and> m \<in> set (hm_values (machines t)) \<and> stale_at now m)"
  by (induction ts arbitrary: i) (auto simp: assms)

lemma fold_enumerate_const: "fold (\<lambda>(i, x). g x) (enumerate n xs) R = fold g xs R"
  by (induction xs arbitrary: n R) auto

lemma prune_one_online: "online_machine e k (prune_one S now (d, info) R) =
    online_machine e k (prune_remove now d info R)"
  by (simp add: prune_one_def online_machine_def)

lemma prune_one_ok: "reg_ok R \<Longrightarrow> reg_ok (prune_one S now x R)"
  by (cases x) (auto simp: prune_one_def intro: reg_ok_tenants [OF prune_remove_ok])

lemma prune_remove_simps [simp]:
  "subs_of e (prune_remove now d info R) = subs_of e R" "chans (prune_remove now d info R) = chans R"
proof -
  have "subs_of e (R\<lparr>tenants := hm_insert d (t\<lparr>machines := ms\<rparr>) (tenants R)\<rparr>) = subs_of e R"
    if "hm_get (tenants R) d = Some t" for t ms
    using that by (cases "e = d") (simp_all add: subs_of_def)
  then show "subs_of e (prune_remove now d info R) = subs_of e R" "chans (prune_remove now d info R) = chans R"
    by (simp_all add: prune_remove_def split: option.split)
qed

lemma subs_of_broadcast [simp]: "subs_of e (broadcast d f R) = subs_of e R"
  by (simp add: subs_of_def)

lemma subs_of_prune_one [simp]: "subs_of e (prune_one S now (d, info) R) = subs_of e R"
  by (simp add: prune_one_def)

lemma fold_prune_online:
  "online_machine e k (fold (prune_one S now) xs R) =
    (if \<exists>info. (e, info) \<in> set xs \<and> mi_machine_id info = k
     then (case online_machine e k R of Some m \<Rightarrow> if stale_at now m then None else Some m | None \<Rightarrow> None)
     else online_machine e k R)"
proof (induction xs arbitrary: R)
  case (Cons x xs)
  obtain d info where x: "x = (d, info)" by (cases x)
  show ?case
    by (cases "online_machine e k R")
      (auto simp: Cons x prune_one_online online_machine_prune)
qed simp

lemma fold_prune_queue:
  assumes "reg_ok R" and "c \<in> set (subs_of e R)" and "alive (chans R c)"
  shows "queue (chans (fold (prune_one S now) xs R) c) =
    queue (chans R c) @ map (\<lambda>(d, info). leave_frame S info) (filter (\<lambda>(d, info). d = e) xs)"
  using assms
proof (induction xs arbitrary: R)
  case (Cons x xs)
  obtain d info where x: "x = (d, info)" by (cases x)
  let ?P = "prune_remove now d info R"
  have P: "reg_ok ?P" using prune_remove_ok [OF Cons.prems(1)] .
  have "c \<in> set (subs_of d R) \<longleftrightarrow> d = e"
    using Cons.prems(2) reg_ok_one_tenant [OF Cons.prems(1)] by blast
  then have "queue (chans (prune_one S now x R) c) =
      queue (chans R c) @ (if d = e then [leave_frame S info] else [])"
    using broadcast_queue(1) [OF P, of d "leave_frame S info" c] Cons.prems(3)
    by (simp add: prune_one_def x)
  moreover have "alive (chans (prune_one S now x R) c)"
    using broadcast_queue(2) [OF P] Cons.prems(3) by (simp add: prune_one_def x)
  ultimately show ?case
    using Cons.IH [OF prune_one_ok [OF Cons.prems(1), of S now x]] Cons.prems(2) x by simp
qed simp

section \<open>Properties\<close>

text \<open>
  C28: the registry's invariant holds in every reachable state: in each tenant the machines are
  filed under their own ids and the subscribers are distinct channels, and no channel subscribes
  to two tenants.
\<close>

theorem registry_invariant:
  assumes "reg_run registry_default ts R"
  shows "reg_ok R"
proof -
  have "reg_run Q ts R \<Longrightarrow> reg_ok Q \<Longrightarrow> reg_ok R" for Q
    by (induction rule: reg_run.induct) (auto intro: reg_step_ok)
  with assms reg_ok_default show ?thesis by blast
qed

definition sample_machine :: "string \<Rightarrow> u64 \<Rightarrow> machine_info" where
  "sample_machine k t = \<lparr>mi_machine_id = k, mi_agents = [], mi_addr = [], mi_peer_addr = [],
     mi_machine_pubkey = [], mi_last_seen = t\<rparr>"

theorem registry_invariant_witness:
  "reg_ok (snd (subscribe ''d'' (snd (register ''d'' (sample_machine ''m'' 5) registry_default))))"
proof (rule registry_invariant)
  show "reg_run registry_default [5, 6]
      (snd (subscribe ''d'' (snd (register ''d'' (sample_machine ''m'' 5) registry_default))))"
    by (rule RunCons [OF Register RunCons [OF Subscribe RunNil]]) (simp add: sample_machine_def)
qed

text \<open>
  A machine stays online as long as it is heard from: once it was seen at \<open>t0\<close> or later, no
  sequence of operations within the offline limit of \<open>t0\<close>, by whatever sessions and pruning
  rounds, takes it off the list.
\<close>

theorem seen_machine_stays_online:
  assumes "reg_run R ts R'" and "online_machine d k R = Some m" and "t0 \<le> mi_last_seen m"
    and "\<forall>now \<in> set ts. t0 \<le> now \<and> saturating_sub now OFFLINE_AFTER \<le> t0"
  shows "\<exists>m'. online_machine d k R' = Some m' \<and> t0 \<le> mi_last_seen m'"
  using assms
proof (induction arbitrary: m rule: reg_run.induct)
  case (RunCons R now R1 ts R2)
  from reg_step_keeps_online [OF RunCons.hyps(1) RunCons.prems(1,2)] RunCons.prems(3)
  obtain m' where "online_machine d k R1 = Some m'" "t0 \<le> mi_last_seen m'" by auto
  with RunCons.IH RunCons.prems(3) show ?case by auto
qed auto

theorem seen_machine_stays_online_witness:
  "\<exists>m'. online_machine ''d'' ''m'' (prune_remove 30005 ''d'' (sample_machine ''m'' 0)
      (snd (register ''d'' (sample_machine ''m'' 5) registry_default))) = Some m'"
proof -
  let ?R = "snd (register ''d'' (sample_machine ''m'' 5) registry_default)"
  have "reg_run ?R [30005] (prune_remove 30005 ''d'' (sample_machine ''m'' 0) ?R)"
    by (rule RunCons [OF PruneRemove RunNil])
  from seen_machine_stays_online [OF this, of "''d''" "''m''" "sample_machine ''m'' 5" 5]
  show ?thesis
    by (auto simp: online_machine_register sample_machine_def saturating_sub_def OFFLINE_AFTER_def)
qed

text \<open>
  C29: a broadcast reaches every subscriber of its tenant with a live receiver exactly once,
  behind what is already queued, and nobody else; \<open>broadcast_except\<close> leaves out the excepted
  channel only.
\<close>

theorem broadcast_delivery:
  assumes "reg_ok R"
  shows "queue (chans (broadcast d f R) c) = queue (chans R c) @
      (if c \<in> set (subs_of d R) \<and> alive (chans R c) then [f] else []) \<and>
    queue (chans (broadcast_except d f x R) c) = queue (chans R c) @
      (if c \<in> set (subs_of d R) \<and> c \<noteq> x \<and> alive (chans R c) then [f] else []) \<and>
    (\<forall>e. e \<noteq> d \<longrightarrow> c \<in> set (subs_of e R) \<longrightarrow> queue (chans (broadcast d f R) c) = queue (chans R c))"
  using broadcast_queue(1) [OF assms] broadcast_except_queue [OF assms] reg_ok_one_tenant [OF assms, of c d]
  by auto

theorem broadcast_delivery_witness:
  "let R = snd (subscribe ''d'' registry_default) in
   queue (chans (broadcast ''d'' (frame_new Heartbeat 0 []) R) 0) = [frame_new Heartbeat 0 []]"
  using broadcast_delivery [OF subscribe_ok [OF reg_ok_default],
      of "''d''" "frame_new Heartbeat 0 []" "''d''" 0]
  by (simp add: Let_def subscribe_def registry_default_def tenant_or_default_def subs_of_def hm_get_def
      hm_insert_def)

text \<open>
  A round of pruning at one clock reading takes off the list exactly the machines that have
  not been seen for the offline limit, in every tenant, and every live subscriber of a tenant
  gets one leave notification for each of them, in the order of the scan.
\<close>

theorem prune_round_exact:
  assumes "reg_ok R" and "\<And>i. clk i = now"
  shows "online_machine d k (prune_round S clk R) =
      (case online_machine d k R of Some m \<Rightarrow> if stale_at now m then None else Some m | None \<Rightarrow> None) \<and>
    (c \<in> set (subs_of d R) \<and> alive (chans R c) \<longrightarrow>
      queue (chans (prune_round S clk R) c) = queue (chans R c) @
        map (\<lambda>(e, info). leave_frame S info) (filter (\<lambda>(e, info). e = d) (prune_scan clk 0 (tenants R))))"
proof -
  have fold: "prune_round S clk R = fold (prune_one S now) (prune_scan clk 0 (tenants R)) R"
    by (simp add: prune_round_def assms(2) fold_enumerate_const)
  have stale: "(\<exists>info. (d, info) \<in> set (prune_scan clk 0 (tenants R)) \<and> mi_machine_id info = k) \<longleftrightarrow>
      (\<exists>m. online_machine d k R = Some m \<and> stale_at now m)"
  proof -
    have "(d, info) \<in> set (prune_scan clk 0 (tenants R)) \<longleftrightarrow>
        (\<exists>j. online_machine d j R = Some info) \<and> stale_at now info" for info
    proof -
      have "hm_ok (tenants R)" using assms(1) by (simp add: reg_ok_def)
      from hm.entries_get [OF this, of d] show ?thesis
        using reg_ok_machinesD(1) [OF assms(1), of d]
        by (cases "hm_get (tenants R) d")
          (simp_all add: prune_scan_iff [OF assms(2)] online_machine_def hm_values_iff)
    qed
    moreover have "mi_machine_id info = j" if "online_machine d j R = Some info" for info j
      using that reg_ok_machinesD(2) [OF assms(1), of d] by (auto simp: online_machine_def split: option.splits)
    ultimately show ?thesis by blast
  qed
  show ?thesis
    unfolding fold fold_prune_online stale
    using fold_prune_queue [OF assms(1)] by (auto split: option.split)
qed

theorem prune_round_exact_witness:
  "online_machine ''d'' ''m'' (prune_round no_serde
     (\<lambda>_. 30006) (snd (register ''d'' (sample_machine ''m'' 5) registry_default))) = None"
  by (subst prune_round_exact [THEN conjunct1, OF register_ok [OF reg_ok_default] refl])
    (simp add: online_machine_register sample_machine_def stale_at_def saturating_sub_def OFFLINE_AFTER_def)

text \<open>
  Pruning has a race.  A machine that refreshes its heartbeat between the scan and the
  removal stays online, but the leave notification found by the scan is broadcast all the same.
\<close>

theorem prune_race_spurious_leave:
  assumes "reg_ok R" and "c \<in> set (subs_of d R)" and "alive (chans R c)"
    and "online_machine d (mi_machine_id info) R = Some m" and "saturating_sub now OFFLINE_AFTER \<le> t"
  shows "let R' = prune_one S now (d, info) (heartbeat_refresh t d (mi_machine_id info) R) in
    online_machine d (mi_machine_id info) R' = Some (m\<lparr>mi_last_seen := t\<rparr>) \<and>
    queue (chans R' c) = queue (chans R c) @ [leave_frame S info]"
proof -
  let ?H = "heartbeat_refresh t d (mi_machine_id info) R"
  have H: "reg_ok ?H" "online_machine d (mi_machine_id info) ?H = Some (m\<lparr>mi_last_seen := t\<rparr>)"
    using heartbeat_ok [OF assms(1)] assms(4) by (auto simp: online_machine_heartbeat)
  have same: "chans ?H = chans R" "subs_of d ?H = subs_of d R"
    by (auto simp: heartbeat_refresh_def subs_of_def split: option.split)
  have "\<not> stale_at now (m\<lparr>mi_last_seen := t\<rparr>)" using assms(5) by (simp add: stale_at_def)
  then have "online_machine d (mi_machine_id info) (prune_one S now (d, info) ?H) = Some (m\<lparr>mi_last_seen := t\<rparr>)"
    using H(2) by (simp add: prune_one_online online_machine_prune)
  moreover have "queue (chans (prune_one S now (d, info) ?H) c) = queue (chans R c) @ [leave_frame S info]"
    using fold_prune_queue [OF H(1), of c d S now "[(d, info)]"] assms(2,3) same by simp
  ultimately show ?thesis by (simp add: Let_def)
qed

theorem prune_race_spurious_leave_witness:
  "let R = snd (subscribe ''d'' (snd (register ''d'' (sample_machine ''m'' 5) registry_default)));
       R' = prune_one no_serde 40000 (''d'', sample_machine ''m'' 5) (heartbeat_refresh 39000 ''d'' ''m'' R)
   in queue (chans R' 0) = [leave_frame no_serde (sample_machine ''m'' 5)]"
proof -
  let ?R = "snd (subscribe ''d'' (snd (register ''d'' (sample_machine ''m'' 5) registry_default)))"
  have ok: "reg_ok ?R" by (intro subscribe_ok register_ok reg_ok_default)
  have sub: "0 \<in> set (subs_of ''d'' ?R)" "alive (chans ?R 0)" "queue (chans ?R 0) = []"
    by (simp_all add: subscribe_def register_def registry_default_def Let_def tenant_or_default_def
        subs_of_def hm_get_def hm_insert_def)
  have on: "online_machine ''d'' (mi_machine_id (sample_machine ''m'' 5)) ?R = Some (sample_machine ''m'' 5)"
    by (simp add: online_machine_register)
  from prune_race_spurious_leave [OF ok sub(1,2) on, of 40000 39000 no_serde] sub(3) show ?thesis
    by (simp add: Let_def saturating_sub_def OFFLINE_AFTER_def sample_machine_def)
qed

end
