(* ===== verification/Tenants.thy ===== *)
theory Tenants
  imports Crypto
begin

text \<open>
  The tenant store of \<open>nsmt-server/src/tenants.rs\<close>: the domain keys and machine keys of each
  tenant, signature checks of AUTH and REGISTER, and the file \<open>tenants.json\<close>.  The JSON of the
  file goes through the parameter \<open>tenants_json\<close>, which stands for \<open>serde_json\<close>.
\<close>

record tenant_record =
  tr_domain_pubkey :: string
  tr_machines :: "(string, string) hmap"

definition tenant_record_default :: tenant_record where
  "tenant_record_default = \<lparr>tr_domain_pubkey = [], tr_machines = []\<rparr>"

type_synonym tenant_store = "(string, tenant_record) hmap"

record tenants_json =
  tenants_to_vec_pretty :: "tenant_store \<Rightarrow> bytes option"
  tenants_from_str :: "string \<Rightarrow> tenant_store option"

text \<open>
  What is used of \<open>serde_json\<close>: the text is UTF-8, and reading it gives the same table, in
  whatever order.
\<close>

definition tenants_json_law :: "tenants_json \<Rightarrow> tenant_store \<Rightarrow> bool" where
  "tenants_json_law J g \<longleftrightarrow> (\<exists>b s g'. tenants_to_vec_pretty J g = Some b \<and> from_utf8 b = Some s \<and>
     tenants_from_str J s = Some g' \<and> (\<forall>d. hm_get g' d = hm_get g d))"

definition tenants_path :: "env \<Rightarrow> path" where
  "tenants_path env =
     join (case env ''NSMT_HOME'' of
             Some h \<Rightarrow> h
           | None \<Rightarrow> (case env ''HOME'' of Some h \<Rightarrow> join h ''.nsmt'' | None \<Rightarrow> ''.nsmt''))
       ''tenants.json''"

definition reload :: "tenants_json \<Rightarrow> env \<Rightarrow> fs \<Rightarrow> tenant_store \<Rightarrow> (nsmt_error + unit) \<times> tenant_store" where
  "reload J env F g =
     (let p = tenants_path env in
      if \<not> fs_exists F p then (Inr (), g)
      else (case fs_read_to_string F p of
              Inl e \<Rightarrow> (Inl (Io e), g)
            | Inr raw \<Rightarrow>
               (case tenants_from_str J raw of
                  None \<Rightarrow> (Inl Json, g)
                | Some file \<Rightarrow> (Inr (), file))))"

definition load :: "tenants_json \<Rightarrow> env \<Rightarrow> fs \<Rightarrow> tenant_store" where
  "load J env F = snd (reload J env F [])"

definition persist :: "tenants_json \<Rightarrow> env \<Rightarrow> tenant_store \<Rightarrow> fs \<Rightarrow> (nsmt_error + unit) \<times> fs" where
  "persist J env g F =
     (case fs_create_dir_all (parent (tenants_path env)) F of
        Inl e \<Rightarrow> (Inl (Io e), F)
      | Inr F1 \<Rightarrow>
         (case tenants_to_vec_pretty J g of
            None \<Rightarrow> (Inl Json, F1)
          | Some json \<Rightarrow>
             (case fs_write (tenants_path env) json F1 of
                Inl e \<Rightarrow> (Inl (Io e), F1)
              | Inr F2 \<Rightarrow> (Inr (), F2))))"

definition tenant_count :: "tenant_store \<Rightarrow> nat" where
  "tenant_count g = length g"

definition all_tenants :: "tenant_store \<Rightarrow> tenant_store" where
  "all_tenants g = g"

definition set_domain_pubkey :: "string \<Rightarrow> string \<Rightarrow> tenant_store \<Rightarrow> tenant_store" where
  "set_domain_pubkey domain pubkey g =
     hm_insert domain
       ((case hm_get g domain of Some t \<Rightarrow> t | None \<Rightarrow> tenant_record_default)\<lparr>tr_domain_pubkey := pubkey\<rparr>) g"

definition upsert_tenant ::
  "tenants_json \<Rightarrow> env \<Rightarrow> string \<Rightarrow> string \<Rightarrow> tenant_store \<times> fs \<Rightarrow> (nsmt_error + unit) \<times> tenant_store \<times> fs" where
  "upsert_tenant J env domain pubkey s =
     (case s of (g, F) \<Rightarrow>
        let g' = set_domain_pubkey domain pubkey g;
            (r, F') = persist J env g' F
        in (r, g', F'))"

definition verify_auth :: "crates \<Rightarrow> string \<Rightarrow> string \<Rightarrow> string \<Rightarrow> tenant_store \<Rightarrow> string + unit" where
  "verify_auth C domain nonce signature g =
     (case hm_get g domain of
        Some t \<Rightarrow>
          if verify C (tr_domain_pubkey t) (as_bytes nonce) signature then Inr ()
          else Inl ''auth_failed''
      | None \<Rightarrow> Inl ''tenant_not_found'')"

definition register_msg :: "string \<Rightarrow> string \<Rightarrow> string" where
  "register_msg machine_id agent_tag = machine_id @ [CHR 0x0A] @ agent_tag"

definition verify_register ::
  "crates \<Rightarrow> string \<Rightarrow> string \<Rightarrow> string \<Rightarrow> string \<Rightarrow> string \<Rightarrow> tenant_store \<Rightarrow> (string + unit) \<times> tenant_store" where
  "verify_register C domain machine_id agent_tag machine_pubkey signature g =
     (if \<not> verify C machine_pubkey (as_bytes (register_msg machine_id agent_tag)) signature
      then (Inl ''bad_machine_signature'', g)
      else (case hm_get g domain of
              None \<Rightarrow> (Inl ''tenant_not_found'', g)
            | Some t \<Rightarrow>
               (case hm_get (tr_machines t) machine_id of
                  Some existing \<Rightarrow>
                    if existing \<noteq> machine_pubkey then (Inl ''machine_hijack_detected'', g)
                    else (Inr (), g)
                | None \<Rightarrow>
                    (Inr (), hm_insert domain
                       (t\<lparr>tr_machines := hm_insert machine_id machine_pubkey (tr_machines t)\<rparr>) g))))"

section \<open>Bindings\<close>

text \<open>The key a machine of a tenant is bound to.\<close>

definition bound_key :: "tenant_store \<Rightarrow> string \<Rightarrow> string \<Rightarrow> string option" where
  "bound_key g d mid = (case hm_get g d of None \<Rightarrow> None | Some t \<Rightarrow> hm_get (tr_machines t) mid)"

lemma bound_key_set_domain [simp]: "bound_key (set_domain_pubkey e pk g) d mid = bound_key g d mid"
  by (auto simp: bound_key_def set_domain_pubkey_def tenant_record_default_def hm.get_empty split: option.split)

lemma verify_register_bound:
  "bound_key (snd (verify_register C e mid tag pk sig g)) d k =
     (if fst (verify_register C e mid tag pk sig g) = Inr () \<and> d = e \<and> k = mid then Some pk
      else bound_key g d k)"
  by (auto simp: bound_key_def verify_register_def split: option.split)

lemma verify_register_hijack:
  assumes "bound_key g d mid = Some pk" and "pk' \<noteq> pk"
  shows "fst (verify_register C d mid tag pk' sig g) \<noteq> Inr ()"
  using assms by (auto simp: bound_key_def verify_register_def split: option.splits)

text \<open>The operations that sessions and the control API perform on the shared table.\<close>

datatype tenant_op =
    Upsert string string
  | VerifyAuth string string string
  | VerifyRegister string string string string string

fun tenant_exec :: "crates \<Rightarrow> tenant_op \<Rightarrow> tenant_store \<Rightarrow> (string + unit) \<times> tenant_store" where
  "tenant_exec C (Upsert d pk) g = (Inr (), set_domain_pubkey d pk g)"
| "tenant_exec C (VerifyAuth d nonce sig) g = (verify_auth C d nonce sig g, g)"
| "tenant_exec C (VerifyRegister d mid tag pk sig) g = verify_register C d mid tag pk sig g"

fun tenant_run :: "crates \<Rightarrow> tenant_op list \<Rightarrow> tenant_store \<Rightarrow> (string + unit) list \<times> tenant_store" where
  "tenant_run C [] g = ([], g)"
| "tenant_run C (op # ops) g =
     (case tenant_exec C op g of (r, g1) \<Rightarrow> case tenant_run C ops g1 of (rs, g2) \<Rightarrow> (r # rs, g2))"

fun claims :: "string \<Rightarrow> string \<Rightarrow> string \<Rightarrow> tenant_op \<Rightarrow> bool" where
  "claims d mid pk (VerifyRegister d' mid' tag pk' sig) = (d' = d \<and> mid' = mid \<and> pk' \<noteq> pk)"
| "claims d mid pk op = False"

lemma tenant_exec_bound:
  assumes "bound_key g d mid = Some pk"
  shows "bound_key (snd (tenant_exec C op g)) d mid = Some pk \<and>
    (claims d mid pk op \<longrightarrow> (\<exists>e. fst (tenant_exec C op g) = Inl e))"
proof (cases op)
  case (VerifyRegister d' mid' tag pk' sig)
  have "fst (verify_register C d mid tag pk' sig g) = Inr () \<Longrightarrow> pk' = pk"
    using verify_register_hijack [OF assms] by blast
  moreover have "x = Inr () \<or> (\<exists>e. x = Inl e)" for x :: "string + unit" by (cases x) auto
  ultimately show ?thesis using assms by (auto simp: VerifyRegister verify_register_bound)
qed (simp_all add: assms)

section \<open>The file\<close>

lemma persist_reload:
  assumes "tenants_json_law J g" and "persist J env g F = (Inr (), F')"
  shows "\<exists>g'. reload J env F' h = (Inr (), g') \<and> (\<forall>d. hm_get g' d = hm_get g d)"
proof -
  from assms(1) obtain b s g' where b: "tenants_to_vec_pretty J g = Some b" "from_utf8 b = Some s"
      "tenants_from_str J s = Some g'" "\<forall>d. hm_get g' d = hm_get g d"
    by (auto simp: tenants_json_law_def)
  obtain F1 where "fs_write (tenants_path env) b F1 = Inr F'"
    using assms(2) b(1) by (auto simp: persist_def split: sum.splits)
  from fs_write_read [OF this] have rd: "fs_read F' (tenants_path env) = Inr b" .
  then have "fs_exists F' (tenants_path env)"
    by (cases "resolve F' (tenants_path env)") (auto simp: fs_read_def fs_exists_def split: option.splits)
  with rd b show ?thesis by (simp add: reload_def Let_def fs_read_to_string_def)
qed

section \<open>Properties\<close>

text \<open>
  C7: machine ids cannot be hijacked.  Once a machine id of a tenant is bound to a public key,
  no sequence of registrations, authentications and key updates changes the binding, and every
  registration of this id with another key is refused.
\<close>

theorem machine_binding_permanent:
  assumes "bound_key g d mid = Some pk" and "tenant_run C ops g = (rs, g')"
  shows "bound_key g' d mid = Some pk \<and>
    (\<forall>i < length ops. claims d mid pk (ops ! i) \<longrightarrow> (\<exists>e. rs ! i = Inl e))"
  using assms
proof (induction ops arbitrary: g rs)
  case (Cons op ops)
  obtain r g1 where r: "tenant_exec C op g = (r, g1)" by (cases "tenant_exec C op g")
  with Cons.prems(2) obtain rs1 where rs: "tenant_run C ops g1 = (rs1, g')" "rs = r # rs1"
    by (auto split: prod.splits)
  from tenant_exec_bound [OF Cons.prems(1), of C op] r
  have "bound_key g1 d mid = Some pk" "claims d mid pk op \<longrightarrow> (\<exists>e. r = Inl e)" by auto
  with Cons.IH [OF _ rs(1)] rs(2) show ?case by (auto simp: nth_Cons split: nat.split)
qed simp

theorem machine_binding_permanent_witness:
  "fst (tenant_run sample_crates [Upsert ''d'' ''ff'', VerifyRegister ''d'' ''m'' ''t'' ''bb'' ''cc'']
      [(''d'', \<lparr>tr_domain_pubkey = ''00'', tr_machines = [(''m'', ''aa'')]\<rparr>)]) ! 1 \<noteq> Inr ()"
proof -
  let ?g = "[(''d'', \<lparr>tr_domain_pubkey = ''00'', tr_machines = [(''m'', ''aa'')]\<rparr>)]"
  let ?ops = "[Upsert ''d'' ''ff'', VerifyRegister ''d'' ''m'' ''t'' ''bb'' ''cc'']"
  have b: "bound_key ?g ''d'' ''m'' = Some ''aa''" by (simp add: bound_key_def hm_get_def)
  obtain rs g' where r: "tenant_run sample_crates ?ops ?g = (rs, g')"
    by (cases "tenant_run sample_crates ?ops ?g")
  from machine_binding_permanent [OF b r] have "\<exists>e. rs ! 1 = Inl e"
    by (auto dest!: conjunct2 spec [of _ 1])
  with r show ?thesis by auto
qed

text \<open>
  Authentication is decided by the tenant's key: it succeeds if and only if the tenant is
  known and the signature of the nonce verifies under its domain key; an honest client that
  signs the nonce with the registered domain key is always accepted.
\<close>

theorem verify_auth_exact:
  assumes "hex_law C" and "ed25519_law C"
  shows "(verify_auth C d nonce sig g = Inr () \<longleftrightarrow>
      (\<exists>t. hm_get g d = Some t \<and> verify C (tr_domain_pubkey t) (as_bytes nonce) sig)) \<and>
    verify_auth C d nonce (sign C (generate C rnd) (as_bytes nonce))
      (set_domain_pubkey d (public_hex C (generate C rnd)) g) = Inr ()"
  using sign_verify_any [OF assms]
  by (auto simp: verify_auth_def set_domain_pubkey_def generate_def split: option.splits)

theorem verify_auth_exact_witness:
  "verify_auth sample_crates ''d'' ''n'' (sign sample_crates (generate sample_crates [3]) (as_bytes ''n''))
     (set_domain_pubkey ''d'' (public_hex sample_crates (generate sample_crates [3])) []) = Inr ()"
  using verify_auth_exact [OF sample_crates_laws(1,2)] by blast

text \<open>
  A tenant added through \<open>upsert_tenant\<close> survives a restart: when the call reports success,
  a server that loads the file has the same table.
\<close>

theorem upsert_tenant_persistent:
  assumes "upsert_tenant J env d pk (g, F) = (Inr (), g', F')" and "tenants_json_law J g'"
  shows "\<forall>e. hm_get (load J env F') e = hm_get g' e \<and>
    map_option tr_domain_pubkey (hm_get (load J env F') d) = Some pk"
proof -
  from assms(1) have g': "g' = set_domain_pubkey d pk g" and "persist J env g' F = (Inr (), F')"
    by (auto simp: upsert_tenant_def Let_def split: prod.splits)
  from persist_reload [OF assms(2) this(2), of "[]"] g' show ?thesis
    by (auto simp: load_def set_domain_pubkey_def)
qed

theorem upsert_tenant_persistent_witness:
  "let J = \<lparr>tenants_to_vec_pretty = (\<lambda>g. Some (as_bytes ''{}'')),
        tenants_from_str = (\<lambda>s. Some (set_domain_pubkey ''d'' ''aa'' []))\<rparr>;
       env = [''NSMT_HOME'' \<mapsto> ''/h''];
       F' = snd (snd (upsert_tenant J env ''d'' ''aa'' ([], \<lparr>cwd = [], nodes = []\<rparr>)))
   in map_option tr_domain_pubkey (hm_get (load J env F') ''d'') = Some ''aa''"
proof -
  let ?J = "\<lparr>tenants_to_vec_pretty = (\<lambda>g. Some (as_bytes ''{}'')),
        tenants_from_str = (\<lambda>s. Some (set_domain_pubkey ''d'' ''aa'' []))\<rparr>"
  let ?env = "[''NSMT_HOME'' \<mapsto> ''/h'']" and ?F = "\<lparr>cwd = [], nodes = []\<rparr>"
  let ?u = "upsert_tenant ?J ?env ''d'' ''aa'' ([], ?F)"
  have u: "?u = (Inr (), set_domain_pubkey ''d'' ''aa'' [], snd (snd ?u))"
    by (simp add: upsert_tenant_def persist_def Let_def tenants_path_def parent_def join_def suffix_to_prefix
        fs_create_dir_all_def start_of_def set_node_def node_at_def hm_get_def hm_insert_def fs_write_def
        resolve_def parent_dir_def)
  have "tenants_json_law ?J (set_domain_pubkey ''d'' ''aa'' [])"
    by (simp add: tenants_json_law_def from_utf8_ascii)
  from upsert_tenant_persistent [OF u this]
  have "map_option tr_domain_pubkey (hm_get (load ?J ?env (snd (snd ?u))) ''d'') = Some ''aa''" by blast
  then show ?thesis by (simp only: Let_def)
qed

end
