(* ===== verification/Memory.thy ===== *)
theory Memory
  imports Messages Crypto "HOL-Library.Multiset"
begin

text \<open>
  Memory recall and capture: the gateway client of \<open>nsmt-memory/src/lib.rs\<close>, the sharded pool of
  \<open>nsmt-server/src/memory.rs\<close> and the local fallback of \<open>nsmt-client/src/memory.rs\<close>.

  The HTTP client (\<open>reqwest\<close>) and the gateways behind it are not part of the repository.  They
  are the parameter \<open>gateways\<close>: the outcome of sending a request (an error, or a response whose
  body may fail to arrive), and the JSON readers of the three response types.
\<close>

datatype jval = JStr string | JNum nat

record http_request =
  req_method :: string
  req_url :: string
  req_body :: "(string \<times> jval) list"
  req_timeout_ms :: nat

datatype http_error = HttpTimeout | HttpOther string

record recall_resp =
  rr_context :: string
  rr_strategy :: string
  rr_memory_count :: u32
  rr_code :: i64
  rr_message :: string

record capture_resp =
  cr_l0_recorded :: u32
  cr_scheduler_notified :: bool

record search_resp =
  sr_results :: string
  sr_total :: u32
  sr_strategy :: string

datatype memory_error = Http http_error | Gateway i64 string | Timeout

record gateways =
  http_send :: "http_request \<Rightarrow> http_error + (http_error + string)"
  de_recall_resp :: "string \<Rightarrow> recall_resp option"
  de_capture_resp :: "string \<Rightarrow> capture_resp option"
  de_search_resp :: "string \<Rightarrow> search_resp option"
  de_value :: "string \<Rightarrow> string option"

section \<open>Gateway client\<close>

record tencent_client =
  tc_base :: string
  tc_timeout :: nat

definition tencent_new :: "string \<Rightarrow> tencent_client" where
  "tencent_new base = \<lparr>tc_base = trim_end_matches CHR ''/'' base, tc_timeout = 1500\<rparr>"

definition with_timeout :: "nat \<Rightarrow> tencent_client \<Rightarrow> tencent_client" where
  "with_timeout t c = c\<lparr>tc_timeout := t\<rparr>"

text \<open>\<open>resp.json::<T>().await?\<close>: the body arrives and parses.\<close>

definition json_body :: "(string \<Rightarrow> 'a option) \<Rightarrow> http_error + string \<Rightarrow> memory_error + 'a" where
  "json_body de r =
     (case r of
        Inl e \<Rightarrow> Inl (Http e)
      | Inr body \<Rightarrow> (case de body of None \<Rightarrow> Inl (Http (HttpOther ''decode'')) | Some x \<Rightarrow> Inr x))"

definition health :: "gateways \<Rightarrow> tencent_client \<Rightarrow> memory_error + string" where
  "health G c =
     (case http_send G \<lparr>req_method = ''GET'', req_url = tc_base c @ ''/health'', req_body = [],
             req_timeout_ms = tc_timeout c\<rparr> of
        Inl e \<Rightarrow> Inl (Http e)
      | Inr r \<Rightarrow> json_body (de_value G) r)"

definition recall_request :: "tencent_client \<Rightarrow> string \<Rightarrow> string \<Rightarrow> http_request" where
  "recall_request c query session_key =
     \<lparr>req_method = ''POST'', req_url = tc_base c @ ''/recall'',
      req_body = [(''query'', JStr query), (''session_key'', JStr session_key)],
      req_timeout_ms = tc_timeout c\<rparr>"

definition tc_recall :: "gateways \<Rightarrow> tencent_client \<Rightarrow> string \<Rightarrow> string \<Rightarrow> memory_error + recall_resp" where
  "tc_recall G c query session_key =
     and_then (case http_send G (recall_request c query session_key) of
                 Inl HttpTimeout \<Rightarrow> Inl Timeout
               | Inl e \<Rightarrow> Inl (Http e)
               | Inr r \<Rightarrow> Inr r) (\<lambda>r.
     and_then (json_body (de_recall_resp G) r) (\<lambda>resp.
       if rr_code resp \<noteq> 0 then Inl (Gateway (rr_code resp) (rr_message resp)) else Inr resp))"

definition capture_request ::
  "tencent_client \<Rightarrow> string \<Rightarrow> string \<Rightarrow> string \<Rightarrow> string option \<Rightarrow> http_request" where
  "capture_request c user_content assistant_content session_key session_id =
     \<lparr>req_method = ''POST'', req_url = tc_base c @ ''/capture'',
      req_body = [(''user_content'', JStr user_content), (''assistant_content'', JStr assistant_content),
        (''session_key'', JStr session_key)] @
        (case session_id of None \<Rightarrow> [] | Some sid \<Rightarrow> [(''session_id'', JStr sid)]),
      req_timeout_ms = tc_timeout c\<rparr>"

definition tc_capture ::
  "gateways \<Rightarrow> tencent_client \<Rightarrow> string \<Rightarrow> string \<Rightarrow> string \<Rightarrow> string option \<Rightarrow> memory_error + capture_resp" where
  "tc_capture G c user_content assistant_content session_key session_id =
     (case http_send G (capture_request c user_content assistant_content session_key session_id) of
        Inl e \<Rightarrow> Inl (Http e)
      | Inr r \<Rightarrow> json_body (de_capture_resp G) r)"

definition search_memories :: "gateways \<Rightarrow> tencent_client \<Rightarrow> string \<Rightarrow> u32 \<Rightarrow> memory_error + search_resp" where
  "search_memories G c query limit =
     (case http_send G \<lparr>req_method = ''POST'', req_url = tc_base c @ ''/search/memories'',
             req_body = [(''query'', JStr query), (''limit'', JNum (unat limit))],
             req_timeout_ms = tc_timeout c\<rparr> of
        Inl e \<Rightarrow> Inl (Http e)
      | Inr r \<Rightarrow> json_body (de_search_resp G) r)"

section \<open>Memory pool\<close>

type_synonym memory_pool = "tencent_client list"

definition pool_new :: "string \<Rightarrow> memory_pool" where
  "pool_new base = [with_timeout 1500 (tencent_new base)]"

definition from_gateways :: "string list \<Rightarrow> memory_pool" where
  "from_gateways gs = map (\<lambda>g. with_timeout 1500 (tencent_new g)) gs"

definition shard_count :: "memory_pool \<Rightarrow> nat" where
  "shard_count pool = length pool"

text \<open>The remainder by an empty pool panics: \<open>None\<close>.\<close>

definition shard_for :: "crates \<Rightarrow> memory_pool \<Rightarrow> string \<Rightarrow> nat option" where
  "shard_for C pool fqn =
     (let h = sha256 C (as_bytes fqn);
          v = from_le (rev (take 8 h)) :: u64
      in if pool = [] then None else Some (unat v mod length pool))"

definition pool_hit :: "string \<Rightarrow> memory_hit" where
  "pool_hit context = \<lparr>mh_content = context, mh_fqn = [], mh_score = 0, mh_scope = ''user''\<rparr>"

definition session_key_of :: "memory_recall \<Rightarrow> string" where
  "session_key_of msg = ''pool:'' @ mr_request_id msg"

definition recall_one ::
  "gateways \<Rightarrow> tencent_client \<Rightarrow> memory_recall \<Rightarrow> u64 \<Rightarrow> memory_error + memory_recall_result" where
  "recall_one G shard msg elapsed =
     and_then (tc_recall G shard (mr_query msg) (session_key_of msg)) (\<lambda>resp.
       Inr \<lparr>mrr_request_id = mr_request_id msg, mrr_source = ''pool'',
            mrr_memories = (if trim (rr_context resp) \<noteq> [] then [pool_hit (rr_context resp)] else []),
            mrr_latency_ms = elapsed\<rparr>)"

text \<open>The loop over the answers of the shards: the hits and the number of failures.\<close>

fun gather :: "(memory_error + recall_resp) list \<Rightarrow> memory_hit list \<times> nat \<Rightarrow> memory_hit list \<times> nat" where
  "gather [] acc = acc"
| "gather (Inr resp # rs) (hits, failed) =
     gather rs ((if trim (rr_context resp) \<noteq> [] then hits @ [pool_hit (rr_context resp)] else hits), failed)"
| "gather (Inl e # rs) (hits, failed) = gather rs (hits, failed + 1)"

definition pool_recall ::
  "gateways \<Rightarrow> memory_pool \<Rightarrow> memory_recall \<Rightarrow> u64 \<Rightarrow> memory_error + memory_recall_result" where
  "pool_recall G pool msg elapsed =
     (if length pool = 1 then recall_one G (pool ! 0) msg elapsed
      else
        (let limit = unat (max (mr_limit msg) 1);
             answers = map (\<lambda>shard. tc_recall G shard (mr_query msg) (session_key_of msg)) pool;
             (hits, failed) = gather answers ([], 0)
         in Inr \<lparr>mrr_request_id = mr_request_id msg,
                 mrr_source = (if failed = length pool then ''pool_unavailable'' else ''pool''),
                 mrr_memories = take limit (sort_key mh_content hits),
                 mrr_latency_ms = elapsed\<rparr>))"

definition pool_capture ::
  "gateways \<Rightarrow> crates \<Rightarrow> memory_pool \<Rightarrow> memory_capture \<Rightarrow> (memory_error + memory_capture_result) option" where
  "pool_capture G C pool msg =
     (case shard_for C pool (mc_fqn msg) of
        None \<Rightarrow> None
      | Some i \<Rightarrow> Some
         (and_then (tc_capture G (pool ! i) (mc_user_content msg) (mc_assistant_content msg) (mc_fqn msg) None)
            (\<lambda>resp. Inr \<lparr>mcr_request_id = mc_request_id msg, mcr_committed = cr_l0_recorded resp > 0,
                        mcr_queued = False\<rparr>)))"

definition pool_from_env :: "env \<Rightarrow> memory_pool" where
  "pool_from_env env =
     (let base = (case env ''NSMT_POOL_GATEWAY'' of Some b \<Rightarrow> b | None \<Rightarrow> ''http://127.0.0.1:8420'') in
      case env ''NSMT_POOL_GATEWAYS'' of
        Some g \<Rightarrow>
          (let gs = filter (\<lambda>s. s \<noteq> []) (map (\<lambda>s. trim_end_matches CHR ''/'' (trim s)) (split_char CHR '','' g))
           in if gs \<noteq> [] then from_gateways gs else pool_new base)
      | None \<Rightarrow> pool_new base)"

section \<open>Local fallback of the client\<close>

definition fallback_from_env :: "env \<Rightarrow> tencent_client" where
  "fallback_from_env env =
     with_timeout 1500 (tencent_new
       (case env ''NSMT_LOCAL_GATEWAY'' of Some b \<Rightarrow> b | None \<Rightarrow> ''http://127.0.0.1:8420''))"

definition recall_local ::
  "gateways \<Rightarrow> tencent_client \<Rightarrow> string \<Rightarrow> string \<Rightarrow> memory_error + memory_recall_result" where
  "recall_local G local query request_id =
     and_then (tc_recall G local query (''local:'' @ request_id)) (\<lambda>resp.
       Inr \<lparr>mrr_request_id = request_id, mrr_source = ''local'',
            mrr_memories = (if trim (rr_context resp) \<noteq> [] then
               [\<lparr>mh_content = rr_context resp, mh_fqn = ''local'', mh_score = 0, mh_scope = ''machine''\<rparr>]
               else []),
            mrr_latency_ms = 0\<rparr>)"

definition capture_local ::
  "gateways \<Rightarrow> tencent_client \<Rightarrow> string \<Rightarrow> string \<Rightarrow> string \<Rightarrow> memory_error + unit" where
  "capture_local G local user assistant fqn =
     and_then (tc_capture G local user assistant fqn None) (\<lambda>_. Inr ())"

section \<open>Lemmas\<close>

fun contexts :: "(memory_error + recall_resp) list \<Rightarrow> string list" where
  "contexts [] = []"
| "contexts (Inr resp # rs) = (if trim (rr_context resp) \<noteq> [] then [rr_context resp] else []) @ contexts rs"
| "contexts (Inl e # rs) = contexts rs"

lemma gather_contexts:
  "gather rs (hits, n) = (hits @ map pool_hit (contexts rs), n + length (filter (\<lambda>r. \<exists>e. r = Inl e) rs))"
  by (induction rs "(hits, n)" arbitrary: hits n rule: gather.induct) auto

lemma contexts_iff:
  "c \<in> set (contexts rs) \<longleftrightarrow> (\<exists>resp. Inr resp \<in> set rs \<and> rr_context resp = c \<and> trim c \<noteq> [])"
  by (induction rs rule: contexts.induct) auto

lemma length_contexts: "length (contexts rs) \<le> length rs"
  by (induction rs rule: contexts.induct) auto

lemma filter_all_Inl: "length (filter (\<lambda>r. \<exists>e. r = Inl e) rs) = length rs \<longleftrightarrow> (\<forall>r \<in> set rs. \<exists>e. r = Inl e)"
proof (cases "\<forall>r \<in> set rs. \<exists>e. r = Inl e")
  case False
  then obtain r where "r \<in> set rs" "\<not> (\<exists>e. r = Inl e)" by blast
  then have "length (filter (\<lambda>r. \<exists>e. r = Inl e) rs) < length rs"
    by (intro length_filter_less [of r rs])
  then show ?thesis using False by simp
qed (simp add: filter_True)

lemma pool_from_env_not_Nil: "pool_from_env env \<noteq> []"
  by (simp add: pool_from_env_def pool_new_def from_gateways_def Let_def split: option.split)

section \<open>Properties\<close>

text \<open>
  C36: aggregation over several shards.  The answer holds at most \<open>max limit 1\<close> memories, in the
  order of their contents, each the non-blank context of some shard; when the limit allows it,
  all of them are there; and the pool is reported unavailable if and only if every shard failed.
\<close>

theorem pool_recall_aggregates:
  assumes "length pool \<noteq> 1" and "pool_recall G pool msg elapsed = Inr r"
  defines "answers \<equiv> map (\<lambda>shard. tc_recall G shard (mr_query msg) (session_key_of msg)) pool"
  shows "length (mrr_memories r) \<le> unat (max (mr_limit msg) 1) \<and>
    sorted (map mh_content (mrr_memories r)) \<and>
    (\<forall>h \<in> set (mrr_memories r). \<exists>resp. Inr resp \<in> set answers \<and> h = pool_hit (rr_context resp) \<and>
       trim (rr_context resp) \<noteq> []) \<and>
    (length pool \<le> unat (mr_limit msg) \<longrightarrow>
       mset (mrr_memories r) = image_mset pool_hit (mset (contexts answers))) \<and>
    (mrr_source r = ''pool_unavailable'' \<longleftrightarrow> (\<forall>a \<in> set answers. \<exists>e. a = Inl e))"
proof -
  let ?limit = "unat (max (mr_limit msg) 1)" and ?hits = "map pool_hit (contexts answers)"
  have r: "mrr_memories r = take ?limit (sort_key mh_content ?hits)"
    "mrr_source r = (if length (filter (\<lambda>r. \<exists>e. r = Inl e) answers) = length pool
       then ''pool_unavailable'' else ''pool'')"
    using assms(1,2) by (auto simp: pool_recall_def Let_def gather_contexts answers_def)
  have "sorted (map mh_content (mrr_memories r))"
    unfolding r take_map [symmetric] by (intro sorted_wrt_take) (simp add: sorted_sort_key)
  moreover have "\<forall>h \<in> set (mrr_memories r). \<exists>resp. Inr resp \<in> set answers \<and> h = pool_hit (rr_context resp) \<and>
       trim (rr_context resp) \<noteq> []"
    unfolding r using set_take_subset [of ?limit "sort_key mh_content ?hits"] by (fastforce simp: contexts_iff)
  moreover have "mset (mrr_memories r) = image_mset pool_hit (mset (contexts answers))"
    if "length pool \<le> unat (mr_limit msg)"
  proof -
    have "length ?hits \<le> length pool" using length_contexts [of answers] by (simp add: answers_def)
    also have "\<dots> \<le> ?limit" using that by (simp add: max_def word_le_nat_alt)
    finally show ?thesis by (simp add: r)
  qed
  moreover have "mrr_source r = ''pool_unavailable'' \<longleftrightarrow> (\<forall>a \<in> set answers. \<exists>e. a = Inl e)"
    using filter_all_Inl [of answers] by (simp add: r answers_def)
  ultimately show ?thesis by (simp add: r)
qed

definition sample_gateways :: gateways where
  "sample_gateways = \<lparr>http_send = (\<lambda>r. if prefix ''a'' (req_url r) then Inr (Inr ''hello'') else Inl HttpTimeout),
     de_recall_resp = (\<lambda>s. Some \<lparr>rr_context = s, rr_strategy = [], rr_memory_count = 1, rr_code = 0, rr_message = []\<rparr>),
     de_capture_resp = (\<lambda>s. Some \<lparr>cr_l0_recorded = 1, cr_scheduler_notified = True\<rparr>),
     de_search_resp = (\<lambda>s. None), de_value = Some\<rparr>"

definition sample_recall :: memory_recall where
  "sample_recall = \<lparr>mr_request_id = ''1'', mr_query = ''q'', mr_scope = ''user'', mr_limit = 5,
     mr_timeout_ms = 1500, mr_fallback_on_timeout = True\<rparr>"

theorem pool_recall_aggregates_witness:
  "\<exists>r. pool_recall sample_gateways (from_gateways [''a'', ''b'']) sample_recall 3 = Inr r \<and>
     mrr_source r \<noteq> ''pool_unavailable''"
proof -
  let ?pool = "from_gateways [''a'', ''b'']" and ?G = sample_gateways
  obtain r where r: "pool_recall ?G ?pool sample_recall 3 = Inr r"
    by (simp add: pool_recall_def from_gateways_def Let_def case_prod_beta)
  have l: "length ?pool \<noteq> 1" by (simp add: from_gateways_def)
  have "\<exists>x. tc_recall ?G (?pool ! 0) (mr_query sample_recall) (session_key_of sample_recall) = Inr x"
    by (simp add: tc_recall_def recall_request_def sample_gateways_def from_gateways_def with_timeout_def
        tencent_new_def trim_end_matches_def json_body_def)
  moreover have "?pool ! 0 \<in> set ?pool" by (simp add: from_gateways_def)
  ultimately have "\<not> (\<forall>a \<in> set (map (\<lambda>shard. tc_recall ?G shard (mr_query sample_recall)
      (session_key_of sample_recall)) ?pool). \<exists>e. a = Inl e)" by force
  with pool_recall_aggregates [OF l r] r show ?thesis by blast
qed

text \<open>
  Captures never panic and are routed by the FQN.  A pool built from the environment is
  never empty, so a capture goes to the one shard in range that \<open>shard_for\<close> picks for the FQN,
  and is reported committed if and only if this shard recorded something.
\<close>

theorem pool_capture_routes:
  fixes env :: env
  defines "pool \<equiv> pool_from_env env"
  shows "\<exists>i < length pool. shard_for C pool (mc_fqn msg) = Some i \<and>
    pool_capture G C pool msg = Some (
      case tc_capture G (pool ! i) (mc_user_content msg) (mc_assistant_content msg) (mc_fqn msg) None of
        Inl e \<Rightarrow> Inl e
      | Inr resp \<Rightarrow> Inr \<lparr>mcr_request_id = mc_request_id msg, mcr_committed = cr_l0_recorded resp > 0,
          mcr_queued = False\<rparr>)"
proof -
  have "pool \<noteq> []" unfolding pool_def by (rule pool_from_env_not_Nil)
  then show ?thesis
    by (auto simp: shard_for_def pool_capture_def Let_def and_then_def)
qed

end
