(* ===== verification/Server_State.thy ===== *)
theory Server_State
  imports Server_Fs Registry Locks Memory
begin

text \<open>
  The user database of \<open>nsmt-server/src/db.rs\<close> and the shared server state of
  \<open>nsmt-server/src/state.rs\<close>: tenant quotas, object owners, the cache of object stores.

  The SQL engine (\<open>sqlx\<close>) and the password hash (\<open>argon2\<close>) are the parameter \<open>sql\<close>: one
  function per statement of the source on the database state \<open>'d\<close>, with the error text as the
  left summand.
\<close>

section \<open>User database\<close>

record 'd sql =
  sql_insert_user :: "string \<Rightarrow> string \<Rightarrow> string \<Rightarrow> i64 \<Rightarrow> 'd \<Rightarrow> (string + unit) \<times> 'd"
  sql_select_hash :: "string \<Rightarrow> 'd \<Rightarrow> string + string option"
  sql_select_plan :: "string \<Rightarrow> 'd \<Rightarrow> string + string option"
  sql_update_plan :: "string \<Rightarrow> string \<Rightarrow> 'd \<Rightarrow> (string + nat) \<times> 'd"
  sql_select_users :: "'d \<Rightarrow> string + (string \<times> string \<times> i64) list"
  sql_insert_session :: "string \<Rightarrow> i64 \<Rightarrow> string \<Rightarrow> 'd \<Rightarrow> 'd"
  argon_hash :: "bytes \<Rightarrow> bytes \<Rightarrow> string + string"
  argon_parse :: "string \<Rightarrow> string + unit"
  argon_verify :: "bytes \<Rightarrow> string \<Rightarrow> bool"

datatype db_kind = Sqlite | MySql | Postgres

definition DEFAULT_FREE_QUOTA_BYTES :: u64 where "DEFAULT_FREE_QUOTA_BYTES = 50 * 1024 * 1024"
definition PRO_QUOTA_BYTES :: u64 where "PRO_QUOTA_BYTES = 1024 * 1024 * 1024"

text \<open>The directory is created on the way; the result of the creation is ignored.\<close>

definition default_sqlite_url :: "env \<Rightarrow> fs \<Rightarrow> string \<times> fs" where
  "default_sqlite_url env F =
     (let home = (case env ''HOME'' of Some h \<Rightarrow> h | None \<Rightarrow> ''.'');
          dir = (case env ''NSMT_HOME'' of Some d \<Rightarrow> d | None \<Rightarrow> join home ''.nsmt'');
          F' = (case fs_create_dir_all dir F of Inl _ \<Rightarrow> F | Inr F1 \<Rightarrow> F1)
      in (''sqlite://'' @ join dir ''users.db'' @ ''?mode=rwc'', F'))"

text \<open>The driver that \<open>connect\<close> chooses.\<close>

definition kind_of_url :: "string \<Rightarrow> db_kind" where
  "kind_of_url url =
     (if prefix ''postgres'' url then Postgres else if prefix ''mysql'' url then MySql else Sqlite)"

text \<open>The Chinese error texts, as UTF-8.\<close>

definition msg_register_failed :: string where
  "msg_register_failed = map char_of
     [0xE6, 0xB3, 0xA8, 0xE5, 0x86, 0x8C, 0xE5, 0xA4, 0xB1, 0xE8, 0xB4, 0xA5, 0xEF, 0xBC, 0x88,
      0xE5, 0x8F, 0xAF, 0xE8, 0x83, 0xBD, 0xE7, 0x94, 0xA8, 0xE6, 0x88, 0xB7, 0xE5, 0x90, 0x8D,
      0xE5, 0xB7, 0xB2, 0xE5, 0xAD, 0x98, 0xE5, 0x9C, 0xA8, 0xEF, 0xBC, 0x89, 0x3A, 0x20 :: nat]"

definition msg_no_user :: string where
  "msg_no_user = map char_of
     [0xE7, 0x94, 0xA8, 0xE6, 0x88, 0xB7, 0xE4, 0xB8, 0x8D, 0xE5, 0xAD, 0x98, 0xE5, 0x9C, 0xA8 :: nat]"

definition msg_bad_password :: string where
  "msg_bad_password = map char_of
     [0xE5, 0xAF, 0x86, 0xE7, 0xA0, 0x81, 0xE9, 0x94, 0x99, 0xE8, 0xAF, 0xAF :: nat]"

text \<open>\<open>now1\<close> is the reading in the token, \<open>now2\<close> the one its expiry is counted from.\<close>

definition issue_token ::
  "crates \<Rightarrow> 'd sql \<Rightarrow> u64 \<Rightarrow> u64 \<Rightarrow> string \<Rightarrow> 'd \<Rightarrow> string \<times> 'd" where
  "issue_token C Q now1 now2 username D =
     (let token = ''t-'' @ username @ ''-'' @
            hex_encode C (sha256 C (as_bytes (username @ '':'' @ fmt_dec (unat now1))))
      in (token, sql_insert_session Q token (now2 + 7 * 24 * 3600 * 1000) username D))"

definition db_register ::
  "crates \<Rightarrow> 'd sql \<Rightarrow> bytes \<Rightarrow> u64 \<Rightarrow> u64 \<Rightarrow> u64 \<Rightarrow> string \<Rightarrow> string \<Rightarrow> 'd \<Rightarrow> (string + string) \<times> 'd" where
  "db_register C Q salt now now1 now2 username password D =
     (case argon_hash Q (as_bytes password) salt of
        Inl e \<Rightarrow> (Inl (''hash: '' @ e), D)
      | Inr hash \<Rightarrow>
         (case sql_insert_user Q username hash username now D of
            (Inl e, D') \<Rightarrow> (Inl (msg_register_failed @ e), D')
          | (Inr (), D') \<Rightarrow>
              (case issue_token C Q now1 now2 username D' of (token, D'') \<Rightarrow> (Inr token, D''))))"

definition db_login ::
  "crates \<Rightarrow> 'd sql \<Rightarrow> u64 \<Rightarrow> u64 \<Rightarrow> string \<Rightarrow> string \<Rightarrow> 'd \<Rightarrow> (string + string) \<times> 'd" where
  "db_login C Q now1 now2 username password D =
     (case sql_select_hash Q username D of
        Inl e \<Rightarrow> (Inl (''db: '' @ e), D)
      | Inr None \<Rightarrow> (Inl msg_no_user, D)
      | Inr (Some hash) \<Rightarrow>
         (case argon_parse Q hash of
            Inl e \<Rightarrow> (Inl (''hash parse: '' @ e), D)
          | Inr _ \<Rightarrow>
              if argon_verify Q (as_bytes password) hash
              then (case issue_token C Q now1 now2 username D of (token, D') \<Rightarrow> (Inr token, D'))
              else (Inl msg_bad_password, D)))"

definition db_plan :: "'d sql \<Rightarrow> string \<Rightarrow> 'd \<Rightarrow> string + string" where
  "db_plan Q domain D =
     (case sql_select_plan Q domain D of
        Inl e \<Rightarrow> Inl (''db: '' @ e)
      | Inr (Some p) \<Rightarrow> Inr p
      | Inr None \<Rightarrow> Inr ''free'')"

definition quota_for_plan :: "string \<Rightarrow> u64" where
  "quota_for_plan plan = (if plan = ''pro'' then PRO_QUOTA_BYTES else DEFAULT_FREE_QUOTA_BYTES)"

definition set_plan :: "'d sql \<Rightarrow> string \<Rightarrow> string \<Rightarrow> 'd \<Rightarrow> (string + string) \<times> 'd" where
  "set_plan Q username plan D =
     (if plan \<noteq> ''free'' \<and> plan \<noteq> ''pro'' then (Inl (''unknown plan: '' @ plan), D)
      else (case sql_update_plan Q plan username D of
              (Inl e, D') \<Rightarrow> (Inl (''db: '' @ e), D')
            | (Inr n, D') \<Rightarrow> if n = 0 then (Inl msg_no_user, D') else (Inr plan, D')))"

text \<open>Negative creation times are shown as 0.\<close>

definition list_users :: "'d sql \<Rightarrow> 'd \<Rightarrow> string + (string \<times> string \<times> u64) list" where
  "list_users Q D =
     (case sql_select_users Q D of
        Inl e \<Rightarrow> Inl (''db: '' @ e)
      | Inr rows \<Rightarrow> Inr (map (\<lambda>(u, p, c). (u, p, if sint c < 0 then 0 else c)) rows))"

section \<open>Server state\<close>

record 'd server_state =
  st_registry :: registry
  st_locks :: locks
  st_pool :: memory_pool
  st_db :: "'d option"
  st_object_stores :: "(string, store) hmap"
  st_object_owners :: "(string, (string, string) hmap) hmap"
  st_usage_bytes :: "(string, u64) hmap"

text \<open>\<open>str::parse::<u64>\<close>: an optional plus sign and decimal digits below \<open>2^64\<close>.\<close>

fun digits_val :: "string \<Rightarrow> nat \<Rightarrow> nat option" where
  "digits_val [] n = Some n"
| "digits_val (c # cs) n =
     (if is_ascii_digit c then digits_val cs (10 * n + (of_char c - 48)) else None)"

definition parse_u64 :: "string \<Rightarrow> u64 option" where
  "parse_u64 s =
     (let ds = (case s of c # cs \<Rightarrow> if c = CHR ''+'' then cs else s | [] \<Rightarrow> s) in
      if ds = [] then None
      else (case digits_val ds 0 of
              None \<Rightarrow> None
            | Some n \<Rightarrow> if n < 2 ^ 64 then Some (of_nat n) else None))"

definition quota_bytes :: "env \<Rightarrow> u64" where
  "quota_bytes env =
     (case env ''NSMT_QUOTA_BYTES'' of
        None \<Rightarrow> 1024 * 1024 * 1024
      | Some v \<Rightarrow> (case parse_u64 v of Some n \<Rightarrow> n | None \<Rightarrow> 1024 * 1024 * 1024))"

definition server_state_new :: "env \<Rightarrow> 'd option \<Rightarrow> 'd server_state" where
  "server_state_new env db =
     \<lparr>st_registry = registry_default, st_locks = [], st_pool = pool_from_env env, st_db = db,
      st_object_stores = [], st_object_owners = [], st_usage_bytes = []\<rparr>"

definition quota_for :: "env \<Rightarrow> 'd sql \<Rightarrow> string \<Rightarrow> 'd server_state \<Rightarrow> u64" where
  "quota_for env Q ud st =
     (case st_db st of
        Some D \<Rightarrow> (case db_plan Q ud D of Inr p \<Rightarrow> quota_for_plan p | Inl _ \<Rightarrow> quota_for_plan ''free'')
      | None \<Rightarrow> quota_bytes env)"

definition usage_of :: "string \<Rightarrow> 'd server_state \<Rightarrow> u64" where
  "usage_of ud st = (case hm_get (st_usage_bytes st) ud of Some n \<Rightarrow> n | None \<Rightarrow> 0)"

definition try_reserve_quota ::
  "env \<Rightarrow> 'd sql \<Rightarrow> string \<Rightarrow> u64 \<Rightarrow> 'd server_state \<Rightarrow> bool \<times> 'd server_state" where
  "try_reserve_quota env Q ud sz st =
     (let limit = quota_for env Q ud st; used = usage_of ud st in
      if used + sz > limit then (False, st)
      else (True, st\<lparr>st_usage_bytes := hm_insert ud (used + sz) (st_usage_bytes st)\<rparr>))"

definition record_object_owner :: "string \<Rightarrow> string \<Rightarrow> string \<Rightarrow> 'd server_state \<Rightarrow> 'd server_state" where
  "record_object_owner ud blob_id machine st =
     (let m = (case hm_get (st_object_owners st) ud of Some m \<Rightarrow> m | None \<Rightarrow> [])
      in st\<lparr>st_object_owners := hm_insert ud (hm_insert blob_id machine m) (st_object_owners st)\<rparr>)"

definition object_owner :: "string \<Rightarrow> string \<Rightarrow> 'd server_state \<Rightarrow> string option" where
  "object_owner ud blob_id st =
     (case hm_get (st_object_owners st) ud of None \<Rightarrow> None | Some m \<Rightarrow> hm_get m blob_id)"

text \<open>
  \<open>s3\<close> and \<open>mem\<close> are what the backend constructors of \<open>from_env_tenant\<close> give at this call.
\<close>

definition object_store_for ::
  "env \<Rightarrow> (string + nat) \<Rightarrow> nat \<Rightarrow> string \<Rightarrow> path \<Rightarrow> 'd server_state \<Rightarrow> store \<times> 'd server_state" where
  "object_store_for env s3 mem ud base st =
     (case hm_get (st_object_stores st) ud of
        Some s \<Rightarrow> (s, st)
      | None \<Rightarrow>
         (let root = join (join (join base ''server'') (sanitize ud)) ''objects'';
              s = from_env_tenant env s3 mem root ud
          in (s, st\<lparr>st_object_stores := hm_insert ud s (st_object_stores st)\<rparr>)))"

section \<open>Lemmas\<close>

lemma usage_of_insert [simp]:
  "usage_of d (st\<lparr>st_usage_bytes := hm_insert ud n (st_usage_bytes st)\<rparr>) = (if d = ud then n else usage_of d st)"
  by (simp add: usage_of_def)

lemma quota_for_usage [simp]:
  "quota_for env Q ud (st\<lparr>st_usage_bytes := u\<rparr>) = quota_for env Q ud st"
  by (simp add: quota_for_def)

lemma object_owner_record [simp]:
  "object_owner d b (record_object_owner ud blob mach st) =
     (if d = ud \<and> b = blob then Some mach else object_owner d b st)"
  by (auto simp: object_owner_def record_object_owner_def Let_def hm.get_empty split: option.split)

text \<open>A sequence of reservations.\<close>

fun reserve_all :: "env \<Rightarrow> 'd sql \<Rightarrow> (string \<times> u64) list \<Rightarrow> 'd server_state \<Rightarrow> bool list \<times> 'd server_state" where
  "reserve_all env Q [] st = ([], st)"
| "reserve_all env Q ((ud, sz) # rs) st =
     (case try_reserve_quota env Q ud sz st of (b, st1) \<Rightarrow>
        case reserve_all env Q rs st1 of (bs, st2) \<Rightarrow> (b # bs, st2))"

definition granted_bytes :: "string \<Rightarrow> (string \<times> u64) list \<Rightarrow> bool list \<Rightarrow> nat" where
  "granted_bytes d rs bs = sum_list (map (\<lambda>((ud, sz), b). if b \<and> ud = d then unat sz else 0) (zip rs bs))"

lemma try_reserve_no_wrap:
  assumes "unat (usage_of d st) \<le> unat (quota_for env Q d st)"
    and "unat (quota_for env Q d st) + unat sz < 2 ^ 64"
    and "try_reserve_quota env Q ud sz st = (b, st')"
  shows "unat (usage_of d st') = unat (usage_of d st) + (if b \<and> ud = d then unat sz else 0) \<and>
    unat (usage_of d st') \<le> unat (quota_for env Q d st) \<and> quota_for env Q d st' = quota_for env Q d st"
proof -
  have "unat (usage_of d st + sz) = unat (usage_of d st) + unat sz"
    using assms(1,2) by (simp add: unat_word_ariths(1))
  then show ?thesis
    using assms(1,3) by (auto simp: try_reserve_quota_def Let_def word_le_nat_alt not_less split: if_splits)
qed

section \<open>Properties\<close>

text \<open>
  C38: quotas hold.  As long as no request is so large that the 64-bit sum with the quota
  overflows, after any sequence of reservations by any tenants the recorded usage of a tenant
  is exactly the sum of its granted reservations on top of its usage before, and never above
  its quota.
\<close>

theorem quota_respected:
  assumes "reserve_all env Q rs st = (bs, st')"
    and "unat (usage_of d st) \<le> unat (quota_for env Q d st)"
    and "\<forall>(ud, sz) \<in> set rs. unat (quota_for env Q d st) + unat sz < 2 ^ 64"
  shows "unat (usage_of d st') = unat (usage_of d st) + granted_bytes d rs bs \<and>
    unat (usage_of d st') \<le> unat (quota_for env Q d st)"
  using assms
proof (induction rs arbitrary: st bs)
  case (Cons r rs)
  obtain ud sz where r: "r = (ud, sz)" by (cases r)
  obtain b st1 where b: "try_reserve_quota env Q ud sz st = (b, st1)"
    by (cases "try_reserve_quota env Q ud sz st")
  with Cons.prems(1) r obtain bs1 where bs: "reserve_all env Q rs st1 = (bs1, st')" "bs = b # bs1"
    by (auto split: prod.splits)
  note step = try_reserve_no_wrap [OF Cons.prems(2) _ b]
  have "unat (usage_of d st1) = unat (usage_of d st) + (if b \<and> ud = d then unat sz else 0)"
    "unat (usage_of d st1) \<le> unat (quota_for env Q d st1)" "quota_for env Q d st1 = quota_for env Q d st"
    using step Cons.prems(3) r by auto
  with Cons.IH [OF bs(1)] Cons.prems(3) bs(2) r show ?case by (auto simp: granted_bytes_def)
qed (simp add: granted_bytes_def)

definition no_sql :: "unit sql" where
  "no_sql = \<lparr>sql_insert_user = (\<lambda>u h d t D. (Inr (), D)), sql_select_hash = (\<lambda>u D. Inr None),
     sql_select_plan = (\<lambda>u D. Inr None), sql_update_plan = (\<lambda>p u D. (Inr 0, D)),
     sql_select_users = (\<lambda>D. Inr []), sql_insert_session = (\<lambda>t e u D. D),
     argon_hash = (\<lambda>p s. Inr []), argon_parse = (\<lambda>h. Inr ()), argon_verify = (\<lambda>p h. True)\<rparr>"

theorem quota_respected_witness:
  "unat (usage_of ''d'' (snd (reserve_all Map.empty no_sql [(''d'', 1000), (''e'', 5), (''d'', 2000000000)]
     (server_state_new Map.empty None)))) = 1000"
proof -
  let ?rs = "[(''d'', 1000), (''e'', 5), (''d'', 2000000000)] :: (string \<times> u64) list"
  let ?st = "server_state_new Map.empty None :: unit server_state"
  have run: "reserve_all Map.empty no_sql ?rs ?st = ([True, True, False], snd (reserve_all Map.empty no_sql ?rs ?st))"
    by (simp add: try_reserve_quota_def quota_for_def quota_bytes_def server_state_new_def Let_def
        usage_of_def hm_get_def hm_insert_def)
  have "unat (usage_of ''d'' (snd (reserve_all Map.empty no_sql ?rs ?st))) =
      unat (usage_of ''d'' ?st) + granted_bytes ''d'' ?rs [True, True, False]"
    by (rule quota_respected [OF run, THEN conjunct1])
      (simp_all add: quota_for_def quota_bytes_def server_state_new_def usage_of_def hm_get_def)
  then show ?thesis
    by (simp add: granted_bytes_def server_state_new_def usage_of_def hm_get_def)
qed

text \<open>
  The quota check can be bypassed by overflow.  Whatever a tenant has used and whatever its
  quota, a request for \<open>2^64 - used\<close> bytes is granted and resets the recorded usage to 0, since
  the sum wraps around.
\<close>

theorem quota_overflow_resets_usage:
  "try_reserve_quota env Q ud (0 - usage_of ud st) st =
     (True, st\<lparr>st_usage_bytes := hm_insert ud 0 (st_usage_bytes st)\<rparr>)"
  by (simp add: try_reserve_quota_def Let_def)

text \<open>
  A tenant keeps its object store for the lifetime of the server: after the first call every
  later call returns the same store, whatever the environment is then, and other tenants'
  stores are not affected.
\<close>

theorem object_store_cached:
  assumes "object_store_for env s3 mem ud base st = (s, st1)"
  shows "object_store_for env' s3' mem' ud base' st1 = (s, st1) \<and>
    (\<forall>d. d \<noteq> ud \<longrightarrow> hm_get (st_object_stores st1) d = hm_get (st_object_stores st) d)"
  using assms by (auto simp: object_store_for_def Let_def split: option.splits)

theorem object_store_cached_witness:
  "let st1 = snd (object_store_for Map.empty (Inr 0) 1 ''d'' ''/b'' (server_state_new Map.empty None :: unit server_state)) in
   fst (object_store_for [''NSMT_OBJECT_STORE'' \<mapsto> ''memory''] (Inr 0) 2 ''d'' ''/c'' st1) =
     LocalObjectStore ''/b/server/d/objects''"
proof -
  let ?st = "server_state_new Map.empty None :: unit server_state"
  have "object_store_for Map.empty (Inr 0) 1 ''d'' ''/b'' ?st =
      (LocalObjectStore ''/b/server/d/objects'', snd (object_store_for Map.empty (Inr 0) 1 ''d'' ''/b'' ?st))"
    by (simp add: object_store_for_def server_state_new_def hm_get_def Let_def from_env_tenant_def
        join_def suffix_to_prefix sanitize_def map_chars_def is_continuation_def sanitize_char_def
        is_ascii_alphanumeric_def is_ascii_lowercase_def less_eq_char_def)
  from object_store_cached [OF this] show ?thesis
    by (simp add: Let_def)
qed
end
