(* ===== verification/Session.thy ===== *)
theory Session
  imports Server_State Tenants Identity
begin

text \<open>
  The connection handler of \<open>nsmt-server/src/session.rs\<close>: the handshake HELLO, AUTH, REGISTER
  and the dispatch of frames in the ready loop, chunked uploads included.

  A connection is the record \<open>session\<close>; what all connections share is the record \<open>world\<close>.  One
  iteration of the handler is \<open>session_step\<close> on an \<open>input\<close>: a received frame, the end or an error
  of the stream, a tick of the heartbeat timer, or a broadcast taken from the session's channel.
  Frames that the handler sends are appended to \<open>se_out\<close>; a send fails when the codec refuses the
  frame or the peer is gone.  Clock readings are the stream \<open>clk\<close>.
\<close>

record ('x, 'd) config =
  cf_serde :: serde
  cf_crates :: crates
  cf_tree_json :: tree_json
  cf_gateways :: gateways
  cf_backend :: "'x backend"
  cf_mem_init :: "'x"
  cf_s3 :: "string + nat"
  cf_sql :: "'d sql"
  cf_env :: env
  cf_info :: bool

record ('x, 'd) world =
  wd_state :: "'d server_state"
  wd_tenants :: tenant_store
  wd_storage :: "'x storage"
  wd_next :: nat

datatype session_error =
    SNsmt nsmt_error
  | SIo io_error
  | EofBefore string
  | ExpectedHello frame_type
  | SPanic

record pending_upload =
  pu_blob_id :: string
  pu_size :: u64
  pu_total_chunks :: u64
  pu_temp_path :: path
  pu_received :: "bool list"
  pu_received_count :: u64

datatype phase =
    AwaitHello
  | AwaitAuth string string
  | AwaitRegister string
  | Ready
  | Closed "session_error option"

record session =
  se_phase :: phase
  se_addr :: string
  se_domain :: string
  se_machine :: string
  se_chan :: nat
  se_fs :: server_fs
  se_pending :: "pending_upload option"
  se_out :: "frame list"
  se_open :: bool

datatype input =
    Recv frame
  | RecvEof
  | RecvErr nsmt_error
  | Tick
  | Event

type_synonym clock = "nat \<Rightarrow> u64"

section \<open>Sending\<close>

definition sess_send :: "frame \<Rightarrow> session \<Rightarrow> nsmt_error + session" where
  "sess_send f s =
     and_then (encode f) (\<lambda>_.
       if se_open s then Inr (s\<lparr>se_out := se_out s @ [f]\<rparr>) else Inl (Io (OtherIo ''connection lost'')))"

definition sess_send_json :: "serde \<Rightarrow> frame_type \<Rightarrow> msg \<Rightarrow> session \<Rightarrow> nsmt_error + session" where
  "sess_send_json S t m s = and_then (from_json S t 0 m) (\<lambda>f. sess_send f s)"

definition close_with :: "session_error \<Rightarrow> session \<Rightarrow> session" where
  "close_with e s = s\<lparr>se_phase := Closed (Some e)\<rparr>"

text \<open>\<open>fs.send_json(..).await?\<close> as the last action: an error ends the session.\<close>

definition reply :: "('x, 'd) config \<Rightarrow> frame_type \<Rightarrow> msg \<Rightarrow> session \<Rightarrow> session" where
  "reply cf t m s =
     (case sess_send_json (cf_serde cf) t m s of Inl e \<Rightarrow> close_with (SNsmt e) s | Inr s' \<Rightarrow> s')"

definition error_msg_of :: "string \<Rightarrow> string \<Rightarrow> msg" where
  "error_msg_of code text = MErrorMsg \<lparr>em_code = code, em_message = text, em_request_id = None\<rparr>"

section \<open>Uploads\<close>

definition upd_disk :: "fs \<Rightarrow> ('x, 'd) world \<Rightarrow> ('x, 'd) world" where
  "upd_disk F w = w\<lparr>wd_storage := (wd_storage w)\<lparr>disk := F\<rparr>\<rparr>"

definition chunk_index :: "bytes \<Rightarrow> u64" where
  "chunk_index pl = ucast (from_le (take 4 pl) :: u32)"

definition handle_chunk ::
  "('x, 'd) config \<Rightarrow> string \<Rightarrow> pending_upload \<Rightarrow> bytes \<Rightarrow> fs \<Rightarrow> (session_error + pending_upload) \<times> fs" where
  "handle_chunk cf ud pu pl F =
     (if length pl < 4 then (Inr pu, F)
      else
        let idx = chunk_index pl in
        if idx \<ge> pu_total_chunks pu \<or> pu_received pu ! unat idx then (Inr pu, F)
        else
          (case (case e2e_from_env (cf_crates cf) (cf_env cf) (Some ud) of
                   Some ks \<Rightarrow> decrypt (cf_crates cf) ks (drop 4 pl) idx
                 | None \<Rightarrow> Inr (drop 4 pl)) of
             Inl e \<Rightarrow> (Inl (SNsmt e), F)
           | Inr data \<Rightarrow>
              (case fs_create_dir_all (parent (pu_temp_path pu)) F of
                 Inl e \<Rightarrow> (Inl (SIo e), F)
               | Inr F1 \<Rightarrow>
                  (let offset = idx * of_nat CHUNK_SIZE in
                   case fs_write_at (pu_temp_path pu) (unat offset) data F1 of
                     Inl e \<Rightarrow> (Inl (SIo e), F1)
                   | Inr F2 \<Rightarrow>
                       (Inr (pu\<lparr>pu_received := (pu_received pu)[unat idx := True],
                               pu_received_count := pu_received_count pu + 1\<rparr>), F2)))))"

text \<open>The end of an upload: \<open>read\<close>, \<open>put_object\<close>, \<open>remove_file\<close>, owner, acknowledgement.\<close>

definition finish_upload ::
  "('x, 'd) config \<Rightarrow> pending_upload \<Rightarrow> session \<Rightarrow> ('x, 'd) world \<Rightarrow> session \<times> ('x, 'd) world" where
  "finish_upload cf pu s w =
     (case fs_read (disk (wd_storage w)) (pu_temp_path pu) of
        Inl e \<Rightarrow> (close_with (SIo e) s, w)
      | Inr bs \<Rightarrow>
         (case put_object (cf_backend cf) (se_fs s) (pu_blob_id pu) bs (wd_storage w) of
            Inl e \<Rightarrow> (close_with (SIo e) s, w)
          | Inr W1 \<Rightarrow>
             (let F2 = (case fs_remove_file (pu_temp_path pu) (disk W1) of Inl _ \<Rightarrow> disk W1 | Inr F \<Rightarrow> F);
                  w' = w\<lparr>wd_storage := W1\<lparr>disk := F2\<rparr>,
                         wd_state := record_object_owner (se_domain s) (pu_blob_id pu) (se_machine s) (wd_state w)\<rparr>
              in (reply cf FilePutAck (MFilePutAck \<lparr>fpa_blob_id = pu_blob_id pu,
                    fpa_have = map of_nat [0..<unat (pu_total_chunks pu)], fpa_completed = True\<rparr>) s, w'))))"

definition on_file_chunk ::
  "('x, 'd) config \<Rightarrow> frame \<Rightarrow> session \<Rightarrow> ('x, 'd) world \<Rightarrow> session \<times> ('x, 'd) world" where
  "on_file_chunk cf f s w =
     (case se_pending s of
        None \<Rightarrow> (s, w)
      | Some pu \<Rightarrow>
         (case handle_chunk cf (se_domain s) pu (payload f) (disk (wd_storage w)) of
            (Inl e, F) \<Rightarrow> (close_with e s, upd_disk F w)
          | (Inr pu', F) \<Rightarrow>
              if pu_received_count pu' = pu_total_chunks pu'
              then finish_upload cf pu' (s\<lparr>se_pending := None\<rparr>) (upd_disk F w)
              else (s\<lparr>se_pending := Some pu'\<rparr>, upd_disk F w)))"

text \<open>\<open>vec![false; n]\<close> panics when the capacity exceeds \<open>isize::MAX\<close>.\<close>

definition on_file_put ::
  "('x, 'd) config \<Rightarrow> frame \<Rightarrow> session \<Rightarrow> ('x, 'd) world \<Rightarrow> session \<times> ('x, 'd) world" where
  "on_file_put cf f s w =
     (case payload_json (de_file_put (cf_serde cf)) f of
        Inl e \<Rightarrow> (close_with (SNsmt e) s, w)
      | Inr fp \<Rightarrow>
         (case try_reserve_quota (cf_env cf) (cf_sql cf) (se_domain s) (fp_size fp) (wd_state w) of
            (False, _) \<Rightarrow> (reply cf Error (error_msg_of ''0xE040'' ''quota_exceeded'') s, w)
          | (True, st) \<Rightarrow>
             (let w1 = w\<lparr>wd_state := st\<rparr>;
                  temp = temp_path_for (se_fs s) (fp_blob_id fp);
                  F = disk (wd_storage w1);
                  w2 = (case fs_remove_file temp F of Inl _ \<Rightarrow> w1 | Inr F' \<Rightarrow> upd_disk F' w1)
              in if unat (fp_total_chunks fp) \<ge> 2 ^ 63 then (close_with SPanic s, w2)
                 else
                   (reply cf FilePutAck
                      (MFilePutAck \<lparr>fpa_blob_id = fp_blob_id fp, fpa_have = [], fpa_completed = False\<rparr>)
                      (s\<lparr>se_pending := Some \<lparr>pu_blob_id = fp_blob_id fp, pu_size = fp_size fp,
                           pu_total_chunks = fp_total_chunks fp, pu_temp_path = temp,
                           pu_received = replicate (unat (fp_total_chunks fp)) False,
                           pu_received_count = 0\<rparr>\<rparr>), w2))))"

section \<open>Downloads\<close>

text \<open>The chunk of an object that a \<open>FILE_GET\<close> asks for; the product wraps as in the source.\<close>

definition object_chunk :: "bytes \<Rightarrow> u64 \<Rightarrow> bytes" where
  "object_chunk data idx =
     (let start = unat (idx * of_nat CHUNK_SIZE) in
      if start < length data then take (min (start + CHUNK_SIZE) (length data) - start) (drop start data)
      else [])"

definition on_file_get ::
  "('x, 'd) config \<Rightarrow> frame \<Rightarrow> session \<Rightarrow> ('x, 'd) world \<Rightarrow> session \<times> ('x, 'd) world" where
  "on_file_get cf f s w =
     (case payload_json (de_file_get (cf_serde cf)) f of
        Inl e \<Rightarrow> (close_with (SNsmt e) s, w)
      | Inr g \<Rightarrow>
         (case get_object (cf_backend cf) (se_fs s) (fg_blob_id g) (wd_storage w) of
            Some data \<Rightarrow>
              (let idx = (case fg_chunk_index g of Some i \<Rightarrow> i | None \<Rightarrow> 0);
                   chunk = object_chunk data idx;
                   e2e = e2e_from_env (cf_crates cf) (cf_env cf) (Some (se_domain s))
               in case (case e2e of Some ks \<Rightarrow> encrypt (cf_crates cf) ks chunk idx | None \<Rightarrow> Inr chunk) of
                    Inl e \<Rightarrow> (close_with (SNsmt e) s, w)
                  | Inr enc \<Rightarrow>
                     (let c0 = frame_new FileChunk 0 (u32_to_le_bytes (ucast idx) @ enc);
                          c = (if e2e \<noteq> None then c0\<lparr>flags := 0x01\<rparr> else c0)
                      in case sess_send c s of
                           Inl e \<Rightarrow> (close_with (SNsmt e) s, w)
                         | Inr s' \<Rightarrow> (s', w)))
          | None \<Rightarrow>
              (let owner = object_owner (se_domain s) (fg_blob_id g) (wd_state w);
                   peer_hint = (case owner of
                      Some ow \<Rightarrow> (case online_machine (se_domain s) ow (st_registry (wd_state w)) of
                                  Some m \<Rightarrow> mi_peer_addr m | None \<Rightarrow> [])
                    | None \<Rightarrow> []);
                   text = (if peer_hint = [] then ''object not found''
                           else ''object not found; peer='' @ peer_hint)
               in case sess_send_json (cf_serde cf) Error (error_msg_of ''0xE020'' text) s of
                    Inl e \<Rightarrow> (close_with (SNsmt e) s, w)
                  | Inr s' \<Rightarrow>
                     (case owner of
                        Some ow \<Rightarrow>
                          if ow \<noteq> se_machine s then
                            (case from_json (cf_serde cf) PeerHint 0
                               (MPeerHint \<lparr>phint_blob_id = fg_blob_id g, phint_requester_addr = se_addr s\<rparr>) of
                               Inl e \<Rightarrow> (close_with (SNsmt e) s', w)
                             | Inr hint \<Rightarrow>
                                (s', w\<lparr>wd_state := (wd_state w)\<lparr>st_registry :=
                                   broadcast (se_domain s) hint (st_registry (wd_state w))\<rparr>\<rparr>))
                          else (s', w)
                      | None \<Rightarrow> (s', w)))))"

section \<open>Trees\<close>

text \<open>\<open>&s[..12]\<close> in a log line that is formatted when INFO is enabled: does it panic?\<close>

definition slice12_panics :: "string \<Rightarrow> bool" where
  "slice12_panics s \<longleftrightarrow> length s < 12 \<or> (12 < length s \<and> is_continuation (s ! 12))"

definition on_file_tree ::
  "('x, 'd) config \<Rightarrow> frame \<Rightarrow> session \<Rightarrow> ('x, 'd) world \<Rightarrow> session \<times> ('x, 'd) world" where
  "on_file_tree cf f s w =
     (case payload_json (de_file_tree (cf_serde cf)) f of
        Inl e \<Rightarrow> (close_with (SNsmt e) s, w)
      | Inr tree0 \<Rightarrow>
         (let client_hash = ft_tree_hash tree0;
              tree = tree0\<lparr>ft_tree_hash := tree_hash (cf_crates cf) tree0\<rparr>
          in if cf_info cf \<and> (slice12_panics client_hash \<or> slice12_panics (ft_tree_hash tree))
             then (close_with SPanic s, w)
             else (case save_tree (cf_tree_json cf) (se_fs s) tree (disk (wd_storage w)) of
                     (Inl e, F) \<Rightarrow> (close_with (SIo e) s, upd_disk F w)
                   | (Inr (), F) \<Rightarrow> (s, upd_disk F w))))"

definition on_file_diff ::
  "('x, 'd) config \<Rightarrow> frame \<Rightarrow> session \<Rightarrow> ('x, 'd) world \<Rightarrow> session \<times> ('x, 'd) world" where
  "on_file_diff cf f s w =
     (case payload_json (de_file_diff (cf_serde cf)) f of
        Inl e \<Rightarrow> (close_with (SNsmt e) s, w)
      | Inr d \<Rightarrow>
         (let F = disk (wd_storage w);
              old = get_tree (cf_tree_json cf) (se_fs s) (fd_old_tree d) F;
              latest = latest_tree (cf_tree_json cf) (se_fs s) F;
              (changed, removed) = diff old latest;
              panics = (\<lambda>t. case t of None \<Rightarrow> False | Some t \<Rightarrow> slice12_panics (ft_tree_hash t))
          in if cf_info cf \<and> (panics old \<or> panics latest) then (close_with SPanic s, w)
             else (reply cf FileDiffResult
                     (MFileDiffResult \<lparr>fdr_changed = changed, fdr_removed = removed, fdr_tree = latest\<rparr>) s, w)))"

section \<open>Locks\<close>

definition notify_lock ::
  "('x, 'd) config \<Rightarrow> lock_notify \<Rightarrow> session \<Rightarrow> ('x, 'd) world \<Rightarrow> session \<times> ('x, 'd) world" where
  "notify_lock cf n s w =
     (case from_json (cf_serde cf) LockNotify 0 (MLockNotify n) of
        Inl e \<Rightarrow> (close_with (SNsmt e) s, w)
      | Inr f \<Rightarrow>
         (s, w\<lparr>wd_state := (wd_state w)\<lparr>st_registry :=
               broadcast_except (se_domain s) f (se_chan s) (st_registry (wd_state w))\<rparr>\<rparr>))"

definition on_lock_acquire ::
  "('x, 'd) config \<Rightarrow> clock \<Rightarrow> frame \<Rightarrow> session \<Rightarrow> ('x, 'd) world \<Rightarrow> session \<times> ('x, 'd) world" where
  "on_lock_acquire cf clk f s w =
     (case payload_json (de_lock_acquire (cf_serde cf)) f of
        Inl e \<Rightarrow> (close_with (SNsmt e) s, w)
      | Inr l \<Rightarrow>
         (case acquire (la_path l) (la_requester l) (la_ttl_ms l) (clk 0) (st_locks (wd_state w)) of
            (Inr exp, g) \<Rightarrow>
              (let w1 = w\<lparr>wd_state := (wd_state w)\<lparr>st_locks := g\<rparr>\<rparr> in
               case sess_send_json (cf_serde cf) LockGranted
                      (MLockGranted \<lparr>lg_path = la_path l, lg_expires_at = exp\<rparr>) s of
                 Inl e \<Rightarrow> (close_with (SNsmt e) s, w1)
               | Inr s' \<Rightarrow> notify_lock cf \<lparr>ln_path = la_path l, ln_event = ''locked'',
                   ln_holder = Some (la_requester l)\<rparr> s' w1)
          | (Inl holder, g) \<Rightarrow>
              (reply cf LockDenied (MLockDenied \<lparr>ld_path = la_path l, ld_holder = holder\<rparr>) s,
               w\<lparr>wd_state := (wd_state w)\<lparr>st_locks := g\<rparr>\<rparr>)))"

definition on_lock_renew ::
  "('x, 'd) config \<Rightarrow> clock \<Rightarrow> frame \<Rightarrow> session \<Rightarrow> ('x, 'd) world \<Rightarrow> session \<times> ('x, 'd) world" where
  "on_lock_renew cf clk f s w =
     (case payload_json (de_lock_renew (cf_serde cf)) f of
        Inl e \<Rightarrow> (close_with (SNsmt e) s, w)
      | Inr l \<Rightarrow>
         (case renew (lr_path l) (lr_requester l) 30000 (clk 0) (st_locks (wd_state w)) of
            (ok, g) \<Rightarrow>
              (reply cf LockGranted (MLockGranted \<lparr>lg_path = lr_path l, lg_expires_at = clk 1 + 30000\<rparr>) s,
               w\<lparr>wd_state := (wd_state w)\<lparr>st_locks := g\<rparr>\<rparr>)))"

definition on_lock_release ::
  "('x, 'd) config \<Rightarrow> frame \<Rightarrow> session \<Rightarrow> ('x, 'd) world \<Rightarrow> session \<times> ('x, 'd) world" where
  "on_lock_release cf f s w =
     (case payload_json (de_lock_release (cf_serde cf)) f of
        Inl e \<Rightarrow> (close_with (SNsmt e) s, w)
      | Inr l \<Rightarrow>
         (case release (lrel_path l) (lrel_requester l) (st_locks (wd_state w)) of
            (ok, g) \<Rightarrow>
              notify_lock cf \<lparr>ln_path = lrel_path l, ln_event = ''unlocked'', ln_holder = None\<rparr> s
                (w\<lparr>wd_state := (wd_state w)\<lparr>st_locks := g\<rparr>\<rparr>)))"

section \<open>Memory\<close>

definition on_memory_recall ::
  "('x, 'd) config \<Rightarrow> u64 \<Rightarrow> frame \<Rightarrow> session \<Rightarrow> ('x, 'd) world \<Rightarrow> session \<times> ('x, 'd) world" where
  "on_memory_recall cf elapsed f s w =
     (case payload_json (de_memory_recall (cf_serde cf)) f of
        Inl e \<Rightarrow> (close_with (SNsmt e) s, w)
      | Inr msg \<Rightarrow>
         (case pool_recall (cf_gateways cf) (st_pool (wd_state w)) msg elapsed of
            Inr r \<Rightarrow> (reply cf MemoryRecallResult (MMemoryRecallResult r) s, w)
          | Inl e \<Rightarrow>
              (reply cf MemoryRecallResult (MMemoryRecallResult
                 \<lparr>mrr_request_id = mr_request_id msg, mrr_source = ''pool_unavailable'',
                  mrr_memories = [], mrr_latency_ms = 0\<rparr>) s, w)))"

definition on_memory_capture ::
  "('x, 'd) config \<Rightarrow> frame \<Rightarrow> session \<Rightarrow> ('x, 'd) world \<Rightarrow> session \<times> ('x, 'd) world" where
  "on_memory_capture cf f s w =
     (case payload_json (de_memory_capture (cf_serde cf)) f of
        Inl e \<Rightarrow> (close_with (SNsmt e) s, w)
      | Inr msg \<Rightarrow>
         (case pool_capture (cf_gateways cf) (cf_crates cf) (st_pool (wd_state w)) msg of
            None \<Rightarrow> (close_with SPanic s, w)
          | Some (Inr r) \<Rightarrow> (reply cf MemoryCaptureResult (MMemoryCaptureResult r) s, w)
          | Some (Inl e) \<Rightarrow>
              (reply cf MemoryCaptureResult (MMemoryCaptureResult
                 \<lparr>mcr_request_id = mc_request_id msg, mcr_committed = False, mcr_queued = True\<rparr>) s, w)))"

section \<open>The ready loop\<close>

definition beat :: "u64 \<Rightarrow> session \<Rightarrow> ('x, 'd) world \<Rightarrow> ('x, 'd) world" where
  "beat now s w = w\<lparr>wd_state := (wd_state w)\<lparr>st_registry :=
     heartbeat_refresh now (se_domain s) (se_machine s) (st_registry (wd_state w))\<rparr>\<rparr>"

definition on_frame ::
  "('x, 'd) config \<Rightarrow> clock \<Rightarrow> frame \<Rightarrow> session \<Rightarrow> ('x, 'd) world \<Rightarrow> session \<times> ('x, 'd) world" where
  "on_frame cf clk f s w =
     (case frame_type f of
        FileChunk \<Rightarrow> on_file_chunk cf f s w
      | Heartbeat \<Rightarrow> (s, beat (clk 0) s w)
      | MemoryRecall \<Rightarrow> on_memory_recall cf (clk 1 - clk 0) f s w
      | MemoryCapture \<Rightarrow> on_memory_capture cf f s w
      | FileTree \<Rightarrow> on_file_tree cf f s w
      | FileDiff \<Rightarrow> on_file_diff cf f s w
      | FileGet \<Rightarrow> on_file_get cf f s w
      | FilePut \<Rightarrow> on_file_put cf f s w
      | LockAcquire \<Rightarrow> on_lock_acquire cf clk f s w
      | LockRenew \<Rightarrow> on_lock_renew cf clk f s w
      | LockRelease \<Rightarrow> on_lock_release cf f s w
      | _ \<Rightarrow> (s, w))"

text \<open>After the loop: the leave broadcast, then \<open>Ok(())\<close>.\<close>

definition leave_session ::
  "('x, 'd) config \<Rightarrow> session \<Rightarrow> ('x, 'd) world \<Rightarrow> session \<times> ('x, 'd) world" where
  "leave_session cf s w =
     (case from_json (cf_serde cf) OnlineDelta 0 (MOnlineDelta \<lparr>od_kind = Leave, od_machine =
            \<lparr>mi_machine_id = se_machine s, mi_agents = [], mi_addr = [], mi_peer_addr = [],
             mi_machine_pubkey = [], mi_last_seen = 0\<rparr>\<rparr>) of
        Inl e \<Rightarrow> (close_with (SNsmt e) s, w)
      | Inr f \<Rightarrow>
         (s\<lparr>se_phase := Closed None\<rparr>,
          w\<lparr>wd_state := (wd_state w)\<lparr>st_registry := broadcast (se_domain s) f (st_registry (wd_state w))\<rparr>\<rparr>))"

definition ready_step ::
  "('x, 'd) config \<Rightarrow> clock \<Rightarrow> input \<Rightarrow> session \<Rightarrow> ('x, 'd) world \<Rightarrow> session \<times> ('x, 'd) world" where
  "ready_step cf clk inp s w =
     (case inp of
        Tick \<Rightarrow> (s, beat (clk 0) s w)
      | Event \<Rightarrow>
         (case chan_recv (se_chan s) (st_registry (wd_state w)) of
            (None, _) \<Rightarrow> (s, w)
          | (Some f, R) \<Rightarrow>
              (let w1 = w\<lparr>wd_state := (wd_state w)\<lparr>st_registry := R\<rparr>\<rparr> in
               case sess_send f s of
                 Inl e \<Rightarrow> leave_session cf s w1
               | Inr s' \<Rightarrow> (s', w1)))
      | Recv f \<Rightarrow> on_frame cf clk f s w
      | RecvEof \<Rightarrow> leave_session cf s w
      | RecvErr e \<Rightarrow> leave_session cf s w)"

text \<open>When the handler returns, its receiver is dropped.\<close>

definition drop_rx :: "nat \<Rightarrow> ('x, 'd) world \<Rightarrow> ('x, 'd) world" where
  "drop_rx ch w = w\<lparr>wd_state := (wd_state w)\<lparr>st_registry := chan_drop ch (st_registry (wd_state w))\<rparr>\<rparr>"

section \<open>Handshake\<close>

text \<open>\<open>nonce()\<close>; \<open>mid\<close> is the server's own machine id.\<close>

definition nonce :: "u64 \<Rightarrow> string \<Rightarrow> string" where
  "nonce now mid = ''nsmt-nonce-'' @ fmt_dec (unat now) @ ''-'' @ mid"

definition nsmt_home :: "env \<Rightarrow> string" where
  "nsmt_home env =
     (case env ''NSMT_HOME'' of
        Some h \<Rightarrow> h
      | None \<Rightarrow> (case env ''HOME'' of Some h \<Rightarrow> h @ ''/.nsmt'' | None \<Rightarrow> ''.nsmt''))"

definition on_hello ::
  "('x, 'd) config \<Rightarrow> clock \<Rightarrow> string \<Rightarrow> frame \<Rightarrow> session \<Rightarrow> session" where
  "on_hello cf clk mid f s =
     (if frame_type f \<noteq> Hello then close_with (ExpectedHello (frame_type f)) s
      else (case payload_json (de_hello (cf_serde cf)) f of
              Inl e \<Rightarrow> close_with (SNsmt e) s
            | Inr h \<Rightarrow>
               (let n = nonce (clk 0) mid in
                case sess_send_json (cf_serde cf) HelloAck
                       (MHelloAck \<lparr>hello_ack_nonce = n, hello_ack_tenant_exists = True\<rparr>) s of
                  Inl e \<Rightarrow> close_with (SNsmt e) s
                | Inr s' \<Rightarrow> s'\<lparr>se_phase := AwaitAuth (hello_user_domain h) n\<rparr>)))"

text \<open>\<open>send_error\<close> and \<open>return Ok(())\<close>.\<close>

definition refuse :: "('x, 'd) config \<Rightarrow> string \<Rightarrow> string \<Rightarrow> session \<Rightarrow> session" where
  "refuse cf code text s =
     (case sess_send_json (cf_serde cf) Error (error_msg_of code text) s of
        Inl e \<Rightarrow> close_with (SNsmt e) s
      | Inr s' \<Rightarrow> s'\<lparr>se_phase := Closed None\<rparr>)"

definition on_auth ::
  "('x, 'd) config \<Rightarrow> string \<Rightarrow> string \<Rightarrow> frame \<Rightarrow> session \<Rightarrow> ('x, 'd) world \<Rightarrow> session" where
  "on_auth cf ud n f s w =
     (case payload_json (de_auth (cf_serde cf)) f of
        Inl e \<Rightarrow> close_with (SNsmt e) s
      | Inr a \<Rightarrow>
         (case verify_auth (cf_crates cf) ud n (auth_nonce_signature a) (wd_tenants w) of
            Inl e \<Rightarrow> refuse cf ''0xE002'' (''auth_failed: '' @ e) s
          | Inr () \<Rightarrow> s\<lparr>se_phase := AwaitRegister ud\<rparr>))"

text \<open>What follows an accepted REGISTER, up to the ready loop.\<close>

definition enter_ready ::
  "('x, 'd) config \<Rightarrow> clock \<Rightarrow> string \<Rightarrow> register \<Rightarrow> session \<Rightarrow> ('x, 'd) world \<Rightarrow> session \<times> ('x, 'd) world" where
  "enter_ready cf clk ud reg s w =
     (let info = \<lparr>mi_machine_id = reg_machine_id reg, mi_agents = [reg_agent_tag reg], mi_addr = se_addr s,
                  mi_peer_addr = reg_peer_addr reg, mi_machine_pubkey = reg_machine_pubkey reg,
                  mi_last_seen = clk 0\<rparr>;
          (snapshot, R1) = Registry.register ud info (st_registry (wd_state w));
          w1 = w\<lparr>wd_state := (wd_state w)\<lparr>st_registry := R1\<rparr>\<rparr>
      in case sess_send_json (cf_serde cf) RegisterAck (MRegisterAck \<lparr>reg_ack_machines = snapshot\<rparr>) s of
           Inl e \<Rightarrow> (close_with (SNsmt e) s, w1)
         | Inr s1 \<Rightarrow>
            (let ((_, ch), R2) = subscribe ud R1;
                 w2 = w1\<lparr>wd_state := (wd_state w1)\<lparr>st_registry := R2\<rparr>\<rparr>
             in case from_json (cf_serde cf) OnlineDelta 0
                       (MOnlineDelta \<lparr>od_kind = Join, od_machine = info\<rparr>) of
                  Inl e \<Rightarrow> (close_with (SNsmt e) s1, drop_rx ch w2)
                | Inr f \<Rightarrow>
                   (let R3 = broadcast_except ud f ch R2;
                        st3 = (wd_state w2)\<lparr>st_registry := R3\<rparr>;
                        home = nsmt_home (cf_env cf);
                        (objects, st4) = object_store_for (cf_env cf) (cf_s3 cf) (wd_next w2) ud home st3;
                        W4 = (wd_storage w2)\<lparr>remote := (remote (wd_storage w2))(wd_next w2 := cf_mem_init cf)\<rparr>
                    in (s1\<lparr>se_phase := Ready, se_domain := ud, se_machine := reg_machine_id reg, se_chan := ch,
                           se_fs := server_fs_new home ud objects, se_pending := None\<rparr>,
                        w2\<lparr>wd_state := st4, wd_storage := W4, wd_next := Suc (wd_next w2)\<rparr>))))"

definition on_register ::
  "('x, 'd) config \<Rightarrow> clock \<Rightarrow> string \<Rightarrow> frame \<Rightarrow> session \<Rightarrow> ('x, 'd) world \<Rightarrow> session \<times> ('x, 'd) world" where
  "on_register cf clk ud f s w =
     (case payload_json (de_register (cf_serde cf)) f of
        Inl e \<Rightarrow> (close_with (SNsmt e) s, w)
      | Inr reg \<Rightarrow>
         (case verify_register (cf_crates cf) ud (reg_machine_id reg) (reg_agent_tag reg)
                 (reg_machine_pubkey reg) (reg_machine_signature reg) (wd_tenants w) of
            (Inl e, g) \<Rightarrow> (refuse cf ''0xE004'' (''register_failed: '' @ e) s, w\<lparr>wd_tenants := g\<rparr>)
          | (Inr (), g) \<Rightarrow> enter_ready cf clk ud reg s (w\<lparr>wd_tenants := g\<rparr>)))"

definition handshake_step ::
  "string \<Rightarrow> (frame \<Rightarrow> session \<times> ('x, 'd) world) \<Rightarrow> input \<Rightarrow> session \<Rightarrow>
   ('x, 'd) world \<Rightarrow> session \<times> ('x, 'd) world" where
  "handshake_step what k inp s w =
     (case inp of
        Recv f \<Rightarrow> k f
      | RecvEof \<Rightarrow> (close_with (EofBefore what) s, w)
      | RecvErr e \<Rightarrow> (close_with (SNsmt e) s, w)
      | _ \<Rightarrow> (s, w))"

definition session_step ::
  "('x, 'd) config \<Rightarrow> clock \<Rightarrow> string \<Rightarrow> input \<Rightarrow> session \<times> ('x, 'd) world \<Rightarrow> session \<times> ('x, 'd) world" where
  "session_step cf clk mid inp sw =
     (case sw of (s, w) \<Rightarrow>
        (case se_phase s of
           AwaitHello \<Rightarrow> handshake_step ''hello'' (\<lambda>f. (on_hello cf clk mid f s, w)) inp s w
         | AwaitAuth ud n \<Rightarrow> handshake_step ''auth'' (\<lambda>f. (on_auth cf ud n f s w, w)) inp s w
         | AwaitRegister ud \<Rightarrow>
             handshake_step ''register'' (\<lambda>f. on_register cf clk ud f s w) inp s w
         | Ready \<Rightarrow>
             (case ready_step cf clk inp s w of (s', w') \<Rightarrow>
                (s', if se_phase s' = Ready then w' else drop_rx (se_chan s') w'))
         | Closed r \<Rightarrow> (s, w)))"

fun session_run ::
  "('x, 'd) config \<Rightarrow> string \<Rightarrow> (clock \<times> input) list \<Rightarrow> session \<times> ('x, 'd) world \<Rightarrow> session \<times> ('x, 'd) world" where
  "session_run cf mid [] sw = sw"
| "session_run cf mid ((clk, inp) # ins) sw = session_run cf mid ins (session_step cf clk mid inp sw)"

definition session_new :: "string \<Rightarrow> session" where
  "session_new addr = \<lparr>se_phase = AwaitHello, se_addr = addr, se_domain = [], se_machine = [], se_chan = 0,
     se_fs = \<lparr>sf_root = [], sf_objects = LocalObjectStore []\<rparr>, se_pending = None, se_out = [], se_open = True\<rparr>"

end
