(* ===== verification/Handshake.thy ===== *)
theory Handshake
  imports Session "HOL-Library.Sublist"
begin

text \<open>
  The handshake of \<open>nsmt-server/src/session.rs\<close>: who reaches the ready loop, and what a
  connection can do before.
\<close>

section \<open>Handlers keep the identity of the session\<close>

definition same_id :: "session \<Rightarrow> session \<Rightarrow> bool" where
  "same_id s s' \<longleftrightarrow> se_domain s' = se_domain s \<and> se_machine s' = se_machine s \<and> se_chan s' = se_chan s \<and>
     se_fs s' = se_fs s \<and> se_addr s' = se_addr s \<and>
     (se_phase s' = se_phase s \<or> (\<exists>r. se_phase s' = Closed r)) \<and> prefix (se_out s) (se_out s')"

lemma same_id_refl [simp]: "same_id s s"
  by (simp add: same_id_def)

lemma same_id_trans: "same_id s s' \<Longrightarrow> same_id s' s'' \<Longrightarrow> same_id s s''"
  by (auto simp: same_id_def elim: prefix_order.trans)

lemma same_id_close [simp]: "same_id s (close_with e s') \<longleftrightarrow> same_id s (s'\<lparr>se_phase := Closed None\<rparr>)"
  by (auto simp: same_id_def close_with_def)

lemma same_id_closed [simp]: "same_id s (s\<lparr>se_phase := Closed r\<rparr>)"
  by (simp add: same_id_def)

lemma same_id_pending [simp]: "same_id s (s'\<lparr>se_pending := p\<rparr>) \<longleftrightarrow> same_id s s'"
  "same_id (s\<lparr>se_pending := p\<rparr>) s' \<longleftrightarrow> same_id s s'"
  by (simp_all add: same_id_def)

lemma sess_send_same: "sess_send f s = Inr s' \<Longrightarrow> same_id s s'"
  by (auto simp: sess_send_def and_then_eq_Inr same_id_def split: if_splits)

lemma sess_send_json_same: "sess_send_json S t m s = Inr s' \<Longrightarrow> same_id s s'"
  by (auto simp: sess_send_json_def and_then_eq_Inr intro: sess_send_same)

lemma reply_same [simp]: "same_id s (reply cf t m s)"
  by (auto simp: reply_def intro: sess_send_json_same split: sum.split)

lemma reply_pending [simp]: "same_id s (reply cf t m (s\<lparr>se_pending := p\<rparr>))"
  by (metis reply_same same_id_pending(2))

lemma finish_upload_same: "same_id s (fst (finish_upload cf pu s w))"
  by (simp add: finish_upload_def Let_def split: sum.split)

lemma on_file_chunk_same: "same_id s (fst (on_file_chunk cf f s w))"
proof (cases "se_pending s")
  case (Some pu)
  obtain r F where h: "handle_chunk cf (se_domain s) pu (payload f) (disk (wd_storage w)) = (r, F)"
    by (cases "handle_chunk cf (se_domain s) pu (payload f) (disk (wd_storage w))")
  show ?thesis
  proof (cases r)
    case (Inr pu')
    then show ?thesis using Some h finish_upload_same [of "s\<lparr>se_pending := None\<rparr>" cf pu' "upd_disk F w"] by (simp add: on_file_chunk_def)
  qed (use Some h in \<open>simp add: on_file_chunk_def\<close>)
qed (simp add: on_file_chunk_def)

lemma on_file_put_same: "same_id s (fst (on_file_put cf f s w))"
  by (simp add: on_file_put_def Let_def split: sum.split prod.split bool.split)

lemma notify_lock_same: "same_id s (fst (notify_lock cf n s w))"
  by (simp add: notify_lock_def split: sum.split)

lemma on_lock_acquire_same: "same_id s (fst (on_lock_acquire cf clk f s w))"
  by (auto simp: on_lock_acquire_def Let_def split: sum.split prod.split
      intro: same_id_trans [OF sess_send_json_same notify_lock_same])

lemma on_lock_release_same: "same_id s (fst (on_lock_release cf f s w))"
  by (auto simp: on_lock_release_def split: sum.split prod.split intro: notify_lock_same)

lemma on_lock_renew_same: "same_id s (fst (on_lock_renew cf clk f s w))"
  by (auto simp: on_lock_renew_def split: sum.split prod.split)

lemma on_file_tree_same: "same_id s (fst (on_file_tree cf f s w))"
  by (simp add: on_file_tree_def Let_def split: sum.split prod.split unit.split)

lemma on_file_diff_same: "same_id s (fst (on_file_diff cf f s w))"
  by (simp add: on_file_diff_def Let_def split: sum.split prod.split)

lemma on_memory_same: "same_id s (fst (on_memory_recall cf t f s w))" "same_id s (fst (on_memory_capture cf f s w))"
  by (simp_all add: on_memory_recall_def on_memory_capture_def split: sum.split option.split)

lemma closed_after: "same_id s s' \<Longrightarrow> same_id s (s'\<lparr>se_phase := Closed r\<rparr>)"
  by (auto simp: same_id_def)

lemma on_file_get_same: "same_id s (fst (on_file_get cf f s w))"
proof (cases "payload_json (de_file_get (cf_serde cf)) f")
  case (Inr g)
  have sent: "same_id s (fst (case sess_send c s of Inl e \<Rightarrow> (close_with (SNsmt e) s, w) | Inr s' \<Rightarrow> (s', w)))" for c
    by (cases "sess_send c s") (auto intro: sess_send_same)
  have told: "same_id s (fst (case sess_send_json S t m s of Inl e \<Rightarrow> (close_with (SNsmt e) s, w)
      | Inr s' \<Rightarrow> k s'))" if "\<And>s'. same_id s s' \<Longrightarrow> same_id s (fst (k s'))" for S t m k
    using that by (cases "sess_send_json S t m s") (auto intro: sess_send_json_same)
  show ?thesis
  proof (cases "get_object (cf_backend cf) (se_fs s) (fg_blob_id g) (wd_storage w)")
    case None
    show ?thesis
      unfolding on_file_get_def Inr None sum.case option.case Let_def
      by (rule told) (auto split: option.split sum.split intro: closed_after)
  next
    case (Some data)
    show ?thesis
      unfolding on_file_get_def Inr Some sum.case option.case Let_def
      using sent by (auto split: sum.split)
  qed
qed (simp add: on_file_get_def)

lemma leave_same: "same_id s (fst (leave_session cf s w))"
  by (simp add: leave_session_def split: sum.split)

lemmas handlers_same = on_file_chunk_same on_file_put_same on_lock_acquire_same on_lock_release_same
  on_lock_renew_same on_file_tree_same on_file_diff_same on_memory_same on_file_get_same

lemma on_frame_same: "same_id s (fst (on_frame cf clk f s w))"
  by (cases "frame_type f") (simp_all add: on_frame_def handlers_same)

lemma ready_step_same: "same_id s (fst (ready_step cf clk inp s w))"
  by (cases inp)
    (auto simp: ready_step_def Let_def on_frame_same leave_same split: prod.split option.split sum.split
      intro: sess_send_same)

section \<open>The three steps of the handshake\<close>

definition hello_ok :: "('x, 'd) config \<Rightarrow> string \<Rightarrow> string \<Rightarrow> string \<Rightarrow> clock \<times> input \<Rightarrow> bool" where
  "hello_ok cf mid ud n ci \<longleftrightarrow> (\<exists>f h. snd ci = Recv f \<and> frame_type f = Hello \<and>
     de_hello (cf_serde cf) (payload f) = Some h \<and> hello_user_domain h = ud \<and> n = nonce (fst ci 0) mid)"

definition auth_ok :: "('x, 'd) config \<Rightarrow> tenant_store \<Rightarrow> string \<Rightarrow> string \<Rightarrow> clock \<times> input \<Rightarrow> bool" where
  "auth_ok cf g ud n ci \<longleftrightarrow> (\<exists>f a. snd ci = Recv f \<and> de_auth (cf_serde cf) (payload f) = Some a \<and>
     verify_auth (cf_crates cf) ud n (auth_nonce_signature a) g = Inr ())"

definition register_ok :: "('x, 'd) config \<Rightarrow> tenant_store \<Rightarrow> string \<Rightarrow> string \<Rightarrow> clock \<times> input \<Rightarrow> bool" where
  "register_ok cf g ud machine ci \<longleftrightarrow> (\<exists>f r. snd ci = Recv f \<and> de_register (cf_serde cf) (payload f) = Some r \<and>
     reg_machine_id r = machine \<and>
     fst (verify_register (cf_crates cf) ud machine (reg_agent_tag r) (reg_machine_pubkey r)
       (reg_machine_signature r) g) = Inr ())"

text \<open>What the phases say about the inputs so far; \<open>w0\<close> is the world at the start.\<close>

definition handshake_inv ::
  "('x, 'd) config \<Rightarrow> string \<Rightarrow> ('x, 'd) world \<Rightarrow> (clock \<times> input) list \<Rightarrow> session \<times> ('x, 'd) world \<Rightarrow> bool" where
  "handshake_inv cf mid w0 ins sw \<longleftrightarrow>
     (case se_phase (fst sw) of
        AwaitHello \<Rightarrow> snd sw = w0
      | AwaitAuth ud n \<Rightarrow> snd sw = w0 \<and> (\<exists>i1. subseq [i1] ins \<and> hello_ok cf mid ud n i1)
      | AwaitRegister ud \<Rightarrow> snd sw = w0 \<and> (\<exists>i1 i2 n. subseq [i1, i2] ins \<and> hello_ok cf mid ud n i1 \<and>
          auth_ok cf (wd_tenants w0) ud n i2)
      | Ready \<Rightarrow> (\<exists>i1 i2 i3 n. subseq [i1, i2, i3] ins \<and> hello_ok cf mid (se_domain (fst sw)) n i1 \<and>
          auth_ok cf (wd_tenants w0) (se_domain (fst sw)) n i2 \<and>
          register_ok cf (wd_tenants w0) (se_domain (fst sw)) (se_machine (fst sw)) i3)
      | Closed r \<Rightarrow> True)"

lemma subseq_snoc: "subseq xs ys \<Longrightarrow> subseq (xs @ [y]) (ys @ [y])"
  by (rule list_emb_append_mono) simp_all

lemma subseq_more: "subseq xs ys \<Longrightarrow> subseq xs (ys @ [y])"
  using list_emb_append_mono [of "(=)" xs ys "[]" "[y]"] by simp

lemma refuse_phase: "\<exists>r. se_phase (refuse cf code t s) = Closed r"
  by (auto simp: refuse_def close_with_def split: sum.split)

lemma on_hello_phase:
  "se_phase (on_hello cf clk mid f s) = AwaitAuth ud n \<and> hello_ok cf mid ud n (clk, Recv f) \<or>
   (\<exists>r. se_phase (on_hello cf clk mid f s) = Closed r)" if "ud = (case de_hello (cf_serde cf) (payload f) of
     Some h \<Rightarrow> hello_user_domain h | None \<Rightarrow> [])" "n = nonce (clk 0) mid"
  using that by (auto simp: on_hello_def hello_ok_def Let_def close_with_def payload_json_def ok_or_def
      split: sum.split option.split)

lemma on_auth_phase:
  "(\<exists>r. se_phase (on_auth cf ud n f s w) = Closed r) \<or>
   se_phase (on_auth cf ud n f s w) = AwaitRegister ud \<and> auth_ok cf (wd_tenants w) ud n (clk, Recv f)"
  using refuse_phase
  by (auto simp: on_auth_def auth_ok_def close_with_def split: sum.split unit.split)

lemma enter_ready_phase:
  "(\<exists>r. se_phase (fst (enter_ready cf clk ud reg s w)) = Closed r) \<or>
   se_phase (fst (enter_ready cf clk ud reg s w)) = Ready \<and> se_domain (fst (enter_ready cf clk ud reg s w)) = ud \<and>
   se_machine (fst (enter_ready cf clk ud reg s w)) = reg_machine_id reg"
  by (auto simp: enter_ready_def Let_def close_with_def split: sum.split prod.split)

lemma on_register_phase:
  "(\<exists>r. se_phase (fst (on_register cf clk ud f s w)) = Closed r) \<or>
   se_phase (fst (on_register cf clk ud f s w)) = Ready \<and> se_domain (fst (on_register cf clk ud f s w)) = ud \<and>
   register_ok cf (wd_tenants w) ud (se_machine (fst (on_register cf clk ud f s w))) (clk, Recv f)"
proof (cases "de_register (cf_serde cf) (payload f)")
  case (Some reg)
  then have pj: "payload_json (de_register (cf_serde cf)) f = Inr reg" by simp
  obtain r g where v: "verify_register (cf_crates cf) ud (reg_machine_id reg) (reg_agent_tag reg)
      (reg_machine_pubkey reg) (reg_machine_signature reg) (wd_tenants w) = (r, g)"
    by (cases "verify_register (cf_crates cf) ud (reg_machine_id reg) (reg_agent_tag reg)
      (reg_machine_pubkey reg) (reg_machine_signature reg) (wd_tenants w)")
  show ?thesis
  proof (cases r)
    case (Inl e)
    then show ?thesis unfolding on_register_def pj sum.case v by (simp add: refuse_phase)
  next
    case (Inr u)
    then have r: "r = Inr ()" by (cases u) simp
    have "on_register cf clk ud f s w = enter_ready cf clk ud reg s (w\<lparr>wd_tenants := g\<rparr>)"
      unfolding on_register_def pj sum.case v r prod.case old.unit.case by (rule refl)
    then show ?thesis
      using enter_ready_phase [of cf clk ud reg s "w\<lparr>wd_tenants := g\<rparr>"] Some v Inr
      by (auto simp: register_ok_def)
  qed
qed (simp add: on_register_def payload_json_def close_with_def)

text \<open>The invariant through one step, by the phase of the session.\<close>

lemma handshake_inv_hello:
  assumes "handshake_inv cf mid w0 ins (s, w)" and ph: "se_phase s = AwaitHello"
  shows "handshake_inv cf mid w0 (ins @ [(clk, inp)]) (session_step cf clk mid inp (s, w))"
proof (cases inp)
  case (Recv f)
  define ud where "ud = (case de_hello (cf_serde cf) (payload f) of Some h \<Rightarrow> hello_user_domain h | None \<Rightarrow> [])"
  have "subseq [(clk, inp)] (ins @ [(clk, inp)])" using subseq_snoc [of "[]" ins "(clk, inp)"] by simp
  then show ?thesis
    using assms Recv on_hello_phase [OF ud_def, of "nonce (clk 0) mid" clk mid s]
    by (auto simp: session_step_def handshake_step_def handshake_inv_def simp del: split_paired_Ex)
qed (use assms in \<open>auto simp: session_step_def handshake_step_def handshake_inv_def close_with_def\<close>)

lemma handshake_inv_auth:
  assumes "handshake_inv cf mid w0 ins (s, w)" and ph: "se_phase s = AwaitAuth ud n"
  shows "handshake_inv cf mid w0 (ins @ [(clk, inp)]) (session_step cf clk mid inp (s, w))"
proof -
  from assms obtain i1 where w: "w = w0" and i: "subseq [i1] ins" "hello_ok cf mid ud n i1"
    by (auto simp: handshake_inv_def)
  have "subseq [i1, (clk, inp)] (ins @ [(clk, inp)])" "subseq [i1] (ins @ [(clk, inp)])"
    using subseq_snoc [OF i(1), of "(clk, inp)"] subseq_more [OF i(1)] by simp_all
  note i = this i(2)
  show ?thesis
  proof (cases inp)
    case (Recv f)
    then show ?thesis
      using ph w i on_auth_phase [of cf ud n f s w clk]
      by (auto simp: session_step_def handshake_step_def handshake_inv_def simp del: split_paired_Ex; blast)
  qed (use ph w i in
      \<open>auto simp: session_step_def handshake_step_def handshake_inv_def close_with_def simp del: split_paired_Ex\<close>)
qed

lemma handshake_inv_register:
  assumes "handshake_inv cf mid w0 ins (s, w)" and ph: "se_phase s = AwaitRegister ud"
  shows "handshake_inv cf mid w0 (ins @ [(clk, inp)]) (session_step cf clk mid inp (s, w))"
proof -
  from assms obtain i1 i2 n where w: "w = w0" and i: "subseq [i1, i2] ins" "hello_ok cf mid ud n i1"
    "auth_ok cf (wd_tenants w0) ud n i2"
    by (auto simp: handshake_inv_def)
  have "subseq [i1, i2, (clk, inp)] (ins @ [(clk, inp)])" "subseq [i1, i2] (ins @ [(clk, inp)])"
    using subseq_snoc [OF i(1), of "(clk, inp)"] subseq_more [OF i(1)] by simp_all
  note i = this i(2,3)
  show ?thesis
  proof (cases inp)
    case (Recv f)
    then show ?thesis
      using ph w i on_register_phase [of cf clk ud f s w]
      by (auto simp: session_step_def handshake_step_def handshake_inv_def simp del: split_paired_Ex; blast)
  qed (use ph w i in
      \<open>auto simp: session_step_def handshake_step_def handshake_inv_def close_with_def simp del: split_paired_Ex\<close>)
qed

lemma handshake_inv_ready:
  assumes "handshake_inv cf mid w0 ins (s, w)" and ph: "se_phase s = Ready"
  shows "handshake_inv cf mid w0 (ins @ [(clk, inp)]) (session_step cf clk mid inp (s, w))"
proof -
  from assms obtain i1 i2 i3 n where i: "subseq [i1, i2, i3] ins" "hello_ok cf mid (se_domain s) n i1"
    "auth_ok cf (wd_tenants w0) (se_domain s) n i2" "register_ok cf (wd_tenants w0) (se_domain s) (se_machine s) i3"
    by (auto simp: handshake_inv_def)
  obtain s' w' where r: "ready_step cf clk inp s w = (s', w')" by (cases "ready_step cf clk inp s w")
  have "same_id s s'" using ready_step_same [of s cf clk inp w] r by simp
  then show ?thesis
    using ph i subseq_more [OF i(1), of "(clk, inp)"] r
    by (auto simp: session_step_def handshake_inv_def same_id_def simp del: split_paired_Ex; blast)
qed

lemma handshake_inv_step:
  assumes "handshake_inv cf mid w0 ins (s, w)"
  shows "handshake_inv cf mid w0 (ins @ [(clk, inp)]) (session_step cf clk mid inp (s, w))"
proof (cases "se_phase s")
  case AwaitHello
  then show ?thesis by (rule handshake_inv_hello [OF assms])
next
  case AwaitAuth
  then show ?thesis by (rule handshake_inv_auth [OF assms])
next
  case AwaitRegister
  then show ?thesis by (rule handshake_inv_register [OF assms])
next
  case Ready
  then show ?thesis by (rule handshake_inv_ready [OF assms])
next
  case Closed
  then show ?thesis by (simp add: session_step_def handshake_inv_def)
qed

lemma session_run_append:
  "session_run cf mid (xs @ ys) sw = session_run cf mid ys (session_run cf mid xs sw)"
proof (induction xs arbitrary: sw)
  case (Cons x xs)
  then show ?case by (cases x) simp
qed simp

lemma handshake_inv_run: "handshake_inv cf mid w ins (session_run cf mid ins (session_new addr, w))"
proof (induction ins rule: rev_induct)
  case Nil
  then show ?case by (simp add: handshake_inv_def session_new_def)
next
  case (snoc x ins)
  obtain s' w' where r: "session_run cf mid ins (session_new addr, w) = (s', w')"
    by (cases "session_run cf mid ins (session_new addr, w)")
  show ?case using handshake_inv_step [of cf mid w ins s' w' "fst x" "snd x"] snoc r
    by (cases x) (simp add: session_run_append)
qed

section \<open>Admission\<close>

text \<open>A message that the serialiser and the codec accept.\<close>

definition sendable :: "serde \<Rightarrow> frame_type \<Rightarrow> msg \<Rightarrow> bool" where
  "sendable S t m \<longleftrightarrow> (case from_json S t 0 m of Inl _ \<Rightarrow> False | Inr f \<Rightarrow> (\<exists>v. encode f = Inr v))"

definition sent :: "serde \<Rightarrow> frame_type \<Rightarrow> msg \<Rightarrow> frame" where
  "sent S t m = projr (from_json S t 0 m)"

lemma sess_send_json_sendable:
  assumes "sendable S t m" and "se_open s"
  shows "sess_send_json S t m s = Inr (s\<lparr>se_out := se_out s @ [sent S t m]\<rparr>)"
proof -
  obtain f v where f: "from_json S t 0 m = Inr f" "encode f = Inr v"
    using assms(1) by (auto simp: sendable_def split: sum.splits)
  show ?thesis unfolding sess_send_json_def sent_def f(1) using f(2) assms(2) by (simp add: sess_send_def)
qed

definition join_info :: "clock \<Rightarrow> string \<Rightarrow> register \<Rightarrow> machine_info" where
  "join_info clk addr reg = \<lparr>mi_machine_id = reg_machine_id reg, mi_agents = [reg_agent_tag reg], mi_addr = addr,
     mi_peer_addr = reg_peer_addr reg, mi_machine_pubkey = reg_machine_pubkey reg, mi_last_seen = clk 0\<rparr>"

definition register_reply :: "string \<Rightarrow> clock \<Rightarrow> string \<Rightarrow> register \<Rightarrow> registry \<Rightarrow> msg" where
  "register_reply ud clk addr reg R =
     MRegisterAck \<lparr>reg_ack_machines = fst (Registry.register ud (join_info clk addr reg) R)\<rparr>"

lemma enter_ready_admits:
  assumes "se_open s" and "sendable (cf_serde cf) RegisterAck (register_reply ud clk (se_addr s) reg (st_registry (wd_state w)))"
    and "sendable (cf_serde cf) OnlineDelta (MOnlineDelta \<lparr>od_kind = Join, od_machine = join_info clk (se_addr s) reg\<rparr>)"
  shows "\<exists>s' w'. enter_ready cf clk ud reg s w = (s', w') \<and> se_phase s' = Ready \<and> se_domain s' = ud \<and>
    se_machine s' = reg_machine_id reg \<and>
    se_out s' = se_out s @ [sent (cf_serde cf) RegisterAck (register_reply ud clk (se_addr s) reg (st_registry (wd_state w)))] \<and>
    online_machine ud (reg_machine_id reg) (st_registry (wd_state w')) = Some (join_info clk (se_addr s) reg)"
proof -
  let ?i = "join_info clk (se_addr s) reg" and ?R = "st_registry (wd_state w)"
  obtain snap R1 where R1: "Registry.register ud ?i ?R = (snap, R1)" by (cases "Registry.register ud ?i ?R")
  obtain x ch R2 where R2: "subscribe ud R1 = ((x, ch), R2)" by (metis prod.collapse)
  obtain f where f: "from_json (cf_serde cf) OnlineDelta 0 (MOnlineDelta \<lparr>od_kind = Join, od_machine = ?i\<rparr>) = Inr f"
    using assms(3) by (auto simp: sendable_def split: sum.splits)
  have on: "online_machine ud (mi_machine_id ?i) (broadcast_except ud f ch R2) = Some ?i"
    using R1 R2 by (auto simp: Registry.register_def subscribe_def online_machine_def Let_def tenant_or_default_def)
  let ?s1 = "s\<lparr>se_out := se_out s @ [sent (cf_serde cf) RegisterAck (MRegisterAck \<lparr>reg_ack_machines = snap\<rparr>)]\<rparr>"
  have send: "sess_send_json (cf_serde cf) RegisterAck (MRegisterAck \<lparr>reg_ack_machines = snap\<rparr>) s = Inr ?s1"
    using assms(1,2) R1 by (intro sess_send_json_sendable) (simp_all add: register_reply_def)
  define st3 where "st3 = (wd_state w)\<lparr>st_registry := broadcast_except ud f ch R2\<rparr>"
  let ?home = "nsmt_home (cf_env cf)"
  obtain ob st4 where st4: "object_store_for (cf_env cf) (cf_s3 cf) (wd_next w) ud ?home st3 = (ob, st4)"
    by (cases "object_store_for (cf_env cf) (cf_s3 cf) (wd_next w) ud ?home st3")
  then have reg4: "st_registry st4 = broadcast_except ud f ch R2"
    by (auto simp: object_store_for_def st3_def Let_def split: option.splits)
  obtain w' where "enter_ready cf clk ud reg s w = (?s1\<lparr>se_phase := Ready, se_domain := ud,
      se_machine := reg_machine_id reg, se_chan := ch, se_fs := server_fs_new ?home ud ob, se_pending := None\<rparr>, w')"
    and w': "wd_state w' = st4"
    unfolding enter_ready_def Let_def join_info_def [symmetric] R1 prod.case send sum.case
    by (simp add: R2 f st3_def [symmetric] st4)
  with on reg4 R1 show ?thesis by (auto simp: join_info_def register_reply_def)
qed

abbreviation hello_reply :: "clock \<Rightarrow> string \<Rightarrow> msg" where
  "hello_reply clk mid \<equiv> MHelloAck \<lparr>hello_ack_nonce = nonce (clk 0) mid, hello_ack_tenant_exists = True\<rparr>"

lemma hello_step:
  assumes "se_phase s = AwaitHello" and "se_open s" and "frame_type f = Hello"
    and "de_hello (cf_serde cf) (payload f) = Some h" and "sendable (cf_serde cf) HelloAck (hello_reply clk mid)"
  shows "session_step cf clk mid (Recv f) (s, w) =
    (s\<lparr>se_out := se_out s @ [sent (cf_serde cf) HelloAck (hello_reply clk mid)],
       se_phase := AwaitAuth (hello_user_domain h) (nonce (clk 0) mid)\<rparr>, w)"
proof -
  have p: "payload_json (de_hello (cf_serde cf)) f = Inr h" using assms(4) by simp
  have "on_hello cf clk mid f s = s\<lparr>se_out := se_out s @ [sent (cf_serde cf) HelloAck (hello_reply clk mid)],
       se_phase := AwaitAuth (hello_user_domain h) (nonce (clk 0) mid)\<rparr>"
    unfolding on_hello_def Let_def p sum.case using sess_send_json_sendable [OF assms(5,2)] assms(3) by simp
  then show ?thesis using assms(1) by (simp add: session_step_def handshake_step_def)
qed

lemma auth_step:
  assumes "se_phase s = AwaitAuth ud n" and "de_auth (cf_serde cf) (payload f) = Some a"
    and "verify_auth (cf_crates cf) ud n (auth_nonce_signature a) (wd_tenants w) = Inr ()"
  shows "session_step cf clk mid (Recv f) (s, w) = (s\<lparr>se_phase := AwaitRegister ud\<rparr>, w)"
proof -
  have p: "payload_json (de_auth (cf_serde cf)) f = Inr a" using assms(2) by simp
  have "on_auth cf ud n f s w = s\<lparr>se_phase := AwaitRegister ud\<rparr>"
    unfolding on_auth_def p sum.case assms(3) old.unit.case by simp
  then show ?thesis using assms(1) by (simp add: session_step_def handshake_step_def)
qed

lemma register_step:
  assumes "se_phase s = AwaitRegister ud" and "se_open s" and "de_register (cf_serde cf) (payload f) = Some reg"
    and "verify_register (cf_crates cf) ud (reg_machine_id reg) (reg_agent_tag reg)
      (reg_machine_pubkey reg) (reg_machine_signature reg) (wd_tenants w) = (Inr (), g)"
    and "sendable (cf_serde cf) RegisterAck (register_reply ud clk (se_addr s) reg (st_registry (wd_state w)))"
    and "sendable (cf_serde cf) OnlineDelta (MOnlineDelta \<lparr>od_kind = Join, od_machine = join_info clk (se_addr s) reg\<rparr>)"
  shows "\<exists>s' w'. session_step cf clk mid (Recv f) (s, w) = (s', w') \<and> se_phase s' = Ready \<and> se_domain s' = ud \<and>
    se_machine s' = reg_machine_id reg \<and>
    se_out s' = se_out s @ [sent (cf_serde cf) RegisterAck (register_reply ud clk (se_addr s) reg (st_registry (wd_state w)))] \<and>
    online_machine ud (reg_machine_id reg) (st_registry (wd_state w')) = Some (join_info clk (se_addr s) reg)"
proof -
  have p: "payload_json (de_register (cf_serde cf)) f = Inr reg" using assms(3) by simp
  have "on_register cf clk ud f s w = enter_ready cf clk ud reg s (w\<lparr>wd_tenants := g\<rparr>)"
    unfolding on_register_def p sum.case assms(4) prod.case old.unit.case by (rule refl)
  then have "session_step cf clk mid (Recv f) (s, w) = enter_ready cf clk ud reg s (w\<lparr>wd_tenants := g\<rparr>)"
    using assms(1) by (simp add: session_step_def handshake_step_def)
  then show ?thesis using enter_ready_admits [OF assms(2), of cf ud clk reg "w\<lparr>wd_tenants := g\<rparr>"] assms(5,6) by simp
qed

lemma honest_handshake:
  assumes "frame_type f1 = Hello" and "de_hello (cf_serde cf) (payload f1) = Some h" and "hello_user_domain h = ud"
    and "sendable (cf_serde cf) HelloAck (hello_reply c1 mid)"
    and "de_auth (cf_serde cf) (payload f2) = Some a"
    and "verify_auth (cf_crates cf) ud (nonce (c1 0) mid) (auth_nonce_signature a) (wd_tenants w) = Inr ()"
    and "de_register (cf_serde cf) (payload f3) = Some reg"
    and "verify_register (cf_crates cf) ud (reg_machine_id reg) (reg_agent_tag reg)
      (reg_machine_pubkey reg) (reg_machine_signature reg) (wd_tenants w) = (Inr (), g)"
    and "sendable (cf_serde cf) RegisterAck (register_reply ud c3 addr reg (st_registry (wd_state w)))"
    and "sendable (cf_serde cf) OnlineDelta (MOnlineDelta \<lparr>od_kind = Join, od_machine = join_info c3 addr reg\<rparr>)"
  shows "\<exists>s' w'. session_run cf mid [(c1, Recv f1), (c2, Recv f2), (c3, Recv f3)] (session_new addr, w) = (s', w') \<and>
    se_phase s' = Ready \<and> se_domain s' = ud \<and> se_machine s' = reg_machine_id reg \<and>
    se_out s' = [sent (cf_serde cf) HelloAck (hello_reply c1 mid),
      sent (cf_serde cf) RegisterAck (register_reply ud c3 addr reg (st_registry (wd_state w)))] \<and>
    online_machine ud (reg_machine_id reg) (st_registry (wd_state w')) = Some (join_info c3 addr reg)"
proof -
  let ?s0 = "session_new addr"
  let ?s1 = "?s0\<lparr>se_out := [sent (cf_serde cf) HelloAck (hello_reply c1 mid)], se_phase := AwaitAuth ud (nonce (c1 0) mid)\<rparr>"
  let ?s2 = "?s1\<lparr>se_phase := AwaitRegister ud\<rparr>"
  have s0: "se_phase ?s0 = AwaitHello" "se_open ?s0" "se_out ?s0 = []" "se_addr ?s0 = addr" by (simp_all add: session_new_def)
  have 1: "session_step cf c1 mid (Recv f1) (?s0, w) = (?s1, w)"
    using hello_step [where clk = c1 and mid = mid and w = w, OF s0(1,2) assms(1,2,4)] s0(3) assms(3) by simp
  have 2: "session_step cf c2 mid (Recv f2) (?s1, w) = (?s2, w)"
    using auth_step [where s = ?s1 and mid = mid and clk = c2, OF _ assms(5,6)] by simp
  have 3: "\<exists>s' w'. session_step cf c3 mid (Recv f3) (?s2, w) = (s', w') \<and> se_phase s' = Ready \<and> se_domain s' = ud \<and>
      se_machine s' = reg_machine_id reg \<and> se_out s' = se_out ?s2 @
        [sent (cf_serde cf) RegisterAck (register_reply ud c3 addr reg (st_registry (wd_state w)))] \<and>
      online_machine ud (reg_machine_id reg) (st_registry (wd_state w')) = Some (join_info c3 addr reg)"
    using register_step [where s = ?s2 and mid = mid and clk = c3, OF _ _ assms(7,8)] assms(9,10) s0 by simp
  then show ?thesis by (simp add: 1 2)
qed

section \<open>Properties\<close>

text \<open>A small installation, for the witnesses.\<close>

definition sample_disk :: fs where
  "sample_disk = \<lparr>cwd = [], nodes = [([''n''], Dir), ([''n'', ''objects''], Dir), ([''n'', ''tmp''], Dir)]\<rparr>"

definition sample_fs :: server_fs where
  "sample_fs = \<lparr>sf_root = ''/n'', sf_objects = LocalObjectStore ''/n/objects''\<rparr>"

definition sample_session :: session where
  "sample_session = (session_new ''addr'')
     \<lparr>se_phase := Ready, se_domain := ''d'', se_machine := ''m'', se_fs := sample_fs\<rparr>"

definition sample_serde :: serde where
  "sample_serde = no_serde\<lparr>to_vec := (\<lambda>_. Some []),
     de_hello := (\<lambda>_. Some \<lparr>hello_user_domain = ''d'', hello_protocol_version = 1, hello_client = []\<rparr>),
     de_auth := (\<lambda>_. Some \<lparr>auth_user_domain = ''d'', auth_nonce_signature =
        sign sample_crates (generate sample_crates [3]) (as_bytes (nonce 0 ''id''))\<rparr>),
     de_register := (\<lambda>_. Some \<lparr>reg_machine_id = ''m'', reg_agent_tag = ''t'', reg_peer_addr = [],
        reg_machine_pubkey = public_hex sample_crates (generate sample_crates [5]),
        reg_machine_signature = sign sample_crates (generate sample_crates [5]) (as_bytes (register_msg ''m'' ''t''))\<rparr>),
     de_file_put := (\<lambda>_. Some \<lparr>fp_blob_id = ''b'', fp_total_chunks = 1, fp_size = 2\<rparr>)\<rparr>"

definition sample_config :: "(unit, unit) config" where
  "sample_config = \<lparr>cf_serde = sample_serde, cf_crates = sample_crates,
     cf_tree_json = \<lparr>tree_to_vec_pretty = (\<lambda>_. None), tree_from_str = (\<lambda>_. None)\<rparr>,
     cf_gateways = sample_gateways, cf_backend = no_backend, cf_mem_init = (), cf_s3 = Inl [],
     cf_sql = no_sql, cf_env = Map.empty, cf_info = False\<rparr>"

definition sample_world :: "(unit, unit) world" where
  "sample_world = \<lparr>wd_state = server_state_new Map.empty None, wd_tenants = set_domain_pubkey ''d'' (public_hex sample_crates (generate sample_crates [3])) [],
     wd_storage = \<lparr>disk = sample_disk, remote = (\<lambda>_. ())\<rparr>, wd_next = 0\<rparr>"

lemma sample_sendable: "sendable (cf_serde sample_config) t m"
proof -
  have "from_json (cf_serde sample_config) t 0 m = Inr (frame_new t 0 [])"
    by (simp add: sample_config_def sample_serde_def frame_new_def)
  then show ?thesis by (simp add: sendable_def encode_def frame_new_def del: from_json_payload)
qed

text \<open>A connection to the sample server that is admitted.\<close>

lemma sample_admitted:
  "\<exists>s' w'. session_run sample_config ''id'' (replicate 3 (\<lambda>_. 0, Recv (frame_new Hello 0 []))) (session_new ''a'', sample_world)
      = (s', w') \<and> se_phase s' = Ready \<and> se_domain s' = ''d''"
proof -
  let ?cf = sample_config and ?f = "frame_new Hello 0 []" and ?C = sample_crates
  have f: "frame_type ?f = Hello" by (simp add: frame_new_def)
  obtain h a reg where d: "de_hello (cf_serde ?cf) (payload ?f) = Some h" "hello_user_domain h = ''d''"
    "de_auth (cf_serde ?cf) (payload ?f) = Some a"
    "auth_nonce_signature a = sign ?C (generate ?C [3]) (as_bytes (nonce 0 ''id''))"
    "de_register (cf_serde ?cf) (payload ?f) = Some reg" "reg_machine_id reg = ''m''" "reg_agent_tag reg = ''t''"
    "reg_machine_pubkey reg = public_hex ?C (generate ?C [5])"
    "reg_machine_signature reg = sign ?C (generate ?C [5]) (as_bytes (register_msg ''m'' ''t''))"
    by (simp add: sample_config_def sample_serde_def)
  have C: "cf_crates ?cf = ?C" by (simp add: sample_config_def)
  note v = sign_verify_any [OF sample_crates_laws(1,2)]
  have va: "verify_auth (cf_crates ?cf) ''d'' (nonce 0 ''id'') (auth_nonce_signature a) (wd_tenants sample_world) = Inr ()"
    unfolding C d(4) using v by (simp add: verify_auth_def sample_world_def set_domain_pubkey_def generate_def)
  obtain g where vr: "verify_register (cf_crates ?cf) ''d'' (reg_machine_id reg) (reg_agent_tag reg)
      (reg_machine_pubkey reg) (reg_machine_signature reg) (wd_tenants sample_world) = (Inr (), g)"
    unfolding C d using v by (simp add: verify_register_def sample_world_def set_domain_pubkey_def generate_def
      tenant_record_default_def hm.get_empty)
  from honest_handshake [where ?c1.0 = "\<lambda>_. 0" and ?c2.0 = "\<lambda>_. 0" and ?c3.0 = "\<lambda>_. 0" and addr = "''a''", OF f d(1,2)
      sample_sendable d(3) va d(5) vr sample_sendable sample_sendable] obtain s' w' where
    run: "session_run ?cf ''id'' (replicate 3 (\<lambda>_. 0, Recv ?f)) (session_new ''a'', sample_world) = (s', w')"
    and s': "se_phase s' = Ready" "se_domain s' = ''d''" by (auto simp: numeral_3_eq_3)
  from run s' show ?thesis by (simp add: numeral_3_eq_3)
qed

text \<open>
  C6: only authenticated clients reach the ready loop, and nothing happens before.  When a
  connection is in the ready loop, its inputs contain, in this order, a HELLO that named the
  tenant the session works for, a message whose signature of the nonce of this very connection
  verifies under the domain key of that tenant, and a registration that the tenant table accepted
  for the machine the session acts for; and a connection that is still in the handshake has left
  the state of the server as it was.
\<close>

theorem ready_only_authenticated:
  assumes "session_run cf mid ins (session_new addr, w) = (s, w')"
  shows "(se_phase s = Ready \<longrightarrow> (\<exists>i1 i2 i3 n. subseq [i1, i2, i3] ins \<and> hello_ok cf mid (se_domain s) n i1 \<and>
      auth_ok cf (wd_tenants w) (se_domain s) n i2 \<and>
      register_ok cf (wd_tenants w) (se_domain s) (se_machine s) i3)) \<and>
    (se_phase s \<noteq> Ready \<and> (\<forall>r. se_phase s \<noteq> Closed r) \<longrightarrow> w' = w)"
  using handshake_inv_run [of cf mid w ins addr] assms
  by (cases "se_phase s") (simp_all add: handshake_inv_def)

theorem ready_only_authenticated_witness:
  "\<exists>s' w'. session_run sample_config ''id'' (replicate 3 (\<lambda>_. 0, Recv (frame_new Hello 0 []))) (session_new ''a'', sample_world)
      = (s', w') \<and> se_phase s' = Ready \<and>
     (\<exists>n i2. auth_ok sample_config (wd_tenants sample_world) ''d'' n i2)"
proof -
  obtain s' w' where run: "session_run sample_config ''id'' (replicate 3 (\<lambda>_. 0, Recv (frame_new Hello 0 []))) (session_new ''a'', sample_world)
      = (s', w')" and s': "se_phase s' = Ready" "se_domain s' = ''d''" using sample_admitted by blast
  from ready_only_authenticated [OF run] s' run show ?thesis by simp blast
qed

end
