(* ===== verification/Upload.thy ===== *)
theory Upload
  imports Handshake
begin

text \<open>
  Correctness of chunked uploads and downloads over the session model: the pieces that
  \<open>handle_chunk\<close> writes in any order assemble to the file, the finished upload is stored under
  its blob id, and the chunks served by \<open>FILE_GET\<close> are the pieces of the stored object.
\<close>

section \<open>Pieces of a file\<close>

definition chunk_at :: "bytes \<Rightarrow> nat \<Rightarrow> bytes" where
  "chunk_at content i = take CHUNK_SIZE (drop (i * CHUNK_SIZE) content)"

definition chunk_end :: "bytes \<Rightarrow> nat \<Rightarrow> nat" where
  "chunk_end content i = min (i * CHUNK_SIZE + CHUNK_SIZE) (length content)"

lemma CHUNK_SIZE_pos [simp]: "0 < CHUNK_SIZE"
  by (simp add: CHUNK_SIZE_def)

lemma length_chunk_at: "i * CHUNK_SIZE < length content \<Longrightarrow>
    i * CHUNK_SIZE + length (chunk_at content i) = chunk_end content i"
  by (simp add: chunk_at_def chunk_end_def)

text \<open>The bytes of the pieces in \<open>S\<close> are in place, and nothing is longer than the file.\<close>

definition part_ok :: "bytes \<Rightarrow> nat set \<Rightarrow> bytes \<Rightarrow> bool" where
  "part_ok content S f \<longleftrightarrow> length f \<le> length content \<and>
     (\<forall>i \<in> S. chunk_end content i \<le> length f \<and>
        (\<forall>j. i * CHUNK_SIZE \<le> j \<and> j < chunk_end content i \<longrightarrow> f ! j = content ! j))"

lemma part_ok_empty: "part_ok content {} []"
  by (simp add: part_ok_def)

lemma part_ok_splice:
  assumes "part_ok content S f" and "i * CHUNK_SIZE < length content"
  shows "part_ok content (insert i S) (splice (i * CHUNK_SIZE) (chunk_at content i) f)"
proof -
  let ?d = "chunk_at content i" and ?off = "i * CHUNK_SIZE"
  let ?g = "splice ?off ?d f"
  note e = length_chunk_at [OF assms(2)]
  have "?d \<noteq> []" using assms(2) by (simp add: chunk_at_def)
  then have len: "length ?g = max (length f) (chunk_end content i)" using e by (simp add: length_splice)
  have inside: "?g ! j = content ! j" if "?off \<le> j" "j < chunk_end content i" for j
    using that e assms(2) len by (subst nth_splice) (auto simp: chunk_at_def chunk_end_def)
  have outside: "?g ! j = f ! j" if "j < length f" "\<not> (?off \<le> j \<and> j < chunk_end content i)" for j
    using that e len by (subst nth_splice) auto
  have piece: "chunk_end content k \<le> length ?g \<and>
      (\<forall>j. k * CHUNK_SIZE \<le> j \<and> j < chunk_end content k \<longrightarrow> ?g ! j = content ! j)" if "k \<in> insert i S" for k
  proof (cases "k = i")
    case True
    then show ?thesis using inside len by simp
  next
    case False
    then have old: "chunk_end content k \<le> length f"
        "\<And>j. k * CHUNK_SIZE \<le> j \<Longrightarrow> j < chunk_end content k \<Longrightarrow> f ! j = content ! j"
      using that assms(1) by (simp_all add: part_ok_def)
    have "?g ! j = content ! j" if "k * CHUNK_SIZE \<le> j" "j < chunk_end content k" for j
      using inside [of j] outside [of j] old that by (cases "?off \<le> j \<and> j < chunk_end content i") simp_all
    then show ?thesis using old(1) len by simp
  qed
  have "length ?g \<le> length content" using assms(1) len by (simp add: part_ok_def chunk_end_def)
  then show ?thesis unfolding part_ok_def using piece by blast
qed

lemma part_ok_full:
  assumes "part_ok content {..<n} f" and "length content \<le> n * CHUNK_SIZE"
  shows "f = content"
proof (rule nth_equalityI)
  have main: "j < length f \<and> f ! j = content ! j" if "j < length content" for j
  proof -
    let ?i = "j div CHUNK_SIZE"
    have "?i < n" using that assms(2) by (simp add: less_mult_imp_div_less)
    moreover have "?i * CHUNK_SIZE \<le> j" by simp
    moreover have "j < chunk_end content ?i"
      using that by (simp add: chunk_end_def) (metis CHUNK_SIZE_pos add.commute div_mod_decomp mod_less_divisor nat_add_left_cancel_less)
    moreover have "?i \<in> {..<n} \<Longrightarrow> chunk_end content ?i \<le> length f \<and>
        (\<forall>j. ?i * CHUNK_SIZE \<le> j \<and> j < chunk_end content ?i \<longrightarrow> f ! j = content ! j)"
      using assms(1) unfolding part_ok_def by blast
    ultimately show ?thesis by auto
  qed
  show "length f = length content"
    using assms(1) main [of "length content - 1"] by (cases "content = []") (auto simp: part_ok_def)
  show "f ! j = content ! j" if "j < length f" for j
    using main that assms(1) by (auto simp: part_ok_def)
qed

section \<open>Directories that do not disturb each other\<close>

text \<open>
  A \<open>create_dir_all\<close> that succeeds on one file system succeeds on any other that has no file
  where the first one ends up with a directory, and reaches the same place.
\<close>

lemma mkdirs_transfer:
  assumes "mkdirs cur cs F = Inr F'" and "\<forall>x. node_at F' x = Some Dir \<longrightarrow> node_at G x \<in> {None, Some Dir}"
  shows "\<exists>G'. mkdirs cur cs G = Inr G' \<and> walk G' cur cs = walk F' cur cs \<and> cwd G' = cwd G \<and>
    (\<forall>x. node_at G' x = node_at G x \<or> node_at G x = None \<and> node_at G' x = Some Dir \<and> node_at F' x = Some Dir)"
  using assms
proof (induction cs arbitrary: cur F G)
  case Nil
  then have "node_at F' cur = Some Dir" by (auto simp: mkdirs_Nil node_at_ensure_dir simp del: mkdirs.simps)
  with Nil.prems(2) show ?case
    by (intro exI [of _ "ensure_dir cur G"]) (auto simp: mkdirs_Nil node_at_ensure_dir simp del: mkdirs.simps)
next
  case (Cons c cs)
  let ?F = "ensure_dir cur F" and ?G = "ensure_dir cur G"
  from Cons.prems(1) have m: "mkdirs (step_to cur c) cs ?F = Inr F'" and cur: "node_at ?F cur = Some Dir"
    by (auto simp: mkdirs_Cons node_at_ensure_dir simp del: mkdirs.simps)
  have F'cur: "node_at F' cur = Some Dir" using mkdirs_kept [OF m] cur by (simp add: dirs_kept_def)
  have "\<forall>x. node_at F' x = Some Dir \<longrightarrow> node_at ?G x \<in> {None, Some Dir}"
    using Cons.prems(2) by (auto simp: node_at_ensure_dir)
  from Cons.IH [OF m this] obtain G' where G': "mkdirs (step_to cur c) cs ?G = Inr G'"
    "walk G' (step_to cur c) cs = walk F' (step_to cur c) cs" "cwd G' = cwd G"
    "\<forall>x. node_at G' x = node_at ?G x \<or> node_at ?G x = None \<and> node_at G' x = Some Dir \<and> node_at F' x = Some Dir"
    by auto
  have Gcur: "node_at ?G cur = Some Dir"
    using Cons.prems(2) F'cur by (auto simp: node_at_ensure_dir)
  then have G'cur: "node_at G' cur = Some Dir" using mkdirs_kept [OF G'(1)] by (simp add: dirs_kept_def)
  obtain ds where "walk F' (step_to cur c) cs = Inr ds" using mkdirs_walk [OF m] by blast
  then have "walk G' cur (c # cs) = Inr ds" "walk F' cur (c # cs) = Inr ds"
    using G'(2) G'cur F'cur by (simp_all only: walk_Cons)
  moreover have "mkdirs cur (c # cs) G = Inr G'"
    using G'(1) Cons.prems(2) F'cur by (simp only: mkdirs_Cons)
  moreover have "\<forall>x. node_at G' x = node_at G x \<or> node_at G x = None \<and> node_at G' x = Some Dir \<and> node_at F' x = Some Dir"
    using G'(4) G'cur F'cur by (auto simp: node_at_ensure_dir split: if_splits)
  ultimately show ?case using G'(3) by auto
qed

text \<open>
  A ready directory stays ready under changes that keep directories and the directory's entries
  and put no file in the place of a directory on its way.
\<close>

lemma local_ready_frame:
  assumes "local_ready root F F' ds" and "dirs_kept F G"
    and "\<forall>x. node_at F' x = Some Dir \<longrightarrow> node_at G x \<in> {None, Some Dir}"
    and "\<forall>n. node_at G (ds @ [n]) = node_at F (ds @ [n])"
  shows "\<exists>G'. local_ready root G G' ds \<and> (\<forall>n. node_at G' (ds @ [n]) = node_at F' (ds @ [n])) \<and>
    (\<forall>x. node_at G' x = node_at G x \<or> node_at G x = None \<and> node_at G' x = Some Dir \<and> node_at F' x = Some Dir)"
proof -
  have old: "root \<noteq> []" "fs_create_dir_all root F = Inr F'" "resolve F' root = Inr ds"
    "node_at F' ds = Some Dir" "\<forall>n. node_at F' (ds @ [n]) \<noteq> Some Dir"
    "F' = F \<or> (\<forall>n. node_at F' (ds @ [n]) = None)"
    using assms(1) unfolding local_ready_def by blast+
  have nul: "CHR 0x00 \<notin> set root" and m: "mkdirs (start_of F root) (split_char CHR ''/'' root) F = Inr F'"
    using old(1,2) by (auto simp: fs_create_dir_all_def split: if_splits)
  have cwd: "cwd F' = cwd F" "cwd G = cwd F"
    using create_dir_all_grows [OF old(2)] assms(2) by (auto simp: dirs_kept_def)
  from mkdirs_transfer [OF m assms(3)] obtain G' where G':
    "mkdirs (start_of F root) (split_char CHR ''/'' root) G = Inr G'"
    "walk G' (start_of F root) (split_char CHR ''/'' root) = walk F' (start_of F root) (split_char CHR ''/'' root)"
    "cwd G' = cwd G"
    "\<forall>x. node_at G' x = node_at G x \<or> node_at G x = None \<and> node_at G' x = Some Dir \<and> node_at F' x = Some Dir"
    by blast
  have start: "start_of G root = start_of F root" "start_of G' root = start_of F root" "start_of F' root = start_of F root"
    using cwd G'(3) by (simp_all add: start_of_def)
  have mk: "fs_create_dir_all root G = Inr G'" using G'(1) old(1) nul start by (simp add: fs_create_dir_all_def)
  have res: "resolve G' root = Inr ds" using G'(2) old(1,3) nul start by (simp add: resolve_def)
  have dir: "node_at G' ds = Some Dir" using create_dir_all_resolves [OF mk old(1)] res by auto
  have child: "node_at G' (ds @ [n]) = node_at F' (ds @ [n])" for n
  proof -
    have "node_at G' (ds @ [n]) = node_at F (ds @ [n])" using G'(4) assms(4) old(5) by metis
    moreover have "node_at F (ds @ [n]) = node_at F' (ds @ [n])"
      using create_dir_all_grows [OF old(2)] old(5,6) by (metis insertE singletonD)
    ultimately show ?thesis by simp
  qed
  have "G' = G \<or> (\<forall>n. node_at G' (ds @ [n]) = None)"
  proof (cases "F' = F")
    case True
    have "resolve G root = Inr ds" "node_at G ds = Some Dir"
      using resolve_kept [OF _ assms(2)] old(3,4) True assms(2) by (auto simp: dirs_kept_def)
    then show ?thesis using create_dir_all_idem mk by fastforce
  qed (use old(6) child in auto)
  then have "local_ready root G G' ds"
    unfolding local_ready_def using old(1,5) mk res dir child by simp
  then show ?thesis using child G'(4) by blast
qed

text \<open>Two directories of which neither contains the other.\<close>

definition apart :: "path \<Rightarrow> path \<Rightarrow> string list \<Rightarrow> string list \<Rightarrow> fs \<Rightarrow> bool" where
  "apart a b da db F \<longleftrightarrow> da \<noteq> db \<and> (\<exists>Fa Fb. local_ready a F Fa da \<and> local_ready b F Fb db \<and>
     (\<forall>n. node_at Fa (db @ [n]) \<noteq> Some Dir) \<and> (\<forall>n. node_at Fb (da @ [n]) \<noteq> Some Dir))"

lemma apart_sym: "apart a b da db F \<longleftrightarrow> apart b a db da F"
  by (auto simp: apart_def)

lemma local_ready_create: "local_ready root F F' ds \<Longrightarrow> fs_create_dir_all root F = Inr F'"
  by (simp add: local_ready_def)

lemma local_ready_nd: "local_ready root F F' ds \<Longrightarrow> node_at F' (ds @ [n]) \<noteq> Some Dir"
  by (simp add: local_ready_def)

lemma apart_child_update:
  assumes "apart a b da db F" and "local_ready b F Fb db" and "cwd H = cwd Fb"
    and "\<forall>x. x \<noteq> db @ [n] \<longrightarrow> node_at H x = node_at Fb x" and "node_at H (db @ [n]) \<noteq> Some Dir"
  shows "apart a b da db H \<and> local_ready b H H db \<and>
    (\<forall>k. simple_name k \<longrightarrow> local_get a k H = local_get a k F)"
proof -
  from assms(1) obtain Fa Fb' where ne: "da \<noteq> db" and a: "local_ready a F Fa da" and "local_ready b F Fb' db"
    and ab: "\<forall>n. node_at Fa (db @ [n]) \<noteq> Some Dir" "\<forall>n. node_at Fb' (da @ [n]) \<noteq> Some Dir"
    by (auto simp: apart_def)
  then have ba: "\<forall>n. node_at Fb (da @ [n]) \<noteq> Some Dir"
    using local_ready_create [OF assms(2)] local_ready_create [of b F Fb' db] by auto
  note gb = create_dir_all_grows [OF local_ready_create [OF assms(2)]]
  note ga = create_dir_all_grows [OF local_ready_create [OF a]]
  have kept: "dirs_kept Fb H"
    unfolding dirs_kept_def using assms(3,4) local_ready_nd [OF assms(2)] by metis
  have keptF: "dirs_kept F H"
    using dirs_kept_trans [OF create_dir_all_kept [OF local_ready_create [OF assms(2)]] kept] .
  have nd: "\<forall>m. node_at H (db @ [m]) \<noteq> Some Dir"
    using assms(4,5) local_ready_nd [OF assms(2)] by metis
  have b: "local_ready b H H db" using local_ready_update [OF assms(2) kept nd] .
  have block: "\<forall>x. node_at Fa x = Some Dir \<longrightarrow> node_at H x \<in> {None, Some Dir}"
  proof (intro allI impI)
    fix x assume x: "node_at Fa x = Some Dir"
    then have "x \<noteq> db @ [n]" using ab(1) by auto
    then have "node_at H x = node_at Fb x" using assms(4) by blast
    moreover have "node_at F x \<in> {None, Some Dir}" using ga x by (metis insertCI)
    ultimately show "node_at H x \<in> {None, Some Dir}" using gb by (metis insertE option.distinct(1) singletonD insertCI)
  qed
  have child: "\<forall>m. node_at H (da @ [m]) = node_at F (da @ [m])"
  proof
    fix m
    have "node_at H (da @ [m]) = node_at Fb (da @ [m])" using assms(4) ne by simp
    also have "\<dots> = node_at F (da @ [m])" using gb ba by (metis insertE singletonD)
    finally show "node_at H (da @ [m]) = node_at F (da @ [m])" .
  qed
  from local_ready_frame [OF a keptF block child] obtain Ha where Ha: "local_ready a H Ha da"
    "\<forall>m. node_at Ha (da @ [m]) = node_at Fa (da @ [m])"
    "\<forall>x. node_at Ha x = node_at H x \<or> node_at H x = None \<and> node_at Ha x = Some Dir \<and> node_at Fa x = Some Dir"
    by blast
  have "\<forall>m. node_at Ha (db @ [m]) \<noteq> Some Dir" using Ha(3) nd ab(1) by metis
  moreover have "\<forall>m. node_at H (da @ [m]) \<noteq> Some Dir"
    using child ga local_ready_nd [OF a] by (metis option.distinct(1))
  ultimately have "apart a b da db H" unfolding apart_def using ne Ha(1) b by blast
  moreover have "local_get a k H = local_get a k F" if "simple_name k" for k
    using local_get_node [OF Ha(1) that] local_get_node [OF a that] Ha(2) by simp
  ultimately show ?thesis using b by blast
qed

section \<open>One chunk\<close>

abbreviation file_or_empty :: "bytes option \<Rightarrow> bytes" where
  "file_or_empty r \<equiv> (case r of Some b \<Rightarrow> b | None \<Rightarrow> [])"

lemma write_at_ready:
  assumes "local_ready root F F' ds" and "simple_name n"
  shows "fs_write_at (join root n) off data F' =
    Inr (set_node (ds @ [n]) (File (splice off data (file_or_empty (local_get root n F)))) F')"
proof -
  have ds: "resolve F' root = Inr ds" "node_at F' ds = Some Dir" using assms(1) by (simp_all add: local_ready_def)
  have "node_at F' (ds @ [n]) \<noteq> Some Dir" using local_ready_nd [OF assms(1)] .
  then show ?thesis
    using resolve_join [OF ds assms(2)] local_get_node [OF assms] ds(2)
    by (cases "node_at F' (ds @ [n])"; cases "the (node_at F' (ds @ [n]))")
      (simp_all add: fs_write_at_def parent_dir_def)
qed

lemma write_at_apart:
  assumes "apart objr tmp dobj dt F" and "simple_name n"
  shows "\<exists>F1 G. fs_create_dir_all tmp F = Inr F1 \<and> fs_write_at (join tmp n) off data F1 = Inr G \<and>
    apart objr tmp dobj dt G \<and>
    local_get tmp n G = Some (splice off data (file_or_empty (local_get tmp n F))) \<and>
    (\<forall>k. simple_name k \<longrightarrow> local_get objr k G = local_get objr k F)"
proof -
  from assms(1) obtain Ft where t: "local_ready tmp F Ft dt" by (auto simp: apart_def)
  let ?G = "set_node (dt @ [n]) (File (splice off data (file_or_empty (local_get tmp n F)))) Ft"
  have up: "apart objr tmp dobj dt ?G \<and> local_ready tmp ?G ?G dt \<and>
      (\<forall>k. simple_name k \<longrightarrow> local_get objr k ?G = local_get objr k F)"
    by (rule apart_child_update [OF assms(1) t, where n = n]) simp_all
  then have "local_get tmp n ?G = Some (splice off data (file_or_empty (local_get tmp n F)))"
    using local_get_node [of tmp ?G ?G dt n] assms(2) by simp
  with up write_at_ready [OF t assms(2), of off data] local_ready_create [OF t] show ?thesis by blast
qed

text \<open>What a chunk payload carries: the index, and the piece as the tenant's keys seal it.\<close>

definition opens_to :: "('x, 'd) config \<Rightarrow> string \<Rightarrow> nat \<Rightarrow> bytes \<Rightarrow> bytes \<Rightarrow> bool" where
  "opens_to cf ud i enc d \<longleftrightarrow>
     (case e2e_from_env (cf_crates cf) (cf_env cf) (Some ud) of
        Some ks \<Rightarrow> decrypt (cf_crates cf) ks enc (of_nat i) = Inr d
      | None \<Rightarrow> enc = d)"

definition chunk_payload :: "nat \<Rightarrow> bytes \<Rightarrow> bytes" where
  "chunk_payload i enc = u32_to_le_bytes (of_nat i) @ enc"

lemma chunk_index_payload:
  assumes "i < 2 ^ 32"
  shows "chunk_index (chunk_payload i enc) = of_nat i" "drop 4 (chunk_payload i enc) = enc"
    "\<not> length (chunk_payload i enc) < 4"
proof -
  have "from_le (to_le 4 (of_nat i :: u32)) = (of_nat i :: u32)" by (rule from_le_to_le) simp
  moreover have "unat (ucast (of_nat i :: u32) :: u64) = unat (of_nat i :: u64)"
    using assms by (simp add: unsigned_ucast_eq unat_of_nat take_bit_eq_mod)
  then have "ucast (of_nat i :: u32) = (of_nat i :: u64)" by (rule unsigned_word_eqI)
  ultimately show "chunk_index (chunk_payload i enc) = of_nat i"
    by (simp add: chunk_index_def chunk_payload_def)
qed (simp_all add: chunk_payload_def)

lemma unat_offset: "i < 2 ^ 32 \<Longrightarrow> unat ((of_nat i :: u64) * of_nat CHUNK_SIZE) = i * CHUNK_SIZE"
proof -
  assume "i < 2 ^ 32"
  then have "i * CHUNK_SIZE < 2 ^ 64" by (simp add: CHUNK_SIZE_def)
  moreover have "(of_nat i :: u64) * of_nat CHUNK_SIZE = of_nat (i * CHUNK_SIZE)" by simp
  ultimately show ?thesis by (simp only: unat_of_nat) simp
qed

lemma handle_chunk_accepts:
  assumes "apart objr tmp dobj dt F" and "simple_name n" and "pu_temp_path pu = join tmp n"
    and "tmp \<noteq> []" and "\<not> suffix ''/'' tmp"
    and "i < 2 ^ 32" and "of_nat i < pu_total_chunks pu" and "\<not> pu_received pu ! i" and "opens_to cf ud i enc d"
  shows "\<exists>G. handle_chunk cf ud pu (chunk_payload i enc) F =
      (Inr (pu\<lparr>pu_received := (pu_received pu)[i := True], pu_received_count := pu_received_count pu + 1\<rparr>), G) \<and>
    apart objr tmp dobj dt G \<and>
    local_get tmp n G = Some (splice (i * CHUNK_SIZE) d (file_or_empty (local_get tmp n F))) \<and>
    (\<forall>k. simple_name k \<longrightarrow> local_get objr k G = local_get objr k F)"
proof -
  from write_at_apart [OF assms(1,2), of "i * CHUNK_SIZE" d] obtain F1 G where
    F1: "fs_create_dir_all tmp F = Inr F1" and G: "fs_write_at (join tmp n) (i * CHUNK_SIZE) d F1 = Inr G" and
    rest: "apart objr tmp dobj dt G"
      "local_get tmp n G = Some (splice (i * CHUNK_SIZE) d (file_or_empty (local_get tmp n F)))"
      "\<forall>k. simple_name k \<longrightarrow> local_get objr k G = local_get objr k F" by blast
  have par: "parent (join tmp n) = tmp"
    using assms(2,4,5) by (intro parent_join) (simp_all add: simple_name_def)
  have ui: "unat (of_nat i :: u64) = i" using assms(6) by (simp add: unat_of_nat)
  have dec: "(case e2e_from_env (cf_crates cf) (cf_env cf) (Some ud) of
      Some ks \<Rightarrow> decrypt (cf_crates cf) ks (drop 4 (chunk_payload i enc)) (of_nat i)
    | None \<Rightarrow> Inr (drop 4 (chunk_payload i enc))) = Inr d"
    using assms(9) by (simp add: opens_to_def chunk_index_payload [OF assms(6)] split: option.splits)
  have "handle_chunk cf ud pu (chunk_payload i enc) F =
      (Inr (pu\<lparr>pu_received := (pu_received pu)[i := True], pu_received_count := pu_received_count pu + 1\<rparr>), G)"
    using assms(3,7,8) F1 G
    by (simp add: handle_chunk_def Let_def chunk_index_payload(1,3) [OF assms(6)] ui dec par unat_offset [OF assms(6)] not_le)
  with rest show ?thesis by blast
qed

lemma handle_chunk_duplicate:
  assumes "i < 2 ^ 32" and "pu_received pu ! i"
  shows "handle_chunk cf ud pu (chunk_payload i enc) F = (Inr pu, F)"
  using assms by (simp add: handle_chunk_def Let_def chunk_index_payload unat_of_nat)

section \<open>A whole upload\<close>

text \<open>
  The state of an upload of \<open>content\<close> in \<open>n\<close> pieces of which those in \<open>S\<close> have arrived.
\<close>

definition upload_inv ::
  "bytes \<Rightarrow> nat \<Rightarrow> server_fs \<Rightarrow> string \<Rightarrow> nat set \<Rightarrow> pending_upload \<Rightarrow> fs \<Rightarrow> bool" where
  "upload_inv content n sf blob S pu F \<longleftrightarrow>
     pu_blob_id pu = blob \<and> pu_total_chunks pu = of_nat n \<and> pu_temp_path pu = temp_path_for sf blob \<and>
     length (pu_received pu) = n \<and> (\<forall>i < n. pu_received pu ! i \<longleftrightarrow> i \<in> S) \<and>
     pu_received_count pu = of_nat (card S) \<and> S \<subseteq> {..<n} \<and>
     part_ok content S (file_or_empty (local_get (join (sf_root sf) ''tmp'') (blob @ ''.part'') F))"

text \<open>The pieces of a file: none is empty, together they cover it.\<close>

definition piece_count :: "bytes \<Rightarrow> nat \<Rightarrow> bool" where
  "piece_count content n \<longleftrightarrow> 0 < n \<and> n < 2 ^ 32 \<and> (n - 1) * CHUNK_SIZE < length content \<and>
     length content \<le> n * CHUNK_SIZE"

lemma tmp_dir: "join r ''tmp'' \<noteq> []" "\<not> suffix ''/'' (join r ''tmp'')"
proof -
  obtain q where q: "join r ''tmp'' = q @ ''tmp''" by (cases "suffix ''/'' r"; cases "r = []") (auto simp: join_def)
  show "join r ''tmp'' \<noteq> []" by (simp add: q)
  show "\<not> suffix ''/'' (join r ''tmp'')" by (simp add: q suffix_to_prefix)
qed

lemma upload_inv_step:
  assumes "upload_inv content n sf blob S pu F" and "piece_count content n"
    and "apart objr (join (sf_root sf) ''tmp'') dobj dt F" and "simple_name (blob @ ''.part'')"
    and "i < n" and "opens_to cf ud i enc (chunk_at content i)"
  shows "\<exists>pu' G. handle_chunk cf ud pu (chunk_payload i enc) F = (Inr pu', G) \<and>
    upload_inv content n sf blob (insert i S) pu' G \<and> apart objr (join (sf_root sf) ''tmp'') dobj dt G \<and>
    (\<forall>k. simple_name k \<longrightarrow> local_get objr k G = local_get objr k F)"
proof (cases "i \<in> S")
  case True
  then have "handle_chunk cf ud pu (chunk_payload i enc) F = (Inr pu, F)" "insert i S = S"
    using assms(1,2,5) by (auto simp: upload_inv_def piece_count_def intro!: handle_chunk_duplicate)
  then show ?thesis using assms(1,3) by auto
next
  case False
  note inv = assms(1) [unfolded upload_inv_def]
  have i32: "i < 2 ^ 32" using assms(2,5) by (simp add: piece_count_def)
  have "i * CHUNK_SIZE \<le> (n - 1) * CHUNK_SIZE" using assms(5) by (intro mult_le_mono1) simp
  also have "\<dots> < length content" using assms(2) by (simp add: piece_count_def)
  finally have off: "i * CHUNK_SIZE < length content" .
  have n32: "n < 2 ^ 32" using assms(2) by (simp add: piece_count_def)
  have lt: "(of_nat i :: u64) < pu_total_chunks pu"
    using assms(5) i32 n32 inv by (simp add: word_less_nat_alt unat_of_nat)
  have fin: "finite S" using inv finite_subset by blast
  have "card S < n" using False assms(5) inv fin
    by (metis card_lessThan finite_lessThan lessThan_iff psubsetI psubset_card_mono)
  from handle_chunk_accepts [OF assms(3,4) _ tmp_dir i32 lt _ assms(6)] inv False assms(5)
  obtain G where G: "handle_chunk cf ud pu (chunk_payload i enc) F =
      (Inr (pu\<lparr>pu_received := (pu_received pu)[i := True], pu_received_count := pu_received_count pu + 1\<rparr>), G)"
    "apart objr (join (sf_root sf) ''tmp'') dobj dt G"
    "local_get (join (sf_root sf) ''tmp'') (blob @ ''.part'') G = Some (splice (i * CHUNK_SIZE) (chunk_at content i)
       (file_or_empty (local_get (join (sf_root sf) ''tmp'') (blob @ ''.part'') F)))"
    "\<forall>k. simple_name k \<longrightarrow> local_get objr k G = local_get objr k F"
    by (auto simp: temp_path_for_def)
  have "upload_inv content n sf blob (insert i S)
      (pu\<lparr>pu_received := (pu_received pu)[i := True], pu_received_count := pu_received_count pu + 1\<rparr>) G"
    using inv G(3) part_ok_splice [OF _ off] False fin assms(5)
    by (auto simp: upload_inv_def nth_list_update)
  with G show ?thesis by blast
qed

lemma local_get_read: "local_get root k F = Some b \<longleftrightarrow> fs_read F (join root k) = Inr b"
  by (cases "fs_read F (join root k)") (simp_all add: local_get_def)

lemma put_apart:
  assumes "apart objr tmp dobj dt F" and "simple_name k" and "local_put objr k b F = Inr G"
  shows "apart objr tmp dobj dt G \<and> (\<forall>j. simple_name j \<longrightarrow> local_get tmp j G = local_get tmp j F)"
proof -
  from assms(1) obtain Fo where r: "local_ready objr F Fo dobj" by (auto simp: apart_def)
  have G: "G = (if node_at Fo (dobj @ [k]) = None then set_node (dobj @ [k]) (File b) Fo else Fo)"
    using local_put_node [OF r assms(2), of b] assms(3) by simp
  have "apart tmp objr dt dobj G \<and> local_ready objr G G dobj \<and>
      (\<forall>j. simple_name j \<longrightarrow> local_get tmp j G = local_get tmp j F)"
    using local_ready_nd [OF r, of k]
    by (intro apart_child_update [OF assms(1) [unfolded apart_sym [of objr]] r, where n = k]) (simp_all add: G)
  then show ?thesis by (simp add: apart_sym [of tmp])
qed

lemma remove_apart:
  assumes "apart objr tmp dobj dt F" and "simple_name n" and "local_get tmp n F = Some b"
  shows "\<exists>G. fs_remove_file (join tmp n) F = Inr G \<and> apart objr tmp dobj dt G \<and> local_get tmp n G = None \<and>
    (\<forall>j. simple_name j \<longrightarrow> local_get objr j G = local_get objr j F)"
proof -
  from assms(1) obtain Ft where r: "local_ready tmp F Ft dt" by (auto simp: apart_def)
  have node: "node_at Ft (dt @ [n]) = Some (File b)"
    using local_get_node [OF r assms(2)] assms(3) by (simp split: option.split_asm node.split_asm)
  then have F: "Ft = F" using r by (auto simp: local_ready_def)
  let ?G = "F\<lparr>nodes := hm_remove (dt @ [n]) (nodes F)\<rparr>"
  have "resolve F (join tmp n) = Inr (dt @ [n])"
    using r F by (intro resolve_join [OF _ _ assms(2)]) (simp_all add: local_ready_def)
  then have rm: "fs_remove_file (join tmp n) F = Inr ?G" using node F by (simp add: fs_remove_file_def)
  have up: "apart objr tmp dobj dt ?G \<and> local_ready tmp ?G ?G dt \<and>
      (\<forall>j. simple_name j \<longrightarrow> local_get objr j ?G = local_get objr j F)"
    by (rule apart_child_update [OF assms(1) r, where n = n]) (simp_all add: F)
  then have "local_get tmp n ?G = None" using local_get_node [of tmp ?G ?G dt n] assms(2) by simp
  with up rm show ?thesis by blast
qed

lemma finish_upload_stores:
  fixes w :: "('x, 'd) world"
  assumes "sf_objects (se_fs s) = LocalObjectStore objr"
    and "apart objr tmp dobj dt (disk (wd_storage w))"
    and "simple_name (pu_blob_id pu)" and "simple_name n" and "pu_temp_path pu = join tmp n"
    and "local_get tmp n (disk (wd_storage w)) = Some content"
    and "local_get objr (pu_blob_id pu) (disk (wd_storage w)) \<in> {None, Some content}"
  shows "\<exists>w'. finish_upload cf pu s w = (reply cf FilePutAck (MFilePutAck \<lparr>fpa_blob_id = pu_blob_id pu,
        fpa_have = map of_nat [0..<unat (pu_total_chunks pu)], fpa_completed = True\<rparr>) s, w') \<and>
    apart objr tmp dobj dt (disk (wd_storage w')) \<and>
    local_get objr (pu_blob_id pu) (disk (wd_storage w')) = Some content \<and>
    local_get tmp n (disk (wd_storage w')) = None \<and>
    (\<forall>k. simple_name k \<longrightarrow> k \<noteq> pu_blob_id pu \<longrightarrow>
       local_get objr k (disk (wd_storage w')) = local_get objr k (disk (wd_storage w))) \<and>
    wd_state w' = record_object_owner (se_domain s) (pu_blob_id pu) (se_machine s) (wd_state w)"
proof -
  let ?F = "disk (wd_storage w)" and ?k = "pu_blob_id pu" and ?X = "cf_backend cf"
  have ok: "local_ok objr ?F" using assms(2) by (auto simp: apart_def local_ok_def)
  obtain W1 where W1: "put ?X (LocalObjectStore objr) ?k content (wd_storage w) = Inr W1"
    using local_store.put_total [OF ok assms(3)] by blast
  then have lp: "local_put objr ?k content ?F = Inr (disk W1)" by (auto simp: and_then_eq_Inr)
  have got: "local_get objr ?k (disk W1) = Some content"
    using local_store.put_new [OF ok assms(3) W1] assms(7) by simp
  have others: "local_get objr k (disk W1) = local_get objr k ?F" if "simple_name k" "k \<noteq> ?k" for k
    using local_store.put_other [OF ok assms(3) that(1) W1 that(2)] by simp
  note ap1 = put_apart [OF assms(2,3) lp]
  have "local_get tmp n (disk W1) = Some content" using ap1 assms(4,6) by simp
  from remove_apart [OF ap1 [THEN conjunct1] assms(4) this] obtain G where
    G: "fs_remove_file (join tmp n) (disk W1) = Inr G" "apart objr tmp dobj dt G" "local_get tmp n G = None"
      "\<forall>j. simple_name j \<longrightarrow> local_get objr j G = local_get objr j (disk W1)" by blast
  have rd: "fs_read ?F (join tmp n) = Inr content" using assms(6) by (simp add: local_get_read)
  have po: "put_object ?X (se_fs s) ?k content (wd_storage w) = Inr W1"
    using W1 assms(1) by (simp add: put_object_def)
  have "finish_upload cf pu s w = (reply cf FilePutAck (MFilePutAck \<lparr>fpa_blob_id = ?k,
        fpa_have = map of_nat [0..<unat (pu_total_chunks pu)], fpa_completed = True\<rparr>) s,
      w\<lparr>wd_storage := W1\<lparr>disk := G\<rparr>, wd_state := record_object_owner (se_domain s) ?k (se_machine s) (wd_state w)\<rparr>)"
    using rd po G(1) assms(5) by (simp add: finish_upload_def Let_def)
  then show ?thesis using G(2-4) got others assms(3) by simp
qed

lemma session_step_chunk:
  assumes "se_phase s = Ready" and "frame_type f = FileChunk" and "on_file_chunk cf f s w = (s', w')"
    and "se_phase s' = Ready"
  shows "session_step cf clk mid (Recv f) (s, w) = (s', w')"
  using assms by (simp add: session_step_def ready_step_def on_frame_def)

lemma idle_chunks:
  assumes "se_phase s = Ready" and "se_pending s = None" and "\<forall>f \<in> set fs. frame_type f = FileChunk"
  shows "session_run cf mid (map (\<lambda>f. (clk, Recv f)) fs) (s, w) = (s, w)"
  using assms(3)
proof (induction fs)
  case (Cons f fs)
  have "on_file_chunk cf f s w = (s, w)" using assms(2) by (simp add: on_file_chunk_def)
  with Cons session_step_chunk [OF assms(1) _ this assms(1)] show ?case by simp
qed simp

text \<open>The frame \<open>f\<close> carries the piece \<open>i\<close> of the file.\<close>

definition carries :: "('x, 'd) config \<Rightarrow> string \<Rightarrow> bytes \<Rightarrow> nat \<Rightarrow> frame \<Rightarrow> bool" where
  "carries cf ud content i f \<longleftrightarrow> frame_type f = FileChunk \<and>
     (\<exists>enc. payload f = chunk_payload i enc \<and> opens_to cf ud i enc (chunk_at content i))"

definition put_ack :: "string \<Rightarrow> nat \<Rightarrow> msg" where
  "put_ack blob n = MFilePutAck \<lparr>fpa_blob_id = blob, fpa_have = map of_nat [0..<n], fpa_completed = True\<rparr>"

text \<open>What a completed upload leaves behind.\<close>

definition upload_done ::
  "('x, 'd) config \<Rightarrow> bytes \<Rightarrow> string \<Rightarrow> frame \<Rightarrow> session \<Rightarrow> ('x, 'd) world \<Rightarrow> session \<Rightarrow> ('x, 'd) world \<Rightarrow> bool" where
  "upload_done cf content blob ack s w s' w' \<longleftrightarrow>
     get_object (cf_backend cf) (se_fs s) blob (wd_storage w') = Some content \<and>
     (\<forall>k. simple_name k \<longrightarrow> k \<noteq> blob \<longrightarrow>
        get_object (cf_backend cf) (se_fs s) k (wd_storage w') = get_object (cf_backend cf) (se_fs s) k (wd_storage w)) \<and>
     wd_state w' = record_object_owner (se_domain s) blob (se_machine s) (wd_state w) \<and>
     s' = s\<lparr>se_pending := None, se_out := se_out s @ [ack]\<rparr> \<and> se_phase s' = Ready"

text \<open>
  An upload in progress: pieces \<open>S\<close> have arrived, not all of them, and the object store is a
  local directory apart from the temporary one.
\<close>

definition uploading ::
  "('x, 'd) config \<Rightarrow> bytes \<Rightarrow> nat \<Rightarrow> path \<Rightarrow> string list \<Rightarrow> string list \<Rightarrow> string \<Rightarrow> nat set \<Rightarrow>
   session \<Rightarrow> ('x, 'd) world \<Rightarrow> bool" where
  "uploading cf content n objr dobj dt blob S s w \<longleftrightarrow>
     piece_count content n \<and> sf_objects (se_fs s) = LocalObjectStore objr \<and> simple_name blob \<and>
     simple_name (blob @ ''.part'') \<and> se_open s \<and> se_phase s = Ready \<and> S \<noteq> {..<n} \<and>
     apart objr (join (sf_root (se_fs s)) ''tmp'') dobj dt (disk (wd_storage w)) \<and>
     local_get objr blob (disk (wd_storage w)) \<in> {None, Some content} \<and>
     (\<exists>pu. se_pending s = Some pu \<and> upload_inv content n (se_fs s) blob S pu (disk (wd_storage w)))"

text \<open>What does not change while pieces arrive.\<close>

definition same_but_pending :: "path \<Rightarrow> session \<Rightarrow> ('x, 'd) world \<Rightarrow> session \<Rightarrow> ('x, 'd) world \<Rightarrow> bool" where
  "same_but_pending objr s w s' w' \<longleftrightarrow>
     (\<exists>p. s' = s\<lparr>se_pending := p\<rparr>) \<and> wd_state w' = wd_state w \<and>
     (\<forall>k. simple_name k \<longrightarrow>
        local_get objr k (disk (wd_storage w')) = local_get objr k (disk (wd_storage w)))"

lemma chunk_received:
  assumes "uploading cf content n objr dobj dt blob S s w" and "carries cf (se_domain s) content i f" and "i < n"
  shows "\<exists>pu pu' G. se_pending s = Some pu \<and>
    handle_chunk cf (se_domain s) pu (payload f) (disk (wd_storage w)) = (Inr pu', G) \<and>
    upload_inv content n (se_fs s) blob (insert i S) pu' G \<and>
    apart objr (join (sf_root (se_fs s)) ''tmp'') dobj dt G \<and>
    (\<forall>k. simple_name k \<longrightarrow> local_get objr k G = local_get objr k (disk (wd_storage w))) \<and>
    (pu_received_count pu' = pu_total_chunks pu' \<longleftrightarrow> insert i S = {..<n})"
proof -
  note u = assms(1) [unfolded uploading_def]
  obtain enc where f: "payload f = chunk_payload i enc" and op: "opens_to cf (se_domain s) i enc (chunk_at content i)"
    using assms(2) unfolding carries_def by blast
  obtain pu where pu: "se_pending s = Some pu" "upload_inv content n (se_fs s) blob S pu (disk (wd_storage w))"
    using u by blast
  have pc: "piece_count content n" and sn: "simple_name (blob @ ''.part'')"
    and ap: "apart objr (join (sf_root (se_fs s)) ''tmp'') dobj dt (disk (wd_storage w))"
    using u by blast+
  obtain pu' G where G: "handle_chunk cf (se_domain s) pu (payload f) (disk (wd_storage w)) = (Inr pu', G)"
      "upload_inv content n (se_fs s) blob (insert i S) pu' G"
      "apart objr (join (sf_root (se_fs s)) ''tmp'') dobj dt G"
      "\<forall>k. simple_name k \<longrightarrow> local_get objr k G = local_get objr k (disk (wd_storage w))"
    using upload_inv_step [OF pu(2) pc ap sn assms(3) op] unfolding f by blast
  have n32: "n < 2 ^ 32" using pc by (simp add: piece_count_def)
  have sub: "insert i S \<subseteq> {..<n}" and cnt: "pu_received_count pu' = of_nat (card (insert i S))"
    and tot: "pu_total_chunks pu' = of_nat n" using G(2) unfolding upload_inv_def by blast+
  have le: "card (insert i S) \<le> n" using sub card_mono [of "{..<n}" "insert i S"] by simp
  have "insert i S = {..<n} \<longleftrightarrow> card (insert i S) = n"
    using sub card_subset_eq [of "{..<n}" "insert i S"] by auto
  also have "\<dots> \<longleftrightarrow> (of_nat (card (insert i S)) :: u64) = of_nat n"
    using le n32 by (simp add: word_of_nat_eq_iff take_bit_eq_mod)
  finally have "pu_received_count pu' = pu_total_chunks pu' \<longleftrightarrow> insert i S = {..<n}"
    unfolding cnt tot by blast
  then show ?thesis using pu(1) G by blast
qed

lemma chunk_step:
  assumes "uploading cf content n objr dobj dt blob S s w" and "carries cf (se_domain s) content i f" and "i < n"
    and "insert i S \<noteq> {..<n}"
  shows "\<exists>s' w'. session_step cf clk mid (Recv f) (s, w) = (s', w') \<and>
    uploading cf content n objr dobj dt blob (insert i S) s' w' \<and> same_but_pending objr s w s' w'"
proof -
  from chunk_received [OF assms(1-3)] obtain pu pu' G where pu: "se_pending s = Some pu"
    "handle_chunk cf (se_domain s) pu (payload f) (disk (wd_storage w)) = (Inr pu', G)"
    "upload_inv content n (se_fs s) blob (insert i S) pu' G"
    "apart objr (join (sf_root (se_fs s)) ''tmp'') dobj dt G"
    "\<forall>k. simple_name k \<longrightarrow> local_get objr k G = local_get objr k (disk (wd_storage w))"
    "pu_received_count pu' \<noteq> pu_total_chunks pu'" using assms(4) by blast
  let ?s = "s\<lparr>se_pending := Some pu'\<rparr>" and ?w = "upd_disk G w"
  note u = assms(1) [unfolded uploading_def]
  have step: "on_file_chunk cf f s w = (?s, ?w)" using pu by (simp add: on_file_chunk_def)
  have ready: "se_phase s = Ready" using u by blast
  have "frame_type f = FileChunk" using assms(2) by (simp add: carries_def)
  then have run: "session_step cf clk mid (Recv f) (s, w) = (?s, ?w)"
    by (intro session_step_chunk [OF ready _ step]) (simp_all add: ready)
  have "simple_name blob" using u by blast
  then have obj: "local_get objr blob G \<in> {None, Some content}" using u pu(5) by metis
  have "uploading cf content n objr dobj dt blob (insert i S) ?s ?w"
    unfolding uploading_def using u pu(3,4) obj assms(4) by (simp add: upd_disk_def)
  moreover have "same_but_pending objr s w ?s ?w"
    unfolding same_but_pending_def using pu(5) by (auto simp: upd_disk_def)
  ultimately show ?thesis using run by blast
qed

lemma last_chunk_step:
  assumes "uploading cf content n objr dobj dt blob S s w" and "carries cf (se_domain s) content i f" and "i < n"
    and "insert i S = {..<n}"
    and "from_json (cf_serde cf) FilePutAck 0 (put_ack blob n) = Inr ack" and "encode ack = Inr v"
  shows "\<exists>s' w'. session_step cf clk mid (Recv f) (s, w) = (s', w') \<and> upload_done cf content blob ack s w s' w'"
proof -
  from chunk_received [OF assms(1-3)] obtain pu pu' G where pu: "se_pending s = Some pu"
    "handle_chunk cf (se_domain s) pu (payload f) (disk (wd_storage w)) = (Inr pu', G)"
    "upload_inv content n (se_fs s) blob {..<n} pu' G"
    "apart objr (join (sf_root (se_fs s)) ''tmp'') dobj dt G"
    "\<forall>k. simple_name k \<longrightarrow> local_get objr k G = local_get objr k (disk (wd_storage w))"
    "pu_received_count pu' = pu_total_chunks pu'" unfolding assms(4) by blast
  let ?tmp = "join (sf_root (se_fs s)) ''tmp''" and ?n = "blob @ ''.part''"
  let ?s = "s\<lparr>se_pending := None\<rparr>" and ?w = "upd_disk G w"
  note u = assms(1) [unfolded uploading_def]
  have pc: "piece_count content n" and objs: "sf_objects (se_fs s) = LocalObjectStore objr"
    and sn: "simple_name blob" "simple_name ?n" and op: "se_open s" and ready: "se_phase s = Ready"
    and old: "local_get objr blob (disk (wd_storage w)) \<in> {None, Some content}" using u by blast+
  have i: "pu_blob_id pu' = blob" "pu_total_chunks pu' = of_nat n" "pu_temp_path pu' = join ?tmp ?n"
    "part_ok content {..<n} (file_or_empty (local_get ?tmp ?n G))"
    using pu(3) by (simp_all add: upload_inv_def temp_path_for_def)
  have "file_or_empty (local_get ?tmp ?n G) = content" "content \<noteq> []"
    using part_ok_full [OF i(4)] pc by (auto simp: piece_count_def)
  then have lg: "local_get ?tmp ?n G = Some content" by (cases "local_get ?tmp ?n G") simp_all
  have un: "unat (of_nat n :: u64) = n" using pc by (simp add: unat_of_nat piece_count_def)
  have d: "disk (wd_storage ?w) = G" by (simp add: upd_disk_def)
  have old': "local_get objr (pu_blob_id pu') G \<in> {None, Some content}" using old pu(5) sn(1) i(1) by metis
  have "sf_objects (se_fs ?s) = LocalObjectStore objr" using objs by simp
  from finish_upload_stores [OF this, of ?tmp dobj dt ?w pu' ?n content cf, unfolded d,
      OF pu(4) _ sn(2) i(3) lg old'] sn(1) i(1,2) un
  obtain w1 where w1: "finish_upload cf pu' ?s ?w = (reply cf FilePutAck (put_ack blob n) ?s, w1)"
    "local_get objr blob (disk (wd_storage w1)) = Some content"
    "\<forall>k. simple_name k \<longrightarrow> k \<noteq> blob \<longrightarrow> local_get objr k (disk (wd_storage w1)) = local_get objr k G"
    "wd_state w1 = record_object_owner (se_domain s) blob (se_machine s) (wd_state ?w)"
    unfolding put_ack_def by auto
  let ?r = "?s\<lparr>se_out := se_out s @ [ack]\<rparr>"
  have r: "reply cf FilePutAck (put_ack blob n) ?s = ?r"
    using op unfolding reply_def sess_send_json_def assms(5) by (simp add: sess_send_def assms(6))
  have step: "on_file_chunk cf f s w = (?r, w1)" using pu w1(1) r by (simp add: on_file_chunk_def)
  have "frame_type f = FileChunk" using assms(2) by (simp add: carries_def)
  then have "session_step cf clk mid (Recv f) (s, w) = (?r, w1)"
    by (intro session_step_chunk [OF ready _ step]) (simp_all add: ready)
  moreover have "upload_done cf content blob ack s w ?r w1"
    unfolding upload_done_def using w1(2-4) pu(5) objs ready by (simp add: get_object_def upd_disk_def)
  ultimately show ?thesis by blast
qed

lemma upload_done_same:
  assumes "upload_done cf content blob ack s1 w1 s' w'" and "same_but_pending objr s w s1 w1"
    and "sf_objects (se_fs s) = LocalObjectStore objr"
  shows "upload_done cf content blob ack s w s' w'"
  using assms by (auto simp: upload_done_def same_but_pending_def get_object_def)

lemma carries_type: "carries cf ud content i f \<Longrightarrow> frame_type f = FileChunk"
  by (simp add: carries_def)

lemma upload_run:
  assumes "list_all2 (carries cf (se_domain s) content) is fs"
    and "uploading cf content n objr dobj dt blob S s w" and "S \<union> set is = {..<n}"
    and "from_json (cf_serde cf) FilePutAck 0 (put_ack blob n) = Inr ack" and "encode ack = Inr v"
  shows "\<exists>s' w'. session_run cf mid (map (\<lambda>f. (clk, Recv f)) fs) (s, w) = (s', w') \<and>
    upload_done cf content blob ack s w s' w'"
  using assms(1-3)
proof (induction "is" fs arbitrary: S s w rule: list_induct2')
  case 1
  then show ?case by (simp add: uploading_def)
next
  case (4 i "is" f fs)
  have c: "carries cf (se_domain s) content i f" and rest: "list_all2 (carries cf (se_domain s) content) is fs"
    using "4.prems"(1) by simp_all
  have i: "i < n" using "4.prems"(3) by auto
  show ?case
  proof (cases "insert i S = {..<n}")
    case True
    from last_chunk_step [OF "4.prems"(2) c i this assms(4,5)] obtain s' w' where
      st: "session_step cf clk mid (Recv f) (s, w) = (s', w')" and d: "upload_done cf content blob ack s w s' w'"
      by blast
    have "\<forall>f \<in> set fs. frame_type f = FileChunk"
      using rest by (metis carries_type in_set_conv_nth list_all2_conv_all_nth)
    moreover have "se_phase s' = Ready" "se_pending s' = None" using d by (auto simp: upload_done_def)
    ultimately show ?thesis using idle_chunks [of s' fs cf mid clk w'] st d by auto
  next
    case False
    from chunk_step [OF "4.prems"(2) c i this] obtain s1 w1 where
      st: "session_step cf clk mid (Recv f) (s, w) = (s1, w1)"
      and u: "uploading cf content n objr dobj dt blob (insert i S) s1 w1" and same: "same_but_pending objr s w s1 w1"
      by blast
    have "se_domain s1 = se_domain s" using same by (auto simp: same_but_pending_def)
    with "4.IH" [of s1 "insert i S" w1] u rest "4.prems"(3) obtain s' w' where
      run: "session_run cf mid (map (\<lambda>f. (clk, Recv f)) fs) (s1, w1) = (s', w')" and
      d: "upload_done cf content blob ack s1 w1 s' w'" by auto
    have "sf_objects (se_fs s) = LocalObjectStore objr" using "4.prems"(2) by (simp add: uploading_def)
    with upload_done_same [OF d same] st run show ?thesis by simp
  qed
qed simp_all

lemma remove_file_local_get:
  "fs_remove_file (join root n) F = Inr G \<Longrightarrow> \<exists>b. local_get root n F = Some b"
  using fs_remove_file_InrD [of "join root n" F G] by (auto simp: local_get_read fs_read_def)

lemma file_put_starts:
  fixes w :: "('x, 'd) world"
  assumes "se_phase s = Ready" and "se_open s" and "frame_type f = FilePut"
    and "payload_json (de_file_put (cf_serde cf)) f = Inr fp" and "fp_blob_id fp = blob" and "fp_total_chunks fp = of_nat n"
    and "try_reserve_quota (cf_env cf) (cf_sql cf) (se_domain s) (fp_size fp) (wd_state w) = (True, st)"
    and "from_json (cf_serde cf) FilePutAck 0
      (MFilePutAck \<lparr>fpa_blob_id = blob, fpa_have = [], fpa_completed = False\<rparr>) = Inr ack0" and "encode ack0 = Inr v0"
    and "piece_count content n" and "sf_objects (se_fs s) = LocalObjectStore objr"
    and "simple_name blob" and "simple_name (blob @ ''.part'')"
    and "apart objr (join (sf_root (se_fs s)) ''tmp'') dobj dt (disk (wd_storage w))"
    and "local_get objr blob (disk (wd_storage w)) \<in> {None, Some content}"
  shows "\<exists>s' w'. session_step cf clk mid (Recv f) (s, w) = (s', w') \<and>
    uploading cf content n objr dobj dt blob {} s' w' \<and> wd_state w' = st \<and>
    (\<exists>p. s' = s\<lparr>se_pending := p, se_out := se_out s @ [ack0]\<rparr>) \<and>
    (\<forall>k. simple_name k \<longrightarrow> local_get objr k (disk (wd_storage w')) = local_get objr k (disk (wd_storage w)))"
proof -
  let ?F = "disk (wd_storage w)" and ?tmp = "join (sf_root (se_fs s)) ''tmp''" and ?n = "blob @ ''.part''"
  let ?pu = "\<lparr>pu_blob_id = blob, pu_size = fp_size fp, pu_total_chunks = of_nat n,
     pu_temp_path = temp_path_for (se_fs s) blob, pu_received = replicate n False, pu_received_count = 0\<rparr>"
  let ?s = "s\<lparr>se_pending := Some ?pu, se_out := se_out s @ [ack0]\<rparr>"
  have n: "n < 2 ^ 32" "0 < n" using assms(10) by (simp_all add: piece_count_def)
  then have un: "unat (of_nat n :: u64) = n" by (simp add: unat_of_nat)
  obtain G where G: "(case fs_remove_file (join ?tmp ?n) ?F of Inl _ \<Rightarrow> ?F | Inr G \<Rightarrow> G) = G"
    "apart objr ?tmp dobj dt G" "local_get ?tmp ?n G = None"
    "\<forall>k. simple_name k \<longrightarrow> local_get objr k G = local_get objr k ?F"
  proof (cases "local_get ?tmp ?n ?F")
    case None
    then obtain e where "fs_remove_file (join ?tmp ?n) ?F = Inl e"
      using remove_file_local_get [of ?tmp ?n ?F] by (cases "fs_remove_file (join ?tmp ?n) ?F") auto
    with None assms(14) that show thesis by simp
  next
    case (Some b)
    from remove_apart [OF assms(14,13) Some] that show thesis by force
  qed
  let ?w = "upd_disk G (w\<lparr>wd_state := st\<rparr>)"
  have w2: "(case fs_remove_file (join ?tmp ?n) ?F of Inl _ \<Rightarrow> w\<lparr>wd_state := st\<rparr> | Inr F' \<Rightarrow> upd_disk F' (w\<lparr>wd_state := st\<rparr>)) = ?w"
    using G(1) by (cases "fs_remove_file (join ?tmp ?n) ?F") (auto simp: upd_disk_def)
  have rep: "reply cf FilePutAck (MFilePutAck \<lparr>fpa_blob_id = blob, fpa_have = [], fpa_completed = False\<rparr>)
      (s\<lparr>se_pending := Some ?pu\<rparr>) = ?s"
    unfolding reply_def sess_send_json_def assms(8) using assms(2,9) by (simp add: sess_send_def)
  have "\<not> n \<ge> 2 ^ 63" using n by simp
  then have "on_file_put cf f s w = (?s, ?w)"
    unfolding on_file_put_def Let_def using w2 rep
    by (simp add: assms(4-7) un temp_path_for_def)
  then have step: "session_step cf clk mid (Recv f) (s, w) = (?s, ?w)"
    using assms(1,3) by (simp add: session_step_def ready_step_def on_frame_def)
  have "upload_inv content n (se_fs s) blob {} ?pu G"
    using G(3) part_ok_empty [of content] by (simp add: upload_inv_def)
  moreover have "local_get objr blob G \<in> {None, Some content}" using G(4) assms(12,15) by metis
  moreover have "{} \<noteq> {..<n}" using n(2) by auto
  ultimately have "uploading cf content n objr dobj dt blob {} ?s ?w"
    unfolding uploading_def using assms(1,2,10-13) G(2) by (simp add: upd_disk_def)
  with step G(4) show ?thesis
    by (intro exI [of _ ?s] exI [of _ ?w]) (auto simp: upd_disk_def)
qed

section \<open>Properties\<close>

text \<open>
  C3: a chunked upload stores the file.  In a ready session whose tenant has a local object store
  and whose quota admits the request, a \<open>FILE_PUT\<close> followed by chunk frames that carry the
  pieces of the file, in any order, with any duplicates, and sealed with any key of the tenant,
  ends with the file stored under its blob id, all other objects as they were, the uploader
  recorded as the owner, exactly the opening and the final acknowledgement sent, and the session
  ready for the next request.
\<close>

theorem upload_any_order:
  fixes w :: "('x, 'd) world"
  assumes "se_phase s = Ready" and "se_open s" and "frame_type f = FilePut"
    and "payload_json (de_file_put (cf_serde cf)) f = Inr fp" and "fp_blob_id fp = blob" and "fp_total_chunks fp = of_nat n"
    and "try_reserve_quota (cf_env cf) (cf_sql cf) (se_domain s) (fp_size fp) (wd_state w) = (True, st)"
    and "from_json (cf_serde cf) FilePutAck 0
      (MFilePutAck \<lparr>fpa_blob_id = blob, fpa_have = [], fpa_completed = False\<rparr>) = Inr ack0" and "encode ack0 = Inr v0"
    and "from_json (cf_serde cf) FilePutAck 0 (put_ack blob n) = Inr ack" and "encode ack = Inr v"
    and "piece_count content n" and "sf_objects (se_fs s) = LocalObjectStore objr"
    and "simple_name blob" and "simple_name (blob @ ''.part'')"
    and "apart objr (join (sf_root (se_fs s)) ''tmp'') dobj dt (disk (wd_storage w))"
    and "local_get objr blob (disk (wd_storage w)) \<in> {None, Some content}"
    and "list_all2 (carries cf (se_domain s) content) is fs" and "set is = {..<n}"
  shows "\<exists>s' w'. session_run cf mid (map (\<lambda>f. (clk, Recv f)) (f # fs)) (s, w) = (s', w') \<and>
    get_object (cf_backend cf) (se_fs s) blob (wd_storage w') = Some content \<and>
    (\<forall>k. simple_name k \<longrightarrow> k \<noteq> blob \<longrightarrow>
       get_object (cf_backend cf) (se_fs s) k (wd_storage w') = get_object (cf_backend cf) (se_fs s) k (wd_storage w)) \<and>
    object_owner (se_domain s) blob (wd_state w') = Some (se_machine s) \<and>
    se_out s' = se_out s @ [ack0, ack] \<and> se_phase s' = Ready \<and> se_pending s' = None"
proof -
  from file_put_starts [OF assms(1-9,12-17), of clk mid] obtain s1 w1 p where
    st: "session_step cf clk mid (Recv f) (s, w) = (s1, w1)" "uploading cf content n objr dobj dt blob {} s1 w1"
    and s1: "s1 = s\<lparr>se_pending := p, se_out := se_out s @ [ack0]\<rparr>"
    and same: "\<forall>k. simple_name k \<longrightarrow> local_get objr k (disk (wd_storage w1)) = local_get objr k (disk (wd_storage w))"
    by blast
  have "list_all2 (carries cf (se_domain s1) content) is fs" using assms(18) s1 by simp
  from upload_run [OF this st(2) _ assms(10,11), of mid clk] assms(19) obtain s' w' where
    run: "session_run cf mid (map (\<lambda>f. (clk, Recv f)) fs) (s1, w1) = (s', w')"
    and d: "upload_done cf content blob ack s1 w1 s' w'" by auto
  show ?thesis using st(1) run d s1 same assms(13) by (auto simp: upload_done_def get_object_def)
qed

lemma sample_ready:
  "local_ready ''/n/objects'' sample_disk sample_disk [''n'', ''objects'']"
  "local_ready ''/n/tmp'' sample_disk sample_disk [''n'', ''tmp'']"
  by (simp_all add: local_ready_def sample_disk_def fs_create_dir_all_def start_of_def resolve_def node_at_def hm_get_def)

lemma sample_apart: "apart ''/n/objects'' (join ''/n'' ''tmp'') [''n'', ''objects''] [''n'', ''tmp''] sample_disk"
proof -
  have "join ''/n'' ''tmp'' = ''/n/tmp''" by (simp add: join_def suffix_to_prefix)
  moreover have "\<forall>n. node_at sample_disk ([''n'', ''tmp''] @ [n]) \<noteq> Some Dir"
    "\<forall>n. node_at sample_disk ([''n'', ''objects''] @ [n]) \<noteq> Some Dir"
    by (simp_all add: sample_disk_def node_at_def hm_get_def)
  ultimately show ?thesis unfolding apart_def using sample_ready by auto
qed

theorem upload_any_order_witness:
  "\<exists>s' w'. session_run sample_config ''id'' (map (\<lambda>f. (\<lambda>_. 0, Recv f))
       [frame_new FilePut 0 [], frame_new FileChunk 0 (chunk_payload 0 [7, 8]), frame_new FileChunk 0 (chunk_payload 0 [7, 8])])
       (sample_session, sample_world) = (s', w') \<and>
     get_object no_backend sample_fs ''b'' (wd_storage w') = Some [7, 8] \<and> length (se_out s') = 2"
proof -
  let ?c = "frame_new FileChunk 0 (chunk_payload 0 [7, 8])" and ?f = "frame_new FilePut 0 []"
  let ?fp = "\<lparr>fp_blob_id = ''b'', fp_total_chunks = 1, fp_size = 2\<rparr>" and ?cf = sample_config
  let ?st = "(wd_state sample_world)\<lparr>st_usage_bytes := hm_insert ''d'' 2 []\<rparr>"
  have s: "se_phase sample_session = Ready" "se_open sample_session" "se_domain sample_session = ''d''"
    "se_fs sample_session = sample_fs" "se_out sample_session = []"
    by (simp_all add: sample_session_def session_new_def)
  have cf: "cf_serde ?cf = sample_serde" "cf_env ?cf = Map.empty" "cf_sql ?cf = no_sql" "cf_backend ?cf = no_backend"
    "cf_crates ?cf = sample_crates"
    by (simp_all add: sample_config_def)
  have q: "try_reserve_quota (cf_env ?cf) (cf_sql ?cf) (se_domain sample_session) (fp_size ?fp) (wd_state sample_world) = (True, ?st)"
    by (simp add: cf s try_reserve_quota_def quota_for_def quota_bytes_def usage_of_def sample_world_def
        server_state_new_def hm_get_def Let_def)
  have fp: "payload_json (de_file_put (cf_serde ?cf)) ?f = Inr ?fp"
    by (simp add: cf sample_serde_def)
  have fj: "from_json (cf_serde ?cf) FilePutAck 0 m = Inr (frame_new FilePutAck 0 [])" for m
    by (simp add: cf sample_serde_def frame_new_def)
  have e: "\<exists>v. encode (frame_new FilePutAck 0 []) = Inr v"
    by (simp add: encode_def frame_new_def)
  then obtain v where v: "encode (frame_new FilePutAck 0 []) = Inr v" ..
  have pc: "piece_count [7, 8] 1" by (simp add: piece_count_def CHUNK_SIZE_def)
  have sn: "simple_name ''b''" "simple_name (''b'' @ ''.part'')" by (simp_all add: simple_name_def)
  have no_key: "e2e_from_env sample_crates Map.empty (Some ''d'') = None"
    by (simp add: e2e_from_env_def masters_from_env_def)
  have car: "carries ?cf (se_domain sample_session) [7, 8] 0 ?c"
    by (simp add: carries_def frame_new_def opens_to_def cf s no_key chunk_at_def CHUNK_SIZE_def)
  have ap: "apart ''/n/objects'' (join (sf_root (se_fs sample_session)) ''tmp'') [''n'', ''objects''] [''n'', ''tmp'']
      (disk (wd_storage sample_world))"
    using sample_apart by (simp add: s sample_fs_def sample_world_def)
  have old: "local_get ''/n/objects'' ''b'' (disk (wd_storage sample_world)) \<in> {None, Some [7, 8]}"
    using local_get_node [OF sample_ready(1) sn(1)]
    by (simp add: sample_world_def) (simp add: sample_disk_def node_at_def hm_get_def)
  have ft: "frame_type ?f = FilePut" by (simp add: frame_new_def)
  have ob: "sf_objects (se_fs sample_session) = LocalObjectStore ''/n/objects''" by (simp add: s sample_fs_def)
  have two: "list_all2 (carries ?cf (se_domain sample_session) [7, 8]) [0, 0] [?c, ?c]" using car by simp
  have all: "set [0, 0] = {..<1 :: nat}" by auto
  have tot: "fp_total_chunks ?fp = of_nat 1" "fp_blob_id ?fp = ''b''" by simp_all
  from upload_any_order [OF s(1,2) ft fp tot(2,1) q fj v fj v pc ob sn ap old two all]
  show ?thesis unfolding cf s by force
qed

end
