(* ===== verification/Client_Stream.thy ===== *)
theory Client_Stream
  imports Upload
begin

text \<open>
  Conversations of the client (\<open>nsmt-client\<close>) over a \<open>FrameStream\<close>.

  The stream is the record \<open>transport\<close> over the state \<open>'p\<close> of whatever is at the other end:
  \<open>tx\<close> hands over a frame, \<open>rx\<close> is what the next \<open>recv\<close> gives.  A conversation returns \<open>None\<close> when it
  never returns, otherwise its result and the state of the other end.  When both ends are silent the
  connection does not last: the code leaves the QUIC library (\<open>quinn\<close>) its default transport
  configuration, in which a connection is lost after 30 s without traffic, and both ends get an error.
  The transports of the development are the server session (\<open>server_link\<close>) and the course of a whole
  conversation (\<open>script\<close>).
\<close>

datatype client_error =
    CNsmt nsmt_error
  | CIo io_error
  | CEof
  | CBail string
  | CMemory memory_error

datatype rx_result = RxFrame frame | RxEof | RxErr nsmt_error

text \<open>The connection is lost after a silence.\<close>

definition idle_timeout :: nsmt_error where
  "idle_timeout = Io (OtherIo ''timed out'')"

record 'p transport =
  tx :: "frame \<Rightarrow> 'p \<Rightarrow> io_error + 'p"
  rx :: "'p \<Rightarrow> rx_result \<times> 'p"

type_synonym ('p, 'a) conv = "'p \<Rightarrow> ((client_error + 'a) \<times> 'p) option"

definition c_ret :: "'a \<Rightarrow> ('p, 'a) conv" where
  "c_ret x p = Some (Inr x, p)"

definition c_lift :: "client_error + 'a \<Rightarrow> ('p, 'a) conv" where
  "c_lift r p = Some (r, p)"

definition c_bind :: "('p, 'a) conv \<Rightarrow> ('a \<Rightarrow> ('p, 'b) conv) \<Rightarrow> ('p, 'b) conv" where
  "c_bind m k p =
     (case m p of
        None \<Rightarrow> None
      | Some (Inl e, p') \<Rightarrow> Some (Inl e, p')
      | Some (Inr x, p') \<Rightarrow> k x p')"

definition c_send :: "'p transport \<Rightarrow> frame \<Rightarrow> ('p, unit) conv" where
  "c_send T f p =
     (case encode f of
        Inl e \<Rightarrow> Some (Inl (CNsmt e), p)
      | Inr _ \<Rightarrow> (case tx T f p of Inl e \<Rightarrow> Some (Inl (CNsmt (Io e)), p) | Inr p' \<Rightarrow> Some (Inr (), p')))"

definition c_send_json :: "'p transport \<Rightarrow> serde \<Rightarrow> frame_type \<Rightarrow> msg \<Rightarrow> ('p, unit) conv" where
  "c_send_json T S t m p =
     (case from_json S t 0 m of Inl e \<Rightarrow> Some (Inl (CNsmt e), p) | Inr f \<Rightarrow> c_send T f p)"

text \<open>\<open>fs.recv().await?.ok_or_else(eof)?\<close>\<close>

definition c_recv :: "'p transport \<Rightarrow> ('p, frame) conv" where
  "c_recv T p =
     (case rx T p of
        (RxFrame f, p') \<Rightarrow> Some (Inr f, p')
      | (RxEof, p') \<Rightarrow> Some (Inl CEof, p')
      | (RxErr e, p') \<Rightarrow> Some (Inl (CNsmt e), p'))"

definition c_json :: "(bytes \<Rightarrow> 'a option) \<Rightarrow> frame \<Rightarrow> ('p, 'a) conv" where
  "c_json de f p = (case payload_json de f of Inl e \<Rightarrow> Some (Inl (CNsmt e), p) | Inr x \<Rightarrow> Some (Inr x, p))"

definition c_io :: "io_error + 'a \<Rightarrow> ('p, 'a) conv" where
  "c_io r p = (case r of Inl e \<Rightarrow> Some (Inl (CIo e), p) | Inr x \<Rightarrow> Some (Inr x, p))"

text \<open>
  The receive loops: \<open>h\<close> looks at a frame and ends the conversation with an error, leaves the
  loop with a value, or skips the frame.
\<close>

partial_function (option) recv_loop :: "'p transport \<Rightarrow> (frame \<Rightarrow> client_error + 'a option) \<Rightarrow> ('p, 'a) conv" where
  "recv_loop T h p =
     (case rx T p of
        (RxFrame f, p') \<Rightarrow>
          (case h f of
             Inl e \<Rightarrow> Some (Inl e, p')
           | Inr (Some x) \<Rightarrow> Some (Inr x, p')
           | Inr None \<Rightarrow> recv_loop T h p')
      | (RxEof, p') \<Rightarrow> Some (Inl CEof, p')
      | (RxErr e, p') \<Rightarrow> Some (Inl (CNsmt e), p'))"

definition want_types :: "frame_type list \<Rightarrow> frame \<Rightarrow> client_error + frame option" where
  "want_types ts f = Inr (if frame_type f \<in> set ts then Some f else None)"

text \<open>
  \<open>read_until\<close> of \<open>fs.rs\<close> and \<open>recv_until\<close> of \<open>main.rs\<close>; a \<open>PeerHint\<close> on the way only starts a
  hole punching task.
\<close>

definition read_until :: "'p transport \<Rightarrow> frame_type \<Rightarrow> ('p, frame) conv" where
  "read_until T want = recv_loop T (want_types [want])"

definition recv_until :: "'p transport \<Rightarrow> frame_type \<Rightarrow> ('p, frame) conv" where
  "recv_until T want = recv_loop T (want_types [want])"

section \<open>Transports\<close>

text \<open>
  A script: the whole course of a conversation in the order of time, as one end sees it.  A frame is
  heard only when everything before it has been said and heard; an end that listens while it would
  be its turn to speak, or says something else, loses the connection.
\<close>

datatype turn = Says frame | Hears frame

type_synonym script = "turn list"

definition script_link :: "script transport" where
  "script_link = \<lparr>tx = (\<lambda>f p. case p of Says g # r \<Rightarrow> if g = f then Inr r else Inl (OtherIo ''timed out'') | _ \<Rightarrow> Inl (OtherIo ''timed out'')),
     rx = (\<lambda>p. case p of Hears f # r \<Rightarrow> (RxFrame f, r) | _ \<Rightarrow> (RxErr idle_timeout, p))\<rparr>"

text \<open>The same conversation from the other end.\<close>

primrec swap_turn :: "turn \<Rightarrow> turn" where
  "swap_turn (Says f) = Hears f"
| "swap_turn (Hears f) = Says f"

text \<open>
  The server session at the other end: a frame sent is one step of the session, the frames in
  \<open>se_out\<close> that have not been read yet are received in order.  The third component counts the
  frames already read.  A \<open>recv\<close> with nothing to come lasts until the connection is lost, for the
  session as well.
\<close>

type_synonym ('x, 'd) link = "session \<times> ('x, 'd) world \<times> nat"

definition server_link :: "('x, 'd) config \<Rightarrow> clock \<Rightarrow> string \<Rightarrow> ('x, 'd) link transport" where
  "server_link cf clk mid =
     \<lparr>tx = (\<lambda>f (s, w, k). case session_step cf clk mid (Recv f) (s, w) of (s', w') \<Rightarrow> Inr (s', w', k)),
      rx = (\<lambda>(s, w, k).
        if k < length (se_out s) then (RxFrame (se_out s ! k), (s, w, Suc k))
        else (case se_phase s of
                Closed _ \<Rightarrow> (RxEof, (s, w, k))
              | _ \<Rightarrow> (case session_step cf clk mid (RecvErr idle_timeout) (s, w) of (s', w') \<Rightarrow> (RxErr idle_timeout, (s', w', k)))))\<rparr>"

section \<open>Lemmas\<close>

lemma c_bind_simps [simp]:
  "m p = Some (Inr x, p') \<Longrightarrow> c_bind m k p = k x p'"
  "m p = Some (Inl e, p') \<Longrightarrow> c_bind m k p = Some (Inl e, p')"
  "m p = None \<Longrightarrow> c_bind m k p = None"
  by (simp_all add: c_bind_def)

lemma c_send_ok: "encode f = Inr v \<Longrightarrow> tx T f p = Inr p' \<Longrightarrow> c_send T f p = Some (Inr (), p')"
  by (simp add: c_send_def)

lemma c_send_json_ok:
  assumes "sendable S t m" and "tx T (sent S t m) p = Inr p'"
  shows "c_send_json T S t m p = Some (Inr (), p')"
proof -
  obtain f v where f: "from_json S t 0 m = Inr f" "encode f = Inr v"
    using assms(1) by (auto simp: sendable_def split: sum.splits)
  show ?thesis using assms(2) unfolding c_send_json_def sent_def f(1) by (simp add: c_send_ok [OF f(2)])
qed

lemma c_json_ok: "de (payload f) = Some x \<Longrightarrow> c_json de f p = Some (Inr x, p)"
  by (simp add: c_json_def payload_json_def)

lemma recv_loop_hit: "rx T p = (RxFrame f, p') \<Longrightarrow> h f = Inr (Some x) \<Longrightarrow> recv_loop T h p = Some (Inr x, p')"
  by (subst recv_loop.simps) simp

lemma recv_loop_skip: "rx T p = (RxFrame f, p') \<Longrightarrow> h f = Inr None \<Longrightarrow> recv_loop T h p = recv_loop T h p'"
  by (subst recv_loop.simps) simp

lemma recv_loop_err: "rx T p = (RxErr e, p') \<Longrightarrow> recv_loop T h p = Some (Inl (CNsmt e), p')"
  by (subst recv_loop.simps) simp

lemma want_types_simp [simp]: "want_types ts f = Inr (if frame_type f \<in> set ts then Some f else None)"
  by (simp add: want_types_def)

lemma sent_frame:
  assumes "sendable S t m"
  shows "frame_type (sent S t m) = t" "to_vec S m = Some (payload (sent S t m))" "\<exists>v. encode (sent S t m) = Inr v"
  using assms by (auto simp: sendable_def sent_def from_json_def frame_new_def split: option.splits)

lemma tx_server [simp]:
  "session_step cf clk mid (Recv f) (s, w) = (s', w') \<Longrightarrow> tx (server_link cf clk mid) f (s, w, k) = Inr (s', w', k)"
  by (simp add: server_link_def)

lemma rx_server [simp]:
  "k < length (se_out s) \<Longrightarrow> rx (server_link cf clk mid) (s, w, k) = (RxFrame (se_out s ! k), (s, w, Suc k))"
  by (simp add: server_link_def)

lemma rx_server_idle:
  "length (se_out s) \<le> k \<Longrightarrow> \<forall>r. se_phase s \<noteq> Closed r \<Longrightarrow> session_step cf clk mid (RecvErr idle_timeout) (s, w) = (s', w') \<Longrightarrow>
     rx (server_link cf clk mid) (s, w, k) = (RxErr idle_timeout, (s', w', k))"
  by (cases "se_phase s") (simp_all add: server_link_def)

lemma script_tx [simp]: "tx script_link f (Says f # r) = Inr r"
  by (simp add: script_link_def)

lemma script_rx [simp]: "rx script_link (Hears f # r) = (RxFrame f, r)"
  "rx script_link (Says f # r) = (RxErr idle_timeout, Says f # r)" "rx script_link [] = (RxErr idle_timeout, [])"
  by (simp_all add: script_link_def)

lemma script_send: "sendable S t m \<Longrightarrow> c_send_json script_link S t m (Says (sent S t m) # r) = Some (Inr (), r)"
  by (rule c_send_json_ok) simp_all

lemma script_recv: "frame_type f = want \<Longrightarrow> recv_until script_link want (Hears f # r) = Some (Inr f, r)"
  unfolding recv_until_def by (rule recv_loop_hit [where f = f]) (simp_all add: want_types_def)

text \<open>What a conversation along a script that comes to a result has said and heard.\<close>

lemma script_sendD: "c_send_json script_link S t m p = Some (Inr x, r) \<Longrightarrow> p = Says (sent S t m) # r"
proof (cases "from_json S t 0 m")
  case (Inr f)
  assume "c_send_json script_link S t m p = Some (Inr x, r)"
  then have "c_send script_link f p = Some (Inr x, r)" unfolding c_send_json_def Inr by simp
  moreover have "sent S t m = f" by (simp only: sent_def Inr sum.sel)
  ultimately show ?thesis
    by (auto simp: c_send_def script_link_def split: sum.splits list.splits turn.splits if_splits)
qed (simp add: c_send_json_def)

lemma script_recvD: "recv_until script_link want p = Some (Inr f, r) \<Longrightarrow> \<exists>skipped. p = skipped @ Hears f # r \<and> frame_type f = want"
proof (induction p)
  case (Cons x p)
  show ?case
  proof (cases x)
    case (Hears g)
    show ?thesis
    proof (cases "frame_type g = want")
      case True
      then show ?thesis using Cons.prems script_recv [OF True, of p] Hears by auto
    next
      case False
      then have "recv_until script_link want (x # p) = recv_until script_link want p"
        unfolding recv_until_def Hears by (intro recv_loop_skip) simp_all
      with Cons show ?thesis by (metis append_Cons)
    qed
  qed (use Cons.prems in \<open>simp add: recv_until_def recv_loop_err [of script_link, OF script_rx(2)]\<close>)
qed (simp add: recv_until_def recv_loop_err [of script_link, OF script_rx(3)])

end
