(* ===== verification/Client_Fs.thy ===== *)
theory Client_Fs
  imports Client_Stream
begin

text \<open>
  The client side of file sharing, \<open>nsmt-client/src/fs.rs\<close>: the object cache, materialised
  files and conflict copies, and the transfers over a stream.
\<close>

section \<open>Local files\<close>

definition client_tree_hash :: "crates \<Rightarrow> file_tree \<Rightarrow> string" where
  "client_tree_hash C t = hex_encode C (sha256 C
     (concat (map (\<lambda>e. as_bytes (fte_path e) @ as_bytes (fte_blob_id e) @
        u16_to_le_bytes (fte_mode e) @ u64_to_le_bytes (fte_size e))
       (sort_key fte_path (ft_entries t)))))"

definition object_id :: "crates \<Rightarrow> bytes \<Rightarrow> string" where
  "object_id C bs = hex_encode C (sha256 C bs)"

definition share_dir :: "env \<Rightarrow> path" where
  "share_dir env =
     (case env ''NSMT_SHARE_DIR'' of
        Some d \<Rightarrow> d
      | None \<Rightarrow> (case env ''HOME'' of Some h \<Rightarrow> join h ''nsmt_share'' | None \<Rightarrow> ''nsmt_share''))"

definition objects_dir :: "env \<Rightarrow> path" where
  "objects_dir env =
     (case env ''NSMT_OBJECTS_DIR'' of
        Some d \<Rightarrow> d
      | None \<Rightarrow> (case env ''HOME'' of Some h \<Rightarrow> join (join h ''.nsmt'') ''objects'' | None \<Rightarrow> ''.nsmt/objects''))"

definition ensure_object_local :: "env \<Rightarrow> string \<Rightarrow> bytes \<Rightarrow> fs \<Rightarrow> (io_error + unit) \<times> fs" where
  "ensure_object_local env blob_id bs F =
     (let dir = objects_dir env in
      case fs_create_dir_all dir F of
        Inl e \<Rightarrow> (Inl e, F)
      | Inr F1 \<Rightarrow>
         (let p = join dir blob_id in
          if fs_exists F1 p then (Inr (), F1)
          else (case fs_write p bs F1 of Inl e \<Rightarrow> (Inl e, F1) | Inr F2 \<Rightarrow> (Inr (), F2))))"

text \<open>\<open>make_symlink\<close> is the operating system's; without \<open>NSMT_SYMLINK_VIEW\<close> it is not used.\<close>

definition materialize ::
  "env \<Rightarrow> (path \<Rightarrow> path \<Rightarrow> fs \<Rightarrow> io_error + fs) \<Rightarrow> file_tree_entry \<Rightarrow> bytes \<Rightarrow> fs \<Rightarrow> (io_error + unit) \<times> fs" where
  "materialize env make_symlink en bs F =
     (let target = join (share_dir env) (fte_path en) in
      case fs_create_dir_all (parent target) F of
        Inl e \<Rightarrow> (Inl e, F)
      | Inr F1 \<Rightarrow>
         (if env ''NSMT_SYMLINK_VIEW'' \<noteq> None then
            (let obj = join (objects_dir env) (fte_blob_id en) in
             case (if fs_exists F1 obj then Inr F1 else fs_write obj bs F1) of
               Inl e \<Rightarrow> (Inl e, F1)
             | Inr F2 \<Rightarrow>
                (let F3 = (case fs_remove_file target F2 of Inl _ \<Rightarrow> F2 | Inr F' \<Rightarrow> F') in
                 case make_symlink obj target F3 of Inl e \<Rightarrow> (Inl e, F3) | Inr F4 \<Rightarrow> (Inr (), F4)))
          else (case fs_write target bs F1 of Inl e \<Rightarrow> (Inl e, F1) | Inr F2 \<Rightarrow> (Inr (), F2))))"

definition sanitize_name :: "string \<Rightarrow> string" where
  "sanitize_name s =
     map_chars (\<lambda>c. if is_ascii_alphanumeric c \<or> c = CHR ''-'' \<or> c = CHR ''_'' then c else CHR ''_'') s"

definition conflict_name :: "string \<Rightarrow> string \<Rightarrow> nat \<Rightarrow> string" where
  "conflict_name requester path ts =
     ''.sync-conflict-'' @ sanitize_name requester @ ''-'' @
     map (\<lambda>c. if c = CHR ''/'' then CHR ''_'' else c) path @ ''-'' @ fmt_dec ts"

text \<open>\<open>std::fs::copy\<close>, whose result the caller ignores.\<close>

definition copy_file :: "path \<Rightarrow> path \<Rightarrow> fs \<Rightarrow> fs" where
  "copy_file src dst F =
     (case fs_read F src of
        Inl _ \<Rightarrow> F
      | Inr bs \<Rightarrow> (case fs_write dst bs F of Inl _ \<Rightarrow> F | Inr F' \<Rightarrow> F'))"

definition materialize_with_conflict ::
  "crates \<Rightarrow> env \<Rightarrow> (path \<Rightarrow> path \<Rightarrow> fs \<Rightarrow> io_error + fs) \<Rightarrow> nat \<Rightarrow> file_tree_entry \<Rightarrow> bytes \<Rightarrow> string \<Rightarrow> fs \<Rightarrow>
   (io_error + unit) \<times> fs" where
  "materialize_with_conflict C env make_symlink ts en bs requester F =
     (let target = join (share_dir env) (fte_path en);
          F1 = (if fs_exists F target then
                  (case fs_read F target of
                     Inl _ \<Rightarrow> F
                   | Inr local \<Rightarrow>
                       if object_id C local \<noteq> fte_blob_id en
                       then copy_file target (join (parent target) (conflict_name requester (fte_path en) ts)) F
                       else F)
                else F)
      in materialize env make_symlink en bs F1)"

section \<open>Transfers\<close>

definition domain_of :: "string \<Rightarrow> string" where
  "domain_of requester = hd (split_char CHR ''/'' requester)"

definition client_keys :: "crates \<Rightarrow> env \<Rightarrow> string \<Rightarrow> e2e_keys option" where
  "client_keys C env domain = e2e_from_env C env (if domain = [] then None else Some domain)"

definition div_ceil :: "nat \<Rightarrow> nat \<Rightarrow> nat" where
  "div_ceil a b = (a + (b - 1)) div b"

text \<open>The chunk frame for the piece \<open>idx\<close> of a file.\<close>

definition chunk_frame :: "crates \<Rightarrow> env \<Rightarrow> string \<Rightarrow> bytes \<Rightarrow> u64 \<Rightarrow> nsmt_error + frame" where
  "chunk_frame C env requester bs idx =
     (let start = unat (idx * of_nat CHUNK_SIZE);
          stop = min (start + CHUNK_SIZE) (length bs);
          piece = take (stop - start) (drop start bs);
          e2e = client_keys C env (domain_of requester)
      in and_then (case e2e of Some k \<Rightarrow> encrypt C k piece idx | None \<Rightarrow> Inr piece) (\<lambda>enc.
           let f = frame_new FileChunk 0 (u32_to_le_bytes (ucast idx) @ enc)
           in Inr (if e2e \<noteq> None then f\<lparr>flags := 0x01\<rparr> else f)))"

fun send_chunks ::
  "'p transport \<Rightarrow> crates \<Rightarrow> env \<Rightarrow> string \<Rightarrow> bytes \<Rightarrow> u64 list \<Rightarrow> u64 list \<Rightarrow> ('p, unit) conv" where
  "send_chunks T C env requester bs have_idx [] = c_ret ()"
| "send_chunks T C env requester bs have_idx (idx # rest) =
     (if idx \<in> set have_idx then send_chunks T C env requester bs have_idx rest
      else c_bind (c_lift (map_sum CNsmt id (chunk_frame C env requester bs idx))) (\<lambda>f.
           c_bind (c_send T f) (\<lambda>_. send_chunks T C env requester bs have_idx rest)))"

definition lock_reply :: "frame \<Rightarrow> client_error + bool option" where
  "lock_reply f =
     (if frame_type f = LockDenied then Inr (Some False)
      else if frame_type f = LockGranted then Inr (Some True) else Inr None)"

definition read_object :: "env \<Rightarrow> file_tree_entry \<Rightarrow> fs \<Rightarrow> io_error + bytes" where
  "read_object env en F =
     (let obj_path = join (objects_dir env) (fte_blob_id en) in
      if fs_exists F obj_path then fs_read F obj_path
      else fs_read F (join (share_dir env) (fte_path en)))"

definition push_entry ::
  "'p transport \<Rightarrow> serde \<Rightarrow> crates \<Rightarrow> env \<Rightarrow> fs \<Rightarrow> file_tree_entry \<Rightarrow> string \<Rightarrow> ('p, unit) conv" where
  "push_entry T S C env F en requester =
     c_bind (c_send_json T S LockAcquire
       (MLockAcquire \<lparr>la_path = fte_path en, la_requester = requester, la_ttl_ms = 30000\<rparr>)) (\<lambda>_.
     c_bind (recv_loop T lock_reply) (\<lambda>granted.
     if \<not> granted then c_ret ()
     else
     c_bind (c_io (read_object env en F)) (\<lambda>bs.
     let total_chunks = of_nat (div_ceil (length bs) CHUNK_SIZE) :: u64 in
     c_bind (c_send_json T S FilePut (MFilePut \<lparr>fp_blob_id = fte_blob_id en,
       fp_total_chunks = total_chunks, fp_size = of_nat (length bs)\<rparr>)) (\<lambda>_.
     c_bind (recv_loop T (want_types [FilePutAck, Error])) (\<lambda>ack_frame.
     if frame_type ack_frame = Error then c_bind (c_json (de_error_msg S) ack_frame) (\<lambda>_. c_ret ())
     else
     c_bind (c_json (de_file_put_ack S) ack_frame) (\<lambda>ack.
     c_bind (send_chunks T C env requester bs (fpa_have ack) (map of_nat [0..<unat total_chunks])) (\<lambda>_.
     c_bind (read_until T FilePutAck) (\<lambda>f.
     c_bind (c_json (de_file_put_ack S) f) (\<lambda>finished.
     c_send_json T S LockRelease
       (MLockRelease \<lparr>lrel_path = fte_path en, lrel_requester = requester\<rparr>))))))))))"

definition request_diff :: "'p transport \<Rightarrow> serde \<Rightarrow> string \<Rightarrow> ('p, file_diff_result) conv" where
  "request_diff T S old_tree =
     c_bind (c_send_json T S FileDiff (MFileDiff \<lparr>fd_old_tree = old_tree, fd_new_tree = None\<rparr>)) (\<lambda>_.
     c_bind (recv_loop T (want_types [FileDiffResult])) (c_json (de_file_diff_result S)))"

text \<open>\<open>pull_entry\<close> ignores its arguments.\<close>

definition pull_entry :: "'p transport \<Rightarrow> string \<Rightarrow> ('p, unit) conv" where
  "pull_entry T path = c_ret ()"

definition push_tree :: "'p transport \<Rightarrow> serde \<Rightarrow> file_tree \<Rightarrow> ('p, unit) conv" where
  "push_tree T S tree = c_send_json T S FileTree (MFileTree tree)"

text \<open>What one answer to a \<open>FILE_GET\<close> for the chunk \<open>idx\<close> means.\<close>

datatype chunk_answer = Missing | Whole | Again | Piece bytes

definition chunk_answer_of ::
  "crates \<Rightarrow> env \<Rightarrow> string \<Rightarrow> u64 \<Rightarrow> frame \<Rightarrow> client_error + chunk_answer" where
  "chunk_answer_of C env domain idx f =
     (if frame_type f = Error then Inr Missing
      else if length (payload f) < 4 then Inr Whole
      else if chunk_index (payload f) \<noteq> idx then Inr Again
      else (case client_keys C env domain of
              Some k \<Rightarrow> (case decrypt C k (drop 4 (payload f)) idx of
                 Inl e \<Rightarrow> Inl (CNsmt e) | Inr d \<Rightarrow> Inr (Piece d))
            | None \<Rightarrow> Inr (Piece (drop 4 (payload f)))))"

partial_function (option) get_loop ::
  "'p transport \<Rightarrow> serde \<Rightarrow> crates \<Rightarrow> env \<Rightarrow> string \<Rightarrow> string \<Rightarrow> bytes \<Rightarrow> u64 \<Rightarrow> ('p, bytes option) conv" where
  "get_loop T S C env blob_id domain out idx p =
     (case c_send_json T S FileGet (MFileGet \<lparr>fg_blob_id = blob_id, fg_chunk_index = Some idx\<rparr>) p of
        None \<Rightarrow> None
      | Some (Inl e, p1) \<Rightarrow> Some (Inl e, p1)
      | Some (Inr _, p1) \<Rightarrow>
         (case recv_loop T (want_types [FileChunk, Error]) p1 of
            None \<Rightarrow> None
          | Some (Inl e, p2) \<Rightarrow> Some (Inl e, p2)
          | Some (Inr resp, p2) \<Rightarrow>
             (case chunk_answer_of C env domain idx resp of
                Inl e \<Rightarrow> Some (Inl e, p2)
              | Inr Missing \<Rightarrow> Some (Inr None, p2)
              | Inr Whole \<Rightarrow> Some (Inr (Some out), p2)
              | Inr Again \<Rightarrow> get_loop T S C env blob_id domain out idx p2
              | Inr (Piece d) \<Rightarrow>
                  if length d < CHUNK_SIZE then Some (Inr (Some (out @ d)), p2)
                  else get_loop T S C env blob_id domain (out @ d) (idx + 1) p2)))"

definition client_get_object ::
  "'p transport \<Rightarrow> serde \<Rightarrow> crates \<Rightarrow> env \<Rightarrow> string \<Rightarrow> string \<Rightarrow> ('p, bytes option) conv" where
  "client_get_object T S C env blob_id domain = get_loop T S C env blob_id domain [] 0"

section \<open>Downloads\<close>

lemma object_chunk_at:
  assumes "i < 2 ^ 32"
  shows "object_chunk data (of_nat i) = chunk_at data i"
  unfolding object_chunk_def Let_def unat_offset [OF assms] by (auto simp: chunk_at_def min_def)

text \<open>
  What the transfers use of the AEAD beyond \<open>aead_law\<close>: with a 32-byte key, sealing a chunk
  succeeds and adds at most a few bytes.
\<close>

definition seal_law :: "crates \<Rightarrow> bool" where
  "seal_law C \<longleftrightarrow> (\<forall>k n m. length k = 32 \<and> length n = 12 \<and> length m \<le> CHUNK_SIZE \<longrightarrow>
     (\<exists>c. seal C k n m = Some c \<and> length c \<le> length m + 64))"

text \<open>Both ends of a connection hold the same keys for the tenant.\<close>

definition same_keys :: "('x, 'd) config \<Rightarrow> env \<Rightarrow> string \<Rightarrow> bool" where
  "same_keys cf env ud \<longleftrightarrow> ud \<noteq> [] \<and>
     e2e_from_env (cf_crates cf) env (Some ud) = e2e_from_env (cf_crates cf) (cf_env cf) (Some ud)"

lemma encrypt_chunk:
  assumes "seal_law C" and "aead_law C" and "e2e_from_env C env (Some ud) = Some ks" and "length m \<le> CHUNK_SIZE"
  shows "\<exists>c. encrypt C ks m i = Inr c \<and> length c \<le> length m + 64 \<and> decrypt C ks c i = Inr m"
proof -
  have "length (newest ks) = 32" using e2e_from_env_keys [OF assms(3)] by (metis list.set_sel(1))
  then obtain c where c: "seal C (newest ks) (nonce_for i) m = Some c" "length c \<le> length m + 64"
    using assms(1,4) length_nonce_for [of i] unfolding seal_law_def by blast
  then have "encrypt C ks m i = Inr c" by (simp add: encrypt_def)
  with c(2) from_env_decrypt_encrypt [OF assms(2,3)] show ?thesis by blast
qed

lemma length_chunk_at_le: "length (chunk_at data i) \<le> CHUNK_SIZE"
  by (simp add: chunk_at_def)

lemma ucast_index:
  assumes "i < 2 ^ 32"
  shows "(ucast (of_nat i :: u64) :: u32) = of_nat i"
proof -
  have "unat (ucast (of_nat i :: u64) :: u32) = unat (of_nat i :: u32)"
    using assms by (simp add: unsigned_ucast_eq unat_of_nat take_bit_eq_mod)
  then show ?thesis by (rule unsigned_word_eqI)
qed

lemma serve_chunk:
  assumes "se_phase s = Ready" and "se_open s" and "frame_type f = FileGet"
    and "de_file_get (cf_serde cf) (payload f) = Some \<lparr>fg_blob_id = blob, fg_chunk_index = Some (of_nat i)\<rparr>"
    and "get_object (cf_backend cf) (se_fs s) blob (wd_storage w) = Some data" and "i < 2 ^ 32"
    and "seal_law (cf_crates cf)" and "aead_law (cf_crates cf)" and "same_keys cf env (se_domain s)"
  shows "\<exists>c. session_step cf clk mid (Recv f) (s, w) = (s\<lparr>se_out := se_out s @ [c]\<rparr>, w) \<and> frame_type c = FileChunk \<and>
    chunk_answer_of (cf_crates cf) env (se_domain s) (of_nat i) c = Inr (Piece (chunk_at data i))"
proof -
  let ?C = "cf_crates cf" and ?d = "chunk_at data i" and ?ks = "e2e_from_env (cf_crates cf) (cf_env cf) (Some (se_domain s))"
  have keys: "client_keys ?C env (se_domain s) = ?ks" using assms(9) by (simp add: client_keys_def same_keys_def)
  obtain enc where enc: "(case ?ks of Some ks \<Rightarrow> encrypt ?C ks ?d (of_nat i) | None \<Rightarrow> Inr ?d) = Inr enc"
    "length enc \<le> length ?d + 64" "\<forall>ks. ?ks = Some ks \<longrightarrow> decrypt ?C ks enc (of_nat i) = Inr ?d" "?ks = None \<longrightarrow> enc = ?d"
  proof (cases ?ks)
    case (Some ks)
    from encrypt_chunk [OF assms(7,8) Some length_chunk_at_le [of data i], of "of_nat i"] Some that show thesis by auto
  qed (use that in auto)
  define c where "c = (let c0 = frame_new FileChunk 0 (chunk_payload i enc) in if ?ks \<noteq> None then c0\<lparr>flags := 0x01\<rparr> else c0)"
  have c: "frame_type c = FileChunk" "payload c = chunk_payload i enc"
    by (simp_all add: c_def frame_new_def Let_def)
  have "length (payload c) \<le> 4 + CHUNK_SIZE + 64"
    using enc(2) length_chunk_at_le [of data i] by (simp add: c(2) chunk_payload_def)
  then have e: "\<exists>v. encode c = Inr v" by (simp add: encode_def CHUNK_SIZE_def)
  have pj: "payload_json (de_file_get (cf_serde cf)) f = Inr \<lparr>fg_blob_id = blob, fg_chunk_index = Some (of_nat i)\<rparr>"
    using assms(4) by simp
  note uc = ucast_index [OF assms(6)]
  have "on_file_get cf f s w = (s\<lparr>se_out := se_out s @ [c]\<rparr>, w)"
    unfolding on_file_get_def pj sum.case file_get.simps assms(5) option.case Let_def object_chunk_at [OF assms(6)] enc(1)
    using e assms(2) by (auto simp: sess_send_def c_def Let_def chunk_payload_def uc)
  then have "session_step cf clk mid (Recv f) (s, w) = (s\<lparr>se_out := se_out s @ [c]\<rparr>, w)"
    using assms(1,3) by (simp add: session_step_def ready_step_def on_frame_def)
  moreover have "chunk_answer_of ?C env (se_domain s) (of_nat i) c = Inr (Piece ?d)"
    using chunk_index_payload [OF assms(6), of enc] enc(3,4) c
    by (cases ?ks) (simp_all add: chunk_answer_of_def keys)
  ultimately show ?thesis using c(1) by blast
qed

lemma chunk_at_append: "take (i * CHUNK_SIZE) data @ chunk_at data i = take (Suc i * CHUNK_SIZE) data"
proof -
  have "Suc i * CHUNK_SIZE = i * CHUNK_SIZE + CHUNK_SIZE" by simp
  then show ?thesis unfolding chunk_at_def by (simp only: take_add)
qed

text \<open>A request that the server understands as it was meant.\<close>

definition get_understood :: "serde \<Rightarrow> string \<Rightarrow> u64 \<Rightarrow> bool" where
  "get_understood S blob i \<longleftrightarrow>
     (let m = MFileGet \<lparr>fg_blob_id = blob, fg_chunk_index = Some i\<rparr> in sendable S FileGet m \<and> serde_roundtrip S m)"

lemma get_understoodD:
  assumes "get_understood S blob i"
  shows "sendable S FileGet (MFileGet \<lparr>fg_blob_id = blob, fg_chunk_index = Some i\<rparr>)"
    "de_file_get S (payload (sent S FileGet (MFileGet \<lparr>fg_blob_id = blob, fg_chunk_index = Some i\<rparr>))) =
       Some \<lparr>fg_blob_id = blob, fg_chunk_index = Some i\<rparr>"
  using assms by (auto simp: get_understood_def Let_def serde_roundtrip_def sent_frame(2))

lemma get_loop_server:
  assumes "se_phase s = Ready" and "se_open s"
    and "get_object (cf_backend cf) (se_fs s) blob (wd_storage w) = Some data"
    and "\<forall>i. get_understood (cf_serde cf) blob i"
    and "seal_law (cf_crates cf)" and "aead_law (cf_crates cf)" and "same_keys cf env (se_domain s)"
    and "i * CHUNK_SIZE \<le> length data" and "length data < (2 ^ 32 - 1) * CHUNK_SIZE"
  shows "\<exists>out. get_loop (server_link cf clk mid) (cf_serde cf) (cf_crates cf) env blob (se_domain s)
      (take (i * CHUNK_SIZE) data) (of_nat i) (s, w, length (se_out s)) = Some (Inr (Some data), (s\<lparr>se_out := out\<rparr>, w, length out))"
  using assms
proof (induction "length data - i * CHUNK_SIZE" arbitrary: i s rule: less_induct)
  case less
  let ?T = "server_link cf clk mid" and ?S = "cf_serde cf" and ?C = "cf_crates cf"
  let ?g = "\<lparr>fg_blob_id = blob, fg_chunk_index = Some (of_nat i)\<rparr>"
  have "i < 2 ^ 32 - 1" using le_less_trans [OF less.prems(8,9)] by (simp only: mult_less_cancel2)
  then have i32: "i < 2 ^ 32" by simp
  have u: "sendable ?S FileGet (MFileGet ?g)" "de_file_get ?S (payload (sent ?S FileGet (MFileGet ?g))) = Some ?g"
    using get_understoodD less.prems(4) by blast+
  from serve_chunk [OF less.prems(1,2) sent_frame(1) [OF u(1)] u(2) less.prems(3) i32 less.prems(5-7), of clk mid]
  obtain c where c: "session_step cf clk mid (Recv (sent ?S FileGet (MFileGet ?g))) (s, w) = (s\<lparr>se_out := se_out s @ [c]\<rparr>, w)"
    "frame_type c = FileChunk" "chunk_answer_of ?C env (se_domain s) (of_nat i) c = Inr (Piece (chunk_at data i))" by blast
  let ?s = "s\<lparr>se_out := se_out s @ [c]\<rparr>"
  have snd: "c_send_json ?T ?S FileGet (MFileGet ?g) (s, w, length (se_out s)) = Some (Inr (), (?s, w, length (se_out s)))"
    by (rule c_send_json_ok [OF u(1) tx_server [OF c(1)]])
  have rcv: "recv_loop ?T (want_types [FileChunk, Error]) (?s, w, length (se_out s)) = Some (Inr c, (?s, w, length (se_out ?s)))"
    using c(2) by (intro recv_loop_hit [where f = c]) simp_all
  have out: "take (i * CHUNK_SIZE) data @ chunk_at data i = take (Suc i * CHUNK_SIZE) data" by (rule chunk_at_append)
  have step: "get_loop ?T ?S ?C env blob (se_domain s) (take (i * CHUNK_SIZE) data) (of_nat i) (s, w, length (se_out s)) =
      (if length (chunk_at data i) < CHUNK_SIZE then Some (Inr (Some (take (Suc i * CHUNK_SIZE) data)), (?s, w, length (se_out ?s)))
       else get_loop ?T ?S ?C env blob (se_domain s) (take (Suc i * CHUNK_SIZE) data) (of_nat i + 1) (?s, w, length (se_out ?s)))"
    by (subst get_loop.simps) (simp only: snd rcv c(3) option.case sum.case prod.case chunk_answer.case out)
  show ?case
  proof (cases "length (chunk_at data i) < CHUNK_SIZE")
    case True
    then have "take (Suc i * CHUNK_SIZE) data = data" by (simp add: chunk_at_def)
    with True step show ?thesis by (intro exI [of _ "se_out ?s"]) simp
  next
    case False
    then have le: "Suc i * CHUNK_SIZE \<le> length data" using less.prems(8) by (simp add: chunk_at_def)
    have "length data - Suc i * CHUNK_SIZE < length data - i * CHUNK_SIZE"
      using le CHUNK_SIZE_pos by (simp del: CHUNK_SIZE_pos)
    from less.hyps [OF this _ _ _ less.prems(4-6) _ le less.prems(9), of ?s] less.prems(1-3,7)
    obtain out where "get_loop ?T ?S ?C env blob (se_domain s) (take (Suc i * CHUNK_SIZE) data) (of_nat (Suc i))
        (?s, w, length (se_out ?s)) = Some (Inr (Some data), (s\<lparr>se_out := out\<rparr>, w, length out))" by auto
    then show ?thesis using False step by (auto simp: add.commute)
  qed
qed

section \<open>Uploads\<close>

lemma div_ceil_pieces:
  assumes "bs \<noteq> []" and "length bs < (2 ^ 32 - 1) * CHUNK_SIZE"
  shows "piece_count bs (div_ceil (length bs) CHUNK_SIZE)"
proof -
  let ?L = "length bs" and ?c = CHUNK_SIZE and ?n = "(length bs + (CHUNK_SIZE - 1)) div CHUNK_SIZE"
  have L: "0 < ?L" using assms(1) by simp
  have up: "?n * ?c \<le> ?L + (?c - 1)" by simp
  have "?L + (?c - 1) < ?n * ?c + ?c"
    by (metis CHUNK_SIZE_pos add.commute dividend_less_div_times)
  then have lo: "?L \<le> ?n * ?c" by linarith
  then have n0: "0 < ?n" using L by (cases ?n) simp_all
  have "(?n - 1) * ?c = ?n * ?c - ?c" by (simp add: diff_mult_distrib)
  then have "(?n - 1) * ?c < ?L" using up n0 L CHUNK_SIZE_pos by linarith
  moreover have "?n < 2 ^ 32"
  proof -
    have "?n * ?c < (2 ^ 32) * ?c" using up assms(2) by (simp add: CHUNK_SIZE_def)
    then show ?thesis by (simp only: mult_less_cancel2)
  qed
  ultimately show ?thesis using lo n0 by (simp add: piece_count_def div_ceil_def)
qed

lemma chunk_frame_carries:
  assumes "i < 2 ^ 32" and "seal_law (cf_crates cf)" and "aead_law (cf_crates cf)"
    and "same_keys cf env (domain_of requester)"
  shows "\<exists>f v. chunk_frame (cf_crates cf) env requester bs (of_nat i) = Inr f \<and> encode f = Inr v \<and>
    carries cf (domain_of requester) bs i f"
proof -
  let ?C = "cf_crates cf" and ?d = "chunk_at bs i" and ?ud = "domain_of requester"
  let ?ks = "e2e_from_env ?C (cf_env cf) (Some ?ud)"
  have keys: "client_keys ?C env ?ud = ?ks" using assms(4) by (simp add: client_keys_def same_keys_def)
  have piece: "take (min (i * CHUNK_SIZE + CHUNK_SIZE) (length bs) - i * CHUNK_SIZE) (drop (i * CHUNK_SIZE) bs) = ?d"
    by (auto simp: chunk_at_def min_def)
  obtain enc where enc: "(case ?ks of Some ks \<Rightarrow> encrypt ?C ks ?d (of_nat i) | None \<Rightarrow> Inr ?d) = Inr enc"
    "length enc \<le> length ?d + 64" "opens_to cf ?ud i enc ?d"
  proof (cases ?ks)
    case (Some ks)
    from encrypt_chunk [OF assms(2,3) Some length_chunk_at_le [of bs i], of "of_nat i"] Some that show thesis
      by (auto simp: opens_to_def)
  qed (use that in \<open>auto simp: opens_to_def\<close>)
  define f where "f = (let f = frame_new FileChunk 0 (chunk_payload i enc) in if ?ks \<noteq> None then f\<lparr>flags := 0x01\<rparr> else f)"
  have f: "frame_type f = FileChunk" "payload f = chunk_payload i enc" by (simp_all add: f_def frame_new_def Let_def)
  have "length (payload f) \<le> 4 + CHUNK_SIZE + 64"
    using enc(2) length_chunk_at_le [of bs i] by (simp add: f(2) chunk_payload_def)
  then have e: "\<exists>v. encode f = Inr v" by (simp add: encode_def CHUNK_SIZE_def)
  note uc = ucast_index [OF assms(1)]
  have "chunk_frame ?C env requester bs (of_nat i) = Inr f"
    unfolding chunk_frame_def Let_def keys unat_offset [OF assms(1)] piece enc(1)
    by (simp add: f_def Let_def uc chunk_payload_def)
  moreover have "carries cf ?ud bs i f" unfolding carries_def using f enc(3) by blast
  ultimately show ?thesis using e by blast
qed

lemma send_chunks_server:
  assumes "list_all2 (\<lambda>i f. chunk_frame C env requester bs i = Inr f \<and> (\<exists>v. encode f = Inr v)) idxs fs"
    and "session_run cf mid (map (\<lambda>f. (clk, Recv f)) fs) (s, w) = (s', w')"
  shows "send_chunks (server_link cf clk mid) C env requester bs [] idxs (s, w, k) = Some (Inr (), (s', w', k))"
  using assms
proof (induction idxs fs arbitrary: s w rule: list_all2_induct)
  case Nil
  then show ?case by (simp add: c_ret_def)
next
  case (Cons i idxs f fs)
  obtain s1 w1 where st: "session_step cf clk mid (Recv f) (s, w) = (s1, w1)"
    by (cases "session_step cf clk mid (Recv f) (s, w)")
  obtain v where v: "encode f = Inr v" using Cons.hyps(1) by blast
  have "send_chunks (server_link cf clk mid) C env requester bs [] idxs (s1, w1, k) = Some (Inr (), (s', w', k))"
    using Cons.IH [of s1 w1] Cons.prems st by simp
  then show ?case
    using Cons.hyps(1) c_send_ok [OF v tx_server [OF st, of k]] by (simp add: c_lift_def)
qed

lemma try_reserve_other:
  "fst (try_reserve_quota env Q ud sz (st\<lparr>st_locks := g, st_registry := R\<rparr>)) = fst (try_reserve_quota env Q ud sz st)"
  by (simp add: try_reserve_quota_def quota_for_def usage_of_def Let_def)

lemma try_reserve_keeps:
  "try_reserve_quota env Q ud sz st = (b, st') \<Longrightarrow> st_locks st' = st_locks st"
  by (auto simp: try_reserve_quota_def Let_def split: if_splits)

text \<open>The lock is free for the requester at the time \<open>now\<close>.\<close>

definition lock_free :: "string \<Rightarrow> string \<Rightarrow> u64 \<Rightarrow> locks \<Rightarrow> bool" where
  "lock_free path requester now g \<longleftrightarrow>
     (\<forall>e. hm_get g path = Some e \<longrightarrow> le_expires_at e \<le> now \<or> le_holder e = requester)"

lemma lock_step:
  assumes "se_phase s = Ready" and "se_open s" and "frame_type f = LockAcquire"
    and "de_lock_acquire (cf_serde cf) (payload f) = Some \<lparr>la_path = path, la_requester = requester, la_ttl_ms = ttl\<rparr>"
    and "lock_free path requester (clk 0) (st_locks (wd_state w))"
    and "sendable (cf_serde cf) LockGranted (MLockGranted \<lparr>lg_path = path, lg_expires_at = clk 0 + ttl\<rparr>)"
    and "sendable (cf_serde cf) LockNotify (MLockNotify \<lparr>ln_path = path, ln_event = ''locked'', ln_holder = Some requester\<rparr>)"
  shows "\<exists>R. session_step cf clk mid (Recv f) (s, w) =
    (s\<lparr>se_out := se_out s @ [sent (cf_serde cf) LockGranted (MLockGranted \<lparr>lg_path = path, lg_expires_at = clk 0 + ttl\<rparr>)]\<rparr>,
     w\<lparr>wd_state := (wd_state w)\<lparr>st_locks := hm_insert path \<lparr>le_holder = requester, le_expires_at = clk 0 + ttl\<rparr>
       (st_locks (wd_state w)), st_registry := R\<rparr>\<rparr>)"
proof -
  let ?S = "cf_serde cf" and ?l = "\<lparr>la_path = path, la_requester = requester, la_ttl_ms = ttl\<rparr>"
  have pj: "payload_json (de_lock_acquire ?S) f = Inr ?l" using assms(4) by simp
  have acq: "acquire path requester ttl (clk 0) (st_locks (wd_state w)) = (Inr (clk 0 + ttl),
      hm_insert path \<lparr>le_holder = requester, le_expires_at = clk 0 + ttl\<rparr> (st_locks (wd_state w)))"
    using assms(5) by (auto simp: acquire_def lock_free_def Let_def split: option.split)
  obtain n where n: "from_json ?S LockNotify 0 (MLockNotify \<lparr>ln_path = path, ln_event = ''locked'', ln_holder = Some requester\<rparr>) = Inr n"
    using assms(7) by (auto simp: sendable_def split: sum.splits)
  show ?thesis
    using assms(1,3) sess_send_json_sendable [OF assms(6,2)]
    by (intro exI [of _ "broadcast_except (se_domain s) n (se_chan s) (st_registry (wd_state w))"])
      (simp add: session_step_def ready_step_def on_frame_def on_lock_acquire_def pj acq notify_lock_def n Let_def
        del: from_json_payload payload_json_Inr)
qed

lemma unlock_step:
  assumes "se_phase s = Ready" and "frame_type f = LockRelease"
    and "de_lock_release (cf_serde cf) (payload f) = Some \<lparr>lrel_path = path, lrel_requester = requester\<rparr>"
    and "hm_get (st_locks (wd_state w)) path = Some e" and "le_holder e = requester"
    and "sendable (cf_serde cf) LockNotify (MLockNotify \<lparr>ln_path = path, ln_event = ''unlocked'', ln_holder = None\<rparr>)"
  shows "\<exists>R. session_step cf clk mid (Recv f) (s, w) =
    (s, w\<lparr>wd_state := (wd_state w)\<lparr>st_locks := hm_remove path (st_locks (wd_state w)), st_registry := R\<rparr>\<rparr>)"
proof -
  let ?S = "cf_serde cf" and ?l = "\<lparr>lrel_path = path, lrel_requester = requester\<rparr>"
  have pj: "payload_json (de_lock_release ?S) f = Inr ?l" using assms(3) by simp
  obtain n where n: "from_json ?S LockNotify 0 (MLockNotify \<lparr>ln_path = path, ln_event = ''unlocked'', ln_holder = None\<rparr>) = Inr n"
    using assms(6) by (auto simp: sendable_def split: sum.splits)
  show ?thesis
    using assms(1,2,4,5)
    by (intro exI [of _ "broadcast_except (se_domain s) n (se_chan s) (st_registry (wd_state w))"])
      (simp add: session_step_def ready_step_def on_frame_def on_lock_release_def pj release_def notify_lock_def n
        del: from_json_payload payload_json_Inr)
qed

text \<open>A message that arrives as it was meant.\<close>

definition understood :: "serde \<Rightarrow> frame_type \<times> msg \<Rightarrow> bool" where
  "understood S tm \<longleftrightarrow> sendable S (fst tm) (snd tm) \<and> serde_roundtrip S (snd tm)"

lemma understood_simp: "understood S (t, m) \<longleftrightarrow> sendable S t m \<and> serde_roundtrip S m"
  by (simp add: understood_def)

lemma understoodD:
  assumes "understood S (t, m)"
  shows "sendable S t m" "\<exists>b. to_vec S m = Some b \<and> b = payload (sent S t m)" "serde_roundtrip S m"
  using assms sent_frame(2) [of S t m] by (auto simp: understood_def)

text \<open>The messages of one upload.\<close>

definition put_ack0 :: "string \<Rightarrow> msg" where
  "put_ack0 blob = MFilePutAck \<lparr>fpa_blob_id = blob, fpa_have = [], fpa_completed = False\<rparr>"

definition push_msgs :: "string \<Rightarrow> string \<Rightarrow> string \<Rightarrow> nat \<Rightarrow> nat \<Rightarrow> u64 \<Rightarrow> (frame_type \<times> msg) list" where
  "push_msgs path requester blob n len now =
     [(LockAcquire, MLockAcquire \<lparr>la_path = path, la_requester = requester, la_ttl_ms = 30000\<rparr>),
      (LockGranted, MLockGranted \<lparr>lg_path = path, lg_expires_at = now + 30000\<rparr>),
      (LockNotify, MLockNotify \<lparr>ln_path = path, ln_event = ''locked'', ln_holder = Some requester\<rparr>),
      (FilePut, MFilePut \<lparr>fp_blob_id = blob, fp_total_chunks = of_nat n, fp_size = of_nat len\<rparr>),
      (FilePutAck, put_ack0 blob), (FilePutAck, put_ack blob n),
      (LockRelease, MLockRelease \<lparr>lrel_path = path, lrel_requester = requester\<rparr>),
      (LockNotify, MLockNotify \<lparr>ln_path = path, ln_event = ''unlocked'', ln_holder = None\<rparr>)]"

lemma push_msgsD:
  assumes "\<forall>tm \<in> set (push_msgs path requester blob n len now). understood S tm"
  shows "understood S (LockAcquire, MLockAcquire \<lparr>la_path = path, la_requester = requester, la_ttl_ms = 30000\<rparr>)"
    "understood S (LockGranted, MLockGranted \<lparr>lg_path = path, lg_expires_at = now + 30000\<rparr>)"
    "understood S (LockNotify, MLockNotify \<lparr>ln_path = path, ln_event = ''locked'', ln_holder = Some requester\<rparr>)"
    "understood S (FilePut, MFilePut \<lparr>fp_blob_id = blob, fp_total_chunks = of_nat n, fp_size = of_nat len\<rparr>)"
    "understood S (FilePutAck, put_ack0 blob)" "understood S (FilePutAck, put_ack blob n)"
    "understood S (LockRelease, MLockRelease \<lparr>lrel_path = path, lrel_requester = requester\<rparr>)"
    "understood S (LockNotify, MLockNotify \<lparr>ln_path = path, ln_event = ''unlocked'', ln_holder = None\<rparr>)"
  using assms by (simp_all add: push_msgs_def)

lemma sent_decodes:
  "understood S (t, MLockAcquire a) \<Longrightarrow> de_lock_acquire S (payload (sent S t (MLockAcquire a))) = Some a"
  "understood S (t, MLockRelease b) \<Longrightarrow> de_lock_release S (payload (sent S t (MLockRelease b))) = Some b"
  "understood S (t, MFilePut c) \<Longrightarrow> de_file_put S (payload (sent S t (MFilePut c))) = Some c"
  "understood S (t, MFilePutAck d) \<Longrightarrow> de_file_put_ack S (payload (sent S t (MFilePutAck d))) = Some d"
  by (simp_all add: understood_def serde_roundtrip_def) (metis sent_frame(2) option.inject)+

lemma sent_json:
  assumes "understood S (t, m)"
  shows "from_json S t 0 m = Inr (sent S t m)" "\<exists>v. encode (sent S t m) = Inr v" "frame_type (sent S t m) = t"
proof -
  have s: "sendable S t m" using assms by (rule understoodD(1))
  then show "from_json S t 0 m = Inr (sent S t m)"
    by (cases "from_json S t 0 m") (simp_all add: sendable_def sent_def del: from_json_payload)
  show "\<exists>v. encode (sent S t m) = Inr v" "frame_type (sent S t m) = t" using sent_frame(1,3) [OF s] by blast+
qed

text \<open>The chunk frames of all pieces, as the client makes them and as the server reads them.\<close>

lemma chunk_frames_carry:
  assumes "n < 2 ^ 32" and laws: "seal_law (cf_crates cf)" "aead_law (cf_crates cf)" "same_keys cf env (domain_of requester)"
  shows "\<exists>frs. list_all2 (\<lambda>i f. chunk_frame (cf_crates cf) env requester bs i = Inr f \<and> (\<exists>v. encode f = Inr v)) (map of_nat [0..<n]) frs \<and>
    list_all2 (carries cf (domain_of requester) bs) [0..<n] frs"
proof -
  have "\<exists>f. (chunk_frame (cf_crates cf) env requester bs (of_nat i) = Inr f \<and> (\<exists>v. encode f = Inr v)) \<and>
      carries cf (domain_of requester) bs i f" if "i < n" for i
  proof -
    have "i < 2 ^ 32" using that assms(1) by simp
    from chunk_frame_carries [OF this laws, of bs] show ?thesis by auto
  qed
  then obtain fr where "\<And>i. i < n \<Longrightarrow> (chunk_frame (cf_crates cf) env requester bs (of_nat i) = Inr (fr i) \<and>
      (\<exists>v. encode (fr i) = Inr v)) \<and> carries cf (domain_of requester) bs i (fr i)" by metis
  then show ?thesis by (intro exI [of _ "map fr [0..<n]"]) (simp add: list_all2_conv_all_nth)
qed

text \<open>The part of \<open>push_entry\<close> between the grant of the lock and its release.\<close>

lemma put_conversation:
  fixes w :: "('x, 'd) world" and clk :: clock and mid :: string
  assumes ready: "se_phase s = Ready" "se_open s" and ud: "se_domain s = domain_of requester"
    and msgs: "\<forall>tm \<in> set (push_msgs path requester blob n (length bs) now). understood (cf_serde cf) tm"
    and laws: "seal_law (cf_crates cf)" "aead_law (cf_crates cf)" "same_keys cf env (domain_of requester)"
    and pc: "piece_count bs n"
    and quota: "fst (try_reserve_quota (cf_env cf) (cf_sql cf) (se_domain s) (of_nat (length bs)) (wd_state w))"
    and store: "sf_objects (se_fs s) = LocalObjectStore objr" "simple_name blob" "simple_name (blob @ ''.part'')"
      "apart objr (join (sf_root (se_fs s)) ''tmp'') dobj dt (disk (wd_storage w))"
      "local_get objr blob (disk (wd_storage w)) \<in> {None, Some bs}"
  defines "T \<equiv> server_link cf clk mid" and "S \<equiv> cf_serde cf"
  shows "\<exists>s1 w1 s' w'.
    c_send_json T S FilePut (MFilePut \<lparr>fp_blob_id = blob, fp_total_chunks = of_nat n, fp_size = of_nat (length bs)\<rparr>)
      (s, w, length (se_out s)) = Some (Inr (), (s1, w1, length (se_out s))) \<and>
    se_out s1 = se_out s @ [sent S FilePutAck (put_ack0 blob)] \<and>
    send_chunks T (cf_crates cf) env requester bs [] (map of_nat [0..<n]) (s1, w1, Suc (length (se_out s)))
      = Some (Inr (), (s', w', Suc (length (se_out s)))) \<and>
    (\<exists>p. s' = s\<lparr>se_pending := p, se_out := se_out s1 @ [sent S FilePutAck (put_ack blob n)]\<rparr>) \<and>
    get_object (cf_backend cf) (se_fs s) blob (wd_storage w') = Some bs \<and>
    (\<forall>k. simple_name k \<longrightarrow> k \<noteq> blob \<longrightarrow>
       get_object (cf_backend cf) (se_fs s) k (wd_storage w') = get_object (cf_backend cf) (se_fs s) k (wd_storage w)) \<and>
    object_owner (se_domain s) blob (wd_state w') = Some (se_machine s) \<and>
    st_locks (wd_state w') = st_locks (wd_state w)"
proof -
  note u = push_msgsD [OF msgs]
  let ?put = "\<lparr>fp_blob_id = blob, fp_total_chunks = of_nat n, fp_size = of_nat (length bs)\<rparr>"
  let ?f = "sent S FilePut (MFilePut ?put)"
  have n32: "n < 2 ^ 32" using pc by (simp add: piece_count_def)
  obtain st where q: "try_reserve_quota (cf_env cf) (cf_sql cf) (se_domain s) (fp_size ?put) (wd_state w) = (True, st)"
    using quota by (cases "try_reserve_quota (cf_env cf) (cf_sql cf) (se_domain s) (of_nat (length bs)) (wd_state w)") auto
  obtain v0 v1 where v: "encode (sent S FilePutAck (put_ack0 blob)) = Inr v0" "encode (sent S FilePutAck (put_ack blob n)) = Inr v1"
    using sent_json(2) u(5,6) unfolding S_def by blast
  have pj: "payload_json (de_file_put (cf_serde cf)) ?f = Inr ?put" using sent_decodes(3) [OF u(4)] by (simp add: S_def)
  have j0: "from_json (cf_serde cf) FilePutAck 0 (MFilePutAck \<lparr>fpa_blob_id = blob, fpa_have = [], fpa_completed = False\<rparr>) =
      Inr (sent S FilePutAck (put_ack0 blob))"
    using sent_json(1) [OF u(5)] by (simp only: S_def put_ack0_def)
  have j1: "from_json (cf_serde cf) FilePutAck 0 (put_ack blob n) = Inr (sent S FilePutAck (put_ack blob n))"
    using sent_json(1) [OF u(6)] by (simp only: S_def)
  have ft: "frame_type ?f = FilePut" using sent_json(3) [OF u(4)] by (simp only: S_def)
  from file_put_starts [OF ready ft pj _ _ q j0 v(1) pc store, of clk mid] obtain s1 w1 p where
    st1: "session_step cf clk mid (Recv ?f) (s, w) = (s1, w1)" "uploading cf bs n objr dobj dt blob {} s1 w1" "wd_state w1 = st"
    and s1: "s1 = s\<lparr>se_pending := p, se_out := se_out s @ [sent S FilePutAck (put_ack0 blob)]\<rparr>"
    and same: "\<forall>k. simple_name k \<longrightarrow> local_get objr k (disk (wd_storage w1)) = local_get objr k (disk (wd_storage w))"
    by auto
  obtain frs where fr: "list_all2 (\<lambda>i f. chunk_frame (cf_crates cf) env requester bs i = Inr f \<and> (\<exists>v. encode f = Inr v)) (map of_nat [0..<n]) frs"
    "list_all2 (carries cf (se_domain s1) bs) [0..<n] frs"
    using chunk_frames_carry [OF n32 laws] ud s1 by auto
  have all: "{} \<union> set [0..<n] = {..<n}" by auto
  from upload_run [OF fr(2) st1(2) all j1 v(2), of mid clk] obtain s' w' where
    run: "session_run cf mid (map (\<lambda>f. (clk, Recv f)) frs) (s1, w1) = (s', w')"
    and d: "upload_done cf bs blob (sent S FilePutAck (put_ack blob n)) s1 w1 s' w'" by blast
  from send_chunks_server [OF fr(1) run] have
    sc: "send_chunks T (cf_crates cf) env requester bs [] (map of_nat [0..<n]) (s1, w1, Suc (length (se_out s)))
      = Some (Inr (), (s', w', Suc (length (se_out s))))" unfolding T_def .
  have snd: "c_send_json T S FilePut (MFilePut ?put) (s, w, length (se_out s)) = Some (Inr (), (s1, w1, length (se_out s)))"
    unfolding T_def S_def by (rule c_send_json_ok [OF understoodD(1) [OF u(4)]]) (use st1(1) in \<open>simp add: S_def\<close>)
  have "st_locks (wd_state w') = st_locks (wd_state w)"
    using d st1(3) try_reserve_keeps [OF q] by (simp add: upload_done_def record_object_owner_def Let_def)
  with snd sc d s1 same store(1) show ?thesis
    by (intro exI [of _ s1] exI [of _ w1] exI [of _ s'] exI [of _ w']) (auto simp: upload_done_def get_object_def)
qed

lemma recv_next:
  assumes "se_out s = pre @ f # post" and "h f = Inr (Some x)"
  shows "recv_loop (server_link cf clk mid) h (s, w, length pre) = Some (Inr x, (s, w, Suc (length pre)))"
  by (rule recv_loop_hit [where f = f]) (use assms in simp_all)

lemma recv_wanted:
  assumes "se_out s = pre @ [f]" and "frame_type f \<in> set ts"
  shows "recv_loop (server_link cf clk mid) (want_types ts) (s, w, length pre) = Some (Inr f, (s, w, Suc (length pre)))"
  by (rule recv_next [where f = f and x = f and post = "[]"]) (use assms in \<open>simp_all add: want_types_def\<close>)

lemma lock_conversation:
  fixes w :: "('x, 'd) world"
  assumes ready: "se_phase s = Ready" "se_open s"
    and msgs: "\<forall>tm \<in> set (push_msgs path requester blob n len (clk 0)). understood (cf_serde cf) tm"
    and free: "lock_free path requester (clk 0) (st_locks (wd_state w))"
  shows "\<exists>gr w0. c_send_json (server_link cf clk mid) (cf_serde cf) LockAcquire
      (MLockAcquire \<lparr>la_path = path, la_requester = requester, la_ttl_ms = 30000\<rparr>) (s, w, length (se_out s)) =
        Some (Inr (), (s\<lparr>se_out := se_out s @ [gr]\<rparr>, w0, length (se_out s))) \<and>
    recv_loop (server_link cf clk mid) lock_reply (s\<lparr>se_out := se_out s @ [gr]\<rparr>, w0, length (se_out s)) =
      Some (Inr True, (s\<lparr>se_out := se_out s @ [gr]\<rparr>, w0, Suc (length (se_out s)))) \<and>
    wd_storage w0 = wd_storage w \<and>
    (\<exists>e. hm_get (st_locks (wd_state w0)) path = Some e \<and> le_holder e = requester) \<and>
    (\<forall>sz. fst (try_reserve_quota (cf_env cf) (cf_sql cf) (se_domain s) sz (wd_state w0)) =
      fst (try_reserve_quota (cf_env cf) (cf_sql cf) (se_domain s) sz (wd_state w))) \<and>
    st_object_owners (wd_state w0) = st_object_owners (wd_state w)"
proof -
  let ?S = "cf_serde cf"
  note u = push_msgsD [OF msgs]
  let ?acq = "MLockAcquire \<lparr>la_path = path, la_requester = requester, la_ttl_ms = 30000\<rparr>"
  let ?gr = "sent ?S LockGranted (MLockGranted \<lparr>lg_path = path, lg_expires_at = clk 0 + 30000\<rparr>)"
  let ?lk = "hm_insert path \<lparr>le_holder = requester, le_expires_at = clk 0 + 30000\<rparr> (st_locks (wd_state w))"
  from lock_step [where clk = clk and mid = mid, OF ready sent_json(3) [OF u(1)] sent_decodes(1) [OF u(1)] free
      understoodD(1) [OF u(2)] understoodD(1) [OF u(3)]]
  obtain R where lk: "session_step cf clk mid (Recv (sent ?S LockAcquire ?acq)) (s, w) =
      (s\<lparr>se_out := se_out s @ [?gr]\<rparr>, w\<lparr>wd_state := (wd_state w)\<lparr>st_locks := ?lk, st_registry := R\<rparr>\<rparr>)" by blast
  note c_send_json_ok [OF understoodD(1) [OF u(1)] tx_server [OF lk, of "length (se_out s)"]]
  moreover have "frame_type ?gr = LockGranted" by (rule sent_json(3) [OF u(2)])
  then have "lock_reply ?gr = Inr (Some True)" by (simp only: lock_reply_def frame_type.distinct if_False if_True refl)
  then have "recv_loop (server_link cf clk mid) lock_reply (s\<lparr>se_out := se_out s @ [?gr]\<rparr>, w', length (se_out s)) =
      Some (Inr True, (s\<lparr>se_out := se_out s @ [?gr]\<rparr>, w', Suc (length (se_out s))))" for w' :: "('x, 'd) world"
    by (intro recv_next) simp_all
  ultimately show ?thesis
    by (intro exI [of _ ?gr] exI [of _ "w\<lparr>wd_state := (wd_state w)\<lparr>st_locks := ?lk, st_registry := R\<rparr>\<rparr>"])
      (simp add: try_reserve_other)
qed

lemma unlock_conversation:
  fixes w :: "('x, 'd) world"
  assumes ready: "se_phase s = Ready"
    and msgs: "\<forall>tm \<in> set (push_msgs path requester blob n len now). understood (cf_serde cf) tm"
    and held: "hm_get (st_locks (wd_state w)) path = Some e" "le_holder e = requester"
  shows "\<exists>w'. c_send_json (server_link cf clk mid) (cf_serde cf) LockRelease
      (MLockRelease \<lparr>lrel_path = path, lrel_requester = requester\<rparr>) (s, w, k) = Some (Inr (), (s, w', k)) \<and>
    wd_storage w' = wd_storage w \<and> lock_holder path (st_locks (wd_state w')) = None \<and>
    (\<forall>d b. object_owner d b (wd_state w') = object_owner d b (wd_state w))"
proof -
  note u = push_msgsD [OF msgs]
  from unlock_step [where clk = clk and mid = mid, OF ready sent_json(3) [OF u(7)] sent_decodes(2) [OF u(7)] held
      understoodD(1) [OF u(8)]]
  obtain R where ul: "session_step cf clk mid (Recv (sent (cf_serde cf) LockRelease
        (MLockRelease \<lparr>lrel_path = path, lrel_requester = requester\<rparr>))) (s, w) =
      (s, w\<lparr>wd_state := (wd_state w)\<lparr>st_locks := hm_remove path (st_locks (wd_state w)), st_registry := R\<rparr>\<rparr>)" by blast
  from c_send_json_ok [OF understoodD(1) [OF u(7)] tx_server [OF ul, of k]] show ?thesis
    by (intro exI [of _ "w\<lparr>wd_state := (wd_state w)\<lparr>st_locks := hm_remove path (st_locks (wd_state w)), st_registry := R\<rparr>\<rparr>"])
      (simp add: lock_holder_def object_owner_def)
qed

lemma push_entry_run:
  assumes "c_send_json T S LockAcquire (MLockAcquire \<lparr>la_path = fte_path en, la_requester = requester, la_ttl_ms = 30000\<rparr>) p0
      = Some (Inr (), p1)" and "recv_loop T lock_reply p1 = Some (Inr True, p2)"
    and "read_object env en F = Inr bs"
    and "c_send_json T S FilePut (MFilePut \<lparr>fp_blob_id = fte_blob_id en, fp_total_chunks = of_nat (div_ceil (length bs) CHUNK_SIZE),
      fp_size = of_nat (length bs)\<rparr>) p2 = Some (Inr (), p3)"
    and "recv_loop T (want_types [FilePutAck, Error]) p3 = Some (Inr f4, p4)" and "frame_type f4 \<noteq> Error"
    and "de_file_put_ack S (payload f4) = Some ack"
    and "send_chunks T C env requester bs (fpa_have ack)
      (map of_nat [0..<unat (of_nat (div_ceil (length bs) CHUNK_SIZE) :: u64)]) p4 = Some (Inr (), p5)"
    and "read_until T FilePutAck p5 = Some (Inr f6, p6)" and "de_file_put_ack S (payload f6) = Some fin"
    and "c_send_json T S LockRelease (MLockRelease \<lparr>lrel_path = fte_path en, lrel_requester = requester\<rparr>) p6 = Some (Inr (), p7)"
  shows "push_entry T S C env F en requester p0 = Some (Inr (), p7)"
proof -
  have io: "c_io (read_object env en F) p2 = Some (Inr bs, p2)" by (simp add: c_io_def assms(3))
  have json: "c_json (de_file_put_ack S) f4 p4 = Some (Inr ack, p4)" "c_json (de_file_put_ack S) f6 p6 = Some (Inr fin, p6)"
    using assms(7,10) by (simp_all add: c_json_ok)
  note steps = assms(1,2) io assms(4,5,8,9,11) json
  show ?thesis
    unfolding push_entry_def Let_def
    by (simp only: c_bind_def steps option.case prod.case sum.case assms(6) if_False not_True_eq_False)
qed

text \<open>The two acknowledgements of an upload as the client receives and decodes them.\<close>

lemma put_acks_received:
  assumes msgs: "\<forall>tm \<in> set (push_msgs path requester blob n len now). understood (cf_serde cf) tm"
    and o1: "se_out s1 = out @ [sent (cf_serde cf) FilePutAck (put_ack0 blob)]"
    and o2: "se_out s2 = se_out s1 @ [sent (cf_serde cf) FilePutAck (put_ack blob n)]"
  shows "recv_loop (server_link cf clk mid) (want_types [FilePutAck, Error]) (s1, w1, length out) =
      Some (Inr (sent (cf_serde cf) FilePutAck (put_ack0 blob)), (s1, w1, Suc (length out)))"
    "read_until (server_link cf clk mid) FilePutAck (s2, w2, Suc (length out)) =
      Some (Inr (sent (cf_serde cf) FilePutAck (put_ack blob n)), (s2, w2, length (se_out s2)))"
    "frame_type (sent (cf_serde cf) FilePutAck (put_ack0 blob)) \<noteq> Error"
    "de_file_put_ack (cf_serde cf) (payload (sent (cf_serde cf) FilePutAck (put_ack0 blob))) =
      Some \<lparr>fpa_blob_id = blob, fpa_have = [], fpa_completed = False\<rparr>"
    "\<exists>fin. de_file_put_ack (cf_serde cf) (payload (sent (cf_serde cf) FilePutAck (put_ack blob n))) = Some fin"
proof -
  note u = push_msgsD [OF msgs]
  show "recv_loop (server_link cf clk mid) (want_types [FilePutAck, Error]) (s1, w1, length out) =
      Some (Inr (sent (cf_serde cf) FilePutAck (put_ack0 blob)), (s1, w1, Suc (length out)))"
    by (rule recv_wanted [OF o1]) (simp add: sent_json(3) [OF u(5)])
  have "Suc (length out) = length (se_out s1)" "length (se_out s2) = Suc (length (se_out s1))" using o1 o2 by simp_all
  then show "read_until (server_link cf clk mid) FilePutAck (s2, w2, Suc (length out)) =
      Some (Inr (sent (cf_serde cf) FilePutAck (put_ack blob n)), (s2, w2, length (se_out s2)))"
    unfolding read_until_def by (simp only:) (rule recv_wanted [OF o2], simp add: sent_json(3) [OF u(6)])
  show "frame_type (sent (cf_serde cf) FilePutAck (put_ack0 blob)) \<noteq> Error" using sent_json(3) [OF u(5)] by simp
  show "de_file_put_ack (cf_serde cf) (payload (sent (cf_serde cf) FilePutAck (put_ack0 blob))) =
      Some \<lparr>fpa_blob_id = blob, fpa_have = [], fpa_completed = False\<rparr>"
    using sent_decodes(4) u(5) unfolding put_ack0_def by blast
  show "\<exists>fin. de_file_put_ack (cf_serde cf) (payload (sent (cf_serde cf) FilePutAck (put_ack blob n))) = Some fin"
    using sent_decodes(4) u(6) unfolding put_ack_def by blast
qed

lemma push_entry_stores:
  fixes w :: "('x, 'd) world" and clk :: clock and mid :: string
  assumes ready: "se_phase s = Ready" "se_open s" and ud: "se_domain s = domain_of requester"
    and n: "n = div_ceil (length bs) CHUNK_SIZE" "bs \<noteq> []" "length bs < (2 ^ 32 - 1) * CHUNK_SIZE"
    and obj: "read_object env en F = Inr bs"
    and msgs: "\<forall>tm \<in> set (push_msgs (fte_path en) requester (fte_blob_id en) n (length bs) (clk 0)). understood (cf_serde cf) tm"
    and laws: "seal_law (cf_crates cf)" "aead_law (cf_crates cf)" "same_keys cf env (domain_of requester)"
    and free: "lock_free (fte_path en) requester (clk 0) (st_locks (wd_state w))"
    and quota: "fst (try_reserve_quota (cf_env cf) (cf_sql cf) (se_domain s) (of_nat (length bs)) (wd_state w))"
    and store: "sf_objects (se_fs s) = LocalObjectStore objr" "simple_name (fte_blob_id en)" "simple_name (fte_blob_id en @ ''.part'')"
      "apart objr (join (sf_root (se_fs s)) ''tmp'') dobj dt (disk (wd_storage w))"
      "local_get objr (fte_blob_id en) (disk (wd_storage w)) \<in> {None, Some bs}"
  defines "T \<equiv> server_link cf clk mid" and "S \<equiv> cf_serde cf"
  shows "\<exists>s' w'. push_entry T S (cf_crates cf) env F en requester (s, w, length (se_out s)) =
      Some (Inr (), (s', w', length (se_out s'))) \<and> se_phase s' = Ready \<and>
    get_object (cf_backend cf) (se_fs s) (fte_blob_id en) (wd_storage w') = Some bs \<and>
    (\<forall>k. simple_name k \<longrightarrow> k \<noteq> fte_blob_id en \<longrightarrow>
       get_object (cf_backend cf) (se_fs s) k (wd_storage w') = get_object (cf_backend cf) (se_fs s) k (wd_storage w)) \<and>
    object_owner (se_domain s) (fte_blob_id en) (wd_state w') = Some (se_machine s) \<and>
    lock_holder (fte_path en) (st_locks (wd_state w')) = None"
proof -
  let ?path = "fte_path en" and ?blob = "fte_blob_id en" and ?C = "cf_crates cf"
  note u = push_msgsD [OF msgs, folded S_def]
  have pc: "piece_count bs n" unfolding n(1) by (rule div_ceil_pieces [OF n(2,3)])
  then have un: "unat (of_nat n :: u64) = n" by (simp add: piece_count_def unat_of_nat)
  from lock_conversation [where clk = clk and mid = mid, OF ready msgs free, folded T_def S_def] obtain gr w0 e where
    c1: "c_send_json T S LockAcquire (MLockAcquire \<lparr>la_path = ?path, la_requester = requester, la_ttl_ms = 30000\<rparr>)
      (s, w, length (se_out s)) = Some (Inr (), (s\<lparr>se_out := se_out s @ [gr]\<rparr>, w0, length (se_out s)))" and
    c2: "recv_loop T lock_reply (s\<lparr>se_out := se_out s @ [gr]\<rparr>, w0, length (se_out s)) =
      Some (Inr True, (s\<lparr>se_out := se_out s @ [gr]\<rparr>, w0, Suc (length (se_out s))))" and
    w0: "wd_storage w0 = wd_storage w" "hm_get (st_locks (wd_state w0)) ?path = Some e" "le_holder e = requester"
      "fst (try_reserve_quota (cf_env cf) (cf_sql cf) (se_domain s) (of_nat (length bs)) (wd_state w0))"
    using quota by auto
  let ?s0 = "s\<lparr>se_out := se_out s @ [gr]\<rparr>"
  have r0: "se_phase ?s0 = Ready" "se_open ?s0" "se_domain ?s0 = domain_of requester"
      "fst (try_reserve_quota (cf_env cf) (cf_sql cf) (se_domain ?s0) (of_nat (length bs)) (wd_state w0))"
      "sf_objects (se_fs ?s0) = LocalObjectStore objr"
      "apart objr (join (sf_root (se_fs ?s0)) ''tmp'') dobj dt (disk (wd_storage w0))"
      "local_get objr ?blob (disk (wd_storage w0)) \<in> {None, Some bs}" using ready ud w0 store by simp_all
  from put_conversation [OF r0(1-3) msgs laws pc r0(4,5) store(2,3) r0(6,7), of clk mid, folded T_def S_def]
  obtain s1 w1 s' w' p where
    c3: "c_send_json T S FilePut (MFilePut \<lparr>fp_blob_id = ?blob, fp_total_chunks = of_nat n, fp_size = of_nat (length bs)\<rparr>)
      (?s0, w0, Suc (length (se_out s))) = Some (Inr (), (s1, w1, length (se_out ?s0)))" and
    o1: "se_out s1 = se_out ?s0 @ [sent S FilePutAck (put_ack0 ?blob)]" and
    c5: "send_chunks T ?C env requester bs [] (map of_nat [0..<n]) (s1, w1, Suc (length (se_out ?s0)))
      = Some (Inr (), (s', w', Suc (length (se_out ?s0))))" and
    s': "s' = ?s0\<lparr>se_pending := p, se_out := se_out s1 @ [sent S FilePutAck (put_ack ?blob n)]\<rparr>" and
    res: "get_object (cf_backend cf) (se_fs s) ?blob (wd_storage w') = Some bs"
      "\<forall>k. simple_name k \<longrightarrow> k \<noteq> ?blob \<longrightarrow>
         get_object (cf_backend cf) (se_fs s) k (wd_storage w') = get_object (cf_backend cf) (se_fs s) k (wd_storage w)"
      "object_owner (se_domain s) ?blob (wd_state w') = Some (se_machine s)" "st_locks (wd_state w') = st_locks (wd_state w0)"
    unfolding w0(1) by auto
  have "se_out s' = se_out s1 @ [sent S FilePutAck (put_ack ?blob n)]" using s' by simp
  note acks = put_acks_received(1-2) [OF msgs o1 [unfolded S_def] this [unfolded S_def], of clk mid, folded T_def S_def]
    put_acks_received(3-5) [OF msgs o1 [unfolded S_def] this [unfolded S_def], folded S_def]
  have r': "se_phase s' = Ready" and held: "hm_get (st_locks (wd_state w')) ?path = Some e"
    using ready s' res(4) w0(2) by simp_all
  from unlock_conversation [OF r' msgs held w0(3), of clk mid "length (se_out s')", folded T_def S_def] obtain w2 where
    c7: "c_send_json T S LockRelease (MLockRelease \<lparr>lrel_path = ?path, lrel_requester = requester\<rparr>) (s', w', length (se_out s'))
      = Some (Inr (), (s', w2, length (se_out s')))" and
    w2: "wd_storage w2 = wd_storage w'" "lock_holder ?path (st_locks (wd_state w2)) = None"
      "\<forall>d b. object_owner d b (wd_state w2) = object_owner d b (wd_state w')" by blast
  obtain fin where fin: "de_file_put_ack S (payload (sent S FilePutAck (put_ack ?blob n))) = Some fin" using acks(5) by blast
  have "push_entry T S ?C env F en requester (s, w, length (se_out s)) = Some (Inr (), (s', w2, length (se_out s')))"
    by (rule push_entry_run [OF c1 c2 obj c3 [unfolded n(1)] acks(1,3,4) _ acks(2) fin c7]) (use c5 un n(1) in simp)
  then show ?thesis using res(1-3) r' w2 by (intro exI [of _ s'] exI [of _ w2]) simp
qed

section \<open>Uploads that do not finish\<close>



lemma rejected_put_step:
  fixes w :: "('x, 'd) world"
  assumes ready: "se_phase s = Ready" "se_open s" and f: "frame_type f = FilePut"
    and pj: "payload_json (de_file_put (cf_serde cf)) f = Inr fp"
    and q: "\<not> fst (try_reserve_quota (cf_env cf) (cf_sql cf) (se_domain s) (fp_size fp) (wd_state w))"
    and snd: "sendable (cf_serde cf) Error (error_msg_of ''0xE040'' ''quota_exceeded'')"
  shows "session_step cf clk mid (Recv f) (s, w) =
    (s\<lparr>se_out := se_out s @ [sent (cf_serde cf) Error (error_msg_of ''0xE040'' ''quota_exceeded'')]\<rparr>, w)"
proof -
  obtain st where st: "try_reserve_quota (cf_env cf) (cf_sql cf) (se_domain s) (fp_size fp) (wd_state w) = (False, st)"
    using q by (cases "try_reserve_quota (cf_env cf) (cf_sql cf) (se_domain s) (fp_size fp) (wd_state w)") auto
  show ?thesis
    using ready f sess_send_json_sendable [OF snd ready(2)]
    by (simp add: session_step_def ready_step_def on_frame_def on_file_put_def pj st reply_def del: payload_json_Inr)
qed

section \<open>Properties\<close>

text \<open>
  C1: a file pushed by one machine is pulled by another.  Over a server whose tenant has a local
  store, when the lock of the path is free and the quota admits the file, \<open>push_entry\<close> returns
  with success, leaves the path unlocked and all other objects as they were; after that,
  \<open>get_object\<close> over any ready session of the tenant returns and yields exactly the bytes of the
  file.  Both ends may encrypt with the tenant's keys.
\<close>

theorem share_roundtrip:
  fixes w :: "('x, 'd) world" and clk :: clock and mid :: string
  assumes "se_phase s = Ready" "se_open s" "se_domain s = domain_of requester"
    and "bs \<noteq> []" "length bs < (2 ^ 32 - 1) * CHUNK_SIZE" "read_object env en F = Inr bs"
    and "\<forall>tm \<in> set (push_msgs (fte_path en) requester (fte_blob_id en) (div_ceil (length bs) CHUNK_SIZE)
      (length bs) (clk 0)). understood (cf_serde cf) tm" "\<forall>i. get_understood (cf_serde cf) (fte_blob_id en) i"
    and "seal_law (cf_crates cf)" "aead_law (cf_crates cf)" "same_keys cf env (domain_of requester)"
    and "lock_free (fte_path en) requester (clk 0) (st_locks (wd_state w))"
    and "fst (try_reserve_quota (cf_env cf) (cf_sql cf) (se_domain s) (of_nat (length bs)) (wd_state w))"
    and "sf_objects (se_fs s) = LocalObjectStore objr" "simple_name (fte_blob_id en)" "simple_name (fte_blob_id en @ ''.part'')"
      "apart objr (join (sf_root (se_fs s)) ''tmp'') dobj dt (disk (wd_storage w))"
      "local_get objr (fte_blob_id en) (disk (wd_storage w)) \<in> {None, Some bs}"
    and "se_phase s2 = Ready" "se_open s2" "se_domain s2 = se_domain s" "se_fs s2 = se_fs s" "same_keys cf env2 (se_domain s)"
  shows "\<exists>s' w' s2'. push_entry (server_link cf clk mid) (cf_serde cf) (cf_crates cf) env F en requester
        (s, w, length (se_out s)) = Some (Inr (), (s', w', length (se_out s'))) \<and>
    lock_holder (fte_path en) (st_locks (wd_state w')) = None \<and>
    (\<forall>k. simple_name k \<longrightarrow> k \<noteq> fte_blob_id en \<longrightarrow>
       get_object (cf_backend cf) (se_fs s) k (wd_storage w') = get_object (cf_backend cf) (se_fs s) k (wd_storage w)) \<and>
    client_get_object (server_link cf clk mid) (cf_serde cf) (cf_crates cf) env2 (fte_blob_id en) (se_domain s2)
        (s2, w', length (se_out s2)) = Some (Inr (Some bs), (s2', w', length (se_out s2')))"
proof -
  from push_entry_stores [where clk = clk and mid = mid, OF assms(1-3) refl assms(4-7,9-18)] obtain s' w' where
    push: "push_entry (server_link cf clk mid) (cf_serde cf) (cf_crates cf) env F en requester (s, w, length (se_out s)) =
      Some (Inr (), (s', w', length (se_out s')))" and
    res: "get_object (cf_backend cf) (se_fs s) (fte_blob_id en) (wd_storage w') = Some bs"
      "\<forall>k. simple_name k \<longrightarrow> k \<noteq> fte_blob_id en \<longrightarrow>
         get_object (cf_backend cf) (se_fs s) k (wd_storage w') = get_object (cf_backend cf) (se_fs s) k (wd_storage w)"
      "lock_holder (fte_path en) (st_locks (wd_state w')) = None" by blast
  have "get_object (cf_backend cf) (se_fs s2) (fte_blob_id en) (wd_storage w') = Some bs" using res(1) assms(22) by simp
  from get_loop_server [OF assms(19,20) this assms(8-10), of env2 0 clk mid] assms(5,21,23) obtain out where
    "client_get_object (server_link cf clk mid) (cf_serde cf) (cf_crates cf) env2 (fte_blob_id en) (se_domain s2)
        (s2, w', length (se_out s2)) = Some (Inr (Some bs), (s2\<lparr>se_out := out\<rparr>, w', length out))"
    by (auto simp: client_get_object_def)
  with push res show ?thesis by (intro exI [of _ s'] exI [of _ w'] exI [of _ "s2\<lparr>se_out := out\<rparr>"]) simp
qed

text \<open>A serialiser for the messages of one transfer, and a client's disk, for the witnesses.\<close>

definition share_serde :: "nat \<Rightarrow> serde" where
  "share_serde len = no_serde\<lparr>
     to_vec := (\<lambda>m. case m of
        MFilePutAck a \<Rightarrow> Some [if fpa_completed a then 1 else 0]
      | MLockNotify x \<Rightarrow> Some [if ln_holder x = None then 1 else 0]
      | MFileGet g \<Rightarrow> Some (u64_to_le_bytes (case fg_chunk_index g of Some i \<Rightarrow> i | None \<Rightarrow> 0))
      | _ \<Rightarrow> Some []),
     de_lock_acquire := (\<lambda>_. Some \<lparr>la_path = ''f'', la_requester = ''d/m/t'', la_ttl_ms = 30000\<rparr>),
     de_lock_granted := (\<lambda>_. Some \<lparr>lg_path = ''f'', lg_expires_at = 30000\<rparr>),
     de_lock_notify := (\<lambda>b. Some (if b = [0] then \<lparr>ln_path = ''f'', ln_event = ''locked'', ln_holder = Some ''d/m/t''\<rparr>
        else \<lparr>ln_path = ''f'', ln_event = ''unlocked'', ln_holder = None\<rparr>)),
     de_lock_release := (\<lambda>_. Some \<lparr>lrel_path = ''f'', lrel_requester = ''d/m/t''\<rparr>),
     de_file_put := (\<lambda>_. Some \<lparr>fp_blob_id = ''b'', fp_total_chunks = of_nat (div_ceil len CHUNK_SIZE), fp_size = of_nat len\<rparr>),
     de_file_put_ack := (\<lambda>b. Some (if b = [0] then \<lparr>fpa_blob_id = ''b'', fpa_have = [], fpa_completed = False\<rparr>
        else \<lparr>fpa_blob_id = ''b'', fpa_have = map of_nat [0..<div_ceil len CHUNK_SIZE], fpa_completed = True\<rparr>)),
     de_file_get := (\<lambda>b. Some \<lparr>fg_blob_id = ''b'', fg_chunk_index = Some (from_le b)\<rparr>),
     de_error_msg := (\<lambda>b. Some \<lparr>em_code = ''0xE040'', em_message = ''quota_exceeded'', em_request_id = None\<rparr>)\<rparr>"

definition share_config :: "nat \<Rightarrow> (unit, unit) config" where
  "share_config len = sample_config\<lparr>cf_serde := share_serde len\<rparr>"

definition sample_entry :: file_tree_entry where
  "sample_entry = \<lparr>fte_path = ''f'', fte_blob_id = ''b'', fte_mode = 420, fte_size = 2, fte_mtime_ns = 0\<rparr>"

definition client_disk :: "bytes \<Rightarrow> fs" where
  "client_disk b = \<lparr>cwd = [], nodes = [([''o''], Dir), ([''o'', ''b''], File b)]\<rparr>"

definition client_env :: env where "client_env = [''NSMT_OBJECTS_DIR'' \<mapsto> ''/o'']"

lemma share_sendable: "sendable (share_serde len) t m"
proof -
  obtain b where b: "to_vec (share_serde len) m = Some b" "length b \<le> 8"
    by (cases m) (simp_all add: share_serde_def)
  then have "from_json (share_serde len) t 0 m = Inr (frame_new t 0 b)" by (simp add: frame_new_def)
  with b(2) show ?thesis by (simp add: sendable_def encode_def frame_new_def del: from_json_payload)
qed

lemma share_understood:
  "\<forall>tm \<in> set (push_msgs ''f'' ''d/m/t'' ''b'' (div_ceil len CHUNK_SIZE) len 0). understood (share_serde len) tm"
  "\<forall>i. get_understood (share_serde len) ''b'' i"
proof -
  show "\<forall>tm \<in> set (push_msgs ''f'' ''d/m/t'' ''b'' (div_ceil len CHUNK_SIZE) len 0). understood (share_serde len) tm"
    unfolding push_msgs_def understood_def
    by (simp add: share_sendable) (simp add: serde_roundtrip_def share_serde_def put_ack0_def put_ack_def)
  have "from_le (to_le 8 (i :: u64)) = i" for i by (rule from_le_to_le) simp
  then show "\<forall>i. get_understood (share_serde len) ''b'' i"
    by (simp add: get_understood_def share_sendable Let_def) (simp add: serde_roundtrip_def share_serde_def)
qed

lemma sample_seal_law: "seal_law sample_crates"
  by (simp add: seal_law_def sample_crates_def)

lemma client_disk_read: "read_object client_env sample_entry (client_disk b) = Inr b"
  by (simp add: read_object_def client_env_def objects_dir_def sample_entry_def client_disk_def Let_def fs_exists_def
      fs_read_def resolve_def join_def suffix_to_prefix start_of_def node_at_def hm_get_def)

lemma sample_same_keys: "same_keys (share_config len) client_env ''d''"
  by (simp add: same_keys_def share_config_def sample_config_def e2e_from_env_def masters_from_env_def client_env_def)

lemma sample_domain: "domain_of ''d/m/t'' = ''d''"
  by (simp add: domain_of_def)

lemmas sample_session_simps = sample_session_def session_new_def sample_fs_def

lemma sample_store:
  "sf_objects (se_fs sample_session) = LocalObjectStore ''/n/objects''"
  "apart ''/n/objects'' (join (sf_root (se_fs sample_session)) ''tmp'') [''n'', ''objects''] [''n'', ''tmp''] (disk (wd_storage sample_world))"
  "local_get ''/n/objects'' ''b'' (disk (wd_storage sample_world)) = None"
  using sample_apart local_get_node [OF sample_ready(1), of "''b''"]
  by (simp_all add: sample_session_simps sample_world_def) (simp add: sample_disk_def node_at_def hm_get_def simple_name_def)

theorem share_roundtrip_witness:
  "\<exists>s' w' s2'. push_entry (server_link (share_config 2) (\<lambda>_. 0) ''id'') (share_serde 2) sample_crates client_env
        (client_disk [7, 8]) sample_entry ''d/m/t'' (sample_session, sample_world, 0) = Some (Inr (), (s', w', length (se_out s'))) \<and>
    client_get_object (server_link (share_config 2) (\<lambda>_. 0) ''id'') (share_serde 2) sample_crates client_env ''b'' ''d''
        (sample_session, w', 0) = Some (Inr (Some [7, 8]), (s2', w', length (se_out s2')))"
proof -
  let ?cf = "share_config 2" and ?s = sample_session
  have s: "se_phase ?s = Ready" "se_open ?s" "se_domain ?s = domain_of ''d/m/t''" "se_out ?s = []"
    by (simp_all add: sample_session_simps sample_domain)
  have cf: "cf_serde ?cf = share_serde 2" "cf_crates ?cf = sample_crates"
    by (simp_all add: share_config_def sample_config_def)
  have q: "fst (try_reserve_quota (cf_env ?cf) (cf_sql ?cf) (se_domain ?s) (of_nat (length [7 :: byte, 8])) (wd_state sample_world))"
    by (simp add: share_config_def sample_config_def sample_session_simps try_reserve_quota_def quota_for_def quota_bytes_def
        usage_of_def sample_world_def server_state_new_def hm_get_def Let_def)
  have fr: "lock_free (fte_path sample_entry) ''d/m/t'' 0 (st_locks (wd_state sample_world))"
    by (simp add: lock_free_def sample_world_def server_state_new_def hm_get_def)
  have e: "fte_path sample_entry = ''f''" "fte_blob_id sample_entry = ''b''" by (simp_all add: sample_entry_def)
  have "[7, 8] \<noteq> ([] :: byte list)" "length [7 :: byte, 8] < (2 ^ 32 - 1) * CHUNK_SIZE" by (simp_all add: CHUNK_SIZE_def)
  note big = this
  have l2: "length [7 :: byte, 8] = 2" by simp
  have m: "\<forall>tm \<in> set (push_msgs ''f'' ''d/m/t'' ''b'' (div_ceil (length [7 :: byte, 8]) CHUNK_SIZE) (length [7 :: byte, 8]) 0).
      understood (share_serde 2) tm" unfolding l2 by (rule share_understood)
  have k: "same_keys ?cf client_env (domain_of ''d/m/t'')" "same_keys ?cf client_env (se_domain ?s)"
    using sample_same_keys s(3) by (simp_all add: sample_domain)
  have sn: "simple_name ''b''" "simple_name (''b'' @ ''.part'')" by (simp_all add: simple_name_def)
  have lg: "local_get ''/n/objects'' ''b'' (disk (wd_storage sample_world)) \<in> {None, Some [7, 8]}"
    using sample_store(3) by simp
  from share_roundtrip [where cf = ?cf and s = ?s and ?s2.0 = ?s and clk = "\<lambda>_. 0" and mid = "''id''" and env = client_env
      and ?env2.0 = client_env and en = sample_entry and F = "client_disk [7, 8]" and bs = "[7, 8]" and requester = "''d/m/t''"
      and w = sample_world and objr = "''/n/objects''" and dobj = "[''n'', ''objects'']" and dt = "[''n'', ''tmp'']",
      unfolded e cf, OF s(1-3) big client_disk_read m share_understood(2) sample_seal_law sample_crates_laws(3)
        k(1) fr [unfolded e] q sample_store(1) sn sample_store(2) lg s(1,2) refl refl k(2)]
  show ?thesis unfolding s(3,4) sample_domain list.size by blast
qed



text \<open>
  C40: a push that the quota refuses leaves its lock behind.  The server answers with an error,
  nothing is stored, and \<open>push_entry\<close> reports success without releasing the lock it took, so the
  path stays locked for others until the lease expires.
\<close>

theorem rejected_push_keeps_lock:
  fixes w :: "('x, 'd) world" and clk :: clock and mid :: string
  assumes "se_phase s = Ready" "se_open s" "read_object env en F = Inr bs"
    and "\<forall>tm \<in> set (push_msgs (fte_path en) requester (fte_blob_id en) (div_ceil (length bs) CHUNK_SIZE) (length bs) (clk 0)).
      understood (cf_serde cf) tm" "understood (cf_serde cf) (Error, error_msg_of ''0xE040'' ''quota_exceeded'')"
    and "lock_free (fte_path en) requester (clk 0) (st_locks (wd_state w))"
    and "\<not> fst (try_reserve_quota (cf_env cf) (cf_sql cf) (se_domain s) (of_nat (length bs)) (wd_state w))"
  shows "\<exists>s' w'. push_entry (server_link cf clk mid) (cf_serde cf) (cf_crates cf) env F en requester (s, w, length (se_out s))
      = Some (Inr (), (s', w', length (se_out s'))) \<and>
    lock_holder (fte_path en) (st_locks (wd_state w')) = Some requester \<and> wd_storage w' = wd_storage w"
proof -
  let ?T = "server_link cf clk mid" and ?S = "cf_serde cf" and ?blob = "fte_blob_id en"
  let ?err = "sent ?S Error (error_msg_of ''0xE040'' ''quota_exceeded'')"
  note u = push_msgsD [OF assms(4)]
  from lock_conversation [where clk = clk and mid = mid, OF assms(1,2,4,6)] obtain gr w0 e where
    c1: "c_send_json ?T ?S LockAcquire (MLockAcquire \<lparr>la_path = fte_path en, la_requester = requester, la_ttl_ms = 30000\<rparr>)
      (s, w, length (se_out s)) = Some (Inr (), (s\<lparr>se_out := se_out s @ [gr]\<rparr>, w0, length (se_out s)))" and
    c2: "recv_loop ?T lock_reply (s\<lparr>se_out := se_out s @ [gr]\<rparr>, w0, length (se_out s)) =
      Some (Inr True, (s\<lparr>se_out := se_out s @ [gr]\<rparr>, w0, Suc (length (se_out s))))" and
    w0: "wd_storage w0 = wd_storage w" "hm_get (st_locks (wd_state w0)) (fte_path en) = Some e" "le_holder e = requester"
      "\<not> fst (try_reserve_quota (cf_env cf) (cf_sql cf) (se_domain s) (of_nat (length bs)) (wd_state w0))"
    using assms(7) by blast
  let ?s0 = "s\<lparr>se_out := se_out s @ [gr]\<rparr>"
  let ?put = "\<lparr>fp_blob_id = ?blob, fp_total_chunks = of_nat (div_ceil (length bs) CHUNK_SIZE), fp_size = of_nat (length bs)\<rparr>"
  have r0: "se_phase ?s0 = Ready" "se_open ?s0"
    "\<not> fst (try_reserve_quota (cf_env cf) (cf_sql cf) (se_domain ?s0) (fp_size ?put) (wd_state w0))"
    "payload_json (de_file_put ?S) (sent ?S FilePut (MFilePut ?put)) = Inr ?put"
    using assms(1,2) w0(4) sent_decodes(3) [OF u(4)] by simp_all
  let ?s1 = "?s0\<lparr>se_out := se_out ?s0 @ [?err]\<rparr>"
  note step = rejected_put_step [OF r0(1,2) sent_json(3) [OF u(4)] r0(4,3) understoodD(1) [OF assms(5)], of clk mid]
  note c3 = c_send_json_ok [OF understoodD(1) [OF u(4)] tx_server [OF step, of "Suc (length (se_out s))"]]
  have ft: "frame_type ?err = Error" by (rule sent_json(3) [OF assms(5)])
  then have want: "frame_type ?err \<in> set [FilePutAck, Error]" by simp
  have "se_out ?s1 = se_out ?s0 @ [?err]" by simp
  from recv_wanted [OF this want, of cf clk mid w0] have c4: "recv_loop ?T (want_types [FilePutAck, Error]) (?s1, w0, Suc (length (se_out s))) =
      Some (Inr ?err, (?s1, w0, Suc (Suc (length (se_out s)))))"
    by simp
  have "to_vec ?S (error_msg_of ''0xE040'' ''quota_exceeded'') = Some (payload ?err)"
    using sent_frame(2) [OF understoodD(1) [OF assms(5)]] .
  then obtain em where "de_error_msg ?S (payload ?err) = Some em"
    using understoodD(3) [OF assms(5)] by (auto simp: serde_roundtrip_def error_msg_of_def)
  then have j: "c_json (de_error_msg ?S) ?err q = Some (Inr em, q)" for q :: "('x, 'd) link" by (rule c_json_ok)
  have io: "c_io (read_object env en F) q = Some (Inr bs, q)" for q :: "('x, 'd) link" by (simp add: c_io_def assms(3))
  have "push_entry ?T ?S (cf_crates cf) env F en requester (s, w, length (se_out s)) = Some (Inr (), (?s1, w0, length (se_out ?s1)))"
    unfolding push_entry_def Let_def
    by (simp only: c_bind_def c1 c2 io c3 c4 ft j option.case prod.case sum.case if_True if_False not_True_eq_False)
      (simp add: c_bind_def j c_ret_def)
  moreover have "lock_holder (fte_path en) (st_locks (wd_state w0)) = Some requester" using w0(2,3) by (simp add: lock_holder_def)
  ultimately show ?thesis using w0(1) by blast
qed

theorem rejected_push_keeps_lock_witness:
  "\<exists>s' w'. push_entry (server_link (share_config 2) (\<lambda>_. 0) ''id'') (share_serde 2) sample_crates client_env
      (client_disk [7, 8]) sample_entry ''d/m/t''
      (sample_session, sample_world\<lparr>wd_state := (wd_state sample_world)\<lparr>st_usage_bytes := [(''d'', 1073741824)]\<rparr>\<rparr>, 0)
      = Some (Inr (), (s', w', length (se_out s'))) \<and>
    lock_holder ''f'' (st_locks (wd_state w')) = Some ''d/m/t''"
proof -
  let ?cf = "share_config 2"
  let ?w = "sample_world\<lparr>wd_state := (wd_state sample_world)\<lparr>st_usage_bytes := [(''d'', 1073741824)]\<rparr>\<rparr>"
  have s: "se_phase sample_session = Ready" "se_open sample_session" "se_out sample_session = []"
    by (simp_all add: sample_session_simps)
  have cf: "cf_serde ?cf = share_serde 2" "cf_crates ?cf = sample_crates" by (simp_all add: share_config_def sample_config_def)
  have e: "fte_path sample_entry = ''f''" "fte_blob_id sample_entry = ''b''" by (simp_all add: sample_entry_def)
  have l2: "length [7 :: byte, 8] = 2" by simp
  have m: "\<forall>tm \<in> set (push_msgs ''f'' ''d/m/t'' ''b'' (div_ceil (length [7 :: byte, 8]) CHUNK_SIZE) (length [7 :: byte, 8]) 0).
      understood (share_serde 2) tm" unfolding l2 by (rule share_understood)
  have err: "understood (share_serde 2) (Error, error_msg_of ''0xE040'' ''quota_exceeded'')"
    by (simp add: understood_def share_sendable) (simp add: serde_roundtrip_def error_msg_of_def share_serde_def)
  have q: "\<not> fst (try_reserve_quota (cf_env ?cf) (cf_sql ?cf) (se_domain sample_session) (of_nat (length [7 :: byte, 8])) (wd_state ?w))"
    by (simp add: share_config_def sample_config_def sample_session_simps try_reserve_quota_def quota_for_def quota_bytes_def
        usage_of_def sample_world_def server_state_new_def hm_get_def Let_def)
  have fr: "lock_free ''f'' ''d/m/t'' 0 (st_locks (wd_state ?w))"
    by (simp add: lock_free_def sample_world_def server_state_new_def hm_get_def)
  from rejected_push_keeps_lock [where cf = ?cf and clk = "\<lambda>_. 0" and mid = "''id''" and requester = "''d/m/t''" and w = ?w,
      OF s(1,2) client_disk_read, unfolded e cf, OF m err fr q]
  show ?thesis unfolding s(3) list.size by blast
qed

end
