(* ===== verification/Peer.thy ===== *)
theory Peer
  imports Client_Fs
begin

text \<open>
  Direct connections between clients, \<open>nsmt-client/src/main.rs\<close>: mutual authentication with the
  domain key, the server side of a peer (\<open>serve_peer\<close>), and the pull that asks the server
  first and then the peer it names.
\<close>

record peer_ctx =
  px_domain :: string
  px_machine_id :: string
  px_agent_tag :: string
  px_machine_pubkey :: string
  px_machine_key :: key_pair
  px_domain_key :: key_pair

definition auth_ok_msg :: "crates \<Rightarrow> peer_ctx \<Rightarrow> string \<Rightarrow> msg" where
  "auth_ok_msg C ctx n = MPeerAuthOk \<lparr>pok_machine_id = px_machine_id ctx, pok_agent_tag = px_agent_tag ctx,
     pok_machine_pubkey = px_machine_pubkey ctx, pok_signature = sign C (px_domain_key ctx) (as_bytes n)\<rparr>"

definition hello_msg :: "peer_ctx \<Rightarrow> msg" where
  "hello_msg ctx = MPeerHello \<lparr>ph_user_domain = px_domain ctx, ph_machine_id = px_machine_id ctx,
     ph_agent_tag = px_agent_tag ctx, ph_machine_pubkey = px_machine_pubkey ctx\<rparr>"

definition peer_nonce :: "u64 \<Rightarrow> string \<Rightarrow> string" where
  "peer_nonce now machine = ''nsmt-peer-'' @ fmt_dec (unat now) @ ''-'' @ machine"

definition peer_initiate :: "'p transport \<Rightarrow> serde \<Rightarrow> crates \<Rightarrow> peer_ctx \<Rightarrow> ('p, string \<times> string) conv" where
  "peer_initiate T S C ctx =
     c_bind (c_send_json T S PeerHello (hello_msg ctx)) (\<lambda>_.
     c_bind (recv_until T PeerAuth) (\<lambda>f.
     c_bind (c_json (de_peer_auth S) f) (\<lambda>auth.
     c_bind (c_send_json T S PeerAuthOk (auth_ok_msg C ctx (pa_nonce auth))) (\<lambda>_.
     c_bind (recv_until T PeerAuthOk) (\<lambda>g.
     c_bind (c_json (de_peer_auth_ok S) g) (\<lambda>ok.
     if \<not> verify C (public_hex C (px_domain_key ctx)) (as_bytes (pa_nonce auth)) (pok_signature ok)
     then c_lift (Inl (CBail ''peer auth failed: bad responder signature''))
     else c_ret (pok_machine_id ok, pok_machine_pubkey ok)))))))"

definition peer_respond :: "'p transport \<Rightarrow> serde \<Rightarrow> crates \<Rightarrow> u64 \<Rightarrow> peer_ctx \<Rightarrow> ('p, string \<times> string) conv" where
  "peer_respond T S C now ctx =
     c_bind (recv_until T PeerHello) (\<lambda>f.
     c_bind (c_json (de_peer_hello S) f) (\<lambda>hello.
     if ph_user_domain hello \<noteq> px_domain ctx
     then c_lift (Inl (CBail (''peer auth failed: domain mismatch ('' @ ph_user_domain hello @ '' != '' @ px_domain ctx @ '')'')))
     else
     let n = peer_nonce now (ph_machine_id hello) in
     c_bind (c_send_json T S PeerAuth (MPeerAuth \<lparr>pa_nonce = n\<rparr>)) (\<lambda>_.
     c_bind (recv_until T PeerAuthOk) (\<lambda>g.
     c_bind (c_json (de_peer_auth_ok S) g) (\<lambda>ok.
     if \<not> verify C (public_hex C (px_domain_key ctx)) (as_bytes n) (pok_signature ok)
     then c_lift (Inl (CBail ''peer auth failed: bad signature''))
     else
     c_bind (c_send_json T S PeerAuthOk (auth_ok_msg C ctx n)) (\<lambda>_.
     c_ret (ph_machine_id hello, ph_machine_pubkey hello)))))))"

definition peer_authenticate ::
  "'p transport \<Rightarrow> serde \<Rightarrow> crates \<Rightarrow> u64 \<Rightarrow> peer_ctx \<Rightarrow> bool \<Rightarrow> ('p, string \<times> string) conv" where
  "peer_authenticate T S C now ctx is_initiator =
     (if is_initiator then peer_initiate T S C ctx else peer_respond T S C now ctx)"

section \<open>Serving objects to a peer\<close>

definition peer_answer :: "serde \<Rightarrow> crates \<Rightarrow> env \<Rightarrow> fs \<Rightarrow> peer_ctx \<Rightarrow> file_get \<Rightarrow> nsmt_error + frame" where
  "peer_answer S C env F ctx g =
     (case fs_read F (join (objects_dir env) (fg_blob_id g)) of
        Inr data \<Rightarrow>
          (let idx = (case fg_chunk_index g of Some i \<Rightarrow> i | None \<Rightarrow> 0);
               start = unat (idx * of_nat CHUNK_SIZE);
               chunk = (if start < length data
                        then take (min (start + CHUNK_SIZE) (length data) - start) (drop start data) else []);
               e2e = e2e_from_env C env (Some (px_domain ctx))
           in and_then (case e2e of Some k \<Rightarrow> encrypt C k chunk idx | None \<Rightarrow> Inr chunk) (\<lambda>enc.
                let f = frame_new FileChunk 0 (u32_to_le_bytes (ucast idx) @ enc)
                in Inr (if e2e \<noteq> None then f\<lparr>flags := 0x01\<rparr> else f)))
      | Inl _ \<Rightarrow> from_json S Error 0 (error_msg_of ''0xE020'' ''object not found''))"

partial_function (option) serve_loop ::
  "'p transport \<Rightarrow> serde \<Rightarrow> crates \<Rightarrow> env \<Rightarrow> fs \<Rightarrow> peer_ctx \<Rightarrow> ('p, unit) conv" where
  "serve_loop T S C env F ctx p =
     (case rx T p of
        (RxFrame f, p1) \<Rightarrow>
          (if frame_type f = FileGet then
             (case payload_json (de_file_get S) f of
                Inl e \<Rightarrow> Some (Inl (CNsmt e), p1)
              | Inr g \<Rightarrow>
                 (case peer_answer S C env F ctx g of
                    Inl e \<Rightarrow> Some (Inl (CNsmt e), p1)
                  | Inr c \<Rightarrow>
                     (case c_send T c p1 of
                        None \<Rightarrow> None
                      | Some (Inl e, p2) \<Rightarrow> Some (Inl e, p2)
                      | Some (Inr _, p2) \<Rightarrow> serve_loop T S C env F ctx p2)))
           else serve_loop T S C env F ctx p1)
      | (RxEof, p1) \<Rightarrow> Some (Inr (), p1)
      | (RxErr e, p1) \<Rightarrow> Some (Inl (CNsmt e), p1))"

definition serve_peer ::
  "'p transport \<Rightarrow> serde \<Rightarrow> crates \<Rightarrow> u64 \<Rightarrow> env \<Rightarrow> fs \<Rightarrow> peer_ctx \<Rightarrow> ('p, unit) conv" where
  "serve_peer T S C now env F ctx p =
     (case peer_authenticate T S C now ctx False p of
        None \<Rightarrow> None
      | Some (Inl e, p1) \<Rightarrow> Some (Inr (), p1)
      | Some (Inr _, p1) \<Rightarrow> serve_loop T S C env F ctx p1)"

section \<open>Pulling\<close>

definition hint_of :: "serde \<Rightarrow> frame \<Rightarrow> client_error + string option option" where
  "hint_of S f =
     (if frame_type f = FileChunk then Inr (Some None)
      else if frame_type f = Error then
        (case payload_json (de_error_msg S) f of
           Inl e \<Rightarrow> Inl (CNsmt e)
         | Inr em \<Rightarrow> Inr (Some (strip_prefix ''object not found; peer='' (em_message em))))
      else Inr None)"

definition peer_addr_hint :: "'p transport \<Rightarrow> serde \<Rightarrow> string \<Rightarrow> ('p, string option) conv" where
  "peer_addr_hint T S blob_id =
     c_bind (c_send_json T S FileGet (MFileGet \<lparr>fg_blob_id = blob_id, fg_chunk_index = Some 0\<rparr>)) (\<lambda>_.
     recv_loop T (hint_of S))"

text \<open>
  \<open>dial\<close> stands for parsing the address, the QUIC connection and \<open>open_bi\<close>; it gives the state of
  the other end of a stream \<open>U\<close>.
\<close>

definition fetch_from_peer ::
  "'q transport \<Rightarrow> (string \<Rightarrow> client_error + 'q) \<Rightarrow> serde \<Rightarrow> crates \<Rightarrow> env \<Rightarrow> u64 \<Rightarrow> peer_ctx \<Rightarrow> string \<Rightarrow> string \<Rightarrow>
   (client_error + bytes option) option" where
  "fetch_from_peer U dial S C env now ctx peer_addr blob_id =
     (case dial peer_addr of
        Inl e \<Rightarrow> Some (Inl e)
      | Inr q \<Rightarrow> map_option fst
          (c_bind (peer_authenticate U S C now ctx True) (\<lambda>_.
             client_get_object U S C env blob_id (px_domain ctx)) q))"

definition pull_object_with_peer ::
  "'p transport \<Rightarrow> 'q transport \<Rightarrow> (string \<Rightarrow> client_error + 'q) \<Rightarrow> serde \<Rightarrow> crates \<Rightarrow> env \<Rightarrow> u64 \<Rightarrow> peer_ctx \<Rightarrow>
   file_tree_entry \<Rightarrow> string \<Rightarrow> ('p, bytes option) conv" where
  "pull_object_with_peer T U dial S C env now ctx en fqn =
     c_bind (client_get_object T S C env (fte_blob_id en) (domain_of fqn)) (\<lambda>got.
     case got of
       Some bs \<Rightarrow> c_ret (Some bs)
     | None \<Rightarrow>
         c_bind (peer_addr_hint T S (fte_blob_id en)) (\<lambda>hint.
         case hint of
           None \<Rightarrow> c_ret None
         | Some peer \<Rightarrow>
             (\<lambda>p. case fetch_from_peer U dial S C env now ctx peer (fte_blob_id en) of
                    None \<Rightarrow> None
                  | Some (Inr (Some b)) \<Rightarrow> Some (Inr (Some b), p)
                  | Some _ \<Rightarrow> Some (Inr None, p))))"

section \<open>Lemmas\<close>

lemma sent_peer_decodes:
  "understood S (t, MPeerHello a) \<Longrightarrow> de_peer_hello S (payload (sent S t (MPeerHello a))) = Some a"
  "understood S (t, MPeerAuth b) \<Longrightarrow> de_peer_auth S (payload (sent S t (MPeerAuth b))) = Some b"
  "understood S (t, MPeerAuthOk c) \<Longrightarrow> de_peer_auth_ok S (payload (sent S t (MPeerAuthOk c))) = Some c"
  by (simp_all add: understood_def serde_roundtrip_def) (metis sent_frame(2) option.inject)+

text \<open>A run of the initiator that is asked to sign \<open>n\<close> and then shown the confirmation \<open>g\<close>.\<close>

lemma initiator_run:
  assumes "understood S (PeerHello, hello_msg ctx)" and "understood S (PeerAuth, MPeerAuth \<lparr>pa_nonce = n\<rparr>)"
    and "understood S (PeerAuthOk, auth_ok_msg C ctx n)"
    and "frame_type g = PeerAuthOk" and "de_peer_auth_ok S (payload g) = Some ok"
    and "verify C (public_hex C (px_domain_key ctx)) (as_bytes n) (pok_signature ok)"
  shows "peer_authenticate script_link S C now ctx True
      [Says (sent S PeerHello (hello_msg ctx)), Hears (sent S PeerAuth (MPeerAuth \<lparr>pa_nonce = n\<rparr>)),
       Says (sent S PeerAuthOk (auth_ok_msg C ctx n)), Hears g] =
    Some (Inr (pok_machine_id ok, pok_machine_pubkey ok), [])"
proof -
  note s = script_send [OF understoodD(1) [OF assms(1)]] script_recv [OF sent_json(3) [OF assms(2)]]
    script_send [OF understoodD(1) [OF assms(3)]] script_recv [OF assms(4)]
  have j: "c_json (de_peer_auth S) (sent S PeerAuth (MPeerAuth \<lparr>pa_nonce = n\<rparr>)) p = Some (Inr \<lparr>pa_nonce = n\<rparr>, p)"
    "c_json (de_peer_auth_ok S) g p = Some (Inr ok, p)" for p :: script
    using sent_peer_decodes(2) [OF assms(2)] assms(5) by (simp_all add: c_json_ok)
  show ?thesis
    unfolding peer_authenticate_def peer_initiate_def if_True
    by (simp add: c_bind_def s j assms(6) c_ret_def)
qed

lemma responder_run:
  assumes "understood S (PeerHello, hello_msg actx)" and "px_domain actx = px_domain ctx"
    and "n = peer_nonce now (px_machine_id actx)"
    and "understood S (PeerAuth, MPeerAuth \<lparr>pa_nonce = n\<rparr>)"
    and "frame_type g = PeerAuthOk" and "de_peer_auth_ok S (payload g) = Some ok"
    and "verify C (public_hex C (px_domain_key ctx)) (as_bytes n) (pok_signature ok)"
    and "understood S (PeerAuthOk, auth_ok_msg C ctx n)"
  shows "peer_authenticate script_link S C now ctx False
      [Hears (sent S PeerHello (hello_msg actx)), Says (sent S PeerAuth (MPeerAuth \<lparr>pa_nonce = n\<rparr>)), Hears g,
       Says (sent S PeerAuthOk (auth_ok_msg C ctx n))] =
    Some (Inr (px_machine_id actx, px_machine_pubkey actx), [])"
proof -
  let ?h = "\<lparr>ph_user_domain = px_domain actx, ph_machine_id = px_machine_id actx,
     ph_agent_tag = px_agent_tag actx, ph_machine_pubkey = px_machine_pubkey actx\<rparr>"
  note s = script_recv [OF sent_json(3) [OF assms(1)]] script_send [OF understoodD(1) [OF assms(4)]]
    script_recv [OF assms(5)] script_send [OF understoodD(1) [OF assms(8)]]
  have j: "c_json (de_peer_hello S) (sent S PeerHello (hello_msg actx)) p = Some (Inr ?h, p)"
    "c_json (de_peer_auth_ok S) g p = Some (Inr ok, p)" for p :: script
    using sent_peer_decodes(1) assms(1,6) by (simp_all add: c_json_ok hello_msg_def)
  show ?thesis
    unfolding peer_authenticate_def peer_respond_def if_False Let_def
    by (simp add: c_bind_def s j assms(2,7) assms(3) [symmetric] c_ret_def)
qed

text \<open>
  The other end has signed \<open>n\<close> with the key of the domain: after the turn \<open>x\<close>, in which \<open>n\<close> passes
  between the ends for the first time, a confirmation \<open>ok\<close> with such a signature is heard.
\<close>

definition vouched :: "serde \<Rightarrow> crates \<Rightarrow> peer_ctx \<Rightarrow> string \<Rightarrow> turn \<Rightarrow> peer_auth_ok \<Rightarrow> script \<Rightarrow> bool" where
  "vouched S C ctx n x ok tr \<longleftrightarrow> (\<exists>us vs ws g. tr = us @ x # vs @ Hears g # ws \<and> frame_type g = PeerAuthOk \<and>
     de_peer_auth_ok S (payload g) = Some ok \<and> verify C (public_hex C (px_domain_key ctx)) (as_bytes n) (pok_signature ok))"

lemma c_json_eq_Some: "c_json de f p = Some (Inr x, q) \<longleftrightarrow> de (payload f) = Some x \<and> q = p"
  by (auto simp: c_json_def payload_json_def ok_or_def split: sum.split option.split)

lemma c_bind_eq_Inr: "c_bind m k p = Some (Inr y, q) \<longleftrightarrow> (\<exists>x p'. m p = Some (Inr x, p') \<and> k x p' = Some (Inr y, q))"
  by (auto simp: c_bind_def split: option.splits sum.splits)

lemma initiator_accepts:
  assumes "peer_initiate script_link S C ctx tr = Some (Inr (m, k), tr')"
  shows "\<exists>f auth ok. frame_type f = PeerAuth \<and> de_peer_auth S (payload f) = Some auth \<and>
    vouched S C ctx (pa_nonce auth) (Hears f) ok tr \<and> m = pok_machine_id ok \<and> k = pok_machine_pubkey ok"
proof -
  from assms [unfolded peer_initiate_def c_bind_eq_Inr c_json_eq_Some] obtain u1 u2 t1 t2 t3 t4 f auth g ok where
    1: "c_send_json script_link S PeerHello (hello_msg ctx) tr = Some (Inr u1, t1)" "recv_until script_link PeerAuth t1 = Some (Inr f, t2)"
      "de_peer_auth S (payload f) = Some auth" "c_send_json script_link S PeerAuthOk (auth_ok_msg C ctx (pa_nonce auth)) t2 = Some (Inr u2, t3)"
      "recv_until script_link PeerAuthOk t3 = Some (Inr g, t4)" "de_peer_auth_ok S (payload g) = Some ok" and
    2: "(if \<not> verify C (public_hex C (px_domain_key ctx)) (as_bytes (pa_nonce auth)) (pok_signature ok)
        then c_lift (Inl (CBail ''peer auth failed: bad responder signature'')) else c_ret (pok_machine_id ok, pok_machine_pubkey ok)) t4 =
      Some (Inr (m, k), tr')"
    by blast
  from script_sendD [OF 1(1)] script_recvD [OF 1(2)] script_sendD [OF 1(4)] script_recvD [OF 1(5)] obtain us vs where
    tr: "tr = (Says (sent S PeerHello (hello_msg ctx)) # us) @ Hears f # (Says (sent S PeerAuthOk (auth_ok_msg C ctx (pa_nonce auth))) # vs) @ Hears g # t4"
      and ft: "frame_type f = PeerAuth" "frame_type g = PeerAuthOk" by auto
  have "verify C (public_hex C (px_domain_key ctx)) (as_bytes (pa_nonce auth)) (pok_signature ok)" "m = pok_machine_id ok" "k = pok_machine_pubkey ok"
    using 2 by (auto simp: c_lift_def c_ret_def split: if_splits)
  with 1(3,6) ft tr show ?thesis unfolding vouched_def by blast
qed

lemma responder_accepts:
  assumes "peer_respond script_link S C now ctx tr = Some (Inr (m, k), tr')"
  shows "\<exists>f hello ok n. Hears f \<in> set tr \<and> frame_type f = PeerHello \<and> de_peer_hello S (payload f) = Some hello \<and>
    ph_user_domain hello = px_domain ctx \<and> m = ph_machine_id hello \<and> k = ph_machine_pubkey hello \<and> n = peer_nonce now m \<and>
    vouched S C ctx n (Says (sent S PeerAuth (MPeerAuth \<lparr>pa_nonce = n\<rparr>))) ok tr"
proof -
  from assms [unfolded peer_respond_def c_bind_eq_Inr c_json_eq_Some Let_def] obtain t1 f hello where
    1: "recv_until script_link PeerHello tr = Some (Inr f, t1)" "de_peer_hello S (payload f) = Some hello" and
    2: "(if ph_user_domain hello \<noteq> px_domain ctx
     then c_lift (Inl (CBail (''peer auth failed: domain mismatch ('' @ ph_user_domain hello @ '' != '' @ px_domain ctx @ '')'')))
     else
     c_bind (c_send_json script_link S PeerAuth (MPeerAuth \<lparr>pa_nonce = peer_nonce now (ph_machine_id hello)\<rparr>)) (\<lambda>_.
     c_bind (recv_until script_link PeerAuthOk) (\<lambda>g.
     c_bind (c_json (de_peer_auth_ok S) g) (\<lambda>ok.
     if \<not> verify C (public_hex C (px_domain_key ctx)) (as_bytes (peer_nonce now (ph_machine_id hello))) (pok_signature ok)
     then c_lift (Inl (CBail ''peer auth failed: bad signature''))
     else
     c_bind (c_send_json script_link S PeerAuthOk (auth_ok_msg C ctx (peer_nonce now (ph_machine_id hello)))) (\<lambda>_.
     c_ret (ph_machine_id hello, ph_machine_pubkey hello)))))) t1 = Some (Inr (m, k), tr')"
    by blast
  let ?n = "peer_nonce now (ph_machine_id hello)"
  have dom: "ph_user_domain hello = px_domain ctx" using 2 by (auto simp: c_lift_def split: if_splits)
  from 2 [unfolded dom, simplified, unfolded c_bind_eq_Inr c_json_eq_Some] obtain u t2 t3 g ok where
    3: "c_send_json script_link S PeerAuth (MPeerAuth \<lparr>pa_nonce = ?n\<rparr>) t1 = Some (Inr u, t2)" "recv_until script_link PeerAuthOk t2 = Some (Inr g, t3)"
      "de_peer_auth_ok S (payload g) = Some ok" and
    5: "(if verify C (public_hex C (px_domain_key ctx)) (as_bytes ?n) (pok_signature ok)
     then c_bind (c_send_json script_link S PeerAuthOk (auth_ok_msg C ctx ?n)) (\<lambda>_. c_ret (ph_machine_id hello, ph_machine_pubkey hello))
     else c_lift (Inl (CBail ''peer auth failed: bad signature''))) t3 = Some (Inr (m, k), tr')"
    by (auto split: if_splits)
  have 4: "verify C (public_hex C (px_domain_key ctx)) (as_bytes ?n) (pok_signature ok)" "m = ph_machine_id hello" "k = ph_machine_pubkey hello"
    using 5 by (auto simp: c_lift_def c_bind_eq_Inr c_ret_def split: if_splits)
  from script_recvD [OF 1(1)] script_sendD [OF 3(1)] script_recvD [OF 3(2)] obtain us vs where
    tr: "tr = (us @ [Hears f]) @ Says (sent S PeerAuth (MPeerAuth \<lparr>pa_nonce = ?n\<rparr>)) # vs @ Hears g # t3"
      and ft: "frame_type f = PeerHello" "frame_type g = PeerAuthOk" by auto
  have "Hears f \<in> set tr" by (simp add: tr)
  with 1(2) dom 3(3) 4 ft tr show ?thesis unfolding vouched_def by blast
qed

section \<open>Properties\<close>

text \<open>
  C33: two peers of one domain authenticate each other, and nobody else passes.  There is a course of
  the conversation, in which every frame is heard after it was said, that both ends follow to its end:
  neither waits for the other while it is its turn, and each learns the machine id and key that the
  other one has announced.  And whatever an end hears, it accepts only after it has heard a signature
  that verifies under the key of the domain on the nonce of this conversation: the responder on the
  nonce that it has chosen and said before, from somebody who named the domain, the initiator on the
  nonce that it was asked to sign.
\<close>

theorem peers_authenticate:
  assumes "hex_law C" and "ed25519_law C"
    and "px_domain a = px_domain b" and "px_domain_key a = from_signing C sk" and "px_domain_key b = from_signing C sk"
    and "n = peer_nonce now (px_machine_id a)"
    and "\<forall>tm \<in> {(PeerHello, hello_msg a), (PeerAuth, MPeerAuth \<lparr>pa_nonce = n\<rparr>), (PeerAuthOk, auth_ok_msg C a n),
      (PeerAuthOk, auth_ok_msg C b n)}. understood S tm"
  shows "(\<exists>tr. peer_authenticate script_link S C now' a True tr = Some (Inr (px_machine_id b, px_machine_pubkey b), []) \<and>
      peer_authenticate script_link S C now b False (map swap_turn tr) = Some (Inr (px_machine_id a, px_machine_pubkey a), [])) \<and>
    (\<forall>tr tr' m k. peer_authenticate script_link S C now b False tr = Some (Inr (m, k), tr') \<longrightarrow>
      (\<exists>f hello ok. Hears f \<in> set tr \<and> de_peer_hello S (payload f) = Some hello \<and> ph_user_domain hello = px_domain b \<and>
        m = ph_machine_id hello \<and> k = ph_machine_pubkey hello \<and>
        vouched S C b (peer_nonce now m) (Says (sent S PeerAuth (MPeerAuth \<lparr>pa_nonce = peer_nonce now m\<rparr>))) ok tr)) \<and>
    (\<forall>tr tr' m k. peer_authenticate script_link S C now' a True tr = Some (Inr (m, k), tr') \<longrightarrow>
      (\<exists>f auth ok. de_peer_auth S (payload f) = Some auth \<and> vouched S C a (pa_nonce auth) (Hears f) ok tr \<and>
        m = pok_machine_id ok \<and> k = pok_machine_pubkey ok))"
proof (intro conjI allI impI)
  note v = sign_verify_any [OF assms(1,2), of sk]
  have u: "understood S (PeerHello, hello_msg a)" "understood S (PeerAuth, MPeerAuth \<lparr>pa_nonce = n\<rparr>)"
    "understood S (PeerAuthOk, auth_ok_msg C a n)" "understood S (PeerAuthOk, auth_ok_msg C b n)"
    using assms(7) by simp_all
  have "de_peer_auth_ok S (payload (sent S PeerAuthOk (auth_ok_msg C x n))) = Some \<lparr>pok_machine_id = px_machine_id x,
      pok_agent_tag = px_agent_tag x, pok_machine_pubkey = px_machine_pubkey x,
      pok_signature = sign C (px_domain_key x) (as_bytes n)\<rparr>" if "understood S (PeerAuthOk, auth_ok_msg C x n)" for x
    using sent_peer_decodes(3) that unfolding auth_ok_msg_def by blast
  note d = this [OF u(4)] this [OF u(3)]
  from initiator_run [OF u(1-3) sent_json(3) [OF u(4)] d(1), of now'] responder_run [OF u(1) assms(3,6) u(2) sent_json(3) [OF u(3)] d(2) _ u(4)]
    v assms(4,5)
  show "\<exists>tr. peer_authenticate script_link S C now' a True tr = Some (Inr (px_machine_id b, px_machine_pubkey b), []) \<and>
      peer_authenticate script_link S C now b False (map swap_turn tr) = Some (Inr (px_machine_id a, px_machine_pubkey a), [])"
    by (intro exI conjI) (simp, simp)
next
  fix tr tr' m k assume "peer_authenticate script_link S C now b False tr = Some (Inr (m, k), tr')"
  then show "\<exists>f hello ok. Hears f \<in> set tr \<and> de_peer_hello S (payload f) = Some hello \<and> ph_user_domain hello = px_domain b \<and>
        m = ph_machine_id hello \<and> k = ph_machine_pubkey hello \<and>
        vouched S C b (peer_nonce now m) (Says (sent S PeerAuth (MPeerAuth \<lparr>pa_nonce = peer_nonce now m\<rparr>))) ok tr"
    using responder_accepts [of S C now b tr m k tr'] by (auto simp: peer_authenticate_def)
next
  fix tr tr' m k assume "peer_authenticate script_link S C now' a True tr = Some (Inr (m, k), tr')"
  then show "\<exists>f auth ok. de_peer_auth S (payload f) = Some auth \<and> vouched S C a (pa_nonce auth) (Hears f) ok tr \<and>
        m = pok_machine_id ok \<and> k = pok_machine_pubkey ok"
    using initiator_accepts [of S C a tr m k tr'] by (auto simp: peer_authenticate_def)
qed

text \<open>Two peers of the sample installation and a serialiser for their messages.\<close>

definition sample_peer :: "string \<Rightarrow> peer_ctx" where
  "sample_peer machine = \<lparr>px_domain = ''d'', px_machine_id = machine, px_agent_tag = ''t'', px_machine_pubkey = ''pk-'' @ machine,
     px_machine_key = generate sample_crates [5], px_domain_key = from_signing sample_crates [3]\<rparr>"

definition peer_serde :: "string \<Rightarrow> peer_auth_ok list \<Rightarrow> serde" where
  "peer_serde n oks = no_serde\<lparr>
     to_vec := (\<lambda>m. case m of MPeerAuthOk c \<Rightarrow> Some [of_nat (length (takeWhile (\<lambda>x. x \<noteq> c) oks))] | _ \<Rightarrow> Some []),
     de_peer_hello := (\<lambda>_. Some \<lparr>ph_user_domain = ''d'', ph_machine_id = ''m'', ph_agent_tag = ''t'', ph_machine_pubkey = ''pk-m''\<rparr>),
     de_peer_auth := (\<lambda>_. Some \<lparr>pa_nonce = n\<rparr>),
     de_peer_auth_ok := (\<lambda>b. Some (oks ! unat (hd b)))\<rparr>"

lemma peer_sendable: "sendable (peer_serde n oks) t m"
proof -
  obtain b where b: "to_vec (peer_serde n oks) m = Some b" "length b \<le> 8"
    by (cases m) (simp_all add: peer_serde_def)
  then have "from_json (peer_serde n oks) t 0 m = Inr (frame_new t 0 b)" by (simp add: frame_new_def)
  with b(2) show ?thesis by (simp add: sendable_def encode_def frame_new_def del: from_json_payload)
qed

lemma peer_serde_oks:
  assumes "c \<in> {x, y}"
  shows "understood (peer_serde n [x, y]) (PeerAuthOk, MPeerAuthOk c)"
  using assms by (auto simp: understood_def peer_sendable) (auto simp: serde_roundtrip_def peer_serde_def)

lemma peer_serde_understood:
  "understood (peer_serde n oks) (PeerHello, hello_msg (sample_peer ''m''))"
  "understood (peer_serde n oks) (PeerAuth, MPeerAuth \<lparr>pa_nonce = n\<rparr>)"
  by (simp_all add: understood_def peer_sendable) (simp_all add: serde_roundtrip_def peer_serde_def hello_msg_def sample_peer_def)

definition ok_of :: "msg \<Rightarrow> peer_auth_ok" where
  "ok_of m = (case m of MPeerAuthOk c \<Rightarrow> c)"

lemma ok_of_auth [simp]: "MPeerAuthOk (ok_of (auth_ok_msg C ctx n)) = auth_ok_msg C ctx n"
  by (simp add: ok_of_def auth_ok_msg_def)

theorem peers_authenticate_witness:
  "\<exists>S tr. peer_authenticate script_link S sample_crates 9 (sample_peer ''m'') True tr = Some (Inr (''k'', ''pk-k''), []) \<and>
    peer_authenticate script_link S sample_crates 7 (sample_peer ''k'') False (map swap_turn tr) = Some (Inr (''m'', ''pk-m''), []) \<and>
    (\<exists>ok. vouched S sample_crates (sample_peer ''k'') (peer_nonce 7 ''m'') (Says (sent S PeerAuth (MPeerAuth \<lparr>pa_nonce = peer_nonce 7 ''m''\<rparr>))) ok (map swap_turn tr))"
proof -
  let ?a = "sample_peer ''m''" and ?b = "sample_peer ''k''" and ?C = sample_crates and ?n = "peer_nonce 7 ''m''"
  let ?oks = "[ok_of (auth_ok_msg ?C ?a ?n), ok_of (auth_ok_msg ?C ?b ?n)]"
  have f: "px_domain ?a = px_domain ?b" "px_domain_key ?a = from_signing ?C [3]" "px_domain_key ?b = from_signing ?C [3]"
    "?n = peer_nonce 7 (px_machine_id ?a)"
    by (simp_all add: sample_peer_def)
  have "understood (peer_serde ?n ?oks) (PeerAuthOk, auth_ok_msg ?C x ?n)" if "x \<in> {?a, ?b}" for x
    using peer_serde_oks [of "ok_of (auth_ok_msg ?C x ?n)" "ok_of (auth_ok_msg ?C ?a ?n)" "ok_of (auth_ok_msg ?C ?b ?n)" ?n] that
    by auto
  then have "\<forall>tm \<in> {(PeerHello, hello_msg ?a), (PeerAuth, MPeerAuth \<lparr>pa_nonce = ?n\<rparr>), (PeerAuthOk, auth_ok_msg ?C ?a ?n),
      (PeerAuthOk, auth_ok_msg ?C ?b ?n)}. understood (peer_serde ?n ?oks) tm"
    using peer_serde_understood by simp
  note p = peers_authenticate [OF sample_crates_laws(1,2) f this, of 9]
  then obtain tr where tr: "peer_authenticate script_link (peer_serde ?n ?oks) ?C 9 ?a True tr = Some (Inr (''k'', ''pk-k''), [])"
    "peer_authenticate script_link (peer_serde ?n ?oks) ?C 7 ?b False (map swap_turn tr) = Some (Inr (''m'', ''pk-m''), [])"
    by (auto simp: sample_peer_def)
  with p obtain ok where "vouched (peer_serde ?n ?oks) ?C ?b ?n (Says (sent (peer_serde ?n ?oks) PeerAuth (MPeerAuth \<lparr>pa_nonce = ?n\<rparr>))) ok (map swap_turn tr)"
    by blast
  with tr show ?thesis by blast
qed

text \<open>
  C34: the initiator is an oracle for signatures of the domain key.  Before it has heard anything but
  a nonce \<open>n\<close>, which the other end is free to choose, it says a signature \<open>sig\<close> of \<open>n\<close>.  So an impostor
  without any key that asks for \<open>n\<close>, waits for this frame and only then sends \<open>sig\<close> back passes as a
  member of the domain, under any machine id and key it likes; and the server accepts \<open>sig\<close> as the
  authentication of the domain when \<open>n\<close> is the nonce of a connection of the impostor.  The turns of the
  script are in the order of time: the initiator signs before the impostor has shown anything.
\<close>

theorem peer_signing_oracle:
  assumes "hex_law C" and "ed25519_law C" and "px_domain_key ctx = from_signing C sk"
    and "understood S (PeerHello, hello_msg ctx)" and "understood S (PeerAuth, MPeerAuth \<lparr>pa_nonce = n\<rparr>)"
    and "understood S (PeerAuthOk, auth_ok_msg C ctx n)"
    and "understood S (PeerAuthOk, MPeerAuthOk (ok_of (auth_ok_msg C ctx n)\<lparr>pok_machine_id := mid, pok_machine_pubkey := pk\<rparr>))"
    and "hm_get g (px_domain ctx) = Some t" and "tr_domain_pubkey t = public_hex C (px_domain_key ctx)"
  shows "\<exists>stolen. auth_ok_msg C ctx n = MPeerAuthOk stolen \<and>
    peer_authenticate script_link S C now ctx True
      [Says (sent S PeerHello (hello_msg ctx)), Hears (sent S PeerAuth (MPeerAuth \<lparr>pa_nonce = n\<rparr>)),
       Says (sent S PeerAuthOk (MPeerAuthOk stolen)),
       Hears (sent S PeerAuthOk (MPeerAuthOk (stolen\<lparr>pok_machine_id := mid, pok_machine_pubkey := pk\<rparr>)))] = Some (Inr (mid, pk), []) \<and>
    verify_auth C (px_domain ctx) n (pok_signature stolen) g = Inr ()"
proof -
  let ?st = "ok_of (auth_ok_msg C ctx n)"
  have sg: "pok_signature ?st = sign C (px_domain_key ctx) (as_bytes n)" by (simp add: ok_of_def auth_ok_msg_def)
  then have v: "verify C (public_hex C (px_domain_key ctx)) (as_bytes n) (pok_signature ?st)"
    using sign_verify_any [OF assms(1,2)] assms(3) by simp
  note d = sent_peer_decodes(3) [OF assms(7)]
  from initiator_run [OF assms(4-6) sent_json(3) [OF assms(7)] d, of now] v have
    "peer_authenticate script_link S C now ctx True
      [Says (sent S PeerHello (hello_msg ctx)), Hears (sent S PeerAuth (MPeerAuth \<lparr>pa_nonce = n\<rparr>)),
       Says (sent S PeerAuthOk (auth_ok_msg C ctx n)),
       Hears (sent S PeerAuthOk (MPeerAuthOk (?st\<lparr>pok_machine_id := mid, pok_machine_pubkey := pk\<rparr>)))] = Some (Inr (mid, pk), [])"
    by simp
  moreover have "verify_auth C (px_domain ctx) n (pok_signature ?st) g = Inr ()" using v assms(8,9) by (simp add: verify_auth_def)
  ultimately show ?thesis by (intro exI [of _ ?st]) simp
qed

theorem peer_signing_oracle_witness:
  "\<exists>S stolen. auth_ok_msg sample_crates (sample_peer ''m'') (nonce 0 ''id'') = MPeerAuthOk stolen \<and>
    (\<exists>hello ask back. peer_authenticate script_link S sample_crates 0 (sample_peer ''m'') True
        [Says hello, Hears ask, Says (sent S PeerAuthOk (MPeerAuthOk stolen)), Hears back] = Some (Inr (''evil'', ''none''), [])) \<and>
    verify_auth sample_crates ''d'' (nonce 0 ''id'') (pok_signature stolen) (wd_tenants sample_world) = Inr ()"
proof -
  let ?a = "sample_peer ''m''" and ?C = sample_crates and ?n = "nonce 0 ''id''"
  let ?st = "ok_of (auth_ok_msg ?C ?a ?n)"
  let ?ev = "?st\<lparr>pok_machine_id := ''evil'', pok_machine_pubkey := ''none''\<rparr>"
  note u = peer_serde_oks [of _ ?st ?ev ?n]
  have f: "px_domain_key ?a = from_signing ?C [3]" "px_domain ?a = ''d''" by (simp_all add: sample_peer_def)
  have t: "hm_get (wd_tenants sample_world) (px_domain ?a) = Some (tenant_record_default\<lparr>tr_domain_pubkey := public_hex ?C (px_domain_key ?a)\<rparr>)"
    by (simp add: f sample_world_def set_domain_pubkey_def generate_def hm.get_empty)
  have a: "understood (peer_serde ?n [?st, ?ev]) (PeerAuthOk, auth_ok_msg ?C ?a ?n)" using u [of ?st] by simp
  have b: "understood (peer_serde ?n [?st, ?ev]) (PeerAuthOk, MPeerAuthOk ?ev)" using u [of ?ev] by simp
  from peer_signing_oracle [OF sample_crates_laws(1,2) f(1) peer_serde_understood a b t, of 0]
  show ?thesis unfolding f(2) by (simp del: split_paired_Ex) blast
qed

end
