(* ===== verification/Directories.thy ===== *)
theory Directories
  imports File_System
begin

text \<open>
  Listing of directories (\<open>std::fs::read_dir\<close>), and the well-formed file systems: every entry
  has a proper name and stands in a directory.  All calls of the model keep them well formed.
\<close>

section \<open>Directories\<close>

text \<open>\<open>read_dir\<close> gives the names in a directory, in an order that nothing relies on.\<close>

definition children :: "fs \<Rightarrow> string list \<Rightarrow> string list" where
  "children F cs = map last (filter (\<lambda>q. q \<noteq> [] \<and> butlast q = cs) (hm_keys (nodes F)))"

definition fs_read_dir :: "fs \<Rightarrow> path \<Rightarrow> io_error + string list" where
  "fs_read_dir F p = and_then (resolve F p) (\<lambda>cs.
     (case node_at F cs of
        None \<Rightarrow> Inl NotFound
      | Some (File _) \<Rightarrow> Inl NotADirectory
      | Some Dir \<Rightarrow> Inr (children F cs)))"

definition fs_is_dir :: "fs \<Rightarrow> path \<Rightarrow> bool" where
  "fs_is_dir F p = (case resolve F p of Inl _ \<Rightarrow> False | Inr cs \<Rightarrow> node_at F cs = Some Dir)"

definition fs_is_file :: "fs \<Rightarrow> path \<Rightarrow> bool" where
  "fs_is_file F p = (case resolve F p of Inl _ \<Rightarrow> False | Inr cs \<Rightarrow> \<exists>b. node_at F cs = Some (File b))"

section \<open>Well-formed file systems\<close>

definition fs_ok :: "fs \<Rightarrow> bool" where
  "fs_ok F \<longleftrightarrow> hm_ok (nodes F) \<and> node_at F (cwd F) = Some Dir \<and>
     (\<forall>q \<in> set (hm_keys (nodes F)). q \<noteq> [] \<and> simple_name (last q) \<and> node_at F (butlast q) = Some Dir)"

text \<open>A place for an entry: a proper name in a directory.\<close>

definition placed :: "fs \<Rightarrow> string list \<Rightarrow> bool" where
  "placed F q \<longleftrightarrow> q = [] \<or> simple_name (last q) \<and> node_at F (butlast q) = Some Dir"

lemma fs_ok_iff: "fs_ok F \<longleftrightarrow> hm_ok (nodes F) \<and> node_at F (cwd F) = Some Dir \<and> hm_get (nodes F) [] = None \<and>
    (\<forall>q. node_at F q \<noteq> None \<longrightarrow> placed F q)"
proof -
  have "(\<forall>q \<in> set (hm_keys (nodes F)). q \<noteq> [] \<and> simple_name (last q) \<and> node_at F (butlast q) = Some Dir) \<longleftrightarrow>
      hm_get (nodes F) [] = None \<and> (\<forall>q. node_at F q \<noteq> None \<longrightarrow> placed F q)" (is "?l \<longleftrightarrow> ?r")
  proof
    assume l: ?l
    then have "hm_get (nodes F) [] = None" unfolding Ball_def hm_keys_iff by (metis option.distinct(1))
    moreover have "placed F q" if "node_at F q \<noteq> None" for q
      using l that unfolding Ball_def hm_keys_iff placed_def by (cases "q = []") (auto simp: node_at_def)
    ultimately show ?r by blast
  next
    assume r: ?r
    show ?l
    proof
      fix q
      assume "q \<in> set (hm_keys (nodes F))"
      then have "q \<noteq> []" "node_at F q \<noteq> None" using r by (auto simp: hm_keys_iff node_at_def)
      with r show "q \<noteq> [] \<and> simple_name (last q) \<and> node_at F (butlast q) = Some Dir" by (auto simp: placed_def)
    qed
  qed
  then show ?thesis unfolding fs_ok_def by simp
qed

lemma placed_kept: "placed F q \<Longrightarrow> dirs_kept F F' \<Longrightarrow> placed F' q"
  by (auto simp: placed_def dirs_kept_def)

lemma fs_ok_set_node:
  assumes "fs_ok F" and "placed F q" and "q \<noteq> []" and "node_at F q \<noteq> Some Dir \<or> n = Dir"
  shows "fs_ok (set_node q n F)"
proof -
  have k: "dirs_kept F (set_node q n F)" using assms(3,4) by (auto simp: dirs_kept_def)
  have "placed (set_node q n F) r" if "node_at (set_node q n F) r \<noteq> None" for r
  proof -
    have "placed F r" using that assms by (auto simp: fs_ok_iff split: if_splits)
    then show ?thesis using k by (rule placed_kept)
  qed
  moreover have "node_at (set_node q n F) (cwd F) = Some Dir" using assms(1) k by (auto simp: fs_ok_iff dirs_kept_def)
  moreover have "hm_get (nodes (set_node q n F)) [] = None" using assms(1,3) by (simp add: fs_ok_iff set_node_def)
  moreover have "hm_ok (nodes (set_node q n F))" using assms(1) by (simp add: fs_ok_iff set_node_def)
  ultimately show ?thesis by (simp add: fs_ok_iff)
qed

lemma fs_ok_remove:
  assumes "fs_ok F" and "node_at F q = Some (File b)"
  shows "fs_ok (F\<lparr>nodes := hm_remove q (nodes F)\<rparr>)"
proof -
  have q: "q \<noteq> []" using assms(2) by auto
  have k: "dirs_kept F (F\<lparr>nodes := hm_remove q (nodes F)\<rparr>)" using assms(2) by (simp add: dirs_kept_remove_File)
  have "placed (F\<lparr>nodes := hm_remove q (nodes F)\<rparr>) r" if "node_at (F\<lparr>nodes := hm_remove q (nodes F)\<rparr>) r \<noteq> None" for r
    using that q assms(1) placed_kept [OF _ k] by (auto simp: fs_ok_iff split: if_splits)
  then show ?thesis using assms(1) k q by (auto simp: fs_ok_iff dirs_kept_def)
qed

section \<open>Where a path leads\<close>

definition comp_ok :: "string \<Rightarrow> bool" where
  "comp_ok c \<longleftrightarrow> CHR ''/'' \<notin> set c \<and> CHR 0x00 \<notin> set c"

lemma split_char_comps: "CHR 0x00 \<notin> set p \<Longrightarrow> list_all comp_ok (split_char CHR ''/'' p)"
  by (induction p) (auto simp: comp_ok_def split: list.splits)

lemma placed_step:
  assumes "fs_ok F" and "node_at F cur = Some Dir" and "comp_ok c"
  shows "placed F (step_to cur c)"
proof -
  have up: "placed F cur" "placed F (butlast cur)"
    using assms(1,2) by (auto simp: fs_ok_iff) (metis butlast.simps(1) option.distinct(1) placed_def)
  show ?thesis using up assms(2,3) by (auto simp: step_to_def placed_def comp_ok_def simple_name_def)
qed

lemma walk_placed:
  assumes "fs_ok F" and "walk F cur cs = Inr ds" and "placed F cur" and "list_all comp_ok cs"
  shows "placed F ds"
  using assms(2-4)
proof (induction cs arbitrary: cur)
  case (Cons c cs)
  then have "node_at F cur = Some Dir" "walk F (step_to cur c) cs = Inr ds" by (simp_all only: walk_Cons)
  with Cons.IH placed_step [OF assms(1)] Cons.prems show ?case by simp
qed simp

lemma start_placed: "fs_ok F \<Longrightarrow> placed F (start_of F p)"
  by (auto simp: start_of_def fs_ok_iff placed_def)

lemma resolve_placed: "fs_ok F \<Longrightarrow> resolve F p = Inr cs \<Longrightarrow> placed F cs"
  using walk_placed start_placed split_char_comps by (auto simp: resolve_def split: if_splits)

section \<open>The calls keep the file system well formed\<close>

lemma fs_write_ok: "fs_ok F \<Longrightarrow> fs_write p bs F = Inr F' \<Longrightarrow> fs_ok F'"
  using fs_write_InrD [of p bs F F'] fs_ok_set_node resolve_placed by (metis node_at_root)

lemma fs_write_at_InrD:
  assumes "fs_write_at p off d F = Inr F'"
  shows "\<exists>cs b. resolve F p = Inr cs \<and> node_at F cs \<noteq> Some Dir \<and> F' = set_node cs (File b) F"
proof -
  from assms obtain cs where cs: "resolve F p = Inr cs" by (auto simp: fs_write_at_def and_then_eq_Inr)
  with assms show ?thesis
    by (cases "node_at F cs"; cases "the (node_at F cs)") (auto simp: fs_write_at_def and_then_eq_Inr)
qed

lemma fs_write_at_ok: "fs_ok F \<Longrightarrow> fs_write_at p off d F = Inr F' \<Longrightarrow> fs_ok F'"
  using fs_write_at_InrD [of p off d F F'] fs_ok_set_node resolve_placed by (metis node_at_root)

lemma fs_remove_file_ok: "fs_ok F \<Longrightarrow> fs_remove_file p F = Inr F' \<Longrightarrow> fs_ok F'"
  using fs_remove_file_InrD [of p F F'] fs_ok_remove by blast

lemma fs_rename_file_ok:
  assumes "fs_ok F" and "fs_rename_file p q F = Inr F'"
  shows "fs_ok F'"
proof -
  from assms(2) obtain cs ds where r: "resolve F p = Inr cs" "resolve F q = Inr ds"
    by (auto simp: fs_rename_file_def and_then_eq_Inr)
  from assms(2) obtain b where b: "node_at F cs = Some (File b)"
    by (cases "node_at F cs"; cases "the (node_at F cs)") (auto simp: fs_rename_file_def r)
  then have d: "node_at F ds \<noteq> Some Dir" "F' = set_node ds (File b) (F\<lparr>nodes := hm_remove cs (nodes F)\<rparr>)"
    using assms(2) by (cases "node_at F ds"; cases "the (node_at F ds)"; auto simp: fs_rename_file_def r and_then_eq_Inr)+
  let ?G = "F\<lparr>nodes := hm_remove cs (nodes F)\<rparr>"
  have "cs \<noteq> []" "ds \<noteq> []" using b d(1) by auto
  moreover have "placed ?G ds"
    using resolve_placed [OF assms(1) r(2)] dirs_kept_remove_File [of F cs] b placed_kept by auto
  ultimately show ?thesis
    using fs_ok_set_node [OF fs_ok_remove [OF assms(1) b], of ds "File b"] d by auto
qed

lemma mkdirs_ok:
  assumes "fs_ok F" and "placed F cur" and "list_all comp_ok cs" and "mkdirs cur cs F = Inr F'"
  shows "fs_ok F'"
  using assms
proof (induction cs arbitrary: cur F)
  case Nil
  then show ?case by (cases "cur = []") (auto simp: mkdirs_Nil ensure_dir_def fs_ok_set_node simp del: mkdirs.simps)
next
  case (Cons c cs)
  let ?G = "ensure_dir cur F"
  have m: "mkdirs (step_to cur c) cs ?G = Inr F'" and n: "node_at F cur \<in> {None, Some Dir}"
    using Cons.prems(4) by (simp_all only: mkdirs_Cons)
  have G: "fs_ok ?G" using Cons.prems(1,2) by (cases "cur = []") (auto simp: ensure_dir_def fs_ok_set_node)
  have "node_at ?G cur = Some Dir" using n by (auto simp: node_at_ensure_dir)
  with placed_step [OF G] Cons.prems(3) have "placed ?G (step_to cur c)" by simp
  from Cons.IH [OF G this _ m] Cons.prems(3) show ?case by simp
qed

lemma fs_create_dir_all_ok: "fs_ok F \<Longrightarrow> fs_create_dir_all p F = Inr F' \<Longrightarrow> fs_ok F'"
  using mkdirs_ok [of F "start_of F p" "split_char CHR ''/'' p" F'] start_placed split_char_comps
  by (simp add: fs_create_dir_all_def split: if_splits)

lemmas fs_calls_ok = fs_write_ok fs_write_at_ok fs_remove_file_ok fs_rename_file_ok fs_create_dir_all_ok

end
