(* ===== verification/Dir_Scan.thy ===== *)
theory Dir_Scan
  imports Directories "HOL-Library.Multiset"
begin

text \<open>
  Recursive scans of a directory.  The sources walk directories by recursion over path strings and
  \<open>read_dir\<close>; the locale \<open>dir_scan\<close> states what one turn of such a loop does with a file and with
  a directory, and shows once for all of them that the recursion ends on a finite file system and
  visits each file below the directory exactly once.
\<close>

section \<open>Paths below a directory\<close>

definition path_at :: "path \<Rightarrow> string list \<Rightarrow> path" where
  "path_at root rel = foldl join root rel"

fun slash_join :: "string list \<Rightarrow> string" where
  "slash_join [] = []"
| "slash_join [a] = a"
| "slash_join (a # b # r) = a @ ''/'' @ slash_join (b # r)"

lemma path_at_snoc [simp]: "path_at root (rel @ [n]) = join (path_at root rel) n"
  by (simp add: path_at_def)

lemma path_at_Nil [simp]: "path_at root [] = root"
  by (simp add: path_at_def)

lemma slash_join_snoc: "rel \<noteq> [] \<Longrightarrow> slash_join (rel @ [n]) = slash_join rel @ ''/'' @ n"
  by (induction rel rule: slash_join.induct) (auto simp: neq_Nil_conv)

lemma slash_join_ends:
  assumes "rel \<noteq> []" and "list_all simple_name rel"
  shows "slash_join rel \<noteq> []" "hd (slash_join rel) \<noteq> CHR ''/''" "last (slash_join rel) \<noteq> CHR ''/''"
proof -
  have n: "n \<noteq> []" "hd n \<noteq> CHR ''/''" "last n \<noteq> CHR ''/''" if "simple_name n" for n
    using that unfolding simple_name_def by (metis hd_in_set last_in_set)+
  show "slash_join rel \<noteq> []" "hd (slash_join rel) \<noteq> CHR ''/''" "last (slash_join rel) \<noteq> CHR ''/''"
    using assms n by (induction rel rule: slash_join.induct) simp_all
qed

lemma join_simple: "simple_name n \<Longrightarrow> join p n = p @ (if p = [] \<or> suffix ''/'' p then [] else ''/'') @ n"
  by (auto simp: join_def simple_name_def prefix_def)

lemma path_at_text:
  assumes "list_all simple_name rel" and "rel \<noteq> []"
  shows "path_at root rel = root @ (if root = [] \<or> suffix ''/'' root then [] else ''/'') @ slash_join rel"
  using assms
proof (induction rel rule: rev_induct)
  case (snoc n rel)
  show ?case
  proof (cases "rel = []")
    case True
    then show ?thesis using snoc.prems join_simple by (simp add: path_at_def)
  next
    case False
    then have t: "path_at root rel = root @ (if root = [] \<or> suffix ''/'' root then [] else ''/'') @ slash_join rel"
      and e: "slash_join rel \<noteq> []" "last (slash_join rel) \<noteq> CHR ''/''"
      using snoc slash_join_ends by auto
    have "path_at root rel \<noteq> []" "\<not> suffix ''/'' (path_at root rel)"
      using e by (auto simp: t suffix_to_prefix prefix_def hd_rev [symmetric]) (metis hd_append2 list.sel(1) rev_is_Nil_conv hd_rev)+
    then show ?thesis using snoc.prems by (simp add: join_simple slash_join_snoc [OF False] t)
  qed
qed simp

text \<open>\<open>Path::strip_prefix\<close> for a path that was made from \<open>root\<close> by joins.\<close>

definition path_strip_prefix :: "path \<Rightarrow> path \<Rightarrow> string option" where
  "path_strip_prefix root p = map_option (trim_start_matches CHR ''/'') (strip_prefix root p)"

lemma strip_prefix_at:
  assumes "list_all simple_name rel" and "rel \<noteq> []"
  shows "path_strip_prefix root (path_at root rel) = Some (slash_join rel)"
proof -
  have "dropWhile (\<lambda>c. c = CHR ''/'') (slash_join rel) = slash_join rel"
    using slash_join_ends [OF assms(2,1)] by (cases "slash_join rel") simp_all
  then have "trim_start_matches CHR ''/'' (sep @ slash_join rel) = slash_join rel" if "sep \<in> {[], ''/''}" for sep
    using that by (auto simp: trim_start_matches_def)
  then show ?thesis by (simp add: path_strip_prefix_def path_at_text [OF assms] strip_prefix_def)
qed

lemma descend:
  assumes "fs_ok F" and "node_at F (cs @ rel) \<noteq> None"
  shows "list_all simple_name rel" "rel \<noteq> [] \<Longrightarrow> node_at F cs = Some Dir"
proof -
  have "list_all simple_name rel \<and> (rel \<noteq> [] \<longrightarrow> node_at F cs = Some Dir)"
    using assms(2)
  proof (induction rel rule: rev_induct)
    case (snoc n rel)
    then have "simple_name n" "node_at F (cs @ rel) = Some Dir"
      using assms(1) by (auto simp: fs_ok_iff placed_def butlast_append dest: spec [of _ "cs @ rel @ [n]"])
    with snoc.IH show ?case by (cases "rel = []") auto
  qed simp
  then show "list_all simple_name rel" "rel \<noteq> [] \<Longrightarrow> node_at F cs = Some Dir" by simp_all
qed

lemma resolve_at:
  assumes "fs_ok F" and "resolve F root = Inr rcs" and "node_at F (rcs @ rel) \<noteq> None"
  shows "resolve F (path_at root rel) = Inr (rcs @ rel)"
  using assms(3)
proof (induction rel rule: rev_induct)
  case (snoc n rel)
  then have d: "simple_name n" "node_at F (rcs @ rel) = Some Dir"
    using descend [OF assms(1), of "rcs @ rel" "[n]"] by simp_all
  with snoc.IH have "resolve F (path_at root rel) = Inr (rcs @ rel)" by simp
  from resolve_join [OF this d(2,1)] show ?case by simp
qed (simp add: assms(2))

section \<open>Files below a directory\<close>

definition contents :: "node \<Rightarrow> bytes" where
  "contents n = (case n of File b \<Rightarrow> b | Dir \<Rightarrow> [])"

lemma mset_filter_or:
  "(\<And>x. x \<in> set xs \<Longrightarrow> \<not> (A x \<and> B x)) \<Longrightarrow> mset (filter (\<lambda>x. A x \<or> B x) xs) = mset (filter A xs) + mset (filter B xs)"
  by (induction xs) auto

lemma filter_the: "distinct xs \<Longrightarrow> x \<in> set xs \<Longrightarrow> filter (\<lambda>y. y = x) xs = [x]"
  by (induction xs) (auto simp: filter_empty_conv)

lemma entry_node: "fs_ok F \<Longrightarrow> (q, n) \<in> set (nodes F) \<longleftrightarrow> q \<noteq> [] \<and> node_at F q = Some n"
  using hm.entries_get [of "nodes F" q n] by (auto simp: fs_ok_iff node_at_def)

lemma children_iff: "fs_ok F \<Longrightarrow> m \<in> set (children F cs) \<longleftrightarrow> node_at F (cs @ [m]) \<noteq> None"
  unfolding children_def set_map set_filter hm_keys_iff
  by (auto simp: node_at_def image_def append_butlast_last_id intro!: exI [of _ "cs @ [m]"])

lemma children_distinct: "fs_ok F \<Longrightarrow> distinct (children F cs)"
  unfolding children_def fs_ok_def hm_ok_def
  by (auto simp: distinct_map hm_keys_def inj_on_def) (metis append_butlast_last_id)

lemma below_child:
  assumes "fs_ok F" and "(q, File b) \<in> set (nodes F)" and "node_at F cs = Some Dir"
  shows "(\<exists>m \<in> set (children F cs). prefix (cs @ [m]) q) \<longleftrightarrow> prefix cs q"
proof
  assume "prefix cs q"
  then obtain r where r: "q = cs @ r" by (auto simp: prefix_def)
  have n: "node_at F q = Some (File b)" using assms(1,2) by (simp add: entry_node)
  then have "r \<noteq> []" using assms(3) r by auto
  then obtain m r' where m: "r = m # r'" by (cases r) auto
  have "node_at F ((cs @ [m]) @ r') \<noteq> None" using n r m by simp
  from descend(2) [OF assms(1) this] n r m have "node_at F (cs @ [m]) \<noteq> None" by (cases "r' = []") auto
  then show "\<exists>m \<in> set (children F cs). prefix (cs @ [m]) q" using assms(1) r m by (auto simp: children_iff)
qed (auto simp: prefix_def)

lemma file_alone:
  assumes "fs_ok F" and "node_at F q = Some (File b)" and "(q', n) \<in> set (nodes F)" and "prefix q q'"
  shows "q' = q \<and> n = File b"
proof -
  obtain r where r: "q' = q @ r" using assms(4) by (auto simp: prefix_def)
  have n: "node_at F q' = Some n" using assms(1,3) by (simp add: entry_node)
  with descend(2) [OF assms(1), of q r] r assms(2) have "r = []" by auto
  with n r assms(2) show ?thesis by simp
qed

lemma keys_bounded: "\<exists>k. \<forall>q \<in> set (hm_keys (nodes F)). prefix cs q \<longrightarrow> length q \<le> length cs + k"
proof (intro exI ballI impI)
  fix q assume "q \<in> set (hm_keys (nodes F))"
  then have "length q \<le> sum_list (map length (hm_keys (nodes F)))" by (simp add: member_le_sum_list)
  then show "length q \<le> length cs + sum_list (map length (hm_keys (nodes F)))" by simp
qed

section \<open>Scans\<close>

text \<open>
  A scan goes through the names of a directory and collects what \<open>pick\<close> makes of the files;
  directories for which \<open>skip\<close> holds are left out.  Files and directories are named by their
  components below the directory the scan started in.
\<close>

locale dir_scan =
  fixes scan :: "fs \<Rightarrow> path \<Rightarrow> path \<Rightarrow> string list \<Rightarrow> 'a list \<Rightarrow> 'a list option"
    and skip :: "string list \<Rightarrow> bool"
    and pick :: "path \<Rightarrow> string list \<Rightarrow> bytes \<Rightarrow> 'a list"
  assumes scan_Nil: "scan F root dir [] out = Some out"
    and scan_file: "fs_ok F \<Longrightarrow> resolve F root = Inr rcs \<Longrightarrow> node_at F (rcs @ rel @ [n]) = Some (File b) \<Longrightarrow>
      scan F root (path_at root rel) (n # ns) out = scan F root (path_at root rel) ns (out @ pick root (rel @ [n]) b)"
    and scan_skip: "fs_ok F \<Longrightarrow> resolve F root = Inr rcs \<Longrightarrow> node_at F (rcs @ rel @ [n]) = Some Dir \<Longrightarrow>
      skip (rel @ [n]) \<Longrightarrow> scan F root (path_at root rel) (n # ns) out = scan F root (path_at root rel) ns out"
    and scan_dir: "fs_ok F \<Longrightarrow> resolve F root = Inr rcs \<Longrightarrow> node_at F (rcs @ rel @ [n]) = Some Dir \<Longrightarrow>
      \<not> skip (rel @ [n]) \<Longrightarrow>
      scan F root (path_at root (rel @ [n])) (children F (rcs @ rel @ [n])) out = Some out' \<Longrightarrow>
      scan F root (path_at root rel) (n # ns) out = scan F root (path_at root rel) ns out'"
begin

definition reached :: "string list \<Rightarrow> bool" where
  "reached rel \<longleftrightarrow> (\<forall>p \<in> set (prefixes rel). p \<noteq> [] \<longrightarrow> \<not> skip p)"

definition in_scan :: "string list \<Rightarrow> string list \<times> node \<Rightarrow> bool" where
  "in_scan rcs x \<longleftrightarrow> strict_prefix rcs (fst x) \<and> snd x \<noteq> Dir \<and> reached (butlast (drop (length rcs) (fst x)))"

definition through :: "string list \<Rightarrow> string list \<Rightarrow> string list \<Rightarrow> string list \<times> node \<Rightarrow> bool" where
  "through rcs cs ns x \<longleftrightarrow> in_scan rcs x \<and> (\<exists>m \<in> set ns. prefix (cs @ [m]) (fst x))"

definition picked :: "path \<Rightarrow> string list \<Rightarrow> (string list \<times> node) list \<Rightarrow> 'a multiset" where
  "picked root rcs xs = (\<Sum>x \<in># mset xs. mset (pick root (drop (length rcs) (fst x)) (contents (snd x))))"

definition finds :: "fs \<Rightarrow> path \<Rightarrow> string list \<Rightarrow> string list \<Rightarrow> string list \<Rightarrow> 'a list \<Rightarrow> bool" where
  "finds F root rcs rel ns out \<longleftrightarrow>
     (\<exists>X. scan F root (path_at root rel) ns out = Some (out @ X) \<and>
        mset X = picked root rcs (filter (through rcs (rcs @ rel) ns) (nodes F)))"

lemma reached_Nil [simp]: "reached []"
  by (simp add: reached_def)

lemma reached_snoc: "reached (rel @ [n]) \<longleftrightarrow> reached rel \<and> \<not> skip (rel @ [n])"
  by (auto simp: reached_def prefix_snoc)

lemma through_Cons:
  assumes "distinct (n # ns)"
  shows "mset (filter (through rcs cs (n # ns)) xs) =
    mset (filter (through rcs cs [n]) xs) + mset (filter (through rcs cs ns) xs)"
proof -
  have "\<not> (through rcs cs [n] x \<and> through rcs cs ns x)" for x
    using assms by (auto simp: through_def prefix_def)
  moreover have "through rcs cs (n # ns) = (\<lambda>x. through rcs cs [n] x \<or> through rcs cs ns x)"
    by (auto simp: through_def fun_eq_iff)
  ultimately show ?thesis using mset_filter_or [of xs "through rcs cs [n]" "through rcs cs ns"] by simp
qed

lemma through_file:
  assumes "fs_ok F" and "node_at F (rcs @ rel @ [n]) = Some (File b)" and "reached rel"
  shows "filter (through rcs (rcs @ rel) [n]) (nodes F) = [(rcs @ rel @ [n], File b)]"
proof -
  have "through rcs (rcs @ rel) [n] x \<longleftrightarrow> x = (rcs @ rel @ [n], File b)" if "x \<in> set (nodes F)" for x
  proof (cases x)
    case (Pair q' n')
    show ?thesis using file_alone [OF assms(1,2), of q' n'] that assms(3) unfolding Pair
      by (auto simp: through_def in_scan_def butlast_append strict_prefix_def)
  qed
  then have "filter (through rcs (rcs @ rel) [n]) (nodes F) = filter (\<lambda>x. x = (rcs @ rel @ [n], File b)) (nodes F)"
    by (intro filter_cong) auto
  moreover have "distinct (nodes F)" using assms(1) by (auto simp: fs_ok_def hm_ok_def distinct_map)
  moreover have "(rcs @ rel @ [n], File b) \<in> set (nodes F)" using assms(1,2) by (simp add: entry_node)
  ultimately show ?thesis by (simp add: filter_the)
qed

lemma through_skip:
  assumes "fs_ok F" and "node_at F (rcs @ rel @ [n]) = Some Dir" and "skip (rel @ [n])"
  shows "filter (through rcs (rcs @ rel) [n]) (nodes F) = []"
proof -
  have "\<not> through rcs (rcs @ rel) [n] (q, nd)" if "(q, nd) \<in> set (nodes F)" for q nd
  proof
    assume t: "through rcs (rcs @ rel) [n] (q, nd)"
    then obtain r where r: "q = rcs @ rel @ [n] @ r" by (auto simp: through_def prefix_def)
    have "r \<noteq> []" using that t r assms(1,2) by (auto simp: entry_node through_def in_scan_def)
    then have "rel @ [n] \<in> set (prefixes (butlast (drop (length rcs) q)))" by (simp add: r butlast_append)
    then show False using t assms(3) by (auto simp: through_def in_scan_def reached_def)
  qed
  then show ?thesis by (auto simp: filter_empty_conv)
qed

lemma through_dir:
  assumes "fs_ok F" and "node_at F (cs @ [n]) = Some Dir"
  shows "filter (through rcs (cs @ [n]) (children F (cs @ [n]))) (nodes F) = filter (through rcs cs [n]) (nodes F)"
proof (rule filter_cong [OF refl])
  fix x assume x: "x \<in> set (nodes F)"
  obtain q nd where q: "x = (q, nd)" by (cases x)
  show "through rcs (cs @ [n]) (children F (cs @ [n])) x = through rcs cs [n] x"
    using below_child [OF assms(1) _ assms(2), of q] x unfolding q by (cases nd) (auto simp: through_def in_scan_def)
qed

lemma finds_Cons:
  assumes "distinct (n # ns)" and "\<And>out. finds F root rcs rel ns out"
    and "scan F root (path_at root rel) (n # ns) out = scan F root (path_at root rel) ns (out @ X)"
    and "mset X = picked root rcs (filter (through rcs (rcs @ rel) [n]) (nodes F))"
  shows "finds F root rcs rel (n # ns) out"
proof -
  from assms(2) [of "out @ X"] obtain Y where Y: "scan F root (path_at root rel) ns (out @ X) = Some ((out @ X) @ Y)"
    "mset Y = picked root rcs (filter (through rcs (rcs @ rel) ns) (nodes F))"
    by (auto simp: finds_def)
  then show ?thesis unfolding finds_def using assms(3,4) through_Cons [OF assms(1)]
    by (intro exI [of _ "X @ Y"]) (simp add: picked_def)
qed

lemma finds_one:
  assumes "fs_ok F" and "resolve F root = Inr rcs" and "node_at F (rcs @ rel @ [n]) \<noteq> None" and "reached rel"
    and "distinct (n # ns)" and "\<And>out. finds F root rcs rel ns out"
    and "node_at F (rcs @ rel @ [n]) = Some Dir \<Longrightarrow> \<not> skip (rel @ [n]) \<Longrightarrow>
      finds F root rcs (rel @ [n]) (children F (rcs @ rel @ [n])) out"
  shows "finds F root rcs rel (n # ns) out"
proof -
  consider b where "node_at F (rcs @ rel @ [n]) = Some (File b)" | "node_at F (rcs @ rel @ [n]) = Some Dir" "skip (rel @ [n])"
    | "node_at F (rcs @ rel @ [n]) = Some Dir" "\<not> skip (rel @ [n])"
    using assms(3) by (metis node.exhaust option.exhaust)
  then show ?thesis
  proof cases
    case 1
    show ?thesis
      by (rule finds_Cons [OF assms(5,6) scan_file [OF assms(1,2) 1]])
        (simp add: through_file [OF assms(1) 1 assms(4)] picked_def contents_def)
  next
    case 2
    show ?thesis
      by (rule finds_Cons [OF assms(5,6), of _ "[]"])
        (simp_all add: scan_skip [OF assms(1,2) 2] through_skip [OF assms(1) 2] picked_def)
  next
    case 3
    from assms(7) [OF 3] obtain X where
      X: "scan F root (path_at root (rel @ [n])) (children F (rcs @ rel @ [n])) out = Some (out @ X)"
        "mset X = picked root rcs (filter (through rcs (rcs @ rel @ [n]) (children F (rcs @ rel @ [n]))) (nodes F))"
      by (auto simp: finds_def)
    have "filter (through rcs (rcs @ rel @ [n]) (children F (rcs @ rel @ [n]))) (nodes F) = filter (through rcs (rcs @ rel) [n]) (nodes F)"
      using through_dir [OF assms(1), of "rcs @ rel" n rcs] 3(1) by simp
    from X(2) [unfolded this] show ?thesis by (rule finds_Cons [OF assms(5,6) scan_dir [OF assms(1,2) 3 X(1)]])
  qed
qed

lemma scan_finds:
  assumes "fs_ok F" and "resolve F root = Inr rcs"
  shows "node_at F (rcs @ rel) = Some Dir \<Longrightarrow> reached rel \<Longrightarrow>
    (\<forall>q \<in> set (hm_keys (nodes F)). prefix (rcs @ rel) q \<longrightarrow> length q \<le> length (rcs @ rel) + k) \<Longrightarrow>
    distinct ns \<Longrightarrow> set ns \<subseteq> set (children F (rcs @ rel)) \<Longrightarrow> finds F root rcs rel ns out"
proof (induction k arbitrary: rel ns out)
  case 0
  have "ns = []"
  proof (rule ccontr)
    assume "ns \<noteq> []"
    then have "hd ns \<in> set (children F (rcs @ rel))" using 0(5) by (meson hd_in_set subsetD)
    then have "rcs @ rel @ [hd ns] \<in> set (hm_keys (nodes F))"
      using assms(1) by (simp add: children_iff hm_keys_iff node_at_def)
    with 0(3) show False by (auto dest: bspec)
  qed
  then show ?case by (simp add: finds_def through_def scan_Nil picked_def)
next
  case (Suc k rel ns out)
  show ?case using Suc.prems(4,5)
  proof (induction ns arbitrary: out)
    case Nil
    then show ?case by (simp add: finds_def through_def scan_Nil picked_def)
  next
    case (Cons n ns out)
    have ex: "node_at F (rcs @ rel @ [n]) \<noteq> None" using Cons.prems(2) assms(1) by (simp add: children_iff)
    have rest: "finds F root rcs rel ns o'" for o' using Cons.IH Cons.prems by simp
    have bound: "\<forall>q \<in> set (hm_keys (nodes F)). prefix (rcs @ rel @ [n]) q \<longrightarrow> length q \<le> length (rcs @ rel @ [n]) + k"
      using Suc.prems(3) by (fastforce simp: prefix_def)
    have "finds F root rcs (rel @ [n]) (children F (rcs @ rel @ [n])) out"
      if "node_at F (rcs @ rel @ [n]) = Some Dir" "\<not> skip (rel @ [n])"
      using Suc.IH [of "rel @ [n]"] that bound Suc.prems(2) children_distinct [OF assms(1)] by (simp add: reached_snoc)
    then show ?case by (rule finds_one [OF assms ex Suc.prems(2) Cons.prems(1) rest])
  qed
qed

theorem scan_exact:
  assumes "fs_ok F" and "resolve F root = Inr rcs" and "node_at F rcs = Some Dir"
  shows "\<exists>X. scan F root root (children F rcs) [] = Some X \<and> mset X = picked root rcs (filter (in_scan rcs) (nodes F))"
proof -
  obtain k where "\<forall>q \<in> set (hm_keys (nodes F)). prefix rcs q \<longrightarrow> length q \<le> length rcs + k"
    using keys_bounded by blast
  with scan_finds [OF assms(1,2), of "[]" k "children F rcs" "[]"] assms(3) children_distinct [OF assms(1)]
  have "finds F root rcs [] (children F rcs) []" by simp
  moreover have "filter (through rcs rcs (children F rcs)) (nodes F) = filter (in_scan rcs) (nodes F)"
  proof (rule filter_cong [OF refl])
    fix x assume x: "x \<in> set (nodes F)"
    obtain q nd where q: "x = (q, nd)" by (cases x)
    show "through rcs rcs (children F rcs) x = in_scan rcs x"
      using below_child [OF assms(1) _ assms(3), of q] x unfolding q
      by (cases nd) (auto simp: through_def in_scan_def strict_prefix_def)
  qed
  ultimately show ?thesis by (auto simp: finds_def)
qed

end

end
