(* ===== verification/Client_Tree.thy ===== *)
theory Client_Tree
  imports Dir_Scan Client_Fs
begin

text \<open>
  The scan of the shared directory, \<open>build_tree\<close> and \<open>walk\<close> of \<open>nsmt-client/src/fs.rs\<close>.  The scan recurses over path strings; that it ends is a theorem, not part
  of its definition.  Names are taken to be UTF-8 and times of modification come from outside
  (\<open>mtime\<close>), since the file system of the model keeps none.
\<close>

section \<open>The scan\<close>

definition rel_name :: "path \<Rightarrow> path \<Rightarrow> string" where
  "rel_name root p = map (\<lambda>c. if c = CHR 0x5C then CHR ''/'' else c)
     (case path_strip_prefix root p of Some r \<Rightarrow> r | None \<Rightarrow> p)"

definition not_synced :: "string \<Rightarrow> bool" where
  "not_synced rel \<longleftrightarrow> prefix ''.sync-conflict-'' rel \<or> prefix ''.nsmt-'' rel"

definition entry_of :: "crates \<Rightarrow> i64 \<Rightarrow> string \<Rightarrow> bytes \<Rightarrow> file_tree_entry" where
  "entry_of C mt rel bs = \<lparr>fte_path = rel, fte_blob_id = object_id C bs, fte_mode = 420,
     fte_size = of_nat (length bs), fte_mtime_ns = mt\<rparr>"

partial_function (option) walk_dir ::
  "crates \<Rightarrow> (path \<Rightarrow> i64) \<Rightarrow> fs \<Rightarrow> path \<Rightarrow> path \<Rightarrow> string list \<Rightarrow> file_tree_entry list \<Rightarrow>
   (io_error + file_tree_entry list) option" where
  "walk_dir C mtime F root dir names out =
     (case names of
        [] \<Rightarrow> Some (Inr out)
      | n # ns \<Rightarrow>
         (let p = join dir n in
          if fs_is_dir F p then
            (case fs_read_dir F p of
               Inl e \<Rightarrow> Some (Inl e)
             | Inr ms \<Rightarrow> Option.bind (walk_dir C mtime F root p ms out) (\<lambda>r.
                 case r of
                   Inl e \<Rightarrow> Some (Inl e)
                 | Inr out' \<Rightarrow> walk_dir C mtime F root dir ns out'))
          else if fs_is_file F p then
            (let rel = rel_name root p in
             if not_synced rel then walk_dir C mtime F root dir ns out
             else (case fs_read F p of
                     Inl e \<Rightarrow> Some (Inl e)
                   | Inr bs \<Rightarrow> walk_dir C mtime F root dir ns (out @ [entry_of C (mtime p) rel bs])))
          else walk_dir C mtime F root dir ns out))"

definition walk_tree ::
  "crates \<Rightarrow> (path \<Rightarrow> i64) \<Rightarrow> fs \<Rightarrow> path \<Rightarrow> path \<Rightarrow> file_tree_entry list \<Rightarrow> (io_error + file_tree_entry list) option" where
  "walk_tree C mtime F root dir out =
     (case fs_read_dir F dir of Inl e \<Rightarrow> Some (Inl e) | Inr ns \<Rightarrow> walk_dir C mtime F root dir ns out)"

definition build_tree :: "crates \<Rightarrow> (path \<Rightarrow> i64) \<Rightarrow> fs \<Rightarrow> path \<Rightarrow> (io_error + file_tree) option" where
  "build_tree C mtime F dir =
     map_option (\<lambda>r. case r of
         Inl e \<Rightarrow> Inl e
       | Inr es \<Rightarrow>
          (let t = \<lparr>ft_tree_hash = [], ft_entries = sort_key fte_path es\<rparr>
           in Inr (t\<lparr>ft_tree_hash := client_tree_hash C t\<rparr>)))
       (walk_tree C mtime F dir dir [])"

section \<open>Names below the shared directory\<close>

definition slashes :: "string \<Rightarrow> string" where
  "slashes s = map (\<lambda>c. if c = CHR 0x5C then CHR ''/'' else c) s"

lemma rel_name_at:
  assumes "list_all simple_name rel" and "rel \<noteq> []"
  shows "rel_name root (path_at root rel) = slashes (slash_join rel)"
  by (simp add: rel_name_def strip_prefix_at [OF assms] slashes_def)

section \<open>What the scan finds\<close>

text \<open>
  The reference: the files of the file system below the directory \<open>rcs\<close> that take part in the
  synchronisation, and the entry of each.
\<close>

definition tree_name :: "string list \<Rightarrow> string list \<Rightarrow> string" where
  "tree_name rcs q = slashes (slash_join (drop (length rcs) q))"

definition in_tree :: "string list \<Rightarrow> string list \<times> node \<Rightarrow> bool" where
  "in_tree rcs x \<longleftrightarrow> strict_prefix rcs (fst x) \<and> snd x \<noteq> Dir \<and> \<not> not_synced (tree_name rcs (fst x))"

definition tree_entry :: "crates \<Rightarrow> (path \<Rightarrow> i64) \<Rightarrow> path \<Rightarrow> string list \<Rightarrow> string list \<times> node \<Rightarrow> file_tree_entry" where
  "tree_entry C mtime root rcs x =
     entry_of C (mtime (path_at root (drop (length rcs) (fst x)))) (tree_name rcs (fst x)) (contents (snd x))"

text \<open>One turn of the loop: for a name of a file and for a name of a directory.\<close>

lemma walk_dir_file:
  assumes "resolve F (join dir n) = Inr q" and "node_at F q = Some (File b)" and "rel_name root (join dir n) = nm"
  shows "walk_dir C mtime F root dir (n # ns) out =
    walk_dir C mtime F root dir ns (out @ (if not_synced nm then [] else [entry_of C (mtime (join dir n)) nm b]))"
  using assms by (subst walk_dir.simps) (simp add: fs_is_dir_def fs_is_file_def fs_read_def Let_def)

lemma walk_dir_dir:
  assumes "resolve F (join dir n) = Inr q" and "node_at F q = Some Dir"
    and "walk_dir C mtime F root (join dir n) (children F q) out = Some (Inr out')"
  shows "walk_dir C mtime F root dir (n # ns) out = walk_dir C mtime F root dir ns out'"
  using assms by (subst walk_dir.simps) (simp add: fs_is_dir_def fs_read_dir_def)

lemma walk_dir_Nil [simp]: "walk_dir C mtime F root dir [] out = Some (Inr out)"
  by (subst walk_dir.simps) simp

definition scan_tree ::
  "crates \<Rightarrow> (path \<Rightarrow> i64) \<Rightarrow> fs \<Rightarrow> path \<Rightarrow> path \<Rightarrow> string list \<Rightarrow> file_tree_entry list \<Rightarrow> file_tree_entry list option" where
  "scan_tree C mtime F root dir ns out = (case walk_dir C mtime F root dir ns out of Some (Inr X) \<Rightarrow> Some X | _ \<Rightarrow> None)"

definition pick_entry :: "crates \<Rightarrow> (path \<Rightarrow> i64) \<Rightarrow> path \<Rightarrow> string list \<Rightarrow> bytes \<Rightarrow> file_tree_entry list" where
  "pick_entry C mtime root rel b =
     (let nm = slashes (slash_join rel) in if not_synced nm then [] else [entry_of C (mtime (path_at root rel)) nm b])"

interpretation tree_scan: dir_scan "scan_tree C mtime" "\<lambda>_. False" "pick_entry C mtime" for C mtime
proof unfold_locales
  fix F root rcs rel n b ns out
  assume ok: "fs_ok F" and r: "resolve F root = Inr rcs" and f: "node_at F (rcs @ rel @ [n]) = Some (File b)"
  have "resolve F (join (path_at root rel) n) = Inr (rcs @ rel @ [n])" using resolve_at [OF ok r, of "rel @ [n]"] f by simp
  moreover have "rel_name root (join (path_at root rel) n) = slashes (slash_join (rel @ [n]))"
    using rel_name_at [of "rel @ [n]" root] descend(1) [OF ok, of rcs "rel @ [n]"] f by simp
  ultimately show "scan_tree C mtime F root (path_at root rel) (n # ns) out =
      scan_tree C mtime F root (path_at root rel) ns (out @ pick_entry C mtime root (rel @ [n]) b)"
    using walk_dir_file f by (simp add: scan_tree_def pick_entry_def Let_def)
next
  fix F root rcs rel n ns out out'
  assume ok: "fs_ok F" and r: "resolve F root = Inr rcs" and d: "node_at F (rcs @ rel @ [n]) = Some Dir"
    and s: "scan_tree C mtime F root (path_at root (rel @ [n])) (children F (rcs @ rel @ [n])) out = Some out'"
  have "resolve F (join (path_at root rel) n) = Inr (rcs @ rel @ [n])" using resolve_at [OF ok r, of "rel @ [n]"] d by simp
  from walk_dir_dir [OF this d, of C mtime root out out' ns] s
  show "scan_tree C mtime F root (path_at root rel) (n # ns) out = scan_tree C mtime F root (path_at root rel) ns out'"
    by (simp add: scan_tree_def split: option.splits sum.splits)
qed (simp_all add: scan_tree_def)

lemma picked_entries:
  "tree_scan.picked C mtime root rcs (filter (tree_scan.in_scan rcs) xs) =
     mset (map (tree_entry C mtime root rcs) (filter (in_tree rcs) xs))"
  unfolding tree_scan.picked_def
  by (induction xs) (auto simp: tree_scan.in_scan_def tree_scan.reached_def in_tree_def tree_entry_def
      pick_entry_def Let_def tree_name_def)

lemma build_tree_entries:
  assumes "fs_ok F" and "resolve F dir = Inr cs" and "node_at F cs = Some Dir"
  shows "\<exists>t. build_tree C mtime F dir = Some (Inr t) \<and>
    mset (ft_entries t) = mset (map (tree_entry C mtime dir cs) (filter (in_tree cs) (nodes F))) \<and>
    sorted (map fte_path (ft_entries t)) \<and> ft_tree_hash t = client_tree_hash C t"
proof -
  from tree_scan.scan_exact [OF assms, of C mtime] obtain X where X: "walk_dir C mtime F dir dir (children F cs) [] = Some (Inr X)"
    "mset X = mset (map (tree_entry C mtime dir cs) (filter (in_tree cs) (nodes F)))"
    unfolding picked_entries by (auto simp: scan_tree_def split: option.splits sum.splits)
  have "build_tree C mtime F dir = Some (Inr (\<lparr>ft_tree_hash = [], ft_entries = sort_key fte_path X\<rparr>
      \<lparr>ft_tree_hash := client_tree_hash C \<lparr>ft_tree_hash = [], ft_entries = sort_key fte_path X\<rparr>\<rparr>))"
    using X(1) assms(2,3) by (simp add: build_tree_def walk_tree_def fs_read_dir_def Let_def)
  then show ?thesis using X(2) by (intro exI conjI) (assumption, simp_all add: client_tree_hash_def)
qed

section \<open>Properties\<close>

text \<open>
  C15: the scan of the shared directory ends and is complete.  For a directory of a well-formed
  file system \<open>build_tree\<close> returns a tree whose entries are, each exactly once, the files at any
  depth below the directory whose relative name is not that of a conflict copy or a local marker,
  with the digest and the length of their contents; the entries are sorted by path and the hash of
  the tree is the hash of these entries.
\<close>

theorem build_tree_exact:
  assumes "fs_ok F" and "resolve F dir = Inr cs" and "node_at F cs = Some Dir"
  shows "\<exists>t. build_tree C mtime F dir = Some (Inr t) \<and>
    mset (ft_entries t) = mset (map (tree_entry C mtime dir cs) (filter (in_tree cs) (nodes F))) \<and>
    sorted (map fte_path (ft_entries t)) \<and> ft_tree_hash t = client_tree_hash C t"
  using assms by (rule build_tree_entries)

text \<open>A shared directory with a file in a subdirectory and a conflict copy.\<close>

definition share_disk :: fs where
  "share_disk = \<lparr>cwd = [], nodes = [([''s''], Dir), ([''s'', ''d''], Dir), ([''s'', ''d'', ''f''], File [7]),
     ([''s'', ''.sync-conflict-a-f-1''], File [8])]\<rparr>"

lemma share_disk_ok: "fs_ok share_disk" "resolve share_disk ''/s'' = Inr [''s'']" "node_at share_disk [''s''] = Some Dir"
  by (simp_all add: fs_ok_def share_disk_def hm_ok_def hm_keys_def simple_name_def node_at_def hm_get_def
      resolve_def start_of_def)

theorem build_tree_exact_witness:
  "\<exists>t. build_tree sample_crates (\<lambda>_. 0) share_disk ''/s'' = Some (Inr t) \<and>
     ft_entries t = [\<lparr>fte_path = ''d/f'', fte_blob_id = object_id sample_crates [7], fte_mode = 420, fte_size = 1, fte_mtime_ns = 0\<rparr>]"
proof -
  have "map (tree_entry sample_crates (\<lambda>_. 0) ''/s'' [''s'']) (filter (in_tree [''s'']) (nodes share_disk)) =
      [\<lparr>fte_path = ''d/f'', fte_blob_id = object_id sample_crates [7], fte_mode = 420, fte_size = 1, fte_mtime_ns = 0\<rparr>]"
    by (simp add: share_disk_def in_tree_def tree_entry_def tree_name_def slashes_def not_synced_def entry_of_def contents_def
        strict_prefix_def)
  with build_tree_exact [OF share_disk_ok, of sample_crates "\<lambda>_. 0"] show ?thesis by auto
qed

end
