(* ===== verification/Utf8.thy ===== *)
theory Utf8
  imports File_System
begin

text \<open>
  UTF-8 as the sources use it: the lossy conversion \<open>String::from_utf8_lossy\<close>, the lines of a text, and well-formed texts
  under concatenation and splitting.
\<close>

section \<open>Lossy conversion\<close>

text \<open>\<open>String::from_utf8_lossy\<close>: each maximal ill-formed piece becomes U+FFFD.\<close>

definition replacement :: bytes where "replacement = [0xEF, 0xBF, 0xBD]"

definition second_ok :: "byte \<Rightarrow> byte \<Rightarrow> bool" where
  "second_ok a b \<longleftrightarrow> cont b \<and> (a = 0xE0 \<longrightarrow> 0xA0 \<le> b) \<and> (a = 0xED \<longrightarrow> b \<le> 0x9F) \<and>
     (a = 0xF0 \<longrightarrow> 0x90 \<le> b) \<and> (a = 0xF4 \<longrightarrow> b \<le> 0x8F)"

fun from_utf8_lossy :: "bytes \<Rightarrow> bytes" where
  "from_utf8_lossy [] = []"
| "from_utf8_lossy (a # bs) =
     (if a \<le> 0x7F then a # from_utf8_lossy bs
      else if 0xC2 \<le> a \<and> a \<le> 0xDF then
        (case bs of
           b # r \<Rightarrow> if cont b then a # b # from_utf8_lossy r else replacement @ from_utf8_lossy bs
         | _ \<Rightarrow> replacement)
      else if 0xE0 \<le> a \<and> a \<le> 0xEF then
        (case bs of
           b # r \<Rightarrow>
             if second_ok a b then
               (case r of
                  c # r' \<Rightarrow> if cont c then a # b # c # from_utf8_lossy r' else replacement @ from_utf8_lossy r
                | _ \<Rightarrow> replacement)
             else replacement @ from_utf8_lossy bs
         | _ \<Rightarrow> replacement)
      else if 0xF0 \<le> a \<and> a \<le> 0xF4 then
        (case bs of
           b # r \<Rightarrow>
             if second_ok a b then
               (case r of
                  c # r' \<Rightarrow>
                    if cont c then
                      (case r' of
                         d # r'' \<Rightarrow> if cont d then a # b # c # d # from_utf8_lossy r''
                           else replacement @ from_utf8_lossy r'
                       | _ \<Rightarrow> replacement)
                    else replacement @ from_utf8_lossy r
                | _ \<Rightarrow> replacement)
             else replacement @ from_utf8_lossy bs
         | _ \<Rightarrow> replacement)
      else replacement @ from_utf8_lossy bs)"

section \<open>Lines\<close>

text \<open>\<open>str::lines\<close>: without the line ends \<open>\n\<close> or \<open>\r\n\<close>, and without a last empty line.\<close>

definition drop_cr :: "string \<Rightarrow> string" where
  "drop_cr l = (if suffix [CHR 0x0D] l then butlast l else l)"

definition str_lines :: "string \<Rightarrow> string list" where
  "str_lines s =
     (let ls = split_char CHR 0x0A s in
      map drop_cr (butlast ls) @ (if last ls = [] then [] else [last ls]))"

fun join_with :: "string \<Rightarrow> string list \<Rightarrow> string" where
  "join_with sep [] = []"
| "join_with sep [a] = a"
| "join_with sep (a # b # r) = a @ sep @ join_with sep (b # r)"

section \<open>Well-formed texts\<close>

lemma not_cont: "b \<le> 0x7F \<Longrightarrow> \<not> cont b"
  by (simp add: cont_def word_le_nat_alt)

lemma valid_utf8_append: "valid_utf8 a \<Longrightarrow> valid_utf8 (a @ b) = valid_utf8 b"
proof (induction a rule: valid_utf8.induct)
  case (2 x bs)
  consider "x \<le> 0x7F" | "\<not> x \<le> 0x7F" "0xC2 \<le> x \<and> x \<le> 0xDF"
    | "\<not> x \<le> 0x7F" "\<not> (0xC2 \<le> x \<and> x \<le> 0xDF)" "0xE0 \<le> x \<and> x \<le> 0xEF"
    | "\<not> x \<le> 0x7F" "\<not> (0xC2 \<le> x \<and> x \<le> 0xDF)" "\<not> (0xE0 \<le> x \<and> x \<le> 0xEF)" by blast
  then show ?case
  proof cases
    case 1
    then show ?thesis using 2 by (simp only: append_Cons valid_utf8.simps if_True)
  next
    case 2
    then show ?thesis using "2.prems" "2.IH"(2) by (cases bs) (simp_all only: append_Cons append_Nil valid_utf8.simps if_True if_False list.case simp_thms)
  next
    case 3
    then obtain c d r where "bs = c # d # r" using "2.prems" by (simp only: valid_utf8.simps if_True if_False) (auto split: list.splits)
    with 3 show ?thesis using "2.prems" "2.IH"(3) [of c "d # r" d r] by (simp only: append_Cons valid_utf8.simps if_True if_False list.case simp_thms) blast
  next
    case 4
    then obtain c d e r where "bs = c # d # e # r" "0xF0 \<le> x \<and> x \<le> 0xF4" using "2.prems" by (simp only: valid_utf8.simps if_True if_False) (auto split: list.splits if_splits)
    with 4 show ?thesis using "2.prems" "2.IH"(4) [of c "d # e # r" d "e # r" e r] by (simp only: append_Cons valid_utf8.simps if_True if_False list.case simp_thms) blast
  qed
qed simp

lemma valid_utf8_front: "valid_utf8 (a @ b) \<Longrightarrow> b = [] \<or> hd b \<le> 0x7F \<Longrightarrow> valid_utf8 a"
proof (induction a rule: valid_utf8.induct)
  case (2 x bs)
  have b: "\<not> cont c" if "b = c # r" for c r using 2(6) that not_cont by auto
  consider "x \<le> 0x7F" | "\<not> x \<le> 0x7F" "0xC2 \<le> x \<and> x \<le> 0xDF"
    | "\<not> x \<le> 0x7F" "\<not> (0xC2 \<le> x \<and> x \<le> 0xDF)" "0xE0 \<le> x \<and> x \<le> 0xEF"
    | "\<not> x \<le> 0x7F" "\<not> (0xC2 \<le> x \<and> x \<le> 0xDF)" "\<not> (0xE0 \<le> x \<and> x \<le> 0xEF)" by blast
  then show ?case
  proof cases
    case 1
    then show ?thesis using 2 by (simp only: append_Cons valid_utf8.simps if_True)
  next
    case 2
    then have "\<exists>c r. bs @ b = c # r \<and> cont c" using "2.prems"(1)
      by (simp only: append_Cons valid_utf8.simps if_True if_False) (auto split: list.splits)
    then obtain c r where "bs = c # r" using b by (cases bs) auto
    with 2 show ?thesis using "2.prems" "2.IH"(2) [of c r] by (simp only: append_Cons valid_utf8.simps if_True if_False list.case simp_thms)
  next
    case 3
    then have "\<exists>c d r. bs @ b = c # d # r \<and> cont c \<and> cont d" using "2.prems"(1)
      by (simp only: append_Cons valid_utf8.simps if_True if_False) (auto split: list.splits)
    then obtain c d r where "bs = c # d # r" using b by (cases bs; cases "tl bs") auto
    with 3 show ?thesis using "2.prems" "2.IH"(3) [of c "d # r" d r] by (simp only: append_Cons valid_utf8.simps if_True if_False list.case simp_thms) blast
  next
    case 4
    then have x: "0xF0 \<le> x \<and> x \<le> 0xF4" "\<exists>c d e r. bs @ b = c # d # e # r \<and> cont c \<and> cont d \<and> cont e" using "2.prems"(1)
      by (simp_all only: append_Cons valid_utf8.simps if_True if_False) (auto split: list.splits if_splits)
    then obtain c d e r where "bs = c # d # e # r" using b by (cases bs; cases "tl bs"; cases "tl (tl bs)") auto
    with 4 x(1) show ?thesis using "2.prems" "2.IH"(4) [of c "d # e # r" d "e # r" e r] by (simp only: append_Cons valid_utf8.simps if_True if_False list.case simp_thms) blast
  qed
qed simp

definition ascii :: "char \<Rightarrow> bool" where
  "ascii c \<longleftrightarrow> (of_char c :: byte) \<le> 0x7F"

lemma valid_utf8_ascii: "list_all ascii s \<Longrightarrow> valid_utf8 (as_bytes s)"
  by (induction s) (auto simp: as_bytes_def ascii_def)

lemma lossy_valid: "valid_utf8 bs \<Longrightarrow> from_utf8_lossy bs = bs"
proof (induction bs rule: valid_utf8.induct)
  case (2 x bs)
  consider "x \<le> 0x7F" | "\<not> x \<le> 0x7F" "0xC2 \<le> x \<and> x \<le> 0xDF"
    | "\<not> x \<le> 0x7F" "\<not> (0xC2 \<le> x \<and> x \<le> 0xDF)" "0xE0 \<le> x \<and> x \<le> 0xEF"
    | "\<not> x \<le> 0x7F" "\<not> (0xC2 \<le> x \<and> x \<le> 0xDF)" "\<not> (0xE0 \<le> x \<and> x \<le> 0xEF)" by blast
  then show ?case
  proof cases
    case 1
    then show ?thesis using 2 by (simp only: valid_utf8.simps from_utf8_lossy.simps if_True)
  next
    case 2
    then obtain c r where "bs = c # r" using "2.prems" by (simp only: valid_utf8.simps if_True if_False) (auto split: list.splits)
    with 2 show ?thesis using "2.prems" "2.IH"(2) [of c r]
      by (simp only: valid_utf8.simps from_utf8_lossy.simps if_True if_False list.case simp_thms)
  next
    case 3
    then obtain c d r where "bs = c # d # r" using "2.prems" by (simp only: valid_utf8.simps if_True if_False) (auto split: list.splits)
    moreover have "x \<noteq> 0xF0" "x \<noteq> 0xF4" using 3(3) by auto
    ultimately have b: "bs = c # d # r" "second_ok x c" "cont d" "valid_utf8 r" using 3 "2.prems"
      by (simp_all only: valid_utf8.simps second_ok_def if_True if_False list.case simp_thms) blast
    with 3 show ?thesis using "2.IH"(3) [of c "d # r" d r]
      by (simp only: from_utf8_lossy.simps if_True if_False list.case simp_thms)
  next
    case 4
    then obtain c d e r where "bs = c # d # e # r" and f: "0xF0 \<le> x \<and> x \<le> 0xF4" using "2.prems"
      by (simp only: valid_utf8.simps if_True if_False) (auto split: list.splits if_splits)
    moreover have "x \<noteq> 0xE0" "x \<noteq> 0xED" using 4(3) by auto
    ultimately have b: "bs = c # d # e # r" "second_ok x c" "cont d" "cont e" "valid_utf8 r" using 4 "2.prems"
      by (simp_all only: valid_utf8.simps second_ok_def if_True if_False list.case simp_thms) blast
    with 4 f show ?thesis using "2.IH"(4) [of c "d # e # r" d "e # r" e r]
      by (simp only: from_utf8_lossy.simps if_True if_False list.case simp_thms)
  qed
qed simp

end
