(* ===== verification/Conflicts.thy ===== *)
theory Conflicts
  imports Client_Tree Utf8
begin

text \<open>
  Conflict copies and their resolution: the web interface \<open>nsmt-client/src/conflicts_web.rs\<close>
  (listing, details, \<open>resolve\<close>) and the commands \<open>conflicts\<close> and \<open>merge\<close> of
  \<open>nsmt-client/src/main.rs\<close>.  The JSON answers and the printed lines are values of the datatypes
  below; the HTML page and the HTTP server are not modelled.
\<close>

section \<open>Strings\<close>

definition find_char :: "char \<Rightarrow> string \<Rightarrow> nat option" where
  "find_char c s = (if c \<in> set s then Some (length (takeWhile (\<lambda>x. x \<noteq> c) s)) else None)"

definition rfind_char :: "char \<Rightarrow> string \<Rightarrow> nat option" where
  "rfind_char c s = (if c \<in> set s then Some (length s - 1 - length (takeWhile (\<lambda>x. x \<noteq> c) (rev s))) else None)"

section \<open>The web interface\<close>

definition main_name_of :: "string \<Rightarrow> string" where
  "main_name_of name =
     (let stripped = (case strip_prefix ''.sync-conflict-'' name of Some s \<Rightarrow> s | None \<Rightarrow> name);
          ts_idx = (case rfind_char CHR ''-'' stripped of Some i \<Rightarrow> i | None \<Rightarrow> 0);
          machine_and_path = take ts_idx stripped
      in case find_char CHR ''-'' machine_and_path of
           Some i \<Rightarrow> drop (i + 1) machine_and_path
         | None \<Rightarrow> machine_and_path)"

record conflict_item =
  ci_name :: string
  ci_size :: nat
  ci_main :: string

text \<open>The length of a regular file; a directory of such a name counts as 0.\<close>

definition fs_len :: "fs \<Rightarrow> path \<Rightarrow> nat" where
  "fs_len F p = (case fs_read F p of Inr bs \<Rightarrow> length bs | Inl _ \<Rightarrow> 0)"

definition list_conflicts :: "fs \<Rightarrow> path \<Rightarrow> conflict_item list" where
  "list_conflicts F dir =
     (case fs_read_dir F dir of
        Inl _ \<Rightarrow> []
      | Inr names \<Rightarrow> sort_key ci_name
          (map (\<lambda>name. \<lparr>ci_name = name, ci_size = fs_len F (join dir name), ci_main = main_name_of name\<rparr>)
            (filter (prefix ''.sync-conflict-'') names)))"

definition conflict_path :: "fs \<Rightarrow> path \<Rightarrow> string \<Rightarrow> path option" where
  "conflict_path F dir name =
     (if prefix ''.'' name \<and> \<not> prefix ''.sync-conflict-'' name then None
      else let p = join dir name in if fs_exists F p \<and> fs_is_file F p then Some p else None)"

record conflict_detail =
  cd_name :: string
  cd_main :: string
  cd_local_bytes :: nat
  cd_remote_bytes :: nat
  cd_local_text :: bytes
  cd_remote_text :: bytes

definition read_or_empty :: "fs \<Rightarrow> path \<Rightarrow> bytes" where
  "read_or_empty F p = (case fs_read F p of Inr bs \<Rightarrow> bs | Inl _ \<Rightarrow> [])"

definition api_list :: "env \<Rightarrow> fs \<Rightarrow> path \<times> conflict_item list" where
  "api_list env F = (share_dir env, list_conflicts F (share_dir env))"

definition api_detail :: "env \<Rightarrow> fs \<Rightarrow> string \<Rightarrow> conflict_detail option" where
  "api_detail env F name =
     (let dir = share_dir env in
      case conflict_path F dir name of
        None \<Rightarrow> None
      | Some cp \<Rightarrow>
         (let local = read_or_empty F cp; remote = read_or_empty F (join dir (main_name_of name)) in
          Some \<lparr>cd_name = name, cd_main = main_name_of name, cd_local_bytes = length local, cd_remote_bytes = length remote,
            cd_local_text = from_utf8_lossy local, cd_remote_text = from_utf8_lossy remote\<rparr>))"

datatype resolve_answer =
    ConflictNotFound
  | WriteMainFailed
  | KeepLocal path
  | KeepRemote
  | CustomMerged nat
  | UnknownChoice string

definition remove_quiet :: "path \<Rightarrow> fs \<Rightarrow> fs" where
  "remove_quiet p F = (case fs_remove_file p F of Inl _ \<Rightarrow> F | Inr F' \<Rightarrow> F')"

definition api_resolve :: "env \<Rightarrow> string \<Rightarrow> string \<Rightarrow> string option \<Rightarrow> fs \<Rightarrow> resolve_answer \<times> fs" where
  "api_resolve env name choice content F =
     (let dir = share_dir env in
      case conflict_path F dir name of
        None \<Rightarrow> (ConflictNotFound, F)
      | Some cp \<Rightarrow>
         (let main = join dir (main_name_of name) in
          if choice = ''local'' then
            (case fs_write main (read_or_empty F cp) F of
               Inl _ \<Rightarrow> (WriteMainFailed, F)
             | Inr F1 \<Rightarrow> (KeepLocal main, remove_quiet cp F1))
          else if choice = ''remote'' then (KeepRemote, remove_quiet cp F)
          else if choice = ''custom'' then
            (let text = (case content of Some t \<Rightarrow> t | None \<Rightarrow> []) in
             case fs_write main (as_bytes text) F of
               Inl _ \<Rightarrow> (WriteMainFailed, F)
             | Inr F1 \<Rightarrow> (CustomMerged (length text), remove_quiet cp F1))
          else (UnknownChoice choice, F)))"

section \<open>The command line\<close>

text \<open>\<open>Path::file_name\<close>.\<close>

definition file_name :: "path \<Rightarrow> string option" where
  "file_name p =
     (let cs = filter (\<lambda>c. c \<noteq> [] \<and> c \<noteq> ''.'') (split_char CHR ''/'' p) in
      if cs = [] \<or> last cs = ''..'' then None else Some (last cs))"

datatype cli_answer =
    Listed "(string \<times> nat) list"
  | MergedLocal path
  | MergedRemote path
  | Cancelled
  | NoCommand

datatype cli_error = Usage | NoConflictFile path | CliIo io_error | Panicked

definition conflicts_list :: "env \<Rightarrow> fs \<Rightarrow> cli_error + cli_answer" where
  "conflicts_list env F =
     (case fs_read_dir F (share_dir env) of
        Inl e \<Rightarrow> Inl (CliIo e)
      | Inr names \<Rightarrow> Inr (Listed (map (\<lambda>n. (n, fs_len F (join (share_dir env) n))) (filter (prefix ''.sync-conflict-'') names))))"

definition keep_of :: "string list \<Rightarrow> bool option" where
  "keep_of args =
     (case find (\<lambda>a. a = ''--keep-local'' \<or> a = ''--keep-remote'') args of
        Some a \<Rightarrow> Some (a = ''--keep-local'')
      | None \<Rightarrow> None)"

definition merge_local :: "path \<Rightarrow> path \<Rightarrow> bytes \<Rightarrow> fs \<Rightarrow> (cli_error + cli_answer) \<times> fs" where
  "merge_local main_path cp conflict_bytes F =
     (case fs_write main_path conflict_bytes F of
        Inl e \<Rightarrow> (Inl (CliIo e), F)
      | Inr F1 \<Rightarrow>
         (case fs_remove_file cp F1 of
            Inl e \<Rightarrow> (Inl (CliIo e), F1)
          | Inr F2 \<Rightarrow> (Inr (MergedLocal main_path), F2)))"

definition merge_remote :: "path \<Rightarrow> path \<Rightarrow> fs \<Rightarrow> (cli_error + cli_answer) \<times> fs" where
  "merge_remote main_path cp F =
     (case fs_remove_file cp F of
        Inl e \<Rightarrow> (Inl (CliIo e), F)
      | Inr F1 \<Rightarrow> (Inr (MergedRemote main_path), F1))"

text \<open>\<open>input\<close> is the line that the interactive dialogue reads.\<close>

definition merge_cmd :: "env \<Rightarrow> string \<Rightarrow> string list \<Rightarrow> fs \<Rightarrow> (cli_error + cli_answer) \<times> fs" where
  "merge_cmd env input args F =
     (if length args \<le> 3 then (Inl Usage, F)
      else
        let conflict = args ! 3;
            dir = share_dir env;
            cp = (if prefix ''/'' conflict \<or> prefix ''.'' conflict then conflict else join dir conflict)
        in if \<not> fs_exists F cp then (Inl (NoConflictFile cp), F)
           else (case file_name cp of
                   None \<Rightarrow> (Inl Panicked, F)
                 | Some name \<Rightarrow>
                    (let main_path = join dir (main_name_of name) in
                     case fs_read F cp of
                       Inl e \<Rightarrow> (Inl (CliIo e), F)
                     | Inr conflict_bytes \<Rightarrow>
                        (case keep_of args of
                           Some True \<Rightarrow> merge_local main_path cp conflict_bytes F
                         | Some False \<Rightarrow> merge_remote main_path cp F
                         | None \<Rightarrow>
                            if trim input \<in> {''l'', ''L''} then merge_local main_path cp conflict_bytes F
                            else if trim input \<in> {''r'', ''R''} then merge_remote main_path cp F
                            else (Inr Cancelled, F)))))"

definition conflicts_cli :: "env \<Rightarrow> string \<Rightarrow> string list \<Rightarrow> fs \<Rightarrow> (cli_error + cli_answer) \<times> fs" where
  "conflicts_cli env input args F =
     (let cmd = (if length args > 2 then args ! 2 else []) in
      if cmd = ''conflicts'' then (conflicts_list env F, F)
      else if cmd = ''merge'' then merge_cmd env input args F
      else (Inr NoCommand, F))"

section \<open>The main file of a conflict copy\<close>

lemma rfind_char_last: "c \<notin> set t \<Longrightarrow> rfind_char c (s @ c # t) = Some (length s)"
  by (simp add: rfind_char_def takeWhile_append)

lemma find_char_first: "c \<notin> set s \<Longrightarrow> find_char c (s @ c # t) = Some (length s)"
  by (simp add: find_char_def takeWhile_append)

lemma fmt_dec_no:
  assumes "(of_char c :: nat) < 48"
  shows "c \<notin> set (fmt_dec n)"
proof -
  have "char_of (48 + m) \<noteq> c" if "m < 10" for m :: nat
  proof
    assume "char_of (48 + m) = c"
    then have "of_char c = (48 + m) mod 256" by auto
    then show False using that assms by simp
  qed
  note d = this this [symmetric]
  show ?thesis by (induction n rule: fmt_dec.induct) (subst fmt_dec.simps, auto simp: d)
qed

lemma fmt_dec_no_dash: "CHR ''-'' \<notin> set (fmt_dec n)"
  by (rule fmt_dec_no) simp

lemma fmt_dec_plain: "CHR ''/'' \<notin> set (fmt_dec n) \<and> CHR 0x00 \<notin> set (fmt_dec n)"
  by (simp add: fmt_dec_no)

lemma sanitize_dash: "CHR ''-'' \<in> set (sanitize_name r) \<longleftrightarrow> CHR ''-'' \<in> set r"
  by (auto simp: sanitize_name_def map_chars_def is_continuation_def is_ascii_alphanumeric_def)

definition flat :: "string \<Rightarrow> string" where
  "flat p = map (\<lambda>c. if c = CHR ''/'' then CHR ''_'' else c) p"

lemma flat_id: "flat p = p \<longleftrightarrow> CHR ''/'' \<notin> set p"
  by (induction p) (auto simp: flat_def)

lemma main_name_conflict:
  "main_name_of (conflict_name r p ts) =
     (let s = sanitize_name r in
      if CHR ''-'' \<in> set s then tl (dropWhile (\<lambda>c. c \<noteq> CHR ''-'') s) @ ''-'' @ flat p else flat p)"
proof -
  let ?s = "sanitize_name r"
  have st: "strip_prefix ''.sync-conflict-'' (conflict_name r p ts) = Some ((?s @ ''-'' @ flat p) @ CHR ''-'' # fmt_dec ts)"
    by (simp add: conflict_name_def strip_prefix_def flat_def)
  have m: "main_name_of (conflict_name r p ts) =
      (case find_char CHR ''-'' (?s @ ''-'' @ flat p) of Some i \<Rightarrow> drop (i + 1) (?s @ ''-'' @ flat p) | None \<Rightarrow> ?s @ ''-'' @ flat p)"
    unfolding main_name_of_def st Let_def option.case rfind_char_last [OF fmt_dec_no_dash]
    by (simp only: take_append [of _ "?s @ ''-'' @ flat p"] diff_self_eq_0 take_0 append_Nil2 take_all [OF order_refl])
  show ?thesis
  proof (cases "CHR ''-'' \<in> set ?s")
    case True
    then obtain a b where ab: "?s = a @ CHR ''-'' # b" "CHR ''-'' \<notin> set a" by (meson split_list_first)
    then show ?thesis using find_char_first [OF ab(2), of "b @ ''-'' @ flat p"] by (simp add: m dropWhile_append)
  next
    case False
    then show ?thesis using find_char_first [OF False, of "flat p"] by (simp add: m)
  qed
qed

lemma main_name_iff:
  "main_name_of (conflict_name requester path ts) = path \<longleftrightarrow>
     CHR ''-'' \<notin> set requester \<and> CHR ''/'' \<notin> set path"
proof (cases "CHR ''-'' \<in> set requester")
  case True
  then have "length (main_name_of (conflict_name requester path ts)) > length path"
    by (simp add: main_name_conflict sanitize_dash flat_def Let_def)
  then show ?thesis using True by auto
next
  case False
  then show ?thesis by (simp add: main_name_conflict sanitize_dash flat_id)
qed

text \<open>
  A conflict copy leads back to its file exactly when the name of the requester has no dash
  and the file lies at the top of the shared directory; domains and agent tags may contain dashes
  and files may lie deeper, and then the resolution works on another file.
\<close>

theorem main_name_exact:
  "main_name_of (conflict_name requester path ts) = path \<longleftrightarrow>
     CHR ''-'' \<notin> set requester \<and> CHR ''/'' \<notin> set path"
  by (rule main_name_iff)

section \<open>A conflict and its resolution\<close>

lemma conflict_name_simple:
  assumes "simple_name p"
  shows "simple_name (conflict_name r p ts)" "conflict_name r p ts \<noteq> p" "prefix ''.sync-conflict-'' (conflict_name r p ts)"
proof -
  have "CHR ''/'' \<notin> set (fmt_dec ts) \<and> CHR 0x00 \<notin> set (fmt_dec ts)" by (rule fmt_dec_plain)
  moreover have "CHR ''/'' \<notin> set (sanitize_name r) \<and> CHR 0x00 \<notin> set (sanitize_name r)"
    by (auto simp: sanitize_name_def map_chars_def is_ascii_alphanumeric_def is_ascii_lowercase_def is_ascii_uppercase_def is_ascii_digit_def)
  moreover have "CHR 0x00 \<notin> set (flat p)" using assms by (auto simp: flat_def simple_name_def)
  ultimately show "simple_name (conflict_name r p ts)"
    by (auto simp: conflict_name_def simple_name_def flat_def)
  have "length (conflict_name r p ts) > length p" by (simp add: conflict_name_def)
  then show "conflict_name r p ts \<noteq> p" by auto
  show "prefix ''.sync-conflict-'' (conflict_name r p ts)" by (simp add: conflict_name_def)
qed

text \<open>The shared directory of a client, as the resolution of conflicts needs it.\<close>

definition share_at :: "env \<Rightarrow> string list \<Rightarrow> fs \<Rightarrow> bool" where
  "share_at env cs F \<longleftrightarrow> share_dir env \<noteq> [] \<and> \<not> suffix ''/'' (share_dir env) \<and>
     resolve F (share_dir env) = Inr cs \<and> node_at F cs = Some Dir"

lemma share_at_set:
  assumes "share_at env cs F" and "node_at F q \<noteq> Some Dir"
  shows "share_at env cs (set_node q (File b) F)"
  using assms resolve_kept dirs_kept_set_File [OF assms(2)] unfolding share_at_def dirs_kept_def by blast

lemma materialize_in_share:
  assumes "share_at env cs F" and "simple_name (fte_path en)" and "node_at F (cs @ [fte_path en]) \<noteq> Some Dir"
    and "env ''NSMT_SYMLINK_VIEW'' = None"
  shows "materialize env lnk en bs F = (Inr (), set_node (cs @ [fte_path en]) (File bs) F)"
proof -
  have p: "parent (join (share_dir env) (fte_path en)) = share_dir env"
    using assms(1,2) by (intro parent_join) (auto simp: share_at_def simple_name_def)
  show ?thesis
    using assms write_in_dir [of F "share_dir env" cs "fte_path en" bs] create_dir_all_idem [of F "share_dir env" cs]
    by (simp add: materialize_def p Let_def share_at_def)
qed

lemma materialize_conflict_in_share:
  fixes requester ts
  assumes "share_at env cs F" and "simple_name (fte_path en)" and "node_at F (cs @ [fte_path en]) = Some (File local)"
    and "object_id C local \<noteq> fte_blob_id en" and "env ''NSMT_SYMLINK_VIEW'' = None"
    and "cn = conflict_name requester (fte_path en) ts" and "node_at F (cs @ [cn]) \<noteq> Some Dir"
  shows "materialize_with_conflict C env lnk ts en bs requester F =
    (Inr (), set_node (cs @ [fte_path en]) (File bs) (set_node (cs @ [cn]) (File local) F))"
proof -
  let ?t = "join (share_dir env) (fte_path en)"
  note sh = assms(1) [unfolded share_at_def]
  have p: "parent ?t = share_dir env" using sh assms(2) by (intro parent_join) (auto simp: simple_name_def)
  have t: "fs_exists F ?t" "fs_read F ?t = Inr local"
    using sh assms(2,3) exists_in_dir [of F "share_dir env" cs "fte_path en"] read_in_dir [of F "share_dir env" cs "fte_path en"] by simp_all
  have c: "simple_name cn" "cn \<noteq> fte_path en" using conflict_name_simple [OF assms(2)] assms(6) by simp_all
  have w: "copy_file ?t (join (share_dir env) cn) F = set_node (cs @ [cn]) (File local) F"
    using write_in_dir [of F "share_dir env" cs cn local] sh c(1) assms(7) t(2) by (simp add: copy_file_def)
  have m: "materialize env lnk en bs (set_node (cs @ [cn]) (File local) F) =
      (Inr (), set_node (cs @ [fte_path en]) (File bs) (set_node (cs @ [cn]) (File local) F))"
    using materialize_in_share [OF share_at_set [OF assms(1,7)] assms(2)] assms(3,5) c(2) by simp
  show ?thesis
    unfolding materialize_with_conflict_def Let_def t p assms(6) [symmetric] using w m assms(4) t by simp
qed

text \<open>What keeping the local version, or the remote one, makes of the file system.\<close>

definition local_kept :: "string list \<Rightarrow> string \<Rightarrow> string \<Rightarrow> bytes \<Rightarrow> fs \<Rightarrow> fs" where
  "local_kept cs cn main l F =
     (let G = set_node (cs @ [main]) (File l) F in G\<lparr>nodes := hm_remove (cs @ [cn]) (nodes G)\<rparr>)"

definition remote_kept :: "string list \<Rightarrow> string \<Rightarrow> fs \<Rightarrow> fs" where
  "remote_kept cs cn F = F\<lparr>nodes := hm_remove (cs @ [cn]) (nodes F)\<rparr>"

text \<open>A conflict copy \<open>cn\<close> with the contents \<open>l\<close> in the shared directory.\<close>

definition conflict_at :: "env \<Rightarrow> string list \<Rightarrow> string \<Rightarrow> bytes \<Rightarrow> fs \<Rightarrow> bool" where
  "conflict_at env cs cn l F \<longleftrightarrow> share_at env cs F \<and> simple_name cn \<and> prefix ''.sync-conflict-'' cn \<and>
     node_at F (cs @ [cn]) = Some (File l) \<and> simple_name (main_name_of cn) \<and> main_name_of cn \<noteq> cn \<and>
     node_at F (cs @ [main_name_of cn]) \<noteq> Some Dir"

lemma conflict_calls:
  assumes "conflict_at env cs cn l F"
  shows "resolve F (join (share_dir env) cn) = Inr (cs @ [cn])"
    and "fs_read F (join (share_dir env) cn) = Inr l"
    and "fs_write (join (share_dir env) (main_name_of cn)) l F = Inr (set_node (cs @ [main_name_of cn]) (File l) F)"
    and "resolve (set_node (cs @ [main_name_of cn]) (File l) F) (join (share_dir env) cn) = Inr (cs @ [cn])"
    and "node_at (set_node (cs @ [main_name_of cn]) (File l) F) (cs @ [cn]) = Some (File l)"
proof -
  note c = assms [unfolded conflict_at_def share_at_def]
  show r: "resolve F (join (share_dir env) cn) = Inr (cs @ [cn])" using c by (simp add: resolve_join)
  show "resolve (set_node (cs @ [main_name_of cn]) (File l) F) (join (share_dir env) cn) = Inr (cs @ [cn])"
    by (rule resolve_kept [OF r dirs_kept_set_File]) (use c in simp)
qed (use assms in \<open>auto simp: conflict_at_def share_at_def read_in_dir write_in_dir\<close>)

lemma api_resolve_local:
  assumes "conflict_at env cs cn l F"
  shows "api_resolve env cn ''local'' content F =
    (KeepLocal (join (share_dir env) (main_name_of cn)), local_kept cs cn (main_name_of cn) l F)"
proof -
  note c = conflict_calls [OF assms]
  have cp: "conflict_path F (share_dir env) cn = Some (join (share_dir env) cn)"
    using assms c(1) by (simp add: conflict_path_def conflict_at_def fs_exists_def fs_is_file_def Let_def)
  show ?thesis
    using c(4,5) by (simp add: api_resolve_def cp Let_def read_or_empty_def c(2,3) remove_quiet_def fs_remove_file_def local_kept_def)
qed

lemma api_resolve_remote:
  assumes "conflict_at env cs cn l F"
  shows "api_resolve env cn ''remote'' content F = (KeepRemote, remote_kept cs cn F)"
proof -
  note c = conflict_calls(1) [OF assms]
  have "conflict_path F (share_dir env) cn = Some (join (share_dir env) cn)"
    using assms c by (simp add: conflict_path_def conflict_at_def fs_exists_def fs_is_file_def Let_def)
  then show ?thesis
    using c assms by (simp add: api_resolve_def Let_def remove_quiet_def fs_remove_file_def remote_kept_def conflict_at_def)
qed

lemma local_kept_dir:
  assumes "conflict_at env cs cn l F"
  shows "resolve (local_kept cs cn (main_name_of cn) l F) (share_dir env) = Inr cs"
    and "node_at (local_kept cs cn (main_name_of cn) l F) cs = Some Dir"
proof -
  note c = assms [unfolded conflict_at_def share_at_def]
  let ?G = "set_node (cs @ [main_name_of cn]) (File l) F"
  let ?H = "local_kept cs cn (main_name_of cn) l F"
  have g: "dirs_kept F ?G" using c by (intro dirs_kept_set_File) simp
  have h: "?H = ?G\<lparr>nodes := hm_remove (cs @ [cn]) (nodes ?G)\<rparr>" by (simp add: local_kept_def Let_def)
  have "dirs_kept ?G ?H" unfolding h using c by (intro dirs_kept_remove_File) auto
  with g have k: "dirs_kept F ?H" by (rule dirs_kept_trans)
  then show "resolve ?H (share_dir env) = Inr cs" "node_at ?H cs = Some Dir"
    using resolve_kept [of F "share_dir env" cs ?H] c by (auto simp: dirs_kept_def)
qed

lemma read_local_kept:
  assumes "conflict_at env cs cn l F"
  shows "fs_read (local_kept cs cn (main_name_of cn) l F) (join (share_dir env) (main_name_of cn)) = Inr l"
    and "\<not> fs_exists (local_kept cs cn (main_name_of cn) l F) (join (share_dir env) cn)"
  using read_in_dir [OF local_kept_dir [OF assms]] exists_in_dir [OF local_kept_dir [OF assms]] assms
  by (simp_all add: conflict_at_def local_kept_def Let_def)

lemma other_after_local:
  assumes "conflict_at env cs cn l F" and "simple_name p" and "p \<noteq> cn" and "p \<noteq> main_name_of cn"
  shows "fs_read (local_kept cs cn (main_name_of cn) l F) (join (share_dir env) p) = fs_read F (join (share_dir env) p)"
proof -
  note c = assms(1) [unfolded conflict_at_def share_at_def]
  have F: "resolve F (share_dir env) = Inr cs" "node_at F cs = Some Dir" using c by simp_all
  note H = local_kept_dir [OF assms(1)]
  show ?thesis using read_in_dir [OF F assms(2)] read_in_dir [OF H assms(2)] assms(3,4) by (simp add: local_kept_def Let_def)
qed

lemma read_remote_kept:
  assumes "conflict_at env cs cn l F" and "node_at F (cs @ [main_name_of cn]) = Some (File b)"
  shows "fs_read (remote_kept cs cn F) (join (share_dir env) (main_name_of cn)) = Inr b"
    and "\<not> fs_exists (remote_kept cs cn F) (join (share_dir env) cn)"
proof -
  note c = assms(1) [unfolded conflict_at_def share_at_def]
  have k: "dirs_kept F (remote_kept cs cn F)" unfolding remote_kept_def using c by (intro dirs_kept_remove_File) auto
  have H: "resolve (remote_kept cs cn F) (share_dir env) = Inr cs" "node_at (remote_kept cs cn F) cs = Some Dir"
    using resolve_kept [of F "share_dir env" cs] k c by (auto simp: dirs_kept_def)
  then show "fs_read (remote_kept cs cn F) (join (share_dir env) (main_name_of cn)) = Inr b"
    "\<not> fs_exists (remote_kept cs cn F) (join (share_dir env) cn)"
    using read_in_dir [OF H] exists_in_dir [OF H] c assms(2) by (simp_all add: remote_kept_def)
qed

lemma flat_plain: "simple_name p \<Longrightarrow> CHR ''/'' \<notin> set (flat p) \<and> CHR 0x00 \<notin> set (flat p)"
  by (auto simp: flat_def simple_name_def)

lemma main_name_simple:
  assumes "simple_name p"
  shows "simple_name (main_name_of (conflict_name r p ts))"
    and "main_name_of (conflict_name r p ts) \<noteq> conflict_name r p ts"
proof -
  have plain: "CHR ''/'' \<notin> set (sanitize_name r) \<and> CHR 0x00 \<notin> set (sanitize_name r)"
    by (auto simp: sanitize_name_def map_chars_def is_ascii_alphanumeric_def is_ascii_lowercase_def is_ascii_uppercase_def is_ascii_digit_def)
  have fl: "flat p = p" using assms by (simp add: flat_id simple_name_def)
  let ?t = "tl (dropWhile (\<lambda>c. c \<noteq> CHR ''-'') (sanitize_name r))"
  have t: "set ?t \<subseteq> set (sanitize_name r)"
    by (metis list.sel(2) list.set_sel(2) set_dropWhileD subsetI)
  have "main_name_of (conflict_name r p ts) = p \<or> main_name_of (conflict_name r p ts) = ?t @ ''-'' @ p"
    by (simp add: main_name_conflict fl Let_def)
  moreover have "simple_name (?t @ ''-'' @ p)"
    using t plain assms by (auto simp: simple_name_def append_eq_Cons_conv)
  ultimately show "simple_name (main_name_of (conflict_name r p ts))" using assms by auto
  have "length ?t \<le> length (sanitize_name r)"
    using length_dropWhile_le [of "\<lambda>c. c \<noteq> CHR ''-''" "sanitize_name r"] by simp
  then have "length (main_name_of (conflict_name r p ts)) < length (conflict_name r p ts)"
    unfolding main_name_conflict Let_def by (simp add: conflict_name_def flat_def)
  then show "main_name_of (conflict_name r p ts) \<noteq> conflict_name r p ts" by auto
qed

text \<open>
  C16: no local change is lost to a remote one.  When a file at the top of the shared directory that
  was changed locally arrives with other contents, it gets the remote contents and a conflict copy
  next to it holds the local ones, whoever asked for the file.  When the requester has no dash in
  its name, the resolution of this copy by \<open>local\<close> brings the local contents back into the file,
  the one by \<open>remote\<close> keeps the remote contents, and both remove the copy.  When its name has a
  dash, as the name of a domain or the tag of an agent may, the resolution by \<open>local\<close> works on
  another file: the local contents end up under the name that is read from the copy, which is not the name of
  the file, and the file keeps the remote contents.
\<close>

theorem conflict_keeps_both:
  fixes requester :: string and ts :: nat
  assumes "share_at env cs F" and "simple_name (fte_path en)" and "node_at F (cs @ [fte_path en]) = Some (File local)"
    and "object_id C local \<noteq> fte_blob_id en" and "env ''NSMT_SYMLINK_VIEW'' = None"
    and "node_at F (cs @ [conflict_name requester (fte_path en) ts]) \<noteq> Some Dir"
  shows "\<exists>F1. materialize_with_conflict C env lnk ts en bs requester F = (Inr (), F1) \<and>
    (let file = join (share_dir env) (fte_path en); cn = conflict_name requester (fte_path en) ts;
         copy = join (share_dir env) cn; main = main_name_of cn
     in fs_read F1 file = Inr bs \<and> fs_read F1 copy = Inr local \<and>
        (CHR ''-'' \<notin> set requester \<longrightarrow> (\<exists>F2 F3.
          api_resolve env cn ''local'' None F1 = (KeepLocal file, F2) \<and> fs_read F2 file = Inr local \<and> \<not> fs_exists F2 copy \<and>
          api_resolve env cn ''remote'' None F1 = (KeepRemote, F3) \<and> fs_read F3 file = Inr bs \<and> \<not> fs_exists F3 copy)) \<and>
        (CHR ''-'' \<in> set requester \<and> node_at F (cs @ [main]) \<noteq> Some Dir \<longrightarrow> main \<noteq> fte_path en \<and> (\<exists>F2.
          api_resolve env cn ''local'' None F1 = (KeepLocal (join (share_dir env) main), F2) \<and>
          fs_read F2 (join (share_dir env) main) = Inr local \<and> fs_read F2 file = Inr bs \<and> \<not> fs_exists F2 copy)))"
proof -
  define cn where "cn = conflict_name requester (fte_path en) ts"
  let ?p = "fte_path en" and ?m = "main_name_of cn"
  let ?F0 = "set_node (cs @ [cn]) (File local) F" and ?F1 = "set_node (cs @ [?p]) (File bs) (set_node (cs @ [cn]) (File local) F)"
  have nd: "node_at F (cs @ [cn]) \<noteq> Some Dir" using assms(6) by (simp add: cn_def)
  have m: "materialize_with_conflict C env lnk ts en bs requester F = (Inr (), ?F1)"
    by (rule materialize_conflict_in_share [OF assms(1-5) cn_def nd])
  have cn: "simple_name cn" "cn \<noteq> ?p" "prefix ''.sync-conflict-'' cn" using conflict_name_simple [OF assms(2)] by (simp_all add: cn_def)
  have mn: "simple_name ?m" "?m \<noteq> cn" using main_name_simple [OF assms(2)] by (simp_all add: cn_def)
  have sh: "share_at env cs ?F1"
    by (intro share_at_set assms(1)) (use nd assms(3) cn(2) in auto)
  have c: "conflict_at env cs cn local ?F1" if "node_at F (cs @ [?m]) \<noteq> Some Dir"
    using that sh assms(2) cn mn by (simp add: conflict_at_def)
  have f: "fs_read ?F1 (join (share_dir env) ?p) = Inr bs" "fs_read ?F1 (join (share_dir env) cn) = Inr local"
    using sh read_in_dir [of ?F1 "share_dir env" cs] assms(2) cn(1,2) by (simp_all add: share_at_def)
  have exact: "?m = ?p \<longleftrightarrow> CHR ''-'' \<notin> set requester" unfolding cn_def main_name_iff using assms(2) by (simp add: simple_name_def)
  have plain: "\<exists>F2 F3. api_resolve env cn ''local'' None ?F1 = (KeepLocal (join (share_dir env) ?p), F2) \<and>
      fs_read F2 (join (share_dir env) ?p) = Inr local \<and> \<not> fs_exists F2 (join (share_dir env) cn) \<and>
      api_resolve env cn ''remote'' None ?F1 = (KeepRemote, F3) \<and>
      fs_read F3 (join (share_dir env) ?p) = Inr bs \<and> \<not> fs_exists F3 (join (share_dir env) cn)"
    if "CHR ''-'' \<notin> set requester"
  proof -
    have e: "?m = ?p" using exact that by simp
    have c: "conflict_at env cs cn local ?F1" by (rule c) (use e assms(3) in simp)
    have "node_at ?F1 (cs @ [?m]) = Some (File bs)" by (simp add: e)
    note r = read_remote_kept [OF c this, unfolded e] and l = read_local_kept [OF c, unfolded e]
    show ?thesis
      using api_resolve_local [OF c, of None, unfolded e] api_resolve_remote [OF c, of None] r l by blast
  qed
  have dash: "?m \<noteq> ?p \<and> (\<exists>F2. api_resolve env cn ''local'' None ?F1 = (KeepLocal (join (share_dir env) ?m), F2) \<and>
      fs_read F2 (join (share_dir env) ?m) = Inr local \<and> fs_read F2 (join (share_dir env) ?p) = Inr bs \<and>
      \<not> fs_exists F2 (join (share_dir env) cn))"
    if "CHR ''-'' \<in> set requester" "node_at F (cs @ [?m]) \<noteq> Some Dir"
  proof -
    note k = c [OF that(2)]
    have "?m \<noteq> ?p" using exact that(1) by simp
    moreover have "fs_read (local_kept cs cn ?m local ?F1) (join (share_dir env) ?p) = Inr bs"
      using other_after_local [OF k, of ?p] assms(2) cn(2) calculation f(1) by simp
    ultimately show ?thesis using api_resolve_local [OF k, of None] read_local_kept [OF k] by blast
  qed
  show ?thesis unfolding Let_def cn_def [symmetric]
    by (intro exI [of _ ?F1] conjI impI m f plain dash [THEN conjunct1] dash [THEN conjunct2]) simp_all
qed

definition conflict_env :: env where "conflict_env = [''NSMT_SHARE_DIR'' \<mapsto> ''/s'']"

definition conflict_disk :: fs where
  "conflict_disk = \<lparr>cwd = [], nodes = [([''s''], Dir), ([''s'', ''f''], File [1])]\<rparr>"

lemma conflict_disk_share: "share_at conflict_env [''s''] conflict_disk" "share_dir conflict_env = ''/s''"
  by (simp_all add: share_at_def conflict_env_def share_dir_def conflict_disk_def suffix_to_prefix resolve_def start_of_def
      node_at_def hm_get_def)

theorem conflict_keeps_both_witness:
  "(\<exists>F1 F2 F3. materialize_with_conflict sample_crates conflict_env (\<lambda>_ _ F. Inr F) 5
      \<lparr>fte_path = ''f'', fte_blob_id = object_id sample_crates [2], fte_mode = 420, fte_size = 1, fte_mtime_ns = 0\<rparr> [2] ''d/m/t'' conflict_disk
      = (Inr (), F1) \<and> fs_read F1 ''/s/f'' = Inr [2] \<and>
    api_resolve conflict_env (conflict_name ''d/m/t'' ''f'' 5) ''local'' None F1 = (KeepLocal ''/s/f'', F2) \<and> fs_read F2 ''/s/f'' = Inr [1] \<and>
    api_resolve conflict_env (conflict_name ''d/m/t'' ''f'' 5) ''remote'' None F1 = (KeepRemote, F3) \<and> fs_read F3 ''/s/f'' = Inr [2]) \<and>
   (\<exists>F1 F2. materialize_with_conflict sample_crates conflict_env (\<lambda>_ _ F. Inr F) 5
      \<lparr>fte_path = ''f'', fte_blob_id = object_id sample_crates [2], fte_mode = 420, fte_size = 1, fte_mtime_ns = 0\<rparr> [2] ''d/m/a-1'' conflict_disk
      = (Inr (), F1) \<and> fs_read F1 ''/s/f'' = Inr [2] \<and>
    api_resolve conflict_env (conflict_name ''d/m/a-1'' ''f'' 5) ''local'' None F1 = (KeepLocal ''/s/1-f'', F2) \<and>
    fs_read F2 ''/s/1-f'' = Inr [1] \<and> fs_read F2 ''/s/f'' = Inr [2])"
proof (rule conjI)
  let ?en = "\<lparr>fte_path = ''f'', fte_blob_id = object_id sample_crates [2], fte_mode = 420, fte_size = 1, fte_mtime_ns = 0\<rparr>"
  have n: "simple_name (fte_path ?en)" by (simp add: simple_name_def)
  have cn: "conflict_name r ''f'' 5 \<noteq> ''f''" for r by (rule conflict_name_simple(2)) (simp add: simple_name_def)
  have a: "node_at conflict_disk ([''s''] @ [fte_path ?en]) = Some (File [1])" "conflict_env ''NSMT_SYMLINK_VIEW'' = None"
    "node_at conflict_disk ([''s''] @ [conflict_name r (fte_path ?en) 5]) \<noteq> Some Dir" for r
    using cn [of r] by (simp_all add: conflict_disk_def node_at_def hm_get_def conflict_env_def)
  have o: "object_id sample_crates [1] \<noteq> fte_blob_id ?en" by (simp add: object_id_def sample_crates_def pad32_def sample_hex_def hex_digit_def)
  have j: "join ''/s'' ''f'' = ''/s/f''" "join ''/s'' ''1-f'' = ''/s/1-f''" by (simp_all add: join_def suffix_to_prefix)
  note both = conflict_keeps_both [OF conflict_disk_share(1) n a(1) o a(2,3), where lnk = "\<lambda>_ _ F. Inr F" and bs = "[2]"]
  show "\<exists>F1 F2 F3. materialize_with_conflict sample_crates conflict_env (\<lambda>_ _ F. Inr F) 5 ?en [2] ''d/m/t'' conflict_disk
      = (Inr (), F1) \<and> fs_read F1 ''/s/f'' = Inr [2] \<and>
    api_resolve conflict_env (conflict_name ''d/m/t'' ''f'' 5) ''local'' None F1 = (KeepLocal ''/s/f'', F2) \<and> fs_read F2 ''/s/f'' = Inr [1] \<and>
    api_resolve conflict_env (conflict_name ''d/m/t'' ''f'' 5) ''remote'' None F1 = (KeepRemote, F3) \<and> fs_read F3 ''/s/f'' = Inr [2]"
    using both [of "''d/m/t''"] by (simp add: Let_def conflict_disk_share(2) j) blast
  have mn: "main_name_of (conflict_name ''d/m/a-1'' ''f'' 5) = ''1-f''"
    by (simp add: main_name_conflict sanitize_name_def map_chars_def is_continuation_def is_ascii_alphanumeric_def
        is_ascii_lowercase_def is_ascii_uppercase_def is_ascii_digit_def flat_def Let_def)
  have "node_at conflict_disk ([''s''] @ [''1-f'']) \<noteq> Some Dir" by (simp add: conflict_disk_def node_at_def hm_get_def)
  with both [of "''d/m/a-1''"]
  show "\<exists>F1 F2. materialize_with_conflict sample_crates conflict_env (\<lambda>_ _ F. Inr F) 5 ?en [2] ''d/m/a-1'' conflict_disk
      = (Inr (), F1) \<and> fs_read F1 ''/s/f'' = Inr [2] \<and>
    api_resolve conflict_env (conflict_name ''d/m/a-1'' ''f'' 5) ''local'' None F1 = (KeepLocal ''/s/1-f'', F2) \<and>
    fs_read F2 ''/s/1-f'' = Inr [1] \<and> fs_read F2 ''/s/f'' = Inr [2]"
    by (simp add: Let_def conflict_disk_share(2) j mn) blast
qed

section \<open>Copies in subdirectories\<close>

lemma conflict_name_flat:
  assumes "simple_name d" and "simple_name n"
  shows "simple_name (conflict_name r (d @ ''/'' @ n) ts)"
proof -
  have "CHR ''/'' \<notin> set (fmt_dec ts) \<and> CHR 0x00 \<notin> set (fmt_dec ts)" by (rule fmt_dec_plain)
  moreover have "CHR ''/'' \<notin> set (sanitize_name r) \<and> CHR 0x00 \<notin> set (sanitize_name r)"
    by (auto simp: sanitize_name_def map_chars_def is_ascii_alphanumeric_def is_ascii_lowercase_def is_ascii_uppercase_def is_ascii_digit_def)
  ultimately show ?thesis using assms by (auto simp: conflict_name_def simple_name_def)
qed

text \<open>
  The conflict copy of a file in a subdirectory is an ordinary file for the scan, which knows
  conflict copies by the start of the relative name: the tree that the client pushes next contains
  the copy.
\<close>

theorem nested_copy_is_shared:
  fixes requester :: string and ts :: nat
  assumes "share_at env cs F" and "fs_ok F" and "simple_name d" and "simple_name n" and "fte_path en = d @ ''/'' @ n"
    and "node_at F (cs @ [d]) = Some Dir" and "node_at F (cs @ [d, n]) = Some (File local)" and "object_id C local \<noteq> fte_blob_id en"
    and "env ''NSMT_SYMLINK_VIEW'' = None" and "cn = conflict_name requester (d @ ''/'' @ n) ts"
    and "node_at F (cs @ [d, cn]) \<noteq> Some Dir" and "\<not> not_synced (slashes (d @ ''/'' @ cn))"
  shows "\<exists>F1 t. materialize_with_conflict C env lnk ts en bs requester F = (Inr (), F1) \<and>
    build_tree C mt F1 (share_dir env) = Some (Inr t) \<and>
    (\<exists>e \<in> set (ft_entries t). fte_path e = slashes (d @ ''/'' @ cn) \<and> fte_blob_id e = object_id C local)"
proof -
  note sh = assms(1) [unfolded share_at_def]
  let ?D = "join (share_dir env) d" and ?t = "join (share_dir env) (fte_path en)"
  let ?G = "set_node (cs @ [d, cn]) (File local) F"
  let ?H = "set_node (cs @ [d, n]) (File bs) ?G"
  have D: "resolve F ?D = Inr (cs @ [d])" "node_at F (cs @ [d]) = Some Dir"
    using sh assms(3,6) resolve_join [of F "share_dir env" cs d] by simp_all
  have rel: "\<not> prefix ''/'' d" "\<not> prefix ''/'' (d @ ''/'' @ n)" "\<not> prefix ''/'' n" using assms(3,4)
    by (auto simp: simple_name_def prefix_def append_eq_Cons_conv)
  have Dne: "?D \<noteq> []" "\<not> suffix ''/'' ?D"
    using assms(3) sh rel(1) by (cases d rule: rev_cases; auto simp: join_def simple_name_def suffix_def)+
  have t: "?t = join ?D n" using sh rel Dne by (simp add: assms(5) join_def)
  have p: "parent ?t = ?D" unfolding t using Dne assms(4) by (intro parent_join) (auto simp: simple_name_def)
  have c: "simple_name cn" unfolding assms(10) using assms(3,4) by (rule conflict_name_flat)
  have cne: "conflict_name requester (fte_path en) ts = cn" by (simp only: assms(5,10))
  have cnn: "cn \<noteq> n" by (simp add: assms(10) conflict_name_def)
  have F: "fs_exists F ?t" "fs_read F ?t = Inr local"
    using exists_in_dir [OF D assms(4)] read_in_dir [OF D assms(4)] assms(7) by (simp_all add: t)
  have w: "copy_file ?t (join ?D cn) F = ?G"
    using write_in_dir [OF D c, of local] assms(11) F(2) by (simp add: copy_file_def)
  have k: "dirs_kept F ?G" by (rule dirs_kept_set_File [OF assms(11)])
  then have G: "resolve ?G ?D = Inr (cs @ [d])" "node_at ?G (cs @ [d]) = Some Dir" using resolve_kept [OF D(1)] D(2) by (auto simp: dirs_kept_def)
  have "materialize env lnk en bs ?G = (Inr (), ?H)"
    using write_in_dir [OF G assms(4), of bs] create_dir_all_idem [OF G] assms(7,9) cnn
    by (simp add: materialize_def p [unfolded t] Let_def t)
  then have m: "materialize_with_conflict C env lnk ts en bs requester F = (Inr (), ?H)"
    using w F assms(8) by (simp add: materialize_with_conflict_def Let_def t p [unfolded t] cne)
  have H: "dirs_kept F ?H" using k dirs_kept_trans dirs_kept_set_File [of ?G "cs @ [d, n]"] assms(7) cnn by (simp add: dirs_kept_trans)
  have okG: "fs_ok ?G" using assms(2,6,11) c by (intro fs_ok_set_node) (auto simp: placed_def butlast_append)
  have okH: "fs_ok ?H" using G(2) assms(4,7) cnn by (intro fs_ok_set_node [OF okG]) (auto simp: placed_def butlast_append)
  have shH: "resolve ?H (share_dir env) = Inr cs" "node_at ?H cs = Some Dir" using sh resolve_kept [OF _ H] H by (auto simp: dirs_kept_def)
  from build_tree_entries [OF okH shH, of C mt] obtain u where u: "build_tree C mt ?H (share_dir env) = Some (Inr u)"
    "mset (ft_entries u) = mset (map (tree_entry C mt (share_dir env) cs) (filter (in_tree cs) (nodes ?H)))" by blast
  let ?x = "(cs @ [d, cn], File local)"
  have "?x \<in> set (nodes ?H)" using entry_node [OF okH] cnn by simp
  moreover have nm: "tree_name cs (cs @ [d, cn]) = slashes (d @ ''/'' @ cn)" by (simp add: tree_name_def)
  moreover have "in_tree cs ?x" using assms(12) nm by (simp add: in_tree_def strict_prefix_def)
  ultimately have "tree_entry C mt (share_dir env) cs ?x \<in> set (ft_entries u)" using mset_eq_setD [OF u(2)] by simp
  moreover have "fte_path (tree_entry C mt (share_dir env) cs ?x) = slashes (d @ ''/'' @ cn)"
    "fte_blob_id (tree_entry C mt (share_dir env) cs ?x) = object_id C local"
    by (simp_all add: tree_entry_def entry_of_def nm contents_def)
  ultimately show ?thesis using m u(1) by blast
qed

section \<open>The command line and the web interface\<close>

lemma resolve_here:
  assumes "simple_name n" and "node_at F (cwd F) = Some Dir"
  shows "resolve F n = Inr (cwd F @ [n])"
proof -
  have "\<not> prefix ''/'' n" using assms(1) by (cases n) (auto simp: simple_name_def)
  then show ?thesis using assms by (simp add: resolve_def start_of_def simple_name_def split_char_none)
qed

lemma file_name_simple: "simple_name n \<Longrightarrow> file_name n = Some n"
  by (simp add: file_name_def simple_name_def split_char_none)

lemma conflict_arg:
  assumes "prefix ''.sync-conflict-'' cn"
  shows "prefix ''.'' cn" "keep_of [''yggd'', addr, ''merge'', cn, ''--keep-local''] = (if addr = ''--keep-remote'' then Some False else Some True)"
    "keep_of [''yggd'', addr, ''merge'', cn, ''--keep-remote''] = (if addr = ''--keep-local'' then Some True else Some False)"
  using assms by (auto simp: keep_of_def prefix_def)

text \<open>
  \<open>yggd merge\<close> and the web interface resolve a conflict alike, when the command runs inside the
  shared directory: both leave the same files behind.
\<close>

theorem merge_like_web:
  assumes "conflict_at env cs cn l F" and "cwd F = cs" and "addr \<notin> {''--keep-local'', ''--keep-remote''}"
  shows "conflicts_cli env inp [''yggd'', addr, ''merge'', cn, ''--keep-local''] F =
      (Inr (MergedLocal (join (share_dir env) (main_name_of cn))), snd (api_resolve env cn ''local'' content F)) \<and>
    conflicts_cli env inp [''yggd'', addr, ''merge'', cn, ''--keep-remote''] F =
      (Inr (MergedRemote (join (share_dir env) (main_name_of cn))), snd (api_resolve env cn ''remote'' content F))"
proof -
  note c = assms(1) [unfolded conflict_at_def share_at_def] and w = conflict_calls(3-5) [OF assms(1)]
  have here: "resolve F cn = Inr (cs @ [cn])" using resolve_here [of cn F] c assms(2) by simp
  let ?G = "set_node (cs @ [main_name_of cn]) (File l) F"
  have G: "resolve ?G cn = Inr (cs @ [cn])" by (rule resolve_kept [OF here dirs_kept_set_File]) (use c in simp)
  have r: "fs_exists F cn" "fs_read F cn = Inr l" using here c by (simp_all add: fs_exists_def fs_read_def)
  have rm: "fs_remove_file cn ?G = Inr (local_kept cs cn (main_name_of cn) l F)" "fs_remove_file cn F = Inr (remote_kept cs cn F)"
    using G here w(3) c by (simp_all add: fs_remove_file_def local_kept_def remote_kept_def Let_def)
  have fn: "file_name cn = Some cn" using c by (intro file_name_simple) simp
  note k = conflict_arg(1) [of cn] conflict_arg(2,3) [of cn addr]
  have "prefix ''.'' cn" "keep_of [''yggd'', addr, ''merge'', cn, ''--keep-local''] = Some True"
    "keep_of [''yggd'', addr, ''merge'', cn, ''--keep-remote''] = Some False"
    using k c assms(3) by auto
  then show ?thesis
    using api_resolve_local [OF assms(1)] api_resolve_remote [OF assms(1)] w(1) rm r fn
    by (simp add: conflicts_cli_def merge_cmd_def Let_def merge_local_def merge_remote_def)
qed

theorem merge_like_web_witness:
  "conflicts_cli conflict_env [] [''yggd'', ''srv'', ''merge'', ''.sync-conflict-d-f-5'', ''--keep-local'']
      (conflict_disk\<lparr>cwd := [''s''], nodes := ([''s'', ''.sync-conflict-d-f-5''], File [9]) # nodes conflict_disk\<rparr>) =
    (Inr (MergedLocal ''/s/f''), snd (api_resolve conflict_env ''.sync-conflict-d-f-5'' ''local'' None
      (conflict_disk\<lparr>cwd := [''s''], nodes := ([''s'', ''.sync-conflict-d-f-5''], File [9]) # nodes conflict_disk\<rparr>)))"
proof -
  let ?F = "conflict_disk\<lparr>cwd := [''s''], nodes := ([''s'', ''.sync-conflict-d-f-5''], File [9]) # nodes conflict_disk\<rparr>"
  let ?cn = "''.sync-conflict-d-f-5''"
  have mn: "main_name_of ?cn = ''f''"
    by (simp add: main_name_of_def strip_prefix_def rfind_char_def find_char_def)
  have "conflict_at conflict_env [''s''] ?cn [9] ?F"
    unfolding conflict_at_def mn by (simp add: share_at_def conflict_disk_share(2) conflict_disk_def suffix_to_prefix resolve_def
        start_of_def node_at_def hm_get_def simple_name_def)
  from merge_like_web [OF this, of "''srv''" "[]" None] show ?thesis
    by (simp add: mn conflict_disk_share(2)) (simp add: join_def suffix_to_prefix)
qed

text \<open>
  Outside the shared directory a conflict copy cannot be merged by the name that the listing
  shows.  Every such name starts with a dot, and \<open>merge\<close> then takes it as a path from the
  working directory.
\<close>

theorem merge_listed_name_fails:
  assumes "conflict_at env cs cn l F" and "node_at F (cwd F) = Some Dir" and "node_at F (cwd F @ [cn]) = None"
  shows "cn \<in> ci_name ` set (list_conflicts F (share_dir env)) \<and>
    conflicts_cli env inp [''yggd'', addr, ''merge'', cn, ''--keep-local''] F = (Inl (NoConflictFile cn), F)"
proof -
  note c = assms(1) [unfolded conflict_at_def share_at_def]
  have "cn \<in> set (children F cs)"
    using c unfolding children_def hm_keys_iff set_map set_filter
    by (auto simp: node_at_def hm_keys_iff image_def intro!: exI [of _ "cs @ [cn]"])
  then have "cn \<in> ci_name ` set (list_conflicts F (share_dir env))"
    using c by (force simp: list_conflicts_def fs_read_dir_def)
  moreover have "\<not> fs_exists F cn" using resolve_here [of cn F] c assms(2,3) by (simp add: fs_exists_def)
  ultimately show ?thesis using conflict_arg(1) [of cn] c by (simp add: conflicts_cli_def merge_cmd_def Let_def)
qed

theorem merge_listed_name_fails_witness:
  "conflicts_cli conflict_env [] [''yggd'', ''srv'', ''merge'', ''.sync-conflict-d-f-5'', ''--keep-local'']
      (conflict_disk\<lparr>nodes := ([''s'', ''.sync-conflict-d-f-5''], File [9]) # nodes conflict_disk\<rparr>) =
    (Inl (NoConflictFile ''.sync-conflict-d-f-5''),
      conflict_disk\<lparr>nodes := ([''s'', ''.sync-conflict-d-f-5''], File [9]) # nodes conflict_disk\<rparr>)"
proof -
  let ?F = "conflict_disk\<lparr>nodes := ([''s'', ''.sync-conflict-d-f-5''], File [9]) # nodes conflict_disk\<rparr>"
  let ?cn = "''.sync-conflict-d-f-5''"
  have mn: "main_name_of ?cn = ''f''"
    by (simp add: main_name_of_def strip_prefix_def rfind_char_def find_char_def)
  have "conflict_at conflict_env [''s''] ?cn [9] ?F"
    unfolding conflict_at_def mn by (simp add: share_at_def conflict_disk_share(2) conflict_disk_def suffix_to_prefix resolve_def
        start_of_def node_at_def hm_get_def simple_name_def)
  from merge_listed_name_fails [OF this, where inp = "[]" and addr = "''srv''"] show ?thesis
    by (simp add: conflict_disk_def node_at_def hm_get_def)
qed

end
