(* ===== verification/Client_Main.thy ===== *)
theory Client_Main
  imports Peer Client_Tree
begin

text \<open>
  The modes of the client \<open>yggd\<close>, \<open>nsmt-client/src/main.rs\<close>: the handshake, memory capture and
  recall, the note on the shared directory, the synchronisation of the shared directory and the
  online mode.  A conversation that also touches the local disk has the pair of the other end and
  the file system as its state.  Lines that are only printed or logged on the way are left out;
  where they are the result of a command they are its value.
\<close>

section \<open>Handshake\<close>

definition hello_of :: "string \<Rightarrow> hello" where
  "hello_of domain = \<lparr>hello_user_domain = domain, hello_protocol_version = PROTOCOL_VERSION, hello_client = ''yggd/0.2.1''\<rparr>"

definition auth_of :: "crates \<Rightarrow> string \<Rightarrow> key_pair \<Rightarrow> string \<Rightarrow> auth" where
  "auth_of C domain domain_key n = \<lparr>auth_user_domain = domain, auth_nonce_signature = sign C domain_key (as_bytes n)\<rparr>"

definition register_of :: "crates \<Rightarrow> string \<Rightarrow> string \<Rightarrow> string \<Rightarrow> key_pair \<Rightarrow> register" where
  "register_of C machine agent peer_addr machine_key = \<lparr>reg_machine_id = machine, reg_agent_tag = agent,
     reg_peer_addr = peer_addr, reg_machine_pubkey = public_hex C machine_key,
     reg_machine_signature = sign C machine_key (as_bytes (register_msg machine agent))\<rparr>"

definition client_handshake ::
  "'p transport \<Rightarrow> serde \<Rightarrow> crates \<Rightarrow> string \<Rightarrow> string \<Rightarrow> string \<Rightarrow> string \<Rightarrow> key_pair \<Rightarrow> key_pair \<Rightarrow> ('p, unit) conv" where
  "client_handshake T S C domain agent machine peer_addr domain_key machine_key =
     c_bind (c_send_json T S Hello (MHello (hello_of domain))) (\<lambda>_.
     c_bind (c_recv T) (\<lambda>f.
     c_bind (c_json (de_hello_ack S) f) (\<lambda>ack.
     c_bind (c_send_json T S Auth (MAuth (auth_of C domain domain_key (hello_ack_nonce ack)))) (\<lambda>_.
     c_bind (c_send_json T S Register (MRegister (register_of C machine agent peer_addr machine_key))) (\<lambda>_.
     c_bind (c_recv T) (\<lambda>g.
     c_bind (c_json (de_register_ack S) g) (\<lambda>_. c_ret ())))))))"

section \<open>Memory\<close>

text \<open>The loops that wait for an answer decode the online frames they skip.\<close>

definition await_reply ::
  "serde \<Rightarrow> frame_type \<Rightarrow> (bytes \<Rightarrow> 'a option) \<Rightarrow> ('a \<Rightarrow> bool) \<Rightarrow> frame \<Rightarrow> client_error + 'a option" where
  "await_reply S t de wanted f =
     (if frame_type f = t then
        (case payload_json de f of
           Inl e \<Rightarrow> Inl (CNsmt e)
         | Inr x \<Rightarrow> Inr (if wanted x then Some x else None))
      else if frame_type f = OnlineDelta then
        (case payload_json (de_online_delta S) f of Inl e \<Rightarrow> Inl (CNsmt e) | Inr _ \<Rightarrow> Inr None)
      else if frame_type f = OnlineList then
        (case payload_json (de_online_list S) f of Inl e \<Rightarrow> Inl (CNsmt e) | Inr _ \<Rightarrow> Inr None)
      else Inr None)"

text \<open>The line that \<open>capture\<close> prints, and the outcome of the local write that it logs.\<close>

record capture_line =
  cl_pool_committed :: bool
  cl_local_written :: string
  cl_fqn :: string

definition capture ::
  "'p transport \<Rightarrow> serde \<Rightarrow> gateways \<Rightarrow> u64 \<Rightarrow> u64 \<Rightarrow> tencent_client \<Rightarrow> string \<Rightarrow> string \<Rightarrow> string \<Rightarrow>
   ('p, capture_line \<times> (memory_error + unit)) conv" where
  "capture T S G now now' fallback fqn user assistant =
     c_bind (c_send_json T S MemoryCapture (MMemoryCapture \<lparr>mc_request_id = ''cap-'' @ fmt_dec (unat now),
       mc_user_content = user, mc_assistant_content = assistant, mc_scope = ''user'', mc_fqn = fqn, mc_observed_at = now'\<rparr>)) (\<lambda>_.
     c_bind (recv_loop T (await_reply S MemoryCaptureResult (de_memory_capture_result S) (\<lambda>_. True))) (\<lambda>r.
     let written = capture_local G fallback user assistant fqn in
     c_ret (\<lparr>cl_pool_committed = mcr_committed r, cl_local_written = ''yes'', cl_fqn = fqn\<rparr>, written)))"

definition recall_msg :: "u64 \<Rightarrow> string \<Rightarrow> memory_recall" where
  "recall_msg now query = \<lparr>mr_request_id = ''rec-'' @ fmt_dec (unat now), mr_query = query, mr_scope = ''user'',
     mr_limit = 5, mr_timeout_ms = 1500, mr_fallback_on_timeout = True\<rparr>"

text \<open>What \<open>recall\<close> prints: the source and the hits.\<close>

definition recall ::
  "'p transport \<Rightarrow> serde \<Rightarrow> gateways \<Rightarrow> u64 \<Rightarrow> tencent_client \<Rightarrow> string \<Rightarrow> ('p, string \<times> memory_hit list) conv" where
  "recall T S G now fallback query =
     c_bind (c_send_json T S MemoryRecall (MMemoryRecall (recall_msg now query))) (\<lambda>_.
     c_bind (recv_loop T (await_reply S MemoryRecallResult (de_memory_recall_result S) (\<lambda>_. True))) (\<lambda>r.
     if mrr_source r = ''pool_unavailable'' \<or> mrr_memories r = [] then
       c_bind (c_lift (map_sum CMemory id (recall_local G fallback query ''rec-local''))) (\<lambda>local.
       c_ret (''local'', mrr_memories local))
     else c_ret (''pool'', mrr_memories r)))"

section \<open>Conversations with a disk\<close>

definition on_net :: "('p, 'a) conv \<Rightarrow> ('p \<times> fs, 'a) conv" where
  "on_net m pF = (case pF of (p, F) \<Rightarrow> map_option (\<lambda>(r, p'). (r, (p', F))) (m p))"

definition on_disk :: "(fs \<Rightarrow> (io_error + 'a) \<times> fs) \<Rightarrow> ('p \<times> fs, 'a) conv" where
  "on_disk op pF = (case pF of (p, F) \<Rightarrow>
     (case op F of (Inl e, F') \<Rightarrow> Some (Inl (CIo e), (p, F')) | (Inr x, F') \<Rightarrow> Some (Inr x, (p, F'))))"

definition get_disk :: "('p \<times> fs, fs) conv" where
  "get_disk pF = Some (Inr (snd pF), pF)"

text \<open>\<open>let _ = ...\<close> on a call that changes the disk.\<close>

definition quietly :: "(fs \<Rightarrow> io_error + fs) \<Rightarrow> fs \<Rightarrow> (io_error + unit) \<times> fs" where
  "quietly op F = (Inr (), case op F of Inl _ \<Rightarrow> F | Inr F' \<Rightarrow> F')"

section \<open>The note on the shared directory\<close>

definition note_marker :: "env \<Rightarrow> path" where
  "note_marker env =
     (case env ''NSMT_HOME'' of
        Some h \<Rightarrow> join h ''share.path''
      | None \<Rightarrow> (case env ''HOME'' of Some h \<Rightarrow> join h ''.nsmt/share.path'' | None \<Rightarrow> ''.nsmt/share.path''))"

definition canonicalize :: "fs \<Rightarrow> path \<Rightarrow> io_error + path" where
  "canonicalize F p = and_then (resolve F p) (\<lambda>cs.
     if node_at F cs = None then Inl NotFound else Inr (''/'' @ slash_join cs))"

definition abs_path :: "fs \<Rightarrow> path \<Rightarrow> path" where
  "abs_path F dir = (case canonicalize F dir of Inr p \<Rightarrow> p | Inl _ \<Rightarrow> dir)"

definition share_note :: "path \<Rightarrow> string" where
  "share_note ap = ''[nsmt:share_dir] '' @
     [CHR 0xE5, CHR 0x85, CHR 0xB1, CHR 0xE4, CHR 0xBA, CHR 0xAB, CHR 0xE7, CHR 0x9B, CHR 0xAE, CHR 0xE5, CHR 0xBD, CHR 0x95] @
     '': '' @ ap"

definition note_msg :: "u64 \<Rightarrow> u64 \<Rightarrow> string \<Rightarrow> path \<Rightarrow> memory_capture" where
  "note_msg now now' fqn ap = \<lparr>mc_request_id = ''note-'' @ fmt_dec (unat now), mc_user_content = share_note ap,
     mc_assistant_content = ''(system)'', mc_scope = ''user'', mc_fqn = fqn, mc_observed_at = now'\<rparr>"

definition write_share_dir_note ::
  "'p transport \<Rightarrow> serde \<Rightarrow> gateways \<Rightarrow> env \<Rightarrow> u64 \<Rightarrow> u64 \<Rightarrow> tencent_client \<Rightarrow> string \<Rightarrow> path \<Rightarrow> ('p \<times> fs, unit) conv" where
  "write_share_dir_note T S G env now now' fallback fqn dir =
     (let marker = note_marker env in
      c_bind get_disk (\<lambda>F.
      if fs_exists F marker then c_ret ()
      else
      let ap = abs_path F dir; msg = note_msg now now' fqn ap in
      c_bind (on_net (c_send_json T S MemoryCapture (MMemoryCapture msg))) (\<lambda>_.
      c_bind (on_net (recv_loop T (await_reply S MemoryCaptureResult (de_memory_capture_result S)
        (\<lambda>r. mcr_request_id r = mc_request_id msg)))) (\<lambda>result.
      let written = capture_local G fallback (mc_user_content msg) ''(system)'' ''nsmt:system'' in
      c_bind (on_disk (quietly (fs_create_dir_all (parent marker)))) (\<lambda>_.
      on_disk (quietly (fs_write marker (as_bytes ap))))))))"

section \<open>Synchronisation of the shared directory\<close>

definition sync_entry ::
  "'p transport \<Rightarrow> serde \<Rightarrow> crates \<Rightarrow> env \<Rightarrow> string \<Rightarrow> file_tree_entry \<Rightarrow> ('p \<times> fs, unit) conv" where
  "sync_entry T S C env fqn e =
     c_bind get_disk (\<lambda>F.
     c_bind (if fs_exists F (join (objects_dir env) (fte_blob_id e)) then c_ret ()
       else c_bind (on_disk (\<lambda>F. (fs_read F (join (share_dir env) (fte_path e)), F))) (\<lambda>bs.
            on_disk (ensure_object_local env (fte_blob_id e) bs))) (\<lambda>_.
     c_bind get_disk (\<lambda>F. on_net (push_entry T S C env F e fqn))))"

fun sync_entries ::
  "'p transport \<Rightarrow> serde \<Rightarrow> crates \<Rightarrow> env \<Rightarrow> string \<Rightarrow> file_tree_entry list \<Rightarrow> ('p \<times> fs, unit) conv" where
  "sync_entries T S C env fqn [] = c_ret ()"
| "sync_entries T S C env fqn (e # es) = c_bind (sync_entry T S C env fqn e) (\<lambda>_. sync_entries T S C env fqn es)"

definition sync_push ::
  "'p transport \<Rightarrow> serde \<Rightarrow> crates \<Rightarrow> env \<Rightarrow> file_tree \<Rightarrow> string \<Rightarrow> ('p \<times> fs, unit) conv" where
  "sync_push T S C env tree fqn =
     c_bind (sync_entries T S C env fqn (ft_entries tree)) (\<lambda>_. on_net (push_tree T S tree))"

text \<open>
  What the synchronisation needs from outside: the environment, the peers, the link call, the
  times of files and of conflict copies.
\<close>

record 'q surroundings =
  su_env :: env
  su_peers :: "'q transport"
  su_dial :: "string \<Rightarrow> client_error + 'q"
  su_now :: u64
  su_link :: "path \<Rightarrow> path \<Rightarrow> fs \<Rightarrow> io_error + fs"
  su_mtime :: "path \<Rightarrow> i64"
  su_conflict_ts :: "string \<Rightarrow> nat"

definition pull_path ::
  "'p transport \<Rightarrow> serde \<Rightarrow> crates \<Rightarrow> 'q surroundings \<Rightarrow> peer_ctx \<Rightarrow> string \<Rightarrow> file_tree \<Rightarrow> string \<Rightarrow> ('p \<times> fs, unit) conv" where
  "pull_path T S C su ctx fqn remote_tree p =
     (case find (\<lambda>e. fte_path e = p) (ft_entries remote_tree) of
        None \<Rightarrow> c_ret ()
      | Some e \<Rightarrow>
          c_bind (on_net (pull_object_with_peer T (su_peers su) (su_dial su) S C (su_env su) (su_now su) ctx e fqn)) (\<lambda>got.
          case got of
            None \<Rightarrow> c_ret ()
          | Some bs \<Rightarrow>
              c_bind (on_disk (materialize_with_conflict C (su_env su) (su_link su) (su_conflict_ts su p) e bs fqn)) (\<lambda>_.
              on_disk (ensure_object_local (su_env su) (fte_blob_id e) bs))))"

fun pull_paths ::
  "'p transport \<Rightarrow> serde \<Rightarrow> crates \<Rightarrow> 'q surroundings \<Rightarrow> peer_ctx \<Rightarrow> string \<Rightarrow> file_tree \<Rightarrow> string list \<Rightarrow> ('p \<times> fs, unit) conv" where
  "pull_paths T S C su ctx fqn remote_tree [] = c_ret ()"
| "pull_paths T S C su ctx fqn remote_tree (p # ps) =
     c_bind (pull_path T S C su ctx fqn remote_tree p) (\<lambda>_. pull_paths T S C su ctx fqn remote_tree ps)"

fun remove_paths :: "path \<Rightarrow> string list \<Rightarrow> fs \<Rightarrow> fs" where
  "remove_paths dir [] F = F"
| "remove_paths dir (p # ps) F =
     remove_paths dir ps (case fs_remove_file (join dir p) F of Inl _ \<Rightarrow> F | Inr F' \<Rightarrow> F')"

definition scan ::
  "crates \<Rightarrow> 'q surroundings \<Rightarrow> ('p \<times> fs, io_error + file_tree) conv" where
  "scan C su pF = map_option (\<lambda>r. (Inr r, pF)) (build_tree C (su_mtime su) (snd pF) (share_dir (su_env su)))"

text \<open>\<open>if let Ok(t) = build_tree(&dir)\<close>\<close>

definition rescan :: "crates \<Rightarrow> 'q surroundings \<Rightarrow> file_tree \<Rightarrow> ('p \<times> fs, file_tree) conv" where
  "rescan C su old = c_bind (scan C su) (\<lambda>r. c_ret (case r of Inl _ \<Rightarrow> old | Inr t \<Rightarrow> t))"

text \<open>The alignment with the server: an error of the request is ignored, one of a pull is not.\<close>

definition align ::
  "'p transport \<Rightarrow> serde \<Rightarrow> crates \<Rightarrow> 'q surroundings \<Rightarrow> peer_ctx \<Rightarrow> string \<Rightarrow> file_tree \<Rightarrow> ('p \<times> fs, file_tree) conv" where
  "align T S C su ctx fqn local_tree pF =
     (case on_net (request_diff T S (ft_tree_hash local_tree)) pF of
        None \<Rightarrow> None
      | Some (Inl _, pF1) \<Rightarrow> Some (Inr local_tree, pF1)
      | Some (Inr dif, pF1) \<Rightarrow>
          c_bind (case fdr_tree dif of
              None \<Rightarrow> c_ret ()
            | Some remote_tree \<Rightarrow>
                c_bind (pull_paths T S C su ctx fqn remote_tree (fdr_changed dif)) (\<lambda>_.
                on_disk (\<lambda>F. (Inr (), remove_paths (share_dir (su_env su)) (fdr_removed dif) F)))) (\<lambda>_.
          rescan C su local_tree) pF1)"

definition fs_start ::
  "'p transport \<Rightarrow> serde \<Rightarrow> crates \<Rightarrow> 'q surroundings \<Rightarrow> peer_ctx \<Rightarrow> string \<Rightarrow> ('p \<times> fs, file_tree) conv" where
  "fs_start T S C su ctx fqn =
     c_bind (on_disk (\<lambda>F. case fs_create_dir_all (share_dir (su_env su)) F of Inl e \<Rightarrow> (Inl e, F) | Inr F' \<Rightarrow> (Inr (), F'))) (\<lambda>_.
     c_bind (scan C su) (\<lambda>r.
     c_bind (c_io r) (\<lambda>t0.
     c_bind (align T S C su ctx fqn t0) (\<lambda>local_tree.
     c_bind (sync_push T S C (su_env su) local_tree fqn) (\<lambda>_. c_ret local_tree)))))"

text \<open>The two branches of the loop; the state is the last tree and the time of the last pull.\<close>

definition on_change ::
  "'p transport \<Rightarrow> serde \<Rightarrow> crates \<Rightarrow> 'q surroundings \<Rightarrow> string \<Rightarrow> file_tree \<Rightarrow> ('p \<times> fs, file_tree) conv" where
  "on_change T S C su fqn local_tree =
     c_bind (scan C su) (\<lambda>r.
     case r of
       Inl _ \<Rightarrow> c_ret local_tree
     | Inr t \<Rightarrow> c_bind (sync_push T S C (su_env su) t fqn) (\<lambda>_. c_ret t))"

definition on_tick ::
  "'p transport \<Rightarrow> serde \<Rightarrow> crates \<Rightarrow> 'q surroundings \<Rightarrow> peer_ctx \<Rightarrow> string \<Rightarrow> u64 \<Rightarrow> u64 \<Rightarrow> file_tree \<times> u64 \<Rightarrow>
   ('p \<times> fs, file_tree \<times> u64) conv" where
  "on_tick T S C su ctx fqn now now' st =
     (case st of (local_tree, last_pull) \<Rightarrow>
        if \<not> now - last_pull > 5000 then c_ret (local_tree, last_pull)
        else
        c_bind (on_net (request_diff T S (ft_tree_hash local_tree))) (\<lambda>dif.
        if fdr_changed dif = [] \<and> fdr_removed dif = [] then c_ret (local_tree, now')
        else
        c_bind (case fdr_tree dif of
            None \<Rightarrow> c_ret ()
          | Some remote_tree \<Rightarrow> pull_paths T S C su ctx fqn remote_tree (fdr_changed dif)) (\<lambda>_.
        c_bind (on_disk (\<lambda>F. (Inr (), remove_paths (share_dir (su_env su)) (fdr_removed dif) F))) (\<lambda>_.
        c_bind (rescan C su local_tree) (\<lambda>t. c_ret (t, now'))))))"

section \<open>Online mode\<close>

datatype online_event = BeatTick u64 | NetReady

text \<open>One turn of the loop; the value says whether it goes on.\<close>

definition online_step :: "'p transport \<Rightarrow> serde \<Rightarrow> online_event \<Rightarrow> ('p, bool) conv" where
  "online_step T S ev =
     (case ev of
        BeatTick now \<Rightarrow> c_bind (c_send_json T S Heartbeat (MHeartbeat \<lparr>hb_ts = now, hb_load = None\<rparr>)) (\<lambda>_. c_ret True)
      | NetReady \<Rightarrow> (\<lambda>p.
         (case rx T p of
            (RxFrame f, p') \<Rightarrow>
              (if frame_type f = OnlineList then c_bind (c_json (de_online_list S) f) (\<lambda>_. c_ret True) p'
               else if frame_type f = OnlineDelta then c_bind (c_json (de_online_delta S) f) (\<lambda>_. c_ret True) p'
               else Some (Inr True, p'))
          | (RxEof, p') \<Rightarrow> Some (Inr False, p')
          | (RxErr e, p') \<Rightarrow> Some (Inr False, p'))))"

fun online_mode :: "'p transport \<Rightarrow> serde \<Rightarrow> online_event list \<Rightarrow> ('p, unit) conv" where
  "online_mode T S [] = c_ret ()"
| "online_mode T S (ev # evs) =
     c_bind (online_step T S ev) (\<lambda>go_on. if go_on then online_mode T S evs else c_ret ())"

section \<open>The handshake over a server\<close>

lemma sent_handshake_decodes:
  "understood S (t, MHello a) \<Longrightarrow> de_hello S (payload (sent S t (MHello a))) = Some a"
  "understood S (t, MHelloAck b) \<Longrightarrow> de_hello_ack S (payload (sent S t (MHelloAck b))) = Some b"
  "understood S (t, MAuth c) \<Longrightarrow> de_auth S (payload (sent S t (MAuth c))) = Some c"
  "understood S (t, MRegister d) \<Longrightarrow> de_register S (payload (sent S t (MRegister d))) = Some d"
  "understood S (t, MRegisterAck e) \<Longrightarrow> de_register_ack S (payload (sent S t (MRegisterAck e))) = Some e"
  by (simp_all add: understood_def serde_roundtrip_def) (metis sent_frame(2) option.inject)+

lemma verify_register_honest:
  assumes "hex_law C" and "ed25519_law C" and "hm_get g domain = Some t"
    and "hm_get (tr_machines t) machine \<in> {None, Some (public_hex C (from_signing C sk))}"
  shows "\<exists>g'. verify_register C domain machine agent (public_hex C (from_signing C sk))
    (sign C (from_signing C sk) (as_bytes (register_msg machine agent))) g = (Inr (), g')"
  using assms(3,4) sign_verify_any [OF assms(1,2)] by (auto simp: verify_register_def)

lemma c_recv_server: "k < length (se_out s) \<Longrightarrow> c_recv (server_link cf clk mid) (s, w, k) = Some (Inr (se_out s ! k), (s, w, Suc k))"
  by (simp add: c_recv_def)

lemma enter_ready_keeps: "st_pool (wd_state (snd (enter_ready cf clk ud reg s w))) = st_pool (wd_state w)"
  "se_open (fst (enter_ready cf clk ud reg s w)) \<or> se_phase (fst (enter_ready cf clk ud reg s w)) \<noteq> Ready \<or> \<not> se_open s"
  unfolding enter_ready_def Let_def
  by (auto simp: drop_rx_def object_store_for_def sess_send_json_def sess_send_def close_with_def and_then_eq_Inr Let_def
      split: prod.splits sum.splits option.splits)

text \<open>What a client must hold to be admitted, and the messages of its handshake.\<close>

definition admissible :: "('x, 'd) config \<Rightarrow> clock \<Rightarrow> string \<Rightarrow> string \<Rightarrow> ('x, 'd) world \<Rightarrow> string \<Rightarrow> key_pair \<Rightarrow> register \<Rightarrow> bool" where
  "admissible cf clk mid addr w domain dk reg \<longleftrightarrow>
     (\<forall>tm \<in> {(Hello, MHello (hello_of domain)), (HelloAck, hello_reply clk mid),
        (Auth, MAuth (auth_of (cf_crates cf) domain dk (nonce (clk 0) mid))), (Register, MRegister reg),
        (RegisterAck, register_reply domain clk addr reg (st_registry (wd_state w)))}. understood (cf_serde cf) tm) \<and>
     sendable (cf_serde cf) OnlineDelta (MOnlineDelta \<lparr>od_kind = Join, od_machine = join_info clk addr reg\<rparr>)"

text \<open>The steps of the session on the three frames of an admissible client.\<close>

lemma handshake_steps:
  fixes w :: "('x, 'd) world" and clk :: clock and mid :: string
  assumes adm: "admissible cf clk mid addr w domain dk reg"
    and va: "verify_auth (cf_crates cf) domain (nonce (clk 0) mid)
      (auth_nonce_signature (auth_of (cf_crates cf) domain dk (nonce (clk 0) mid))) (wd_tenants w) = Inr ()"
    and vr: "verify_register (cf_crates cf) domain (reg_machine_id reg) (reg_agent_tag reg) (reg_machine_pubkey reg)
      (reg_machine_signature reg) (wd_tenants w) = (Inr (), g)"
  shows "\<exists>s1 s2 s3 w3. session_step cf clk mid (Recv (sent (cf_serde cf) Hello (MHello (hello_of domain)))) (session_new addr, w) = (s1, w) \<and>
    session_step cf clk mid (Recv (sent (cf_serde cf) Auth (MAuth (auth_of (cf_crates cf) domain dk (nonce (clk 0) mid))))) (s1, w) = (s2, w) \<and>
    session_step cf clk mid (Recv (sent (cf_serde cf) Register (MRegister reg))) (s2, w) = (s3, w3) \<and>
    se_out s1 = [sent (cf_serde cf) HelloAck (hello_reply clk mid)] \<and> se_out s2 = se_out s1 \<and>
    se_out s3 = se_out s1 @ [sent (cf_serde cf) RegisterAck (register_reply domain clk addr reg (st_registry (wd_state w)))] \<and>
    se_phase s3 = Ready \<and> se_open s3 \<and> se_domain s3 = domain \<and> se_machine s3 = reg_machine_id reg \<and>
    st_pool (wd_state w3) = st_pool (wd_state w) \<and>
    online_machine domain (reg_machine_id reg) (st_registry (wd_state w3)) = Some (join_info clk addr reg)"
proof -
  let ?S = "cf_serde cf" and ?n = "nonce (clk 0) mid" and ?s0 = "session_new addr"
  let ?s1 = "?s0\<lparr>se_out := [sent ?S HelloAck (hello_reply clk mid)], se_phase := AwaitAuth domain ?n\<rparr>"
  let ?s2 = "?s1\<lparr>se_phase := AwaitRegister domain\<rparr>"
  have u: "understood ?S (Hello, MHello (hello_of domain))" "understood ?S (HelloAck, hello_reply clk mid)"
    "understood ?S (Auth, MAuth (auth_of (cf_crates cf) domain dk ?n))" "understood ?S (Register, MRegister reg)"
    "understood ?S (RegisterAck, register_reply domain clk addr reg (st_registry (wd_state w)))"
    "sendable ?S OnlineDelta (MOnlineDelta \<lparr>od_kind = Join, od_machine = join_info clk addr reg\<rparr>)"
    using adm by (simp_all add: admissible_def)
  have s0: "se_phase ?s0 = AwaitHello" "se_open ?s0" "se_out ?s0 = []" "se_addr ?s0 = addr" by (simp_all add: session_new_def)
  have 1: "session_step cf clk mid (Recv (sent ?S Hello (MHello (hello_of domain)))) (?s0, w) = (?s1, w)"
    using hello_step [where clk = clk and mid = mid and w = w, OF s0(1,2) sent_json(3) [OF u(1)] sent_handshake_decodes(1) [OF u(1)]
        understoodD(1) [OF u(2)]] s0(3) by (simp add: hello_of_def)
  have 2: "session_step cf clk mid (Recv (sent ?S Auth (MAuth (auth_of (cf_crates cf) domain dk ?n)))) (?s1, w) = (?s2, w)"
    using auth_step [where s = ?s1 and mid = mid and clk = clk, OF _ sent_handshake_decodes(3) [OF u(3)] va] by simp
  obtain s3 w3 where 3: "session_step cf clk mid (Recv (sent ?S Register (MRegister reg))) (?s2, w) = (s3, w3)"
    and s3: "se_phase s3 = Ready" "se_domain s3 = domain" "se_machine s3 = reg_machine_id reg"
      "se_out s3 = se_out ?s1 @ [sent ?S RegisterAck (register_reply domain clk addr reg (st_registry (wd_state w)))]"
      "online_machine domain (reg_machine_id reg) (st_registry (wd_state w3)) = Some (join_info clk addr reg)"
    using register_step [where s = ?s2 and mid = mid and clk = clk, OF _ _ sent_handshake_decodes(4) [OF u(4)] vr]
      understoodD(1) [OF u(5)] u(6) s0 by auto
  have p: "payload_json (de_register ?S) (sent ?S Register (MRegister reg)) = Inr reg" using sent_handshake_decodes(4) [OF u(4)] by simp
  have "on_register cf clk domain (sent ?S Register (MRegister reg)) ?s2 w = enter_ready cf clk domain reg ?s2 (w\<lparr>wd_tenants := g\<rparr>)"
    unfolding on_register_def p sum.case vr prod.case old.unit.case by (rule refl)
  then have "enter_ready cf clk domain reg ?s2 (w\<lparr>wd_tenants := g\<rparr>) = (s3, w3)"
    using 3 by (simp add: session_step_def handshake_step_def)
  with enter_ready_keeps [of cf clk domain reg ?s2 "w\<lparr>wd_tenants := g\<rparr>"] s3(1) s0(2)
  have "se_open s3" "st_pool (wd_state w3) = st_pool (wd_state w)" by auto
  with 1 2 3 s3 show ?thesis by (intro exI [of _ ?s1] exI [of _ ?s2] exI [of _ s3] exI [of _ w3]) simp
qed

lemma handshake_run:
  fixes w :: "('x, 'd) world" and clk :: clock and mid :: string
  assumes laws: "hex_law (cf_crates cf)" "ed25519_law (cf_crates cf)"
    and keys: "dk = from_signing (cf_crates cf) dsk" "mk = from_signing (cf_crates cf) msk"
    and ten: "hm_get (wd_tenants w) domain = Some t" "tr_domain_pubkey t = public_hex (cf_crates cf) dk"
      "hm_get (tr_machines t) machine \<in> {None, Some (public_hex (cf_crates cf) mk)}"
    and reg: "reg = register_of (cf_crates cf) machine agent peer_addr mk" and adm: "admissible cf clk mid addr w domain dk reg"
  shows "\<exists>s' w'. client_handshake (server_link cf clk mid) (cf_serde cf) (cf_crates cf) domain agent machine peer_addr dk mk (session_new addr, w, 0)
      = Some (Inr (), (s', w', length (se_out s'))) \<and>
    se_phase s' = Ready \<and> se_open s' \<and> se_domain s' = domain \<and> se_machine s' = machine \<and> st_pool (wd_state w') = st_pool (wd_state w) \<and>
    online_machine domain machine (st_registry (wd_state w')) = Some (join_info clk addr reg)"
proof -
  let ?S = "cf_serde cf" and ?C = "cf_crates cf" and ?T = "server_link cf clk mid" and ?n = "nonce (clk 0) mid"
  let ?ack = "sent ?S HelloAck (hello_reply clk mid)" and ?rr = "register_reply domain clk addr reg (st_registry (wd_state w))"
  have u: "understood ?S (Hello, MHello (hello_of domain))" "understood ?S (HelloAck, hello_reply clk mid)"
    "understood ?S (Auth, MAuth (auth_of ?C domain dk ?n))" "understood ?S (Register, MRegister reg)" "understood ?S (RegisterAck, ?rr)"
    using adm by (simp_all add: admissible_def)
  have va: "verify_auth ?C domain ?n (auth_nonce_signature (auth_of ?C domain dk ?n)) (wd_tenants w) = Inr ()"
    using sign_verify_any [OF laws] keys(1) ten(1,2) by (simp add: verify_auth_def auth_of_def)
  obtain g where vr: "verify_register ?C domain (reg_machine_id reg) (reg_agent_tag reg) (reg_machine_pubkey reg)
      (reg_machine_signature reg) (wd_tenants w) = (Inr (), g)"
    using verify_register_honest [OF laws ten(1), of machine msk agent] keys(2) ten(3) reg by (auto simp: register_of_def)
  from handshake_steps [OF adm va vr] obtain s1 s2 s3 w3 where
    1: "session_step cf clk mid (Recv (sent ?S Hello (MHello (hello_of domain)))) (session_new addr, w) = (s1, w)" and
    2: "session_step cf clk mid (Recv (sent ?S Auth (MAuth (auth_of ?C domain dk ?n)))) (s1, w) = (s2, w)" and
    3: "session_step cf clk mid (Recv (sent ?S Register (MRegister reg))) (s2, w) = (s3, w3)" and
    o: "se_out s1 = [?ack]" "se_out s2 = se_out s1" "se_out s3 = se_out s1 @ [sent ?S RegisterAck ?rr]" and
    s3: "se_phase s3 = Ready" "se_open s3" "se_domain s3 = domain" "se_machine s3 = reg_machine_id reg"
      "st_pool (wd_state w3) = st_pool (wd_state w)"
      "online_machine domain (reg_machine_id reg) (st_registry (wd_state w3)) = Some (join_info clk addr reg)" by blast
  note c = c_send_json_ok [OF understoodD(1) [OF u(1)] tx_server [OF 1]] c_send_json_ok [OF understoodD(1) [OF u(3)] tx_server [OF 2]]
    c_send_json_ok [OF understoodD(1) [OF u(4)] tx_server [OF 3]]
  have r: "c_recv ?T (s1, w, 0) = Some (Inr ?ack, (s1, w, 1))" "c_recv ?T (s3, w3, 1) = Some (Inr (sent ?S RegisterAck ?rr), (s3, w3, 2))"
    using o by (simp_all add: c_recv_server)
  have j: "c_json (de_hello_ack ?S) ?ack q = Some (Inr \<lparr>hello_ack_nonce = ?n, hello_ack_tenant_exists = True\<rparr>, q)" for q :: "('x, 'd) link"
    using sent_handshake_decodes(2) [OF u(2)] by (simp add: c_json_ok)
  obtain x where x: "c_json (de_register_ack ?S) (sent ?S RegisterAck ?rr) (s3, w3, 2 :: nat) = Some (Inr x, (s3, w3, 2))"
    using sent_handshake_decodes(5) u(5) by (auto simp: c_json_ok register_reply_def)
  have "client_handshake ?T ?S ?C domain agent machine peer_addr dk mk (session_new addr, w, 0) = Some (Inr (), (s3, w3, 2))"
    unfolding client_handshake_def reg [symmetric]
    by (simp only: c_bind_def c r j x option.case prod.case sum.case hello_ack.simps c_ret_def)
  then show ?thesis using s3 o reg by (auto simp: register_of_def)
qed

text \<open>
  C8: a client that holds the key of its domain and a machine key that is not bound otherwise is
  admitted.  Its handshake with a server session returns, the session is then ready for the domain
  and the machine of the client, and the registry shows the machine as online.
\<close>

theorem client_admitted:
  fixes w :: "('x, 'd) world" and clk :: clock and mid :: string
  assumes "hex_law (cf_crates cf)" and "ed25519_law (cf_crates cf)" and "dk = from_signing (cf_crates cf) dsk" and "mk = from_signing (cf_crates cf) msk"
    and "hm_get (wd_tenants w) domain = Some t" and "tr_domain_pubkey t = public_hex (cf_crates cf) dk"
    and "hm_get (tr_machines t) machine \<in> {None, Some (public_hex (cf_crates cf) mk)}"
    and "reg = register_of (cf_crates cf) machine agent peer_addr mk"
    and "\<forall>tm \<in> {(Hello, MHello (hello_of domain)), (HelloAck, hello_reply clk mid),
      (Auth, MAuth (auth_of (cf_crates cf) domain dk (nonce (clk 0) mid))), (Register, MRegister reg),
      (RegisterAck, register_reply domain clk addr reg (st_registry (wd_state w)))}. understood (cf_serde cf) tm"
    and "sendable (cf_serde cf) OnlineDelta (MOnlineDelta \<lparr>od_kind = Join, od_machine = join_info clk addr reg\<rparr>)"
  shows "\<exists>s' w'. client_handshake (server_link cf clk mid) (cf_serde cf) (cf_crates cf) domain agent machine peer_addr dk mk (session_new addr, w, 0)
      = Some (Inr (), (s', w', length (se_out s'))) \<and>
    se_phase s' = Ready \<and> se_domain s' = domain \<and> se_machine s' = machine \<and>
    online_machine domain machine (st_registry (wd_state w')) = Some (join_info clk addr reg)"
proof -
  have "admissible cf clk mid addr w domain dk reg" using assms(9,10) by (simp add: admissible_def)
  from handshake_run [OF assms(1-8) this] show ?thesis by blast
qed

text \<open>A serialiser for the handshake of the sample installation.\<close>

definition door_register :: register where
  "door_register = register_of sample_crates ''m'' ''t'' ''p'' (from_signing sample_crates [5])"

definition door_serde :: serde where
  "door_serde = no_serde\<lparr>to_vec := (\<lambda>_. Some []), de_hello := (\<lambda>_. Some (hello_of ''d'')),
     de_hello_ack := (\<lambda>_. Some \<lparr>hello_ack_nonce = nonce 0 ''id'', hello_ack_tenant_exists = True\<rparr>),
     de_auth := (\<lambda>_. Some (auth_of sample_crates ''d'' (from_signing sample_crates [3]) (nonce 0 ''id''))),
     de_register := (\<lambda>_. Some door_register),
     de_register_ack := (\<lambda>_. Some \<lparr>reg_ack_machines =
       fst (Registry.register ''d'' (join_info (\<lambda>_. 0) ''a'' door_register) (st_registry (wd_state sample_world)))\<rparr>)\<rparr>"

lemma door_sendable: "sendable door_serde t m"
proof -
  have "from_json door_serde t 0 m = Inr (frame_new t 0 [])" by (simp add: door_serde_def frame_new_def)
  then show ?thesis by (simp add: sendable_def encode_def frame_new_def del: from_json_payload)
qed

theorem client_admitted_witness:
  "\<exists>s' w'. client_handshake (server_link (sample_config\<lparr>cf_serde := door_serde\<rparr>) (\<lambda>_. 0) ''id'') door_serde sample_crates
      ''d'' ''t'' ''m'' ''p'' (from_signing sample_crates [3]) (from_signing sample_crates [5]) (session_new ''a'', sample_world, 0)
      = Some (Inr (), (s', w', length (se_out s'))) \<and> se_phase s' = Ready \<and> se_machine s' = ''m''"
proof -
  let ?cf = "sample_config\<lparr>cf_serde := door_serde\<rparr>" and ?C = sample_crates
  have cf: "cf_serde ?cf = door_serde" "cf_crates ?cf = ?C" by (simp_all add: sample_config_def)
  let ?t = "tenant_record_default\<lparr>tr_domain_pubkey := public_hex ?C (from_signing ?C [3])\<rparr>"
  have t: "hm_get (wd_tenants sample_world) ''d'' = Some ?t" "tr_domain_pubkey ?t = public_hex ?C (from_signing ?C [3])"
    "hm_get (tr_machines ?t) ''m'' \<in> {None, Some (public_hex ?C (from_signing ?C [5]))}"
    by (simp_all add: sample_world_def set_domain_pubkey_def generate_def hm.get_empty tenant_record_default_def)
  have u: "\<forall>tm \<in> {(Hello, MHello (hello_of ''d'')), (HelloAck, hello_reply (\<lambda>_. 0) ''id''),
      (Auth, MAuth (auth_of ?C ''d'' (from_signing ?C [3]) (nonce 0 ''id''))), (Register, MRegister door_register),
      (RegisterAck, register_reply ''d'' (\<lambda>_. 0) ''a'' door_register (st_registry (wd_state sample_world)))}. understood door_serde tm"
    by (simp add: understood_def door_sendable) (simp add: serde_roundtrip_def door_serde_def register_reply_def)
  from client_admitted [where cf = ?cf and clk = "\<lambda>_. 0" and mid = "''id''" and addr = "''a''", unfolded cf,
      OF sample_crates_laws(1,2) refl refl t door_register_def u door_sendable]
  show ?thesis by blast
qed

section \<open>Recall and its fallback\<close>

text \<open>What the server makes of a recall.\<close>

definition recall_answer :: "('x, 'd) config \<Rightarrow> u64 \<Rightarrow> memory_recall \<Rightarrow> ('x, 'd) world \<Rightarrow> memory_recall_result" where
  "recall_answer cf elapsed msg w =
     (case pool_recall (cf_gateways cf) (st_pool (wd_state w)) msg elapsed of
        Inr r \<Rightarrow> r
      | Inl e \<Rightarrow> \<lparr>mrr_request_id = mr_request_id msg, mrr_source = ''pool_unavailable'', mrr_memories = [], mrr_latency_ms = 0\<rparr>)"

lemma reply_understood:
  "understood (cf_serde cf) (t, m) \<Longrightarrow> se_open s \<Longrightarrow> reply cf t m s = s\<lparr>se_out := se_out s @ [sent (cf_serde cf) t m]\<rparr>"
  by (simp add: reply_def sess_send_json_sendable [OF understoodD(1)])

lemma sent_recall_decodes:
  "understood S (t, MMemoryRecall a) \<Longrightarrow> de_memory_recall S (payload (sent S t (MMemoryRecall a))) = Some a"
  "understood S (t, MMemoryRecallResult b) \<Longrightarrow> de_memory_recall_result S (payload (sent S t (MMemoryRecallResult b))) = Some b"
  by (simp_all add: understood_def serde_roundtrip_def) (metis sent_frame(2) option.inject)+

lemma recall_run:
  fixes w :: "('x, 'd) world" and clk :: clock and mid :: string
  assumes "se_phase s = Ready" and "se_open s" and "a = recall_answer cf (clk 1 - clk 0) (recall_msg now query) w"
    and "understood (cf_serde cf) (MemoryRecall, MMemoryRecall (recall_msg now query))"
    and "understood (cf_serde cf) (MemoryRecallResult, MMemoryRecallResult a)"
  shows "\<exists>s'. recall (server_link cf clk mid) (cf_serde cf) G now fallback query (s, w, length (se_out s)) =
    Some (if mrr_source a \<noteq> ''pool_unavailable'' \<and> mrr_memories a \<noteq> [] then Inr (''pool'', mrr_memories a)
          else map_sum CMemory (\<lambda>r. (''local'', mrr_memories r)) (recall_local G fallback query ''rec-local''),
          (s', w, length (se_out s')))"
proof -
  let ?S = "cf_serde cf" and ?T = "server_link cf clk mid" and ?m = "MMemoryRecall (recall_msg now query)"
  let ?ans = "sent ?S MemoryRecallResult (MMemoryRecallResult a)" and ?n = "length (se_out s)"
  let ?s1 = "s\<lparr>se_out := se_out s @ [?ans]\<rparr>"
  have pj: "payload_json (de_memory_recall ?S) (sent ?S MemoryRecall ?m) = Inr (recall_msg now query)"
    using sent_recall_decodes(1) [OF assms(4)] by simp
  have "on_memory_recall cf (clk 1 - clk 0) (sent ?S MemoryRecall ?m) s w = (?s1, w)"
    using reply_understood [OF assms(5,2)] assms(3) unfolding on_memory_recall_def pj sum.case
    by (auto simp: recall_answer_def split: sum.splits)
  then have st: "session_step cf clk mid (Recv (sent ?S MemoryRecall ?m)) (s, w) = (?s1, w)"
    using assms(1) sent_json(3) [OF assms(4)] by (simp add: session_step_def ready_step_def on_frame_def)
  note c1 = c_send_json_ok [OF understoodD(1) [OF assms(4)] tx_server [OF st, of ?n]]
  have h: "await_reply ?S MemoryRecallResult (de_memory_recall_result ?S) (\<lambda>_. True) ?ans = Inr (Some a)"
    using sent_json(3) [OF assms(5)] sent_recall_decodes(2) [OF assms(5)] by (simp add: await_reply_def payload_json_def)
  have c2: "recv_loop ?T (await_reply ?S MemoryRecallResult (de_memory_recall_result ?S) (\<lambda>_. True)) (?s1, w, ?n) =
      Some (Inr a, (?s1, w, Suc ?n))"
    by (rule recv_next [where f = ?ans and post = "[]"]) (use h in simp_all)
  have "recall ?T ?S G now fallback query (s, w, ?n) =
      Some (if mrr_source a \<noteq> ''pool_unavailable'' \<and> mrr_memories a \<noteq> [] then Inr (''pool'', mrr_memories a)
          else map_sum CMemory (\<lambda>r. (''local'', mrr_memories r)) (recall_local G fallback query ''rec-local''),
          (?s1, w, length (se_out ?s1)))"
    unfolding recall_def
    by (cases "recall_local G fallback query ''rec-local''")
      (simp_all add: c1 c2 c_bind_def [of "c_lift _"] c_lift_def c_ret_def)
  then show ?thesis by blast
qed

text \<open>
  Recall prefers the pool and falls back to the local memory.  Over a session with the server
  \<open>recall\<close> always comes to an end; it shows what the pool has found unless every shard failed or
  nothing was found, and then what the local gateway answers, whose error is the error of the
  command.
\<close>

theorem recall_falls_back:
  fixes w :: "('x, 'd) world" and clk :: clock and mid :: string
  assumes "se_phase s = Ready" and "se_open s" and "a = recall_answer cf (clk 1 - clk 0) (recall_msg now query) w"
    and "understood (cf_serde cf) (MemoryRecall, MMemoryRecall (recall_msg now query))"
    and "understood (cf_serde cf) (MemoryRecallResult, MMemoryRecallResult a)"
  shows "\<exists>s'. recall (server_link cf clk mid) (cf_serde cf) G now fallback query (s, w, length (se_out s)) =
    Some (if mrr_source a \<noteq> ''pool_unavailable'' \<and> mrr_memories a \<noteq> [] then Inr (''pool'', mrr_memories a)
          else map_sum CMemory (\<lambda>r. (''local'', mrr_memories r)) (recall_local G fallback query ''rec-local''),
          (s', w, length (se_out s')))"
  using assms by (rule recall_run)

definition recall_serde :: serde where
  "recall_serde = no_serde\<lparr>to_vec := (\<lambda>_. Some []), de_memory_recall := (\<lambda>_. Some (recall_msg 7 ''q'')),
     de_memory_recall_result := (\<lambda>_. Some (recall_answer sample_config 0 (recall_msg 7 ''q'') sample_world)),
     de_memory_capture_result := (\<lambda>_. Some \<lparr>mcr_request_id = ''note-7'', mcr_committed = True, mcr_queued = False\<rparr>)\<rparr>"

lemma recall_sendable: "sendable recall_serde t m"
proof -
  have "from_json recall_serde t 0 m = Inr (frame_new t 0 [])" by (simp add: recall_serde_def frame_new_def)
  then show ?thesis by (simp add: sendable_def encode_def frame_new_def del: from_json_payload)
qed

definition local_gateway :: gateways where
  "local_gateway = sample_gateways\<lparr>http_send := \<lambda>_. Inr (Inr ''cafe'')\<rparr>"

lemma sample_pool_unavailable: "mrr_source (recall_answer sample_config 0 (recall_msg 7 ''q'') sample_world) = ''pool_unavailable''"
  by (simp add: recall_answer_def sample_world_def server_state_new_def pool_from_env_def pool_new_def pool_recall_def
      recall_one_def tc_recall_def recall_request_def sample_config_def sample_gateways_def with_timeout_def tencent_new_def
      trim_end_matches_def Let_def)

lemma sample_local_recall:
  "recall_local local_gateway (tencent_new ''a'') ''q'' ''rec-local'' = Inr \<lparr>mrr_request_id = ''rec-local'', mrr_source = ''local'',
      mrr_memories = [\<lparr>mh_content = ''cafe'', mh_fqn = ''local'', mh_score = 0, mh_scope = ''machine''\<rparr>], mrr_latency_ms = 0\<rparr>"
proof -
  have "trim ''cafe'' \<noteq> []" by (subst trim_hex) (simp_all add: hexdigit_code)
  then show ?thesis by (simp add: recall_local_def tc_recall_def recall_request_def local_gateway_def sample_gateways_def tencent_new_def
      trim_end_matches_def json_body_def)
qed

theorem recall_falls_back_witness:
  "\<exists>s'. recall (server_link (sample_config\<lparr>cf_serde := recall_serde\<rparr>) (\<lambda>_. 0) ''id'') recall_serde local_gateway 7
      (tencent_new ''a'') ''q'' (sample_session, sample_world, 0) =
    Some (Inr (''local'', [\<lparr>mh_content = ''cafe'', mh_fqn = ''local'', mh_score = 0, mh_scope = ''machine''\<rparr>]),
      (s', sample_world, length (se_out s')))"
proof -
  let ?cf = "sample_config\<lparr>cf_serde := recall_serde\<rparr>" and ?m = "recall_msg 7 ''q''"
  have cf: "cf_serde ?cf = recall_serde" by simp
  have s: "se_phase sample_session = Ready" "se_open sample_session" "se_out sample_session = []"
    by (simp_all add: sample_session_simps)
  let ?a = "recall_answer ?cf ((\<lambda>_. 0) 1 - (\<lambda>_. 0) (0 :: nat)) ?m sample_world"
  have a: "?a = recall_answer sample_config 0 ?m sample_world" by (simp add: recall_answer_def)
  have u: "understood (cf_serde ?cf) (MemoryRecall, MMemoryRecall ?m)"
    "understood (cf_serde ?cf) (MemoryRecallResult, MMemoryRecallResult ?a)"
    unfolding cf a by (simp_all add: understood_def recall_sendable) (simp_all add: serde_roundtrip_def recall_serde_def)
  have p: "mrr_source ?a = ''pool_unavailable''" unfolding a by (rule sample_pool_unavailable)
  from recall_falls_back [where cf = ?cf and clk = "\<lambda>_. 0" and mid = "''id''" and G = local_gateway and fallback = "tencent_new ''a''",
      OF s(1,2) refl u] p sample_local_recall s(3)
  show ?thesis by simp
qed

section \<open>The note on the shared directory\<close>

lemma c_bind_eq_Some:
  "c_bind m k p = Some (r, q) \<longleftrightarrow> (\<exists>e. m p = Some (Inl e, q) \<and> r = Inl e) \<or> (\<exists>x p'. m p = Some (Inr x, p') \<and> k x p' = Some (r, q))"
  by (auto simp: c_bind_def split: option.splits sum.splits)

lemma on_net_disk: "on_net m (p, F) = Some (r, (p', F')) \<Longrightarrow> F' = F"
  by (auto simp: on_net_def)

lemma note_run:
  assumes "write_share_dir_note T S G env now now' fb fqn dir (p, F) = Some (r, (p', F'))"
    and "\<not> fs_exists F (note_marker env)"
  shows "(\<exists>e. r = Inl e \<and> F' = F) \<or>
    r = Inr () \<and> F' = snd (quietly (fs_write (note_marker env) (as_bytes (abs_path F dir)))
      (snd (quietly (fs_create_dir_all (parent (note_marker env))) F)))"
  using assms unfolding write_share_dir_note_def Let_def
  by (auto simp: c_bind_eq_Some get_disk_def on_disk_def quietly_def dest!: on_net_disk)

text \<open>
  The note is written once and is retried after a failure.  A run that does not get the answer
  of the server leaves the disk as it was, so that the next start tries again; after a run that
  did, provided that the marker could be written, the marker holds the absolute path and a later
  run, whatever its connection, does nothing.
\<close>

theorem note_once_or_retry:
  assumes "write_share_dir_note T S G env now now' fb fqn dir (p, F) = Some (r, (p', F'))"
    and "\<not> fs_exists F (note_marker env)"
    and "fs_create_dir_all (parent (note_marker env)) F = Inr F1"
    and "fs_write (note_marker env) (as_bytes (abs_path F dir)) F1 = Inr F2"
  shows "(\<exists>e. r = Inl e \<and> F' = F) \<or>
    r = Inr () \<and> fs_read F' (note_marker env) = Inr (as_bytes (abs_path F dir)) \<and>
    write_share_dir_note U S' G env t t' fb fqn dir (q, F') = Some (Inr (), (q, F'))"
proof -
  have read: "fs_read F2 (note_marker env) = Inr (as_bytes (abs_path F dir))" by (rule fs_write_read [OF assms(4)])
  then have "fs_exists F2 (note_marker env)"
    by (auto simp: fs_read_def fs_exists_def and_then_eq_Inr split: option.splits)
  then have "write_share_dir_note U S' G env t t' fb fqn dir (q, F2) = Some (Inr (), (q, F2))"
    unfolding write_share_dir_note_def Let_def c_bind_def get_disk_def by (simp add: c_ret_def)
  moreover have "snd (quietly (fs_write (note_marker env) (as_bytes (abs_path F dir)))
      (snd (quietly (fs_create_dir_all (parent (note_marker env))) F))) = F2"
    using assms(3,4) by (simp add: quietly_def)
  ultimately show ?thesis using note_run [OF assms(1,2)] read by auto
qed

theorem note_once_or_retry_witness:
  "\<exists>p' F'. write_share_dir_note script_link recall_serde sample_gateways [''NSMT_HOME'' \<mapsto> ''/n''] 7 7 (tencent_new ''a'') ''d/m/t'' ''/n''
      ([Says (sent recall_serde MemoryCapture (MMemoryCapture (note_msg 7 7 ''d/m/t'' ''/n''))), Hears (frame_new MemoryCaptureResult 0 [])],
        sample_disk) = Some (Inr (), (p', F')) \<and>
    fs_read F' ''/n/share.path'' = Inr (as_bytes ''/n'')"
proof -
  let ?env = "[''NSMT_HOME'' \<mapsto> ''/n''] :: env" and ?f = "frame_new MemoryCaptureResult 0 []" and ?S = recall_serde
  let ?m = "MMemoryCapture (note_msg 7 7 ''d/m/t'' ''/n'')"
  let ?p = "[Says (sent ?S MemoryCapture ?m), Hears ?f]"
  have m: "note_marker ?env = ''/n/share.path''" by (simp add: note_marker_def join_def suffix_to_prefix)
  have ap: "abs_path sample_disk ''/n'' = ''/n''"
    by (simp add: abs_path_def canonicalize_def resolve_def start_of_def sample_disk_def node_at_def hm_get_def)
  have par: "parent ''/n/share.path'' = ''/n''" by (simp add: parent_def)
  have d: "\<not> fs_exists sample_disk (note_marker ?env)" "fs_create_dir_all (parent (note_marker ?env)) sample_disk = Inr sample_disk"
    "\<exists>F2. fs_write (note_marker ?env) (as_bytes (abs_path sample_disk ''/n'')) sample_disk = Inr F2"
    unfolding m par by (simp_all add: fs_exists_def fs_write_def resolve_def start_of_def sample_disk_def node_at_def hm_get_def
        fs_create_dir_all_def parent_dir_def)
  then obtain F2 where F2: "fs_write (note_marker ?env) (as_bytes (abs_path sample_disk ''/n'')) sample_disk = Inr F2" by blast
  have c1: "c_send_json script_link ?S MemoryCapture ?m ?p = Some (Inr (), [Hears ?f])"
    by (rule script_send [OF recall_sendable])
  have "await_reply ?S MemoryCaptureResult (de_memory_capture_result ?S) (\<lambda>r. mcr_request_id r = ''note-7'') ?f =
      Inr (Some \<lparr>mcr_request_id = ''note-7'', mcr_committed = True, mcr_queued = False\<rparr>)"
    by (simp add: await_reply_def frame_new_def payload_json_def recall_serde_def)
  then have c2: "recv_loop script_link (await_reply ?S MemoryCaptureResult (de_memory_capture_result ?S) (\<lambda>r. mcr_request_id r = ''note-7''))
      [Hears ?f] = Some (Inr \<lparr>mcr_request_id = ''note-7'', mcr_committed = True, mcr_queued = False\<rparr>, [])"
    by (intro recv_loop_hit [where f = ?f]) simp_all
  have "fmt_dec 7 = ''7''" by code_simp
  then have id: "mc_request_id (note_msg 7 7 ''d/m/t'' ap) = ''note-7''" for ap
    by (simp add: note_msg_def)
  have "\<exists>p' F'. write_share_dir_note script_link ?S sample_gateways ?env 7 7 (tencent_new ''a'') ''d/m/t'' ''/n'' (?p, sample_disk) =
      Some (Inr (), (p', F'))"
    unfolding write_share_dir_note_def Let_def c_bind_def get_disk_def using d(1)
    by (simp add: on_net_def id ap c1 c2 on_disk_def quietly_def)
  then obtain p' F' where run: "write_share_dir_note script_link ?S sample_gateways ?env 7 7 (tencent_new ''a'') ''d/m/t'' ''/n'' (?p, sample_disk) =
      Some (Inr (), (p', F'))" by blast
  from note_once_or_retry [OF run d(1,2) F2, of script_link ?S 7 7 ?p] run show ?thesis unfolding m ap by auto
qed

end
