(* ===== verification/Sync.thy ===== *)
theory Sync
  imports Client_Main Conflicts
begin

text \<open>
  Two clients and the server together: what one client shares reaches the disk of the other.  The
  conversations of the client run over sessions of the server on one state of the server; the
  lemmas first follow one call at a time, the properties put the calls of both clients in sequence.
\<close>

section \<open>Trees over a session\<close>

lemma sent_tree_decodes:
  "understood S (t, MFileTree a) \<Longrightarrow> de_file_tree S (payload (sent S t (MFileTree a))) = Some a"
  "understood S (t, MFileDiff b) \<Longrightarrow> de_file_diff S (payload (sent S t (MFileDiff b))) = Some b"
  "understood S (t, MFileDiffResult c) \<Longrightarrow> de_file_diff_result S (payload (sent S t (MFileDiffResult c))) = Some c"
  by (simp_all add: understood_def serde_roundtrip_def) (metis sent_frame(2) option.inject)+

text \<open>The logged slices of the hashes of a tree that do not panic.\<close>

definition loggable :: "('x, 'd) config \<Rightarrow> string \<Rightarrow> bool" where
  "loggable cf h \<longleftrightarrow> cf_info cf \<longrightarrow> \<not> slice12_panics h"

lemma push_tree_server:
  assumes "se_phase s = Ready" and "understood (cf_serde cf) (FileTree, MFileTree t)"
    and "ft_tree_hash t = client_tree_hash (cf_crates cf) t" and "loggable cf (ft_tree_hash t)"
    and "save_tree (cf_tree_json cf) (se_fs s) t (disk (wd_storage w)) = (Inr (), F)"
  shows "push_tree (server_link cf clk mid) (cf_serde cf) t (s, w, k) = Some (Inr (), (s, upd_disk F w, k))"
proof -
  let ?f = "sent (cf_serde cf) FileTree (MFileTree t)"
  have h: "tree_hash (cf_crates cf) t = ft_tree_hash t"
    by (simp add: assms(3) client_tree_hash_def tree_hash_def entry_bytes_def [abs_def])
  have "on_file_tree cf ?f s w = (s, upd_disk F w)"
  proof -
    have t: "t\<lparr>ft_tree_hash := ft_tree_hash t\<rparr> = t" by simp
    have "\<not> (cf_info cf \<and> (slice12_panics (ft_tree_hash t) \<or> slice12_panics (ft_tree_hash t)))"
      using assms(4) by (simp add: loggable_def)
    with sent_tree_decodes(1) [OF assms(2)] show ?thesis
      by (simp only: on_file_tree_def payload_json_def ok_or_def option.case sum.case Let_def h t assms(5) prod.case if_False unit.case)
  qed
  then have "session_step cf clk mid (Recv ?f) (s, w) = (s, upd_disk F w)"
    using assms(1) sent_json(3) [OF assms(2)] by (simp add: session_step_def ready_step_def on_frame_def)
  from c_send_json_ok [OF understoodD(1) [OF assms(2)] tx_server [OF this]] show ?thesis by (simp add: push_tree_def)
qed

text \<open>The answer of the server to a request for the difference with its latest tree.\<close>

definition diff_answer :: "file_tree option \<Rightarrow> file_tree option \<Rightarrow> file_diff_result" where
  "diff_answer old latest = \<lparr>fdr_changed = fst (diff old latest), fdr_removed = snd (diff old latest), fdr_tree = latest\<rparr>"

lemma request_diff_server:
  assumes "se_phase s = Ready" and "se_open s"
    and "understood (cf_serde cf) (FileDiff, MFileDiff \<lparr>fd_old_tree = h, fd_new_tree = None\<rparr>)"
    and "get_tree (cf_tree_json cf) (se_fs s) h (disk (wd_storage w)) = old"
    and "latest_tree (cf_tree_json cf) (se_fs s) (disk (wd_storage w)) = latest"
    and "understood (cf_serde cf) (FileDiffResult, MFileDiffResult (diff_answer old latest))"
    and "\<forall>t \<in> set_option old \<union> set_option latest. loggable cf (ft_tree_hash t)"
  shows "\<exists>out. request_diff (server_link cf clk mid) (cf_serde cf) h (s, w, length (se_out s)) =
    Some (Inr (diff_answer old latest), (s\<lparr>se_out := out\<rparr>, w, length out))"
proof -
  let ?S = "cf_serde cf" and ?T = "server_link cf clk mid"
  let ?d = "MFileDiff \<lparr>fd_old_tree = h, fd_new_tree = None\<rparr>" and ?r = "MFileDiffResult (diff_answer old latest)"
  let ?f = "sent ?S FileDiff ?d" and ?g = "sent ?S FileDiffResult ?r"
  let ?s = "s\<lparr>se_out := se_out s @ [?g]\<rparr>"
  have p: "\<not> (cf_info cf \<and> ((case old of None \<Rightarrow> False | Some t \<Rightarrow> slice12_panics (ft_tree_hash t)) \<or>
      (case latest of None \<Rightarrow> False | Some t \<Rightarrow> slice12_panics (ft_tree_hash t))))"
    using assms(7) by (auto simp: loggable_def split: option.splits)
  have "reply cf FileDiffResult ?r s = ?s"
    using reply_understood [OF assms(6,2)] by simp
  then have "on_file_diff cf ?f s w = (?s, w)"
    using p sent_tree_decodes(2) [OF assms(3)] assms(4,5)
    by (auto simp: on_file_diff_def payload_json_def Let_def diff_answer_def split: prod.split)
  then have "session_step cf clk mid (Recv ?f) (s, w) = (?s, w)"
    using assms(1) sent_json(3) [OF assms(3)] by (simp add: session_step_def ready_step_def on_frame_def)
  note c = c_send_json_ok [OF understoodD(1) [OF assms(3)] tx_server [OF this]]
  have r: "recv_loop ?T (want_types [FileDiffResult]) (?s, w, length (se_out s)) = Some (Inr ?g, (?s, w, Suc (length (se_out s))))"
    by (rule recv_wanted) (simp_all add: sent_json(3) [OF assms(6)])
  have j: "c_json (de_file_diff_result ?S) ?g q = Some (Inr (diff_answer old latest), q)" for q :: "('a, 'b) link"
    using sent_tree_decodes(3) [OF assms(6)] by (rule c_json_ok)
  show ?thesis
    unfolding request_diff_def by (intro exI [of _ "se_out s @ [?g]"]) (simp add: c_bind_def c r j)
qed

section \<open>The shared directory while files are pulled\<close>

text \<open>
  A client's disk as the synchronisation finds it: the shared directory \<open>cs\<close>, and the object cache
  \<open>os\<close> outside of it.  Conflict copies are files.
\<close>

definition client_disk_ok :: "env \<Rightarrow> string list \<Rightarrow> string list \<Rightarrow> fs \<Rightarrow> bool" where
  "client_disk_ok env cs os F \<longleftrightarrow> fs_ok F \<and> share_at env cs F \<and> env ''NSMT_SYMLINK_VIEW'' = None \<and>
     resolve F (objects_dir env) = Inr os \<and> node_at F os = Some Dir \<and> \<not> prefix cs os \<and>
     (\<forall>n. prefix ''.sync-conflict-'' n \<longrightarrow> node_at F (cs @ [n]) \<noteq> Some Dir)"

text \<open>The places a pull of the names \<open>P\<close> may write to, and what it keeps.\<close>

definition touched :: "string list \<Rightarrow> string list \<Rightarrow> string set \<Rightarrow> string list \<Rightarrow> bool" where
  "touched cs os P x \<longleftrightarrow> (\<exists>p \<in> P. x = cs @ [p]) \<or> (\<exists>n. prefix ''.sync-conflict-'' n \<and> x = cs @ [n]) \<or> (\<exists>n. x = os @ [n])"

definition pulled :: "string list \<Rightarrow> string list \<Rightarrow> string set \<Rightarrow> fs \<Rightarrow> fs \<Rightarrow> bool" where
  "pulled cs os P F F' \<longleftrightarrow> (fs_ok F \<longrightarrow> fs_ok F') \<and> cwd F' = cwd F \<and>
     (\<forall>x. node_at F' x = Some Dir \<longleftrightarrow> node_at F x = Some Dir) \<and>
     (\<forall>x. \<not> touched cs os P x \<longrightarrow> node_at F' x = node_at F x)"

lemma pulled_refl [simp]: "pulled cs os P F F"
  by (simp add: pulled_def)

lemma pulled_trans: "pulled cs os P F G \<Longrightarrow> pulled cs os Q G H \<Longrightarrow> pulled cs os (P \<union> Q) F H"
  by (auto simp: pulled_def touched_def)

lemma pulled_dirs: "pulled cs os P F F' \<Longrightarrow> dirs_kept F F'"
  by (simp add: pulled_def dirs_kept_def)

lemma pulled_disk_ok:
  assumes "client_disk_ok env cs os F" and "pulled cs os P F F'"
  shows "client_disk_ok env cs os F'"
  using assms resolve_kept [OF _ pulled_dirs [OF assms(2)]]
  by (auto simp: client_disk_ok_def pulled_def share_at_def)

lemma pulled_set_file:
  assumes "fs_ok F" and "placed F q" and "node_at F q \<noteq> Some Dir" and "touched cs os P q"
  shows "pulled cs os P F (set_node q (File b) F)"
proof -
  have "q \<noteq> []" using assms(4) by (auto simp: touched_def)
  with fs_ok_set_node [OF assms(1,2)] assms(3,4) show ?thesis by (auto simp: pulled_def)
qed

lemma placed_in_dir: "node_at F ds = Some Dir \<Longrightarrow> simple_name n \<Longrightarrow> placed F (ds @ [n])"
  by (simp add: placed_def)

lemma ensure_object_pulled:
  assumes "client_disk_ok env cs os F" and "simple_name blob"
  shows "\<exists>F'. ensure_object_local env blob bs F = (Inr (), F') \<and> pulled cs os P F F' \<and>
    (\<forall>x. node_at F x \<noteq> None \<longrightarrow> node_at F' x = node_at F x)"
proof -
  note d = assms(1) [unfolded client_disk_ok_def]
  have o: "resolve F (objects_dir env) = Inr os" "node_at F os = Some Dir" using d by simp_all
  note ex = exists_in_dir [OF o assms(2)]
  have c: "fs_create_dir_all (objects_dir env) F = Inr F" using o by (rule create_dir_all_idem)
  show ?thesis
  proof (cases "node_at F (os @ [blob])")
    case None
    then have w: "fs_write (join (objects_dir env) blob) bs F = Inr (set_node (os @ [blob]) (File bs) F)"
      using write_in_dir [OF o assms(2)] by simp
    have "pulled cs os P F (set_node (os @ [blob]) (File bs) F)"
      using d None placed_in_dir [OF o(2) assms(2)] by (intro pulled_set_file) (auto simp: touched_def)
    with None ex c w show ?thesis by (auto simp: ensure_object_local_def Let_def)
  qed (use ex c in \<open>auto simp: ensure_object_local_def Let_def\<close>)
qed

text \<open>A remote file arrives: it has the remote contents afterwards, whatever was there before.\<close>

lemma materialize_pulled:
  fixes requester ts
  assumes "client_disk_ok env cs os F" and "simple_name (fte_path e)" and "node_at F (cs @ [fte_path e]) \<noteq> Some Dir"
  shows "\<exists>F'. materialize_with_conflict C env lnk ts e bs requester F = (Inr (), F') \<and>
    pulled cs os {fte_path e} F F' \<and> node_at F' (cs @ [fte_path e]) = Some (File bs)"
proof -
  note d = assms(1) [unfolded client_disk_ok_def]
  have sh: "share_at env cs F" "resolve F (share_dir env) = Inr cs" "node_at F cs = Some Dir" using d by (simp_all add: share_at_def)
  let ?q = "cs @ [fte_path e]"
  have put: "pulled cs os {fte_path e} G (set_node ?q (File bs) G)" if "pulled cs os {fte_path e} F G" for G
    using that d assms(3) placed_in_dir [OF sh(3) assms(2)] placed_kept [OF _ pulled_dirs [OF that]]
    by (intro pulled_set_file) (auto simp: pulled_def touched_def)
  have t: "fs_exists F (join (share_dir env) (fte_path e)) \<longleftrightarrow> node_at F ?q \<noteq> None"
    using exists_in_dir [OF sh(2,3) assms(2)] .
  have plain: "materialize_with_conflict C env lnk ts e bs requester F = (Inr (), set_node ?q (File bs) F)"
    if "node_at F ?q = None \<or> (\<exists>l. node_at F ?q = Some (File l) \<and> object_id C l = fte_blob_id e)"
    using that d t materialize_in_share [OF sh(1) assms(2,3)] read_in_dir [OF sh(2,3) assms(2)]
    by (auto simp: materialize_with_conflict_def Let_def)
  show ?thesis
  proof (cases "node_at F ?q = None \<or> (\<exists>l. node_at F ?q = Some (File l) \<and> object_id C l = fte_blob_id e)")
    case True
    with plain put [of F] show ?thesis by auto
  next
    case False
    then obtain l where l: "node_at F ?q = Some (File l)" "object_id C l \<noteq> fte_blob_id e"
      using assms(3) by (cases "node_at F ?q"; cases "the (node_at F ?q)") auto
    define cn where "cn = conflict_name requester (fte_path e) ts"
    have cn: "simple_name cn" "prefix ''.sync-conflict-'' cn" using conflict_name_simple [OF assms(2)] by (simp_all add: cn_def)
    have nd: "node_at F (cs @ [cn]) \<noteq> Some Dir" using d cn(2) by blast
    let ?G = "set_node (cs @ [cn]) (File l) F"
    have G: "pulled cs os {fte_path e} F ?G"
      using d nd cn placed_in_dir [OF sh(3) cn(1)] by (intro pulled_set_file) (auto simp: touched_def)
    have "materialize_with_conflict C env lnk ts e bs requester F = (Inr (), set_node ?q (File bs) ?G)"
      using d by (intro materialize_conflict_in_share [OF sh(1) assms(2) l _ cn_def nd]) simp
    with pulled_trans [OF G put [OF G]] show ?thesis by auto
  qed
qed

section \<open>Pulling over a session\<close>

text \<open>A session that can serve the client, and an entry whose object the server has.\<close>

definition can_serve :: "('x, 'd) config \<Rightarrow> env \<Rightarrow> string \<Rightarrow> session \<Rightarrow> bool" where
  "can_serve cf env fqn s \<longleftrightarrow> se_phase s = Ready \<and> se_open s \<and> se_domain s = domain_of fqn \<and> same_keys cf env (domain_of fqn) \<and>
     seal_law (cf_crates cf) \<and> aead_law (cf_crates cf)"

definition served :: "('x, 'd) config \<Rightarrow> server_fs \<Rightarrow> ('x, 'd) world \<Rightarrow> (string \<Rightarrow> bytes) \<Rightarrow> file_tree_entry \<Rightarrow> bool" where
  "served cf sf w obj e \<longleftrightarrow> simple_name (fte_blob_id e) \<and> (\<forall>i. get_understood (cf_serde cf) (fte_blob_id e) i) \<and>
     get_object (cf_backend cf) sf (fte_blob_id e) (wd_storage w) = Some (obj (fte_blob_id e)) \<and>
     length (obj (fte_blob_id e)) < (2 ^ 32 - 1) * CHUNK_SIZE"

lemma can_serve_out [simp]: "can_serve cf env fqn (s\<lparr>se_out := out\<rparr>) \<longleftrightarrow> can_serve cf env fqn s"
  by (simp add: can_serve_def)

lemma pull_object_server:
  assumes "can_serve cf env fqn s" and "served cf (se_fs s) w obj e"
  shows "\<exists>out. pull_object_with_peer (server_link cf clk mid) U dial (cf_serde cf) (cf_crates cf) env now ctx e fqn (s, w, length (se_out s)) =
    Some (Inr (Some (obj (fte_blob_id e))), (s\<lparr>se_out := out\<rparr>, w, length out))"
proof -
  note c = assms(1) [unfolded can_serve_def] and v = assms(2) [unfolded served_def]
  from get_loop_server [where i = 0 and clk = clk and mid = mid and env = env and s = s and w = w and cf = cf and
      blob = "fte_blob_id e" and data = "obj (fte_blob_id e)"] c v
  obtain out where "get_loop (server_link cf clk mid) (cf_serde cf) (cf_crates cf) env (fte_blob_id e) (domain_of fqn) [] 0
      (s, w, length (se_out s)) = Some (Inr (Some (obj (fte_blob_id e))), (s\<lparr>se_out := out\<rparr>, w, length out))" by auto
  then show ?thesis
    by (intro exI [of _ out]) (simp add: pull_object_with_peer_def client_get_object_def c_bind_def c_ret_def)
qed

lemma pull_path_server:
  assumes "can_serve cf (su_env su) fqn s" and "served cf (se_fs s) w obj e"
    and "find (\<lambda>e. fte_path e = p) (ft_entries t) = Some e" and "simple_name p"
    and "client_disk_ok (su_env su) cs os F" and "node_at F (cs @ [p]) \<noteq> Some Dir"
  shows "\<exists>out F'. pull_path (server_link cf clk mid) (cf_serde cf) (cf_crates cf) su ctx fqn t p ((s, w, length (se_out s)), F) =
      Some (Inr (), ((s\<lparr>se_out := out\<rparr>, w, length out), F')) \<and>
    pulled cs os {p} F F' \<and> node_at F' (cs @ [p]) = Some (File (obj (fte_blob_id e)))"
proof -
  let ?bs = "obj (fte_blob_id e)"
  have p: "fte_path e = p" using assms(3) by (auto simp: find_Some_iff)
  obtain out where get: "pull_object_with_peer (server_link cf clk mid) (su_peers su) (su_dial su) (cf_serde cf) (cf_crates cf) (su_env su)
      (su_now su) ctx e fqn (s, w, length (se_out s)) = Some (Inr (Some ?bs), (s\<lparr>se_out := out\<rparr>, w, length out))"
    using pull_object_server [OF assms(1,2)] by blast
  from materialize_pulled [of "su_env su" cs os F e "cf_crates cf" "su_link su" "su_conflict_ts su p" ?bs fqn] assms(4-6) p
  obtain F1 where m: "materialize_with_conflict (cf_crates cf) (su_env su) (su_link su) (su_conflict_ts su p) e ?bs fqn F = (Inr (), F1)"
    and F1: "pulled cs os {p} F F1" "node_at F1 (cs @ [p]) = Some (File ?bs)" by auto
  have "simple_name (fte_blob_id e)" using assms(2) by (simp add: served_def)
  from ensure_object_pulled [OF pulled_disk_ok [OF assms(5) F1(1)] this, of ?bs "{p}"]
  obtain F2 where en: "ensure_object_local (su_env su) (fte_blob_id e) ?bs F1 = (Inr (), F2)" and F2: "pulled cs os {p} F1 F2"
    "\<forall>x. node_at F1 x \<noteq> None \<longrightarrow> node_at F2 x = node_at F1 x" by blast
  have "pull_path (server_link cf clk mid) (cf_serde cf) (cf_crates cf) su ctx fqn t p ((s, w, length (se_out s)), F) =
      Some (Inr (), ((s\<lparr>se_out := out\<rparr>, w, length out), F2))"
    by (simp add: pull_path_def assms(3) c_bind_def on_net_def on_disk_def get m en)
  with pulled_trans [OF F1(1) F2(1)] F1(2) F2(2) show ?thesis by auto
qed

text \<open>
  The names of files that take part in the synchronisation and lie at the top of the directory;
  files in subdirectories are outside of what the lemmas and properties of this theory say.
\<close>

definition synced_name :: "string \<Rightarrow> bool" where
  "synced_name n \<longleftrightarrow> simple_name n \<and> \<not> not_synced n \<and> CHR 0x5C \<notin> set n"

lemma synced_not_touched: "synced_name p \<Longrightarrow> \<not> prefix cs os \<Longrightarrow> p \<notin> P \<Longrightarrow> \<not> touched cs os P (cs @ [p])"
  by (auto simp: touched_def synced_name_def not_synced_def)

lemma find_entry: "distinct_paths es \<Longrightarrow> e \<in> set es \<Longrightarrow> find (\<lambda>x. fte_path x = fte_path e) es = Some e"
  by (induction es) (auto simp: image_iff)

lemma pull_paths_server:
  assumes "can_serve cf (su_env su) fqn s" and "distinct_paths (ft_entries t)"
    and "\<forall>e \<in> set (ft_entries t). served cf (se_fs s) w obj e \<and> synced_name (fte_path e) \<and> node_at F (cs @ [fte_path e]) \<noteq> Some Dir"
    and "client_disk_ok (su_env su) cs os F" and "set ps \<subseteq> fte_path ` set (ft_entries t)"
  shows "\<exists>out F'. pull_paths (server_link cf clk mid) (cf_serde cf) (cf_crates cf) su ctx fqn t ps ((s, w, length (se_out s)), F) =
      Some (Inr (), ((s\<lparr>se_out := out\<rparr>, w, length out), F')) \<and> pulled cs os (set ps) F F' \<and>
    (\<forall>e \<in> set (ft_entries t). fte_path e \<in> set ps \<longrightarrow> node_at F' (cs @ [fte_path e]) = Some (File (obj (fte_blob_id e))))"
  using assms
proof (induction ps arbitrary: s F)
  case Nil
  then show ?case by (intro exI [of _ "se_out s"] exI [of _ F]) (simp add: c_ret_def)
next
  case (Cons p ps)
  let ?T = "server_link cf clk mid" and ?S = "cf_serde cf" and ?C = "cf_crates cf"
  obtain e where e: "e \<in> set (ft_entries t)" "fte_path e = p" using Cons.prems(5) by auto
  have f: "find (\<lambda>e. fte_path e = p) (ft_entries t) = Some e"
    using find_entry [OF Cons.prems(2) e(1)] e(2) by simp
  have ep: "served cf (se_fs s) w obj e" "simple_name p" "node_at F (cs @ [p]) \<noteq> Some Dir"
    using Cons.prems(3) e by (auto simp: synced_name_def)
  from pull_path_server [where clk = clk and mid = mid and ctx = ctx, OF Cons.prems(1) ep(1) f ep(2) Cons.prems(4) ep(3)] obtain o1 F1 where
    1: "pull_path ?T ?S ?C su ctx fqn t p ((s, w, length (se_out s)), F) = Some (Inr (), ((s\<lparr>se_out := o1\<rparr>, w, length o1), F1))" and
    F1: "pulled cs os {p} F F1" "node_at F1 (cs @ [p]) = Some (File (obj (fte_blob_id e)))" by blast
  let ?s = "s\<lparr>se_out := o1\<rparr>"
  have "\<forall>e \<in> set (ft_entries t). served cf (se_fs ?s) w obj e \<and> synced_name (fte_path e) \<and> node_at F1 (cs @ [fte_path e]) \<noteq> Some Dir"
    using Cons.prems(3) F1(1) by (simp add: pulled_def)
  from Cons.IH [of ?s F1, OF _ Cons.prems(2) this pulled_disk_ok [OF Cons.prems(4) F1(1)]] Cons.prems(1,5) obtain o2 F2 where
    2: "pull_paths ?T ?S ?C su ctx fqn t ps ((?s, w, length o1), F1) = Some (Inr (), ((s\<lparr>se_out := o2\<rparr>, w, length o2), F2))" and
    F2: "pulled cs os (set ps) F1 F2"
      "\<forall>e \<in> set (ft_entries t). fte_path e \<in> set ps \<longrightarrow> node_at F2 (cs @ [fte_path e]) = Some (File (obj (fte_blob_id e)))" by auto
  have "node_at F2 (cs @ [fte_path e']) = Some (File (obj (fte_blob_id e')))"
    if e': "e' \<in> set (ft_entries t)" "fte_path e' \<in> set (p # ps)" for e'
  proof (cases "fte_path e' \<in> set ps")
    case False
    then have p: "fte_path e' = p" using e'(2) by simp
    then have "e' = e" using Cons.prems(2) e e'(1) by (auto simp: distinct_map inj_on_def)
    moreover have "\<not> touched cs os (set ps) (cs @ [p])"
      using False p Cons.prems(3,4) e by (intro synced_not_touched) (auto simp: client_disk_ok_def)
    ultimately show ?thesis using F2(1) F1(2) e(2) by (simp add: pulled_def)
  qed (use F2(2) e'(1) in blast)
  moreover have "pull_paths ?T ?S ?C su ctx fqn t (p # ps) ((s, w, length (se_out s)), F) =
      Some (Inr (), ((s\<lparr>se_out := o2\<rparr>, w, length o2), F2))"
    using 1 2 by (simp add: c_bind_def)
  moreover have "pulled cs os (set (p # ps)) F F2" using pulled_trans [OF F1(1) F2(1)] by simp
  ultimately show ?case by blast
qed

text \<open>The removed files are removed, and nothing else.\<close>

lemma remove_paths_share:
  assumes "share_at env cs F" and "\<forall>p \<in> set ps. simple_name p \<and> node_at F (cs @ [p]) \<noteq> Some Dir" and "fs_ok F"
  shows "node_at (remove_paths (share_dir env) ps F) x = (if \<exists>p \<in> set ps. x = cs @ [p] then None else node_at F x) \<and>
    share_at env cs (remove_paths (share_dir env) ps F) \<and> fs_ok (remove_paths (share_dir env) ps F)"
  using assms
proof (induction ps arbitrary: F)
  case (Cons p ps)
  let ?G = "case fs_remove_file (join (share_dir env) p) F of Inl _ \<Rightarrow> F | Inr F' \<Rightarrow> F'"
  have sh: "resolve F (share_dir env) = Inr cs" "node_at F cs = Some Dir" using Cons.prems(1) by (simp_all add: share_at_def)
  have r: "resolve F (join (share_dir env) p) = Inr (cs @ [p])" using resolve_join [OF sh] Cons.prems(2) by simp
  have G: "node_at ?G y = (if y = cs @ [p] then None else node_at F y)" for y
    using Cons.prems(2) by (cases "node_at F (cs @ [p])"; cases "the (node_at F (cs @ [p]))") (auto simp: fs_remove_file_def r)
  have k: "dirs_kept F ?G"
    using Cons.prems(2) dirs_kept_remove_File [of F "cs @ [p]"]
    by (cases "node_at F (cs @ [p])"; cases "the (node_at F (cs @ [p]))") (auto simp: fs_remove_file_def r)
  have "share_at env cs ?G" using Cons.prems(1) resolve_kept [OF sh(1) k] k by (auto simp: share_at_def dirs_kept_def)
  moreover have "fs_ok ?G" using fs_remove_file_ok [OF Cons.prems(3)] Cons.prems(3) by (auto split: sum.split)
  moreover have "\<forall>p \<in> set ps. simple_name p \<and> node_at ?G (cs @ [p]) \<noteq> Some Dir" using Cons.prems(2) G by auto
  ultimately show ?case using Cons.IH [of ?G] G by auto
qed simp

section \<open>Directories that agree with a tree\<close>

text \<open>
  The files of the shared directory \<open>cs\<close> are exactly the entries \<open>es\<close>: every file that takes part
  in the synchronisation has an entry, and every entry is what the scan makes of the file.
\<close>

definition in_sync :: "crates \<Rightarrow> string list \<Rightarrow> fs \<Rightarrow> file_tree_entry list \<Rightarrow> bool" where
  "in_sync C cs F es \<longleftrightarrow>
     (\<forall>q b. strict_prefix cs q \<and> node_at F q = Some (File b) \<and> \<not> not_synced (tree_name cs q) \<longrightarrow> (\<exists>e \<in> set es. q = cs @ [fte_path e])) \<and>
     (\<forall>e \<in> set es. synced_name (fte_path e) \<and>
        (\<exists>b. node_at F (cs @ [fte_path e]) = Some (File b) \<and> e = entry_of C (fte_mtime_ns e) (fte_path e) b))"

lemma tree_name_top: "synced_name n \<Longrightarrow> tree_name cs (cs @ [n]) = n"
  by (auto simp: tree_name_def slashes_def synced_name_def intro: map_idI)

text \<open>A name without an entry is not in the directory.\<close>

lemma in_sync_absent:
  assumes "in_sync C cs F es" and "synced_name n" and "n \<notin> fte_path ` set es" and "node_at F (cs @ [n]) \<noteq> Some Dir"
  shows "node_at F (cs @ [n]) = None"
proof (rule ccontr)
  assume "node_at F (cs @ [n]) \<noteq> None"
  then obtain b where "node_at F (cs @ [n]) = Some (File b)"
    using assms(4) by (cases "node_at F (cs @ [n])"; cases "the (node_at F (cs @ [n]))") auto
  moreover have "\<not> not_synced (tree_name cs (cs @ [n]))" using assms(2) by (simp add: tree_name_top) (simp add: synced_name_def)
  moreover have "strict_prefix cs (cs @ [n])" by (simp add: strict_prefix_def)
  ultimately show False using assms(1,3) unfolding in_sync_def by blast
qed

text \<open>What the hash of a tree sees of an entry.\<close>

definition no_mtime :: "file_tree_entry \<Rightarrow> file_tree_entry" where
  "no_mtime e = e\<lparr>fte_mtime_ns := 0\<rparr>"

lemma no_mtime_simps [simp]: "fte_path (no_mtime e) = fte_path e" "entry_bytes (no_mtime e) = entry_bytes e"
  "no_mtime (entry_of C mt p b) = entry_of C 0 p b"
  by (simp_all add: no_mtime_def entry_bytes_def entry_of_def)

lemma sort_no_mtime: "map no_mtime (sort_key fte_path es) = sort_key fte_path (map no_mtime es)"
proof (induction es)
  case (Cons e es)
  have "map no_mtime (insort_key fte_path e xs) = insort_key fte_path (no_mtime e) (map no_mtime xs)" for xs
    by (induction xs) simp_all
  with Cons show ?case by simp
qed simp

lemma same_files_hash:
  assumes "distinct_paths (ft_entries t)" and "distinct_paths (ft_entries u)"
    and "no_mtime ` set (ft_entries t) = no_mtime ` set (ft_entries u)"
  shows "tree_hash C t = tree_hash C u"
proof -
  have d: "distinct (map no_mtime es)" "inj_on fte_path (set (map no_mtime es))" if "distinct_paths es" for es
    using that by (auto simp: distinct_map inj_on_def) (metis no_mtime_simps(1))+
  have "mset (map no_mtime (ft_entries t)) = mset (map no_mtime (ft_entries u))"
    using set_eq_iff_mset_eq_distinct [OF d(1) [OF assms(1)] d(1) [OF assms(2)]] assms(3) by simp
  then have "map no_mtime (sort_key fte_path (ft_entries t)) = map no_mtime (sort_key fte_path (ft_entries u))"
    unfolding sort_no_mtime using d(2) [OF assms(1)] by (intro sort_key_inj_key_eq) simp_all
  then have "map entry_bytes (map no_mtime (sort_key fte_path (ft_entries t))) =
      map entry_bytes (map no_mtime (sort_key fte_path (ft_entries u)))" by simp
  then show ?thesis unfolding map_map comp_def no_mtime_simps(2) tree_hash_def by simp
qed

lemma in_sync_entries:
  assumes "in_sync C cs F es"
  shows "no_mtime ` set es = {entry_of C 0 n b | n b. synced_name n \<and> node_at F (cs @ [n]) = Some (File b)}"
proof -
  have "e \<in> no_mtime ` set es" if e: "synced_name n" "node_at F (cs @ [n]) = Some (File b)" "e = entry_of C 0 n b" for e n b
  proof -
    have "strict_prefix cs (cs @ [n])" "\<not> not_synced (tree_name cs (cs @ [n]))"
      using e(1) by (simp add: strict_prefix_def) (simp add: tree_name_top [OF e(1)], simp add: e(1) [unfolded synced_name_def])
    with assms e(2) obtain e' where e': "e' \<in> set es" "cs @ [n] = cs @ [fte_path e']" unfolding in_sync_def by blast
    with assms e(2) have "e' = entry_of C (fte_mtime_ns e') n b" unfolding in_sync_def by fastforce
    then have "no_mtime e' = e" using e(3) by (metis no_mtime_simps(3))
    then show ?thesis using e'(1) by blast
  qed
  moreover have "\<exists>n b. no_mtime e = entry_of C 0 n b \<and> synced_name n \<and> node_at F (cs @ [n]) = Some (File b)" if "e \<in> set es" for e
    using that assms unfolding in_sync_def by (metis no_mtime_simps(3))
  ultimately show ?thesis by auto
qed

lemma in_sync_hash:
  assumes "in_sync C cs F (ft_entries t)" and "in_sync C cs F (ft_entries u)"
    and "distinct_paths (ft_entries t)" and "distinct_paths (ft_entries u)"
  shows "tree_hash C t = tree_hash C u"
  using same_files_hash [OF assms(3,4)] in_sync_entries [OF assms(1)] in_sync_entries [OF assms(2)] by simp

lemma client_tree_hash_eq: "client_tree_hash C t = tree_hash C t"
  by (simp add: client_tree_hash_def tree_hash_def entry_bytes_def [abs_def])

text \<open>The scan of a directory that agrees with a tree agrees with the directory too, and has the hash of the tree.\<close>

lemma in_sync_top:
  assumes "fs_ok F" and "in_sync C cs F es" and "x \<in> set (nodes F)" and "in_tree cs x"
  shows "\<exists>n b. synced_name n \<and> x = (cs @ [n], File b)"
proof -
  have "node_at F (fst x) = Some (snd x)" "snd x \<noteq> Dir" using assms entry_node [OF assms(1), of "fst x" "snd x"] by (simp_all add: in_tree_def)
  then obtain b where "snd x = File b" "node_at F (fst x) = Some (File b)" by (cases "snd x") simp_all
  then show ?thesis using assms(2,4) unfolding in_sync_def in_tree_def by (metis prod.collapse)
qed

lemma tree_entry_path [simp]: "fte_path (tree_entry C mt root cs x) = tree_name cs (fst x)"
  by (simp add: tree_entry_def entry_of_def)

lemma scan_in_sync:
  assumes "fs_ok F" and "in_sync C cs F es" and "set us = tree_entry C mt root cs ` {x \<in> set (nodes F). in_tree cs x}"
  shows "in_sync C cs F us"
  unfolding in_sync_def
proof (intro conjI allI ballI impI)
  fix q b
  assume q: "strict_prefix cs q \<and> node_at F q = Some (File b) \<and> \<not> not_synced (tree_name cs q)"
  then have x: "(q, File b) \<in> set (nodes F)" "in_tree cs (q, File b)"
    using entry_node [OF assms(1), of q "File b"] by (auto simp: in_tree_def)
  from in_sync_top [OF assms(1,2) this] obtain n where n: "synced_name n" "q = cs @ [n]" by auto
  with x show "\<exists>e \<in> set us. q = cs @ [fte_path e]"
    unfolding assms(3) by (intro bexI [of _ "tree_entry C mt root cs (q, File b)"]) (auto simp: tree_name_top)
next
  fix e
  assume "e \<in> set us"
  then obtain x where x: "x \<in> set (nodes F)" "in_tree cs x" "e = tree_entry C mt root cs x" unfolding assms(3) by blast
  from in_sync_top [OF assms(1,2) x(1,2)] obtain n b where n: "synced_name n" "x = (cs @ [n], File b)" by blast
  with x entry_node [OF assms(1), of "cs @ [n]" "File b"]
  show "synced_name (fte_path e)" "\<exists>b. node_at F (cs @ [fte_path e]) = Some (File b) \<and> e = entry_of C (fte_mtime_ns e) (fte_path e) b"
    by (auto simp: tree_entry_def tree_name_top contents_def entry_of_def)
qed

lemma scan_distinct:
  assumes "fs_ok F" and "in_sync C cs F es" and "mset us = mset (map (tree_entry C mt root cs) (filter (in_tree cs) (nodes F)))"
  shows "distinct_paths us"
proof -
  have "image_mset fte_path (mset us) = image_mset fte_path (mset (map (tree_entry C mt root cs) (filter (in_tree cs) (nodes F))))"
    using assms(3) by simp
  then have "mset (map fte_path us) = mset (map (tree_name cs) (map fst (filter (in_tree cs) (nodes F))))"
    by (simp add: multiset.map_comp comp_def)
  moreover have "distinct (map (tree_name cs) (map fst (filter (in_tree cs) (nodes F))))"
    unfolding distinct_map [of "tree_name cs"]
  proof
    show "distinct (map fst (filter (in_tree cs) (nodes F)))"
      using assms(1) by (simp add: fs_ok_def hm_ok_def distinct_map_filter)
    show "inj_on (tree_name cs) (set (map fst (filter (in_tree cs) (nodes F))))"
    proof (rule inj_onI)
      fix q r
      assume "q \<in> set (map fst (filter (in_tree cs) (nodes F)))" "r \<in> set (map fst (filter (in_tree cs) (nodes F)))"
        and eq: "tree_name cs q = tree_name cs r"
      then obtain x y where "x \<in> set (nodes F)" "in_tree cs x" "q = fst x" "y \<in> set (nodes F)" "in_tree cs y" "r = fst y" by auto
      with in_sync_top [OF assms(1,2), of x] in_sync_top [OF assms(1,2), of y] obtain n m where
        "synced_name n" "q = cs @ [n]" "synced_name m" "r = cs @ [m]" by auto
      with eq show "q = r" by (simp add: tree_name_top)
    qed
  qed
  ultimately show ?thesis by (metis mset_eq_imp_distinct_iff)
qed

lemma rescan_in_sync:
  assumes "fs_ok F" and "share_at env cs F" and "in_sync C cs F (ft_entries u)" and "distinct_paths (ft_entries u)"
  shows "\<exists>t. build_tree C mt F (share_dir env) = Some (Inr t) \<and> ft_tree_hash t = tree_hash C u"
proof -
  have sh: "resolve F (share_dir env) = Inr cs" "node_at F cs = Some Dir" using assms(2) by (simp_all add: share_at_def)
  from build_tree_entries [OF assms(1) sh, of C mt] obtain t where t: "build_tree C mt F (share_dir env) = Some (Inr t)"
    "mset (ft_entries t) = mset (map (tree_entry C mt (share_dir env) cs) (filter (in_tree cs) (nodes F)))"
    "ft_tree_hash t = client_tree_hash C t" by blast
  have "in_sync C cs F (ft_entries t)" using scan_in_sync [OF assms(1,3)] mset_eq_setD [OF t(2)] by simp
  from in_sync_hash [OF this assms(3) scan_distinct [OF assms(1,3) t(2)] assms(4)] t(1,3) show ?thesis
    by (auto simp: client_tree_hash_eq)
qed

section \<open>A difference applied to a directory\<close>

lemma tree_map_of_entry: "distinct_paths es \<Longrightarrow> e \<in> set es \<Longrightarrow> tree_map es (fte_path e) = Some (stamp e)"
  by (induction es) (auto simp: tree_map_def image_iff)

lemma tree_map_SomeD: "tree_map es p = Some v \<Longrightarrow> \<exists>e \<in> set es. fte_path e = p \<and> stamp e = v"
  unfolding tree_map_def by (drule map_of_SomeD) auto

lemma tree_map_None: "tree_map es p = None \<longleftrightarrow> p \<notin> fte_path ` set es"
  by (auto simp: tree_map_def map_of_eq_None_iff image_image)

lemma diff_sets:
  assumes "distinct_paths (ft_entries old)" and "distinct_paths (ft_entries t)" and "diff (Some old) (Some t) = (changed, removed)"
  shows "set changed = {fte_path e | e. e \<in> set (ft_entries t) \<and> tree_map (ft_entries old) (fte_path e) \<noteq> Some (stamp e)}"
    and "set removed = fte_path ` set (ft_entries old) - fte_path ` set (ft_entries t)"
proof -
  have "distinct_paths (entries_of (Some old))" "distinct_paths (entries_of (Some t))" using assms(1,2) by (simp_all add: entries_of_def)
  note r = diff_result [OF this assms(3)]
  show "set changed = {fte_path e | e. e \<in> set (ft_entries t) \<and> tree_map (ft_entries old) (fte_path e) \<noteq> Some (stamp e)}"
    using r(1) by (auto simp: entries_of_def)
  show "set removed = fte_path ` set (ft_entries old) - fte_path ` set (ft_entries t)"
    using r(2) by (auto simp: entries_of_def tree_map_None)
qed

lemma conflict_not_synced: "prefix ''.sync-conflict-'' n \<Longrightarrow> not_synced (tree_name cs (cs @ [n]))"
  by (auto simp: prefix_def not_synced_def tree_name_def slashes_def)

text \<open>The entries of a tree describe the objects \<open>obj\<close>, and no local file passes for another object.\<close>

definition describes :: "crates \<Rightarrow> (string \<Rightarrow> bytes) \<Rightarrow> fs \<Rightarrow> file_tree_entry list \<Rightarrow> bool" where
  "describes C obj F es \<longleftrightarrow> (\<forall>e \<in> set es. synced_name (fte_path e) \<and>
     e = entry_of C (fte_mtime_ns e) (fte_path e) (obj (fte_blob_id e)) \<and>
     (\<forall>q b. node_at F q = Some (File b) \<and> object_id C b = fte_blob_id e \<longrightarrow> b = obj (fte_blob_id e)))"

definition has_objects :: "string list \<Rightarrow> (string \<Rightarrow> bytes) \<Rightarrow> fs \<Rightarrow> file_tree_entry list \<Rightarrow> bool" where
  "has_objects cs obj F es \<longleftrightarrow> (\<forall>e \<in> set es. node_at F (cs @ [fte_path e]) = Some (File (obj (fte_blob_id e))))"

lemma entry_of_blob: "fte_blob_id (entry_of C mt p b) = object_id C b"
  by (simp add: entry_of_def)

lemma unchanged_kept:
  assumes "in_sync C cs F (ft_entries old)" and "describes C obj F (ft_entries t)" and "e \<in> set (ft_entries t)"
    and "tree_map (ft_entries old) (fte_path e) = Some (stamp e)"
  shows "node_at F (cs @ [fte_path e]) = Some (File (obj (fte_blob_id e)))"
proof -
  from tree_map_SomeD [OF assms(4)] obtain e' where e': "e' \<in> set (ft_entries old)" "fte_path e' = fte_path e" "fte_blob_id e' = fte_blob_id e"
    by (auto simp: stamp_def)
  with assms(1) obtain b where b: "node_at F (cs @ [fte_path e]) = Some (File b)" "e' = entry_of C (fte_mtime_ns e') (fte_path e') b"
    unfolding in_sync_def by metis
  then have "object_id C b = fte_blob_id e" using e'(3) by (metis entry_of_blob)
  then show ?thesis using assms(2,3) b(1) unfolding describes_def by metis
qed

lemma patch_in_sync:
  assumes "\<not> prefix cs os" and "in_sync C cs F (ft_entries old)" and "describes C obj F (ft_entries t)"
    and "distinct_paths (ft_entries old)" and "distinct_paths (ft_entries t)" and "diff (Some old) (Some t) = (changed, removed)"
    and "pulled cs os (set changed) F F1"
    and "\<forall>e \<in> set (ft_entries t). fte_path e \<in> set changed \<longrightarrow> node_at F1 (cs @ [fte_path e]) = Some (File (obj (fte_blob_id e)))"
    and "\<And>x. node_at F2 x = (if \<exists>p \<in> set removed. x = cs @ [p] then None else node_at F1 x)"
  shows "has_objects cs obj F2 (ft_entries t) \<and> in_sync C cs F2 (ft_entries t)"
proof -
  note ds = diff_sets [OF assms(4-6)] and des = assms(3) [unfolded describes_def]
  have kept: "node_at F2 (cs @ [fte_path e]) = node_at F1 (cs @ [fte_path e])" if "e \<in> set (ft_entries t)" for e
    using assms(9) ds(2) that by auto
  have has: "node_at F2 (cs @ [fte_path e]) = Some (File (obj (fte_blob_id e)))" if e: "e \<in> set (ft_entries t)" for e
  proof (cases "fte_path e \<in> set changed")
    case False
    then have "node_at F (cs @ [fte_path e]) = Some (File (obj (fte_blob_id e)))"
      using ds(1) e by (intro unchanged_kept [OF assms(2,3)]) auto
    moreover have "\<not> touched cs os (set changed) (cs @ [fte_path e])" using des e False assms(1) by (intro synced_not_touched) auto
    ultimately show ?thesis using assms(7) kept [OF e] by (simp add: pulled_def)
  qed (use assms(8) kept [OF e] e in simp)
  moreover have "\<exists>e \<in> set (ft_entries t). q = cs @ [fte_path e]"
    if q: "strict_prefix cs q" "node_at F2 q = Some (File b)" "\<not> not_synced (tree_name cs q)" for q b
  proof (cases "touched cs os (set changed) q")
    case True
    have "\<not> (\<exists>n. q = os @ [n])" using q(1) assms(1) by (auto simp: strict_prefix_def)
    with True q(3) conflict_not_synced obtain p where "p \<in> set changed" "q = cs @ [p]" unfolding touched_def by blast
    then show ?thesis unfolding ds(1) by blast
  next
    case False
    from q(2) have r: "\<forall>p \<in> set removed. q \<noteq> cs @ [p]" and "node_at F1 q = Some (File b)"
      unfolding assms(9) by (simp_all split: if_split_asm)
    with False assms(7) have "node_at F q = Some (File b)" by (simp add: pulled_def)
    with q assms(2) obtain e' where e': "e' \<in> set (ft_entries old)" "q = cs @ [fte_path e']" unfolding in_sync_def by blast
    then have "fte_path e' \<in> fte_path ` set (ft_entries t)" using r ds(2) by blast
    then show ?thesis using e'(2) by auto
  qed
  ultimately have "in_sync C cs F2 (ft_entries t)" unfolding in_sync_def using des by fast
  with has show ?thesis unfolding has_objects_def by blast
qed

section \<open>One tick of a client\<close>

lemma rescan_ok:
  assumes "build_tree C (su_mtime su) F (share_dir (su_env su)) = Some (Inr t)"
  shows "rescan C su old (p, F) = Some (Inr t, (p, F))"
  using assms by (simp add: rescan_def scan_def c_bind_def c_ret_def)

text \<open>What a tick needs from the server: the two trees, and the messages of the request.\<close>

definition tick_answered :: "('x, 'd) config \<Rightarrow> session \<Rightarrow> ('x, 'd) world \<Rightarrow> string \<Rightarrow> file_tree \<Rightarrow> file_tree \<Rightarrow> bool" where
  "tick_answered cf s w h old t \<longleftrightarrow>
     get_tree (cf_tree_json cf) (se_fs s) h (disk (wd_storage w)) = Some old \<and>
     latest_tree (cf_tree_json cf) (se_fs s) (disk (wd_storage w)) = Some t \<and>
     understood (cf_serde cf) (FileDiff, MFileDiff \<lparr>fd_old_tree = h, fd_new_tree = None\<rparr>) \<and>
     understood (cf_serde cf) (FileDiffResult, MFileDiffResult (diff_answer (Some old) (Some t))) \<and>
     loggable cf (ft_tree_hash old) \<and> loggable cf (ft_tree_hash t)"

lemma tick_request:
  assumes "se_phase s = Ready" and "se_open s" and "tick_answered cf s w h old t"
  shows "\<exists>out. request_diff (server_link cf clk mid) (cf_serde cf) h (s, w, length (se_out s)) =
    Some (Inr (diff_answer (Some old) (Some t)), (s\<lparr>se_out := out\<rparr>, w, length out))"
  using assms(3) unfolding tick_answered_def by (intro request_diff_server assms(1,2)) auto

lemma removed_files:
  assumes "in_sync C cs F (ft_entries old)" and "distinct_paths (ft_entries old)" and "distinct_paths (ft_entries t)"
    and "diff (Some old) (Some t) = (changed, removed)" and "pulled cs os P F F1"
  shows "\<forall>p \<in> set removed. simple_name p \<and> node_at F1 (cs @ [p]) \<noteq> Some Dir"
proof
  fix p
  assume "p \<in> set removed"
  then obtain e where "e \<in> set (ft_entries old)" "p = fte_path e" using diff_sets(2) [OF assms(2-4)] by auto
  with assms(1) have "simple_name p" "\<exists>b. node_at F (cs @ [p]) = Some (File b)" unfolding in_sync_def synced_name_def by blast+
  then show "simple_name p \<and> node_at F1 (cs @ [p]) \<noteq> Some Dir" using assms(5) by (auto simp: pulled_def)
qed

text \<open>The part of a tick that changes the disk: the changed files are pulled, then the removed ones removed.\<close>

lemma tick_applies:
  assumes serve: "can_serve cf (su_env su) fqn s" "\<forall>e \<in> set (ft_entries t). served cf (se_fs s) w obj e"
    and disk: "client_disk_ok (su_env su) cs os F" "in_sync (cf_crates cf) cs F (ft_entries old)"
    and tree: "describes (cf_crates cf) obj F (ft_entries t)" "\<forall>e \<in> set (ft_entries t). node_at F (cs @ [fte_path e]) \<noteq> Some Dir"
    and dist: "distinct_paths (ft_entries old)" "distinct_paths (ft_entries t)" and d: "diff (Some old) (Some t) = (changed, removed)"
  shows "\<exists>out F1 F2. pull_paths (server_link cf clk mid) (cf_serde cf) (cf_crates cf) su ctx fqn t changed ((s, w, length (se_out s)), F) =
      Some (Inr (), ((s\<lparr>se_out := out\<rparr>, w, length out), F1)) \<and> F2 = remove_paths (share_dir (su_env su)) removed F1 \<and>
    fs_ok F2 \<and> share_at (su_env su) cs F2 \<and> has_objects cs obj F2 (ft_entries t) \<and> in_sync (cf_crates cf) cs F2 (ft_entries t) \<and>
    (\<forall>x. node_at F2 x = Some Dir \<longleftrightarrow> node_at F x = Some Dir)"
proof -
  have sub: "set changed \<subseteq> fte_path ` set (ft_entries t)" using diff_sets(1) [OF dist d] by auto
  have "\<forall>e \<in> set (ft_entries t). served cf (se_fs s) w obj e \<and> synced_name (fte_path e) \<and> node_at F (cs @ [fte_path e]) \<noteq> Some Dir"
    using serve(2) tree by (simp add: describes_def)
  from pull_paths_server [where clk = clk and mid = mid and ctx = ctx, OF serve(1) dist(2) this disk(1) sub]
  obtain out F1 where pp: "pull_paths (server_link cf clk mid) (cf_serde cf) (cf_crates cf) su ctx fqn t changed ((s, w, length (se_out s)), F) =
      Some (Inr (), ((s\<lparr>se_out := out\<rparr>, w, length out), F1))" and F1: "pulled cs os (set changed) F F1"
    "\<forall>e \<in> set (ft_entries t). fte_path e \<in> set changed \<longrightarrow> node_at F1 (cs @ [fte_path e]) = Some (File (obj (fte_blob_id e)))"
    by blast
  define F2 where "F2 = remove_paths (share_dir (su_env su)) removed F1"
  have k1: "share_at (su_env su) cs F1" "fs_ok F1" using pulled_disk_ok [OF disk(1) F1(1)] by (simp_all add: client_disk_ok_def)
  note gone = removed_files [OF disk(2) dist d F1(1)]
  note F2 = remove_paths_share [OF k1(1) gone k1(2), folded F2_def]
  have "has_objects cs obj F2 (ft_entries t) \<and> in_sync (cf_crates cf) cs F2 (ft_entries t)"
    by (rule patch_in_sync [OF _ disk(2) tree(1) dist d F1]) (use disk(1) F2 in \<open>auto simp: client_disk_ok_def\<close>)
  moreover have "node_at F2 x = Some Dir \<longleftrightarrow> node_at F x = Some Dir" for x using F2 F1(1) gone by (auto simp: pulled_def)
  ultimately show ?thesis using pp F2 F2_def by blast
qed

lemma tick_converges:
  assumes serve: "can_serve cf (su_env su) fqn s" "\<forall>e \<in> set (ft_entries t). served cf (se_fs s) w obj e"
    and disk: "client_disk_ok (su_env su) cs os F" "in_sync (cf_crates cf) cs F (ft_entries old)"
    and tree: "describes (cf_crates cf) obj F (ft_entries t)" "\<forall>e \<in> set (ft_entries t). node_at F (cs @ [fte_path e]) \<noteq> Some Dir"
    and dist: "distinct_paths (ft_entries old)" "distinct_paths (ft_entries t)"
    and ans: "tick_answered cf s w (ft_tree_hash loc) old t" "ft_tree_hash loc = tree_hash (cf_crates cf) old"
    and due: "now - lp > 5000"
  shows "\<exists>out t' F'. on_tick (server_link cf clk mid) (cf_serde cf) (cf_crates cf) su ctx fqn now now' (loc, lp) ((s, w, length (se_out s)), F) =
      Some (Inr (t', now'), ((s\<lparr>se_out := out\<rparr>, w, length out), F')) \<and> ft_tree_hash t' = tree_hash (cf_crates cf) t \<and>
    share_at (su_env su) cs F' \<and> has_objects cs obj F' (ft_entries t) \<and> in_sync (cf_crates cf) cs F' (ft_entries t) \<and>
    (\<forall>x. node_at F' x = Some Dir \<longleftrightarrow> node_at F x = Some Dir)"
proof -
  let ?T = "server_link cf clk mid" and ?S = "cf_serde cf" and ?C = "cf_crates cf"
  obtain changed removed where d: "diff (Some old) (Some t) = (changed, removed)" by fastforce
  have ready: "se_phase s = Ready" "se_open s" using serve(1) by (simp_all add: can_serve_def)
  from tick_request [where clk = clk and mid = mid, OF ready ans(1)] obtain o1 where
    rq: "request_diff ?T ?S (ft_tree_hash loc) (s, w, length (se_out s)) =
      Some (Inr \<lparr>fdr_changed = changed, fdr_removed = removed, fdr_tree = Some t\<rparr>, (s\<lparr>se_out := o1\<rparr>, w, length o1))"
    by (auto simp: diff_answer_def d)
  have serve1: "can_serve cf (su_env su) fqn (s\<lparr>se_out := o1\<rparr>)" "\<forall>e \<in> set (ft_entries t). served cf (se_fs (s\<lparr>se_out := o1\<rparr>)) w obj e"
    using serve by simp_all
  from tick_applies [where clk = clk and mid = mid and ctx = ctx, OF serve1 disk tree dist d] obtain o2 F1 F2 where
    pp: "pull_paths ?T ?S ?C su ctx fqn t changed ((s\<lparr>se_out := o1\<rparr>, w, length o1), F) = Some (Inr (), ((s\<lparr>se_out := o2\<rparr>, w, length o2), F1))" and
    F2: "remove_paths (share_dir (su_env su)) removed F1 = F2" "fs_ok F2" "share_at (su_env su) cs F2" "has_objects cs obj F2 (ft_entries t)"
      "in_sync ?C cs F2 (ft_entries t)" "\<forall>x. node_at F2 x = Some Dir \<longleftrightarrow> node_at F x = Some Dir"
    by (simp del: split_paired_Ex) blast
  show ?thesis
  proof (cases "changed = [] \<and> removed = []")
    case True
    then have "F2 = F" using pp F2(1) by (simp add: c_ret_def)
    then have "tree_hash ?C old = tree_hash ?C t" using in_sync_hash [OF disk(2) _ dist] F2(5) by simp
    moreover have "on_tick ?T ?S ?C su ctx fqn now now' (loc, lp) ((s, w, length (se_out s)), F) =
        Some (Inr (loc, now'), ((s\<lparr>se_out := o1\<rparr>, w, length o1), F))"
      using True due by (simp add: on_tick_def on_net_def c_bind_def rq c_ret_def)
    ultimately show ?thesis using ans(2) F2 \<open>F2 = F\<close> by (intro exI [of _ o1] exI [of _ loc] exI [of _ F]) simp
  next
    case False
    obtain t' where t': "build_tree ?C (su_mtime su) F2 (share_dir (su_env su)) = Some (Inr t')" "ft_tree_hash t' = tree_hash ?C t"
      using rescan_in_sync [OF F2(2,3,5) dist(2)] by blast
    have "on_tick ?T ?S ?C su ctx fqn now now' (loc, lp) ((s, w, length (se_out s)), F) =
        Some (Inr (t', now'), ((s\<lparr>se_out := o2\<rparr>, w, length o2), F2))"
      using False due by (simp add: on_tick_def on_net_def on_disk_def c_bind_def rq pp c_ret_def F2(1) rescan_ok [OF t'(1)]) blast
    then show ?thesis using t'(2) F2 by blast
  qed
qed

section \<open>Properties\<close>

text \<open>The server after a push: the tree is the latest one, and earlier trees are still there.\<close>

lemma pushed_answered:
  assumes "hex_law (cf_crates cf)" and "tree_json_law (cf_tree_json cf) t" and "ft_tree_hash t = client_tree_hash (cf_crates cf) t"
    and "save_tree (cf_tree_json cf) (se_fs s) t (disk (wd_storage w)) = (Inr (), D)"
    and "get_tree (cf_tree_json cf) (se_fs s) h (disk (wd_storage w)) = Some old"
    and "h = tree_hash (cf_crates cf) old" and "h \<noteq> ft_tree_hash t"
    and "understood (cf_serde cf) (FileDiff, MFileDiff \<lparr>fd_old_tree = h, fd_new_tree = None\<rparr>)"
    and "understood (cf_serde cf) (FileDiffResult, MFileDiffResult (diff_answer (Some old) (Some t)))"
    and "loggable cf (ft_tree_hash old)" and "loggable cf (ft_tree_hash t)"
  shows "tick_answered cf s (upd_disk D w) h old t"
  using saved_tree [OF assms(2,4)] tree_hash_name [OF assms(1)] assms by (simp add: tick_answered_def upd_disk_def client_tree_hash_eq)

text \<open>
  C2: what one client shares reaches the disk of the other, when the shared files lie at the top of
  the shared directory.  When client A has pushed its tree and the server has its objects, the next
  tick of client B, whose shared directory agreed with the tree it had before, comes to an end and
  makes the directory agree with the tree of A: every file of A is there with its contents, every
  file that A does not have is gone, and the tree of B has the hash of the tree of A.  \<open>in_sync\<close> and
  \<open>describes\<close> say that every file that takes part, before and after, stands in the shared directory
  itself, not in a subdirectory, and no name of the tree is a directory of B.  Below a
  subdirectory the statement would be false: a changed file leaves a conflict copy there that the
  next scan takes for a shared file (\<open>Conflicts.nested_copy_is_shared\<close>).
\<close>

theorem shared_tree_converges:
  fixes w :: "('x, 'd) world" and clk clk' :: clock and mid mid' :: string and su :: "'q surroundings"
  assumes "hex_law (cf_crates cf)"
    and push: "se_phase sA = Ready" "ft_tree_hash t = client_tree_hash (cf_crates cf) t" "distinct_paths (ft_entries t)"
      "understood (cf_serde cf) (FileTree, MFileTree t)" "tree_json_law (cf_tree_json cf) t"
      "save_tree (cf_tree_json cf) (se_fs sA) t (disk (wd_storage w)) = (Inr (), D)"
    and tick: "can_serve cf (su_env su) fqn sB" "se_fs sB = se_fs sA"
      "\<forall>e \<in> set (ft_entries t). served cf (se_fs sA) (upd_disk D w) obj e" "5000 < now - lp"
    and disk: "client_disk_ok (su_env su) cs os F" "in_sync (cf_crates cf) cs F (ft_entries old)" "distinct_paths (ft_entries old)"
      "describes (cf_crates cf) obj F (ft_entries t)" "\<forall>e \<in> set (ft_entries t). node_at F (cs @ [fte_path e]) \<noteq> Some Dir"
    and old: "ft_tree_hash loc = tree_hash (cf_crates cf) old"
      "get_tree (cf_tree_json cf) (se_fs sB) (ft_tree_hash loc) (disk (wd_storage w)) = Some old"
      "ft_tree_hash loc \<noteq> ft_tree_hash t"
    and msgs: "understood (cf_serde cf) (FileDiff, MFileDiff \<lparr>fd_old_tree = ft_tree_hash loc, fd_new_tree = None\<rparr>)"
      "understood (cf_serde cf) (FileDiffResult, MFileDiffResult (diff_answer (Some old) (Some t)))"
      "loggable cf (ft_tree_hash old)" "loggable cf (ft_tree_hash t)"
  shows "\<exists>w' s' t' F'. push_tree (server_link cf clk mid) (cf_serde cf) t (sA, w, k) = Some (Inr (), (sA, w', k)) \<and>
    on_tick (server_link cf clk' mid') (cf_serde cf) (cf_crates cf) su ctx fqn now now' (loc, lp) ((sB, w', length (se_out sB)), F) =
      Some (Inr (t', now'), ((s', w', length (se_out s')), F')) \<and>
    ft_tree_hash t' = ft_tree_hash t \<and> in_sync (cf_crates cf) cs F' (ft_entries t) \<and>
    (\<forall>e \<in> set (ft_entries t). fs_read F' (join (share_dir (su_env su)) (fte_path e)) = Inr (obj (fte_blob_id e)))"
proof -
  have p: "push_tree (server_link cf clk mid) (cf_serde cf) t (sA, w, k) = Some (Inr (), (sA, upd_disk D w, k))"
    by (rule push_tree_server [OF push(1,4,2) msgs(4) push(6)])
  have "tick_answered cf sB (upd_disk D w) (ft_tree_hash loc) old t"
    using pushed_answered [OF assms(1) push(5,2) _ old(2,1,3) msgs] push(6) tick(2) by simp
  from tick_converges [where clk = clk' and mid = mid' and ctx = ctx and now = now and now' = now' and lp = lp,
      OF tick(1) _ disk(1,2,4,5,3) push(3) this old(1) tick(4)] tick(2,3)
  obtain out t' F' where t: "on_tick (server_link cf clk' mid') (cf_serde cf) (cf_crates cf) su ctx fqn now now' (loc, lp)
      ((sB, upd_disk D w, length (se_out sB)), F) = Some (Inr (t', now'), ((sB\<lparr>se_out := out\<rparr>, upd_disk D w, length out), F'))"
    "ft_tree_hash t' = tree_hash (cf_crates cf) t" "share_at (su_env su) cs F'" "has_objects cs obj F' (ft_entries t)"
    "in_sync (cf_crates cf) cs F' (ft_entries t)" by auto
  have "fs_read F' (join (share_dir (su_env su)) (fte_path e)) = Inr (obj (fte_blob_id e))" if "e \<in> set (ft_entries t)" for e
    using read_in_dir [of F' "share_dir (su_env su)" cs "fte_path e"] t(3-5) that
    by (simp add: share_at_def has_objects_def in_sync_def synced_name_def)
  with p t push(2) show ?thesis
    by (intro exI [of _ "upd_disk D w"] exI [of _ "sB\<lparr>se_out := out\<rparr>"] exI [of _ t'] exI [of _ F']) (simp add: client_tree_hash_eq)
qed

text \<open>
  C18: a client that pushes a tree without having seen the latest one deletes the files of the
  others, for shared files at the top of the shared directory.  Client A has pushed a tree with a
  file; client B pushes a tree without this file, for example because its last pull was before the
  push of A.  The server takes the tree of B as the latest one unconditionally, and the next tick of
  A deletes the file from the directory of A.
\<close>

theorem stale_push_deletes:
  fixes w :: "('x, 'd) world" and clk clk' clk'' :: clock and mid mid' mid'' :: string and su :: "'q surroundings"
  assumes "hex_law (cf_crates cf)"
    and pushA: "can_serve cf (su_env su) fqn sA" "ft_tree_hash tA = client_tree_hash (cf_crates cf) tA" "distinct_paths (ft_entries tA)"
      "understood (cf_serde cf) (FileTree, MFileTree tA)" "tree_json_law (cf_tree_json cf) tA"
      "save_tree (cf_tree_json cf) (se_fs sA) tA (disk (wd_storage w)) = (Inr (), D)"
    and pushB: "se_phase sB = Ready" "se_fs sB = se_fs sA" "ft_tree_hash tB = client_tree_hash (cf_crates cf) tB" "distinct_paths (ft_entries tB)"
      "understood (cf_serde cf) (FileTree, MFileTree tB)" "tree_json_law (cf_tree_json cf) tB" "ft_tree_hash tA \<noteq> ft_tree_hash tB"
      "save_tree (cf_tree_json cf) (se_fs sB) tB D = (Inr (), D')"
    and tick: "\<forall>e \<in> set (ft_entries tB). served cf (se_fs sA) (upd_disk D' w) obj e" "5000 < now - lp"
      "understood (cf_serde cf) (FileDiff, MFileDiff \<lparr>fd_old_tree = ft_tree_hash tA, fd_new_tree = None\<rparr>)"
      "understood (cf_serde cf) (FileDiffResult, MFileDiffResult (diff_answer (Some tA) (Some tB)))"
      "loggable cf (ft_tree_hash tA)" "loggable cf (ft_tree_hash tB)"
    and disk: "client_disk_ok (su_env su) cs os F" "in_sync (cf_crates cf) cs F (ft_entries tA)"
      "describes (cf_crates cf) obj F (ft_entries tB)" "\<forall>e \<in> set (ft_entries tB). node_at F (cs @ [fte_path e]) \<noteq> Some Dir"
    and lost: "e \<in> set (ft_entries tA)" "fte_path e \<notin> fte_path ` set (ft_entries tB)"
  shows "\<exists>w1 w2 s' t' F'. push_tree (server_link cf clk mid) (cf_serde cf) tA (sA, w, k) = Some (Inr (), (sA, w1, k)) \<and>
    push_tree (server_link cf clk' mid') (cf_serde cf) tB (sB, w1, k') = Some (Inr (), (sB, w2, k')) \<and>
    on_tick (server_link cf clk'' mid'') (cf_serde cf) (cf_crates cf) su ctx fqn now now' (tA, lp) ((sA, w2, length (se_out sA)), F) =
      Some (Inr (t', now'), ((s', w2, length (se_out s')), F')) \<and>
    fs_exists F (join (share_dir (su_env su)) (fte_path e)) \<and> \<not> fs_exists F' (join (share_dir (su_env su)) (fte_path e))"
proof -
  let ?C = "cf_crates cf" and ?J = "cf_tree_json cf" and ?w = "upd_disk D' w"
  have w: "upd_disk D' (upd_disk D w) = ?w" "disk (wd_storage (upd_disk D w)) = D" by (simp_all add: upd_disk_def)
  have ready: "se_phase sA = Ready" using pushA(1) by (simp add: can_serve_def)
  note p = push_tree_server [where clk = clk and mid = mid and k = k, OF ready pushA(4,2) tick(5) pushA(6)]
    push_tree_server [where clk = clk' and mid = mid' and k = k' and w = "upd_disk D w", OF pushB(1,5,3) tick(6), unfolded w, OF pushB(8)]
  have "get_tree ?J (se_fs sA) (ft_tree_hash tA) (disk (wd_storage (upd_disk D w))) = Some tA"
    using saved_tree [OF pushA(5,6)] tree_hash_name(1) [OF assms(1)] pushA(2) by (simp add: w client_tree_hash_eq)
  from pushed_answered [OF assms(1) pushB(6,3) _ this _ pushB(7) tick(3-6), of D'] pushB(2,8) pushA(2)
  have ans: "tick_answered cf sA ?w (ft_tree_hash tA) tA tB" by (simp add: w client_tree_hash_eq)
  from tick_converges [where clk = clk'' and mid = mid'' and ctx = ctx and now = now and now' = now' and lp = lp,
      OF pushA(1) tick(1) disk pushA(3) pushB(4) ans _ tick(2)] pushA(2)
  obtain out t' F' where t: "on_tick (server_link cf clk'' mid'') (cf_serde cf) ?C su ctx fqn now now' (tA, lp) ((sA, ?w, length (se_out sA)), F) =
      Some (Inr (t', now'), ((sA\<lparr>se_out := out\<rparr>, ?w, length out), F'))" "share_at (su_env su) cs F'"
    "in_sync ?C cs F' (ft_entries tB)" "\<forall>x. node_at F' x = Some Dir \<longleftrightarrow> node_at F x = Some Dir"
    by (auto simp: client_tree_hash_eq)
  obtain b where b: "synced_name (fte_path e)" "node_at F (cs @ [fte_path e]) = Some (File b)" using disk(2) lost(1) unfolding in_sync_def by blast
  have sn: "simple_name (fte_path e)" using b(1) by (simp add: synced_name_def)
  have gone: "node_at F' (cs @ [fte_path e]) = None"
    using b(2) t(4) lost(2) by (intro in_sync_absent [OF t(3) b(1)]) auto
  have ex: "fs_exists F (join (share_dir (su_env su)) (fte_path e))" "\<not> fs_exists F' (join (share_dir (su_env su)) (fte_path e))"
    using disk(1) t(2) sn b(2) gone exists_in_dir [of _ "share_dir (su_env su)" cs "fte_path e"]
    by (auto simp: client_disk_ok_def share_at_def)
  show ?thesis
    by (intro exI [of _ "upd_disk D w"] exI [of _ ?w] exI [of _ "sA\<lparr>se_out := out\<rparr>"] exI [of _ t'] exI [of _ F'])
      (use p t(1) ex w(1) in simp)
qed

section \<open>An installation with two clients\<close>

text \<open>The empty tree, a tree with one file, and a server that knows the empty tree and has the object of the file.\<close>

definition pair_entry :: file_tree_entry where
  "pair_entry = entry_of sample_crates 0 ''f'' [7]"

definition pair_tree :: "file_tree_entry list \<Rightarrow> file_tree" where
  "pair_tree es = \<lparr>ft_tree_hash = tree_hash sample_crates \<lparr>ft_tree_hash = [], ft_entries = es\<rparr>, ft_entries = es\<rparr>"

definition pair_json :: tree_json where
  "pair_json = \<lparr>tree_to_vec_pretty = (\<lambda>u. Some (as_bytes (if ft_entries u = [] then ''0'' else ''1''))),
     tree_from_str = (\<lambda>s. Some (pair_tree (if s = ''0'' then [] else [pair_entry])))\<rparr>"

definition pair_serde :: "file_tree_entry list \<Rightarrow> file_tree_entry list \<Rightarrow> serde" where
  "pair_serde old new = no_serde\<lparr>
     to_vec := (\<lambda>m. case m of MFileTree u \<Rightarrow> Some [if ft_entries u = [] then 0 else 1]
        | MFileGet g \<Rightarrow> Some (u64_to_le_bytes (case fg_chunk_index g of Some i \<Rightarrow> i | None \<Rightarrow> 0)) | _ \<Rightarrow> Some []),
     de_file_tree := (\<lambda>b. Some (pair_tree (if b = [0] then [] else [pair_entry]))),
     de_file_diff := (\<lambda>_. Some \<lparr>fd_old_tree = ft_tree_hash (pair_tree old), fd_new_tree = None\<rparr>),
     de_file_diff_result := (\<lambda>_. Some (diff_answer (Some (pair_tree old)) (Some (pair_tree new)))),
     de_file_get := (\<lambda>b. Some \<lparr>fg_blob_id = object_id sample_crates [7], fg_chunk_index = Some (from_le b)\<rparr>)\<rparr>"

definition pair_config :: "file_tree_entry list \<Rightarrow> file_tree_entry list \<Rightarrow> (unit, unit) config" where
  "pair_config old new = sample_config\<lparr>cf_serde := pair_serde old new, cf_tree_json := pair_json\<rparr>"

definition pair_world :: "(unit, unit) world" where
  "pair_world = upd_disk \<lparr>cwd = [], nodes = [([''n''], Dir), ([''n'', ''trees''], Dir), ([''n'', ''objects''], Dir),
     ([''n'', ''objects'', object_id sample_crates [7]], File [7]),
     ([''n'', ''trees'', ft_tree_hash (pair_tree []) @ ''.json''], File (as_bytes ''0''))]\<rparr> sample_world"

definition pair_su :: "script surroundings" where
  "pair_su = \<lparr>su_env = [''NSMT_SHARE_DIR'' \<mapsto> ''/s'', ''NSMT_OBJECTS_DIR'' \<mapsto> ''/o''], su_peers = script_link, su_dial = (\<lambda>_. Inl CEof),
     su_now = 0, su_link = (\<lambda>_ _ F. Inr F), su_mtime = (\<lambda>_. 0), su_conflict_ts = (\<lambda>_. 0)\<rparr>"

definition pair_disk :: "(string list \<times> node) list \<Rightarrow> fs" where
  "pair_disk files = \<lparr>cwd = [], nodes = [([''s''], Dir), ([''o''], Dir)] @ files\<rparr>"

lemma pair_cf [simp]:
  "cf_crates (pair_config old new) = sample_crates" "cf_serde (pair_config old new) = pair_serde old new"
  "cf_tree_json (pair_config old new) = pair_json" "loggable (pair_config old new) h"
  by (simp_all add: pair_config_def sample_config_def loggable_def)

lemma pair_entry_simps [simp]: "fte_path pair_entry = ''f''" "fte_blob_id pair_entry = object_id sample_crates [7]"
  by (simp_all add: pair_entry_def entry_of_def)

lemma pair_tree_simps [simp]: "ft_entries (pair_tree es) = es" "ft_tree_hash (pair_tree es) = tree_hash sample_crates (pair_tree es)"
  by (simp_all add: pair_tree_def tree_hash_def)

lemma pair_hashes: "tree_hash sample_crates (pair_tree []) \<noteq> tree_hash sample_crates (pair_tree [pair_entry])"
proof -
  have inj: "hex_encode sample_crates a = hex_encode sample_crates b \<Longrightarrow> a = b" for a b
    using sample_crates_laws(1) unfolding hex_law_def by (metis option.inject)
  have "hd (pad32 []) = 0" by (simp add: pad32_def)
  moreover have "hd (pad32 (entry_bytes pair_entry)) = 102" by (simp add: pad32_def entry_bytes_def as_bytes_def take_Cons')
  ultimately have "pad32 [] \<noteq> pad32 (entry_bytes pair_entry)" by auto
  with inj show ?thesis by (auto simp: tree_hash_def sample_crates_def)
qed

lemma pair_json_law: "es \<in> {[], [pair_entry]} \<Longrightarrow> tree_json_law pair_json (pair_tree es)"
  by (auto simp: tree_json_law_def pair_json_def from_utf8_ascii)

lemma pair_sendable: "sendable (pair_serde old new) t m"
proof -
  obtain b where b: "to_vec (pair_serde old new) m = Some b" "length b \<le> 8"
    by (cases m) (simp_all add: pair_serde_def)
  then have "from_json (pair_serde old new) t 0 m = Inr (frame_new t 0 b)" by (simp add: frame_new_def)
  with b(2) show ?thesis by (simp add: sendable_def encode_def frame_new_def del: from_json_payload)
qed

lemma pair_understood:
  "es \<in> {[], [pair_entry]} \<Longrightarrow> understood (pair_serde old new) (FileTree, MFileTree (pair_tree es))"
  "understood (pair_serde old new) (FileDiff, MFileDiff \<lparr>fd_old_tree = tree_hash sample_crates (pair_tree old), fd_new_tree = None\<rparr>)"
  "understood (pair_serde old new) (FileDiffResult, MFileDiffResult (diff_answer (Some (pair_tree old)) (Some (pair_tree new))))"
  "\<forall>i. get_understood (pair_serde old new) (object_id sample_crates [7]) i"
proof -
  have "from_le (to_le 8 (i :: u64)) = i" for i by (rule from_le_to_le) simp
  then show "\<forall>i. get_understood (pair_serde old new) (object_id sample_crates [7]) i"
    by (simp add: get_understood_def pair_sendable Let_def) (simp add: serde_roundtrip_def pair_serde_def)
qed (auto simp: understood_def pair_sendable; auto simp: serde_roundtrip_def pair_serde_def)+

lemma save_tree_in_dir:
  assumes "resolve F (trees_dir sf) = Inr ds" and "node_at F ds = Some Dir" and "simple_name (ft_tree_hash t @ ''.json'')"
    and "tree_to_vec_pretty J t = Some b" and "node_at F (ds @ [ft_tree_hash t @ ''.json'']) \<noteq> Some Dir"
    and "node_at F (ds @ [''latest.json'']) \<noteq> Some Dir"
  shows "save_tree J sf t F = (Inr (), set_node (ds @ [''latest.json'']) (File b) (set_node (ds @ [ft_tree_hash t @ ''.json'']) (File b) F))"
proof -
  let ?G = "set_node (ds @ [ft_tree_hash t @ ''.json'']) (File b) F"
  have k: "dirs_kept F ?G" using assms(5) by (rule dirs_kept_set_File)
  have "fs_write (join (trees_dir sf) ''latest.json'') b ?G = Inr (set_node (ds @ [''latest.json'']) (File b) ?G)"
    using resolve_kept [OF assms(1) k] k assms(2,6) by (intro write_in_dir) (auto simp: dirs_kept_def simple_name_def)
  with write_in_dir [OF assms(1-3,5), of b] create_dir_all_idem [OF assms(1,2)] assms(4) show ?thesis
    by (simp add: save_tree_def tree_file_def latest_path_def)
qed

lemma pair_serves: "can_serve (pair_config old new) (su_env pair_su) ''d/m/t'' sample_session" "domain_of ''d/m/t'' = ''d''"
proof -
  have "same_keys (pair_config old new) (su_env pair_su) ''d''"
    by (simp add: same_keys_def pair_config_def sample_config_def e2e_from_env_def masters_from_env_def pair_su_def)
  then show "can_serve (pair_config old new) (su_env pair_su) ''d/m/t'' sample_session" "domain_of ''d/m/t'' = ''d''"
    by (simp_all add: can_serve_def sample_session_simps sample_domain sample_seal_law sample_crates_laws(3))
qed

lemma pair_fs: "se_fs sample_session = sample_fs" "se_phase sample_session = Ready"
  by (simp_all add: sample_session_def)

text \<open>The disk of the server, and what a push of a tree makes of it.\<close>

definition pair_server :: "fs \<Rightarrow> bool" where
  "pair_server F \<longleftrightarrow> resolve F ''/n/trees'' = Inr [''n'', ''trees''] \<and> node_at F [''n'', ''trees''] = Some Dir \<and>
     resolve F ''/n/objects'' = Inr [''n'', ''objects''] \<and> node_at F [''n'', ''objects''] = Some Dir \<and>
     (\<forall>n. node_at F [''n'', ''trees'', n] \<noteq> Some Dir) \<and>
     node_at F [''n'', ''objects'', object_id sample_crates [7]] = Some (File [7])"

lemma pair_world_server: "pair_server (disk (wd_storage pair_world))"
  by (simp add: pair_server_def pair_world_def upd_disk_def resolve_def start_of_def node_at_def hm_get_def)

lemma trees_dir_sample: "trees_dir sample_fs = ''/n/trees''"
  by (simp add: trees_dir_def sample_fs_def join_def suffix_to_prefix)

lemma pair_server_save:
  assumes "pair_server F"
  shows "\<exists>D. save_tree pair_json sample_fs (pair_tree es) F = (Inr (), D) \<and> pair_server D"
proof -
  note f = assms [unfolded pair_server_def]
  let ?n = "tree_hash sample_crates (pair_tree es) @ ''.json''" and ?b = "as_bytes (if es = [] then ''0'' else ''1'')"
  let ?G = "set_node [''n'', ''trees'', ?n] (File ?b) F"
  let ?D = "set_node [''n'', ''trees'', ''latest.json''] (File ?b) ?G"
  have "save_tree pair_json sample_fs (pair_tree es) F = (Inr (), ?D)"
    using save_tree_in_dir [of F sample_fs "[''n'', ''trees'']" "pair_tree es" pair_json ?b] f
      tree_hash_name(1) [OF sample_crates_laws(1)] by (simp add: trees_dir_sample pair_json_def)
  moreover have "dirs_kept F ?D"
    using f dirs_kept_trans [OF dirs_kept_set_File [of F "[''n'', ''trees'', ?n]"] dirs_kept_set_File [of ?G "[''n'', ''trees'', ''latest.json'']"]]
    by simp
  then have "pair_server ?D" using f resolve_kept [of F _ _ ?D] unfolding pair_server_def by (simp add: dirs_kept_def)
  ultimately show ?thesis by blast
qed

lemma pair_served:
  assumes "pair_server D"
  shows "served (pair_config old new) sample_fs (upd_disk D w) (\<lambda>_. [7]) pair_entry"
proof -
  have n: "simple_name (object_id sample_crates [7])"
  proof -
    have "length (object_id sample_crates [7]) = 64"
      by (simp add: object_id_def sample_crates_def sample_hex_def length_concat comp_def length_pad32 sum_list_triv)
    then have "object_id sample_crates [7] \<noteq> []" by auto
    then show ?thesis unfolding object_id_def by (rule hex_name(3) [OF sample_crates_laws(1)])
  qed
  have "local_get ''/n/objects'' (object_id sample_crates [7]) D = Some [7]"
    using assms read_in_dir [of D "''/n/objects''" "[''n'', ''objects'']" "object_id sample_crates [7]"] n
    by (simp add: local_get_def pair_server_def)
  then show ?thesis
    using n pair_understood(4) by (simp add: served_def get_object_def sample_fs_def upd_disk_def CHUNK_SIZE_def)
qed

lemma pair_disk_ok:
  assumes "files \<in> {[], [([''s'', ''f''], File [7])]}"
  shows "client_disk_ok (su_env pair_su) [''s''] [''o''] (pair_disk files)"
proof -
  have "fs_ok (pair_disk files)"
    using assms by (auto simp: fs_ok_def pair_disk_def hm_ok_def hm_keys_def simple_name_def node_at_def hm_get_def)
  moreover have "share_at (su_env pair_su) [''s''] (pair_disk files)" "resolve (pair_disk files) (objects_dir (su_env pair_su)) = Inr [''o'']"
    by (simp_all add: share_at_def share_dir_def objects_dir_def pair_su_def suffix_to_prefix resolve_def start_of_def pair_disk_def
        node_at_def hm_get_def)
  moreover have "node_at (pair_disk files) [''o''] = Some Dir" "\<forall>n. node_at (pair_disk files) [''s'', n] \<noteq> Some Dir"
    using assms by (auto simp: pair_disk_def node_at_def hm_get_def split: if_split_asm)
  ultimately show ?thesis by (simp add: client_disk_ok_def pair_su_def)
qed

lemma pair_in_sync:
  "in_sync sample_crates [''s''] (pair_disk []) []"
  "in_sync sample_crates [''s''] (pair_disk [([''s'', ''f''], File [7])]) [pair_entry]"
proof -
  show "in_sync sample_crates [''s''] (pair_disk []) []"
    by (simp add: in_sync_def pair_disk_def node_at_def hm_get_def)
  have e: "pair_entry = entry_of sample_crates (fte_mtime_ns pair_entry) ''f'' [7]" by (simp add: pair_entry_def entry_of_def)
  have "synced_name ''f''" by (simp add: synced_name_def simple_name_def not_synced_def)
  with e show "in_sync sample_crates [''s''] (pair_disk [([''s'', ''f''], File [7])]) [pair_entry]"
    by (simp add: in_sync_def pair_disk_def node_at_def hm_get_def)
qed

theorem shared_tree_converges_witness:
  "\<exists>w' s' t' F'. push_tree (server_link (pair_config [] [pair_entry]) (\<lambda>_. 0) ''id'') (pair_serde [] [pair_entry]) (pair_tree [pair_entry])
      (sample_session, pair_world, 0) = Some (Inr (), (sample_session, w', 0)) \<and>
    on_tick (server_link (pair_config [] [pair_entry]) (\<lambda>_. 0) ''id'') (pair_serde [] [pair_entry]) sample_crates pair_su (sample_peer ''m'') ''d/m/t''
      6000 6000 (pair_tree [], 0) ((sample_session, w', 0), pair_disk []) = Some (Inr (t', 6000), ((s', w', length (se_out s')), F')) \<and>
    fs_read F' (join (share_dir (su_env pair_su)) ''f'') = Inr [7]"
proof -
  let ?cf = "pair_config [] [pair_entry]" and ?t = "pair_tree [pair_entry]" and ?old = "pair_tree []"
  obtain D where D: "save_tree pair_json sample_fs ?t (disk (wd_storage pair_world)) = (Inr (), D)" "pair_server D"
    using pair_server_save [OF pair_world_server] by blast
  have old: "get_tree pair_json sample_fs (tree_hash sample_crates ?old) (disk (wd_storage pair_world)) = Some ?old"
  proof -
    let ?W = "disk (wd_storage pair_world)" and ?n = "tree_hash sample_crates ?old @ ''.json''"
    have "resolve ?W (join ''/n/trees'' ?n) = Inr ([''n'', ''trees''] @ [?n])"
      using pair_world_server tree_hash_name(1) [OF sample_crates_laws(1)] by (intro resolve_join) (simp_all add: pair_server_def)
    moreover have "node_at ?W [''n'', ''trees'', ?n] = Some (File (as_bytes ''0''))"
      by (simp add: pair_world_def upd_disk_def node_at_def hm_get_def)
    ultimately show ?thesis
      using read_tree_written [OF pair_json_law [of "[]"]] by (simp add: get_tree_def tree_file_def trees_dir_sample pair_json_def)
  qed
  have des: "describes sample_crates (\<lambda>_. [7]) (pair_disk []) [pair_entry]"
    by (auto simp: describes_def synced_name_def simple_name_def not_synced_def pair_entry_def entry_of_def pair_disk_def node_at_def
        hm_get_def split: if_splits)
  have o: "se_out sample_session = []" "node_at (pair_disk []) [''s'', ''f''] \<noteq> Some Dir"
    by (simp_all add: sample_session_simps pair_disk_def node_at_def hm_get_def)
  from shared_tree_converges [where cf = ?cf and t = ?t and D = D and w = pair_world and sA = sample_session and sB = sample_session and
      obj = "\<lambda>_. [7]" and fqn = "''d/m/t''" and su = pair_su and now = 6000 and lp = 0 and cs = "[''s'']" and os = "[''o'']" and
      F = "pair_disk []" and old = ?old and loc = ?old and k = 0 and ctx = "sample_peer ''m''" and clk = "\<lambda>_. 0" and clk' = "\<lambda>_. 0" and
      mid = "''id''" and mid' = "''id''" and now' = 6000]
    sample_crates_laws(1) D pair_served [OF D(2)] pair_serves(1) pair_disk_ok pair_in_sync(1) des old pair_hashes pair_understood pair_json_law
  show ?thesis by (simp add: pair_fs o client_tree_hash_eq) blast
qed

theorem stale_push_deletes_witness:
  "\<exists>w1 w2 s' t' F'. push_tree (server_link (pair_config [pair_entry] []) (\<lambda>_. 0) ''id'') (pair_serde [pair_entry] []) (pair_tree [pair_entry])
      (sample_session, pair_world, 0) = Some (Inr (), (sample_session, w1, 0)) \<and>
    push_tree (server_link (pair_config [pair_entry] []) (\<lambda>_. 0) ''id'') (pair_serde [pair_entry] []) (pair_tree [])
      (sample_session, w1, 0) = Some (Inr (), (sample_session, w2, 0)) \<and>
    on_tick (server_link (pair_config [pair_entry] []) (\<lambda>_. 0) ''id'') (pair_serde [pair_entry] []) sample_crates pair_su (sample_peer ''m'') ''d/m/t''
      6000 6000 (pair_tree [pair_entry], 0) ((sample_session, w2, 0), pair_disk [([''s'', ''f''], File [7])]) =
        Some (Inr (t', 6000), ((s', w2, length (se_out s')), F')) \<and>
    \<not> fs_exists F' (join (share_dir (su_env pair_su)) ''f'')"
proof -
  let ?cf = "pair_config [pair_entry] []" and ?tA = "pair_tree [pair_entry]" and ?tB = "pair_tree []" and ?F = "pair_disk [([''s'', ''f''], File [7])]"
  obtain D where D: "save_tree pair_json sample_fs ?tA (disk (wd_storage pair_world)) = (Inr (), D)" "pair_server D"
    using pair_server_save [OF pair_world_server] by blast
  obtain D' where D': "save_tree pair_json sample_fs ?tB D = (Inr (), D')" using pair_server_save [OF D(2)] by blast
  have o: "se_out sample_session = []" by (simp add: sample_session_simps)
  have des: "describes sample_crates (\<lambda>_. [7]) ?F []" by (simp add: describes_def)
  from stale_push_deletes [where cf = ?cf and tA = ?tA and tB = ?tB and D = D and D' = D' and w = pair_world and sA = sample_session and
      sB = sample_session and obj = "\<lambda>_. [7]" and fqn = "''d/m/t''" and su = pair_su and now = 6000 and lp = 0 and cs = "[''s'']" and
      os = "[''o'']" and F = ?F and e = pair_entry and k = 0 and k' = 0 and ctx = "sample_peer ''m''" and clk = "\<lambda>_. 0" and clk' = "\<lambda>_. 0" and
      clk'' = "\<lambda>_. 0" and mid = "''id''" and mid' = "''id''" and mid'' = "''id''" and now' = 6000]
    sample_crates_laws(1) D D' pair_serves(1) pair_disk_ok pair_in_sync(2) des pair_hashes [symmetric] pair_understood pair_json_law
  show ?thesis by (simp add: pair_fs o client_tree_hash_eq) blast
qed

end
