(* ===== verification/Exposure.thy ===== *)
theory Exposure
  imports Sync
begin

text \<open>
  Paths that the other side chooses.  The ids of objects and the paths of tree entries come from
  the network and are joined to a directory as they are; \<open>Path::join\<close> with an absolute path gives
  that path.
\<close>

lemma join_absolute: "prefix ''/'' p \<Longrightarrow> join d p = p"
  by (simp add: join_def)

section \<open>Object ids on the server\<close>

lemma local_get_absolute:
  "prefix ''/'' p \<Longrightarrow> sf_objects sf = LocalObjectStore r \<Longrightarrow> fs_read (disk W) p = Inr data \<Longrightarrow> get_object X sf p W = Some data"
  by (simp add: get_object_def local_get_def join_absolute)

text \<open>
  C19: with the local store, which is the default, an admitted client reads any file of the server.
  A \<open>FILE_GET\<close> whose object id is an absolute path returns the contents of this file, be it an
  object of another tenant, the table of the tenants or the key of the server: the session of one
  tenant is not confined to the objects of the tenant.
\<close>

theorem get_object_reads_any_file:
  fixes w :: "('x, 'd) world" and clk :: clock and mid :: string
  assumes "se_phase s = Ready" "se_open s" "se_domain s = ud"
    and "sf_objects (se_fs s) = LocalObjectStore r" "prefix ''/'' p" "fs_read (disk (wd_storage w)) p = Inr data"
    and "length data < (2 ^ 32 - 1) * CHUNK_SIZE" "\<forall>i. get_understood (cf_serde cf) p i"
    and "seal_law (cf_crates cf)" "aead_law (cf_crates cf)" "same_keys cf env ud"
  shows "\<exists>s'. client_get_object (server_link cf clk mid) (cf_serde cf) (cf_crates cf) env p ud (s, w, length (se_out s)) =
    Some (Inr (Some data), (s', w, length (se_out s')))"
proof -
  have "get_object (cf_backend cf) (se_fs s) p (wd_storage w) = Some data" using assms(4-6) by (intro local_get_absolute)
  from get_loop_server [OF assms(1,2) this assms(8-10), of env 0 clk mid] assms(3,7,11) obtain out where
    "client_get_object (server_link cf clk mid) (cf_serde cf) (cf_crates cf) env p ud (s, w, length (se_out s)) =
       Some (Inr (Some data), (s\<lparr>se_out := out\<rparr>, w, length out))" by (auto simp: client_get_object_def)
  then show ?thesis by (intro exI [of _ "s\<lparr>se_out := out\<rparr>"]) simp
qed

definition spy_world :: "(unit, unit) world" where
  "spy_world = upd_disk \<lparr>cwd = [], nodes = [([''n''], Dir), ([''n'', ''tenants.json''], File [7, 8])]\<rparr> sample_world"

definition spy_serde :: serde where
  "spy_serde = (share_serde 0)\<lparr>de_file_get := (\<lambda>b. Some \<lparr>fg_blob_id = ''/n/tenants.json'', fg_chunk_index = Some (from_le b)\<rparr>)\<rparr>"

lemma spy_understood: "\<forall>i. get_understood spy_serde ''/n/tenants.json'' i"
proof -
  have "sendable spy_serde t m" for t m
    using share_sendable [of 0 t m] by (simp add: sendable_def spy_serde_def from_json_def)
  moreover have "from_le (to_le 8 (i :: u64)) = i" for i by (rule from_le_to_le) simp
  ultimately show ?thesis
    by (simp add: get_understood_def Let_def) (simp add: serde_roundtrip_def spy_serde_def share_serde_def)
qed

theorem get_object_reads_any_file_witness:
  "\<exists>s'. client_get_object (server_link (sample_config\<lparr>cf_serde := spy_serde\<rparr>) (\<lambda>_. 0) ''id'') spy_serde sample_crates client_env
      ''/n/tenants.json'' ''d'' (sample_session, spy_world, 0) = Some (Inr (Some [7, 8]), (s', spy_world, length (se_out s')))"
proof -
  let ?cf = "sample_config\<lparr>cf_serde := spy_serde\<rparr>"
  have "same_keys ?cf client_env ''d''"
    by (simp add: same_keys_def sample_config_def e2e_from_env_def masters_from_env_def client_env_def)
  moreover have "fs_read (disk (wd_storage spy_world)) ''/n/tenants.json'' = Inr [7, 8]"
    by (simp add: spy_world_def upd_disk_def fs_read_def resolve_def start_of_def node_at_def hm_get_def)
  moreover have "se_phase sample_session = Ready" "se_open sample_session" "se_domain sample_session = ''d''" "se_out sample_session = []"
    by (simp_all add: sample_session_simps)
  ultimately show ?thesis
    using get_object_reads_any_file [where cf = ?cf and s = sample_session and w = spy_world and p = "''/n/tenants.json''" and
        data = "[7, 8]" and env = client_env and clk = "\<lambda>_. 0" and mid = "''id''"] sample_store(1) spy_understood sample_seal_law
      sample_crates_laws(3) by (simp add: CHUNK_SIZE_def sample_config_def)
qed

section \<open>Paths of tree entries on the client\<close>

lemma copy_file_cases:
  "copy_file a b F = F \<or> (\<exists>q l. node_at F q \<noteq> Some Dir \<and> copy_file a b F = set_node q (File l) F)"
proof (cases "fs_read F a")
  case (Inr l)
  show ?thesis
  proof (cases "fs_write b l F")
    case (Inr F')
    with fs_write_InrD [OF Inr] \<open>fs_read F a = Inr l\<close> show ?thesis by (auto simp: copy_file_def)
  qed (use Inr in \<open>simp add: copy_file_def\<close>)
qed (simp add: copy_file_def)

lemma set_file_not_dir: "node_at F q \<noteq> Some Dir \<Longrightarrow> node_at F x \<noteq> Some Dir \<Longrightarrow> node_at (set_node q (File l) F) x \<noteq> Some Dir"
  by (cases "q = []") auto

lemma with_conflict_materializes:
  fixes requester ts
  shows "\<exists>F1. materialize_with_conflict C env lnk ts e bs requester F = materialize env lnk e bs F1 \<and>
    (F1 = F \<or> (\<exists>q l. node_at F q \<noteq> Some Dir \<and> F1 = set_node q (File l) F))"
  unfolding materialize_with_conflict_def Let_def
  by (rule exI, rule conjI [OF refl]) (use copy_file_cases in \<open>simp split: sum.split\<close>)

text \<open>
  C20: a tree entry with an absolute path is written outside the shared directory.  Whoever pushes
  a tree chooses the paths of its entries, and a client that pulls such an entry writes the
  contents to this path, replacing a file that is there, wherever its shared directory is.
\<close>

theorem foreign_path_written:
  fixes w :: "('x, 'd) world" and clk :: clock and mid :: string and su :: "'q surroundings"
  assumes "can_serve cf (su_env su) fqn s" "served cf (se_fs s) w obj e"
    and "find (\<lambda>e. fte_path e = p) (ft_entries t) = Some e" "su_env su ''NSMT_SYMLINK_VIEW'' = None"
    and "p = join d n" "prefix ''/'' d" "\<not> suffix ''/'' d" "simple_name n"
    and "resolve F d = Inr ds" "node_at F ds = Some Dir" "node_at F (ds @ [n]) \<noteq> Some Dir"
    and "resolve F (objects_dir (su_env su)) = Inr os" "node_at F os = Some Dir"
  shows "\<exists>s' F'. pull_path (server_link cf clk mid) (cf_serde cf) (cf_crates cf) su ctx fqn t p ((s, w, length (se_out s)), F) =
      Some (Inr (), ((s', w, length (se_out s')), F')) \<and> fs_read F' p = Inr (obj (fte_blob_id e))"
proof -
  let ?bs = "obj (fte_blob_id e)" and ?env = "su_env su" and ?C = "cf_crates cf"
  have p: "fte_path e = p" using assms(3) by (auto simp: find_Some_iff)
  have ap: "prefix ''/'' p" using assms(5,6) by (auto simp: join_def prefix_def)
  have t: "join (share_dir ?env) p = p" by (rule join_absolute [OF ap])
  have par: "parent p = d" unfolding assms(5) using assms(6-8) by (intro parent_join) (auto simp: simple_name_def)
  obtain out where get: "pull_object_with_peer (server_link cf clk mid) (su_peers su) (su_dial su) (cf_serde cf) ?C ?env
      (su_now su) ctx e fqn (s, w, length (se_out s)) = Some (Inr (Some ?bs), (s\<lparr>se_out := out\<rparr>, w, length out))"
    using pull_object_server [OF assms(1,2)] by blast
  from with_conflict_materializes [of ?C ?env "su_link su" "su_conflict_ts su p" e ?bs fqn F] obtain F1 where
    m1: "materialize_with_conflict ?C ?env (su_link su) (su_conflict_ts su p) e ?bs fqn F = materialize ?env (su_link su) e ?bs F1" and
    c: "F1 = F \<or> (\<exists>q l. node_at F q \<noteq> Some Dir \<and> F1 = set_node q (File l) F)" by blast
  have F1: "dirs_kept F F1" using c dirs_kept_set_File by blast
  have n1: "node_at F1 (ds @ [n]) \<noteq> Some Dir" using c assms(11) set_file_not_dir by blast
  have d1: "resolve F1 d = Inr ds" "node_at F1 ds = Some Dir" using resolve_kept [OF assms(9) F1] F1 assms(10) by (auto simp: dirs_kept_def)
  let ?F2 = "set_node (ds @ [n]) (File ?bs) F1"
  have m: "materialize ?env (su_link su) e ?bs F1 = (Inr (), ?F2)"
    using write_in_dir [OF d1 assms(8) n1, of ?bs, folded assms(5)] create_dir_all_idem [OF d1] assms(4)
    by (simp add: materialize_def Let_def p t par)
  have k2: "dirs_kept F ?F2" using dirs_kept_trans [OF F1 dirs_kept_set_File [OF n1]] .
  have o2: "resolve ?F2 (objects_dir ?env) = Inr os" "node_at ?F2 os = Some Dir"
    using resolve_kept [OF assms(12) k2] k2 assms(13) by (auto simp: dirs_kept_def)
  have b: "simple_name (fte_blob_id e)" using assms(2) by (simp add: served_def)
  obtain F3 where en: "ensure_object_local ?env (fte_blob_id e) ?bs ?F2 = (Inr (), F3)" and k3: "dirs_kept ?F2 F3"
      "node_at F3 (ds @ [n]) = Some (File ?bs)"
    using create_dir_all_idem [OF o2] exists_in_dir [OF o2 b] write_in_dir [OF o2 b, of ?bs] dirs_kept_set_File [of ?F2 "os @ [fte_blob_id e]"]
    by (cases "node_at ?F2 (os @ [fte_blob_id e])") (auto simp: ensure_object_local_def Let_def)
  have "pull_path (server_link cf clk mid) (cf_serde cf) ?C su ctx fqn t p ((s, w, length (se_out s)), F) =
      Some (Inr (), ((s\<lparr>se_out := out\<rparr>, w, length out), F3))"
    by (simp add: pull_path_def assms(3) c_bind_def on_net_def on_disk_def get m1 m en)
  moreover have "resolve F3 d = Inr ds" "node_at F3 ds = Some Dir"
    using resolve_kept [OF assms(9) dirs_kept_trans [OF k2 k3(1)]] dirs_kept_trans [OF k2 k3(1)] assms(10) by (auto simp: dirs_kept_def)
  then have "fs_read F3 p = Inr ?bs" using read_in_dir [of F3 d ds n] assms(5,8) k3(2) by simp
  ultimately show ?thesis by (intro exI [of _ "s\<lparr>se_out := out\<rparr>"] exI [of _ F3]) simp
qed

text \<open>An entry for a file in the home directory, pulled by a client whose shared directory is elsewhere.\<close>

definition rogue_entry :: file_tree_entry where
  "rogue_entry = pair_entry\<lparr>fte_path := ''/h/rc''\<rparr>"

definition rogue_disk :: fs where
  "rogue_disk = \<lparr>cwd = [], nodes = [([''s''], Dir), ([''o''], Dir), ([''h''], Dir), ([''h'', ''rc''], File [1])]\<rparr>"

theorem foreign_path_written_witness:
  "\<exists>s' F'. pull_path (server_link (pair_config [] []) (\<lambda>_. 0) ''id'') (pair_serde [] []) sample_crates pair_su (sample_peer ''m'') ''d/m/t''
      \<lparr>ft_tree_hash = [], ft_entries = [rogue_entry]\<rparr> ''/h/rc'' ((sample_session, pair_world, 0), rogue_disk) =
      Some (Inr (), ((s', pair_world, length (se_out s')), F')) \<and> fs_read F' ''/h/rc'' = Inr [7]"
proof -
  let ?cf = "pair_config [] []"
  have e: "fte_blob_id rogue_entry = object_id sample_crates [7]" "fte_path rogue_entry = ''/h/rc''" by (simp_all add: rogue_entry_def)
  have pw: "upd_disk (disk (wd_storage pair_world)) pair_world = pair_world" by (simp add: upd_disk_def)
  have sv: "served ?cf (se_fs sample_session) pair_world (\<lambda>_. [7]) rogue_entry"
    using pair_served [OF pair_world_server, of "[]" "[]" pair_world] pw by (simp add: served_def e pair_fs)
  have f: "find (\<lambda>e. fte_path e = ''/h/rc'') (ft_entries \<lparr>ft_tree_hash = [], ft_entries = [rogue_entry]\<rparr>) = Some rogue_entry"
    by (simp add: e)
  have n: "su_env pair_su ''NSMT_SYMLINK_VIEW'' = None" "''/h/rc'' = join ''/h'' ''rc''" "prefix ''/'' ''/h''" "\<not> suffix ''/'' ''/h''" "simple_name ''rc''"
    by (simp_all add: pair_su_def join_def suffix_to_prefix simple_name_def)
  have r: "resolve rogue_disk ''/h'' = Inr [''h'']" "node_at rogue_disk [''h''] = Some Dir" "node_at rogue_disk ([''h''] @ [''rc'']) \<noteq> Some Dir"
    "resolve rogue_disk (objects_dir (su_env pair_su)) = Inr [''o'']" "node_at rogue_disk [''o''] = Some Dir"
    by (simp_all add: rogue_disk_def resolve_def start_of_def node_at_def hm_get_def objects_dir_def pair_su_def)
  have o: "se_out sample_session = []" by (simp add: sample_session_simps)
  from foreign_path_written [OF pair_serves(1) sv f n r, of "\<lambda>_. 0" "''id''" "sample_peer ''m''"] o
  show ?thesis by simp
qed

end
