(* ===== verification/Socket_Addr.thy ===== *)
theory Socket_Addr
  imports Prelude
begin

text \<open>
  What the sources use of \<open>std::net\<close>: \<open>str::parse\<close> for \<open>SocketAddr\<close> and \<open>u16\<close>, and the printed
  form of an IPv4 socket address.  A reader consumes a prefix of the text and returns the rest.
\<close>

datatype socket_addr = V4 "nat list" nat | V6 "nat list" nat nat

definition digit_value :: "nat \<Rightarrow> char \<Rightarrow> nat option" where
  "digit_value radix c =
     (let n = of_char c :: nat;
          d = (if 48 \<le> n \<and> n \<le> 57 then n - 48 else if 97 \<le> n \<and> n \<le> 122 then n - 87 else if 65 \<le> n \<and> n \<le> 90 then n - 55 else 36)
      in if d < radix then Some d else None)"

definition is_digit :: "nat \<Rightarrow> char \<Rightarrow> bool" where
  "is_digit radix c \<longleftrightarrow> digit_value radix c \<noteq> None"

definition number :: "nat \<Rightarrow> string \<Rightarrow> nat" where
  "number radix ds = foldl (\<lambda>a c. a * radix + the (digit_value radix c)) 0 ds"

text \<open>\<open>read_number\<close> for a type with the largest value \<open>most\<close>.\<close>

definition read_number :: "nat \<Rightarrow> nat option \<Rightarrow> bool \<Rightarrow> nat \<Rightarrow> string \<Rightarrow> (nat \<times> string) option" where
  "read_number radix max_digits allow_zero_prefix most s =
     (let ds = takeWhile (is_digit radix) s in
      if ds = [] \<or> (case max_digits of Some m \<Rightarrow> length ds > m | None \<Rightarrow> False) \<or>
         \<not> allow_zero_prefix \<and> hd ds = CHR ''0'' \<and> length ds > 1 \<or> number radix ds > most
      then None else Some (number radix ds, drop (length ds) s))"

fun given_char :: "char \<Rightarrow> string \<Rightarrow> string option" where
  "given_char c [] = None"
| "given_char c (x # s) = (if x = c then Some s else None)"

text \<open>The separator stands between the elements, not before the first.\<close>

definition separator :: "bool \<Rightarrow> char \<Rightarrow> string \<Rightarrow> string option" where
  "separator first c s = (if first then Some s else given_char c s)"

fun read_bytes :: "nat \<Rightarrow> bool \<Rightarrow> string \<Rightarrow> (nat list \<times> string) option" where
  "read_bytes 0 first s = Some ([], s)"
| "read_bytes (Suc n) first s =
     Option.bind (separator first CHR ''.'' s) (\<lambda>s1.
     Option.bind (read_number 10 (Some 3) False 255 s1) (\<lambda>(a, s2).
     map_option (\<lambda>(as, s3). (a # as, s3)) (read_bytes n False s2)))"

definition read_ipv4 :: "string \<Rightarrow> (nat list \<times> string) option" where
  "read_ipv4 s = read_bytes 4 True s"

text \<open>Up to \<open>n\<close> groups, the last two of them possibly as an IPv4 address, which the flag tells.\<close>

fun read_groups :: "nat \<Rightarrow> bool \<Rightarrow> string \<Rightarrow> nat list \<times> bool \<times> string" where
  "read_groups 0 first s = ([], False, s)"
| "read_groups (Suc n) first s =
     (case (if n = 0 then None else Option.bind (separator first CHR '':'' s) read_ipv4) of
        Some (v4, r) \<Rightarrow> ([v4 ! 0 * 256 + v4 ! 1, v4 ! 2 * 256 + v4 ! 3], True, r)
      | None \<Rightarrow>
         (case Option.bind (separator first CHR '':'' s) (read_number 16 (Some 4) True 65535) of
            None \<Rightarrow> ([], False, s)
          | Some (g, r) \<Rightarrow> (case read_groups n False r of (gs, v4, r') \<Rightarrow> (g # gs, v4, r'))))"

definition read_ipv6 :: "string \<Rightarrow> (nat list \<times> string) option" where
  "read_ipv6 s =
     (case read_groups 8 True s of (head, v4, r) \<Rightarrow>
        if length head = 8 then Some (head, r)
        else if v4 then None
        else Option.bind (given_char CHR '':'' r) (\<lambda>r1.
             Option.bind (given_char CHR '':'' r1) (\<lambda>r2.
             case read_groups (7 - length head) True r2 of (tail, _, r3) \<Rightarrow>
               Some (head @ replicate (8 - length head - length tail) 0 @ tail, r3))))"

definition read_port :: "string \<Rightarrow> (nat \<times> string) option" where
  "read_port s = Option.bind (given_char CHR '':'' s) (read_number 10 None True 65535)"

definition read_scope :: "string \<Rightarrow> nat \<times> string" where
  "read_scope s =
     (case Option.bind (given_char CHR ''%'' s) (read_number 10 None True (2 ^ 32 - 1)) of
        Some x \<Rightarrow> x
      | None \<Rightarrow> (0, s))"

definition read_v4 :: "string \<Rightarrow> (socket_addr \<times> string) option" where
  "read_v4 s = Option.bind (read_ipv4 s) (\<lambda>(ip, r). map_option (\<lambda>(port, r'). (V4 ip port, r')) (read_port r))"

definition read_v6 :: "string \<Rightarrow> (socket_addr \<times> string) option" where
  "read_v6 s =
     Option.bind (given_char CHR ''['' s) (\<lambda>r.
     Option.bind (read_ipv6 r) (\<lambda>(ip, r1).
     case read_scope r1 of (scope, r2) \<Rightarrow>
     Option.bind (given_char CHR '']'' r2) (\<lambda>r3.
     map_option (\<lambda>(port, r4). (V6 ip scope port, r4)) (read_port r3))))"

definition parse_socket_addr :: "string \<Rightarrow> socket_addr option" where
  "parse_socket_addr s =
     (case (case read_v4 s of Some x \<Rightarrow> Some x | None \<Rightarrow> read_v6 s) of
        Some (a, []) \<Rightarrow> Some a
      | _ \<Rightarrow> None)"

text \<open>\<open>parse\<close> for \<open>u16\<close>: decimal digits after an optional plus sign.\<close>

definition parse_u16 :: "string \<Rightarrow> nat option" where
  "parse_u16 s =
     (let ds = (case s of c # r \<Rightarrow> if c = CHR ''+'' then r else s | [] \<Rightarrow> s) in
      if ds = [] \<or> \<not> list_all (is_digit 10) ds \<or> number 10 ds > 65535 then None else Some (number 10 ds))"

definition fmt_v4 :: "nat \<Rightarrow> nat \<Rightarrow> nat \<Rightarrow> nat \<Rightarrow> nat \<Rightarrow> string" where
  "fmt_v4 a b c d port = fmt_dec a @ ''.'' @ fmt_dec b @ ''.'' @ fmt_dec c @ ''.'' @ fmt_dec d @ '':'' @ fmt_dec port"

section \<open>Reading what was printed\<close>

lemma digit_char: "n < 10 \<Longrightarrow> digit_value 10 (char_of (48 + n)) = Some n"
  by (simp add: digit_value_def)

lemma number_snoc: "number radix (ds @ [c]) = number radix ds * radix + the (digit_value radix c)"
  by (simp add: number_def)

lemma fmt_dec_number: "number 10 (fmt_dec n) = n \<and> list_all (is_digit 10) (fmt_dec n) \<and> fmt_dec n \<noteq> []"
proof (induction n rule: fmt_dec.induct)
  case (1 n)
  show ?case
  proof (cases "n < 10")
    case True
    then have "fmt_dec n = [] @ [char_of (48 + n)]" by (subst fmt_dec.simps) simp
    then show ?thesis unfolding number_snoc by (simp add: number_def is_digit_def digit_char True)
  next
    case False
    have "fmt_dec n = fmt_dec (n div 10) @ [char_of (48 + n mod 10)]" using False by (subst fmt_dec.simps) simp
    moreover have "digit_value 10 (char_of (48 + n mod 10)) = Some (n mod 10)" by (rule digit_char) simp
    ultimately show ?thesis using 1 [OF False] by (simp add: number_snoc is_digit_def)
  qed
qed

lemma fmt_dec_no_zero: "0 < n \<Longrightarrow> hd (fmt_dec n) \<noteq> CHR ''0''"
proof (induction n rule: fmt_dec.induct)
  case (1 n)
  show ?case
  proof (cases "n < 10")
    case True
    have "of_char (char_of (48 + n) :: char) \<noteq> (48 :: nat)" using True 1(2) by simp
    moreover have "of_char CHR ''0'' = (48 :: nat)" by simp
    ultimately have "char_of (48 + n) \<noteq> CHR ''0''" by metis
    then show ?thesis using True by (subst fmt_dec.simps) simp
  next
    case False
    then have "0 < n div 10" by simp
    then show ?thesis using 1(1) [OF False] fmt_dec_number [of "n div 10"] False
      by (subst fmt_dec.simps) simp
  qed
qed

lemma fmt_dec_short: "n < 1000 \<Longrightarrow> length (fmt_dec n) \<le> 3"
  by (subst fmt_dec.simps, subst fmt_dec.simps, subst fmt_dec.simps) simp

lemma take_all_digits: "takeWhile (is_digit 10) (fmt_dec n) = fmt_dec n"
  using fmt_dec_number [of n] by (auto simp: list_all_iff takeWhile_eq_all_conv)

lemma take_digits: "\<not> is_digit 10 c \<Longrightarrow> takeWhile (is_digit 10) (fmt_dec n @ c # s) = fmt_dec n"
  using fmt_dec_number [of n] by (auto simp: list_all_iff takeWhile_append2)

lemma single_digit: "n < 10 \<Longrightarrow> length (fmt_dec n) = 1"
  by (subst fmt_dec.simps) simp

lemma read_byte:
  assumes "n \<le> 255" and "\<not> is_digit 10 c"
  shows "read_number 10 (Some 3) False 255 (fmt_dec n @ c # s) = Some (n, c # s)"
proof -
  have z: "\<not> (hd (fmt_dec n) = CHR ''0'' \<and> 1 < length (fmt_dec n))"
    using fmt_dec_no_zero [of n] single_digit [of 0] by (cases "n = 0") auto
  have "fmt_dec n \<noteq> []" "number 10 (fmt_dec n) = n" "length (fmt_dec n) \<le> 3"
    using fmt_dec_number [of n] fmt_dec_short [of n] assms(1) by auto
  then show ?thesis unfolding read_number_def Let_def take_digits [OF assms(2)] using z assms(1) by auto
qed

lemma read_port_dec:
  assumes "n \<le> 65535"
  shows "read_port (CHR '':'' # fmt_dec n) = Some (n, [])"
proof -
  have "fmt_dec n \<noteq> []" "number 10 (fmt_dec n) = n" using fmt_dec_number [of n] by auto
  then show ?thesis using assms by (simp add: read_port_def read_number_def Let_def take_all_digits del: takeWhile_eq_all_conv)
qed

lemma read_ipv4_unfold: "read_ipv4 s = read_bytes (Suc (Suc (Suc (Suc 0)))) True s"
  by (simp only: read_ipv4_def numeral_eq_Suc pred_numeral_simps One_nat_def Num.BitM.simps)

lemma parse_printed:
  assumes "a \<le> 255" and "b \<le> 255" and "c \<le> 255" and "d \<le> 255" and "port \<le> 65535"
  shows "parse_socket_addr (fmt_v4 a b c d port) = Some (V4 [a, b, c, d] port)"
proof -
  have n: "\<not> is_digit 10 CHR ''.''" "\<not> is_digit 10 CHR '':''" by (simp_all add: is_digit_def digit_value_def)
  have "read_ipv4 (fmt_v4 a b c d port) = Some ([a, b, c, d], CHR '':'' # fmt_dec port)"
    using assms by (simp add: read_ipv4_unfold fmt_v4_def separator_def read_byte n)
  then have "read_v4 (fmt_v4 a b c d port) = Some (V4 [a, b, c, d] port, [])"
    using assms(5) by (simp add: read_v4_def read_port_dec)
  then show ?thesis by (simp add: parse_socket_addr_def)
qed

end
