(* ===== verification/Db_Connect.thy ===== *)
theory Db_Connect
  imports Server_State Utf8
begin

text \<open>
  How the server reaches its user database: \<open>UserDb::connect\<close> and \<open>init\<close> of
  \<open>nsmt-server/src/db.rs\<close> and the call in \<open>ServerState::new\<close> of \<open>state.rs\<close>.  The driver (\<open>sqlx\<close>) is a
  parameter: it connects to a URL and executes a statement.
\<close>

record 'd sql_driver =
  sd_connect :: "string \<Rightarrow> string + 'd"
  sd_execute :: "string \<Rightarrow> 'd \<Rightarrow> string + 'd"

definition sql_lines :: "string list \<Rightarrow> string" where
  "sql_lines ls = join_with (CHR 0x0A # replicate 16 CHR 0x20) ls"

definition users_table :: "db_kind \<Rightarrow> string" where
  "users_table kind =
     (case kind of
        Sqlite \<Rightarrow> sql_lines [''CREATE TABLE IF NOT EXISTS users ('', ''id INTEGER PRIMARY KEY AUTOINCREMENT,'',
          ''username TEXT NOT NULL UNIQUE,'', ''password_hash TEXT NOT NULL,'', ''domain TEXT NOT NULL UNIQUE,'',
          ''plan TEXT NOT NULL DEFAULT '' @ [CHR 0x27] @ ''free'' @ [CHR 0x27] @ '','', ''created_at INTEGER NOT NULL DEFAULT 0)'']
      | MySql \<Rightarrow> sql_lines [''CREATE TABLE IF NOT EXISTS users ('', ''id INT AUTO_INCREMENT PRIMARY KEY,'',
          ''username VARCHAR(128) NOT NULL UNIQUE,'', ''password_hash TEXT NOT NULL,'', ''domain VARCHAR(128) NOT NULL UNIQUE,'',
          ''plan VARCHAR(32) NOT NULL DEFAULT '' @ [CHR 0x27] @ ''free'' @ [CHR 0x27] @ '','', ''created_at BIGINT NOT NULL DEFAULT 0)'']
      | Postgres \<Rightarrow> sql_lines [''CREATE TABLE IF NOT EXISTS users ('', ''id BIGSERIAL PRIMARY KEY,'',
          ''username TEXT NOT NULL UNIQUE,'', ''password_hash TEXT NOT NULL,'', ''domain TEXT NOT NULL UNIQUE,'',
          ''plan TEXT NOT NULL DEFAULT '' @ [CHR 0x27] @ ''free'' @ [CHR 0x27] @ '','', ''created_at BIGINT NOT NULL DEFAULT 0)''])"

definition sessions_table :: "db_kind \<Rightarrow> string" where
  "sessions_table kind =
     (case kind of
        Sqlite \<Rightarrow> sql_lines [''CREATE TABLE IF NOT EXISTS sessions ('', ''token TEXT PRIMARY KEY,'',
          ''user_id INTEGER NOT NULL,'', ''expires_at INTEGER NOT NULL)'']
      | MySql \<Rightarrow> sql_lines [''CREATE TABLE IF NOT EXISTS sessions ('', ''token VARCHAR(128) PRIMARY KEY,'',
          ''user_id INT NOT NULL,'', ''expires_at BIGINT NOT NULL)'']
      | Postgres \<Rightarrow> sql_lines [''CREATE TABLE IF NOT EXISTS sessions ('', ''token TEXT PRIMARY KEY,'',
          ''user_id BIGINT NOT NULL,'', ''expires_at BIGINT NOT NULL)''])"

definition db_init :: "'d sql_driver \<Rightarrow> db_kind \<Rightarrow> 'd \<Rightarrow> string + 'd" where
  "db_init V kind D = and_then (sd_execute V (users_table kind) D) (sd_execute V (sessions_table kind))"

definition db_connect :: "'d sql_driver \<Rightarrow> env \<Rightarrow> string option \<Rightarrow> fs \<Rightarrow> (string + 'd) \<times> fs" where
  "db_connect V env url F =
     (case (case url of Some u \<Rightarrow> (u, F) | None \<Rightarrow> default_sqlite_url env F) of
        (u, F') \<Rightarrow> (and_then (sd_connect V u) (db_init V (kind_of_url u)), F'))"

text \<open>A database that cannot be reached is only logged.\<close>

definition server_state_start :: "'d sql_driver \<Rightarrow> env \<Rightarrow> fs \<Rightarrow> 'd server_state \<times> fs" where
  "server_state_start V env F =
     (case db_connect V env (env ''NSMT_DB_URL'') F of
        (r, F') \<Rightarrow> (server_state_new env (case r of Inr D \<Rightarrow> Some D | Inl _ \<Rightarrow> None), F'))"

section \<open>Properties\<close>

text \<open>
  \<open>NSMT_QUOTA_BYTES\<close> counts only when the database cannot be reached.  Without \<open>NSMT_DB_URL\<close> a
  database of the default URL is used; then a tenant that is not one of its users has the quota of
  the free plan, whatever \<open>NSMT_QUOTA_BYTES\<close> says.
\<close>

lemma quota_of_provisioned_tenant:
  assumes "server_state_start V env F = (st, F')" and "env ''NSMT_DB_URL'' = None"
  shows "case and_then (sd_connect V (fst (default_sqlite_url env F))) (db_init V Sqlite) of
      Inl _ \<Rightarrow> quota_for env Q d st = quota_bytes env
    | Inr D \<Rightarrow> (\<forall>e. db_plan Q d D = Inl e \<longrightarrow> quota_for env Q d st = 50 * 1024 * 1024)"
proof -
  have "kind_of_url (fst (default_sqlite_url env F)) = Sqlite"
    by (simp add: default_sqlite_url_def kind_of_url_def Let_def)
  then show ?thesis
    using assms by (auto simp: server_state_start_def db_connect_def server_state_new_def quota_for_def quota_for_plan_def
        DEFAULT_FREE_QUOTA_BYTES_def split: prod.splits sum.splits)
qed

text \<open>Nothing of the usage is kept over a restart.\<close>

lemma usage_starts_at_zero: "usage_of d (fst (server_state_start V env F)) = 0"
  by (auto simp: server_state_start_def server_state_new_def usage_of_def hm_get_def split: prod.splits)

end
