(* ===== verification/Start.thy ===== *)
theory Start
  imports Socket_Addr Db_Connect Tenants Identity
begin

text \<open>
  The entry points of the server and of the client, \<open>nsmt-server/src/main.rs\<close> and the beginning of
  \<open>nsmt-client/src/main.rs\<close>: command line, environment, keys and certificates, up to the point
  where the server accepts connections and the client runs a command.
\<close>

definition arg :: "string list \<Rightarrow> nat \<Rightarrow> string option" where
  "arg args i = (if i < length args then Some (args ! i) else None)"

section \<open>Server\<close>

text \<open>\<open>None\<close> is a panic.\<close>

definition bind_arg :: "string list \<Rightarrow> socket_addr option" where
  "bind_arg args =
     (case (case arg args 1 of Some s \<Rightarrow> parse_socket_addr s | None \<Rightarrow> parse_socket_addr ''0.0.0.0:5555'') of
        Some a \<Rightarrow> Some a
      | None \<Rightarrow> parse_socket_addr ''0.0.0.0:5555'')"

definition control_addr :: "env \<Rightarrow> string list \<Rightarrow> string option" where
  "control_addr env args =
     (case env ''NSMT_CONTROL_ADDR'' of
        Some a \<Rightarrow> Some a
      | None \<Rightarrow> (case dropWhile (\<lambda>a. a \<noteq> ''--control'') args of _ # a # _ \<Rightarrow> Some a | _ \<Rightarrow> None))"

definition persist_cert :: "env \<Rightarrow> bytes \<Rightarrow> fs \<Rightarrow> (io_error + unit) \<times> fs" where
  "persist_cert env cert F =
     (let dir = (case env ''NSMT_HOME'' of
            Some d \<Rightarrow> d
          | None \<Rightarrow> (case env ''HOME'' of Some h \<Rightarrow> h @ ''/.nsmt'' | None \<Rightarrow> ''.nsmt''))
      in case fs_create_dir_all dir F of
           Inl e \<Rightarrow> (Inl e, F)
         | Inr F1 \<Rightarrow>
            (case fs_write (dir @ ''/ygg.crt'') cert F1 of
               Inl e \<Rightarrow> (Inl e, F1)
             | Inr F2 \<Rightarrow> (Inr (), F2)))"

datatype 'd server_start =
    TenantAdded string
  | StartFailed nsmt_error
  | SetupFailed string
  | ServerPanic
  | Serving socket_addr "socket_addr option" "'d server_state" tenant_store

text \<open>
  \<open>cert\<close> is the self-signed certificate of \<open>rcgen\<close>, or why there is none; \<open>endpoint\<close> what \<open>quinn\<close>
  and \<open>rustls\<close> make of the address; \<open>V\<close> is the driver of the user database.
\<close>

definition add_tenant_cmd :: "tenants_json \<Rightarrow> env \<Rightarrow> string list \<Rightarrow> fs \<Rightarrow> 'd server_start \<times> fs" where
  "add_tenant_cmd J env args F =
     (case (arg args 3, arg args 4) of
        (Some domain, Some pubkey) \<Rightarrow>
          (case upsert_tenant J env domain pubkey (load J env F, F) of
             (Inl e, _, F') \<Rightarrow> (StartFailed e, F')
           | (Inr _, _, F') \<Rightarrow> (TenantAdded domain, F'))
      | _ \<Rightarrow> (ServerPanic, F))"

definition server_main ::
  "tenants_json \<Rightarrow> env \<Rightarrow> (string + bytes) \<Rightarrow> (socket_addr \<Rightarrow> string + unit) \<Rightarrow> 'd sql_driver \<Rightarrow> string list \<Rightarrow> fs \<Rightarrow> 'd server_start \<times> fs" where
  "server_main J env cert endpoint V args F =
     (if (arg args 1 = Some ''admin'' \<or> arg args 2 = Some ''admin'') \<and> arg args 2 = Some ''add-tenant''
      then add_tenant_cmd J env args F
      else (case bind_arg args of
              None \<Rightarrow> (ServerPanic, F)
            | Some addr \<Rightarrow>
               (case cert of
                  Inl e \<Rightarrow> (SetupFailed e, F)
                | Inr der \<Rightarrow>
                   (case persist_cert env der F of
                      (Inl e, F1) \<Rightarrow> (StartFailed (Io e), F1)
                    | (Inr _, F1) \<Rightarrow>
                       (case endpoint addr of
                          Inl e \<Rightarrow> (SetupFailed e, F1)
                        | Inr _ \<Rightarrow>
                           (case server_state_start V env F1 of
                              (st, F2) \<Rightarrow>
                                (Serving addr (Option.bind (control_addr env args) parse_socket_addr) st (load J env F2), F2)))))))"

section \<open>Client\<close>

datatype client_mode =
    CaptureMode string string
  | RecallMode string
  | FsMode
  | OnlineMode

record client_identity =
  ci_domain :: string
  ci_agent :: string
  ci_machine :: string
  ci_domain_key :: key_pair
  ci_machine_key :: key_pair

datatype client_plan =
    BadAddress
  | BadAgentTag nsmt_error
  | KeyError nsmt_error
  | RunConflicts
  | RunConflictsWeb nat
  | RunOkf
  | Connect socket_addr client_identity client_mode

text \<open>The UTF-8 bytes of the Chinese for ``no input'' and ``no answer''.\<close>

definition no_input :: string where
  "no_input = [CHR 0xEF, CHR 0xBC, CHR 0x88, CHR 0xE6, CHR 0x97, CHR 0xA0, CHR 0xE8, CHR 0xBE, CHR 0x93,
     CHR 0xE5, CHR 0x85, CHR 0xA5, CHR 0xEF, CHR 0xBC, CHR 0x89]"

definition no_answer :: string where
  "no_answer = [CHR 0xEF, CHR 0xBC, CHR 0x88, CHR 0xE6, CHR 0x97, CHR 0xA0, CHR 0xE5, CHR 0x9B, CHR 0x9E,
     CHR 0xE5, CHR 0xA4, CHR 0x8D, CHR 0xEF, CHR 0xBC, CHR 0x89]"

definition arg_or :: "string list \<Rightarrow> nat \<Rightarrow> string \<Rightarrow> string" where
  "arg_or args i d = (case arg args i of Some a \<Rightarrow> a | None \<Rightarrow> d)"

definition client_plan_of :: "string list \<Rightarrow> socket_addr \<Rightarrow> client_identity \<Rightarrow> client_plan" where
  "client_plan_of args addr me =
     (let command = arg args 2 in
      if command = Some ''conflicts'' \<or> command = Some ''merge'' then RunConflicts
      else if command = Some ''conflicts-web'' then
        RunConflictsWeb (case Option.bind (arg args 3) parse_u16 of Some p \<Rightarrow> p | None \<Rightarrow> 8088)
      else if command = Some ''okf'' then RunOkf
      else if command = Some ''capture'' then Connect addr me (CaptureMode (arg_or args 3 no_input) (arg_or args 4 no_answer))
      else if command = Some ''recall'' then Connect addr me (RecallMode (arg_or args 3 []))
      else if command = Some ''fs'' then Connect addr me FsMode
      else Connect addr me OnlineMode)"

text \<open>
  \<open>hw\<close>, \<open>host\<close>, \<open>os\<close> and \<open>arch\<close> are what the machine id is derived from, \<open>rnd\<close> and \<open>rnd'\<close> the
  seeds of new keys.
\<close>

definition client_start ::
  "crates \<Rightarrow> env \<Rightarrow> string option \<Rightarrow> string option \<Rightarrow> string \<Rightarrow> string \<Rightarrow> bytes \<Rightarrow> bytes \<Rightarrow> string list \<Rightarrow> fs \<Rightarrow> client_plan \<times> fs" where
  "client_start C env hw host os arch rnd rnd' args F =
     (case (case arg args 1 of Some s \<Rightarrow> parse_socket_addr s | None \<Rightarrow> parse_socket_addr ''127.0.0.1:5555'') of
        None \<Rightarrow> (BadAddress, F)
      | Some addr \<Rightarrow>
         (let domain = (case env ''NSMT_USER_DOMAIN'' of Some d \<Rightarrow> d | None \<Rightarrow> ''ser163'');
              agent = (case env ''NSMT_AGENT_TAG'' of Some a \<Rightarrow> a | None \<Rightarrow> ''maka'')
          in case agent_tag_new agent of
               Inl e \<Rightarrow> (BadAgentTag e, F)
             | Inr _ \<Rightarrow>
                (let machine = (case env ''NSMT_MACHINE_ID'' of
                       Some m \<Rightarrow> m
                     | None \<Rightarrow> mid_as_str (fst (generate_machine_id (sha256 C) (hex_encode C) hw host os arch)))
                 in case load_or_create_domain_key C env rnd F of
                      (Inl e, F1) \<Rightarrow> (KeyError e, F1)
                    | (Inr dk, F1) \<Rightarrow>
                       (case load_or_create_machine_key C env rnd' F1 of
                          (Inl e, F2) \<Rightarrow> (KeyError e, F2)
                        | (Inr mk, F2) \<Rightarrow>
                           (client_plan_of args addr \<lparr>ci_domain = domain, ci_agent = agent, ci_machine = machine,
                              ci_domain_key = dk, ci_machine_key = mk\<rparr>, F2)))))"

text \<open>The certificate that \<open>connect\<close> trusts.\<close>

definition server_cert_path :: "env \<Rightarrow> path" where
  "server_cert_path env =
     (case env ''NSMT_SERVER_CERT'' of
        Some p \<Rightarrow> p
      | None \<Rightarrow> (case env ''HOME'' of Some h \<Rightarrow> h @ ''/.nsmt/ygg.crt'' | None \<Rightarrow> ''.nsmt/ygg.crt''))"

definition connect_cert :: "env \<Rightarrow> fs \<Rightarrow> io_error + bytes" where
  "connect_cert env F = fs_read F (server_cert_path env)"

definition peer_bind :: "env \<Rightarrow> socket_addr option" where
  "peer_bind env = parse_socket_addr (case env ''NSMT_PEER_PORT'' of Some a \<Rightarrow> a | None \<Rightarrow> ''127.0.0.1:0'')"

section \<open>Properties\<close>

lemma sample_digits: "char_of (48 :: nat) = CHR ''0''" "char_of (49 :: nat) = CHR ''1''" "char_of (50 :: nat) = CHR ''2''"
    "char_of (53 :: nat) = CHR ''5''" "char_of (55 :: nat) = CHR ''7''"
  by code_simp+

lemma fmt_sample: "fmt_dec 0 = ''0''" "fmt_dec 127 = ''127''" "fmt_dec (Suc 0) = ''1''" "fmt_dec 5555 = ''5555''"
  by (simp_all add: fmt_dec.simps sample_digits)

lemma default_addrs:
  "parse_socket_addr ''0.0.0.0:5555'' = Some (V4 [0, 0, 0, 0] 5555)"
  "parse_socket_addr ''127.0.0.1:5555'' = Some (V4 [127, 0, 0, 1] 5555)"
  "parse_socket_addr ''127.0.0.1:0'' = Some (V4 [127, 0, 0, 1] 0)"
  using parse_printed [of 0 0 0 0 5555] parse_printed [of 127 0 0 1 5555] parse_printed [of 127 0 0 1 0]
  by (simp_all add: fmt_v4_def fmt_sample)

lemma okf_no_address: "parse_socket_addr ''okf'' = None"
  by (simp add: parse_socket_addr_def read_v4_def read_v6_def read_ipv4_unfold separator_def read_number_def is_digit_def digit_value_def)

lemma bind_arg_some: "\<exists>a. bind_arg args = Some a"
  by (auto simp: bind_arg_def default_addrs split: option.split)

lemma home_file:
  assumes "resolve F h = Inr ds" and "node_at F ds = Some Dir" and "simple_name n"
  shows "resolve F (h @ CHR ''/'' # n) = Inr (ds @ [n])"
proof -
  have h: "h \<noteq> []" "CHR 0x00 \<notin> set h" "walk F (start_of F h) (split_char CHR ''/'' h) = Inr ds"
    using assms(1) by (auto simp: resolve_def split: if_splits)
  have "start_of F (h @ CHR ''/'' # n) = start_of F h" using h(1) by (cases h) (auto simp: start_of_def)
  moreover have "split_char CHR ''/'' n = [n]" using assms(3) by (simp add: split_char_none simple_name_def)
  ultimately show ?thesis using h assms(2,3)
    by (simp add: resolve_def split_char_append walk_append simple_name_def)
qed

lemma write_elsewhere:
  assumes "fs_write q b F = Inr F'" and "resolve F p = Inr cs" and "resolve F q \<noteq> Inr cs"
  shows "resolve F' p = Inr cs" "node_at F' cs = node_at F cs"
proof -
  obtain ds where ds: "resolve F q = Inr ds" "node_at F ds \<noteq> Some Dir" "F' = set_node ds (File b) F"
    using fs_write_InrD [OF assms(1)] by blast
  show "resolve F' p = Inr cs" using resolve_kept [OF assms(2)] dirs_kept_set_File [OF ds(2)] ds(3) by simp
  have "ds \<noteq> []" using ds(2) by auto
  then show "node_at F' cs = node_at F cs" using ds assms(3) by auto
qed

lemma persist_cert_InrD:
  assumes "persist_cert env cert F = (Inr (), F')" and "env ''NSMT_HOME'' = Some h" and "resolve F h = Inr ds" and "node_at F ds = Some Dir"
  shows "fs_write (h @ ''/ygg.crt'') cert F = Inr F'"
  using assms create_dir_all_idem [OF assms(3,4)] by (auto simp: persist_cert_def split: sum.splits)

lemma upsert_tenant_InrD:
  assumes "upsert_tenant J env d pk (g, F) = (Inr (), g', F')"
  shows "persist J env (set_domain_pubkey d pk g) F = (Inr (), F')" "dirs_kept F F'"
proof -
  show p: "persist J env (set_domain_pubkey d pk g) F = (Inr (), F')"
    using assms by (auto simp: upsert_tenant_def Let_def split: prod.splits)
  obtain F1 b where "fs_create_dir_all (parent (tenants_path env)) F = Inr F1" "fs_write (tenants_path env) b F1 = Inr F'"
    using p by (auto simp: persist_def split: sum.splits option.splits)
  then show "dirs_kept F F'"
    using create_dir_all_kept fs_write_InrD dirs_kept_set_File dirs_kept_trans by metis
qed

lemma reload_same:
  assumes "resolve F' (tenants_path env) = resolve F (tenants_path env)"
    and "\<And>cs. resolve F (tenants_path env) = Inr cs \<Longrightarrow> node_at F' cs = node_at F cs"
  shows "reload J env F' g = reload J env F g"
  using assms by (cases "resolve F (tenants_path env)")
    (simp_all add: reload_def fs_exists_def fs_read_to_string_def fs_read_def Let_def)

text \<open>The certificate does not disturb the tenant table.\<close>

lemma cert_keeps_tenants:
  assumes "persist_cert env cert F = (Inr (), F')" and "env ''NSMT_HOME'' = Some h" and "resolve F h = Inr ds" and "node_at F ds = Some Dir"
  shows "load J env F' = load J env F"
proof -
  have w: "fs_write (h @ ''/ygg.crt'') cert F = Inr F'" by (rule persist_cert_InrD [OF assms])
  have c: "resolve F (h @ ''/ygg.crt'') = Inr (ds @ [''ygg.crt''])"
    using home_file [OF assms(3,4), of "''ygg.crt''"] by (simp add: simple_name_def)
  have t: "resolve F (tenants_path env) = Inr (ds @ [''tenants.json''])"
    using resolve_join [OF assms(3,4), of "''tenants.json''"] assms(2) by (simp add: tenants_path_def simple_name_def)
  have "reload J env F' [] = reload J env F []"
    using write_elsewhere [OF w t] c t by (intro reload_same) auto
  then show ?thesis by (simp add: load_def)
qed

lemma server_state_start_disk:
  assumes "server_state_start V env F = (st, F')"
  shows "F' = F \<or> (\<exists>d. fs_create_dir_all d F = Inr F' \<and> (\<forall>h. env ''NSMT_HOME'' = Some h \<longrightarrow> d = h))"
  using assms by (auto simp: server_state_start_def db_connect_def default_sqlite_url_def Let_def split: prod.splits option.splits sum.splits)

lemma server_main_serving:
  assumes "server_main J env cert endpoint V args F = (Serving b c st g, F')"
  shows "\<exists>der F1. cert = Inr der \<and> persist_cert env der F = (Inr (), F1) \<and> server_state_start V env F1 = (st, F') \<and> g = load J env F'"
  using assms by (auto simp: server_main_def add_tenant_cmd_def split: if_splits option.splits sum.splits prod.splits)

text \<open>
  C21: a tenant provisioned on the command line is served after the next start.  If
  \<open>ygg admin add-tenant\<close> reports success and a server then starts on the resulting disk, whatever
  its other arguments, the table it serves from has the given key for this domain and the records of
  all other domains as before.
\<close>

theorem provisioned_tenant_served:
  assumes "env ''NSMT_HOME'' = Some h" and "resolve F h = Inr ds" and "node_at F ds = Some Dir"
    and "tenants_json_law J (set_domain_pubkey d pk (load J env F))"
    and "server_main J env cert endpoint V [prog, ''admin'', ''add-tenant'', d, pk] F = (TenantAdded d, F1)"
    and "server_main J env cert' endpoint' V' args F1 = (Serving b c st g, F2)"
  shows "map_option tr_domain_pubkey (hm_get g d) = Some pk \<and> (\<forall>e. e \<noteq> d \<longrightarrow> hm_get g e = hm_get (load J env F) e)"
proof -
  obtain g1 where u: "upsert_tenant J env d pk (load J env F, F) = (Inr (), g1, F1)"
    using assms(5) by (auto simp: server_main_def add_tenant_cmd_def arg_def split: sum.splits prod.splits)
  note u' = upsert_tenant_InrD [OF u]
  have home: "resolve F1 h = Inr ds" "node_at F1 ds = Some Dir"
    using resolve_kept [OF assms(2) u'(2)] u'(2) assms(3) by (auto simp: dirs_kept_def)
  obtain der G where G: "persist_cert env der F1 = (Inr (), G)" "server_state_start V' env G = (st, F2)" "g = load J env F2"
    using server_main_serving [OF assms(6)] by blast
  have "dirs_kept F1 G"
    using fs_write_InrD [OF persist_cert_InrD [OF G(1) assms(1) home]] dirs_kept_set_File by blast
  then have "resolve G h = Inr ds" "node_at G ds = Some Dir" using resolve_kept [OF home(1)] home(2) by (auto simp: dirs_kept_def)
  then have "fs_create_dir_all h G = Inr G" by (rule create_dir_all_idem)
  with server_state_start_disk [OF G(2)] assms(1) have "F2 = G" by auto
  then have "g = load J env F1" using cert_keeps_tenants [where env = env and h = h and ds = ds, OF G(1) assms(1) home] G(3) by simp
  with persist_reload [OF assms(4) u'(1), of "[]"] show ?thesis by (auto simp: load_def set_domain_pubkey_def)
qed

definition start_json :: tenants_json where
  "start_json = \<lparr>tenants_to_vec_pretty = (\<lambda>g. Some (as_bytes ''{}'')), tenants_from_str = (\<lambda>s. Some (set_domain_pubkey ''d'' ''aa'' []))\<rparr>"

definition start_env :: env where "start_env = [''NSMT_HOME'' \<mapsto> ''/h'']"

definition unit_driver :: "unit sql_driver" where
  "unit_driver = \<lparr>sd_connect = (\<lambda>_. Inl []), sd_execute = (\<lambda>_ D. Inr D)\<rparr>"

definition start_disk :: fs where "start_disk = \<lparr>cwd = [], nodes = [([''h''], Dir)]\<rparr>"

theorem provisioned_tenant_served_witness:
  "\<exists>F1 F2 b c g. server_main start_json start_env (Inl []) (\<lambda>_. Inl []) unit_driver [''ygg'', ''admin'', ''add-tenant'', ''d'', ''aa''] start_disk =
      (TenantAdded ''d'', F1) \<and>
    server_main start_json start_env (Inr [1]) (\<lambda>_. Inr ()) unit_driver [''ygg''] F1 = (Serving b c (server_state_new start_env None) g, F2) \<and>
    map_option tr_domain_pubkey (hm_get g ''d'') = Some ''aa''"
proof -
  let ?F1 = "set_node [''h'', ''tenants.json''] (File (as_bytes ''{}'')) start_disk"
  have home: "resolve start_disk ''/h'' = Inr [''h'']" "node_at start_disk [''h''] = Some Dir" "node_at start_disk [''h'', ''tenants.json''] = None"
    by (simp_all add: start_disk_def resolve_def start_of_def node_at_def hm_get_def)
  have tp: "tenants_path start_env = join ''/h'' ''tenants.json''" by (simp add: tenants_path_def start_env_def)
  have tr: "resolve start_disk (join ''/h'' ''tenants.json'') = Inr [''h'', ''tenants.json'']"
    using resolve_join [OF home(1,2), of "''tenants.json''"] by (simp add: simple_name_def)
  then have none: "load start_json start_env start_disk = []"
    using home(3) by (simp add: load_def reload_def tp fs_exists_def)
  have par: "parent (join ''/h'' ''tenants.json'') = ''/h''" by (rule parent_join) (simp_all add: suffix_def)
  have "persist start_json start_env (set_domain_pubkey ''d'' ''aa'' []) start_disk = (Inr (), ?F1)"
    using create_dir_all_idem [OF home(1,2)] write_in_dir [OF home(1,2), of "''tenants.json''"] home(3)
    by (simp add: persist_def tp par start_json_def simple_name_def)
  then have add: "server_main start_json start_env (Inl []) (\<lambda>_. Inl []) unit_driver [''ygg'', ''admin'', ''add-tenant'', ''d'', ''aa''] start_disk =
      (TenantAdded ''d'', ?F1)" by (simp add: server_main_def add_tenant_cmd_def arg_def upsert_tenant_def none)
  have "node_at start_disk [''h'', ''ygg.crt''] = None" by (simp add: start_disk_def node_at_def hm_get_def)
  then have home1: "resolve ?F1 ''/h'' = Inr [''h'']" "node_at ?F1 [''h''] = Some Dir" "node_at ?F1 [''h'', ''ygg.crt''] = None"
    using resolve_kept [OF home(1)] dirs_kept_set_File [of start_disk "[''h'', ''tenants.json'']"] home by simp_all
  have c: "join ''/h'' ''ygg.crt'' = ''/h/ygg.crt''" by (simp add: join_def suffix_def)
  obtain F2 where cert: "persist_cert start_env [1] ?F1 = (Inr (), F2)"
    using create_dir_all_idem [OF home1(1,2)] write_in_dir [OF home1(1,2), of "''ygg.crt''" "[1]"] home1(3)
    by (simp add: persist_cert_def start_env_def simple_name_def c)
  obtain F3 where st: "server_state_start unit_driver start_env F2 = (server_state_new start_env None, F3)"
    by (cases "default_sqlite_url start_env F2") (simp add: server_state_start_def db_connect_def unit_driver_def start_env_def)
  have serve: "server_main start_json start_env (Inr [1]) (\<lambda>_. Inr ()) unit_driver [''ygg''] ?F1 =
      (Serving (V4 [0, 0, 0, 0] 5555) None (server_state_new start_env None) (load start_json start_env F3), F3)"
    using cert st by (simp add: server_main_def bind_arg_def arg_def default_addrs control_addr_def) (simp add: start_env_def)
  have law: "tenants_json_law start_json (set_domain_pubkey ''d'' ''aa'' (load start_json start_env start_disk))"
    unfolding none by (simp add: tenants_json_law_def start_json_def from_utf8_ascii)
  have "start_env ''NSMT_HOME'' = Some ''/h''" by (simp add: start_env_def)
  note served = provisioned_tenant_served [OF this home(1,2) law add serve, THEN conjunct1]
  show ?thesis by (intro exI conjI, rule add, rule serve, rule served)
qed

text \<open>
  The command lines of the documentation for knowledge bundles do not work.  The first argument
  must be a socket address for every command of the client: with \<open>okf\<close> there, as the
  documentation has it, the client stops with a usage error and touches nothing, while with a socket
  address before it, the keys permitting, the command is run.
\<close>

theorem okf_needs_address:
  "client_start C env hw host os arch rnd rnd' (prog # ''okf'' # rest) F = (BadAddress, F) \<and>
   (case client_start C env hw host os arch rnd rnd' (prog # fmt_v4 127 0 0 1 5555 # ''okf'' # rest) F of
      (plan, _) \<Rightarrow> plan = RunOkf \<or> (\<exists>e. plan = BadAgentTag e \<or> plan = KeyError e))"
proof -
  have "parse_socket_addr (fmt_v4 127 0 0 1 5555) = Some (V4 [127, 0, 0, 1] 5555)" by (rule parse_printed) simp_all
  then show ?thesis
    by (auto simp: client_start_def arg_def okf_no_address client_plan_of_def Let_def split: sum.splits prod.splits)
qed

text \<open>Without \<open>NSMT_HOME\<close> the client of the same user reads the certificate that the server wrote.\<close>

lemma cert_reaches_client:
  assumes "server_main J env cert endpoint V args F = (Serving b c st g, F')"
    and "env ''NSMT_HOME'' = None" and "env ''NSMT_SERVER_CERT'' = None"
  shows "\<exists>der. cert = Inr der \<and> connect_cert env F' = Inr der"
proof -
  obtain der G where d: "cert = Inr der" "persist_cert env der F = (Inr (), G)" "server_state_start V env G = (st, F')"
    using server_main_serving [OF assms(1)] by blast
  have "server_cert_path env = (case env ''HOME'' of Some h \<Rightarrow> h @ ''/.nsmt'' | None \<Rightarrow> ''.nsmt'') @ ''/ygg.crt''"
    using assms(3) by (simp add: server_cert_path_def split: option.split)
  then have "\<exists>F1. fs_write (server_cert_path env) der F1 = Inr G"
    using d(2) assms(2) by (auto simp: persist_cert_def Let_def split: sum.splits option.splits)
  then have g: "fs_read G (server_cert_path env) = Inr der" using fs_write_read by blast
  then have "fs_read F' (server_cert_path env) = Inr der"
  proof (cases "F' = G")
    case False
    then obtain p where p: "fs_create_dir_all p G = Inr F'" using server_state_start_disk [OF d(3)] by blast
    obtain cs where cs: "resolve G (server_cert_path env) = Inr cs" using g by (auto simp: fs_read_def and_then_eq_Inr)
    then have "node_at G cs = Some (File der)" using g by (cases "node_at G cs"; cases "the (node_at G cs)") (auto simp: fs_read_def)
    moreover have "resolve F' (server_cert_path env) = Inr cs" by (rule resolve_kept [OF cs create_dir_all_kept [OF p]])
    ultimately show ?thesis using create_dir_all_grows [OF p] by (simp add: fs_read_def)
  qed simp
  then show ?thesis using d(1) by (simp add: connect_cert_def)
qed

text \<open>With the address first, \<open>add-tenant\<close> is not recognised and the server starts instead.\<close>

lemma address_before_admin:
  "arg args 2 = Some ''admin'' \<Longrightarrow> fst (server_main J env cert endpoint V args F) \<noteq> TenantAdded d"
  by (auto simp: server_main_def split: option.splits sum.splits prod.splits)

end
