(* ===== verification/Client_Run.thy ===== *)
theory Client_Run
  imports Sync Start
begin

text \<open>
  The client from the connection to the end of its command, the second half of \<open>main\<close> in
  \<open>nsmt-client/src/main.rs\<close>: handshake, shared directory and note, then the mode that the command
  line asks for; and the reaction to the hints of the server that another machine asks for an object.

  The times of the calls of \<open>now_ms\<close> are a function of their number.  The loops of the modes run over
  the list of events that reach them.
\<close>

section \<open>Hole punching\<close>

text \<open>The hook that \<open>main\<close> registers: the address that it starts a hole punching task for.\<close>

definition peer_hint_hook :: "env \<Rightarrow> fs \<Rightarrow> string \<Rightarrow> string \<Rightarrow> string option" where
  "peer_hint_hook env F blob_id addr =
     (if fs_exists F (join (objects_dir env) blob_id) then Some addr else None)"

text \<open>\<open>PEER_HINT_HOOK\<close> is set once; \<open>None\<close> before.\<close>

definition maybe_peer_hint :: "serde \<Rightarrow> (string \<Rightarrow> string \<Rightarrow> string option) option \<Rightarrow> frame \<Rightarrow> string option" where
  "maybe_peer_hint S hook f =
     (if frame_type f \<noteq> PeerHint then None
      else (case payload_json (de_peer_hint S) f of
              Inl _ \<Rightarrow> None
            | Inr h \<Rightarrow> (case hook of None \<Rightarrow> None | Some k \<Rightarrow> k (phint_blob_id h) (phint_requester_addr h))))"

text \<open>\<open>dial\<close> stands for the QUIC connection and \<open>open_bi\<close>.\<close>

definition hole_punch :: "(socket_addr \<Rightarrow> client_error + 'q) \<Rightarrow> string \<Rightarrow> client_error + unit" where
  "hole_punch dial requester_addr =
     (case parse_socket_addr requester_addr of
        None \<Rightarrow> Inl (CBail ''bad hole punch addr'')
      | Some addr \<Rightarrow> (case dial addr of Inl e \<Rightarrow> Inl e | Inr _ \<Rightarrow> Inr ()))"

section \<open>The loop of the file mode\<close>

datatype fs_event = ShareChanged | PullTick u64 u64

fun fs_loop ::
  "'p transport \<Rightarrow> serde \<Rightarrow> crates \<Rightarrow> 'q surroundings \<Rightarrow> peer_ctx \<Rightarrow> string \<Rightarrow> fs_event list \<Rightarrow> file_tree \<times> u64 \<Rightarrow> ('p \<times> fs, file_tree \<times> u64) conv" where
  "fs_loop T S C su ctx fqn [] st = c_ret st"
| "fs_loop T S C su ctx fqn (ShareChanged # evs) st =
     c_bind (on_change T S C su fqn (fst st)) (\<lambda>t. fs_loop T S C su ctx fqn evs (t, snd st))"
| "fs_loop T S C su ctx fqn (PullTick now now' # evs) st =
     c_bind (on_tick T S C su ctx fqn now now' st) (\<lambda>st'. fs_loop T S C su ctx fqn evs st')"

definition fs_mode ::
  "'p transport \<Rightarrow> serde \<Rightarrow> crates \<Rightarrow> 'q surroundings \<Rightarrow> peer_ctx \<Rightarrow> string \<Rightarrow> u64 \<Rightarrow> fs_event list \<Rightarrow> ('p \<times> fs, file_tree \<times> u64) conv" where
  "fs_mode T S C su ctx fqn last_pull evs =
     c_bind (fs_start T S C su ctx fqn) (\<lambda>local_tree. fs_loop T S C su ctx fqn evs (local_tree, last_pull))"

section \<open>The command\<close>

definition fqn_of :: "client_identity \<Rightarrow> string" where
  "fqn_of me = ci_domain me @ ''/'' @ ci_machine me @ ''/'' @ ci_agent me"

definition peer_ctx_of :: "crates \<Rightarrow> client_identity \<Rightarrow> peer_ctx" where
  "peer_ctx_of C me = \<lparr>px_domain = ci_domain me, px_machine_id = ci_machine me, px_agent_tag = ci_agent me,
     px_machine_pubkey = public_hex C (ci_machine_key me), px_machine_key = ci_machine_key me, px_domain_key = ci_domain_key me\<rparr>"

datatype client_outcome =
    Captured capture_line "memory_error + unit"
  | Recalled string "memory_hit list"
  | SyncEnded
  | OnlineEnded

text \<open>A result that is only logged.\<close>

definition only_warn :: "('p, unit) conv \<Rightarrow> ('p, unit) conv" where
  "only_warn m p = map_option (\<lambda>(r, p'). (Inr (), p')) (m p)"

definition client_mode_run ::
  "'p transport \<Rightarrow> serde \<Rightarrow> crates \<Rightarrow> gateways \<Rightarrow> 'q surroundings \<Rightarrow> (nat \<Rightarrow> u64) \<Rightarrow> tencent_client \<Rightarrow> fs_event list \<Rightarrow> online_event list \<Rightarrow>
   client_identity \<Rightarrow> client_mode \<Rightarrow> ('p \<times> fs, client_outcome) conv" where
  "client_mode_run T S C G su now fallback fevs oevs me mode =
     (let fqn = fqn_of me in
      case mode of
        CaptureMode user assistant \<Rightarrow>
          c_bind (on_net (capture T S G (now 2) (now 3) fallback fqn user assistant)) (\<lambda>(l, r). c_ret (Captured l r))
      | RecallMode query \<Rightarrow> c_bind (on_net (recall T S G (now 2) fallback query)) (\<lambda>(src, hits). c_ret (Recalled src hits))
      | FsMode \<Rightarrow> c_bind (fs_mode T S C su (peer_ctx_of C me) fqn (now 2) fevs) (\<lambda>_. c_ret SyncEnded)
      | OnlineMode \<Rightarrow> c_bind (on_net (online_mode T S oevs)) (\<lambda>_. c_ret OnlineEnded))"

definition client_run ::
  "'p transport \<Rightarrow> serde \<Rightarrow> crates \<Rightarrow> gateways \<Rightarrow> 'q surroundings \<Rightarrow> (nat \<Rightarrow> u64) \<Rightarrow> tencent_client \<Rightarrow> fs_event list \<Rightarrow> online_event list \<Rightarrow>
   string \<Rightarrow> client_identity \<Rightarrow> client_mode \<Rightarrow> ('p \<times> fs, client_outcome) conv" where
  "client_run T S C G su now fallback fevs oevs peer_addr me mode =
     c_bind (on_net (client_handshake T S C (ci_domain me) (ci_agent me) (ci_machine me) peer_addr (ci_domain_key me) (ci_machine_key me))) (\<lambda>_.
     c_bind (on_disk (quietly (fs_create_dir_all (share_dir (su_env su))))) (\<lambda>_.
     c_bind (only_warn (write_share_dir_note T S G (su_env su) (now 0) (now 1) fallback (fqn_of me) (share_dir (su_env su)))) (\<lambda>_.
     client_mode_run T S C G su now fallback fevs oevs me mode)))"

section \<open>Properties\<close>

lemma exists_created:
  assumes "fs_exists F p" and "fs_create_dir_all d F = Inr F'"
  shows "fs_exists F' p"
proof -
  obtain cs where "resolve F p = Inr cs" "node_at F cs \<noteq> None" using assms(1) by (auto simp: fs_exists_def split: sum.splits)
  then have "resolve F' p = Inr cs" "node_at F' cs \<noteq> None"
    using resolve_kept [OF _ create_dir_all_kept [OF assms(2)]] create_dir_all_grows [OF assms(2)] by auto
  then show ?thesis by (simp add: fs_exists_def)
qed

lemma note_done: "fs_exists F (note_marker env) \<Longrightarrow> write_share_dir_note T S G env t t' fb fqn dir (p, F) = Some (Inr (), (p, F))"
  by (simp add: write_share_dir_note_def Let_def c_bind_def get_disk_def c_ret_def)

text \<open>
  C9: the recall command from the connection to its output.  A client that holds the keys of its
  domain and has written the note at an earlier start is admitted, creates its shared directory,
  and shows what the pool of the server has found, or else what its local gateway answers; the
  handshake leaves nothing unread that the recall could take for its answer.
\<close>

theorem recall_command:
  fixes w :: "('x, 'd) world" and clk :: clock and mid :: string and su :: "'q surroundings"
  assumes laws: "hex_law (cf_crates cf)" "ed25519_law (cf_crates cf)"
    and keys: "ci_domain_key me = from_signing (cf_crates cf) dsk" "ci_machine_key me = from_signing (cf_crates cf) msk"
    and ten: "hm_get (wd_tenants w) (ci_domain me) = Some t" "tr_domain_pubkey t = public_hex (cf_crates cf) (ci_domain_key me)"
      "hm_get (tr_machines t) (ci_machine me) \<in> {None, Some (public_hex (cf_crates cf) (ci_machine_key me))}"
    and adm: "admissible cf clk mid addr w (ci_domain me) (ci_domain_key me)
      (register_of (cf_crates cf) (ci_machine me) (ci_agent me) peer_addr (ci_machine_key me))"
    and disk: "fs_exists F (note_marker (su_env su))" "fs_create_dir_all (share_dir (su_env su)) F = Inr F'"
    and ans: "a = recall_answer cf (clk 1 - clk 0) (recall_msg (now 2) query) w"
      "understood (cf_serde cf) (MemoryRecall, MMemoryRecall (recall_msg (now 2) query))"
      "understood (cf_serde cf) (MemoryRecallResult, MMemoryRecallResult a)"
  shows "\<exists>s' w'. client_run (server_link cf clk mid) (cf_serde cf) (cf_crates cf) G su now fallback fevs oevs peer_addr me (RecallMode query)
      ((session_new addr, w, 0), F) =
    Some (if mrr_source a \<noteq> ''pool_unavailable'' \<and> mrr_memories a \<noteq> [] then Inr (Recalled ''pool'' (mrr_memories a))
          else map_sum CMemory (\<lambda>r. Recalled ''local'' (mrr_memories r)) (recall_local G fallback query ''rec-local''),
          ((s', w', length (se_out s')), F')) \<and>
    online_machine (ci_domain me) (ci_machine me) (st_registry (wd_state w')) \<noteq> None"
proof -
  let ?T = "server_link cf clk mid" and ?S = "cf_serde cf" and ?C = "cf_crates cf"
  from handshake_run [OF laws keys ten refl adm] obtain s1 w1 where
    h: "client_handshake ?T ?S ?C (ci_domain me) (ci_agent me) (ci_machine me) peer_addr (ci_domain_key me) (ci_machine_key me) (session_new addr, w, 0) =
      Some (Inr (), (s1, w1, length (se_out s1)))" and
    s1: "se_phase s1 = Ready" "se_open s1" "st_pool (wd_state w1) = st_pool (wd_state w)"
      "online_machine (ci_domain me) (ci_machine me) (st_registry (wd_state w1)) \<noteq> None" by blast
  have "a = recall_answer cf (clk 1 - clk 0) (recall_msg (now 2) query) w1" using ans(1) s1(3) by (simp add: recall_answer_def)
  from recall_run [OF s1(1,2) this ans(2,3), of mid G fallback] obtain s2 where
    r: "recall ?T ?S G (now 2) fallback query (s1, w1, length (se_out s1)) =
      Some (if mrr_source a \<noteq> ''pool_unavailable'' \<and> mrr_memories a \<noteq> [] then Inr (''pool'', mrr_memories a)
          else map_sum CMemory (\<lambda>r. (''local'', mrr_memories r)) (recall_local G fallback query ''rec-local''), (s2, w1, length (se_out s2)))" by blast
  have n: "write_share_dir_note ?T ?S G (su_env su) t0 t1 fallback (fqn_of me) (share_dir (su_env su)) (p, F') = Some (Inr (), (p, F'))" for p t0 t1
    by (rule note_done [OF exists_created [OF disk]])
  have "client_run ?T ?S ?C G su now fallback fevs oevs peer_addr me (RecallMode query) ((session_new addr, w, 0), F) =
      c_bind (on_net (recall ?T ?S G (now 2) fallback query)) (\<lambda>(src, hits). c_ret (Recalled src hits)) ((s1, w1, length (se_out s1)), F')"
    by (simp add: client_run_def client_mode_run_def Let_def c_bind_def [of "on_net (client_handshake _ _ _ _ _ _ _ _ _)"]
        c_bind_def [of "on_disk _"] c_bind_def [of "only_warn _"] on_net_def [of "client_handshake _ _ _ _ _ _ _ _ _"] on_disk_def quietly_def
        only_warn_def h n disk(2))
  then show ?thesis
    using r s1(4) by (cases "recall_local G fallback query ''rec-local''") (auto simp: c_bind_def on_net_def c_ret_def)
qed

text \<open>The second start of a client of the sample installation.\<close>

definition run_serde :: serde where
  "run_serde = door_serde\<lparr>de_memory_recall := (\<lambda>_. Some (recall_msg 7 ''q'')),
     de_memory_recall_result := (\<lambda>_. Some (recall_answer sample_config 0 (recall_msg 7 ''q'') sample_world))\<rparr>"

definition run_me :: client_identity where
  "run_me = \<lparr>ci_domain = ''d'', ci_agent = ''t'', ci_machine = ''m'', ci_domain_key = from_signing sample_crates [3],
     ci_machine_key = from_signing sample_crates [5]\<rparr>"

definition run_su :: "script surroundings" where
  "run_su = pair_su\<lparr>su_env := [''NSMT_SHARE_DIR'' \<mapsto> ''/s'', ''NSMT_HOME'' \<mapsto> ''/h'']\<rparr>"

definition run_disk :: fs where
  "run_disk = \<lparr>cwd = [], nodes = [([''s''], Dir), ([''h''], Dir), ([''h'', ''share.path''], File (as_bytes ''/s''))]\<rparr>"

theorem recall_command_witness:
  "\<exists>s' w'. client_run (server_link (sample_config\<lparr>cf_serde := run_serde\<rparr>) (\<lambda>_. 0) ''id'') run_serde sample_crates local_gateway run_su
      (\<lambda>_. 7) (tencent_new ''a'') [] [] ''p'' run_me (RecallMode ''q'') ((session_new ''a'', sample_world, 0), run_disk) =
    Some (Inr (Recalled ''local'' [\<lparr>mh_content = ''cafe'', mh_fqn = ''local'', mh_score = 0, mh_scope = ''machine''\<rparr>]),
      ((s', w', length (se_out s')), run_disk))"
proof -
  let ?cf = "sample_config\<lparr>cf_serde := run_serde\<rparr>" and ?C = sample_crates and ?m = "recall_msg 7 ''q''"
  have cf: "cf_serde ?cf = run_serde" "cf_crates ?cf = ?C" by (simp_all add: sample_config_def)
  have sd: "sendable run_serde t m" for t m
  proof -
    have "from_json run_serde t 0 m = Inr (frame_new t 0 [])" by (simp add: run_serde_def door_serde_def frame_new_def)
    then show ?thesis by (simp add: sendable_def encode_def frame_new_def del: from_json_payload)
  qed
  let ?t = "tenant_record_default\<lparr>tr_domain_pubkey := public_hex ?C (from_signing ?C [3])\<rparr>"
  have t: "hm_get (wd_tenants sample_world) (ci_domain run_me) = Some ?t" "tr_domain_pubkey ?t = public_hex ?C (ci_domain_key run_me)"
    "hm_get (tr_machines ?t) (ci_machine run_me) \<in> {None, Some (public_hex ?C (ci_machine_key run_me))}"
    by (simp_all add: sample_world_def set_domain_pubkey_def generate_def hm.get_empty tenant_record_default_def run_me_def)
  have k: "ci_domain_key run_me = from_signing ?C [3]" "ci_machine_key run_me = from_signing ?C [5]" by (simp_all add: run_me_def)
  have dr: "register_of ?C (ci_machine run_me) (ci_agent run_me) ''p'' (ci_machine_key run_me) = door_register"
    by (simp add: run_me_def door_register_def)
  have adm: "admissible ?cf (\<lambda>_. 0) ''id'' ''a'' sample_world (ci_domain run_me) (ci_domain_key run_me)
      (register_of ?C (ci_machine run_me) (ci_agent run_me) ''p'' (ci_machine_key run_me))"
    unfolding admissible_def cf dr using sd
    by (simp add: understood_def run_me_def) (simp add: serde_roundtrip_def run_serde_def door_serde_def register_reply_def)
  have f: "fs_exists run_disk (note_marker (su_env run_su))" "fs_create_dir_all (share_dir (su_env run_su)) run_disk = Inr run_disk"
    by (simp add: note_marker_def run_su_def run_disk_def fs_exists_def join_def suffix_to_prefix resolve_def start_of_def node_at_def hm_get_def)
      (rule create_dir_all_idem [of _ _ "[''s'']"]; simp add: share_dir_def run_su_def run_disk_def resolve_def start_of_def node_at_def hm_get_def)
  let ?a = "recall_answer ?cf ((\<lambda>_. 0) 1 - (\<lambda>_. 0) (0 :: nat)) ?m sample_world"
  have a: "?a = recall_answer sample_config 0 ?m sample_world" by (simp add: recall_answer_def)
  have u: "understood run_serde (MemoryRecall, MMemoryRecall ?m)" "understood run_serde (MemoryRecallResult, MMemoryRecallResult ?a)"
    unfolding a using sd by (simp_all add: understood_def) (simp_all add: serde_roundtrip_def run_serde_def door_serde_def)
  have p: "mrr_source ?a = ''pool_unavailable''"
    unfolding a by (rule sample_pool_unavailable)
  from recall_command [where cf = ?cf and clk = "\<lambda>_. 0" and mid = "''id''" and addr = "''a''" and me = run_me and su = run_su and G = local_gateway and
      fallback = "tencent_new ''a''" and now = "\<lambda>_. 7" and fevs = "[]" and oevs = "[]" and peer_addr = "''p''" and F = run_disk, unfolded cf,
      OF sample_crates_laws(1,2) k t adm f refl u] p sample_local_recall
  show ?thesis by auto
qed

section \<open>Ticks without news\<close>

lemma diff_same:
  assumes "distinct_paths (ft_entries t)"
  shows "diff (Some t) (Some t) = ([], [])"
proof -
  obtain c r where d: "diff (Some t) (Some t) = (c, r)" by fastforce
  from diff_sets [OF assms assms d] have "set c = {}" "set r = {}" using tree_map_of_entry [OF assms] by auto
  with d show ?thesis by simp
qed

lemma quiet_tick:
  assumes "se_phase s = Ready" and "se_open s" and "tick_answered cf s w (ft_tree_hash loc) t t" and "distinct_paths (ft_entries t)"
  shows "\<exists>out lp'. on_tick (server_link cf clk mid) (cf_serde cf) C su ctx fqn now now' (loc, lp) ((s, w, length (se_out s)), F) =
    Some (Inr (loc, lp'), ((s\<lparr>se_out := out\<rparr>, w, length out), F))"
proof (cases "now - lp > 5000")
  case True
  from tick_request [where clk = clk and mid = mid, OF assms(1-3)] obtain out where
    "request_diff (server_link cf clk mid) (cf_serde cf) (ft_tree_hash loc) (s, w, length (se_out s)) =
      Some (Inr \<lparr>fdr_changed = [], fdr_removed = [], fdr_tree = Some t\<rparr>, (s\<lparr>se_out := out\<rparr>, w, length out))"
    by (auto simp: diff_answer_def diff_same [OF assms(4)])
  with True show ?thesis by (intro exI [of _ out] exI [of _ now']) (simp add: on_tick_def on_net_def c_bind_def c_ret_def)
next
  case False
  then show ?thesis by (intro exI [of _ "se_out s"] exI [of _ lp]) (simp add: on_tick_def c_ret_def)
qed

text \<open>
  C17: a client that agrees with the server leaves its disk alone.  As long as the latest tree of the
  server has the hash of the client's tree, any number of ticks of the loop of \<open>fs_mode\<close>, at any times,
  comes to an end without touching a file, and the client keeps its tree.
\<close>

theorem settled_client_quiet:
  fixes w :: "('x, 'd) world" and clk :: clock and mid :: string and su :: "'q surroundings"
  assumes "se_phase s = Ready" and "se_open s" and "tick_answered cf s w (ft_tree_hash loc) t t" and "distinct_paths (ft_entries t)"
    and "set evs \<subseteq> range (\<lambda>(now, now'). PullTick now now')"
  shows "\<exists>s' lp'. fs_loop (server_link cf clk mid) (cf_serde cf) (cf_crates cf) su ctx fqn evs (loc, lp) ((s, w, length (se_out s)), F) =
    Some (Inr (loc, lp'), ((s', w, length (se_out s')), F))"
  using assms
proof (induction evs arbitrary: s lp)
  case Nil
  then show ?case by (auto simp: c_ret_def)
next
  case (Cons ev evs)
  then obtain now now' where ev: "ev = PullTick now now'" by auto
  from quiet_tick [where clk = clk and mid = mid and C = "cf_crates cf" and su = su and ctx = ctx and fqn = fqn and now = now and now' = now'
      and lp = lp and F = F, OF Cons.prems(1-4)]
  obtain out lp' where t: "on_tick (server_link cf clk mid) (cf_serde cf) (cf_crates cf) su ctx fqn now now' (loc, lp)
      ((s, w, length (se_out s)), F) = Some (Inr (loc, lp'), ((s\<lparr>se_out := out\<rparr>, w, length out), F))" by blast
  have "tick_answered cf (s\<lparr>se_out := out\<rparr>) w (ft_tree_hash loc) t t" using Cons.prems(3) by (simp add: tick_answered_def)
  with Cons.IH [of "s\<lparr>se_out := out\<rparr>" lp'] Cons.prems(1,2,4,5) obtain s' lp'' where
    "fs_loop (server_link cf clk mid) (cf_serde cf) (cf_crates cf) su ctx fqn evs (loc, lp') ((s\<lparr>se_out := out\<rparr>, w, length out), F) =
      Some (Inr (loc, lp''), ((s', w, length (se_out s')), F))" by auto
  then show ?case using t by (auto simp: ev c_bind_def)
qed

theorem settled_client_quiet_witness:
  "\<exists>s' lp'. fs_loop (server_link (pair_config [] []) (\<lambda>_. 0) ''id'') (pair_serde [] []) sample_crates pair_su (sample_peer ''m'') ''d/m/t''
      [PullTick 6000 6000, PullTick 12000 12001] (pair_tree [], 0)
      ((sample_session, upd_disk (snd (save_tree pair_json sample_fs (pair_tree []) (disk (wd_storage pair_world)))) pair_world, 0), pair_disk []) =
    Some (Inr (pair_tree [], lp'), ((s', upd_disk (snd (save_tree pair_json sample_fs (pair_tree []) (disk (wd_storage pair_world)))) pair_world,
      length (se_out s')), pair_disk []))"
proof -
  obtain D where D: "save_tree pair_json sample_fs (pair_tree []) (disk (wd_storage pair_world)) = (Inr (), D)"
    using pair_server_save [OF pair_world_server] by blast
  have "latest_tree pair_json sample_fs D = Some (pair_tree []) \<and> get_tree pair_json sample_fs (tree_hash sample_crates (pair_tree [])) D = Some (pair_tree [])"
    using saved_tree [OF pair_json_law D] tree_hash_name(1) [OF sample_crates_laws(1)] by simp
  then have a: "tick_answered (pair_config [] []) sample_session (upd_disk D pair_world) (ft_tree_hash (pair_tree [])) (pair_tree []) (pair_tree [])"
    using pair_understood(2,3) [of "[]" "[]"] by (simp add: tick_answered_def pair_fs upd_disk_def)
  have o: "se_out sample_session = []" "se_open sample_session" by (simp_all add: sample_session_simps)
  from settled_client_quiet [where evs = "[PullTick 6000 6000, PullTick 12000 12001]" and clk = "\<lambda>_. 0" and mid = "''id''" and su = pair_su and
      ctx = "sample_peer ''m''" and fqn = "''d/m/t''" and lp = 0 and F = "pair_disk []", OF pair_fs(2) o(2) a] o D
  show ?thesis by (simp add: image_iff)
qed

section \<open>Hints\<close>

text \<open>A hint of the server makes the machines that hold the object dial the address the server has seen the requester at.\<close>

lemma hint_dials:
  assumes "understood S (PeerHint, MPeerHint \<lparr>phint_blob_id = b, phint_requester_addr = addr\<rparr>)"
  shows "maybe_peer_hint S (Some (peer_hint_hook env F)) (sent S PeerHint (MPeerHint \<lparr>phint_blob_id = b, phint_requester_addr = addr\<rparr>)) =
    (if fs_exists F (join (objects_dir env) b) then Some addr else None)"
proof -
  have "de_peer_hint S (payload (sent S PeerHint (MPeerHint \<lparr>phint_blob_id = b, phint_requester_addr = addr\<rparr>))) =
      Some \<lparr>phint_blob_id = b, phint_requester_addr = addr\<rparr>"
    using understoodD(2,3) [OF assms] by (auto simp: serde_roundtrip_def)
  then show ?thesis using sent_json(3) [OF assms] by (simp add: maybe_peer_hint_def peer_hint_hook_def payload_json_def)
qed

end
