(* ===== verification/Paths.thy ===== *)
theory Paths
  imports Dir_Scan
begin

text \<open>
  \<open>Path::parent\<close> for any path, and the creation of directories below a directory that exists.
\<close>

text \<open>Separators and dots at the end of a path do not count.\<close>

function tidy_end :: "path \<Rightarrow> path" where
  "tidy_end p =
     (if suffix ''/'' p \<and> p \<noteq> ''/'' then tidy_end (butlast p)
      else if suffix ''/.'' p \<and> p \<noteq> ''/.'' then tidy_end (butlast (butlast p)) else p)"
  by pat_completeness auto
termination
  by (relation "measure length") (auto simp: suffix_def)

declare tidy_end.simps [simp del]

definition path_parent :: "path \<Rightarrow> path" where
  "path_parent p = parent (tidy_end p)"

section \<open>Creating directories\<close>

lemma mkdirs_append:
  "walk F cur cs = Inr ds \<Longrightarrow> node_at F ds = Some Dir \<Longrightarrow> mkdirs cur (cs @ es) F = mkdirs ds es F"
  by (induction F cur cs rule: walk.induct) (auto split: option.splits node.splits if_splits)

lemma create_in_dir:
  assumes "resolve F p = Inr ds" and "node_at F ds = Some Dir" and "simple_name n" and "\<not> suffix ''/'' p"
    and "node_at F (ds @ [n]) \<in> {None, Some Dir}"
  shows "fs_create_dir_all (join p n) F = Inr (ensure_dir (ds @ [n]) F)"
proof -
  from assms(1) have p: "p \<noteq> []" "CHR 0x00 \<notin> set p"
    and w: "walk F (start_of F p) (split_char CHR ''/'' p) = Inr ds"
    by (auto simp: resolve_def split: if_splits)
  from assms(3) have n: "n \<noteq> []" "n \<noteq> ''.''" "n \<noteq> ''..''" "CHR ''/'' \<notin> set n" "CHR 0x00 \<notin> set n"
    "\<not> prefix ''/'' n" by (auto simp: simple_name_def prefix_def)
  have j: "join p n = p @ CHR ''/'' # n" using p n assms(4) by (simp add: join_def)
  have "start_of F (join p n) = start_of F p" unfolding j using p by (cases p) (auto simp: start_of_def)
  moreover have "mkdirs (start_of F p) (split_char CHR ''/'' (join p n)) F = mkdirs ds [n] F"
    using mkdirs_append [OF w assms(2)] n by (simp add: j split_char_append split_char_none del: mkdirs.simps)
  moreover have "mkdirs ds [n] F = Inr (ensure_dir (ds @ [n]) F)" using assms(2,5) n by (auto simp: ensure_dir_def)
  ultimately show ?thesis using p n by (simp add: fs_create_dir_all_def j)
qed

lemma tidy_end_join: "simple_name n \<Longrightarrow> tidy_end (join p n) = join p n"
proof -
  assume n: "simple_name n"
  obtain m c where m: "n = m @ [c]" "c \<noteq> CHR ''/''" using n by (cases n rule: rev_cases) (auto simp: simple_name_def)
  have "\<not> suffix ''/'' (join p n)" using m by (auto simp: join_def suffix_def)
  moreover have "\<not> suffix ''/.'' (join p n)"
    using n m by (cases m rule: rev_cases) (auto simp: join_def suffix_def simple_name_def)
  ultimately show ?thesis by (subst tidy_end.simps) simp
qed

lemma path_parent_join:
  "d \<noteq> [] \<Longrightarrow> \<not> suffix ''/'' d \<Longrightarrow> simple_name n \<Longrightarrow> path_parent (join d n) = d"
  by (simp add: path_parent_def tidy_end_join parent_join simple_name_def)

end
