(* ===== verification/Confinement.thy ===== *)
theory Confinement
  imports Handshake Paths
begin

text \<open>
  Where on its disk the server writes for a connection: with the local object store, which is the
  default, and object ids that are file names, only below the directory of the tenant the
  connection works for.
\<close>

section \<open>Changes below a directory\<close>

definition own_change :: "string list \<Rightarrow> fs \<Rightarrow> fs \<Rightarrow> bool" where
  "own_change d F F' \<longleftrightarrow> dirs_kept F F' \<and> (\<forall>q. \<not> prefix d q \<longrightarrow> node_at F' q = node_at F q)"

lemma own_change_refl [simp, intro]: "own_change d F F"
  by (simp add: own_change_def)

lemma own_change_trans: "own_change d F G \<Longrightarrow> own_change d G H \<Longrightarrow> own_change d F H"
  unfolding own_change_def using dirs_kept_trans by metis

lemma own_change_write:
  assumes "fs_write p bs F = Inr F'" and "\<And>q. resolve F p = Inr q \<Longrightarrow> prefix d q"
  shows "own_change d F F'"
proof -
  from fs_write_InrD [OF assms(1)] obtain q where q: "resolve F p = Inr q" "node_at F q \<noteq> Some Dir" "F' = set_node q (File bs) F" by blast
  then have "q \<noteq> []" by auto
  then show ?thesis using q dirs_kept_set_File [OF q(2)] assms(2) by (auto simp: own_change_def)
qed

lemma own_change_write_at:
  assumes "fs_write_at p off bs F = Inr F'" and "\<And>q. resolve F p = Inr q \<Longrightarrow> prefix d q"
  shows "own_change d F F'"
proof -
  obtain q where q: "resolve F p = Inr q" using assms(1) by (cases "resolve F p") (simp_all add: fs_write_at_def)
  have "\<exists>b. node_at F q \<noteq> Some Dir \<and> F' = set_node q (File b) F"
    using assms(1) by (auto simp: fs_write_at_def q and_then_eq_Inr split: option.splits node.splits)
  then obtain b where b: "node_at F q \<noteq> Some Dir" "F' = set_node q (File b) F" by blast
  then have "q \<noteq> []" by auto
  then show ?thesis using q b dirs_kept_set_File [OF b(1)] assms(2) by (auto simp: own_change_def)
qed

lemma own_change_remove:
  assumes "fs_remove_file p F = Inr F'" and "\<And>q. resolve F p = Inr q \<Longrightarrow> prefix d q"
  shows "own_change d F F'"
proof -
  from fs_remove_file_InrD [OF assms(1)] obtain q b where q: "resolve F p = Inr q" "node_at F q = Some (File b)"
    "F' = F\<lparr>nodes := hm_remove q (nodes F)\<rparr>" by blast
  then have "q \<noteq> []" by auto
  then show ?thesis using q dirs_kept_remove_File [of F q] assms(2) by (auto simp: own_change_def)
qed

section \<open>Joined names\<close>

definition open_path :: "path \<Rightarrow> bool" where
  "open_path p \<longleftrightarrow> p \<noteq> [] \<and> \<not> suffix ''/'' p"

lemma join_open: "open_path p \<Longrightarrow> simple_name n \<Longrightarrow> join p n = p @ CHR ''/'' # n"
  by (auto simp: open_path_def simple_name_def join_def prefix_def)

lemma open_path_join: "simple_name n \<Longrightarrow> open_path (join p n)"
  by (cases n rule: rev_cases) (auto simp: open_path_def join_def simple_name_def suffix_def prefix_def)

lemma resolve_joinD:
  assumes "resolve F (join p n) = Inr q" and "open_path p" and "simple_name n"
  shows "\<exists>ds. resolve F p = Inr ds \<and> q = ds @ [n]"
proof -
  have n: "CHR ''/'' \<notin> set n" "n \<noteq> []" "n \<noteq> ''.''" "n \<noteq> ''..''" and p: "p \<noteq> []" using assms(2,3) by (auto simp: simple_name_def open_path_def)
  have "start_of F (p @ CHR ''/'' # n) = start_of F p" using p by (cases p) (simp_all add: start_of_def)
  with assms(1) p obtain ds where "resolve F p = Inr ds" "walk F ds [n] = Inr q"
    by (auto simp: join_open [OF assms(2,3)] resolve_def split_char_append split_char_none [OF n(1)] walk_append and_then_eq_Inr
        simp del: walk.simps split: if_splits)
  then show ?thesis using n by (auto split: option.splits node.splits)
qed

lemma mkdirs_below:
  assumes "mkdirs cur xs F = Inr F'" and "\<forall>x \<in> set xs. simple_name x" and "\<not> prefix cur q"
  shows "node_at F' q = node_at F q"
  using assms
proof (induction xs arbitrary: cur F)
  case Nil
  then show ?case by (auto simp: mkdirs_Nil node_at_ensure_dir simp del: mkdirs.simps)
next
  case (Cons c cs)
  then have "step_to cur c = cur @ [c]" by (auto simp: step_to_def simple_name_def)
  with Cons.prems(1) have m: "mkdirs (cur @ [c]) cs (ensure_dir cur F) = Inr F'" by (simp add: mkdirs_Cons del: mkdirs.simps)
  have "\<not> prefix (cur @ [c]) q" using Cons.prems(3) append_prefixD by blast
  with Cons.IH [OF m] Cons.prems(2,3) show ?case by (auto simp: node_at_ensure_dir)
qed

lemma own_change_create:
  assumes "fs_create_dir_all (join (join p n) m) F = Inr F'" and "open_path p" and "simple_name n" and "simple_name m"
    and "resolve F p = Inr cs" and "node_at F cs = Some Dir"
  shows "own_change (cs @ [n]) F F'"
proof -
  have s: "CHR ''/'' \<notin> set n" "CHR ''/'' \<notin> set m" "step_to cs n = cs @ [n]" using assms(3,4) by (auto simp: simple_name_def step_to_def)
  have j: "join (join p n) m = p @ CHR ''/'' # n @ CHR ''/'' # m"
    using join_open [OF open_path_join [OF assms(3), of p] assms(4)] join_open [OF assms(2,3)] by simp
  have w: "walk F (start_of F p) (split_char CHR ''/'' p) = Inr cs" using assms(5) by (simp add: resolve_def split: if_splits)
  have "start_of F (join (join p n) m) = start_of F p" unfolding j using assms(2) by (cases p) (simp_all add: start_of_def open_path_def)
  then have "mkdirs cs [n, m] F = Inr F'"
    using assms(1) mkdirs_append [OF w assms(6)]
    by (simp add: fs_create_dir_all_def j split_char_append split_char_none s(1,2) split: if_splits del: mkdirs.simps)
  then have "mkdirs (cs @ [n]) [m] F = Inr F'" using assms(6) by (simp add: mkdirs_Cons s(3) ensure_dir_def del: mkdirs.simps)
  with mkdirs_below assms(4) create_dir_all_kept [OF assms(1)] show ?thesis by (simp add: own_change_def del: mkdirs.simps)
qed


section \<open>The directory of a tenant\<close>

lemma sanitize_plain:
  assumes "sanitize d \<noteq> []"
  shows "simple_name (sanitize d)"
proof -
  have "\<not> is_ascii_alphanumeric CHR ''.''" "\<not> is_ascii_alphanumeric CHR ''/''" "\<not> is_ascii_alphanumeric CHR 0x00"
    by (simp_all add: is_ascii_alphanumeric_def is_ascii_lowercase_def is_ascii_uppercase_def is_ascii_digit_def)
  then have "sanitize_char c \<noteq> CHR ''.''" "sanitize_char c \<noteq> CHR ''/''" "sanitize_char c \<noteq> CHR 0x00" for c
    by (auto simp: sanitize_char_def)
  then have "x \<noteq> CHR ''.'' \<and> x \<noteq> CHR ''/'' \<and> x \<noteq> CHR 0x00" if "x \<in> set (sanitize d)" for x
    using that by (auto simp: sanitize_def map_chars_def)
  then show ?thesis using assms by (cases "sanitize d") (auto simp: simple_name_def)
qed

text \<open>The directory \<open>cs\<close> holds the directories of the tenants.\<close>

definition server_dir :: "env \<Rightarrow> path" where
  "server_dir env = join (nsmt_home env) ''server''"

definition server_at :: "env \<Rightarrow> string list \<Rightarrow> fs \<Rightarrow> bool" where
  "server_at env cs F \<longleftrightarrow> resolve F (server_dir env) = Inr cs \<and> node_at F cs = Some Dir"

lemma server_at_kept: "server_at env cs F \<Longrightarrow> own_change d F F' \<Longrightarrow> server_at env cs F'"
  using resolve_kept [of F "server_dir env" cs F'] unfolding server_at_def own_change_def dirs_kept_def by metis

lemma open_server_dir: "open_path (server_dir env)"
  unfolding server_dir_def by (rule open_path_join) (simp add: simple_name_def)

lemma file_of_tenant:
  assumes "server_at env cs F" and "simple_name n" and "simple_name m" and "simple_name k"
    and "resolve F (join (join (join (server_dir env) n) m) k) = Inr q"
  shows "prefix (cs @ [n]) q"
proof -
  from resolve_joinD [OF assms(5) open_path_join [OF assms(3)] assms(4)] obtain a where
    a: "resolve F (join (join (server_dir env) n) m) = Inr a" "q = a @ [k]" by blast
  from resolve_joinD [OF a(1) open_path_join [OF assms(2)] assms(3)] obtain b where
    b: "resolve F (join (server_dir env) n) = Inr b" "a = b @ [m]" by blast
  from resolve_joinD [OF b(1) open_server_dir assms(2)] assms(1) have "b = cs @ [n]" by (auto simp: server_at_def)
  then show ?thesis using a b by simp
qed

lemma dir_of_tenant:
  assumes "server_at env cs F" and "simple_name n" and "simple_name m"
    and "fs_create_dir_all (join (join (server_dir env) n) m) F = Inr F'"
  shows "own_change (cs @ [n]) F F'"
  using own_change_create [OF assms(4) open_server_dir assms(2,3)] assms(1) by (simp add: server_at_def)

text \<open>A session with the local store in the directory of its tenant, and an upload under a plain name.\<close>

definition tenant_root :: "env \<Rightarrow> string \<Rightarrow> path" where
  "tenant_root env d = join (server_dir env) (sanitize d)"

definition own_store :: "env \<Rightarrow> string \<Rightarrow> store" where
  "own_store env d = LocalObjectStore (join (tenant_root env d) ''objects'')"

definition own_fs :: "env \<Rightarrow> string \<Rightarrow> server_fs" where
  "own_fs env d = \<lparr>sf_root = tenant_root env d, sf_objects = own_store env d\<rparr>"

definition plain_upload :: "env \<Rightarrow> string \<Rightarrow> pending_upload \<Rightarrow> bool" where
  "plain_upload env d pu \<longleftrightarrow> simple_name (pu_blob_id pu) \<and> pu_temp_path pu = temp_path_for (own_fs env d) (pu_blob_id pu)"

lemma plain_dirs: "simple_name ''objects''" "simple_name ''tmp''" "simple_name ''trees''" "simple_name ''latest.json''"
  by (simp_all add: simple_name_def)

lemma part_name: "simple_name n \<Longrightarrow> simple_name (n @ ''.part'')"
  by (auto simp: simple_name_def append_eq_Cons_conv)

lemma temp_path_parts:
  "temp_path_for (own_fs env d) b = join (join (join (server_dir env) (sanitize d)) ''tmp'') (b @ ''.part'')"
  by (simp add: temp_path_for_def own_fs_def tenant_root_def)

lemma temp_path_parent: "simple_name b \<Longrightarrow> parent (temp_path_for (own_fs env d) b) = join (join (server_dir env) (sanitize d)) ''tmp''"
  unfolding temp_path_parts using open_path_join [OF plain_dirs(2), of "join (server_dir env) (sanitize d)"] part_name [of b]
  by (intro parent_join) (simp_all add: open_path_def simple_name_def)

section \<open>Writes of the handlers\<close>

lemma handle_chunk_plain: "handle_chunk cf ud pu pl F = (Inr pu', F') \<Longrightarrow> plain_upload env d pu \<Longrightarrow> plain_upload env d pu'"
  by (auto simp: handle_chunk_def Let_def plain_upload_def split: if_splits sum.splits)

lemma handle_chunk_own:
  assumes "server_at (cf_env cf) cs F" and "sanitize d \<noteq> []" and "plain_upload (cf_env cf) d pu"
    and "handle_chunk cf ud pu pl F = (r, F')"
  shows "own_change (cs @ [sanitize d]) F F'"
proof -
  note n = sanitize_plain [OF assms(2)] and pu = assms(3) [unfolded plain_upload_def]
  have par: "parent (pu_temp_path pu) = join (join (server_dir (cf_env cf)) (sanitize d)) ''tmp''" using pu temp_path_parent by simp
  have mk: "own_change (cs @ [sanitize d]) F F1" if "fs_create_dir_all (parent (pu_temp_path pu)) F = Inr F1" for F1
    using that unfolding par by (rule dir_of_tenant [OF assms(1) n plain_dirs(2)])
  have wr: "own_change (cs @ [sanitize d]) F F2" if "fs_create_dir_all (parent (pu_temp_path pu)) F = Inr F1"
    "fs_write_at (pu_temp_path pu) k b F1 = Inr F2" for F1 F2 k b
  proof -
    have "prefix (cs @ [sanitize d]) q" if "resolve F1 (pu_temp_path pu) = Inr q" for q
      using file_of_tenant [OF server_at_kept [OF assms(1) mk [OF \<open>fs_create_dir_all _ F = Inr F1\<close>]] n plain_dirs(2) part_name] that pu
      unfolding temp_path_parts by metis
    with own_change_write_at [OF that(2)] have "own_change (cs @ [sanitize d]) F1 F2" by blast
    with mk [OF that(1)] show ?thesis by (rule own_change_trans)
  qed
  show ?thesis
    using assms(4) mk wr by (auto simp: handle_chunk_def Let_def split: if_splits sum.splits)
qed

lemma local_put_own:
  assumes "server_at env cs F" and "sanitize d \<noteq> []" and "simple_name b"
    and "local_put (join (tenant_root env d) ''objects'') b bs F = Inr F'"
  shows "own_change (cs @ [sanitize d]) F F'"
proof -
  note n = sanitize_plain [OF assms(2)]
  from assms(4) obtain F1 where 1: "fs_create_dir_all (join (join (server_dir env) (sanitize d)) ''objects'') F = Inr F1" and
    2: "F' = F1 \<or> fs_write (join (join (join (server_dir env) (sanitize d)) ''objects'') b) bs F1 = Inr F'"
    by (auto simp: local_put_def and_then_eq_Inr tenant_root_def Let_def split: if_splits)
  note mk = dir_of_tenant [OF assms(1) n plain_dirs(1) 1]
  have "own_change (cs @ [sanitize d]) F1 F'"
    using 2 own_change_write [OF _ file_of_tenant [OF server_at_kept [OF assms(1) mk] n plain_dirs(1) assms(3)]] by blast
  with mk show ?thesis by (rule own_change_trans)
qed

lemma remove_temp_own:
  assumes "server_at env cs F" and "sanitize d \<noteq> []" and "simple_name b"
  shows "own_change (cs @ [sanitize d]) F (case fs_remove_file (temp_path_for (own_fs env d) b) F of Inl _ \<Rightarrow> F | Inr F' \<Rightarrow> F')"
  using own_change_remove [OF _ file_of_tenant [OF assms(1) sanitize_plain [OF assms(2)] plain_dirs(2) part_name [OF assms(3)]]]
  by (auto simp: temp_path_parts split: sum.split)

lemma save_tree_own:
  assumes "server_at env cs F" and "sanitize d \<noteq> []" and "hex_law C" and "ft_tree_hash t = tree_hash C t'"
    and "save_tree J (own_fs env d) t F = (r, F')"
  shows "own_change (cs @ [sanitize d]) F F'"
proof -
  note n = sanitize_plain [OF assms(2)]
  let ?T = "join (join (server_dir env) (sanitize d)) ''trees''"
  have paths: "trees_dir (own_fs env d) = ?T" "tree_file (own_fs env d) (ft_tree_hash t) = join ?T (ft_tree_hash t @ ''.json'')"
    "latest_path (own_fs env d) = join ?T ''latest.json''"
    by (simp_all add: trees_dir_def tree_file_def latest_path_def own_fs_def tenant_root_def)
  have h: "simple_name (ft_tree_hash t @ ''.json'')" using tree_hash_name(1) [OF assms(3)] assms(4) by simp
  have mk: "own_change (cs @ [sanitize d]) F F1" if "fs_create_dir_all ?T F = Inr F1" for F1
    using dir_of_tenant [OF assms(1) n plain_dirs(3) that] .
  have wr: "own_change (cs @ [sanitize d]) F G'" if "own_change (cs @ [sanitize d]) F G" "fs_write (join ?T k) b G = Inr G'" "simple_name k" for G G' k b
    using own_change_trans [OF that(1) own_change_write [OF that(2) file_of_tenant [OF server_at_kept [OF assms(1) that(1)] n plain_dirs(3) that(3)]]] .
  show ?thesis
    using assms(5) mk wr [OF mk _ h] wr [OF wr [OF mk _ h] _ plain_dirs(4)]
    by (auto simp: save_tree_def paths split: sum.splits option.splits)
qed


text \<open>Handlers that leave the disk, the stores and the upload alone.\<close>

definition quiet :: "session \<Rightarrow> ('x, 'd) world \<Rightarrow> session \<times> ('x, 'd) world \<Rightarrow> bool" where
  "quiet s w r \<longleftrightarrow> wd_storage (snd r) = wd_storage w \<and> st_object_stores (wd_state (snd r)) = st_object_stores (wd_state w) \<and>
     se_pending (fst r) = se_pending s"

lemma sess_send_pending: "sess_send f s = Inr s' \<Longrightarrow> se_pending s' = se_pending s"
  by (auto simp: sess_send_def and_then_eq_Inr split: if_splits)

lemma sess_send_json_pending: "sess_send_json S t m s = Inr s' \<Longrightarrow> se_pending s' = se_pending s"
  by (auto simp: sess_send_json_def and_then_eq_Inr sess_send_pending)

lemma reply_keeps_pending [simp]: "se_pending (reply cf t m s) = se_pending s"
  by (simp add: reply_def close_with_def sess_send_json_pending split: sum.split)

lemma close_keeps_pending [simp]: "se_pending (close_with e s) = se_pending s"
  by (simp add: close_with_def)

lemma quiet_sum:
  "(\<And>x. r = Inl x \<Longrightarrow> quiet s w (f x)) \<Longrightarrow> (\<And>y. r = Inr y \<Longrightarrow> quiet s w (g y)) \<Longrightarrow> quiet s w (case r of Inl x \<Rightarrow> f x | Inr y \<Rightarrow> g y)"
  by (cases r) simp_all

lemma quiet_option:
  "quiet s w u \<Longrightarrow> (\<And>y. quiet s w (g y)) \<Longrightarrow> quiet s w (case r of None \<Rightarrow> u | Some y \<Rightarrow> g y)"
  by (cases r) simp_all

lemma notify_lock_quiet: "se_pending s' = se_pending s \<Longrightarrow> quiet s w (notify_lock cf n s' (w\<lparr>wd_state := (wd_state w)\<lparr>st_locks := g\<rparr>\<rparr>))"
  by (simp add: notify_lock_def quiet_def split: sum.split)

lemma on_lock_quiet:
  "quiet s w (on_lock_acquire cf clk f s w)" "quiet s w (on_lock_renew cf clk f s w)" "quiet s w (on_lock_release cf f s w)"
  by (auto simp: on_lock_acquire_def on_lock_renew_def on_lock_release_def Let_def split: sum.split prod.split
      intro!: notify_lock_quiet sess_send_json_pending) (simp_all add: quiet_def)

lemma on_file_diff_quiet: "quiet s w (on_file_diff cf f s w)"
  by (simp add: on_file_diff_def Let_def quiet_def split: sum.split prod.split)

lemma on_file_get_quiet: "quiet s w (on_file_get cf f s w)"
  unfolding on_file_get_def Let_def
  by (intro quiet_sum quiet_option)
    (auto intro!: quiet_sum quiet_option simp: sess_send_json_pending sess_send_pending quiet_def simp del: from_json_payload split: sum.split)

lemma on_memory_quiet: "quiet s w (on_memory_recall cf t f s w)" "quiet s w (on_memory_capture cf f s w)"
  by (simp_all add: on_memory_recall_def on_memory_capture_def quiet_def split: sum.split option.split)

lemma beat_quiet: "quiet s w (s, beat now s w)"
  by (simp add: beat_def quiet_def)

lemma leave_quiet: "quiet s w (leave_session cf s w)"
  by (simp add: leave_session_def quiet_def split: sum.split)

lemmas handlers_quiet = on_lock_quiet on_file_diff_quiet on_file_get_quiet on_memory_quiet beat_quiet leave_quiet

section \<open>A turn of a session\<close>

definition own_session :: "env \<Rightarrow> session \<Rightarrow> bool" where
  "own_session env s \<longleftrightarrow> (se_phase s = Ready \<longrightarrow> se_fs s = own_fs env (se_domain s) \<and>
     (\<forall>pu. se_pending s = Some pu \<longrightarrow> plain_upload env (se_domain s) pu))"

text \<open>An input that does not announce an object under an id that is not a file name.\<close>

fun plain_input :: "('x, 'd) config \<Rightarrow> input \<Rightarrow> bool" where
  "plain_input cf (Recv f) = (frame_type f = FilePut \<longrightarrow>
     (case de_file_put (cf_serde cf) (payload f) of None \<Rightarrow> True | Some fp \<Rightarrow> simple_name (fp_blob_id fp)))"
| "plain_input cf _ = True"

text \<open>What a handler of a session does: it writes below the directory of its tenant, and creates no store.\<close>

definition tame :: "('x, 'd) config \<Rightarrow> session \<Rightarrow> ('x, 'd) world \<Rightarrow> session \<times> ('x, 'd) world \<Rightarrow> bool" where
  "tame cf s w r \<longleftrightarrow> st_object_stores (wd_state (snd r)) = st_object_stores (wd_state w) \<and>
     (\<forall>pu. se_pending (fst r) = Some pu \<longrightarrow> plain_upload (cf_env cf) (se_domain s) pu) \<and>
     (\<forall>cs. server_at (cf_env cf) cs (disk (wd_storage w)) \<and> sanitize (se_domain s) \<noteq> [] \<longrightarrow>
        own_change (cs @ [sanitize (se_domain s)]) (disk (wd_storage w)) (disk (wd_storage (snd r))))"

lemma quiet_tame: "quiet s w r \<Longrightarrow> own_session (cf_env cf) s \<Longrightarrow> se_phase s = Ready \<Longrightarrow> tame cf s w r"
  by (simp add: quiet_def tame_def own_session_def)

lemma finish_upload_tame:
  assumes "se_fs s = own_fs (cf_env cf) (se_domain s)" and "plain_upload (cf_env cf) (se_domain s) pu" and "se_pending s = None"
  shows "tame cf s w (finish_upload cf pu s w)"
proof -
  let ?d = "se_domain s" and ?D = "disk (wd_storage w)"
  note pu = assms(2) [unfolded plain_upload_def]
  have fin: "own_change (cs @ [sanitize ?d]) ?D (case fs_remove_file (pu_temp_path pu) (disk W1) of Inl _ \<Rightarrow> disk W1 | Inr F \<Rightarrow> F)"
    if at: "server_at (cf_env cf) cs ?D" "sanitize ?d \<noteq> []" and put: "put_object (cf_backend cf) (se_fs s) (pu_blob_id pu) bs (wd_storage w) = Inr W1"
    for cs bs W1
  proof -
    from put obtain F1 where F1: "local_put (join (tenant_root (cf_env cf) ?d) ''objects'') (pu_blob_id pu) bs ?D = Inr F1" "disk W1 = F1"
      by (auto simp: assms(1) own_fs_def own_store_def put_object_def and_then_eq_Inr)
    have "own_change (cs @ [sanitize ?d]) ?D F1" using local_put_own [OF at _ F1(1)] pu by simp
    moreover have "own_change (cs @ [sanitize ?d]) F1 (case fs_remove_file (pu_temp_path pu) F1 of Inl _ \<Rightarrow> F1 | Inr F \<Rightarrow> F)"
      using remove_temp_own [OF server_at_kept [OF at(1) calculation] at(2)] pu by metis
    ultimately show ?thesis unfolding F1(2) by (rule own_change_trans)
  qed
  have st: "st_object_stores (record_object_owner a b c x) = st_object_stores x" for a b c x
    by (simp add: record_object_owner_def Let_def)
  show ?thesis
  proof (cases "fs_read ?D (pu_temp_path pu)")
    case (Inr bs)
    show ?thesis
    proof (cases "put_object (cf_backend cf) (se_fs s) (pu_blob_id pu) bs (wd_storage w)")
      case (Inr W1)
      then show ?thesis using fin [OF _ _ Inr] \<open>fs_read _ _ = _\<close> assms(3) by (simp add: finish_upload_def tame_def Let_def st)
    qed (use Inr assms(3) in \<open>simp add: finish_upload_def tame_def\<close>)
  qed (use assms(3) in \<open>simp add: finish_upload_def tame_def\<close>)
qed

lemma on_file_chunk_tame:
  assumes "own_session (cf_env cf) s" and "se_phase s = Ready"
  shows "tame cf s w (on_file_chunk cf f s w)"
proof (cases "se_pending s")
  case None
  then show ?thesis by (simp add: on_file_chunk_def tame_def)
next
  case (Some pu)
  let ?D = "disk (wd_storage w)"
  obtain r F where h: "handle_chunk cf (se_domain s) pu (payload f) ?D = (r, F)" by (rule prod.exhaust)
  have pu: "plain_upload (cf_env cf) (se_domain s) pu" using assms Some by (simp add: own_session_def)
  have own: "own_change (cs @ [sanitize (se_domain s)]) ?D F" if "server_at (cf_env cf) cs ?D" "sanitize (se_domain s) \<noteq> []" for cs
    using handle_chunk_own [OF that pu h] .
  have d: "disk (wd_storage (upd_disk F w)) = F" "st_object_stores (wd_state (upd_disk F w)) = st_object_stores (wd_state w)"
    by (simp_all add: upd_disk_def)
  show ?thesis
  proof (cases r)
    case (Inl e)
    then show ?thesis using Some h own pu by (simp add: on_file_chunk_def tame_def d)
  next
    case (Inr pu')
    have pu': "plain_upload (cf_env cf) (se_domain s) pu'" using handle_chunk_plain [OF _ pu] h Inr by simp
    let ?s = "s\<lparr>se_pending := None\<rparr>"
    have "tame cf ?s (upd_disk F w) (finish_upload cf pu' ?s (upd_disk F w))"
      using assms pu' by (intro finish_upload_tame) (simp_all add: own_session_def)
    then have "tame cf s w (finish_upload cf pu' ?s (upd_disk F w))"
      using own own_change_trans server_at_kept unfolding tame_def d by fastforce
    then show ?thesis using Some h Inr own pu' by (simp add: on_file_chunk_def tame_def d)
  qed
qed

lemma on_file_put_tame:
  assumes "own_session (cf_env cf) s" and "se_phase s = Ready" and "plain_input cf (Recv f)" and "frame_type f = FilePut"
  shows "tame cf s w (on_file_put cf f s w)"
proof (cases "payload_json (de_file_put (cf_serde cf)) f")
  case (Inl e)
  then show ?thesis using assms(1,2) by (simp add: on_file_put_def tame_def own_session_def)
next
  case (Inr fp)
  then have fp: "simple_name (fp_blob_id fp)" using assms(3,4) by (simp add: payload_json_def ok_or_def split: option.splits)
  obtain b st where q: "try_reserve_quota (cf_env cf) (cf_sql cf) (se_domain s) (fp_size fp) (wd_state w) = (b, st)" by (rule prod.exhaust)
  have st: "st_object_stores st = st_object_stores (wd_state w)"
    using q by (auto simp: try_reserve_quota_def Let_def split: if_splits)
  have fs: "se_fs s = own_fs (cf_env cf) (se_domain s)" using assms(1,2) by (simp add: own_session_def)
  let ?D = "disk (wd_storage w)"
  have rm: "own_change (cs @ [sanitize (se_domain s)]) ?D F'"
    if "server_at (cf_env cf) cs ?D" "sanitize (se_domain s) \<noteq> []"
      "fs_remove_file (temp_path_for (own_fs (cf_env cf) (se_domain s)) (fp_blob_id fp)) ?D = Inr F'" for cs F'
    using remove_temp_own [OF that(1,2) fp] that(3) by simp
  show ?thesis
    unfolding on_file_put_def Inr sum.case q prod.case fs
    using st fp assms(1,2) rm
    by (cases b) (auto simp: tame_def Let_def own_session_def plain_upload_def upd_disk_def split: sum.split)
qed

lemma on_file_tree_tame:
  assumes "own_session (cf_env cf) s" and "se_phase s = Ready" and "hex_law (cf_crates cf)"
  shows "tame cf s w (on_file_tree cf f s w)"
proof (cases "payload_json (de_file_tree (cf_serde cf)) f")
  case (Inl e)
  then show ?thesis using assms(1,2) by (simp add: on_file_tree_def tame_def own_session_def)
next
  case (Inr t)
  have fs: "se_fs s = own_fs (cf_env cf) (se_domain s)" using assms(1,2) by (simp add: own_session_def)
  let ?t = "t\<lparr>ft_tree_hash := tree_hash (cf_crates cf) t\<rparr>"
  obtain r F where sv: "save_tree (cf_tree_json cf) (se_fs s) ?t (disk (wd_storage w)) = (r, F)" by (rule prod.exhaust)
  have "own_change (cs @ [sanitize (se_domain s)]) (disk (wd_storage w)) F"
    if "server_at (cf_env cf) cs (disk (wd_storage w))" "sanitize (se_domain s) \<noteq> []" for cs
    using save_tree_own [OF that assms(3) _ sv [unfolded fs]] by simp
  then show ?thesis
    using assms(1,2) sv by (cases r) (simp_all add: on_file_tree_def Inr Let_def tame_def own_session_def upd_disk_def split: unit.split)
qed

lemma on_frame_tame:
  assumes "own_session (cf_env cf) s" and "se_phase s = Ready" and "hex_law (cf_crates cf)" and "plain_input cf (Recv f)"
  shows "tame cf s w (on_frame cf clk f s w)"
proof -
  note q = handlers_quiet [THEN quiet_tame, OF assms(1,2)]
  have "tame cf s w (s, w)" by (rule quiet_tame [OF _ assms(1,2)]) (simp add: quiet_def)
  then show ?thesis
    using on_file_chunk_tame [OF assms(1,2)] on_file_put_tame [OF assms(1,2,4)] on_file_tree_tame [OF assms(1-3)] q
    by (cases "frame_type f") (simp_all add: on_frame_def del: plain_input.simps)
qed

lemma ready_step_tame:
  assumes "own_session (cf_env cf) s" and "se_phase s = Ready" and "hex_law (cf_crates cf)" and "plain_input cf inp"
  shows "tame cf s w (ready_step cf clk inp s w)"
proof (cases inp)
  case (Recv f)
  then show ?thesis using on_frame_tame [OF assms(1-3)] assms(4) by (simp add: ready_step_def del: plain_input.simps)
next
  case Event
  let ?R = "st_registry (wd_state w)"
  obtain got R where r: "chan_recv (se_chan s) ?R = (got, R)" by (rule prod.exhaust)
  let ?w = "w\<lparr>wd_state := (wd_state w)\<lparr>st_registry := R\<rparr>\<rparr>"
  have "quiet s w (leave_session cf s ?w)" using leave_quiet [of s ?w cf] by (simp add: quiet_def)
  then have "quiet s w (ready_step cf clk inp s w)"
    unfolding ready_step_def Event input.case r prod.case Let_def
    by (intro quiet_option quiet_sum) (simp_all add: quiet_def sess_send_pending)
  then show ?thesis by (rule quiet_tame [OF _ assms(1,2)])
qed (simp_all add: ready_step_def quiet_tame [OF leave_quiet assms(1,2)] quiet_tame [OF beat_quiet assms(1,2)])

end
