(* ===== verification/Server_Loop.thy ===== *)
theory Server_Loop
  imports Confinement
begin

text \<open>
  The accept loop of \<open>nsmt-server/src/main.rs\<close> with any number of connections: every accepted
  connection gets a task of its own that runs \<open>session::handle\<close>, and the tasks share the state of
  the server and the table of the tenants.  One step is the acceptance of a connection, one turn of
  the handler of one connection, or one round of the tasks that prune the registry and the locks;
  the order of the steps is arbitrary.  Tables are read and changed under their locks, so that a
  check of a signature against the table of the tenants is atomic also in the program.
\<close>

section \<open>The accept loop\<close>

datatype server_event =
    Accepted string
  | AcceptFailed
  | Input nat clock input
  | PruneTick clock
  | CleanupTick u64

text \<open>The index of an \<open>Input\<close> is the number of the connection; a task that does not exist does nothing.\<close>

definition server_step ::
  "('x, 'd) config \<Rightarrow> string \<Rightarrow> server_event \<Rightarrow> session list \<times> ('x, 'd) world \<Rightarrow> session list \<times> ('x, 'd) world" where
  "server_step cf mid ev sw =
     (case sw of (ss, w) \<Rightarrow>
        (case ev of
           Accepted addr \<Rightarrow> (ss @ [session_new addr], w)
         | AcceptFailed \<Rightarrow> (ss, w)
         | Input i clk inp \<Rightarrow>
             if i < length ss then (case session_step cf clk mid inp (ss ! i, w) of (s', w') \<Rightarrow> (ss[i := s'], w'))
             else (ss, w)
         | PruneTick clk \<Rightarrow>
             (ss, w\<lparr>wd_state := (wd_state w)\<lparr>st_registry := prune_round (cf_serde cf) clk (st_registry (wd_state w))\<rparr>\<rparr>)
         | CleanupTick now \<Rightarrow> (ss, w\<lparr>wd_state := (wd_state w)\<lparr>st_locks := cleanup now (st_locks (wd_state w))\<rparr>\<rparr>)))"

fun deliverable :: "server_event \<Rightarrow> session list \<Rightarrow> bool" where
  "deliverable (Input i clk inp) ss = (i < length ss)"
| "deliverable ev ss = True"

text \<open>What has happened since the start, and the state it has led to.\<close>

inductive server_reach ::
  "('x, 'd) config \<Rightarrow> string \<Rightarrow> ('x, 'd) world \<Rightarrow> server_event list \<Rightarrow> session list \<times> ('x, 'd) world \<Rightarrow> bool"
  for cf mid w0 where
  start: "server_reach cf mid w0 [] ([], w0)"
| step: "server_reach cf mid w0 evs (ss, w) \<Longrightarrow> deliverable ev ss \<Longrightarrow> server_step cf mid ev (ss, w) = sw' \<Longrightarrow>
    server_reach cf mid w0 (evs @ [ev]) sw'"

fun inputs_of :: "nat \<Rightarrow> server_event list \<Rightarrow> (clock \<times> input) list" where
  "inputs_of i [] = []"
| "inputs_of i (Input j clk inp # evs) = (if j = i then [(clk, inp)] else []) @ inputs_of i evs"
| "inputs_of i (_ # evs) = inputs_of i evs"

lemma inputs_of_append [simp]: "inputs_of i (xs @ ys) = inputs_of i xs @ inputs_of i ys"
  by (induction i xs rule: inputs_of.induct) simp_all

lemma inputs_of_new: "server_reach cf mid w0 evs (ss, w) \<Longrightarrow> length ss \<le> i \<Longrightarrow> inputs_of i evs = []"
proof (induction evs "(ss, w)" arbitrary: ss w rule: server_reach.induct)
  case (step evs ss1 w1 ev)
  then have "length ss1 \<le> length ss" by (cases ev) (auto simp: server_step_def split: prod.splits if_splits)
  with step show ?case by (cases ev) auto
qed simp

section \<open>What a step leaves alone\<close>

definition wd_registry :: "('x, 'd) world \<Rightarrow> registry" where
  "wd_registry w = st_registry (wd_state w)"

text \<open>Only the part of tenant \<open>e\<close> in the registry is changed; subscribers are never lost.\<close>

definition reg_confined :: "string \<Rightarrow> registry \<Rightarrow> registry \<Rightarrow> bool" where
  "reg_confined e R R' \<longleftrightarrow> reg_ok R' \<and> (\<forall>d. set (subs_of d R) \<subseteq> set (subs_of d R')) \<and>
     (\<forall>d. d \<noteq> e \<longrightarrow> hm_get (tenants R') d = hm_get (tenants R) d \<and> (\<forall>c \<in> set (subs_of d R). chans R' c = chans R c))"

lemma reg_confined_refl: "reg_ok R \<Longrightarrow> reg_confined e R R"
  by (simp add: reg_confined_def)

lemma reg_confined_trans: "reg_confined e R1 R2 \<Longrightarrow> reg_confined e R2 R3 \<Longrightarrow> reg_confined e R1 R3"
  unfolding reg_confined_def by (metis (no_types, lifting) subs_of_def order_trans)

lemma register_confined: "reg_ok R \<Longrightarrow> reg_confined e R (snd (Registry.register e info R))"
  using register_ok [of R e info]
  by (auto simp: reg_confined_def register_def Let_def subs_of_def tenant_or_default_def split: option.splits)

lemma heartbeat_confined: "reg_ok R \<Longrightarrow> reg_confined e R (heartbeat_refresh now e m R)"
  using heartbeat_ok [of R now e m]
  by (auto simp: reg_confined_def heartbeat_refresh_def subs_of_def split: option.splits)

lemma subscribe_confined:
  assumes "reg_ok R"
  shows "reg_confined e R (snd (subscribe e R))" and "next_chan R \<in> set (subs_of e (snd (subscribe e R)))"
  using subscribe_ok [OF assms, of e] reg_ok_subs [OF assms]
  by (auto simp: reg_confined_def subscribe_def Let_def subs_of_def tenant_or_default_def split: option.splits)

text \<open>An operation on channels of the tenant.\<close>

lemma chans_confined:
  assumes "reg_ok R" and "tenants R' = tenants R" "next_chan R' = next_chan R"
    and "\<And>c. c \<notin> set (subs_of e R) \<Longrightarrow> chans R' c = chans R c"
  shows "reg_confined e R R'"
proof -
  have "subs_of d R' = subs_of d R" for d by (simp add: subs_of_def assms(2))
  moreover have "c \<notin> set (subs_of e R)" if "d \<noteq> e" "c \<in> set (subs_of d R)" for c d
    using reg_ok_one_tenant [OF assms(1) that(2)] that(1) by blast
  ultimately show ?thesis using reg_ok_tenants [OF assms(1-3)] assms(2,4) by (simp add: reg_confined_def)
qed

lemma fold_send_other: "c \<notin> set cs \<Longrightarrow> chans (fold (\<lambda>ch. chan_send ch f) cs R) c = chans R c"
  by (induction cs arbitrary: R) (simp_all add: chans_chan_send)

lemma broadcast_confined:
  assumes "reg_ok R"
  shows "reg_confined e R (broadcast e f R)" and "reg_confined e R (broadcast_except e f x R)"
  by (rule chans_confined [OF assms]; auto simp: broadcast_def broadcast_except_def fold_send_except fold_send(1,2) fold_send_other split: option.splits)+

lemma chan_confined:
  assumes "reg_ok R" and "ch \<in> set (subs_of e R)"
  shows "reg_confined e R (snd (chan_recv ch R))" and "reg_confined e R (chan_drop ch R)"
  by (rule chans_confined [OF assms(1)]; use assms(2) in \<open>auto simp: chan_recv_def chan_drop_def split: list.splits\<close>)+

text \<open>The tenant table: keys of domains stay, bindings of machines are only added.\<close>

definition tenants_grow :: "tenant_store \<Rightarrow> tenant_store \<Rightarrow> bool" where
  "tenants_grow g g' \<longleftrightarrow> (\<forall>d. map_option tr_domain_pubkey (hm_get g' d) = map_option tr_domain_pubkey (hm_get g d)) \<and>
     (\<forall>d m k. bound_key g d m = Some k \<longrightarrow> bound_key g' d m = Some k)"

lemma tenants_grow_refl [simp]: "tenants_grow g g"
  by (simp add: tenants_grow_def)

lemma tenants_grow_trans: "tenants_grow g g' \<Longrightarrow> tenants_grow g' g'' \<Longrightarrow> tenants_grow g g''"
  by (simp add: tenants_grow_def)

lemma verify_register_grow:
  "tenants_grow g (snd (verify_register C d m tag pk sig g))"
  "e \<noteq> d \<Longrightarrow> hm_get (snd (verify_register C d m tag pk sig g)) e = hm_get g e"
  by (auto simp: tenants_grow_def verify_register_def bound_key_def split: option.splits)

lemma verify_auth_grow: "tenants_grow g g' \<Longrightarrow> verify_auth C d n sig g' = verify_auth C d n sig g"
proof -
  assume "tenants_grow g g'"
  then have "map_option tr_domain_pubkey (hm_get g' d) = map_option tr_domain_pubkey (hm_get g d)" by (simp add: tenants_grow_def)
  then show ?thesis by (cases "hm_get g' d"; cases "hm_get g d") (simp_all add: verify_auth_def)
qed

definition confined :: "string \<Rightarrow> ('x, 'd) world \<Rightarrow> ('x, 'd) world \<Rightarrow> bool" where
  "confined e w w' \<longleftrightarrow> (reg_ok (wd_registry w) \<longrightarrow> reg_confined e (wd_registry w) (wd_registry w')) \<and>
     tenants_grow (wd_tenants w) (wd_tenants w') \<and>
     (\<forall>d. d \<noteq> e \<longrightarrow> hm_get (wd_tenants w') d = hm_get (wd_tenants w) d \<and>
        hm_get (st_object_stores (wd_state w')) d = hm_get (st_object_stores (wd_state w)) d \<and>
        hm_get (st_object_owners (wd_state w')) d = hm_get (st_object_owners (wd_state w)) d \<and>
        hm_get (st_usage_bytes (wd_state w')) d = hm_get (st_usage_bytes (wd_state w)) d)"

lemma confined_refl [simp]: "confined e w w"
  by (simp add: confined_def reg_confined_refl)

lemma confined_trans: "confined e w w' \<Longrightarrow> confined e w' w'' \<Longrightarrow> confined e w w''"
  unfolding confined_def using tenants_grow_trans reg_confined_trans [of e "wd_registry w" "wd_registry w'" "wd_registry w''"]
  by (auto simp: reg_confined_def [of e "wd_registry w" "wd_registry w'"])

lemma confined_disk [simp]: "confined e w (upd_disk F w')  \<longleftrightarrow> confined e w w'"
  by (simp add: confined_def upd_disk_def wd_registry_def)

lemma confined_registry:
  "(reg_ok (wd_registry w) \<Longrightarrow> reg_confined e (wd_registry w) R) \<Longrightarrow> confined e w (w\<lparr>wd_state := (wd_state w)\<lparr>st_registry := R\<rparr>\<rparr>)"
  by (simp add: confined_def wd_registry_def)

lemma confined_broadcast:
  "confined e w (w\<lparr>wd_state := (wd_state w)\<lparr>st_registry := broadcast e f (st_registry (wd_state w))\<rparr>\<rparr>)"
  "confined e w (w\<lparr>wd_state := (wd_state w)\<lparr>st_registry := broadcast_except e f x (st_registry (wd_state w))\<rparr>\<rparr>)"
  by (rule confined_registry; simp add: wd_registry_def broadcast_confined)+

lemma confined_locks [simp]: "confined e (w\<lparr>wd_state := (wd_state w)\<lparr>st_locks := g\<rparr>\<rparr>) w' \<longleftrightarrow> confined e w w'"
  "confined e w (w'\<lparr>wd_state := (wd_state w')\<lparr>st_locks := g\<rparr>\<rparr>) \<longleftrightarrow> confined e w w'"
  by (simp_all add: confined_def wd_registry_def)

section \<open>Handlers\<close>

lemma finish_upload_confined: "confined (se_domain s) w (snd (finish_upload cf pu s w))"
  by (auto simp: finish_upload_def Let_def confined_def wd_registry_def reg_confined_refl record_object_owner_def split: sum.split)

lemma on_file_chunk_confined: "confined (se_domain s) w (snd (on_file_chunk cf f s w))"
proof -
  have "confined (se_domain s) w (snd (finish_upload cf pu (s\<lparr>se_pending := None\<rparr>) (upd_disk F w)))" for pu F
    using confined_trans [OF _ finish_upload_confined [of "s\<lparr>se_pending := None\<rparr>" "upd_disk F w" cf pu], of w] by simp
  then show ?thesis by (simp add: on_file_chunk_def split: option.split prod.split sum.split)
qed

lemma try_reserve_confined:
  assumes "try_reserve_quota env Q ud n st = (b, st')"
  shows "st_registry st' = st_registry st" "st_object_stores st' = st_object_stores st" "st_object_owners st' = st_object_owners st"
    "d \<noteq> ud \<Longrightarrow> hm_get (st_usage_bytes st') d = hm_get (st_usage_bytes st) d"
  using assms by (auto simp: try_reserve_quota_def Let_def split: if_splits)

lemma on_file_put_confined: "confined (se_domain s) w (snd (on_file_put cf f s w))"
proof (cases "payload_json (de_file_put (cf_serde cf)) f")
  case (Inr fp)
  obtain b st where q: "try_reserve_quota (cf_env cf) (cf_sql cf) (se_domain s) (fp_size fp) (wd_state w) = (b, st)"
    by (cases "try_reserve_quota (cf_env cf) (cf_sql cf) (se_domain s) (fp_size fp) (wd_state w)")
  have "confined (se_domain s) w (w\<lparr>wd_state := st\<rparr>)"
    using try_reserve_confined [OF q] by (simp add: confined_def wd_registry_def reg_confined_refl)
  then show ?thesis
    unfolding on_file_put_def Inr sum.case q prod.case by (cases b) (simp_all add: Let_def split: sum.split)
qed (simp add: on_file_put_def)

text \<open>The world after a handler that goes on by cases.\<close>

lemma confined_sum:
  "(\<And>x. confined e w (snd (f x))) \<Longrightarrow> (\<And>y. confined e w (snd (g y))) \<Longrightarrow> confined e w (snd (case r of Inl x \<Rightarrow> f x | Inr y \<Rightarrow> g y))"
  by (cases r) simp_all

lemma confined_option:
  "confined e w (snd u) \<Longrightarrow> (\<And>y. confined e w (snd (g y))) \<Longrightarrow> confined e w (snd (case r of None \<Rightarrow> u | Some y \<Rightarrow> g y))"
  by (cases r) simp_all

lemma on_file_get_confined: "confined (se_domain s) w (snd (on_file_get cf f s w))"
  unfolding on_file_get_def Let_def
  by (intro confined_sum confined_option) (auto intro!: confined_sum confined_option simp: confined_broadcast)

lemma on_file_tree_confined: "confined (se_domain s) w (snd (on_file_tree cf f s w))"
  by (simp add: on_file_tree_def Let_def split: sum.split prod.split unit.split)

lemma on_file_diff_confined: "confined (se_domain s) w (snd (on_file_diff cf f s w))"
  by (simp add: on_file_diff_def Let_def split: sum.split prod.split)

lemma notify_lock_confined: "confined (se_domain s) w (snd (notify_lock cf n s w))"
  by (auto simp: notify_lock_def confined_broadcast split: sum.split)

lemma on_lock_confined:
  "confined (se_domain s) w (snd (on_lock_acquire cf clk f s w))"
  "confined (se_domain s) w (snd (on_lock_renew cf clk f s w))"
  "confined (se_domain s) w (snd (on_lock_release cf f s w))"
proof -
  have n: "confined (se_domain s) w (snd (notify_lock cf n s' (w\<lparr>wd_state := (wd_state w)\<lparr>st_locks := g\<rparr>\<rparr>)))"
    if "se_domain s' = se_domain s" for n s' g
    using notify_lock_confined [of s' "w\<lparr>wd_state := (wd_state w)\<lparr>st_locks := g\<rparr>\<rparr>" cf n] that by simp
  have d: "se_domain s' = se_domain s" if "sess_send_json S t m s = Inr s'" for S t m s'
    using sess_send_json_same [OF that] by (simp add: same_id_def)
  show "confined (se_domain s) w (snd (on_lock_acquire cf clk f s w))"
    "confined (se_domain s) w (snd (on_lock_renew cf clk f s w))"
    "confined (se_domain s) w (snd (on_lock_release cf f s w))"
    by (auto simp: on_lock_acquire_def on_lock_renew_def on_lock_release_def Let_def n d split: sum.split prod.split)
qed

lemma on_memory_confined:
  "confined e w (snd (on_memory_recall cf t f s w))" "confined e w (snd (on_memory_capture cf f s w))"
  by (auto simp: on_memory_recall_def on_memory_capture_def split: sum.split option.split)

lemma beat_confined: "confined (se_domain s) w (beat now s w)"
  unfolding beat_def by (rule confined_registry) (simp add: wd_registry_def heartbeat_confined)

lemma leave_confined: "confined (se_domain s) w (snd (leave_session cf s w))"
  by (auto simp: leave_session_def confined_broadcast split: sum.split)

lemmas handlers_confined = on_file_chunk_confined on_file_put_confined on_file_get_confined on_file_tree_confined
  on_file_diff_confined on_lock_confined on_memory_confined beat_confined

lemma on_frame_confined: "confined (se_domain s) w (snd (on_frame cf clk f s w))"
  by (cases "frame_type f") (simp_all add: on_frame_def handlers_confined)

text \<open>A ready session listens on a channel of its tenant.\<close>

definition listening :: "session \<Rightarrow> ('x, 'd) world \<Rightarrow> bool" where
  "listening s w \<longleftrightarrow> (se_phase s = Ready \<longrightarrow> se_chan s \<in> set (subs_of (se_domain s) (wd_registry w)))"

lemma confined_listening: "confined e w w' \<Longrightarrow> reg_ok (wd_registry w) \<Longrightarrow> listening s w \<Longrightarrow> listening s w'"
  by (auto simp: confined_def reg_confined_def listening_def)

lemma drop_rx_confined:
  assumes "ch \<in> set (subs_of e (wd_registry w))"
  shows "confined e w (drop_rx ch w)"
  unfolding drop_rx_def using assms by (intro confined_registry) (simp add: chan_confined wd_registry_def)

lemma ready_step_confined:
  assumes "se_chan s \<in> set (subs_of (se_domain s) (wd_registry w))"
  shows "confined (se_domain s) w (snd (ready_step cf clk inp s w))"
proof (cases inp)
  case Event
  let ?R = "st_registry (wd_state w)"
  obtain got R where r: "chan_recv (se_chan s) ?R = (got, R)" by (rule prod.exhaust)
  let ?w = "w\<lparr>wd_state := (wd_state w)\<lparr>st_registry := R\<rparr>\<rparr>"
  have c: "confined (se_domain s) w ?w"
    using chan_confined(1) [of ?R "se_chan s" "se_domain s"] r assms by (intro confined_registry) (simp add: wd_registry_def)
  show ?thesis
    unfolding ready_step_def Event input.case r prod.case Let_def
    by (intro confined_option confined_sum) (simp_all add: c confined_trans [OF c leave_confined])
qed (simp_all add: ready_step_def on_frame_confined leave_confined beat_confined)

lemma object_store_keeps:
  assumes "object_store_for env s3 k e base st = (ob, st')"
  shows "st_registry st' = st_registry st" "st_object_owners st' = st_object_owners st" "st_usage_bytes st' = st_usage_bytes st"
    "d \<noteq> e \<Longrightarrow> hm_get (st_object_stores st') d = hm_get (st_object_stores st) d"
  using assms by (auto simp: object_store_for_def Let_def split: option.splits)

lemma enter_ready_confined:
  assumes "reg_ok (wd_registry w)" and "enter_ready cf clk e reg s w = (s', w')"
  shows "confined e w w' \<and> wd_tenants w' = wd_tenants w \<and> listening s' w'"
proof -
  let ?R = "wd_registry w"
  define info where "info = \<lparr>mi_machine_id = reg_machine_id reg, mi_agents = [reg_agent_tag reg], mi_addr = se_addr s,
    mi_peer_addr = reg_peer_addr reg, mi_machine_pubkey = reg_machine_pubkey reg, mi_last_seen = clk 0\<rparr>"
  obtain snap R1 where r1: "Registry.register e info ?R = (snap, R1)" by (rule prod.exhaust)
  obtain x ch R2 where r2: "subscribe e R1 = ((x, ch), R2)" by (metis prod.exhaust)
  have ch: "ch = next_chan R1" using r2 by (auto simp: subscribe_def Let_def)
  note c1 = register_confined [OF assms(1), of e info, unfolded r1 snd_conv]
  have ok1: "reg_ok R1" using c1 by (simp add: reg_confined_def)
  note c2 = subscribe_confined [OF ok1, of e, unfolded r2 snd_conv, folded ch]
  have ok2: "reg_ok R2" using c2 by (simp add: reg_confined_def)
  note c12 = reg_confined_trans [OF c1 c2(1)]
  note c3 = reg_confined_trans [OF c12 chan_confined(2) [OF ok2 c2(2)]]
  have c4: "reg_confined e ?R (broadcast_except e f ch R2)" for f by (rule reg_confined_trans [OF c12 broadcast_confined(2) [OF ok2]])
  have l: "ch \<in> set (subs_of e (broadcast_except e f ch R2))" for f using c2(2) by (simp add: subs_of_def)
  have "enter_ready cf clk e reg s w =
     (case sess_send_json (cf_serde cf) RegisterAck (MRegisterAck \<lparr>reg_ack_machines = snap\<rparr>) s of
        Inl er \<Rightarrow> (close_with (SNsmt er) s, w\<lparr>wd_state := (wd_state w)\<lparr>st_registry := R1\<rparr>\<rparr>)
      | Inr s1 \<Rightarrow>
         (case from_json (cf_serde cf) OnlineDelta 0 (MOnlineDelta \<lparr>od_kind = Join, od_machine = info\<rparr>) of
            Inl er \<Rightarrow> (close_with (SNsmt er) s1, drop_rx ch (w\<lparr>wd_state := (wd_state w)\<lparr>st_registry := R2\<rparr>\<rparr>))
          | Inr f \<Rightarrow>
             (case object_store_for (cf_env cf) (cf_s3 cf) (wd_next w) e (nsmt_home (cf_env cf))
                 ((wd_state w)\<lparr>st_registry := broadcast_except e f ch R2\<rparr>) of
                (ob, st) \<Rightarrow>
                  (s1\<lparr>se_phase := Ready, se_domain := e, se_machine := reg_machine_id reg, se_chan := ch,
                     se_fs := server_fs_new (nsmt_home (cf_env cf)) e ob, se_pending := None\<rparr>,
                   w\<lparr>wd_state := st, wd_storage := (wd_storage w)\<lparr>remote := (remote (wd_storage w))(wd_next w := cf_mem_init cf)\<rparr>,
                     wd_next := Suc (wd_next w)\<rparr>))))"
    using r1 r2 by (simp add: enter_ready_def info_def wd_registry_def Let_def del: from_json_payload cong: sum.case_cong)
  with assms(2) show ?thesis
    using c1 c3 c4 l
    by (auto simp: confined_def wd_registry_def listening_def close_with_def drop_rx_def object_store_keeps split: sum.splits prod.splits)
qed

lemma closed_listening: "se_phase s = Closed r \<Longrightarrow> listening s w"
  by (simp add: listening_def)

lemma on_register_confined:
  assumes "reg_ok (wd_registry w)" and "on_register cf clk e f s w = (s', w')"
  shows "confined e w w' \<and> listening s' w'"
proof (cases "payload_json (de_register (cf_serde cf)) f")
  case (Inl er)
  then show ?thesis using assms(2) by (auto simp: on_register_def close_with_def listening_def)
next
  case (Inr reg)
  let ?v = "verify_register (cf_crates cf) e (reg_machine_id reg) (reg_agent_tag reg) (reg_machine_pubkey reg)
    (reg_machine_signature reg) (wd_tenants w)"
  obtain r g where v: "?v = (r, g)" by (rule prod.exhaust)
  let ?w = "w\<lparr>wd_tenants := g\<rparr>"
  have c: "confined e w ?w"
    using verify_register_grow(1) [of "wd_tenants w" "cf_crates cf" e "reg_machine_id reg" "reg_agent_tag reg"
        "reg_machine_pubkey reg" "reg_machine_signature reg"] verify_register_grow(2) [of _ e "cf_crates cf"] v
    by (simp add: confined_def wd_registry_def reg_confined_refl) (metis snd_conv)
  show ?thesis
  proof (cases r)
    case Inl
    then have "s' = refuse cf ''0xE004'' (''register_failed: '' @ projl r) s \<and> w' = ?w"
      using assms(2) unfolding on_register_def \<open>payload_json _ _ = _\<close> sum.case v by simp
    with c refuse_phase [of cf "''0xE004''" "''register_failed: '' @ projl r" s] closed_listening show ?thesis by metis
  next
    case (Inr u)
    have "on_register cf clk e f s w = enter_ready cf clk e reg s ?w"
      unfolding on_register_def \<open>payload_json _ _ = _\<close> sum.case v Inr prod.case by (simp split: unit.split)
    with enter_ready_confined [of ?w cf clk e reg s s' w'] assms c confined_trans [OF c] show ?thesis
      by (simp add: wd_registry_def)
  qed
qed

text \<open>The tenant that a session acts for, once it has authenticated.\<close>

definition works_for :: "session \<Rightarrow> string option" where
  "works_for s = (case se_phase s of AwaitRegister ud \<Rightarrow> Some ud | Ready \<Rightarrow> Some (se_domain s) | _ \<Rightarrow> None)"

lemma session_step_confined:
  assumes "reg_ok (wd_registry w)" and "listening s w" and "works_for s \<in> {None, Some e}"
    and "session_step cf clk mid inp (s, w) = (s', w')"
  shows "confined e w w' \<and> listening s' w'"
proof (cases "se_phase s")
  case AwaitHello
  then show ?thesis using assms(4) on_hello_phase [OF refl refl, of cf]
    by (cases inp) (auto simp: session_step_def handshake_step_def listening_def close_with_def; metis phase.distinct)+
next
  case (AwaitAuth ud n)
  then show ?thesis using assms(4) on_auth_phase [of cf ud n]
    by (cases inp) (auto simp: session_step_def handshake_step_def listening_def close_with_def; metis phase.distinct)+
next
  case (AwaitRegister ud)
  then show ?thesis using assms(3,4) on_register_confined [OF assms(1), of cf clk ud _ s s' w']
    by (cases inp) (auto simp: session_step_def handshake_step_def listening_def close_with_def works_for_def)
next
  case Ready
  obtain s1 w1 where r: "ready_step cf clk inp s w = (s1, w1)" by (rule prod.exhaust)
  have e: "e = se_domain s" and ch: "se_chan s \<in> set (subs_of e (wd_registry w))"
    using Ready assms(2,3) by (auto simp: works_for_def listening_def)
  have c: "confined e w w1" using ready_step_confined [of s w cf clk inp] ch e r by simp
  have i: "same_id s s1" using ready_step_same [of s cf clk inp w] r by simp
  have ch1: "se_chan s1 \<in> set (subs_of e (wd_registry w1))" using c assms(1) ch i by (auto simp: confined_def reg_confined_def same_id_def)
  have "s' = s1" "w' = (if se_phase s1 = Ready then w1 else drop_rx (se_chan s1) w1)"
    using assms(4) r Ready by (auto simp: session_step_def)
  then show ?thesis using c ch1 i e confined_trans [OF c drop_rx_confined [OF ch1]] by (auto simp: listening_def same_id_def)
next
  case Closed
  then show ?thesis using assms(4) by (auto simp: session_step_def listening_def)
qed

section \<open>All connections\<close>

text \<open>The background tasks.\<close>

lemma prune_one_keeps:
  assumes "reg_ok R"
  shows "reg_ok (prune_one S now x R)" and "subs_of e (prune_one S now x R) = subs_of e R"
proof -
  obtain d info where x: "x = (d, info)" by (rule prod.exhaust)
  show "reg_ok (prune_one S now x R)"
    unfolding x prune_one_def prod.case by (rule reg_ok_tenants [OF prune_remove_ok [OF assms]]) simp_all
  have "subs_of e (broadcast d (leave_frame S info) (prune_remove now d info R)) = subs_of e (prune_remove now d info R)"
    by (simp only: subs_of_def broadcast_simps)
  also have "\<dots> = subs_of e R" by (auto simp: prune_remove_def subs_of_def split: option.split)
  finally show "subs_of e (prune_one S now x R) = subs_of e R" by (simp add: x prune_one_def)
qed

lemma prune_fold_keeps:
  "reg_ok R \<Longrightarrow> reg_ok (fold (\<lambda>(i, x). prune_one S (t i) x) xs R) \<and>
     (\<forall>d. subs_of d (fold (\<lambda>(i, x). prune_one S (t i) x) xs R) = subs_of d R)"
  by (induction xs arbitrary: R) (auto simp: prune_one_keeps split: prod.split)

lemma prune_round_keeps: "reg_ok R \<Longrightarrow> reg_ok (prune_round S clk R) \<and> (\<forall>d. subs_of d (prune_round S clk R) = subs_of d R)"
  unfolding prune_round_def Let_def by (rule prune_fold_keeps)

text \<open>The registry is well formed and every ready session listens on a channel of its tenant.\<close>

definition server_ok :: "session list \<times> ('x, 'd) world \<Rightarrow> bool" where
  "server_ok sw \<longleftrightarrow> reg_ok (wd_registry (snd sw)) \<and> (\<forall>s \<in> set (fst sw). listening s (snd sw))"

lemma confined_ok: "confined e w w' \<Longrightarrow> reg_ok (wd_registry w) \<Longrightarrow> reg_ok (wd_registry w')"
  by (simp add: confined_def reg_confined_def)

lemma works_for_one: "\<exists>e. works_for s \<in> {None, Some e}"
  by (cases "works_for s") auto

lemma server_step_ok:
  assumes "server_ok (ss, w)"
  shows "server_ok (server_step cf mid ev (ss, w))"
proof (cases ev)
  case (Input i clk inp)
  show ?thesis
  proof (cases "i < length ss")
    case True
    obtain s' w' where st: "session_step cf clk mid inp (ss ! i, w) = (s', w')" by (rule prod.exhaust)
    obtain e where "works_for (ss ! i) \<in> {None, Some e}" using works_for_one by blast
    with session_step_confined [OF _ _ this st] assms True have c: "confined e w w'" "listening s' w'" by (simp_all add: server_ok_def)
    have "listening s w'" if "s \<in> set (ss[i := s'])" for s
      using that c assms confined_listening [OF c(1)] set_update_subset_insert [of ss i s'] by (auto simp: server_ok_def)
    then show ?thesis using True Input st c(1) confined_ok assms by (auto simp: server_ok_def server_step_def)
  qed (use Input assms in \<open>simp add: server_step_def\<close>)
next
  case (PruneTick clk)
  then show ?thesis
    using assms prune_round_keeps [of "wd_registry w"] by (auto simp: server_ok_def server_step_def listening_def wd_registry_def)
qed (use assms in \<open>auto simp: server_ok_def server_step_def listening_def wd_registry_def session_new_def\<close>)

lemma server_reach_ok:
  assumes "server_reach cf mid w0 evs sw" and "reg_ok (wd_registry w0)"
  shows "server_ok sw"
  using assms
proof (induction rule: server_reach.induct)
  case start
  then show ?case by (simp add: server_ok_def)
next
  case (step evs ss w ev sw')
  then show ?case using server_step_ok [of ss w cf mid ev] by simp
qed

section \<open>The disk\<close>


definition stores_own :: "env \<Rightarrow> 'd server_state \<Rightarrow> bool" where
  "stores_own env st \<longleftrightarrow> (\<forall>d x. hm_get (st_object_stores st) d = Some x \<longrightarrow> x = own_store env d)"

lemma stores_own_registry [simp]: "stores_own env (st\<lparr>st_registry := R\<rparr>) = stores_own env st"
  by (simp add: stores_own_def)

abbreviation local_stores :: "env \<Rightarrow> ('x, 'd) world \<Rightarrow> bool" where
  "local_stores env w \<equiv> stores_own env (wd_state w)"







lemma drop_rx_keeps [simp]: "wd_storage (drop_rx ch w) = wd_storage w" "local_stores env (drop_rx ch w) = local_stores env w"
  by (simp_all add: drop_rx_def stores_own_def)






section \<open>Tenants\<close>




section \<open>Admission\<close>

text \<open>A registration under the key \<open>pk\<close>, signed with it.\<close>

definition shown_key :: "('x, 'd) config \<Rightarrow> string \<Rightarrow> string \<Rightarrow> clock \<times> input \<Rightarrow> bool" where
  "shown_key cf machine pk ci \<longleftrightarrow> (\<exists>f r. snd ci = Recv f \<and> de_register (cf_serde cf) (payload f) = Some r \<and> reg_machine_id r = machine \<and>
     reg_machine_pubkey r = pk \<and> verify (cf_crates cf) pk (as_bytes (register_msg machine (reg_agent_tag r))) (reg_machine_signature r))"

text \<open>What the phase of a session says about its inputs; \<open>g0\<close> and \<open>g\<close> are the tables at the start and now.\<close>

definition admission_inv :: "('x, 'd) config \<Rightarrow> string \<Rightarrow> tenant_store \<Rightarrow> tenant_store \<Rightarrow> (clock \<times> input) list \<Rightarrow> session \<Rightarrow> bool" where
  "admission_inv cf mid g0 g ins s \<longleftrightarrow>
     (case se_phase s of
        AwaitAuth ud n \<Rightarrow> \<exists>i1. subseq [i1] ins \<and> hello_ok cf mid ud n i1
      | AwaitRegister ud \<Rightarrow> \<exists>i1 i2 n. subseq [i1, i2] ins \<and> hello_ok cf mid ud n i1 \<and> auth_ok cf g0 ud n i2
      | Ready \<Rightarrow> \<exists>i1 i2 i3 n pk. subseq [i1, i2, i3] ins \<and> hello_ok cf mid (se_domain s) n i1 \<and> auth_ok cf g0 (se_domain s) n i2 \<and>
          shown_key cf (se_machine s) pk i3 \<and> bound_key g (se_domain s) (se_machine s) = Some pk
      | _ \<Rightarrow> True)"

lemma admission_inv_more:
  "admission_inv cf mid g0 g ins s \<Longrightarrow> tenants_grow g g' \<Longrightarrow> admission_inv cf mid g0 g' ins s"
  unfolding admission_inv_def tenants_grow_def by (cases "se_phase s") (auto simp del: split_paired_Ex; blast)+

lemma on_register_admits:
  assumes "on_register cf clk ud f s w = (s', w')" and "reg_ok (wd_registry w)"
  shows "(\<exists>r. se_phase s' = Closed r) \<or> se_phase s' = Ready \<and> se_domain s' = ud \<and>
    (\<exists>pk. shown_key cf (se_machine s') pk (clk, Recv f) \<and> bound_key (wd_tenants w') ud (se_machine s') = Some pk)"
proof (cases "\<exists>reg g. de_register (cf_serde cf) (payload f) = Some reg \<and> verify_register (cf_crates cf) ud (reg_machine_id reg)
    (reg_agent_tag reg) (reg_machine_pubkey reg) (reg_machine_signature reg) (wd_tenants w) = (Inr (), g)")
  case True
  then obtain reg g where r: "de_register (cf_serde cf) (payload f) = Some reg" and
    v: "verify_register (cf_crates cf) ud (reg_machine_id reg) (reg_agent_tag reg) (reg_machine_pubkey reg)
      (reg_machine_signature reg) (wd_tenants w) = (Inr (), g)" by blast
  have e: "on_register cf clk ud f s w = enter_ready cf clk ud reg s (w\<lparr>wd_tenants := g\<rparr>)"
  proof -
    have p: "payload_json (de_register (cf_serde cf)) f = Inr reg" using r by simp
    show ?thesis unfolding on_register_def p sum.case v prod.case by (simp split: unit.split)
  qed
  have b: "bound_key g ud (reg_machine_id reg) = Some (reg_machine_pubkey reg)"
    using verify_register_bound [of "cf_crates cf" ud "reg_machine_id reg" "reg_agent_tag reg" "reg_machine_pubkey reg"
        "reg_machine_signature reg" "wd_tenants w" ud "reg_machine_id reg"] v by simp
  have k: "verify (cf_crates cf) (reg_machine_pubkey reg) (as_bytes (register_msg (reg_machine_id reg) (reg_agent_tag reg))) (reg_machine_signature reg)"
    using v by (simp add: verify_register_def split: if_splits)
  have "wd_tenants w' = g" using enter_ready_confined [of "w\<lparr>wd_tenants := g\<rparr>" cf clk ud reg s s' w'] assms e by (simp add: wd_registry_def)
  with enter_ready_phase [of cf clk ud reg s "w\<lparr>wd_tenants := g\<rparr>"] assms(1) e r b k show ?thesis by (auto simp: shown_key_def)
next
  case False
  have "\<exists>r. se_phase (fst (on_register cf clk ud f s w)) = Closed r"
  proof (rule ccontr)
    assume "\<not> ?thesis"
    with on_register_phase [of cf clk ud f s w] have "\<exists>m. register_ok cf (wd_tenants w) ud m (clk, Recv f)" by blast
    with False show False by (auto simp: register_ok_def) (metis prod.collapse)
  qed
  then show ?thesis using assms(1) by simp
qed

lemma auth_ok_grow: "tenants_grow g0 g \<Longrightarrow> auth_ok cf g ud n ci \<longleftrightarrow> auth_ok cf g0 ud n ci"
  by (simp add: auth_ok_def verify_auth_grow)

lemma subseq_last: "subseq [(clk, inp)] (ins @ [(clk, inp)])"
  using subseq_snoc [of "[]" ins "(clk, inp)"] by simp

lemma admission_inv_step:
  assumes inv: "admission_inv cf mid g0 (wd_tenants w) ins s" and grow: "tenants_grow g0 (wd_tenants w)" and ok: "reg_ok (wd_registry w)"
    and st: "session_step cf clk mid inp (s, w) = (s', w')" and ch: "listening s w"
  shows "admission_inv cf mid g0 (wd_tenants w') (ins @ [(clk, inp)]) s'"
proof (cases "se_phase s")
  case AwaitHello
  show ?thesis
  proof (cases inp)
    case (Recv f)
    define ud where "ud = (case de_hello (cf_serde cf) (payload f) of Some h \<Rightarrow> hello_user_domain h | None \<Rightarrow> [])"
    show ?thesis
      using st AwaitHello Recv subseq_last [of clk inp ins] on_hello_phase [OF ud_def, of "nonce (clk 0) mid" clk mid s]
      by (auto simp: session_step_def handshake_step_def admission_inv_def simp del: split_paired_Ex)
  qed (use st AwaitHello in \<open>auto simp: session_step_def handshake_step_def admission_inv_def close_with_def\<close>)
next
  case (AwaitAuth ud n)
  with inv obtain i1 where i: "subseq [i1] ins" "hello_ok cf mid ud n i1" by (auto simp: admission_inv_def)
  have "subseq [i1, (clk, inp)] (ins @ [(clk, inp)])" "subseq [i1] (ins @ [(clk, inp)])"
    using subseq_snoc [OF i(1), of "(clk, inp)"] subseq_more [OF i(1)] by simp_all
  note i = this i(2)
  show ?thesis
  proof (cases inp)
    case (Recv f)
    have "s' = on_auth cf ud n f s w" using st AwaitAuth Recv by (auto simp: session_step_def handshake_step_def)
    with on_auth_phase [of cf ud n f s w clk] auth_ok_grow [OF grow] Recv i show ?thesis
      by (auto simp: admission_inv_def simp del: split_paired_Ex; blast)
  qed (use st AwaitAuth i in \<open>auto simp: session_step_def handshake_step_def admission_inv_def close_with_def simp del: split_paired_Ex\<close>)
next
  case (AwaitRegister ud)
  with inv obtain i1 i2 n where i: "subseq [i1, i2] ins" "hello_ok cf mid ud n i1" "auth_ok cf g0 ud n i2" by (auto simp: admission_inv_def)
  have "subseq [i1, i2, (clk, inp)] (ins @ [(clk, inp)])" "subseq [i1, i2] (ins @ [(clk, inp)])"
    using subseq_snoc [OF i(1), of "(clk, inp)"] subseq_more [OF i(1)] by simp_all
  note i = this i(2,3)
  show ?thesis
  proof (cases inp)
    case (Recv f)
    have "on_register cf clk ud f s w = (s', w')" using st AwaitRegister Recv by (simp add: session_step_def handshake_step_def)
    from on_register_admits [OF this ok] Recv i show ?thesis
      by (auto simp: admission_inv_def simp del: split_paired_Ex; blast)
  qed (use st AwaitRegister i in \<open>(auto simp: session_step_def handshake_step_def admission_inv_def close_with_def simp del: split_paired_Ex; blast)+\<close>)
next
  case Ready
  obtain s1 w1 where r: "ready_step cf clk inp s w = (s1, w1)" by (rule prod.exhaust)
  have s': "same_id s s'" using ready_step_same [of s cf clk inp w] r st Ready by (auto simp: session_step_def)
  have "tenants_grow (wd_tenants w) (wd_tenants w')"
    using session_step_confined [OF ok ch _ st, of "se_domain s"] Ready by (simp add: works_for_def confined_def)
  from admission_inv_more [OF inv this] Ready s' show ?thesis
    by (auto simp: admission_inv_def same_id_def simp del: split_paired_Ex intro: subseq_more; blast intro: subseq_more)
next
  case Closed
  then show ?thesis using st by (auto simp: session_step_def admission_inv_def)
qed

lemma admission_inv_new [simp]: "admission_inv cf mid g0 g ins (session_new addr)"
  by (simp add: admission_inv_def session_new_def)

text \<open>The invariant of all sessions.\<close>

lemma server_admission:
  assumes "server_reach cf mid w0 evs (ss, w)" and "reg_ok (wd_registry w0)"
  shows "tenants_grow (wd_tenants w0) (wd_tenants w) \<and>
    (\<forall>i < length ss. admission_inv cf mid (wd_tenants w0) (wd_tenants w) (inputs_of i evs) (ss ! i))"
  using assms
proof (induction evs "(ss, w)" arbitrary: ss w rule: server_reach.induct)
  case start
  then show ?case by simp
next
  case (step evs ss w ev ss' w')
  have ok: "server_ok (ss, w)" by (rule server_reach_ok [OF step.hyps(1) step.prems])
  from step.hyps(2) [OF step.prems] have
    g: "tenants_grow (wd_tenants w0) (wd_tenants w)" and
    a: "\<And>j. j < length ss \<Longrightarrow> admission_inv cf mid (wd_tenants w0) (wd_tenants w) (inputs_of j evs) (ss ! j)" by auto
  show ?case
  proof (cases ev)
    case (Input i clk inp)
    with step.hyps(3) have i: "i < length ss" by simp
    obtain s' where st: "session_step cf clk mid inp (ss ! i, w) = (s', w')" and ss': "ss' = ss[i := s']"
      using step.hyps(4) Input i by (auto simp: server_step_def split: prod.splits)
    have l: "reg_ok (wd_registry w)" "listening (ss ! i) w" using ok i by (auto simp: server_ok_def)
    obtain e where "works_for (ss ! i) \<in> {None, Some e}" using works_for_one by blast
    from session_step_confined [OF l this st] have g1: "tenants_grow (wd_tenants w) (wd_tenants w')" by (simp add: confined_def)
    show ?thesis
      using tenants_grow_trans [OF g g1] admission_inv_step [OF a [OF i] g l(1) st l(2)] admission_inv_more [OF a g1]
      by (auto simp: ss' Input nth_list_update)
  next
    case (Accepted addr)
    with step.hyps(4) a g inputs_of_new [OF step.hyps(1), of "length ss"] show ?thesis
      by (auto simp: server_step_def nth_append less_Suc_eq)
  qed (use step.hyps(4) a g in \<open>auto simp: server_step_def\<close>)
qed

text \<open>
  C4: admission with any number of connections.  Whatever the order in which connections are accepted
  and their frames arrive, a connection that is ready has received, in this order, a HELLO that named
  its tenant, a message whose signature of the nonce of this very connection verifies under the key
  of the tenant, and a registration of its machine that is signed with the key that the table binds to
  the machine.  So two ready connections of one machine have shown the same machine key, also when
  they register at the same time.
\<close>

theorem admission_any_interleaving:
  assumes "server_reach cf mid w0 evs (ss, w)" and "st_registry (wd_state w0) = registry_default"
    and "i < length ss" and "se_phase (ss ! i) = Ready"
  shows "\<exists>i1 i2 i3 n pk. subseq [i1, i2, i3] (inputs_of i evs) \<and> hello_ok cf mid (se_domain (ss ! i)) n i1 \<and>
    auth_ok cf (wd_tenants w0) (se_domain (ss ! i)) n i2 \<and> shown_key cf (se_machine (ss ! i)) pk i3 \<and>
    bound_key (wd_tenants w) (se_domain (ss ! i)) (se_machine (ss ! i)) = Some pk"
  using server_admission [OF assms(1)] assms(2-4) reg_ok_default by (auto simp: wd_registry_def admission_inv_def simp del: split_paired_Ex)

section \<open>A sample run\<close>

text \<open>A connection that no other one interrupts runs as if it were alone.\<close>

lemma reach_inputs:
  assumes "server_reach cf mid w0 evs (ss, w)" and "i < length ss" and "session_run cf mid ins (ss ! i, w) = (s', w')"
  shows "server_reach cf mid w0 (evs @ map (\<lambda>(clk, inp). Input i clk inp) ins) (ss[i := s'], w')"
  using assms
proof (induction ins arbitrary: evs ss w)
  case Nil
  then show ?case by auto
next
  case (Cons x ins)
  obtain clk inp where x: "x = (clk, inp)" by (rule prod.exhaust)
  obtain s1 w1 where st: "session_step cf clk mid inp (ss ! i, w) = (s1, w1)" by (rule prod.exhaust)
  have "server_step cf mid (Input i clk inp) (ss, w) = (ss[i := s1], w1)" using Cons.prems(2) st by (simp add: server_step_def)
  with Cons.prems(1,2) have "server_reach cf mid w0 (evs @ [Input i clk inp]) (ss[i := s1], w1)"
    by (intro server_reach.step) simp_all
  with Cons.IH [of "evs @ [Input i clk inp]" "ss[i := s1]" w1] Cons.prems(2,3) x st show ?case by simp
qed

definition sample_inputs :: "(clock \<times> input) list" where
  "sample_inputs = replicate 3 (\<lambda>_. 0, Recv (frame_new Hello 0 []))"

text \<open>Two connections, of which the second is admitted.\<close>

definition sample_events :: "server_event list" where
  "sample_events = [Accepted ''b'', Accepted ''a''] @ map (\<lambda>(clk, inp). Input 1 clk inp) sample_inputs"

lemma sample_reach:
  "\<exists>s w. server_reach sample_config ''id'' sample_world sample_events ([session_new ''b'', s], w) \<and> se_phase s = Ready \<and> se_domain s = ''d''"
proof -
  obtain s' w' where run: "session_run sample_config ''id'' sample_inputs (session_new ''a'', sample_world) = (s', w')"
    and s': "se_phase s' = Ready" "se_domain s' = ''d''" using sample_admitted unfolding sample_inputs_def by blast
  have "server_reach sample_config ''id'' sample_world ([] @ [Accepted ''b'']) ([session_new ''b''], sample_world)"
    by (rule server_reach.step [OF server_reach.start]) (simp_all add: server_step_def)
  then have "server_reach sample_config ''id'' sample_world (([] @ [Accepted ''b'']) @ [Accepted ''a'']) ([session_new ''b'', session_new ''a''], sample_world)"
    by (rule server_reach.step) (simp_all add: server_step_def)
  from reach_inputs [OF this, of 1 sample_inputs s' w'] run s' show ?thesis by (auto simp: sample_events_def)
qed











theorem admission_any_interleaving_witness:
  "\<exists>ss w i2 n pk. server_reach sample_config ''id'' sample_world sample_events (ss, w) \<and>
     auth_ok sample_config (wd_tenants sample_world) ''d'' n i2 \<and> bound_key (wd_tenants w) ''d'' (se_machine (ss ! 1)) = Some pk"
proof -
  obtain s w where r: "server_reach sample_config ''id'' sample_world sample_events ([session_new ''b'', s], w)" "se_phase s = Ready" "se_domain s = ''d''"
    using sample_reach by blast
  from admission_any_interleaving [OF r(1), of 1] r obtain i2 n pk where
    "auth_ok sample_config (wd_tenants sample_world) ''d'' n i2" "bound_key (wd_tenants w) ''d'' (se_machine s) = Some pk"
    by (auto simp: sample_world_def server_state_new_def simp del: split_paired_Ex)
  with r(1) show ?thesis
    by (intro exI [of _ "[session_new ''b'', s]"] exI [of _ w] exI [of _ i2] exI [of _ n] exI [of _ pk]) simp
qed

end
