(* ===== verification/Watcher.thy ===== *)
theory Watcher
  imports Client_Main
begin

text \<open>
  The task of \<open>fs_mode\<close> in \<open>nsmt-client/src/main.rs\<close> that keeps a file watcher attached to the shared
  directory: a loop that creates the directory, attaches the watcher if it has to, sleeps, and looks
  whether the directory is still there.  The watcher itself (the crate \<open>notify\<close>) and other programs
  that delete and create the directory act between the turns.
\<close>

section \<open>State and steps\<close>

text \<open>
  \<open>w_dir\<close> says whether the shared directory exists, \<open>w_attached\<close> whether events of this directory
  reach the watcher; both belong to the surroundings, the flags to the task.
\<close>

record watcher =
  w_need_rewatch :: bool
  w_watching :: bool
  w_dir :: bool
  w_attached :: bool

definition watcher_new :: "bool \<Rightarrow> watcher" where
  "watcher_new d = \<lparr>w_need_rewatch = True, w_watching = False, w_dir = d, w_attached = False\<rparr>"

text \<open>The first half of a turn; \<open>made\<close> and \<open>watched\<close> tell whether the two system calls succeed.\<close>

definition watch_turn :: "bool \<Rightarrow> bool \<Rightarrow> watcher \<Rightarrow> watcher" where
  "watch_turn made watched w =
     (let w1 = w\<lparr>w_dir := w_dir w \<or> made\<rparr> in
      if w_need_rewatch w1 \<and> \<not> w_watching w1 then
        if watched \<and> w_dir w1 then w1\<lparr>w_watching := True, w_need_rewatch := False, w_attached := True\<rparr> else w1
      else w1)"

text \<open>The second half, after the sleep.\<close>

definition watch_check :: "watcher \<Rightarrow> watcher" where
  "watch_check w = (if \<not> w_dir w then w\<lparr>w_watching := False, w_need_rewatch := True\<rparr> else w)"

text \<open>The callback of the watcher on an error.\<close>

definition on_watch_error :: "watcher \<Rightarrow> watcher" where
  "on_watch_error w = w\<lparr>w_need_rewatch := True\<rparr>"

datatype watch_event =
    Turn bool bool
  | Check
  | Deleted
  | Recreated
  | BackendLost

text \<open>
  The directory is deleted, with or without an error event of the backend, or created again by
  another program, or the backend loses the directory and reports it.
\<close>

fun watch_exec :: "watch_event \<Rightarrow> watcher \<Rightarrow> watcher" where
  "watch_exec (Turn made watched) w = watch_turn made watched w"
| "watch_exec Check w = watch_check w"
| "watch_exec Deleted w = w\<lparr>w_dir := False, w_attached := False\<rparr>"
| "watch_exec Recreated w = w\<lparr>w_dir := True\<rparr>"
| "watch_exec BackendLost w = on_watch_error (w\<lparr>w_attached := False\<rparr>)"

inductive watch_reach :: "watcher \<Rightarrow> bool" where
  init: "watch_reach (watcher_new d)"
| step: "watch_reach w \<Longrightarrow> watch_reach (watch_exec e w)"

section \<open>Properties\<close>

definition watch_inv :: "watcher \<Rightarrow> bool" where
  "watch_inv w \<longleftrightarrow> (w_watching w \<or> w_need_rewatch w) \<and> (w_attached w \<longrightarrow> w_watching w \<and> w_dir w)"

lemma watch_inv_exec: "watch_inv w \<Longrightarrow> watch_inv (watch_exec e w)"
  by (cases e) (auto simp: watch_inv_def watch_turn_def watch_check_def on_watch_error_def Let_def)

lemma watch_inv_reach: "watch_reach w \<Longrightarrow> watch_inv w"
  by (induction rule: watch_reach.induct) (simp_all add: watch_inv_exec, simp add: watch_inv_def watcher_new_def)

text \<open>The events in which every check finds the directory.\<close>

fun found_at_checks :: "watch_event list \<Rightarrow> watcher \<Rightarrow> bool" where
  "found_at_checks [] w = True"
| "found_at_checks (e # es) w = ((e = Check \<longrightarrow> w_dir w) \<and> found_at_checks es (watch_exec e w))"

lemma lost_stays_lost:
  "w_watching w \<Longrightarrow> \<not> w_attached w \<Longrightarrow> found_at_checks es w \<Longrightarrow>
    \<not> w_attached (fold watch_exec es w) \<and> w_watching (fold watch_exec es w)"
proof (induction es arbitrary: w)
  case (Cons e es)
  have "w_watching (watch_exec e w) \<and> \<not> w_attached (watch_exec e w)"
    using Cons.prems by (cases e) (auto simp: watch_turn_def watch_check_def on_watch_error_def Let_def)
  with Cons.IH [of "watch_exec e w"] Cons.prems(3) show ?case by simp
qed simp

text \<open>
  What the self-healing watcher heals.  In every reachable state, a directory that is missing at
  the check after the sleep is watched again after the next turn in which the system calls succeed.
  But a watcher that the backend has lost, or whose directory was deleted and created again between
  two checks, is never attached again as long as every check finds the directory: the error event
  sets a flag that is only read when the task knows that it is not watching.
\<close>

theorem watcher_heals_missing_only:
  assumes "watch_reach w"
  shows "(\<not> w_dir w \<longrightarrow> w_attached (watch_turn True True (watch_check w))) \<and>
    (w_attached w \<longrightarrow> (\<forall>es e. e = BackendLost \<or> e = Deleted \<longrightarrow> found_at_checks es (watch_exec e w) \<longrightarrow>
       \<not> w_attached (fold watch_exec (e # es) w)))"
proof -
  have inv: "watch_inv w" by (rule watch_inv_reach [OF assms])
  have "\<not> w_attached (fold watch_exec es (watch_exec e w))"
    if "w_attached w" "e = BackendLost \<or> e = Deleted" "found_at_checks es (watch_exec e w)" for es e
  proof -
    have "w_watching (watch_exec e w)" "\<not> w_attached (watch_exec e w)"
      using that(1,2) inv by (auto simp: watch_inv_def on_watch_error_def)
    from lost_stays_lost [OF this that(3)] show ?thesis by simp
  qed
  then show ?thesis by (auto simp: watch_turn_def watch_check_def Let_def)
qed

theorem watcher_heals_missing_only_witness:
  "\<not> w_attached (fold watch_exec [BackendLost, Check, Turn True True, Check, Turn True True]
     (watch_turn True True (watcher_new False)))"
proof -
  let ?w = "watch_turn True True (watcher_new False)"
  have r: "watch_reach ?w" using watch_reach.step [OF watch_reach.init, of "Turn True True" False] by simp
  have a: "w_attached ?w" by (simp add: watch_turn_def watcher_new_def)
  have f: "found_at_checks [Check, Turn True True, Check, Turn True True] (watch_exec BackendLost ?w)"
    by (simp add: watch_turn_def watch_check_def watcher_new_def on_watch_error_def)
  from watcher_heals_missing_only [OF r] a f show ?thesis by fastforce
qed

end
