(* ===== verification/Calendar.thy ===== *)
theory Calendar
  imports Prelude "HOL-Library.Signed_Division"
begin

text \<open>
  Dates: \<open>civil_from_days\<close> and \<open>iso_now\<close> of \<open>nsmt-client/src/okf.rs\<close>.  The divisions of \<open>i64\<close>
  truncate (\<open>sdiv\<close>).  Days since the epoch stay far below the bounds of \<open>i64\<close>, since they come
  from a \<open>u64\<close> number of seconds divided by 86400; the model computes with unbounded integers.
\<close>

definition civil_from_days :: "int \<Rightarrow> int \<times> int \<times> int" where
  "civil_from_days z0 =
     (let z = z0 + 719468;
          era = (if z \<ge> 0 then z else z - 146096) sdiv 146097;
          doe = z - era * 146097;
          yoe = (doe - doe sdiv 1460 + doe sdiv 36524 - doe sdiv 146096) sdiv 365;
          y = yoe + era * 400;
          doy = doe - (365 * yoe + yoe sdiv 4 - yoe sdiv 100);
          mp = (5 * doy + 2) sdiv 153;
          d = doy - (153 * mp + 2) sdiv 5 + 1;
          m = (if mp < 10 then mp + 3 else mp - 9)
      in (if m \<le> 2 then y + 1 else y, m, d))"

text \<open>\<open>{:0w$}\<close> for non-negative numbers.\<close>

definition fmt_padded :: "nat \<Rightarrow> nat \<Rightarrow> string" where
  "fmt_padded w n = replicate (w - length (fmt_dec n)) CHR ''0'' @ fmt_dec n"

definition iso_of_secs :: "nat \<Rightarrow> string" where
  "iso_of_secs secs =
     (let days = secs div 86400; rem = secs mod 86400;
          h = rem div 3600; mi = (rem mod 3600) div 60; s = rem mod 60;
          (y, mo, d) = civil_from_days (int days)
      in fmt_padded 4 (nat y) @ ''-'' @ fmt_padded 2 (nat mo) @ ''-'' @ fmt_padded 2 (nat d) @ ''T'' @
         fmt_padded 2 h @ '':'' @ fmt_padded 2 mi @ '':'' @ fmt_padded 2 s @ ''Z'')"

section \<open>The Gregorian calendar\<close>

definition leap :: "int \<Rightarrow> bool" where
  "leap y \<longleftrightarrow> 4 dvd y \<and> (\<not> 100 dvd y \<or> 400 dvd y)"

definition month_days :: "int \<Rightarrow> int \<Rightarrow> int" where
  "month_days y m = (if m = 2 then (if leap y then 29 else 28) else if m \<in> {4, 6, 9, 11} then 30 else 31)"

definition next_day :: "int \<times> int \<times> int \<Rightarrow> int \<times> int \<times> int" where
  "next_day ymd =
     (case ymd of (y, m, d) \<Rightarrow>
        if d < month_days y m then (y, m, d + 1)
        else if m < 12 then (y, m + 1, 1) else (y + 1, 1, 1))"

section \<open>Years of an era\<close>

text \<open>The days of an era of 400 years, which starts on the first of March, before its year \<open>y\<close>.\<close>

definition days_before :: "int \<Rightarrow> int" where
  "days_before y = 365 * y + y div 4 - y div 100 + y div 400"

definition year_len :: "int \<Rightarrow> int" where
  "year_len y = (if leap (y + 1) then 366 else 365)"

definition plain_days :: "int \<Rightarrow> int" where
  "plain_days doe = doe - doe div 1460 + doe div 36524 - doe div 146096"

definition yoe_of :: "int \<Rightarrow> int" where
  "yoe_of doe = plain_days doe div 365"

lemma div_step:
  assumes "0 < (n :: int)"
  shows "(y + 1) div n = y div n + (if (y + 1) mod n = 0 then 1 else 0)"
proof -
  let ?q = "y div n" and ?r = "y mod n"
  have y: "y = n * ?q + ?r" and r: "0 \<le> ?r" "?r < n" using assms by simp_all
  show ?thesis
  proof (cases "?r + 1 = n")
    case True
    have "y + 1 = n * ?q + (?r + 1)" by simp
    then have "y + 1 = n * (?q + 1)" unfolding True by (simp add: algebra_simps)
    then show ?thesis using assms by simp
  next
    case False
    then have "(y + 1) div n = ?q \<and> (y + 1) mod n = ?r + 1"
      using r y by (intro conjI int_div_pos_eq [where r = "?r + 1"] int_mod_pos_eq [where q = "?q"]) simp_all
    then show ?thesis using r(1) by simp
  qed
qed

definition carry :: "int \<Rightarrow> int \<Rightarrow> int" where
  "carry n y = (if n dvd y + 1 then 1 else 0)"

lemma div_carry: "0 < n \<Longrightarrow> (y + 1) div n = y div n + carry n y"
  by (simp only: div_step carry_def mod_eq_0_iff_dvd)

lemma carry_mono: "n dvd m \<Longrightarrow> carry m y \<le> carry n y" "0 \<le> carry n y" "carry n y \<le> 1"
  by (auto simp: carry_def dest: dvd_trans)

lemma days_before_step: "days_before (y + 1) = days_before y + year_len y"
proof -
  have "days_before (y + 1) = 365 * (y + 1) + (y div 4 + carry 4 y) - (y div 100 + carry 100 y) + (y div 400 + carry 400 y)"
    unfolding days_before_def by (simp only: div_carry zero_less_numeral)
  moreover have "year_len y = 365 + (carry 4 y - carry 100 y + carry 400 y)"
  proof -
    have "400 dvd y + 1 \<Longrightarrow> 100 dvd y + 1" "100 dvd y + 1 \<Longrightarrow> 4 dvd y + 1"
      by (rule dvd_trans [of 100 400], simp_all) (rule dvd_trans [of 4 100], simp_all)
    then show ?thesis unfolding year_len_def leap_def carry_def
      by (cases "4 dvd y + 1"; cases "100 dvd y + 1"; cases "400 dvd y + 1") simp_all
  qed
  moreover have "365 * (y + 1) + (p + a) - (q + b) + (r + c) = (365 * y + p - q + r) + (365 + (a - b + c))" for p q r a b c :: int
    by simp
  ultimately show ?thesis by (simp only: days_before_def)
qed

lemma year_of_era:
  assumes "0 \<le> doe" and "doe < 146097"
  shows "\<exists>y. 0 \<le> y \<and> y < 400 \<and> days_before y \<le> doe \<and> doe < days_before y + year_len y"
proof -
  have "doe < days_before (int n) \<Longrightarrow> \<exists>y. 0 \<le> y \<and> y < int n \<and> days_before y \<le> doe \<and> doe < days_before y + year_len y" for n
  proof (induction n)
    case 0
    then show ?case using assms(1) by (simp add: days_before_def)
  next
    case (Suc n)
    show ?case
    proof (cases "doe < days_before (int n)")
      case True
      then show ?thesis using Suc.IH by fastforce
    next
      case False
      then show ?thesis using Suc.prems days_before_step [of "int n"] by (intro exI [of _ "int n"]) (simp add: add.commute)
    qed
  qed
  from this [of 400] assms(2) show ?thesis by (simp add: days_before_def)
qed

lemma mono_steps:
  assumes "\<And>x. (g :: int \<Rightarrow> int) x \<le> g (x + 1)" and "a \<le> b"
  shows "g a \<le> g b"
proof -
  have "g a \<le> g (a + int n)" for n
  proof (induction n)
    case (Suc n)
    then show ?case using assms(1) [of "a + int n"] by (simp add: algebra_simps)
  qed simp
  from this [of "nat (b - a)"] assms(2) show ?thesis by simp
qed

lemma days_before_mono: "a \<le> b \<Longrightarrow> days_before a \<le> days_before b"
  by (rule mono_steps) (simp_all add: days_before_step year_len_def)

lemma plain_days_mono:
  assumes "a \<le> b"
  shows "plain_days a \<le> plain_days b"
proof (rule mono_steps [OF _ assms])
  fix x
  have "plain_days (x + 1) = x + 1 - (x div 1460 + carry 1460 x) + (x div 36524 + carry 36524 x) - (x div 146096 + carry 146096 x)"
    unfolding plain_days_def by (simp only: div_carry zero_less_numeral)
  moreover have "carry 146096 x \<le> carry 36524 x" "carry 1460 x \<le> 1" by (rule carry_mono, simp) (rule carry_mono)
  moreover have "x - p + q - r \<le> x + 1 - (p + a) + (q + b) - (r + c)" if "c \<le> b" "a \<le> 1" for p q r a b c :: int
    using that by simp
  ultimately show "plain_days x \<le> plain_days (x + 1)" by (simp only: plain_days_def)
qed

lemma yoe_of_mono: "a \<le> b \<Longrightarrow> yoe_of a \<le> yoe_of b"
  unfolding yoe_of_def by (rule zdiv_mono1 [OF plain_days_mono]) simp_all

lemma yoe_of_ends:
  "list_all (\<lambda>y. yoe_of (days_before y) = y \<and> yoe_of (days_before y + year_len y - 1) = y) [0..399]"
  by code_simp

lemma yoe_of_day:
  assumes "0 \<le> y" and "y < 400" and "0 \<le> k" and "k < year_len y"
  shows "yoe_of (days_before y + k) = y"
proof -
  have e: "yoe_of (days_before y) = y" "yoe_of (days_before y + year_len y - 1) = y"
    using yoe_of_ends assms(1,2) by (auto simp: list_all_iff)
  have "0 \<le> days_before y" using assms(1,2) by (simp add: days_before_def)
  then have "yoe_of (days_before y) \<le> yoe_of (days_before y + k)" "yoe_of (days_before y + k) \<le> yoe_of (days_before y + year_len y - 1)"
    using assms(3,4) by (auto intro!: yoe_of_mono)
  then show ?thesis using e by simp
qed

section \<open>Months of a year\<close>

text \<open>Month and day of the day \<open>doy\<close> of a year that starts on the first of March.\<close>

definition month_of :: "int \<Rightarrow> int" where
  "month_of doy = (let mp = (5 * doy + 2) div 153 in if mp < 10 then mp + 3 else mp - 9)"

definition day_of :: "int \<Rightarrow> int" where
  "day_of doy = doy - (153 * ((5 * doy + 2) div 153) + 2) div 5 + 1"

definition date :: "int \<Rightarrow> int \<Rightarrow> int \<times> int \<times> int" where
  "date y doy = (if month_of doy \<le> 2 then y + 1 else y, month_of doy, day_of doy)"

text \<open>The month and the day after the day \<open>d\<close> of the month \<open>m\<close>, except for the end of February.\<close>

definition step_md :: "int \<Rightarrow> int \<Rightarrow> int \<Rightarrow> int \<Rightarrow> bool" where
  "step_md m d m' d' \<longleftrightarrow>
     (if m = 2 then d < 28 \<and> m' = 2 \<and> d' = d + 1
      else if d < (if m = 4 \<or> m = 6 \<or> m = 9 \<or> m = 11 then 30 else 31) then m' = m \<and> d' = d + 1
      else d' = 1 \<and> (if m < 12 then m' = m + 1 else m = 12 \<and> m' = 1))"

lemma months: "list_all (\<lambda>doy. step_md (month_of doy) (day_of doy) (month_of (doy + 1)) (day_of (doy + 1))) [0..363]"
  by code_simp

lemma next_day_step:
  assumes "step_md m d m' d'" and "1 \<le> m"
  shows "next_day (if m \<le> 2 then y + 1 else y, m, d) = (if m' \<le> 2 then y + 1 else y, m', d')"
  using assms by (auto simp: step_md_def next_day_def month_days_def split: if_splits)

lemma year_ends:
  "month_of 0 = 3" "day_of 0 = 1" "month_of 364 = 2" "day_of 364 = 28" "month_of 365 = 2" "day_of 365 = 29"
  by (simp_all add: month_of_def day_of_def)

lemma date_next:
  assumes "0 \<le> doy" and "doy + 1 < year_len y"
  shows "next_day (date y doy) = date y (doy + 1)"
proof (cases "doy = 364")
  case True
  then have "leap (y + 1)" using assms(2) by (simp add: year_len_def split: if_splits)
  then show ?thesis using True by (simp add: date_def year_ends next_day_def month_days_def)
next
  case False
  then have "doy \<in> set [0..363]" using assms by (auto simp: year_len_def split: if_splits)
  with months have "step_md (month_of doy) (day_of doy) (month_of (doy + 1)) (day_of (doy + 1))" by (simp only: list_all_iff)
  moreover have "1 \<le> month_of doy" using assms(1) by (simp add: month_of_def Let_def pos_imp_zdiv_nonneg_iff add_nonneg_nonneg)
  ultimately show ?thesis unfolding date_def by (rule next_day_step)
qed

lemma date_year_end:
  assumes "doy + 1 = year_len y"
  shows "next_day (date y doy) = date (y + 1) 0"
  using assms by (cases "leap (y + 1)") (auto simp: year_len_def date_def year_ends next_day_def month_days_def)

section \<open>The algorithm\<close>

lemma sdiv_nonneg: "0 \<le> (a :: int) \<Longrightarrow> 0 < b \<Longrightarrow> a sdiv b = a div b"
  by (cases "a = 0") (simp_all add: signed_divide_int_def)

lemma era_floor:
  assumes "0 < (n :: int)"
  shows "(if z \<ge> 0 then z else z - (n - 1)) sdiv n = z div n"
proof (cases "0 \<le> z")
  case False
  let ?q = "z div n" and ?r = "z mod n"
  have "(n - 1) - z = n * (- ?q) + (n - 1 - ?r)" by (simp add: minus_mod_eq_mult_div [symmetric])
  then have "((n - 1) - z) div n = - ?q"
    using assms pos_mod_bound [OF assms, of z] pos_mod_sign [OF assms, of z]
    by (intro int_div_pos_eq [where r = "n - 1 - ?r"]) simp_all
  moreover have "(z - (n - 1)) sdiv n = - (((n - 1) - z) div n)"
    using False assms by (simp add: signed_divide_int_def)
  ultimately show ?thesis using False by simp
qed (simp add: sdiv_nonneg assms)

lemma year_len_era: "year_len (400 * era + y) = year_len y"
proof -
  have "n dvd 400 * era + y + 1 \<longleftrightarrow> n dvd y + 1" if "n dvd 400" for n :: int
    using that by (metis add.assoc dvd_add_right_iff dvd_mult2)
  then show ?thesis by (simp add: year_len_def leap_def)
qed

lemma civil_date:
  assumes "z + 719468 = 146097 * era + (days_before y + doy)" and "0 \<le> y" and "y < 400" and "0 \<le> doy" and "doy < year_len y"
  shows "civil_from_days z = date (400 * era + y) doy"
proof -
  let ?doe = "days_before y + doy"
  have "days_before y + year_len y \<le> 146097"
  proof -
    have "days_before (y + 1) \<le> days_before 400"
      unfolding days_before_step [symmetric] using assms(2,3) days_before_mono by simp
    then show ?thesis by (simp add: days_before_step [symmetric] days_before_def [of 400])
  qed
  then have b: "0 \<le> ?doe" "?doe < 146097" using assms(2-5) days_before_mono [of 0 y] by (simp_all add: days_before_def [of 0])
  have era: "(if z + 719468 \<ge> 0 then z + 719468 else z + 719468 - 146096) sdiv 146097 = era"
  proof -
    have "(z + 719468) div 146097 = era" using int_div_pos_eq [OF assms(1)] b by simp
    moreover have "(146097 :: int) - 1 = 146096" "(0 :: int) < 146097" by simp_all
    ultimately show ?thesis using era_floor [of 146097 "z + 719468"] by (simp only:)
  qed
  have doe: "z + 719468 - era * 146097 = ?doe" using assms(1) by simp
  have g: "0 \<le> plain_days ?doe" using plain_days_mono [OF b(1)] by (simp add: plain_days_def [of 0])
  have yoe: "(?doe - ?doe sdiv 1460 + ?doe sdiv 36524 - ?doe sdiv 146096) sdiv 365 = y"
    using yoe_of_day [OF assms(2-5)] g b(1) by (simp add: sdiv_nonneg yoe_of_def plain_days_def)
  have doy: "?doe - (365 * y + y sdiv 4 - y sdiv 100) = doy"
    using assms(2,3) by (simp add: sdiv_nonneg days_before_def)
  show ?thesis
    unfolding civil_from_days_def Let_def era doe yoe doy using assms(4)
    by (simp add: date_def month_of_def day_of_def Let_def sdiv_nonneg add.commute)
qed

lemma civil_decompose:
  "\<exists>era y doy. z + 719468 = 146097 * era + (days_before y + doy) \<and> 0 \<le> y \<and> y < 400 \<and> 0 \<le> doy \<and> doy < year_len y"
proof -
  let ?doe = "(z + 719468) mod 146097"
  from year_of_era [of ?doe] obtain y where "0 \<le> y" "y < 400" "days_before y \<le> ?doe" "?doe < days_before y + year_len y" by auto
  then show ?thesis
    by (intro exI [of _ "(z + 719468) div 146097"] exI [of _ y] exI [of _ "?doe - days_before y"]) simp
qed

lemma civil_next: "civil_from_days 0 = (1970, 1, 1)" "civil_from_days (z + 1) = next_day (civil_from_days z)"
proof -
  obtain era y doy where z: "z + 719468 = 146097 * era + (days_before y + doy)" and r: "0 \<le> y" "y < 400" "0 \<le> doy" "doy < year_len y"
    using civil_decompose by blast
  note here = civil_date [OF z r]
  have "civil_from_days (z + 1) = next_day (civil_from_days z)"
  proof (cases "doy + 1 < year_len y")
    case True
    then have "civil_from_days (z + 1) = date (400 * era + y) (doy + 1)" using z r by (intro civil_date) simp_all
    moreover have "year_len (400 * era + y) = year_len y" by (rule year_len_era)
    ultimately show ?thesis using date_next [of doy "400 * era + y"] True r(3) by (simp add: here)
  next
    case False
    then have last: "doy + 1 = year_len y" using r(4) by simp
    have "civil_from_days (z + 1) = date (400 * era + y + 1) 0"
    proof (cases "y = 399")
      case True
      have "days_before y + year_len y = 146097" using days_before_step [of y] True by (simp add: days_before_def [of 400])
      then show ?thesis
        using civil_date [of "z + 1" "era + 1" 0 0] z last True by (simp add: days_before_def [of 0] year_len_def algebra_simps)
    next
      case False
      then show ?thesis using civil_date [of "z + 1" era "y + 1" 0] z last r days_before_step [of y]
        by (simp add: year_len_def add.assoc)
    qed
    then show ?thesis using date_year_end [of doy "400 * era + y"] last by (simp add: here year_len_era)
  qed
  then show "civil_from_days (z + 1) = next_day (civil_from_days z)" .
  show "civil_from_days 0 = (1970, 1, 1)" by code_simp
qed

section \<open>Properties\<close>

text \<open>
  \<open>civil_from_days\<close> is the proleptic Gregorian calendar.  Day 0 is the first of January 1970,
  and the date of every following day is the calendar successor of the date before it, for all
  days before and after the epoch.
\<close>

theorem civil_from_days_calendar:
  "civil_from_days 0 = (1970, 1, 1) \<and> civil_from_days (z + 1) = next_day (civil_from_days z)"
  using civil_next by blast

end
