(* ===== verification/Okf_Doc.thy ===== *)
theory Okf_Doc
  imports Calendar Conflicts
begin

text \<open>
  The documents of knowledge bundles, \<open>nsmt-client/src/okf.rs\<close>: front matter, links, dates, the
  update log and the line editor for front matter, as functions on texts.  The YAML parser
  (\<open>serde_yaml\<close>) is the parameter \<open>yaml\<close>: the parser, the lookup of a key, the text of a scalar and
  the shape of a value.
\<close>

section \<open>Strings\<close>

fun find_str :: "string \<Rightarrow> string \<Rightarrow> nat option" where
  "find_str n [] = (if n = [] then Some 0 else None)"
| "find_str n (c # s) = (if prefix n (c # s) then Some 0 else map_option Suc (find_str n s))"

section \<open>Front matter\<close>

datatype 'y shape = Sequence "'y list" | Scalar string | OtherShape

record 'y yaml =
  y_from_str :: "string \<Rightarrow> 'y option"
  y_get :: "'y \<Rightarrow> string \<Rightarrow> 'y option"
  y_as_str :: "'y \<Rightarrow> string option"
  y_shape :: "'y \<Rightarrow> 'y shape"

definition strip_bom :: "string \<Rightarrow> string" where
  "strip_bom s = (case strip_prefix [CHR 0xEF, CHR 0xBB, CHR 0xBF] s of Some r \<Rightarrow> r | None \<Rightarrow> s)"

definition nl_dashes :: string where "nl_dashes = [CHR 0x0A] @ ''---''"

definition parse_doc :: "'y yaml \<Rightarrow> string \<Rightarrow> ('y \<times> string) option" where
  "parse_doc Y content =
     (case strip_prefix ''---'' (strip_bom content) of
        None \<Rightarrow> None
      | Some rest \<Rightarrow>
         (case find_str nl_dashes rest of
            None \<Rightarrow> None
          | Some fin \<Rightarrow>
             (let fm = take fin rest; body = trim_start_matches CHR 0x0A (drop (fin + 4) rest) in
              map_option (\<lambda>v. (v, body)) (y_from_str Y fm))))"

definition load_concept :: "'y yaml \<Rightarrow> fs \<Rightarrow> path \<Rightarrow> ('y \<times> string) option" where
  "load_concept Y F p = (case fs_read_to_string F p of Inl _ \<Rightarrow> None | Inr raw \<Rightarrow> parse_doc Y raw)"

definition fm_str :: "'y yaml \<Rightarrow> 'y \<Rightarrow> string \<Rightarrow> string option" where
  "fm_str Y v key = Option.bind (y_get Y v key) (y_as_str Y)"

definition comma_list :: "string \<Rightarrow> string list" where
  "comma_list s = filter (\<lambda>x. x \<noteq> []) (map trim (split_char CHR '','' s))"

definition fm_tags :: "'y yaml \<Rightarrow> 'y \<Rightarrow> string list" where
  "fm_tags Y v =
     (case y_get Y v ''tags'' of
        None \<Rightarrow> []
      | Some t \<Rightarrow>
         (case y_shape Y t of
            Sequence xs \<Rightarrow> List.map_filter (y_as_str Y) xs
          | Scalar s \<Rightarrow> comma_list s
          | OtherShape \<Rightarrow> []))"

section \<open>Dates and links\<close>

definition is_iso8601 :: "string \<Rightarrow> bool" where
  "is_iso8601 s \<longleftrightarrow>
     length s \<ge> 20 \<and>
     list_all (\<lambda>i. is_ascii_digit (s ! i)) [0, 1, 2, 3, 5, 6, 8, 9, 11, 12, 14, 15, 17, 18] \<and>
     s ! 4 = CHR ''-'' \<and> s ! 7 = CHR ''-'' \<and> s ! 10 = CHR ''T'' \<and> s ! 13 = CHR '':'' \<and> s ! 16 = CHR '':'' \<and>
     s ! 19 \<in> {CHR ''Z'', CHR ''+'', CHR ''-''}"

function extract_md_links :: "string \<Rightarrow> string list" where
  "extract_md_links [] = []"
| "extract_md_links (c # cs) =
     (if c = CHR ''['' then
        (case find_char CHR '']'' cs of
           None \<Rightarrow> extract_md_links cs
         | Some close \<Rightarrow>
            (case drop (close + 1) cs of
               [] \<Rightarrow> extract_md_links cs
             | d # r \<Rightarrow>
                (if d = CHR ''('' then
                   (case find_char CHR '')'' r of
                      None \<Rightarrow> extract_md_links cs
                    | Some paren_end \<Rightarrow>
                       (let target = hd (split_char CHR '' '' (take paren_end r)) in
                        (if target \<noteq> [] then [target] else []) @ extract_md_links (drop (paren_end + 1) r)))
                 else extract_md_links cs)))
      else extract_md_links cs)"
  by pat_completeness auto
termination
proof (relation "measure length")
  show "wf (measure length)" by simp
next
  fix c d :: char and cs r :: string and paren_end close :: nat
  assume "drop (close + 1) cs = d # r"
  then have "length cs \<ge> Suc (length r)" by (metis length_Cons length_drop diff_le_self)
  then show "(drop (paren_end + 1) r, c # cs) \<in> measure length" by simp
qed simp_all

definition is_external_link :: "string \<Rightarrow> bool" where
  "is_external_link l \<longleftrightarrow> prefix ''http://'' l \<or> prefix ''https://'' l \<or> prefix ''#'' l \<or> prefix ''mailto:'' l \<or> prefix ''data:'' l"

definition resolve_link :: "path \<Rightarrow> path \<Rightarrow> string \<Rightarrow> path" where
  "resolve_link root doc_dir link =
     (case strip_prefix ''/'' link of Some p \<Rightarrow> join root p | None \<Rightarrow> join doc_dir link)"

section \<open>The update log\<close>

definition day_marker :: "nat \<Rightarrow> string" where
  "day_marker secs = ''## '' @ take 10 (iso_of_secs secs) @ [CHR 0x0A]"

definition empty_log :: string where
  "empty_log = ''# Directory Update Log'' @ [CHR 0x0A, CHR 0x0A]"

definition log_text :: "nat \<Rightarrow> string \<Rightarrow> string \<Rightarrow> string" where
  "log_text secs item_text content =
     (let marker = day_marker secs; item = ''* '' @ item_text @ [CHR 0x0A] in
      case find_str marker content of
        Some idx \<Rightarrow>
         (let seg = drop (idx + length marker) content;
              seg_end = (case find_str ([CHR 0x0A] @ ''## '') seg of
                           Some i \<Rightarrow> idx + length marker + i
                         | None \<Rightarrow> length content)
          in take seg_end content @ item @ drop seg_end content)
      | None \<Rightarrow> content @ [CHR 0x0A] @ marker @ item)"

definition append_log :: "nat \<Rightarrow> path \<Rightarrow> string \<Rightarrow> fs \<Rightarrow> (io_error + unit) \<times> fs" where
  "append_log secs root item_text F =
     (case fs_create_dir_all root F of
        Inl e \<Rightarrow> (Inl e, F)
      | Inr F1 \<Rightarrow>
         (let log_path = join root ''log.md'' in
          case (if fs_exists F1 log_path then fs_read_to_string F1 log_path else Inr empty_log) of
            Inl e \<Rightarrow> (Inl e, F1)
          | Inr content \<Rightarrow>
             (case fs_write log_path (as_bytes (log_text secs item_text content)) F1 of
                Inl e \<Rightarrow> (Inl e, F1)
              | Inr F2 \<Rightarrow> (Inr (), F2))))"

section \<open>The line editor\<close>

definition has_key :: "string \<Rightarrow> string \<Rightarrow> bool" where
  "has_key key l \<longleftrightarrow> prefix (key @ '':'') (trim_start l)"

definition edit_line :: "string \<Rightarrow> string \<Rightarrow> string \<Rightarrow> string" where
  "edit_line key val l =
     (let indent = take (length l - length (trim_start l)) l;
          comment = (if CHR ''#'' \<in> set l then dropWhile (\<lambda>c. c \<noteq> CHR ''#'') l else [])
      in indent @ key @ '':'' @ '' '' @ val @ trim_end comment)"

fun apply_change :: "string \<Rightarrow> string \<Rightarrow> string list \<Rightarrow> string list" where
  "apply_change key val [] = [key @ '': '' @ val]"
| "apply_change key val (l # ls) =
     (if has_key key l then edit_line key val l # ls else l # apply_change key val ls)"

fun apply_changes :: "(string \<times> string) list \<Rightarrow> string list \<Rightarrow> string list" where
  "apply_changes [] ls = ls"
| "apply_changes ((k, v) # cs) ls = apply_changes cs (apply_change k v ls)"

section \<open>Searching\<close>

lemma find_str_Some:
  "find_str n s = Some i \<Longrightarrow> prefix n (drop i s) \<and> i \<le> length s \<and> (\<forall>j < i. \<not> prefix n (drop j s))"
proof (induction s arbitrary: i)
  case Nil
  then show ?case by (simp split: if_splits)
next
  case (Cons c s)
  show ?case
  proof (cases "prefix n (c # s)")
    case False
    then obtain k where k: "i = Suc k" "find_str n s = Some k" using Cons.prems by auto
    have "\<not> prefix n (drop j (c # s))" if "j < i" for j using Cons.IH [OF k(2)] False that k(1) by (cases j) auto
    then show ?thesis using Cons.IH [OF k(2)] k(1) by auto
  qed (use Cons.prems in auto)
qed

lemma find_str_None: "find_str n s = None \<longleftrightarrow> (\<forall>j \<le> length s. \<not> prefix n (drop j s))"
proof (induction s)
  case (Cons c s)
  have "(\<forall>j \<le> length (c # s). \<not> prefix n (drop j (c # s))) \<longleftrightarrow>
      \<not> prefix n (c # s) \<and> (\<forall>j \<le> length s. \<not> prefix n (drop j s))"
    by (metis (no_types, lifting) Suc_le_mono drop0 drop_Suc_Cons le0 length_Cons not0_implies_Suc)
  then show ?case using Cons by simp
qed simp

lemma find_str_cut: "find_str h seg = Some i \<Longrightarrow> i \<le> length seg \<and> find_str h (take i seg) = None \<or> h = []"
proof -
  assume f: "find_str h seg = Some i"
  have "\<not> prefix h (drop j (take i seg))" if "h \<noteq> []" for j
  proof (cases "j < i")
    case True
    have "prefix (drop j (take i seg)) (drop j seg)" by (metis drop_take take_is_prefix)
    then show ?thesis using find_str_Some [OF f] True by (meson prefix_order.trans)
  qed (use that in simp)
  then show ?thesis using find_str_Some [OF f] by (auto simp: find_str_None)
qed

lemma find_str_at:
  assumes "\<forall>j < length a. \<not> prefix n (drop j (a @ n @ b))"
  shows "find_str n (a @ n @ b) = Some (length a)"
proof (cases "find_str n (a @ n @ b)")
  case None
  then show ?thesis unfolding find_str_None by (auto dest!: spec [of _ "length a"])
next
  case (Some i)
  from find_str_Some [OF Some] assms have "\<not> i < length a" "\<not> length a < i" by auto
  then show ?thesis using Some by simp
qed

section \<open>Documents\<close>

text \<open>The text that \<open>add\<close> writes: the fields between two rules, then the title.\<close>

definition doc_text :: "string \<Rightarrow> string \<Rightarrow> string" where
  "doc_text fm title = ''---'' @ [CHR 0x0A] @ fm @ ''---'' @ [CHR 0x0A, CHR 0x0A] @ ''# '' @ title @ [CHR 0x0A, CHR 0x0A]"

lemma rule_inside:
  assumes "prefix nl_dashes (x @ nl_dashes @ b)" and "x \<noteq> []"
  shows "prefix nl_dashes x"
proof (cases "length x < 4")
  case True
  then obtain c1 c2 c3 where "x = [c1] \<or> x = [c1, c2] \<or> x = [c1, c2, c3]"
    using assms(2) by (cases x rule: list.exhaust; cases "tl x" rule: list.exhaust; cases "tl (tl x)" rule: list.exhaust) auto
  then show ?thesis using assms(1) by (auto simp: nl_dashes_def)
next
  case False
  then obtain c1 c2 c3 c4 r where "x = c1 # c2 # c3 # c4 # r" by (auto simp: numeral_eq_Suc Suc_le_length_iff not_less)
  then show ?thesis using assms(1) by (auto simp: nl_dashes_def)
qed

text \<open>
  What is written as front matter is read back.  For fields that end with a line end and
  contain no rule at the start of a line, the document parses to exactly what the YAML parser makes
  of the fields, with the title as its body.
\<close>

lemma parse_doc_text:
  assumes "find_str nl_dashes ([CHR 0x0A] @ ls) = None"
  shows "parse_doc Y (doc_text (ls @ [CHR 0x0A]) title) =
    map_option (\<lambda>v. (v, ''# '' @ title @ [CHR 0x0A, CHR 0x0A])) (y_from_str Y ([CHR 0x0A] @ ls))"
proof -
  let ?a = "[CHR 0x0A] @ ls" and ?b = "[CHR 0x0A, CHR 0x0A] @ ''# '' @ title @ [CHR 0x0A, CHR 0x0A]"
  have "\<not> prefix nl_dashes (drop j (?a @ nl_dashes @ ?b))" if "j < length ?a" for j
  proof
    assume "prefix nl_dashes (drop j (?a @ nl_dashes @ ?b))"
    then have "prefix nl_dashes (drop j ?a @ nl_dashes @ ?b)" using that by (simp only: drop_append) simp
    then have "prefix nl_dashes (drop j ?a)" by (rule rule_inside) (use that in simp)
    then show False using assms that unfolding find_str_None by (meson less_imp_le)
  qed
  then have f: "find_str nl_dashes (?a @ nl_dashes @ ?b) = Some (length ?a)" by (intro find_str_at) simp
  have d: "strip_prefix ''---'' (strip_bom (doc_text (ls @ [CHR 0x0A]) title)) = Some (?a @ nl_dashes @ ?b)"
    by (simp add: strip_bom_def doc_text_def strip_prefix_def nl_dashes_def)
  have "drop (length ?a + length nl_dashes) (?a @ nl_dashes @ ?b) = ?b" by (metis append.assoc append_eq_conv_conj length_append)
  moreover have "length nl_dashes = 4" by (simp add: nl_dashes_def)
  ultimately have "drop (length ?a + 4) (?a @ nl_dashes @ ?b) = ?b" by (simp only:)
  then show ?thesis
    unfolding parse_doc_def d option.case f Let_def by (simp add: trim_start_matches_def)
qed

section \<open>The log\<close>

lemma log_text_split:
  fixes secs :: nat and msg :: string
  defines "item \<equiv> ''* '' @ msg @ [CHR 0x0A]"
  shows "(\<exists>u v post. content = (u @ day_marker secs @ v) @ post \<and> find_str ([CHR 0x0A] @ ''## '') v = None \<and>
      (post = [] \<or> hd post = CHR 0x0A) \<and> log_text secs msg content = (u @ day_marker secs @ v) @ item @ post) \<or>
    find_str (day_marker secs) content = None \<and>
      log_text secs msg content = content @ [CHR 0x0A] @ day_marker secs @ item"
proof (cases "find_str (day_marker secs) content")
  case None
  then show ?thesis by (simp add: log_text_def item_def)
next
  case (Some idx)
  define m where "m = day_marker secs"
  define h where "h = [CHR 0x0A] @ ''## ''"
  define u where "u = take idx content"
  define seg where "seg = drop (idx + length m) content"
  define k where "k = (case find_str h seg of Some i \<Rightarrow> i | None \<Rightarrow> length seg)"
  note f = find_str_Some [OF Some, folded m_def]
  then obtain r where r: "drop idx content = m @ r" by (auto simp: prefix_def)
  then have "seg = r" unfolding seg_def by (metis append_eq_conv_conj drop_drop add.commute)
  with r have c: "content = u @ m @ seg" unfolding u_def by (metis append_take_drop_id)
  have idx: "length u = idx" using f by (simp add: u_def)
  have k: "k \<le> length seg" "find_str h (take k seg) = None"
    unfolding k_def using find_str_cut [of h seg] by (auto simp: h_def split: option.splits)
  have hd: "drop k seg = [] \<or> hd (drop k seg) = CHR 0x0A"
    unfolding k_def using find_str_Some [of h seg] by (cases "find_str h seg") (auto simp: h_def prefix_def)
  have "log_text secs msg content = take (idx + length m + k) content @ item @ drop (idx + length m + k) content"
    unfolding log_text_def Let_def m_def [symmetric] h_def [symmetric] Some [folded m_def] option.case seg_def [symmetric]
      item_def [symmetric] using arg_cong [OF c, of length] idx by (cases "find_str h seg") (simp_all add: k_def)
  moreover have "take (idx + length m + k) content = u @ m @ take k seg" "drop (idx + length m + k) content = drop k seg"
    unfolding c idx [symmetric] by simp_all
  ultimately have "log_text secs msg content = (u @ m @ take k seg) @ item @ drop k seg" by simp
  moreover have "content = (u @ m @ take k seg) @ drop k seg" using c by simp
  ultimately show ?thesis using k(2) hd unfolding m_def [symmetric] h_def [symmetric] by blast
qed

text \<open>
  The log only grows, and an entry lands in the section of its day.  Either the new item is
  inserted between two parts of the old text, after the heading of the day with no other heading
  in between, or the old text has no such heading and the heading and the item are appended to it.
\<close>

theorem log_text_inserts:
  "(\<exists>u v post. content = (u @ day_marker secs @ v) @ post \<and> find_str ([CHR 0x0A] @ ''## '') v = None \<and>
      log_text secs msg content = (u @ day_marker secs @ v) @ (''* '' @ msg @ [CHR 0x0A]) @ post) \<or>
    find_str (day_marker secs) content = None \<and>
      log_text secs msg content = content @ [CHR 0x0A] @ day_marker secs @ ''* '' @ msg @ [CHR 0x0A]"
  using log_text_split [of content secs msg] by blast

text \<open>The log stays readable as UTF-8: an entry is put in front of a line end or at the end.\<close>

lemma ascii_digit: "is_ascii_digit c \<Longrightarrow> ascii c"
  by (simp add: ascii_def word_le_nat_alt unat_of_char is_ascii_digit_def less_eq_char_def)

section \<open>Edits\<close>

lemma apply_change_keeps: "\<forall>l \<in> set ls. P l \<longrightarrow> \<not> has_key k l \<Longrightarrow> subseq (filter P ls) (apply_change k v ls)"
proof (induction ls)
  case (Cons l ls)
  have "subseq (filter P ls) ls" by (rule subseq_filter_left)
  then show ?case using Cons by (cases "has_key k l"; cases "P l") (auto intro: list_emb_Cons)
qed simp

lemma length_apply_change: "length (apply_change k v ls) \<le> Suc (length ls)"
  by (induction ls) auto

lemma apply_changes_keeps:
  "\<forall>l. P l \<longrightarrow> (\<forall>(k, v) \<in> set changes. \<not> has_key k l) \<Longrightarrow> subseq (filter P ls) (apply_changes changes ls)"
proof (induction changes ls rule: apply_changes.induct)
  case (2 k v cs ls)
  from 2(2) have P: "\<forall>l \<in> set ls. P l \<longrightarrow> \<not> has_key k l" "\<forall>l. P l \<longrightarrow> (\<forall>(k, v) \<in> set cs. \<not> has_key k l)" by simp_all
  have "subseq (filter P ls) (apply_change k v ls)" by (rule apply_change_keeps [OF P(1)])
  then have "subseq (filter P (filter P ls)) (filter P (apply_change k v ls))" by (rule subseq_filter)
  then have "subseq (filter P ls) (filter P (apply_change k v ls))" by simp
  also have "subseq (filter P (apply_change k v ls)) (apply_changes cs (apply_change k v ls))" by (rule 2(1) [OF P(2)])
  finally show ?case by simp
qed (simp add: subseq_filter_left)

lemma length_apply_changes: "length (apply_changes changes ls) \<le> length ls + length changes"
proof (induction changes ls rule: apply_changes.induct)
  case (2 k v cs ls)
  then show ?case using length_apply_change [of k v ls] by simp
qed simp

text \<open>
  An edit leaves the other lines alone.  The lines of the front matter that carry none of the
  changed keys are all in the result, unchanged and in their order, and at most one line is added
  for each change.
\<close>

theorem edit_keeps_other_lines:
  "subseq (filter (\<lambda>l. \<forall>(k, v) \<in> set changes. \<not> has_key k l) ls) (apply_changes changes ls) \<and>
   length (apply_changes changes ls) \<le> length ls + length changes"
  using apply_changes_keeps [of "\<lambda>l. \<forall>(k, v) \<in> set changes. \<not> has_key k l" changes ls] length_apply_changes by simp

lemma trim_hex_ends:
  assumes "is_ascii_hexdigit c"
  shows "trim_start (c # t) = c # t" and "trim_end (t @ [c]) = t @ [c]"
proof -
  have n: "\<not> prefix w (c # u)" if "w \<noteq> []" "\<not> is_ascii_hexdigit (hd w)" for w u using that assms by (cases w) auto
  then have "\<forall>w \<in> set ws_encodings. \<not> prefix w (c # t)" "\<forall>w \<in> set (map rev ws_encodings). \<not> prefix w (c # rev t)"
    using ws_not_hex by (auto simp: hd_rev)
  then show "trim_start (c # t) = c # t" "trim_end (t @ [c]) = t @ [c]"
    unfolding trim_start_def trim_end_def by (simp_all add: trim_with_none)
qed

theorem edit_keeps_other_lines_witness: "subseq [''b: 1''] (apply_changes [(''a'', ''2'')] [''a: 1'', ''b: 1''])"
proof -
  have "\<not> has_key ''a'' ''b: 1''" "has_key ''a'' ''a: 1''" by (simp_all add: has_key_def trim_hex_ends(1) hexdigit_code)
  then show ?thesis using edit_keeps_other_lines [of "[(''a'', ''2'')]" "[''a: 1'', ''b: 1'']"] by simp
qed

text \<open>A value with a hash is taken for a comment and stays behind its replacement.\<close>

lemma edit_keeps_hash_of_value: "edit_line ''a'' ''Java'' ''a: C# code'' = ''a: Java# code''"
proof -
  have "trim_start ''a: C# code'' = ''a: C# code''" by (simp add: trim_hex_ends(1) hexdigit_code)
  moreover have "trim_end (''# cod'' @ ''e'') = ''# cod'' @ ''e''" by (rule trim_hex_ends(2)) (simp add: hexdigit_code)
  ultimately show ?thesis by (simp add: edit_line_def Let_def)
qed

section \<open>Time stamps\<close>

definition valid_date :: "int \<times> int \<times> int \<Rightarrow> bool" where
  "valid_date ymd \<longleftrightarrow> (case ymd of (y, m, d) \<Rightarrow> 1 \<le> m \<and> m \<le> 12 \<and> 1 \<le> d \<and> d \<le> month_days y m)"

lemma valid_next: "valid_date ymd \<Longrightarrow> valid_date (next_day ymd)"
  by (cases ymd) (auto simp: valid_date_def next_day_def month_days_def)

lemma year_next: "fst ymd \<le> fst (next_day ymd)"
  by (cases ymd) (simp add: next_day_def)

lemma civil_valid: "valid_date (civil_from_days (int n)) \<and> 1970 \<le> fst (civil_from_days (int n))"
proof (induction n)
  case 0
  then show ?case using civil_next(1) by (simp add: valid_date_def month_days_def)
next
  case (Suc n)
  have "civil_from_days (int (Suc n)) = next_day (civil_from_days (int n))" using civil_next(2) [of "int n"] by (simp add: add.commute)
  then show ?case using Suc valid_next year_next [of "civil_from_days (int n)"] by simp
qed

lemma year_mono: "fst (civil_from_days z) \<le> fst (civil_from_days (z + int n))"
proof (induction n)
  case (Suc n)
  have "civil_from_days (z + int (Suc n)) = next_day (civil_from_days (z + int n))" using civil_next(2) [of "z + int n"] by (simp add: add.commute add.left_commute)
  then show ?case using Suc year_next [of "civil_from_days (z + int n)"] by simp
qed simp

lemma year_below:
  assumes "z \<le> 2932896"
  shows "fst (civil_from_days z) \<le> 9999"
proof -
  have "civil_from_days 2932896 = (9999, 12, 31)" by code_simp
  then show ?thesis using year_mono [of z "nat (2932896 - z)"] assms by simp
qed

lemma fmt_dec_length: "n < 10 ^ Suc w \<Longrightarrow> length (fmt_dec n) \<le> Suc w"
proof (induction w arbitrary: n)
  case 0
  then show ?case by (subst fmt_dec.simps) simp
next
  case (Suc w)
  then have "n div 10 < 10 ^ Suc w" by (simp add: less_mult_imp_div_less mult.commute)
  from Suc.IH [OF this] show ?case by (subst fmt_dec.simps) simp
qed

lemma fmt_dec_digits: "list_all is_ascii_digit (fmt_dec n)"
proof -
  have d: "is_ascii_digit (char_of (48 + m))" if "m < 10" for m :: nat
    using that by (simp add: is_ascii_digit_def less_eq_char_def)
  show ?thesis by (induction n rule: fmt_dec.induct) (subst fmt_dec.simps, simp add: d)
qed

lemma fmt_padded_shape:
  assumes "n < 10 ^ Suc w"
  shows "length (fmt_padded (Suc w) n) = Suc w" and "list_all is_ascii_digit (fmt_padded (Suc w) n)"
  using fmt_dec_length [OF assms] fmt_dec_digits [of n]
  by (simp_all add: fmt_padded_def list_all_append) (simp add: list_all_iff is_ascii_digit_def)

lemma fmt_padded_digits: "list_all is_ascii_digit (fmt_padded w n)"
  using fmt_dec_digits [of n] by (simp add: fmt_padded_def list_all_append) (simp add: list_all_iff is_ascii_digit_def)

lemma day_marker_ascii: "list_all ascii (day_marker secs)"
proof -
  have "list_all ascii (fmt_padded w n)" for w n
    using fmt_padded_digits [of w n] ascii_digit by (auto simp: list_all_iff)
  then have "list_all ascii (iso_of_secs secs)"
    by (auto simp: iso_of_secs_def Let_def list_all_append ascii_def split: prod.splits)
  then have "list_all ascii (take 10 (iso_of_secs secs))" by (auto simp: list_all_iff dest: in_set_takeD)
  then show ?thesis by (simp add: day_marker_def list_all_append ascii_def)
qed

lemma log_text_utf8:
  assumes "valid_utf8 (as_bytes content)" and "valid_utf8 (as_bytes msg)"
  shows "valid_utf8 (as_bytes (log_text secs msg content))"
proof -
  have nl: "valid_utf8 (as_bytes [CHR 0x0A])" and st: "valid_utf8 (as_bytes ''* '')"
    by (rule valid_utf8_ascii, simp add: ascii_def)+
  note good = valid_utf8_append valid_utf8_ascii [OF day_marker_ascii [of secs]] nl st assms
  consider (sec) u v post where "content = (u @ day_marker secs @ v) @ post" "post = [] \<or> hd post = CHR 0x0A"
      "log_text secs msg content = (u @ day_marker secs @ v) @ (''* '' @ msg @ [CHR 0x0A]) @ post"
    | (new) "log_text secs msg content = content @ [CHR 0x0A] @ day_marker secs @ ''* '' @ msg @ [CHR 0x0A]"
    using log_text_split [of content secs msg] by blast
  then show ?thesis
  proof cases
    case sec
    let ?a = "u @ day_marker secs @ v"
    have "as_bytes post = [] \<or> hd (as_bytes post) \<le> 0x7F" using sec(2) by (cases post) (auto simp: as_bytes_def)
    then have a: "valid_utf8 (as_bytes ?a)" using assms(1) valid_utf8_front unfolding sec(1) as_bytes_append [of ?a] by blast
    then have "valid_utf8 (as_bytes post)" using assms(1) valid_utf8_append unfolding sec(1) as_bytes_append [of ?a] by blast
    with a show ?thesis unfolding sec(3) as_bytes_append [of ?a] by (simp only: as_bytes_append [of "''* '' @ msg @ [CHR 0x0A]" post] valid_utf8_append as_bytes_append [of "''* ''"] as_bytes_append [of msg] good)
  next
    case new
    show ?thesis unfolding new by (simp only: as_bytes_append good)
  qed
qed

lemma length_two: "length xs = 2 \<Longrightarrow> \<exists>p q. xs = [p, q]"
  by (auto simp: length_Suc_conv numeral_2_eq_2)

lemma two_digits: "n < 100 \<Longrightarrow> \<exists>p q. fmt_padded 2 n = [p, q] \<and> is_ascii_digit p \<and> is_ascii_digit q"
  using fmt_padded_shape [of n 1] length_two [of "fmt_padded 2 n"] by (auto simp: numeral_2_eq_2)

lemma four_digits:
  assumes "n < 10000"
  shows "\<exists>a b c d. fmt_padded 4 n = [a, b, c, d] \<and> is_ascii_digit a \<and> is_ascii_digit b \<and> is_ascii_digit c \<and> is_ascii_digit d"
proof -
  have f: "length (fmt_padded 4 n) = 4" "list_all is_ascii_digit (fmt_padded 4 n)"
    using fmt_padded_shape [of n 3] assms by simp_all
  then obtain p q where "fmt_padded 4 n = p @ q" "length p = 2" "length q = 2"
    by (metis append_take_drop_id length_drop length_take min.absorb2 numeral_Bit0 diff_add_inverse le_add1)
  then show ?thesis using f(2) length_two [of p] length_two [of q] by fastforce
qed

lemma civil_bounds:
  assumes "secs < 253402300800" and "civil_from_days (int (secs div 86400)) = (y, m, d)"
  shows "nat y < 10000" "nat m < 100" "nat d < 100"
proof -
  have "secs div 86400 < 2932897" by (rule less_mult_imp_div_less) (use assms(1) in simp)
  then have "int (secs div 86400) \<le> 2932896" by linarith
  from year_below [OF this] show "nat y < 10000" by (simp add: assms(2))
  have "valid_date (y, m, d)" using civil_valid [of "secs div 86400"] by (simp only: assms(2))
  then have "m \<le> 12" "d \<le> 31" by (auto simp: valid_date_def month_days_def split: if_splits)
  then show "nat m < 100" "nat d < 100" by simp_all
qed

lemma iso_shape:
  assumes "is_ascii_digit a" "is_ascii_digit b" "is_ascii_digit c" "is_ascii_digit d" "is_ascii_digit e" "is_ascii_digit f"
    "is_ascii_digit g" "is_ascii_digit h" "is_ascii_digit i" "is_ascii_digit j" "is_ascii_digit k" "is_ascii_digit l"
    "is_ascii_digit m" "is_ascii_digit n"
  shows "is_iso8601 [a, b, c, d, CHR ''-'', e, f, CHR ''-'', g, h, CHR ''T'', i, j, CHR '':'', k, l, CHR '':'', m, n, CHR ''Z'']"
  using assms by (simp add: is_iso8601_def)

text \<open>
  The time stamps that are written pass the check of the linter.  Up to the end of the year
  9999 \<open>iso_now\<close> has 20 characters in the form that \<open>is_iso8601\<close> asks for.
\<close>

theorem iso_of_secs_accepted:
  assumes "secs < 253402300800"
  shows "length (iso_of_secs secs) = 20 \<and> is_iso8601 (iso_of_secs secs)"
proof -
  obtain y m d where ymd: "civil_from_days (int (secs div 86400)) = (y, m, d)" by (cases "civil_from_days (int (secs div 86400))") auto
  note b = civil_bounds [OF assms ymd]
  have "secs mod 86400 div 3600 < 100" "secs mod 86400 mod 3600 div 60 < 100" "secs mod 86400 mod 60 < 100"
    by (simp_all add: less_mult_imp_div_less)
  note t = four_digits [OF b(1)] two_digits [OF b(2)] two_digits [OF b(3)] this [THEN two_digits]
  have "iso_of_secs secs = fmt_padded 4 (nat y) @ ''-'' @ fmt_padded 2 (nat m) @ ''-'' @ fmt_padded 2 (nat d) @ ''T'' @
      fmt_padded 2 (secs mod 86400 div 3600) @ '':'' @ fmt_padded 2 (secs mod 86400 mod 3600 div 60) @ '':'' @
      fmt_padded 2 (secs mod 86400 mod 60) @ ''Z''"
    by (simp only: iso_of_secs_def Let_def ymd prod.case)
  with t show ?thesis by (elim exE conjE) (simp add: iso_shape)
qed

theorem iso_of_secs_accepted_witness: "is_iso8601 (iso_of_secs 1788156000)"
  using iso_of_secs_accepted [of 1788156000] by simp

end
