(* ===== verification/Dir_Moves.thy ===== *)
theory Dir_Moves
  imports Dir_Scan
begin

text \<open>
  Moving and removing directories (\<open>std::fs::rename\<close> and \<open>std::fs::remove_dir_all\<close>), and that the
  entries that remain are well formed.
\<close>

section \<open>Calls\<close>

definition moved :: "string list \<Rightarrow> string list \<Rightarrow> string list \<Rightarrow> string list" where
  "moved cs ds q = (if prefix cs q then ds @ drop (length cs) q else q)"

definition rebase :: "string list \<Rightarrow> string list \<Rightarrow> (string list, node) hmap \<Rightarrow> (string list, node) hmap" where
  "rebase cs ds ns = map (\<lambda>(q, n). (moved cs ds q, n)) ns"

text \<open>
  \<open>std::fs::rename\<close>: a directory moves with all it contains and the working directory with it, not
  into itself and not over a directory that has entries.  That the replaced empty directory is the
  working directory is not distinguished from its move.
\<close>

definition fs_rename :: "path \<Rightarrow> path \<Rightarrow> fs \<Rightarrow> io_error + fs" where
  "fs_rename p q F = and_then (resolve F p) (\<lambda>cs. and_then (resolve F q) (\<lambda>ds.
     (case node_at F cs of
        None \<Rightarrow> Inl NotFound
      | Some (File bs) \<Rightarrow>
          (case node_at F ds of
             Some Dir \<Rightarrow> Inl IsADirectory
           | _ \<Rightarrow> and_then (parent_dir F ds) (\<lambda>_.
               Inr (if ds = cs then F else set_node ds (File bs) (F\<lparr>nodes := hm_remove cs (nodes F)\<rparr>))))
      | Some Dir \<Rightarrow>
          if strict_prefix cs ds then Inl (OtherIo ''InvalidInput'')
          else and_then (parent_dir F ds) (\<lambda>_.
            (case node_at F ds of
               Some (File _) \<Rightarrow> Inl NotADirectory
             | Some Dir \<Rightarrow>
                 if ds = cs then Inr F
                 else if children F ds \<noteq> [] then Inl DirectoryNotEmpty
                 else Inr (F\<lparr>cwd := moved cs ds (cwd F), nodes := rebase cs ds (hm_remove ds (nodes F))\<rparr>)
             | None \<Rightarrow> Inr (F\<lparr>cwd := moved cs ds (cwd F), nodes := rebase cs ds (nodes F)\<rparr>))))))"

definition fs_remove_dir_all :: "path \<Rightarrow> fs \<Rightarrow> io_error + fs" where
  "fs_remove_dir_all p F = and_then (resolve F p) (\<lambda>cs.
     (case node_at F cs of
        None \<Rightarrow> Inl NotFound
      | Some (File _) \<Rightarrow> Inl NotADirectory
      | Some Dir \<Rightarrow> Inr (F\<lparr>nodes := hm_retain (\<lambda>q n. \<not> prefix cs q) (nodes F)\<rparr>)))"

section \<open>Well-formed entries\<close>

text \<open>Well formed, except that the working directory may be gone.\<close>

definition tree_ok :: "fs \<Rightarrow> bool" where
  "tree_ok F \<longleftrightarrow> fs_ok (F\<lparr>cwd := []\<rparr>)"

lemma node_at_cwd [simp]: "node_at (F\<lparr>cwd := d\<rparr>) q = node_at F q"
  by (simp add: node_at_def)

lemma fs_ok_tree: "fs_ok F \<longleftrightarrow> tree_ok F \<and> node_at F (cwd F) = Some Dir"
  by (auto simp: tree_ok_def fs_ok_def)

lemma tree_ok_keys: "tree_ok F \<longleftrightarrow> hm_ok (nodes F) \<and>
    (\<forall>q \<in> set (hm_keys (nodes F)). q \<noteq> [] \<and> simple_name (last q) \<and> node_at F (butlast q) = Some Dir)"
  by (simp add: tree_ok_def fs_ok_def)

lemma tree_ok_cwd [simp]: "tree_ok (F\<lparr>cwd := d\<rparr>) \<longleftrightarrow> tree_ok F"
  by (simp add: tree_ok_def)

lemma node_key: "q \<noteq> [] \<Longrightarrow> node_at F q \<noteq> None \<longleftrightarrow> q \<in> set (hm_keys (nodes F))"
  by (simp add: hm_keys_iff node_at_def)

lemma moved_inj:
  assumes "\<forall>q \<in> S. \<not> prefix ds q"
  shows "inj_on (moved cs ds) S"
proof (rule inj_onI)
  fix q r
  assume *: "q \<in> S" "r \<in> S" "moved cs ds q = moved cs ds r"
  show "q = r"
  proof (cases "prefix cs q \<and> prefix cs r")
    case True
    then obtain u v where "q = cs @ u" "r = cs @ v" by (auto simp: prefix_def)
    then show ?thesis using * by (simp add: moved_def)
  next
    case False
    then show ?thesis using * assms by (auto simp: moved_def split: if_splits)
  qed
qed

lemma hm_get_rebase:
  "inj_on (moved cs ds) (insert q (fst ` set ns)) \<Longrightarrow> hm_get (rebase cs ds ns) (moved cs ds q) = hm_get ns q"
proof (induction ns)
  case (Cons e ns)
  have "moved cs ds (fst e) = moved cs ds q \<longleftrightarrow> fst e = q" using Cons.prems by (auto simp: inj_on_def)
  moreover have "inj_on (moved cs ds) (insert q (fst ` set ns))" using Cons.prems by (rule inj_on_subset) auto
  ultimately show ?case using Cons.IH by (cases e) (auto simp: rebase_def hm_get_def)
qed (simp add: rebase_def)

lemma hm_keys_rebase: "hm_keys (rebase cs ds ns) = map (moved cs ds) (hm_keys ns)"
  by (auto simp: hm_keys_def rebase_def)

lemma hm_ok_rebase: "inj_on (moved cs ds) (fst ` set ns) \<Longrightarrow> hm_ok ns \<Longrightarrow> hm_ok (rebase cs ds ns)"
  using hm_keys_rebase [of cs ds ns] by (auto simp: hm_ok_def hm_keys_def distinct_map intro: comp_inj_on)

lemma node_at_rebase:
  assumes "cs \<noteq> []" and "ds \<noteq> []" and "\<forall>r. node_at F r \<noteq> None \<longrightarrow> \<not> prefix ds r" and "node_at F q \<noteq> None"
  shows "node_at (F\<lparr>nodes := rebase cs ds (nodes F)\<rparr>) (moved cs ds q) = node_at F q"
proof (cases "q = []")
  case True
  then show ?thesis using assms(1) by (simp add: moved_def)
next
  case False
  have "fst ` set (nodes F) \<subseteq> {r. node_at F r \<noteq> None}"
    by (auto simp: node_at_def hm_get_def weak_map_of_SomeI)
  then have "inj_on (moved cs ds) (insert q (fst ` set (nodes F)))"
    using assms(3,4) by (intro moved_inj) auto
  then show ?thesis using False assms(2) hm_get_rebase [of cs ds q "nodes F"] by (auto simp: node_at_def moved_def)
qed

lemma rebase_ok:
  assumes "tree_ok F" and "cs \<noteq> []" and "ds \<noteq> []" and "placed F ds" and "\<not> prefix cs ds"
    and "\<forall>q. node_at F q \<noteq> None \<longrightarrow> \<not> prefix ds q"
  shows "tree_ok (F\<lparr>nodes := rebase cs ds (nodes F)\<rparr>)" (is "tree_ok ?G")
proof -
  have n: "node_at ?G (moved cs ds q) = node_at F q" if "node_at F q \<noteq> None" for q
    by (rule node_at_rebase [OF assms(2,3,6) that])
  have "fst ` set (nodes F) \<subseteq> {r. node_at F r \<noteq> None}" by (auto simp: node_at_def hm_get_def weak_map_of_SomeI)
  then have "hm_ok (nodes ?G)" using assms(1,6) by (auto simp: tree_ok_keys intro!: hm_ok_rebase moved_inj)
  moreover have "moved cs ds q \<noteq> [] \<and> simple_name (last (moved cs ds q)) \<and> node_at ?G (butlast (moved cs ds q)) = Some Dir"
    if "q \<in> set (hm_keys (nodes F))" for q
  proof -
    have q: "q \<noteq> []" "simple_name (last q)" "node_at F (butlast q) = Some Dir" using that assms(1) by (auto simp: tree_ok_keys)
    consider "\<not> prefix cs q" | "q = cs" | r where "q = cs @ r" "r \<noteq> []" by (auto simp: prefix_def)
    then show ?thesis
    proof cases
      case 1
      then have "moved cs ds (butlast q) = butlast q" "moved cs ds q = q"
        by (auto simp: moved_def dest: prefix_order.trans [OF _ prefixeq_butlast])
      then show ?thesis using q n [of "butlast q"] by simp
    next
      case 2
      have "node_at F (butlast ds) = Some Dir" using assms(3,4) by (auto simp: placed_def)
      moreover have "moved cs ds (butlast ds) = butlast ds"
        using assms(5) by (auto simp: moved_def dest: prefix_order.trans [OF _ prefixeq_butlast])
      ultimately show ?thesis using n [of "butlast ds"] assms(3,4) by (simp add: 2 moved_def placed_def)
    next
      case 3
      then have "butlast (moved cs ds q) = moved cs ds (butlast q)" "last (moved cs ds q) = last q" "moved cs ds q \<noteq> []"
        by (auto simp: moved_def butlast_append)
      then show ?thesis using q n [of "butlast q"] by simp
    qed
  qed
  ultimately show ?thesis by (auto simp: tree_ok_keys hm_keys_rebase)
qed

lemma remove_empty_dir_ok:
  assumes "tree_ok F" and "children F ds = []" and "ds \<noteq> []"
  shows "tree_ok (F\<lparr>nodes := hm_remove ds (nodes F)\<rparr>)"
proof -
  have "\<forall>q \<in> set (hm_keys (nodes F)). butlast q \<noteq> ds"
    using assms(1,2) by (auto simp: children_def tree_ok_keys filter_empty_conv)
  moreover have "set (hm_keys (hm_remove ds (nodes F))) \<subseteq> set (hm_keys (nodes F))" by (auto simp: hm_keys_iff split: if_splits)
  ultimately show ?thesis using assms(1,3) by (auto simp: tree_ok_keys)
qed

lemma nothing_below:
  assumes "tree_ok F" and "node_at F ds = None \<or> children F ds = []" and "node_at F q \<noteq> None" and "prefix ds q"
  shows "q = ds \<and> node_at F ds \<noteq> None"
proof -
  obtain r where r: "q = ds @ r" using assms(4) by (auto simp: prefix_def)
  have ok: "fs_ok (F\<lparr>cwd := []\<rparr>)" using assms(1) by (simp add: tree_ok_def)
  show ?thesis
  proof (cases r)
    case Nil
    then show ?thesis using assms(3) r by simp
  next
    case (Cons c r')
    have "node_at F (ds @ [c]) \<noteq> None" "node_at F ds = Some Dir"
      using descend [OF ok, of ds r] descend [OF ok, of "ds @ [c]" r'] assms(3) r Cons by auto
    moreover have "c \<in> set (children F ds)" using children_iff [OF ok, of c ds] calculation(1) by (simp add: children_def)
    ultimately show ?thesis using assms(2) by auto
  qed
qed

lemma moved_dir_ok:
  assumes "tree_ok F" and "cs \<noteq> ds" and "placed F ds" and "\<not> strict_prefix cs ds"
    and "node_at F cs = Some Dir" and "node_at F (cwd F) = Some Dir"
    and "node_at F ds = None \<and> G = F \<or> node_at F ds = Some Dir \<and> children F ds = [] \<and> G = F\<lparr>nodes := hm_remove ds (nodes F)\<rparr>"
  shows "fs_ok (F\<lparr>cwd := moved cs ds (cwd F), nodes := rebase cs ds (nodes G)\<rparr>)" (is "fs_ok ?H")
proof -
  have p: "\<not> prefix cs ds" using assms(2,4) by (auto simp: strict_prefix_def)
  then have cs: "cs \<noteq> []" by auto
  have below: "q = ds \<and> node_at F ds \<noteq> None" if "node_at F q \<noteq> None" "prefix ds q" for q
    using nothing_below [OF assms(1) _ that] assms(7) by auto
  have ds: "ds \<noteq> []" using below [of cs] assms(2,5) by auto
  have g: "node_at G q = (if q = ds then None else node_at F q)" for q using assms(7) ds by auto
  have G: "tree_ok G" "placed G ds" "\<forall>q. node_at G q \<noteq> None \<longrightarrow> \<not> prefix ds q"
  proof -
    show "tree_ok G" using assms(1,7) remove_empty_dir_ok [OF assms(1) _ ds] by auto
    have "butlast ds \<noteq> ds" using ds by (cases ds rule: rev_cases) auto
    then show "placed G ds" using assms(3) ds g by (auto simp: placed_def)
    show "\<forall>q. node_at G q \<noteq> None \<longrightarrow> \<not> prefix ds q" using below g by auto
  qed
  have eq: "node_at ?H r = node_at (G\<lparr>nodes := rebase cs ds (nodes G)\<rparr>) r" for r by (simp add: node_at_def)
  have H: "node_at ?H (moved cs ds q) = node_at G q" if "node_at G q \<noteq> None" for q
    using node_at_rebase [OF cs ds G(3) that] eq by simp
  have "tree_ok ?H" using rebase_ok [OF G(1) cs ds G(2) p G(3)] by (simp add: tree_ok_keys eq)
  moreover have "node_at ?H (moved cs ds (cwd F)) = Some Dir"
  proof (cases "cwd F = ds")
    case True
    then have "moved cs ds (cwd F) = moved cs ds cs" using p by (simp add: moved_def)
    then show ?thesis using H [of cs] assms(2,5) g by simp
  next
    case False
    then show ?thesis using H [of "cwd F"] assms(6) g by simp
  qed
  ultimately show ?thesis by (simp add: fs_ok_tree)
qed

lemma fs_rename_ok:
  assumes "fs_ok F" and "fs_rename p q F = Inr F'"
  shows "fs_ok F'"
proof -
  from assms(2) obtain cs ds where r: "resolve F p = Inr cs" "resolve F q = Inr ds"
    by (auto simp: fs_rename_def and_then_eq_Inr)
  have pl: "placed F ds" by (rule resolve_placed [OF assms(1) r(2)])
  have ok: "tree_ok F" "node_at F (cwd F) = Some Dir" using assms(1) by (auto simp: fs_ok_tree)
  consider b where "node_at F cs = Some (File b)" | "node_at F cs = Some Dir"
    using assms(2) by (cases "node_at F cs"; cases "the (node_at F cs)") (auto simp: fs_rename_def r)
  then show ?thesis
  proof cases
    case 1
    then have d: "node_at F ds \<noteq> Some Dir" "F' = F \<or> F' = set_node ds (File b) (F\<lparr>nodes := hm_remove cs (nodes F)\<rparr>)"
      using assms(2) by (cases "node_at F ds"; cases "the (node_at F ds)"; auto simp: fs_rename_def r and_then_eq_Inr split: if_splits)+
    let ?G = "F\<lparr>nodes := hm_remove cs (nodes F)\<rparr>"
    have "placed ?G ds" using pl dirs_kept_remove_File [of F cs] 1 placed_kept by auto
    moreover have "cs \<noteq> []" "ds \<noteq> []" using 1 d(1) by auto
    ultimately show ?thesis using fs_ok_set_node [OF fs_ok_remove [OF assms(1) 1], of ds "File b"] d assms(1) by auto
  next
    case 2
    then have "F' = F \<or> cs \<noteq> ds \<and> \<not> strict_prefix cs ds \<and> (\<exists>G. F' = F\<lparr>cwd := moved cs ds (cwd F), nodes := rebase cs ds (nodes G)\<rparr> \<and>
        (node_at F ds = None \<and> G = F \<or> node_at F ds = Some Dir \<and> children F ds = [] \<and> G = F\<lparr>nodes := hm_remove ds (nodes F)\<rparr>))"
      using assms(2) by (cases "node_at F ds"; cases "the (node_at F ds)")
        (auto simp: fs_rename_def r and_then_eq_Inr split: if_splits)
    then show ?thesis using moved_dir_ok [OF ok(1) _ pl _ 2 ok(2)] assms(1) by blast
  qed
qed

lemma fs_remove_dir_all_ok:
  assumes "tree_ok F" and "fs_remove_dir_all p F = Inr F'"
  shows "tree_ok F'"
proof -
  from assms(2) obtain cs where r: "resolve F p = Inr cs" by (auto simp: fs_remove_dir_all_def and_then_eq_Inr)
  then have F': "F' = F\<lparr>nodes := hm_retain (\<lambda>q n. \<not> prefix cs q) (nodes F)\<rparr>"
    using assms(2) by (cases "node_at F cs"; cases "the (node_at F cs)") (auto simp: fs_remove_dir_all_def)
  have h: "hm_ok (nodes F)" using assms(1) by (simp add: tree_ok_keys)
  have g: "hm_get (nodes F') q = (if prefix cs q then None else hm_get (nodes F) q)" for q
    using h by (auto simp: F' split: option.splits)
  have "q \<noteq> [] \<and> simple_name (last q) \<and> node_at F' (butlast q) = Some Dir" if "q \<in> set (hm_keys (nodes F'))" for q
  proof -
    have q: "\<not> prefix cs q" "q \<in> set (hm_keys (nodes F))" using that by (auto simp: hm_keys_iff g split: if_splits)
    then have "\<not> prefix cs (butlast q)" by (auto dest: prefix_order.trans [OF _ prefixeq_butlast])
    then have "node_at F' (butlast q) = node_at F (butlast q)" by (simp add: node_at_def g)
    then show ?thesis using q(2) assms(1) by (auto simp: tree_ok_keys)
  qed
  then show ?thesis using h by (auto simp: tree_ok_keys) (simp add: F')
qed

end
