(* ===== verification/Okf.thy ===== *)
theory Okf
  imports Okf_Doc Paths Dir_Moves
begin

text \<open>
  The commands of \<open>yggd okf\<close>, \<open>nsmt-client/src/okf.rs\<close>, on a file system: libraries and the
  concepts in them, with the trash and the update log.  What a command prints is its value where
  it is more than a confirmation.
\<close>

section \<open>Paths\<close>

text \<open>\<open>Path::file_stem\<close> and \<open>extension\<close>.\<close>

definition file_stem :: "path \<Rightarrow> string option" where
  "file_stem p = map_option (\<lambda>n.
     (let r = dropWhile (\<lambda>c. c \<noteq> CHR ''.'') (rev n) in
      if r = [] \<or> rev (tl r) = [] then n else rev (tl r))) (file_name p)"

definition extension :: "path \<Rightarrow> string option" where
  "extension p = Option.bind (file_name p) (\<lambda>n.
     (let r = dropWhile (\<lambda>c. c \<noteq> CHR ''.'') (rev n) in
      if r = [] \<or> tl r = [] then None else Some (rev (takeWhile (\<lambda>c. c \<noteq> CHR ''.'') (rev n)))))"

section \<open>Libraries\<close>

definition RESERVED :: "string list" where "RESERVED = [''index.md'', ''log.md'']"

definition share_dir_fallback :: "env \<Rightarrow> path" where
  "share_dir_fallback env =
     (case env ''NSMT_SHARE_DIR'' of
        Some d \<Rightarrow> d
      | None \<Rightarrow> (case env ''HOME'' of Some h \<Rightarrow> join h ''nsmt_share'' | None \<Rightarrow> ''nsmt_share''))"

definition libs_root :: "env \<Rightarrow> path" where
  "libs_root env =
     (case env ''NSMT_OKF_ROOT'' of
        Some p \<Rightarrow> if p \<noteq> [] then p else join (share_dir_fallback env) ''okf''
      | None \<Rightarrow> join (share_dir_fallback env) ''okf'')"

definition valid_lib_name :: "string \<Rightarrow> bool" where
  "valid_lib_name name \<longleftrightarrow> name \<noteq> [] \<and> length name \<le> 63 \<and>
     list_all (\<lambda>c. is_ascii_lowercase c \<or> is_ascii_digit c \<or> c = CHR ''.'' \<or> c = CHR ''_'' \<or> c = CHR ''-'') name"

definition lib_dir :: "path \<Rightarrow> string \<Rightarrow> path" where
  "lib_dir root name = join root name"

type_synonym opts = "(string, string) hmap"

text \<open>The options and the positional arguments from index \<open>start\<close> on.\<close>

fun scan_args :: "string list \<Rightarrow> opts \<Rightarrow> string list \<Rightarrow> opts \<times> string list" where
  "scan_args [] opts positional = (opts, positional)"
| "scan_args (a # rest) opts positional =
     (case strip_prefix ''--'' a of
        Some k \<Rightarrow>
          (case rest of
             [] \<Rightarrow> (hm_insert k [] opts, positional)
           | v # rest' \<Rightarrow> scan_args rest' (hm_insert k v opts) positional)
      | None \<Rightarrow> scan_args rest opts (positional @ [a]))"

definition parse_args :: "string list \<Rightarrow> nat \<Rightarrow> opts" where
  "parse_args args start =
     (case scan_args (drop start args) [] [] of
        (opts, []) \<Rightarrow> opts
      | (opts, p # _) \<Rightarrow> hm_insert ''path'' p opts)"

datatype okf_error =
    UsageError
  | InvalidLibrary string
  | LibraryExists path
  | LibraryMissing string
  | NotForced
  | ReservedName string
  | NotMarkdown
  | ConceptExists path
  | ConceptMissing path
  | NotInTrash path
  | TargetExists path
  | InvalidStatus string
  | NotAConcept path
  | UnknownCommand string
  | Panicked
  | OkfIo io_error

definition need :: "opts \<Rightarrow> string \<Rightarrow> okf_error + string" where
  "need opts key =
     (case hm_get opts key of
        Some v \<Rightarrow> if v = [] then Inl UsageError else Inr v
      | None \<Rightarrow> Inl UsageError)"

text \<open>A command: an error or a value, and the disk after it.\<close>

type_synonym 'a cmd = "fs \<Rightarrow> (okf_error + 'a) \<times> fs"

definition k_ret :: "'a \<Rightarrow> 'a cmd" where "k_ret x F = (Inr x, F)"

definition k_fail :: "okf_error \<Rightarrow> 'a cmd" where "k_fail e F = (Inl e, F)"

definition k_lift :: "okf_error + 'a \<Rightarrow> 'a cmd" where "k_lift r F = (r, F)"

definition k_bind :: "'a cmd \<Rightarrow> ('a \<Rightarrow> 'b cmd) \<Rightarrow> 'b cmd" where
  "k_bind m k F = (case m F of (Inl e, F') \<Rightarrow> (Inl e, F') | (Inr x, F') \<Rightarrow> k x F')"

definition k_call :: "(fs \<Rightarrow> io_error + fs) \<Rightarrow> unit cmd" where
  "k_call op F = (case op F of Inl e \<Rightarrow> (Inl (OkfIo e), F) | Inr F' \<Rightarrow> (Inr (), F'))"

definition k_log :: "nat \<Rightarrow> path \<Rightarrow> string \<Rightarrow> unit cmd" where
  "k_log secs root text F = (case append_log secs root text F of (Inl e, F') \<Rightarrow> (Inl (OkfIo e), F') | (Inr _, F') \<Rightarrow> (Inr (), F'))"

definition k_disk :: "fs cmd" where "k_disk F = (Inr F, F)"

definition guard :: "bool \<Rightarrow> okf_error \<Rightarrow> unit cmd" where
  "guard ok e = (if ok then k_ret () else k_fail e)"

definition quoted :: "string \<Rightarrow> string" where
  "quoted t = (if t = [] then [] else ''> '' @ t @ [CHR 0x0A, CHR 0x0A])"

definition opt_or :: "opts \<Rightarrow> string \<Rightarrow> string \<Rightarrow> string" where
  "opt_or opts key d = (case hm_get opts key of Some v \<Rightarrow> v | None \<Rightarrow> d)"

definition new_index :: "opts \<Rightarrow> string" where
  "new_index opts = ''# Knowledge Bundle'' @ [CHR 0x0A, CHR 0x0A] @ quoted (opt_or opts ''title'' []) @
     quoted (opt_or opts ''description'' []) @
     ''_Empty library. Run `yggd okf <lib> add <path> --type <Type>`._'' @ [CHR 0x0A]"

definition cmd_lib_new :: "env \<Rightarrow> string list \<Rightarrow> unit cmd" where
  "cmd_lib_new env args =
     (let opts = parse_args args 5; root = libs_root env in
      k_bind (k_lift (need opts ''path'')) (\<lambda>name.
      k_bind (guard (valid_lib_name name) (InvalidLibrary name)) (\<lambda>_.
      let dir = lib_dir root name in
      k_bind k_disk (\<lambda>F.
      k_bind (guard (\<not> fs_exists F dir) (LibraryExists dir)) (\<lambda>_.
      k_bind (k_call (fs_create_dir_all dir)) (\<lambda>_.
      k_bind (k_call (fs_write (join dir ''index.md'') (as_bytes (new_index opts)))) (\<lambda>_.
      k_call (fs_write (join dir ''log.md'') (as_bytes empty_log)))))))))"

definition cmd_lib_rm :: "env \<Rightarrow> string list \<Rightarrow> unit cmd" where
  "cmd_lib_rm env args =
     (let opts = parse_args args 5; root = libs_root env in
      k_bind (k_lift (need opts ''path'')) (\<lambda>name.
      k_bind (guard (hm_get opts ''force'' \<in> {Some ''1'', Some ''true''} \<or> ''--force'' \<in> set args) NotForced) (\<lambda>_.
      let dir = lib_dir root name in
      k_bind k_disk (\<lambda>F.
      k_bind (guard (fs_is_dir F dir) (LibraryMissing name)) (\<lambda>_.
      k_call (fs_remove_dir_all dir))))))"

section \<open>Concepts\<close>

definition resolve_lib :: "env \<Rightarrow> string list \<Rightarrow> (path \<times> opts) cmd" where
  "resolve_lib env args =
     (let lib_name = (if length args > 3 then args ! 3 else []) in
      k_bind (guard (valid_lib_name lib_name) (InvalidLibrary lib_name)) (\<lambda>_.
      let dir = lib_dir (libs_root env) lib_name in
      k_bind k_disk (\<lambda>F.
      k_bind (guard (fs_is_dir F dir) (LibraryMissing lib_name)) (\<lambda>_.
      k_ret (dir, parse_args args 5)))))"

definition STATUSES :: "string list" where "STATUSES = [''draft'', ''stable'', ''deprecated'']"

definition field :: "string \<Rightarrow> string \<Rightarrow> string" where
  "field key val = (if val = [] then [] else key @ '': '' @ val @ [CHR 0x0A])"

definition tag_list :: "string \<Rightarrow> string" where
  "tag_list tags = ''['' @ join_with '', '' (comma_list tags) @ '']''"

definition generated :: "string \<Rightarrow> nat \<Rightarrow> string" where
  "generated actor secs = ''{ by: '' @ actor @ '', at: '' @ iso_of_secs secs @ '' }''"

definition front_matter :: "opts \<Rightarrow> string \<Rightarrow> string \<Rightarrow> string \<Rightarrow> nat \<Rightarrow> string" where
  "front_matter opts ftype title status secs =
     ''type: '' @ ftype @ [CHR 0x0A] @ ''title: '' @ title @ [CHR 0x0A] @
     field ''description'' (opt_or opts ''description'' []) @ field ''resource'' (opt_or opts ''resource'' []) @
     (if opt_or opts ''tags'' [] = [] then [] else ''tags: '' @ tag_list (opt_or opts ''tags'' []) @ [CHR 0x0A]) @
     ''status: '' @ status @ [CHR 0x0A] @ ''generated: '' @ generated ''process:nsmt'' secs @ [CHR 0x0A]"

definition log_link :: "string \<Rightarrow> string \<Rightarrow> string \<Rightarrow> string" where
  "log_link what label rel = what @ '' ['' @ label @ ''](/'' @ slashes rel @ '')''"

definition cmd_add :: "env \<Rightarrow> nat \<Rightarrow> nat \<Rightarrow> string list \<Rightarrow> unit cmd" where
  "cmd_add env secs secs' args =
     k_bind (resolve_lib env args) (\<lambda>(dir, opts).
     k_bind (k_lift (need opts ''path'')) (\<lambda>rel.
     k_bind (k_lift (need opts ''type'')) (\<lambda>ftype.
     k_bind (guard (rel \<notin> set RESERVED) (ReservedName rel)) (\<lambda>_.
     k_bind (guard (suffix ''.md'' rel) NotMarkdown) (\<lambda>_.
     let target = join dir rel in
     k_bind k_disk (\<lambda>F.
     k_bind (guard (\<not> fs_exists F target) (ConceptExists target)) (\<lambda>_.
     k_bind (k_call (fs_create_dir_all (path_parent target))) (\<lambda>_.
     let title = opt_or opts ''title'' (case file_stem rel of Some s \<Rightarrow> s | None \<Rightarrow> ftype);
         status = opt_or opts ''status'' ''stable'' in
     k_bind (guard (status \<in> set STATUSES) (InvalidStatus status)) (\<lambda>_.
     k_bind (k_call (fs_write target (as_bytes (doc_text (front_matter opts ftype title status secs) title)))) (\<lambda>_.
     k_log secs' dir (log_link ''**Creation**: Established'' title rel)))))))))))"

definition cmd_rm :: "env \<Rightarrow> nat \<Rightarrow> string list \<Rightarrow> unit cmd" where
  "cmd_rm env secs args =
     k_bind (resolve_lib env args) (\<lambda>(dir, opts).
     k_bind (k_lift (need opts ''path'')) (\<lambda>rel.
     k_bind (guard (rel \<notin> set RESERVED) (ReservedName rel)) (\<lambda>_.
     let target = join dir rel; trash = join (join dir ''.trash'') rel in
     k_bind k_disk (\<lambda>F.
     k_bind (guard (fs_exists F target) (ConceptMissing target)) (\<lambda>_.
     k_bind (k_call (fs_create_dir_all (path_parent trash))) (\<lambda>_.
     k_bind (k_call (fs_rename target trash)) (\<lambda>_.
     k_log secs dir (log_link ''**Deprecation**: Removed'' rel rel))))))))"

definition cmd_restore :: "env \<Rightarrow> nat \<Rightarrow> string list \<Rightarrow> unit cmd" where
  "cmd_restore env secs args =
     k_bind (resolve_lib env args) (\<lambda>(dir, opts).
     k_bind (k_lift (need opts ''path'')) (\<lambda>rel.
     let target = join dir rel; trash = join (join dir ''.trash'') rel in
     k_bind k_disk (\<lambda>F.
     k_bind (guard (fs_exists F trash) (NotInTrash trash)) (\<lambda>_.
     k_bind (guard (\<not> fs_exists F target) (TargetExists target)) (\<lambda>_.
     k_bind (k_call (fs_create_dir_all (path_parent target))) (\<lambda>_.
     k_bind (k_call (fs_rename trash target)) (\<lambda>_.
     k_log secs dir (log_link ''**Update**: Restored'' rel rel))))))))"

text \<open>The changes of \<open>edit\<close>, in the order of the source.\<close>

definition set_opt :: "opts \<Rightarrow> string \<Rightarrow> string \<Rightarrow> (string \<Rightarrow> string) \<Rightarrow> (string \<times> string) list" where
  "set_opt opts name key g =
     (case hm_get opts name of Some v \<Rightarrow> if v = [] then [] else [(key, g v)] | None \<Rightarrow> [])"

definition edit_changes :: "opts \<Rightarrow> string \<Rightarrow> nat \<Rightarrow> (string \<times> string) list" where
  "edit_changes opts actor secs =
     set_opt opts ''type'' ''type'' id @ set_opt opts ''title'' ''title'' id @
     set_opt opts ''description'' ''description'' id @ set_opt opts ''resource'' ''resource'' id @
     set_opt opts ''tags'' ''tags'' tag_list @ set_opt opts ''status'' ''status'' id @
     set_opt opts ''stale-after'' ''stale_after'' id @ [(''generated'', generated actor secs)]"

definition actor_of :: "'y yaml \<Rightarrow> 'y \<Rightarrow> string" where
  "actor_of Y fm =
     (case Option.bind (Option.bind (y_get Y fm ''generated'') (\<lambda>g. y_get Y g ''by'')) (y_as_str Y) of
        Some b \<Rightarrow> b
      | None \<Rightarrow> ''process:nsmt'')"

text \<open>The text between the first rule and the next line that starts with one.\<close>

definition raw_fields :: "string \<Rightarrow> string" where
  "raw_fields inner = trim_start_matches CHR 0x0A
     (case find_str nl_dashes inner of Some i \<Rightarrow> take i inner | None \<Rightarrow> inner)"

definition edited_text :: "(string \<times> string) list \<Rightarrow> string \<Rightarrow> string \<Rightarrow> string" where
  "edited_text changes old body =
     ''---'' @ [CHR 0x0A] @ join_with [CHR 0x0A] (apply_changes changes (str_lines old)) @ nl_dashes @
     [CHR 0x0A, CHR 0x0A] @ body"

definition cmd_edit :: "'y yaml \<Rightarrow> env \<Rightarrow> nat \<Rightarrow> nat \<Rightarrow> string list \<Rightarrow> unit cmd" where
  "cmd_edit Y env secs secs' args =
     k_bind (resolve_lib env args) (\<lambda>(dir, opts).
     k_bind (k_lift (need opts ''path'')) (\<lambda>rel.
     let target = join dir rel in
     k_bind k_disk (\<lambda>F.
     case fs_read_to_string F target of
       Inl _ \<Rightarrow> k_fail (ConceptMissing target)
     | Inr raw \<Rightarrow>
        (case parse_doc Y raw of
           None \<Rightarrow> k_fail (NotAConcept target)
         | Some (fm, body) \<Rightarrow>
            (case strip_prefix ''---'' raw of
               None \<Rightarrow> k_fail (NotAConcept target)
             | Some inner \<Rightarrow>
                k_bind (case hm_get opts ''status'' of
                    Some s \<Rightarrow> guard (s = [] \<or> s \<in> set STATUSES) (InvalidStatus s)
                  | None \<Rightarrow> k_ret ()) (\<lambda>_.
                k_bind (k_call (fs_write target (as_bytes
                  (edited_text (edit_changes opts (actor_of Y fm) secs) (raw_fields inner) body)))) (\<lambda>_.
                k_log secs' dir (log_link ''**Update**: Edited'' rel rel))))))))"

definition cmd_log :: "env \<Rightarrow> nat \<Rightarrow> string list \<Rightarrow> unit cmd" where
  "cmd_log env secs args =
     k_bind (resolve_lib env args) (\<lambda>(dir, opts).
     k_bind (k_lift (need opts ''path'')) (\<lambda>msg. k_log secs dir msg))"

section \<open>Commands in a library\<close>

lemmas k_simps = k_bind_def k_ret_def k_fail_def k_lift_def k_call_def k_disk_def guard_def

text \<open>A library directory whose log can be extended.\<close>

definition library :: "fs \<Rightarrow> path \<Rightarrow> string list \<Rightarrow> bool" where
  "library F dir ds \<longleftrightarrow> resolve F dir = Inr ds \<and> node_at F ds = Some Dir \<and>
     (case node_at F (ds @ [''log.md'']) of None \<Rightarrow> True | Some Dir \<Rightarrow> False | Some (File b) \<Rightarrow> valid_utf8 b)"

lemma as_bytes_from_utf8: "from_utf8 b = Some s \<Longrightarrow> as_bytes s = b"
  by (auto simp: from_utf8_def as_bytes_def o_def map_idI split: if_splits)

lemma simple_log: "simple_name ''log.md''" "simple_name ''.trash''"
  by (simp_all add: simple_name_def)

lemma valid_empty_log: "valid_utf8 (as_bytes empty_log)"
  by (rule valid_utf8_ascii) (simp add: empty_log_def ascii_def)

lemma k_log_ok:
  assumes "library F dir ds" and "valid_utf8 (as_bytes msg)"
  shows "\<exists>t. k_log secs dir msg F = (Inr (), set_node (ds @ [''log.md'']) (File (as_bytes t)) F) \<and> valid_utf8 (as_bytes t)"
proof -
  have r: "resolve F dir = Inr ds" "node_at F ds = Some Dir" using assms(1) by (simp_all add: library_def)
  have nd: "node_at F (ds @ [''log.md'']) \<noteq> Some Dir" using assms(1) by (auto simp: library_def)
  obtain c where c: "(if fs_exists F (join dir ''log.md'') then fs_read_to_string F (join dir ''log.md'') else Inr empty_log) = Inr c"
      "valid_utf8 (as_bytes c)"
  proof (cases "node_at F (ds @ [''log.md''])")
    case None
    then show ?thesis using that valid_empty_log by (simp add: exists_in_dir [OF r simple_log(1)])
  next
    case (Some n)
    then obtain b where b: "n = File b" using nd by (cases n) auto
    then have "valid_utf8 b" using assms(1) Some by (simp add: library_def)
    moreover from this have "from_utf8 b = Some (map (\<lambda>b. char_of (unat b)) b)" by (simp add: from_utf8_def)
    ultimately show ?thesis using that Some b as_bytes_from_utf8
      by (simp add: exists_in_dir [OF r simple_log(1)] fs_read_to_string_def read_in_dir [OF r simple_log(1)])
  qed
  then show ?thesis using log_text_utf8 [OF c(2) assms(2)]
    by (auto simp: k_log_def append_log_def create_dir_all_idem [OF r] write_in_dir [OF r simple_log(1) nd] Let_def)
qed

lemma rename_file:
  assumes "resolve F p = Inr cs" and "resolve F q = Inr es" and "node_at F cs = Some (File b)"
    and "node_at F es \<noteq> Some Dir" and "node_at F (butlast es) = Some Dir" and "es \<noteq> cs"
  shows "fs_rename p q F = Inr (set_node es (File b) (F\<lparr>nodes := hm_remove cs (nodes F)\<rparr>))"
  using assms by (auto simp: fs_rename_def parent_dir_def split: option.splits node.splits)

lemma valid_lib_nameD:
  "valid_lib_name lib \<Longrightarrow> lib \<noteq> []" "valid_lib_name lib \<Longrightarrow> CHR ''/'' \<notin> set lib" "valid_lib_name lib \<Longrightarrow> CHR 0x00 \<notin> set lib"
  by (auto simp: valid_lib_name_def list_all_iff is_ascii_lowercase_def is_ascii_digit_def less_eq_char_def)

lemma valid_lib_name_dir:
  assumes "valid_lib_name lib"
  shows "lib_dir root lib \<noteq> []" "\<not> suffix ''/'' (lib_dir root lib)"
proof -
  note n = valid_lib_nameD(1,2) [OF assms]
  then obtain m c where m: "lib = m @ [c]" "c \<noteq> CHR ''/''" by (cases lib rule: rev_cases) auto
  show "lib_dir root lib \<noteq> []" "\<not> suffix ''/'' (lib_dir root lib)"
    using m by (auto simp: lib_dir_def join_def suffix_def)
qed

lemma parse_args_one: "\<not> prefix ''--'' rel \<Longrightarrow> parse_args [a, b, c, lib, op, rel] 5 = [(''path'', rel)]"
  by (auto simp: parse_args_def strip_prefix_def hm_insert_def numeral_eq_Suc)

lemma resolve_lib_ok:
  assumes "valid_lib_name lib" and "library F (lib_dir (libs_root env) lib) ds" and "\<not> prefix ''--'' rel"
  shows "resolve_lib env [a, b, c, lib, op, rel] F = (Inr (lib_dir (libs_root env) lib, [(''path'', rel)]), F)"
  using assms parse_args_one [of rel a b c lib op]
  by (simp add: resolve_lib_def k_simps fs_is_dir_def library_def Let_def)

text \<open>A concept name that \<open>rm\<close> and \<open>restore\<close> take as it is.\<close>

definition concept_name :: "string \<Rightarrow> bool" where
  "concept_name rel \<longleftrightarrow> simple_name rel \<and> \<not> prefix ''--'' rel \<and> valid_utf8 (as_bytes rel) \<and>
     rel \<notin> {''index.md'', ''log.md'', ''.trash''}"

lemma concept_nameD:
  assumes "concept_name rel"
  shows "simple_name rel" "rel \<noteq> []" "\<not> prefix ''--'' rel" "rel \<notin> set RESERVED" "rel \<noteq> ''log.md''" "rel \<noteq> ''.trash''"
  using assms by (auto simp: concept_name_def RESERVED_def simple_name_def)

lemma valid_slashes: "valid_utf8 (as_bytes rel) \<Longrightarrow> valid_utf8 (as_bytes (slashes rel))"
proof (induction rel rule: length_induct)
  case (1 rel)
  show ?case
  proof (cases "CHR 0x5C \<in> set rel")
    case True
    then obtain u v where uv: "rel = u @ [CHR 0x5C] @ v" "CHR 0x5C \<notin> set u" by (auto dest: split_list_first)
    have one: "valid_utf8 (as_bytes [CHR 0x5C])" "valid_utf8 (as_bytes ''/'')"
      by (rule valid_utf8_ascii, simp add: ascii_def)+
    have u: "valid_utf8 (as_bytes u)"
      by (rule valid_utf8_front [of _ "as_bytes ([CHR 0x5C] @ v)"]) (use 1(2) uv in \<open>simp_all add: as_bytes_def\<close>)
    then have "valid_utf8 (as_bytes v)" using 1(2) unfolding uv(1) by (simp only: as_bytes_append valid_utf8_append one)
    with 1(1) uv have v: "valid_utf8 (as_bytes (slashes v))" by simp
    have "slashes u = u" using uv(2) by (auto simp: slashes_def intro: map_idI)
    then have "slashes rel = u @ ''/'' @ slashes v" unfolding uv(1) by (simp add: slashes_def)
    then show ?thesis using u v one by (simp only: as_bytes_append valid_utf8_append)
  next
    case False
    then have "slashes rel = rel" by (auto simp: slashes_def intro: map_idI)
    then show ?thesis using 1(2) by simp
  qed
qed

lemma valid_log_link:
  assumes "list_all ascii what" and "valid_utf8 (as_bytes label)" and "valid_utf8 (as_bytes rel)"
  shows "valid_utf8 (as_bytes (log_link what label rel))"
proof -
  have "valid_utf8 (as_bytes '' ['')" "valid_utf8 (as_bytes ''](/'')" "valid_utf8 (as_bytes '')'')"
    by (rule valid_utf8_ascii, simp add: ascii_def)+
  with valid_utf8_ascii [OF assms(1)] valid_slashes [OF assms(3)] assms(2) show ?thesis
    unfolding log_link_def by (simp only: as_bytes_append valid_utf8_append)
qed

lemma library_kept:
  "library F dir ds \<Longrightarrow> dirs_kept F H \<Longrightarrow> node_at H (ds @ [''log.md'']) = node_at F (ds @ [''log.md'']) \<Longrightarrow> library H dir ds"
  using resolve_kept [of F dir ds H] by (simp add: library_def) (simp add: dirs_kept_def)

lemma cmd_rm_file:
  assumes "valid_lib_name lib" and "library F (lib_dir (libs_root env) lib) ds" and "concept_name rel"
    and "node_at F (ds @ [rel]) = Some (File bs)"
    and "node_at F (ds @ [''.trash'']) \<in> {None, Some Dir}" and "node_at F (ds @ [''.trash'', rel]) \<noteq> Some Dir"
  shows "\<exists>t. valid_utf8 (as_bytes t) \<and> cmd_rm env secs [a, b, c, lib, op, rel] F = (Inr (),
    set_node (ds @ [''log.md'']) (File (as_bytes t)) (set_node (ds @ [''.trash'', rel]) (File bs)
      ((ensure_dir (ds @ [''.trash'']) F)\<lparr>nodes := hm_remove (ds @ [rel]) (nodes (ensure_dir (ds @ [''.trash'']) F))\<rparr>)))"
proof -
  let ?dir = "lib_dir (libs_root env) lib" and ?G = "ensure_dir (ds @ [''.trash'']) F"
  let ?H = "set_node (ds @ [''.trash'', rel]) (File bs) (?G\<lparr>nodes := hm_remove (ds @ [rel]) (nodes ?G)\<rparr>)"
  note n = concept_nameD [OF assms(3)] and d = valid_lib_name_dir [OF assms(1), of "libs_root env"]
  have r: "resolve F ?dir = Inr ds" "node_at F ds = Some Dir" using assms(2) by (simp_all add: library_def)
  have G: "node_at ?G ds = Some Dir" "node_at ?G (ds @ [''.trash'']) = Some Dir" "node_at ?G (ds @ [rel]) = Some (File bs)"
    "node_at ?G (ds @ [''.trash'', rel]) \<noteq> Some Dir" and "dirs_kept F ?G"
    using assms(4-6) r(2) by (auto simp: node_at_ensure_dir dirs_kept_def)
  then have rG: "resolve ?G ?dir = Inr ds" using resolve_kept [OF r(1)] by blast
  note res = resolve_join [OF rG G(1)]
  have tr: "resolve ?G (join ?dir ''.trash'') = Inr (ds @ [''.trash''])" by (rule res [OF simple_log(2)])
  have mk: "fs_create_dir_all (join ?dir ''.trash'') F = Inr ?G"
    by (rule create_in_dir [OF r simple_log(2) d(2) assms(5)])
  have pp: "path_parent (join (join ?dir ''.trash'') rel) = join ?dir ''.trash''"
    by (rule path_parent_join [OF _ _ n(1)]) (auto simp: join_def suffix_def)
  have mv: "fs_rename (join ?dir rel) (join (join ?dir ''.trash'') rel) ?G = Inr ?H"
    using rename_file [OF res [OF n(1)] resolve_join [OF tr G(2) n(1)] G(3)] G(2,4) n(6) by (simp add: butlast_append)
  have "library ?H ?dir ds"
    by (rule library_kept [OF assms(2)]) (use assms(4-6) n(5) in \<open>auto simp: dirs_kept_def node_at_ensure_dir\<close>)
  from k_log_ok [OF this valid_log_link, of "''**Deprecation**: Removed''" rel rel secs] obtain t where
    "k_log secs ?dir (log_link ''**Deprecation**: Removed'' rel rel) ?H = (Inr (), set_node (ds @ [''log.md'']) (File (as_bytes t)) ?H)"
    "valid_utf8 (as_bytes t)" using assms(3) by (auto simp: concept_name_def ascii_def)
  moreover have "fs_exists F (join ?dir rel)" using exists_in_dir [OF r n(1)] assms(4) by simp
  ultimately show ?thesis
    unfolding cmd_rm_def using n(2,4) resolve_lib_ok [OF assms(1,2) n(3), of a b c op]
    by (auto simp: k_bind_def k_lift_def k_call_def k_disk_def guard_def k_ret_def need_def hm_get_def Let_def pp mk mv)
qed

lemma cmd_restore_file:
  assumes "valid_lib_name lib" and "library F (lib_dir (libs_root env) lib) ds" and "concept_name rel"
    and "node_at F (ds @ [rel]) = None"
    and "node_at F (ds @ [''.trash'']) = Some Dir" and "node_at F (ds @ [''.trash'', rel]) = Some (File bs)"
  shows "\<exists>t. cmd_restore env secs [a, b, c, lib, op, rel] F = (Inr (),
    set_node (ds @ [''log.md'']) (File (as_bytes t)) (set_node (ds @ [rel]) (File bs)
      (F\<lparr>nodes := hm_remove (ds @ [''.trash'', rel]) (nodes F)\<rparr>)))"
proof -
  let ?dir = "lib_dir (libs_root env) lib"
  let ?H = "set_node (ds @ [rel]) (File bs) (F\<lparr>nodes := hm_remove (ds @ [''.trash'', rel]) (nodes F)\<rparr>)"
  note n = concept_nameD [OF assms(3)] and d = valid_lib_name_dir [OF assms(1), of "libs_root env"]
  have r: "resolve F ?dir = Inr ds" "node_at F ds = Some Dir" using assms(2) by (simp_all add: library_def)
  note res = resolve_join [OF r]
  note tr = res [OF simple_log(2)]
  have rt: "resolve F (join (join ?dir ''.trash'') rel) = Inr (ds @ [''.trash'', rel])"
    using resolve_join [OF tr assms(5) n(1)] by simp
  have mv: "fs_rename (join (join ?dir ''.trash'') rel) (join ?dir rel) F = Inr ?H"
    using rename_file [OF rt res [OF n(1)] assms(6)] assms(4) r(2) n(6) by simp
  have "library ?H ?dir ds"
    by (rule library_kept [OF assms(2)]) (use assms(4-6) n(5) in \<open>auto simp: dirs_kept_def\<close>)
  from k_log_ok [OF this valid_log_link, of "''**Update**: Restored''" rel rel secs] obtain t where
    "k_log secs ?dir (log_link ''**Update**: Restored'' rel rel) ?H = (Inr (), set_node (ds @ [''log.md'']) (File (as_bytes t)) ?H)"
    using assms(3) by (auto simp: concept_name_def ascii_def)
  moreover have "\<not> fs_exists F (join ?dir rel)" using exists_in_dir [OF r n(1)] assms(4) by simp
  moreover have "fs_exists F (join (join ?dir ''.trash'') rel)" using rt assms(6) by (simp add: fs_exists_def)
  ultimately show ?thesis
    unfolding cmd_restore_def using n(2) resolve_lib_ok [OF assms(1,2) n(3), of a b c op] create_dir_all_idem [OF r]
    by (auto simp: k_bind_def k_lift_def k_call_def k_disk_def guard_def k_ret_def need_def hm_get_def Let_def
        path_parent_join [OF d n(1)] mv)
qed

text \<open>
  C25: a removed concept can be restored.  Removing a concept of a library takes it away from its
  place and keeps it in the trash; restoring it afterwards brings back the same bytes, takes the
  copy out of the trash, and leaves every other file and directory of the disk as it was before
  the removal, but for the log and the trash directory itself.
\<close>

theorem trash_roundtrip:
  assumes "valid_lib_name lib" and "library F (lib_dir (libs_root env) lib) ds" and "concept_name rel"
    and "node_at F (ds @ [rel]) = Some (File bs)"
    and "node_at F (ds @ [''.trash'']) \<in> {None, Some Dir}" and "node_at F (ds @ [''.trash'', rel]) = None"
  shows "\<exists>F1 F2. cmd_rm env s1 [a, b, c, lib, ''rm'', rel] F = (Inr (), F1) \<and>
    node_at F1 (ds @ [rel]) = None \<and> node_at F1 (ds @ [''.trash'', rel]) = Some (File bs) \<and>
    cmd_restore env s2 [a, b, c, lib, ''restore'', rel] F1 = (Inr (), F2) \<and>
    node_at F2 (ds @ [rel]) = Some (File bs) \<and>
    (\<forall>q. q \<notin> {ds @ [''log.md''], ds @ [''.trash'']} \<longrightarrow> node_at F2 q = node_at F q)"
proof -
  note n = concept_nameD [OF assms(3)]
  from cmd_rm_file [OF assms(1-5), of s1 a b c "''rm''"] assms(6) obtain t where t: "valid_utf8 (as_bytes t)"
    "cmd_rm env s1 [a, b, c, lib, ''rm'', rel] F = (Inr (),
      set_node (ds @ [''log.md'']) (File (as_bytes t)) (set_node (ds @ [''.trash'', rel]) (File bs)
      ((ensure_dir (ds @ [''.trash'']) F)\<lparr>nodes := hm_remove (ds @ [rel]) (nodes (ensure_dir (ds @ [''.trash'']) F))\<rparr>)))"
    (is "_ = (_, ?F1)") by auto
  define F1 where "F1 = ?F1"
  have F1: "node_at F1 q = (if q = ds @ [''log.md''] then Some (File (as_bytes t)) else if q = ds @ [''.trash'', rel] then Some (File bs)
      else if q = ds @ [rel] then None else if q = ds @ [''.trash''] then Some Dir else node_at F q)" for q
    unfolding F1_def using assms(5) by (simp add: node_at_ensure_dir) auto
  have lg: "node_at F (ds @ [''log.md'']) \<noteq> Some Dir" using assms(2) by (auto simp: library_def)
  have "cwd F1 = cwd F" by (simp add: F1_def)
  then have k: "dirs_kept F F1" unfolding dirs_kept_def F1 using assms(4,6) lg by auto
  have "library F1 (lib_dir (libs_root env) lib) ds"
    using assms(2) resolve_kept [OF _ k] t(1) unfolding library_def F1 by simp
  from cmd_restore_file [OF assms(1) this assms(3), of bs s2 a b c "''restore''"] obtain t' where r:
    "cmd_restore env s2 [a, b, c, lib, ''restore'', rel] F1 = (Inr (), set_node (ds @ [''log.md'']) (File (as_bytes t'))
      (set_node (ds @ [rel]) (File bs) (F1\<lparr>nodes := hm_remove (ds @ [''.trash'', rel]) (nodes F1)\<rparr>)))" (is "_ = (_, ?F2)")
    using n(5,6) unfolding F1 by auto
  have F2: "node_at ?F2 q = (if q = ds @ [''log.md''] then Some (File (as_bytes t')) else if q = ds @ [rel] then Some (File bs)
      else if q = ds @ [''.trash'', rel] then None else node_at F1 q)" for q by simp
  show ?thesis
  proof (intro exI conjI)
    show "cmd_rm env s1 [a, b, c, lib, ''rm'', rel] F = (Inr (), F1)" using t(2) by (simp only: F1_def)
    show "node_at F1 (ds @ [rel]) = None" "node_at F1 (ds @ [''.trash'', rel]) = Some (File bs)" using n(5) by (simp_all add: F1)
    show "cmd_restore env s2 [a, b, c, lib, ''restore'', rel] F1 = (Inr (), ?F2)" by (rule r)
    show "node_at ?F2 (ds @ [rel]) = Some (File bs)" using n(5) by (simp add: F2 del: node_at_set_node)
    show "\<forall>q. q \<notin> {ds @ [''log.md''], ds @ [''.trash'']} \<longrightarrow> node_at ?F2 q = node_at F q"
      using assms(4,6) by (simp add: F2 F1 del: node_at_set_node)
  qed
qed

text \<open>A knowledge root with one library and one concept.\<close>

definition okf_disk :: fs where
  "okf_disk = \<lparr>cwd = [], nodes = [([''k''], Dir), ([''k'', ''lib''], Dir), ([''k'', ''lib'', ''a.md''], File [7])]\<rparr>"

definition okf_env :: env where
  "okf_env = (\<lambda>k. if k = ''NSMT_OKF_ROOT'' then Some ''/k'' else None)"

lemma okf_disk_nodes: "node_at okf_disk q = (if q = [] then Some Dir else if q = [''k''] then Some Dir
    else if q = [''k'', ''lib''] then Some Dir else if q = [''k'', ''lib'', ''a.md''] then Some (File [7]) else None)"
  by (simp add: okf_disk_def node_at_def hm_get_def)

lemma okf_disk_lib: "valid_lib_name ''lib''" "libs_root okf_env = ''/k''"
    "resolve okf_disk ''/k'' = Inr [''k'']" "library okf_disk (lib_dir (libs_root okf_env) ''lib'') [''k'', ''lib'']" "concept_name ''a.md''"
proof -
  show "valid_lib_name ''lib''" by (simp add: valid_lib_name_def is_ascii_lowercase_def less_eq_char_def)
  show r: "libs_root okf_env = ''/k''" by (simp add: libs_root_def okf_env_def)
  show "resolve okf_disk ''/k'' = Inr [''k'']" by (simp add: resolve_def start_of_def okf_disk_nodes)
  then show "library okf_disk (lib_dir (libs_root okf_env) ''lib'') [''k'', ''lib'']"
    using resolve_join [of okf_disk "''/k''" "[''k'']" "''lib''"] unfolding r
    by (simp add: library_def lib_dir_def okf_disk_nodes simple_name_def)
  have "valid_utf8 (as_bytes ''a.md'')" by (rule valid_utf8_ascii) (simp add: ascii_def)
  then show "concept_name ''a.md''" by (simp add: concept_name_def simple_name_def)
qed

theorem trash_roundtrip_witness:
  "\<exists>F1 F2. cmd_rm okf_env 0 [[], [], [], ''lib'', ''rm'', ''a.md''] okf_disk = (Inr (), F1) \<and>
    cmd_restore okf_env 1 [[], [], [], ''lib'', ''restore'', ''a.md''] F1 = (Inr (), F2) \<and>
    node_at F2 [''k'', ''lib'', ''a.md''] = Some (File [7])"
  using trash_roundtrip [OF okf_disk_lib(1,4,5), of "[7]" 0 "[]" "[]" "[]" 1] by (auto simp: okf_disk_nodes)

text \<open>
  What a library name can reach.  The accepted names lead into an entry of the knowledge root,
  except for two: a single dot is the root itself and two dots, though the check is there against
  path traversal, are the directory above it.
\<close>

theorem lib_name_reaches:
  assumes "valid_lib_name name" and "resolve F root = Inr rcs" and "node_at F rcs = Some Dir"
  shows "resolve F (lib_dir root name) =
    Inr (if name = ''..'' then butlast rcs else if name = ''.'' then rcs else rcs @ [name])"
  using resolve_step [OF assms(2,3) valid_lib_nameD [OF assms(1)]] valid_lib_nameD(1) [OF assms(1)]
  by (simp add: lib_dir_def step_to_def)

theorem lib_name_reaches_witness: "resolve okf_disk (lib_dir ''/k'' ''..'') = Inr []"
proof -
  have "valid_lib_name ''..''" by (simp add: valid_lib_name_def)
  from lib_name_reaches [OF this okf_disk_lib(3)] show ?thesis by (simp add: okf_disk_nodes)
qed

end
