(* ===== verification/Okf_Query.thy ===== *)
theory Okf_Query
  imports Okf
begin

text \<open>
  The commands of \<open>yggd okf\<close> that go through a whole library, \<open>nsmt-client/src/okf.rs\<close>: the
  collection of the concept files, the generated indexes, validation, listing and search, and the
  dispatch of the command line.  A command that scans directories is \<open>None\<close> if the scan does not
  end; what a command prints is its value.  The Unicode tables behind \<open>to_lowercase\<close> are the
  parameter \<open>lower\<close>.
\<close>

section \<open>Collecting\<close>

partial_function (option) collect_walk :: "fs \<Rightarrow> path \<Rightarrow> path \<Rightarrow> string list \<Rightarrow> path list \<Rightarrow> path list option" where
  "collect_walk F root dir names out =
     (case names of
        [] \<Rightarrow> Some out
      | n # ns \<Rightarrow>
         (let p = join dir n in
          if fs_is_dir F p then
            if n = ''.trash'' then collect_walk F root dir ns out
            else (case fs_read_dir F p of
                    Inl _ \<Rightarrow> collect_walk F root dir ns out
                  | Inr ms \<Rightarrow> Option.bind (collect_walk F root p ms out) (\<lambda>out'. collect_walk F root dir ns out'))
          else if extension p = Some ''md'' then
            (let rel = (case path_strip_prefix root p of Some r \<Rightarrow> r | None \<Rightarrow> p);
                 fname = (case file_name rel of Some f \<Rightarrow> f | None \<Rightarrow> [])
             in collect_walk F root dir ns (if fname \<in> set RESERVED then out else out @ [rel]))
          else collect_walk F root dir ns out))"

text \<open>Paths are ordered by their components.\<close>

definition path_order :: "path \<Rightarrow> string list" where
  "path_order p = split_char CHR ''/'' p"

definition collect_md_files :: "fs \<Rightarrow> path \<Rightarrow> path list option" where
  "collect_md_files F root =
     (if \<not> fs_is_dir F root then Some []
      else case fs_read_dir F root of
        Inl _ \<Rightarrow> Some []
      | Inr ns \<Rightarrow> map_option (sort_key path_order) (collect_walk F root root ns []))"

partial_function (option) has_md_in :: "fs \<Rightarrow> path \<Rightarrow> string list \<Rightarrow> bool option" where
  "has_md_in F dir names =
     (case names of
        [] \<Rightarrow> Some False
      | n # ns \<Rightarrow>
         (let p = join dir n in
          Option.bind
            (if fs_is_dir F p then
               (case fs_read_dir F p of Inl _ \<Rightarrow> Some False | Inr ms \<Rightarrow> has_md_in F p ms)
             else Some False)
            (\<lambda>below. if below \<or> extension p = Some ''md'' then Some True else has_md_in F dir ns)))"

definition has_md :: "fs \<Rightarrow> path \<Rightarrow> bool option" where
  "has_md F dir = (case fs_read_dir F dir of Inl _ \<Rightarrow> Some False | Inr ns \<Rightarrow> has_md_in F dir ns)"

fun libs_in :: "fs \<Rightarrow> path \<Rightarrow> string list \<Rightarrow> string list option" where
  "libs_in F root [] = Some []"
| "libs_in F root (n # ns) =
     (let p = join root n in
      if fs_is_dir F p \<and> valid_lib_name n \<and> \<not> prefix ''.'' n then
        Option.bind (has_md F p) (\<lambda>h. map_option (\<lambda>ls. if h then n # ls else ls) (libs_in F root ns))
      else libs_in F root ns)"

definition collect_libs :: "fs \<Rightarrow> path \<Rightarrow> string list option" where
  "collect_libs F root =
     (case fs_read_dir F root of Inl _ \<Rightarrow> Some [] | Inr ns \<Rightarrow> map_option sort (libs_in F root ns))"

section \<open>Indexes\<close>

definition concept_field :: "'y yaml \<Rightarrow> fs \<Rightarrow> path \<Rightarrow> string \<Rightarrow> string option" where
  "concept_field Y F p key = Option.bind (load_concept Y F p) (\<lambda>(fm, _). fm_str Y fm key)"

definition or_else :: "string option \<Rightarrow> string \<Rightarrow> string" where
  "or_else x d = (case x of Some v \<Rightarrow> v | None \<Rightarrow> d)"

definition index_item :: "'y yaml \<Rightarrow> fs \<Rightarrow> path \<Rightarrow> path \<Rightarrow> string \<Rightarrow> string" where
  "index_item Y F root rel link =
     (let p = join root rel;
          title = or_else (concept_field Y F p ''title'') rel;
          desc = or_else (concept_field Y F p ''description'') []
      in ''* ['' @ title @ '']('' @ link @ '')'' @ (if desc = [] then [] else '' - '' @ desc) @ [CHR 0x0A])"

definition group_of :: "path \<Rightarrow> string" where
  "group_of rel = slashes (path_parent rel)"

text \<open>The concepts below the root directory, grouped by directory in the order of a \<open>BTreeMap\<close>.\<close>

definition dir_groups :: "path list \<Rightarrow> (string \<times> path list) list" where
  "dir_groups files =
     (let below = filter (\<lambda>rel. path_parent rel \<noteq> []) files
      in map (\<lambda>d. (d, filter (\<lambda>rel. group_of rel = d) below)) (sort (remdups (map group_of below))))"

definition link_in :: "string \<Rightarrow> path \<Rightarrow> string" where
  "link_in dir rel = (case strip_prefix (dir @ ''/'') (slashes rel) of Some l \<Rightarrow> l | None \<Rightarrow> slashes rel)"

definition write_group :: "'y yaml \<Rightarrow> path \<Rightarrow> string \<times> path list \<Rightarrow> unit cmd" where
  "write_group Y root g =
     (let (dir, rels) = g; idx_path = join (join root dir) ''index.md'' in
      k_bind k_disk (\<lambda>F.
      let text = ''# Concepts'' @ [CHR 0x0A, CHR 0x0A] @ concat (map (\<lambda>rel. index_item Y F root rel (link_in dir rel)) rels) @ [CHR 0x0A] in
      k_bind (k_call (fs_create_dir_all (path_parent idx_path))) (\<lambda>_.
      k_call (fs_write idx_path (as_bytes text)))))"

fun write_groups :: "'y yaml \<Rightarrow> path \<Rightarrow> (string \<times> path list) list \<Rightarrow> unit cmd" where
  "write_groups Y root [] = k_ret ()"
| "write_groups Y root (g # gs) = k_bind (write_group Y root g) (\<lambda>_. write_groups Y root gs)"

definition no_concepts :: string where
  "no_concepts = ''_No concepts yet. Run `yggd okf <lib> add <path> --type <Type>`._'' @ [CHR 0x0A]"

definition root_index :: "'y yaml \<Rightarrow> fs \<Rightarrow> path \<Rightarrow> path list \<Rightarrow> string" where
  "root_index Y F root files =
     ''# Knowledge Bundle'' @ [CHR 0x0A, CHR 0x0A] @
     concat (map (\<lambda>(dir, _). ''* ['' @ dir @ '']('' @ dir @ ''/)'' @ [CHR 0x0A]) (dir_groups files)) @
     concat (map (\<lambda>rel. index_item Y F root rel (slashes rel)) (filter (\<lambda>rel. path_parent rel = []) files)) @
     (if files = [] then no_concepts else []) @ [CHR 0x0A]"

definition write_indexes :: "'y yaml \<Rightarrow> path \<Rightarrow> path list \<Rightarrow> unit cmd" where
  "write_indexes Y root files =
     k_bind (write_groups Y root (dir_groups files)) (\<lambda>_.
     k_bind k_disk (\<lambda>F.
     k_bind (k_call (fs_create_dir_all root)) (\<lambda>_.
     k_call (fs_write (join root ''index.md'') (as_bytes (root_index Y F root files))))))"

definition generate_index :: "'y yaml \<Rightarrow> path \<Rightarrow> fs \<Rightarrow> ((okf_error + unit) \<times> fs) option" where
  "generate_index Y root F = map_option (\<lambda>files. write_indexes Y root files F) (collect_md_files F root)"

section \<open>Validation\<close>

definition typed :: "'y yaml \<Rightarrow> 'y \<Rightarrow> bool" where
  "typed Y fm \<longleftrightarrow> (case fm_str Y fm ''type'' of Some t \<Rightarrow> trim t \<noteq> [] | None \<Rightarrow> False)"

definition bad_concept :: "'y yaml \<Rightarrow> fs \<Rightarrow> path \<Rightarrow> bool" where
  "bad_concept Y F p \<longleftrightarrow> (case load_concept Y F p of None \<Rightarrow> True | Some (fm, _) \<Rightarrow> \<not> typed Y fm)"

definition validate_bundle :: "'y yaml \<Rightarrow> fs \<Rightarrow> path \<Rightarrow> (okf_error + nat \<times> nat) option" where
  "validate_bundle Y F root =
     (if \<not> fs_is_dir F root then Some (Inl (LibraryMissing root))
      else map_option (\<lambda>files. Inr (length files, length (filter (\<lambda>rel. bad_concept Y F (join root rel)) files)))
        (collect_md_files F root))"

fun reserved_errors :: "'y yaml \<Rightarrow> fs \<Rightarrow> path \<Rightarrow> string list \<Rightarrow> okf_error + nat" where
  "reserved_errors Y F root [] = Inr 0"
| "reserved_errors Y F root (r # rs) =
     (let p = join root r in
      if fs_exists F p then
        (case fs_read_to_string F p of
           Inl e \<Rightarrow> Inl (OkfIo e)
         | Inr raw \<Rightarrow> and_then (reserved_errors Y F root rs)
             (\<lambda>n. Inr (if parse_doc Y raw = None then n else Suc n)))
      else reserved_errors Y F root rs)"

definition one_if :: "bool \<Rightarrow> nat" where "one_if b = (if b then 1 else 0)"

definition check_iso_field :: "'y yaml \<Rightarrow> 'y \<Rightarrow> string \<Rightarrow> nat" where
  "check_iso_field Y fm key = one_if (case fm_str Y fm key of Some v \<Rightarrow> \<not> is_iso8601 v | None \<Rightarrow> False)"

definition verified_entries :: "'y yaml \<Rightarrow> 'y \<Rightarrow> 'y list" where
  "verified_entries Y fm =
     (case y_get Y fm ''verified'' of
        None \<Rightarrow> []
      | Some v \<Rightarrow> (case y_shape Y v of Sequence xs \<Rightarrow> xs | _ \<Rightarrow> [v]))"

definition field_errors :: "'y yaml \<Rightarrow> 'y \<Rightarrow> nat" where
  "field_errors Y fm =
     one_if (\<not> typed Y fm) +
     one_if (case fm_str Y fm ''status'' of Some s \<Rightarrow> s \<notin> set STATUSES | None \<Rightarrow> False) +
     check_iso_field Y fm ''stale_after'' +
     (case y_get Y fm ''generated'' of Some g \<Rightarrow> check_iso_field Y g ''at'' | None \<Rightarrow> 0) +
     sum_list (map (\<lambda>e. check_iso_field Y e ''at'') (verified_entries Y fm))"

definition broken_links :: "fs \<Rightarrow> path \<Rightarrow> path \<Rightarrow> string \<Rightarrow> string list" where
  "broken_links F root p body =
     filter (\<lambda>l. \<not> is_external_link l \<and> \<not> fs_exists F (resolve_link root (path_parent p) l)) (extract_md_links body)"

definition concept_lint :: "'y yaml \<Rightarrow> fs \<Rightarrow> path \<Rightarrow> path \<Rightarrow> nat \<times> nat" where
  "concept_lint Y F root rel =
     (let p = join root rel in
      case load_concept Y F p of
        None \<Rightarrow> (1, 0)
      | Some (fm, body) \<Rightarrow> (field_errors Y fm, length (broken_links F root p body)))"

definition validate_bundle_lint :: "'y yaml \<Rightarrow> fs \<Rightarrow> path \<Rightarrow> (okf_error + nat \<times> nat \<times> nat) option" where
  "validate_bundle_lint Y F root =
     (if \<not> fs_is_dir F root then Some (Inl (LibraryMissing root))
      else map_option (\<lambda>files.
        and_then (reserved_errors Y F root RESERVED) (\<lambda>errors.
          (let ls = map (concept_lint Y F root) files
           in Inr (length files, errors + sum_list (map fst ls), sum_list (map snd ls)))))
        (collect_md_files F root))"

section \<open>Commands on libraries\<close>

type_synonym 'a query = "fs \<Rightarrow> (okf_error + 'a) option"

definition lib_row :: "'y yaml \<Rightarrow> fs \<Rightarrow> path \<Rightarrow> string \<Rightarrow> (string \<times> nat \<times> string) option" where
  "lib_row Y F root name =
     map_option (\<lambda>files. (name, length files, or_else (concept_field Y F (join (lib_dir root name) ''index.md'') ''title'') []))
       (collect_md_files F (lib_dir root name))"

fun all_rows :: "('a \<Rightarrow> 'b option) \<Rightarrow> 'a list \<Rightarrow> 'b list option" where
  "all_rows f [] = Some []"
| "all_rows f (x # xs) = Option.bind (f x) (\<lambda>y. map_option ((#) y) (all_rows f xs))"

definition cmd_lib_list :: "'y yaml \<Rightarrow> env \<Rightarrow> (string \<times> nat \<times> string) list query" where
  "cmd_lib_list Y env F =
     (let root = libs_root env in
      if \<not> fs_is_dir F root then Some (Inr [])
      else map_option Inr (Option.bind (collect_libs F root) (all_rows (lib_row Y F root))))"

record lib_details =
  ld_path :: path
  ld_concepts :: nat
  ld_types :: "(string \<times> nat) list"
  ld_log :: "(nat \<times> string) option"

definition type_counts :: "string list \<Rightarrow> (string \<times> nat) list" where
  "type_counts ts = map (\<lambda>t. (t, length (filter (\<lambda>u. u = t) ts))) (sort (remdups ts))"

definition log_summary :: "fs \<Rightarrow> path \<Rightarrow> (nat \<times> string) option" where
  "log_summary F dir =
     (case fs_read_to_string F (join dir ''log.md'') of
        Inl _ \<Rightarrow> None
      | Inr raw \<Rightarrow>
         (let items = filter (prefix ''* '') (str_lines raw)
          in Some (length items, if items = [] then [] else last items)))"

definition cmd_lib_show :: "'y yaml \<Rightarrow> env \<Rightarrow> string list \<Rightarrow> lib_details query" where
  "cmd_lib_show Y env args F =
     (case need (parse_args args 5) ''path'' of
        Inl e \<Rightarrow> Some (Inl e)
      | Inr name \<Rightarrow>
         (let dir = lib_dir (libs_root env) name in
          if \<not> fs_is_dir F dir then Some (Inl (LibraryMissing name))
          else map_option (\<lambda>files. Inr \<lparr>ld_path = dir, ld_concepts = length files,
              ld_types = type_counts (map (\<lambda>rel. or_else (concept_field Y F (join dir rel) ''type'') []) files),
              ld_log = log_summary F dir\<rparr>) (collect_md_files F dir)))"

text \<open>Documents, errors, warnings; the process exits with a failure if there are errors.\<close>

definition cmd_lib_validate :: "'y yaml \<Rightarrow> env \<Rightarrow> string list \<Rightarrow> (nat \<times> nat \<times> nat option \<times> bool) query" where
  "cmd_lib_validate Y env args F =
     (case need (parse_args args 5) ''path'' of
        Inl e \<Rightarrow> Some (Inl e)
      | Inr name \<Rightarrow>
         (let dir = lib_dir (libs_root env) name in
          if ''--lint'' \<in> set args then
            map_option (\<lambda>r. and_then r (\<lambda>(total, errors, warnings). Inr (total, errors, Some warnings, errors > 0)))
              (validate_bundle_lint Y F dir)
          else
            map_option (\<lambda>r. and_then r (\<lambda>(total, errors). Inr (total, errors, None, errors > 0)))
              (validate_bundle Y F dir)))"

section \<open>Commands in a library that only read\<close>

definition in_lib :: "env \<Rightarrow> string list \<Rightarrow> (path \<Rightarrow> opts \<Rightarrow> 'a query) \<Rightarrow> 'a query" where
  "in_lib env args k F = (case resolve_lib env args F of (Inl e, _) \<Rightarrow> Some (Inl e) | (Inr (dir, opts), _) \<Rightarrow> k dir opts F)"

text \<open>\<open>with_extension\<close> of the empty extension.\<close>

definition concept_id :: "path \<Rightarrow> string" where
  "concept_id rel = slashes (case extension rel of Some e \<Rightarrow> take (length rel - Suc (length e)) rel | None \<Rightarrow> rel)"

record list_row =
  lr_type :: string
  lr_id :: string
  lr_tags :: "string list"
  lr_desc :: string

definition list_row_of :: "'y yaml \<Rightarrow> fs \<Rightarrow> path \<Rightarrow> string option \<Rightarrow> path \<Rightarrow> list_row option" where
  "list_row_of Y F dir type_filter rel =
     (case load_concept Y F (join dir rel) of
        None \<Rightarrow> None
      | Some (fm, _) \<Rightarrow>
         (let ftype = or_else (fm_str Y fm ''type'') [] in
          if (case type_filter of Some f \<Rightarrow> ftype \<noteq> f | None \<Rightarrow> False) then None
          else Some \<lparr>lr_type = ftype, lr_id = concept_id rel, lr_tags = fm_tags Y fm,
                     lr_desc = or_else (fm_str Y fm ''description'') []\<rparr>))"

definition cmd_list :: "'y yaml \<Rightarrow> env \<Rightarrow> string list \<Rightarrow> list_row list query" where
  "cmd_list Y env args = in_lib env args (\<lambda>dir opts F.
     map_option (\<lambda>files. Inr (List.map_filter (list_row_of Y F dir (hm_get opts ''type'')) files)) (collect_md_files F dir))"

record concept_view =
  cv_concept :: string
  cv_type :: string
  cv_title :: string
  cv_desc :: string
  cv_status :: string
  cv_tags :: "string list"
  cv_generated :: "string option"
  cv_body :: "string list"

definition cmd_show :: "'y yaml \<Rightarrow> env \<Rightarrow> string list \<Rightarrow> concept_view query" where
  "cmd_show Y env args = in_lib env args (\<lambda>dir opts F.
     (case need opts ''path'' of
        Inl e \<Rightarrow> Some (Inl e)
      | Inr rel \<Rightarrow>
         (case load_concept Y F (join dir rel) of
            None \<Rightarrow> Some (Inl (NotAConcept (join dir rel)))
          | Some (fm, body) \<Rightarrow>
             Some (Inr \<lparr>cv_concept = slashes rel, cv_type = or_else (fm_str Y fm ''type'') [],
               cv_title = or_else (fm_str Y fm ''title'') [], cv_desc = or_else (fm_str Y fm ''description'') [],
               cv_status = or_else (fm_str Y fm ''status'') ''stable'', cv_tags = fm_tags Y fm,
               cv_generated = map_option (\<lambda>g. or_else (y_as_str Y g) ''present'') (y_get Y fm ''generated''),
               cv_body = take 40 (str_lines body)\<rparr>))))"

section \<open>Search\<close>

definition contains :: "(string \<Rightarrow> string) \<Rightarrow> string \<Rightarrow> string \<Rightarrow> bool" where
  "contains lower kw text \<longleftrightarrow> find_str kw (lower text) \<noteq> None"

definition where_hit :: "'y yaml \<Rightarrow> (string \<Rightarrow> string) \<Rightarrow> 'y \<Rightarrow> string \<Rightarrow> string \<Rightarrow> string \<Rightarrow> string list" where
  "where_hit Y lower fm ftype title kw =
     (if contains lower kw ftype then [''type''] else []) @
     (if contains lower kw title then [''title''] else []) @
     (case fm_str Y fm ''description'' of Some d \<Rightarrow> if contains lower kw d then [''description''] else [] | None \<Rightarrow> []) @
     (if list_ex (contains lower kw) (fm_tags Y fm) then [''tags''] else [])"

definition body_hits :: "(string \<Rightarrow> string) \<Rightarrow> string \<Rightarrow> string \<Rightarrow> (nat \<times> string) list" where
  "body_hits lower kw body =
     filter (\<lambda>(ln, t). t \<noteq> [])
       (map (\<lambda>(i, l). (Suc i, trim l)) (filter (\<lambda>(i, l). contains lower kw l) (List.enumerate 0 (str_lines body))))"

text \<open>\<open>&text[..90]\<close> panics when byte 90 is inside a character.\<close>

definition is_char_boundary :: "string \<Rightarrow> nat \<Rightarrow> bool" where
  "is_char_boundary s i \<longleftrightarrow> i = length s \<or> i < length s \<and> \<not> cont (of_char (s ! i))"

definition snippet :: "string \<Rightarrow> okf_error + string" where
  "snippet t =
     (if length t > 90 then
        if is_char_boundary t 90 then Inr (take 90 t @ [CHR 0xE2, CHR 0x80, CHR 0xA6]) else Inl Panicked
      else Inr t)"

datatype hit =
    FieldHit string string "string list" string
  | BodyHit string string "(nat \<times> string) list"

fun all_snippets :: "(nat \<times> string) list \<Rightarrow> okf_error + (nat \<times> string) list" where
  "all_snippets [] = Inr []"
| "all_snippets ((ln, t) # r) = and_then (snippet t) (\<lambda>u. and_then (all_snippets r) (\<lambda>us. Inr ((ln, u) # us)))"

definition search_one :: "'y yaml \<Rightarrow> (string \<Rightarrow> string) \<Rightarrow> fs \<Rightarrow> path \<Rightarrow> string \<Rightarrow> path \<Rightarrow> okf_error + hit option" where
  "search_one Y lower F dir kw rel =
     (case load_concept Y F (join dir rel) of
        None \<Rightarrow> Inr None
      | Some (fm, body) \<Rightarrow>
         (let ftype = or_else (fm_str Y fm ''type'') []; title = or_else (fm_str Y fm ''title'') rel;
              cid = concept_id rel; ws = where_hit Y lower fm ftype title kw; bs = body_hits lower kw body
          in if ws \<noteq> [] then Inr (Some (FieldHit ftype cid ws title))
             else if bs \<noteq> [] then and_then (all_snippets (take 3 bs)) (\<lambda>us. Inr (Some (BodyHit ftype cid us)))
             else Inr None))"

fun search_all :: "(path \<Rightarrow> okf_error + hit option) \<Rightarrow> path list \<Rightarrow> okf_error + hit list" where
  "search_all f [] = Inr []"
| "search_all f (r # rs) = and_then (f r) (\<lambda>h. and_then (search_all f rs) (\<lambda>hs. Inr (case h of Some x \<Rightarrow> x # hs | None \<Rightarrow> hs)))"

definition cmd_search :: "'y yaml \<Rightarrow> (string \<Rightarrow> string) \<Rightarrow> env \<Rightarrow> string list \<Rightarrow> hit list query" where
  "cmd_search Y lower env args = in_lib env args (\<lambda>dir opts F.
     (case need opts ''path'' of
        Inl e \<Rightarrow> Some (Inl e)
      | Inr kw \<Rightarrow> map_option (search_all (search_one Y lower F dir (lower kw))) (collect_md_files F dir)))"

section \<open>The command line\<close>

definition cmd_index :: "'y yaml \<Rightarrow> env \<Rightarrow> string list \<Rightarrow> fs \<Rightarrow> ((okf_error + unit) \<times> fs) option" where
  "cmd_index Y env args F =
     (case resolve_lib env args F of
        (Inl e, F') \<Rightarrow> Some (Inl e, F')
      | (Inr (dir, _), F') \<Rightarrow> generate_index Y dir F')"

datatype okf_output =
    Confirmed
  | UsageText
  | LibRows "(string \<times> nat \<times> string) list"
  | LibDetails lib_details
  | Validation "nat \<times> nat \<times> nat option \<times> bool"
  | Rows "list_row list"
  | View concept_view
  | Hits "hit list"

definition confirm :: "(okf_error + unit) \<times> fs \<Rightarrow> (okf_error + okf_output) \<times> fs" where
  "confirm r = (map_sum id (\<lambda>_. Confirmed) (fst r), snd r)"

definition printed :: "('a \<Rightarrow> okf_output) \<Rightarrow> 'a query \<Rightarrow> fs \<Rightarrow> ((okf_error + okf_output) \<times> fs) option" where
  "printed out q F = map_option (\<lambda>r. (map_sum id out r, F)) (q F)"

definition arg_or_help :: "string list \<Rightarrow> nat \<Rightarrow> string" where
  "arg_or_help args i = (if i < length args then args ! i else ''help'')"

definition HELP :: "string list" where "HELP = [''help'', ''--help'', ''-h'']"

definition run_libs :: "'y yaml \<Rightarrow> env \<Rightarrow> string list \<Rightarrow> fs \<Rightarrow> ((okf_error + okf_output) \<times> fs) option" where
  "run_libs Y env args F =
     (let sub = arg_or_help args 4 in
      if sub = ''new'' then Some (confirm (cmd_lib_new env args F))
      else if sub = ''list'' then printed LibRows (cmd_lib_list Y env) F
      else if sub = ''show'' then printed LibDetails (cmd_lib_show Y env args) F
      else if sub = ''rm'' then Some (confirm (cmd_lib_rm env args F))
      else if sub = ''validate'' then printed Validation (cmd_lib_validate Y env args) F
      else if sub \<in> set HELP then Some (Inr UsageText, F)
      else Some (Inl (UnknownCommand sub), F))"

text \<open>The clock is read once for the front matter (\<open>secs\<close>) and once for the log (\<open>secs'\<close>).\<close>

definition run_lib :: "'y yaml \<Rightarrow> (string \<Rightarrow> string) \<Rightarrow> env \<Rightarrow> nat \<Rightarrow> nat \<Rightarrow> string list \<Rightarrow> fs \<Rightarrow> ((okf_error + okf_output) \<times> fs) option" where
  "run_lib Y lower env secs secs' args F =
     (let sub = arg_or_help args 4 in
      if sub = ''add'' then Some (confirm (cmd_add env secs secs' args F))
      else if sub = ''rm'' then Some (confirm (cmd_rm env secs' args F))
      else if sub = ''restore'' then Some (confirm (cmd_restore env secs' args F))
      else if sub = ''edit'' then Some (confirm (cmd_edit Y env secs secs' args F))
      else if sub = ''list'' then printed Rows (cmd_list Y env args) F
      else if sub = ''show'' then printed View (cmd_show Y env args) F
      else if sub = ''index'' then map_option confirm (cmd_index Y env args F)
      else if sub = ''log'' then Some (confirm (cmd_log env secs' args F))
      else if sub = ''search'' then printed Hits (cmd_search Y lower env args) F
      else if sub \<in> set HELP then Some (Inr UsageText, F)
      else if valid_lib_name (args ! 3) then Some (Inl (UnknownCommand sub), F)
      else Some (Inl (InvalidLibrary (args ! 3)), F))"

definition okf_run :: "'y yaml \<Rightarrow> (string \<Rightarrow> string) \<Rightarrow> env \<Rightarrow> nat \<Rightarrow> nat \<Rightarrow> string list \<Rightarrow> fs \<Rightarrow> ((okf_error + okf_output) \<times> fs) option" where
  "okf_run Y lower env secs secs' args F =
     (let head = arg_or_help args 3 in
      if head = ''libs'' then run_libs Y env args F
      else if head \<in> set HELP then Some (Inr UsageText, F)
      else run_lib Y lower env secs secs' args F)"

section \<open>What is collected\<close>

lemma file_name_last: "simple_name n \<Longrightarrow> file_name n = Some n" "simple_name n \<Longrightarrow> file_name (p @ CHR ''/'' # n) = Some n"
  by (simp_all add: file_name_def split_char_append split_char_none simple_name_def)

lemma file_name_join: "simple_name n \<Longrightarrow> file_name (join p n) = Some n"
  by (auto simp: join_simple suffix_def file_name_last)

lemma file_name_slash_join: "simple_name n \<Longrightarrow> file_name (slash_join (rel @ [n])) = Some n"
  by (cases "rel = []") (simp_all add: slash_join_snoc file_name_last)

lemma extension_join: "simple_name n \<Longrightarrow> extension (join p n) = extension n"
  by (simp add: extension_def file_name_join file_name_last)

definition concept_file :: "string \<Rightarrow> bool" where
  "concept_file n \<longleftrightarrow> extension n = Some ''md'' \<and> n \<notin> set RESERVED"

definition in_trash :: "string list \<Rightarrow> bool" where
  "in_trash rel \<longleftrightarrow> rel \<noteq> [] \<and> last rel = ''.trash''"

definition pick_concept :: "path \<Rightarrow> string list \<Rightarrow> bytes \<Rightarrow> path list" where
  "pick_concept root rel b = (if concept_file (last rel) then [slash_join rel] else [])"

lemma collect_walk_file:
  assumes "resolve F (join dir n) = Inr q" and "node_at F q = Some (File b)" and "simple_name n"
    and "path_strip_prefix root (join dir n) = Some (slash_join (rel @ [n]))"
  shows "collect_walk F root dir (n # ns) out = collect_walk F root dir ns (out @ pick_concept root (rel @ [n]) b)"
  using assms(1,2,4) by (subst collect_walk.simps)
    (simp add: fs_is_dir_def Let_def extension_join [OF assms(3)] file_name_slash_join [OF assms(3)] pick_concept_def concept_file_def)

lemma collect_walk_dir:
  assumes "resolve F (join dir n) = Inr q" and "node_at F q = Some Dir"
  shows "n = ''.trash'' \<Longrightarrow> collect_walk F root dir (n # ns) out = collect_walk F root dir ns out"
    and "n \<noteq> ''.trash'' \<Longrightarrow> collect_walk F root (join dir n) (children F q) out = Some out' \<Longrightarrow>
      collect_walk F root dir (n # ns) out = collect_walk F root dir ns out'"
  using assms by (subst collect_walk.simps; simp add: fs_is_dir_def fs_read_dir_def Let_def)+

lemma collect_walk_Nil: "collect_walk F root dir [] out = Some out"
  by (subst collect_walk.simps) simp

interpretation concept_scan: dir_scan collect_walk in_trash pick_concept
proof unfold_locales
  fix F root rcs rel n b ns and out :: "path list"
  assume ok: "fs_ok F" and r: "resolve F root = Inr rcs" and f: "node_at F (rcs @ rel @ [n]) = Some (File b)"
  have s: "list_all simple_name (rel @ [n])" using descend(1) [OF ok, of rcs "rel @ [n]"] f by simp
  show "collect_walk F root (path_at root rel) (n # ns) out =
      collect_walk F root (path_at root rel) ns (out @ pick_concept root (rel @ [n]) b)"
    by (rule collect_walk_file [OF _ f])
      (use resolve_at [OF ok r, of "rel @ [n]"] f s strip_prefix_at [OF s] in simp_all)
next
  fix F root rcs rel n ns and out out' :: "path list"
  assume ok: "fs_ok F" and r: "resolve F root = Inr rcs" and d: "node_at F (rcs @ rel @ [n]) = Some Dir"
  have q: "resolve F (join (path_at root rel) n) = Inr (rcs @ rel @ [n])" using resolve_at [OF ok r, of "rel @ [n]"] d by simp
  show "in_trash (rel @ [n]) \<Longrightarrow>
      collect_walk F root (path_at root rel) (n # ns) out = collect_walk F root (path_at root rel) ns out"
    using collect_walk_dir(1) [OF q d] by (simp add: in_trash_def)
  show "\<not> in_trash (rel @ [n]) \<Longrightarrow>
      collect_walk F root (path_at root (rel @ [n])) (children F (rcs @ rel @ [n])) out = Some out' \<Longrightarrow>
      collect_walk F root (path_at root rel) (n # ns) out = collect_walk F root (path_at root rel) ns out'"
    using collect_walk_dir(2) [OF q d] by (simp add: in_trash_def)
qed (rule collect_walk_Nil)

text \<open>The reference: the concept files of the file system below the directory \<open>rcs\<close>.\<close>

definition is_concept :: "string list \<Rightarrow> string list \<times> node \<Rightarrow> bool" where
  "is_concept rcs x \<longleftrightarrow> strict_prefix rcs (fst x) \<and> snd x \<noteq> Dir \<and> concept_file (last (fst x)) \<and>
     ''.trash'' \<notin> set (butlast (drop (length rcs) (fst x)))"

lemma reached_trash: "concept_scan.reached rel \<longleftrightarrow> ''.trash'' \<notin> set rel"
proof -
  have "(\<exists>p \<in> set (prefixes rel). p \<noteq> [] \<and> last p = ''.trash'') \<longleftrightarrow> ''.trash'' \<in> set rel"
  proof
    assume "''.trash'' \<in> set rel"
    then obtain u v where "rel = u @ ''.trash'' # v" by (meson split_list)
    then show "\<exists>p \<in> set (prefixes rel). p \<noteq> [] \<and> last p = ''.trash''"
      by (intro bexI [of _ "u @ [''.trash'']"]) auto
  next
    assume "\<exists>p \<in> set (prefixes rel). p \<noteq> [] \<and> last p = ''.trash''"
    then obtain p where "prefix p rel" "p \<noteq> []" "last p = ''.trash''" by auto
    then show "''.trash'' \<in> set rel" using set_mono_prefix last_in_set by (metis subsetD)
  qed
  then show ?thesis unfolding concept_scan.reached_def in_trash_def by blast
qed

lemma picked_concepts:
  "concept_scan.picked root rcs (filter (concept_scan.in_scan rcs) xs) =
     mset (map (\<lambda>x. slash_join (drop (length rcs) (fst x))) (filter (is_concept rcs) xs))"
proof -
  have l: "last (drop (length rcs) q) = last q" if "strict_prefix rcs q" for q
    using that by (metis append_eq_conv_conj last_appendR prefixE strict_prefix_def append_Nil2)
  have "mset (pick_concept root (drop (length rcs) (fst x)) (contents (snd x))) =
      (if is_concept rcs x then {#slash_join (drop (length rcs) (fst x))#} else {#})" if "concept_scan.in_scan rcs x" for x
    using that l [of "fst x"] by (simp add: concept_scan.in_scan_def is_concept_def pick_concept_def reached_trash)
  moreover have "is_concept rcs x \<Longrightarrow> concept_scan.in_scan rcs x" for x
    by (simp add: concept_scan.in_scan_def is_concept_def reached_trash)
  ultimately show ?thesis unfolding concept_scan.picked_def by (induction xs) (simp_all, blast?)
qed

lemma collect_md_all:
  assumes "fs_ok F" and "resolve F root = Inr rcs" and "node_at F rcs = Some Dir"
  shows "\<exists>files. collect_md_files F root = Some files \<and>
    mset files = mset (map (\<lambda>x. slash_join (drop (length rcs) (fst x))) (filter (is_concept rcs) (nodes F))) \<and>
    sorted (map path_order files)"
proof -
  from concept_scan.scan_exact [OF assms] obtain X where X: "collect_walk F root root (children F rcs) [] = Some X"
    "mset X = mset (map (\<lambda>x. slash_join (drop (length rcs) (fst x))) (filter (is_concept rcs) (nodes F)))"
    unfolding picked_concepts by blast
  then have "collect_md_files F root = Some (sort_key path_order X)"
    using assms(2,3) by (simp add: collect_md_files_def fs_is_dir_def fs_read_dir_def)
  with X(2) show ?thesis by simp
qed

text \<open>
  The collection of a library ends and is complete.  For a library directory of a well-formed
  file system \<open>collect_md_files\<close> returns, each exactly once, the relative paths of the files at any
  depth whose extension is \<open>md\<close>, that do not have a reserved name and are not in a directory named
  \<open>.trash\<close>; they are ordered by path components.
\<close>

theorem collect_md_exact:
  assumes "fs_ok F" and "resolve F root = Inr rcs" and "node_at F rcs = Some Dir"
  shows "\<exists>files. collect_md_files F root = Some files \<and>
    mset files = mset (map (\<lambda>x. slash_join (drop (length rcs) (fst x))) (filter (is_concept rcs) (nodes F))) \<and>
    sorted (map path_order files)"
  by (rule collect_md_all [OF assms])

lemma okf_disk_ok: "fs_ok okf_disk"
  by (simp add: fs_ok_def okf_disk_def hm_ok_def hm_keys_def simple_name_def node_at_def hm_get_def)

theorem collect_md_exact_witness: "collect_md_files okf_disk ''/k'' = Some [''lib/a.md'']"
proof -
  have "filter (is_concept [''k'']) (nodes okf_disk) = [([''k'', ''lib'', ''a.md''], File [7])]"
    by (simp add: okf_disk_def is_concept_def concept_file_def RESERVED_def extension_def file_name_def strict_prefix_def Let_def)
  with collect_md_exact [OF okf_disk_ok okf_disk_lib(3)] show ?thesis by (auto simp: okf_disk_nodes)
qed

section \<open>A concept that is added\<close>

lemma scan_args_first: "\<exists>o' ps. scan_args args opts (p # qs) = (o', p # ps)"
  by (induction args opts "p # qs" arbitrary: qs rule: scan_args.induct) (auto split: option.splits list.splits)

lemma parse_args_path:
  assumes "\<not> prefix ''--'' rel"
  shows "hm_get (parse_args (a # b # c # lib # op # rel # extra) 5) ''path'' = Some rel"
proof -
  obtain o' ps where "scan_args extra [] [rel] = (o', rel # ps)" using scan_args_first by blast
  then show ?thesis using assms by (simp add: parse_args_def strip_prefix_def numeral_eq_Suc)
qed

lemma front_matter_ends: "front_matter opts ft title st secs = butlast (front_matter opts ft title st secs) @ [CHR 0x0A]"
  by (simp add: front_matter_def butlast_append)

definition title_of :: "opts \<Rightarrow> string \<Rightarrow> string \<Rightarrow> string" where
  "title_of opts rel ft = opt_or opts ''title'' (case file_stem rel of Some s \<Rightarrow> s | None \<Rightarrow> ft)"

lemma cmd_add_file:
  fixes a b c lib op rel :: string and extra :: "string list"
  assumes "valid_lib_name lib" and "library F (lib_dir (libs_root env) lib) ds" and "concept_name rel" and "suffix ''.md'' rel"
    and "node_at F (ds @ [rel]) = None"
  defines "args \<equiv> a # b # c # lib # op # rel # extra"
  defines "opts \<equiv> parse_args args 5"
  assumes "hm_get opts ''type'' = Some ft" and "ft \<noteq> []" and "opt_or opts ''status'' ''stable'' \<in> set STATUSES"
    and "valid_utf8 (as_bytes (title_of opts rel ft))"
  shows "\<exists>t. cmd_add env secs secs' args F = (Inr (), set_node (ds @ [''log.md'']) (File (as_bytes t))
    (set_node (ds @ [rel]) (File (as_bytes (doc_text
      (front_matter opts ft (title_of opts rel ft) (opt_or opts ''status'' ''stable'') secs) (title_of opts rel ft)))) F))"
proof -
  let ?dir = "lib_dir (libs_root env) lib"
  define d where "d = doc_text (front_matter opts ft (title_of opts rel ft) (opt_or opts ''status'' ''stable'') secs) (title_of opts rel ft)"
  let ?H = "set_node (ds @ [rel]) (File (as_bytes d)) F"
  note n = concept_nameD [OF assms(3)] and dn = valid_lib_name_dir [OF assms(1), of "libs_root env"]
  have r: "resolve F ?dir = Inr ds" "node_at F ds = Some Dir" using assms(2) by (simp_all add: library_def)
  have lib: "resolve_lib env args F = (Inr (?dir, opts), F)"
    using assms(1) r by (simp add: resolve_lib_def k_simps fs_is_dir_def Let_def args_def opts_def)
  have nd: "need opts ''path'' = Inr rel" "need opts ''type'' = Inr ft"
    using parse_args_path [OF n(3), of a b c lib op extra] n(2) assms(8,9) by (simp_all add: need_def opts_def args_def)
  have w: "fs_write (join ?dir rel) (as_bytes d) F = Inr ?H" using write_in_dir [OF r n(1)] assms(5) by simp
  have "library ?H ?dir ds" by (rule library_kept [OF assms(2)]) (use assms(5) n(5) in \<open>auto simp: dirs_kept_def\<close>)
  from k_log_ok [OF this valid_log_link, of "''**Creation**: Established''" "title_of opts rel ft" rel secs'] obtain t where
    "k_log secs' ?dir (log_link ''**Creation**: Established'' (title_of opts rel ft) rel) ?H = (Inr (), set_node (ds @ [''log.md'']) (File (as_bytes t)) ?H)"
    using assms(3,11) by (auto simp: concept_name_def ascii_def)
  moreover have "\<not> fs_exists F (join ?dir rel)" using exists_in_dir [OF r n(1)] assms(5) by simp
  ultimately show ?thesis
    unfolding cmd_add_def d_def [symmetric] using n(4) assms(4,10) create_dir_all_idem [OF r] nd w
    by (auto simp: k_bind_def k_lift_def k_call_def k_disk_def guard_def k_ret_def Let_def lib path_parent_join [OF dn n(1)]
        title_of_def [symmetric] d_def [symmetric])
qed

lemma extension_md:
  assumes "simple_name rel" and "suffix ''.md'' rel" and "rel \<noteq> ''.md''"
  shows "extension rel = Some ''md''"
proof -
  obtain u where "rel = u @ ''.md''" using assms(2) by (auto simp: suffix_def)
  moreover from this have "u \<noteq> []" using assms(3) by auto
  ultimately show ?thesis using assms(1) by (simp add: extension_def file_name_last)
qed

lemma load_written:
  assumes "fs_read F p = Inr (as_bytes t)" and "valid_utf8 (as_bytes t)"
  shows "load_concept Y F p = parse_doc Y t"
  using assms by (simp add: load_concept_def fs_read_to_string_def from_utf8_def as_bytes_def o_def map_idI)

lemma doc_text_utf8:
  assumes "valid_utf8 (as_bytes title)" and "valid_utf8 (as_bytes fm)"
  shows "valid_utf8 (as_bytes (doc_text (fm @ [CHR 0x0A]) title))"
proof -
  have "valid_utf8 (as_bytes (''---'' @ [CHR 0x0A]))" "valid_utf8 (as_bytes ([CHR 0x0A] @ ''---'' @ [CHR 0x0A, CHR 0x0A] @ ''# ''))"
    "valid_utf8 (as_bytes [CHR 0x0A, CHR 0x0A])" by (rule valid_utf8_ascii, simp add: ascii_def)+
  moreover have "doc_text (fm @ [CHR 0x0A]) title =
      (''---'' @ [CHR 0x0A]) @ fm @ ([CHR 0x0A] @ ''---'' @ [CHR 0x0A, CHR 0x0A] @ ''# '') @ title @ [CHR 0x0A, CHR 0x0A]"
    by (simp add: doc_text_def)
  ultimately show ?thesis using assms by (simp only: as_bytes_append [of "''---'' @ [CHR 0x0A]"] as_bytes_append [of fm]
        as_bytes_append [of "[CHR 0x0A] @ ''---'' @ [CHR 0x0A, CHR 0x0A] @ ''# ''"] as_bytes_append [of title] valid_utf8_append)
qed

lemma collect_has:
  assumes "fs_ok F" and "resolve F dir = Inr ds" and "node_at F ds = Some Dir"
    and "node_at F (ds @ [rel]) = Some (File b)" and "concept_file rel"
  shows "\<exists>files. collect_md_files F dir = Some files \<and> rel \<in> set files"
proof -
  from collect_md_all [OF assms(1-3)] obtain files where f: "collect_md_files F dir = Some files"
    "mset files = mset (map (\<lambda>x. slash_join (drop (length ds) (fst x))) (filter (is_concept ds) (nodes F)))" by blast
  have "(ds @ [rel], File b) \<in> set (nodes F)" using assms(1,4) by (simp add: entry_node)
  moreover have "is_concept ds (ds @ [rel], File b)" using assms(5) by (simp add: is_concept_def strict_prefix_def)
  ultimately have "slash_join (drop (length ds) (fst (ds @ [rel], File b))) \<in> set files"
    unfolding set_mset_mset [symmetric] f(2) by (simp only: set_mset_mset set_map set_filter) blast
  then show ?thesis using f(1) by simp
qed

text \<open>
  C26: a concept that is added can be read and is found.  Adding a concept with a type and an allowed
  status to a library that does not have it succeeds; afterwards the concept parses to exactly what
  the YAML parser makes of the written fields, its body is the title, and the collection of the
  library contains it.
\<close>

theorem added_concept_found:
  fixes a b c lib op rel ft :: string and secs :: nat and extra :: "string list"
  defines "args \<equiv> a # b # c # lib # op # rel # extra"
  defines "opts \<equiv> parse_args args 5"
  defines "title \<equiv> title_of opts rel ft"
  defines "fm \<equiv> butlast (front_matter opts ft title (opt_or opts ''status'' ''stable'') secs)"
  assumes "fs_ok F" and "valid_lib_name lib" and "library F (lib_dir (libs_root env) lib) ds"
    and "concept_name rel" and "suffix ''.md'' rel" and "rel \<noteq> ''.md''" and "node_at F (ds @ [rel]) = None"
    and "hm_get opts ''type'' = Some ft" and "ft \<noteq> []" and "opt_or opts ''status'' ''stable'' \<in> set STATUSES"
    and "valid_utf8 (as_bytes title)" and "valid_utf8 (as_bytes fm)"
    and "find_str nl_dashes ([CHR 0x0A] @ fm) = None"
  shows "\<exists>F'. cmd_add env secs secs' args F = (Inr (), F') \<and>
    load_concept Y F' (join (lib_dir (libs_root env) lib) rel) =
      map_option (\<lambda>v. (v, ''# '' @ title @ [CHR 0x0A, CHR 0x0A])) (y_from_str Y ([CHR 0x0A] @ fm)) \<and>
    (\<exists>files. collect_md_files F' (lib_dir (libs_root env) lib) = Some files \<and> rel \<in> set files)"
proof -
  let ?dir = "lib_dir (libs_root env) lib" and ?d = "doc_text (fm @ [CHR 0x0A]) title"
  note n = concept_nameD [OF assms(8)]
  have r: "resolve F ?dir = Inr ds" "node_at F ds = Some Dir" and lg: "node_at F (ds @ [''log.md'']) \<noteq> Some Dir"
    using assms(7) by (auto simp: library_def)
  have fm: "front_matter opts ft title (opt_or opts ''status'' ''stable'') secs = fm @ [CHR 0x0A]"
    unfolding fm_def by (rule front_matter_ends)
  obtain t where "cmd_add env secs secs' args F = (Inr (), set_node (ds @ [''log.md'']) (File (as_bytes t)) (set_node (ds @ [rel]) (File (as_bytes ?d)) F))"
    using cmd_add_file [OF assms(6-9,11), of a b c op extra ft] assms(12-15) fm unfolding args_def opts_def title_def by metis
  moreover define H where "H = set_node (ds @ [''log.md'']) (File (as_bytes t)) (set_node (ds @ [rel]) (File (as_bytes ?d)) F)"
  ultimately have add: "cmd_add env secs secs' args F = (Inr (), H)" by simp
  have H: "node_at H q = (if q = ds @ [''log.md''] then Some (File (as_bytes t)) else if q = ds @ [rel] then Some (File (as_bytes ?d)) else node_at F q)" for q
    unfolding H_def by simp
  have ok: "fs_ok H" unfolding H_def
    using fs_ok_set_node [OF fs_ok_set_node [OF assms(5)]] r(2) n(1) simple_log(1) lg assms(11) by (simp add: placed_def)
  have k: "dirs_kept F H" using lg assms(11) by (auto simp: dirs_kept_def H) (simp add: H_def)
  have rH: "resolve H ?dir = Inr ds" "node_at H ds = Some Dir" using resolve_kept [OF r(1) k] r(2) by (simp_all add: H)
  have "fs_read H (join ?dir rel) = Inr (as_bytes ?d)" using read_in_dir [OF rH n(1)] n(5) by (simp add: H)
  moreover have "valid_utf8 (as_bytes ?d)" by (rule doc_text_utf8 [OF assms(15,16)])
  ultimately have load: "load_concept Y H (join ?dir rel) = map_option (\<lambda>v. (v, ''# '' @ title @ [CHR 0x0A, CHR 0x0A])) (y_from_str Y ([CHR 0x0A] @ fm))"
    using load_written parse_doc_text [OF assms(17)] by metis
  have "node_at H (ds @ [rel]) = Some (File (as_bytes ?d))" using n(5) by (simp add: H)
  from collect_has [OF ok rH this] extension_md [OF n(1) assms(9,10)] n(4) show ?thesis
    using add load by (auto simp: concept_file_def)
qed

lemma iso_epoch: "iso_of_secs 0 = ''1970-01-01T00:00:00Z''"
proof -
  have "civil_from_days 0 = (1970, 1, 1)" by code_simp
  moreover have "char_of (48 :: nat) = CHR ''0''" "char_of (49 :: nat) = CHR ''1''" "char_of (55 :: nat) = CHR ''7''"
    "char_of (57 :: nat) = CHR ''9''" by code_simp+
  ultimately show ?thesis by (simp add: iso_of_secs_def fmt_padded_def fmt_dec.simps Let_def)
qed

lemma sample_front_matter:
  "butlast (front_matter [(''type'', ''T''), (''path'', ''b.md'')] ''T'' ''b'' ''stable'' 0) =
    ''type: T'' @ [CHR 0x0A] @ ''title: b'' @ [CHR 0x0A] @ ''status: stable'' @ [CHR 0x0A] @
    ''generated: { by: process:nsmt, at: 1970-01-01T00:00:00Z }''"
  by (simp add: front_matter_def field_def opt_or_def hm_get_def generated_def iso_epoch)

theorem added_concept_found_witness:
  "\<exists>F' files. cmd_add okf_env 0 0 [[], [], [], ''lib'', ''add'', ''b.md'', ''--type'', ''T''] okf_disk = (Inr (), F') \<and>
    collect_md_files F' (lib_dir (libs_root okf_env) ''lib'') = Some files \<and> ''b.md'' \<in> set files"
proof -
  have o: "parse_args [[], [], [], ''lib'', ''add'', ''b.md'', ''--type'', ''T''] 5 = [(''type'', ''T''), (''path'', ''b.md'')]"
    by (simp add: parse_args_def strip_prefix_def hm_insert_def numeral_eq_Suc)
  have t: "title_of [(''type'', ''T''), (''path'', ''b.md'')] ''b.md'' ''T'' = ''b''"
    by (simp add: title_of_def opt_or_def hm_get_def file_stem_def file_name_def Let_def)
  have st: "opt_or [(''type'', ''T''), (''path'', ''b.md'')] ''status'' ''stable'' = ''stable''" by (simp add: opt_or_def hm_get_def)
  let ?fm = "butlast (front_matter [(''type'', ''T''), (''path'', ''b.md'')] ''T'' ''b'' ''stable'' 0)"
  have v: "valid_utf8 (as_bytes ''b'')" "valid_utf8 (as_bytes ?fm)" "valid_utf8 (as_bytes ''b.md'')"
    unfolding sample_front_matter by (rule valid_utf8_ascii, simp add: ascii_def)+
  have f: "find_str nl_dashes ([CHR 0x0A] @ ?fm) = None" unfolding sample_front_matter by (simp add: nl_dashes_def)
  have c: "concept_name ''b.md''" "suffix ''.md'' ''b.md''" "''b.md'' \<noteq> ''.md''" using v(3)
    by (simp_all add: concept_name_def simple_name_def suffix_to_prefix)
  have "node_at okf_disk ([''k'', ''lib''] @ [''b.md'']) = None" by (simp add: okf_disk_nodes)
  from added_concept_found [OF okf_disk_ok okf_disk_lib(1,4) c this, of "[]" "[]" "[]" "''add''" "[''--type'', ''T'']" "''T''" 0 0
      "\<lparr>y_from_str = Some, y_get = (\<lambda>_ _. None), y_as_str = (\<lambda>_. None), y_shape = (\<lambda>_. OtherShape)\<rparr>",
      unfolded o t st] v f
  show ?thesis by (auto simp: hm_get_def STATUSES_def)
qed

lemma snippet_panics: "snippet (replicate 89 (CHR ''a'') @ [CHR 0xC3, CHR 0xA9, CHR 0xC3, CHR 0xA9]) = Inl Panicked"
  by (simp add: snippet_def is_char_boundary_def nth_append cont_def)

end
