(* ===== verification/Okf_Disk.thy ===== *)
theory Okf_Disk
  imports Okf_Query
begin

text \<open>
  What every command of \<open>yggd okf\<close> does to the disk: each invocation of \<open>run\<close> in
  \<open>nsmt-client/src/okf.rs\<close> returns, and the file system it leaves is well formed.
\<close>

section \<open>Commands that keep the file system well formed\<close>

named_theorems keeps_rules \<open>commands that keep the file system well formed\<close>

definition keeps :: "'a cmd \<Rightarrow> bool" where
  "keeps m \<longleftrightarrow> (\<forall>F. fs_ok F \<longrightarrow> fs_ok (snd (m F)))"

lemma keepsD: "keeps m \<Longrightarrow> fs_ok F \<Longrightarrow> fs_ok (snd (m F))"
  by (simp add: keeps_def)

lemma keeps_basic [keeps_rules]: "keeps (k_ret x)" "keeps (k_fail e)" "keeps (k_lift r)" "keeps k_disk" "keeps (guard b e)"
  by (simp_all add: keeps_def k_simps)

lemma keeps_bind [keeps_rules]:
  assumes "keeps m" and "\<And>x. keeps (k x)"
  shows "keeps (k_bind m k)"
  unfolding keeps_def
proof (intro allI impI)
  fix F
  assume "fs_ok F"
  then have "fs_ok (snd (m F))" using assms(1) by (simp add: keeps_def)
  then show "fs_ok (snd (k_bind m k F))"
    using assms(2) by (auto simp: keeps_def k_bind_def split: prod.splits sum.splits)
qed

lemma keeps_call: "(\<And>F F'. fs_ok F \<Longrightarrow> op F = Inr F' \<Longrightarrow> fs_ok F') \<Longrightarrow> keeps (k_call op)"
  by (auto simp: keeps_def k_call_def split: sum.splits)

lemma keeps_calls [keeps_rules]:
  "keeps (k_call (fs_create_dir_all p))" "keeps (k_call (fs_write p b))" "keeps (k_call (fs_rename p q))"
  by (rule keeps_call, blast intro: fs_calls_ok fs_rename_ok)+

lemma keeps_log [keeps_rules]: "keeps (k_log secs root t)"
  by (auto simp: keeps_def k_log_def append_log_def Let_def intro: fs_create_dir_all_ok fs_write_ok split: sum.splits)

lemma keeps_choices [keeps_rules]:
  "keeps a \<Longrightarrow> keeps b \<Longrightarrow> keeps (if P then a else b)"
  "keeps a \<Longrightarrow> (\<And>x. keeps (f x)) \<Longrightarrow> keeps (case opt of None \<Rightarrow> a | Some x \<Rightarrow> f x)"
  "(\<And>x. keeps (g x)) \<Longrightarrow> (\<And>y. keeps (h y)) \<Longrightarrow> keeps (case s of Inl x \<Rightarrow> g x | Inr y \<Rightarrow> h y)"
  "(\<And>x y. keeps (c x y)) \<Longrightarrow> keeps (case p of (x, y) \<Rightarrow> c x y)"
  by (auto split: option.split sum.split prod.split)

lemma keeps_resolve_lib [keeps_rules]: "keeps (resolve_lib env args)"
  unfolding resolve_lib_def Let_def by (intro keeps_rules)

lemma keeps_commands:
  "keeps (cmd_lib_new env args)" "keeps (cmd_add env secs secs' args)" "keeps (cmd_rm env secs' args)"
  "keeps (cmd_restore env secs' args)" "keeps (cmd_edit Y env secs secs' args)" "keeps (cmd_log env secs' args)"
  unfolding cmd_lib_new_def cmd_add_def cmd_rm_def cmd_restore_def cmd_edit_def cmd_log_def Let_def
  by (intro keeps_rules)+

lemma keeps_write_groups [keeps_rules]: "keeps (write_groups Y root gs)"
proof (induction gs)
  case (Cons g gs)
  have "keeps (write_group Y root g)"
    by (cases g) (simp add: write_group_def Let_def del: split_paired_All, intro keeps_rules)
  with Cons show ?case by (simp add: keeps_bind)
qed (simp add: keeps_basic)

lemma keeps_write_indexes: "keeps (write_indexes Y root files)"
  unfolding write_indexes_def Let_def by (intro keeps_rules)

lemma lib_rm_tree:
  assumes "fs_ok F"
  shows "tree_ok (snd (cmd_lib_rm env args F))"
proof -
  have t: "tree_ok F" using assms by (simp add: fs_ok_tree)
  then have "tree_ok (snd (k_call (fs_remove_dir_all d) F))" for d
    by (auto simp: k_call_def split: sum.splits dest: fs_remove_dir_all_ok)
  with t show ?thesis
    by (auto simp: cmd_lib_rm_def Let_def k_bind_def k_lift_def k_disk_def guard_def k_ret_def k_fail_def split: sum.splits)
qed

section \<open>Scans that end\<close>

lemma collect_md_some:
  assumes "fs_ok F"
  shows "\<exists>files. collect_md_files F root = Some files"
proof (cases "fs_is_dir F root")
  case True
  then obtain rcs where "resolve F root = Inr rcs" "node_at F rcs = Some Dir"
    by (auto simp: fs_is_dir_def split: sum.splits)
  from collect_md_all [OF assms this] show ?thesis by blast
qed (simp add: collect_md_files_def)

lemma some_bool [simp]: "\<exists>b. b" "\<exists>b. \<not> b"
  by blast+

lemma has_md_in_ends:
  assumes "fs_ok F" and "resolve F dir = Inr cs" and "\<forall>q \<in> set (hm_keys (nodes F)). prefix cs q \<longrightarrow> length q \<le> length cs + k"
    and "set names \<subseteq> set (children F cs)" and "node_at F cs = Some Dir"
  shows "\<exists>b. has_md_in F dir names = Some b"
  using assms(2-5)
proof (induction k arbitrary: dir cs names)
  case 0
  have "\<not> (n \<in> set (children F cs))" for n
    using bspec [OF 0(2), of "cs @ [n]"] by (cases "hm_get (nodes F) (cs @ [n])") (auto simp: children_iff [OF assms(1)] node_at_def hm_keys_iff)
  then have "names = []" using 0(3) by (cases names) auto
  then show ?case by (subst has_md_in.simps) auto
next
  case (Suc k)
  show ?case using Suc.prems(3)
  proof (induction names)
    case Nil
    show ?case by (subst has_md_in.simps) auto
  next
    case (Cons n ns)
    have n: "node_at F (cs @ [n]) \<noteq> None" using Cons.prems by (simp add: children_iff [OF assms(1)])
    then have "simple_name n" using descend(1) [OF assms(1), of cs "[n]"] by simp
    from resolve_join [OF Suc.prems(1,4) this] have r: "resolve F (join dir n) = Inr (cs @ [n])" .
    have bound: "\<forall>q \<in> set (hm_keys (nodes F)). prefix (cs @ [n]) q \<longrightarrow> length q \<le> length (cs @ [n]) + k"
      using Suc.prems(2) by (auto dest: append_prefixD)
    have below: "\<exists>b. has_md_in F (join dir n) (children F (cs @ [n])) = Some b" if "node_at F (cs @ [n]) = Some Dir"
      using Suc.IH [OF r bound _ that] by simp
    from Cons obtain b where "has_md_in F dir ns = Some b" by auto
    with below r show ?case
      by (subst has_md_in.simps) (auto simp: Let_def fs_is_dir_def fs_read_dir_def)
  qed
qed

lemma has_md_some: "fs_ok F \<Longrightarrow> \<exists>b. has_md F dir = Some b"
proof -
  assume ok: "fs_ok F"
  show ?thesis
  proof (cases "fs_read_dir F dir")
    case (Inr ns)
    then obtain cs where cs: "resolve F dir = Inr cs" "node_at F cs = Some Dir" "ns = children F cs"
      by (cases "resolve F dir"; cases "node_at F (projr (resolve F dir))"; cases "the (node_at F (projr (resolve F dir)))")
        (auto simp: fs_read_dir_def)
    obtain k where "\<forall>q \<in> set (hm_keys (nodes F)). prefix cs q \<longrightarrow> length q \<le> length cs + k" using keys_bounded by blast
    from has_md_in_ends [OF ok cs(1) this _ cs(2)] show ?thesis by (simp add: has_md_def Inr cs(3))
  qed (auto simp: has_md_def)
qed

lemma collect_libs_some:
  assumes "fs_ok F"
  shows "\<exists>ls. collect_libs F root = Some ls"
proof -
  have "\<exists>ls. libs_in F root ns = Some ls" for ns
  proof (induction ns)
    case (Cons n ns)
    then show ?case using has_md_some [OF assms, of "join root n"] by (auto simp: Let_def)
  qed simp
  then show ?thesis by (cases "fs_read_dir F root") (auto simp: collect_libs_def)
qed

lemma all_rows_some: "(\<And>x. \<exists>y. f x = Some y) \<Longrightarrow> \<exists>ys. all_rows f xs = Some ys"
proof (induction xs)
  case (Cons x xs)
  then obtain y ys where "f x = Some y" "all_rows f xs = Some ys" by metis
  then show ?case by simp
qed simp

text \<open>A query that ends.\<close>

definition ends :: "fs \<Rightarrow> 'a query \<Rightarrow> bool" where
  "ends F q \<longleftrightarrow> (\<exists>r. q F = Some r)"

lemma in_lib_ends: "(\<And>dir opts. \<exists>r. k dir opts F = Some r) \<Longrightarrow> ends F (in_lib env args k)"
  by (cases "fst (resolve_lib env args F)"; cases "resolve_lib env args F") (auto simp: ends_def in_lib_def)

lemma lib_queries_end:
  assumes "fs_ok F"
  shows "ends F (cmd_lib_list Y env)" "ends F (cmd_lib_show Y env args)" "ends F (cmd_lib_validate Y env args)"
proof -
  have c: "\<exists>files. collect_md_files F d = Some files" for d by (rule collect_md_some [OF assms])
  have "\<exists>row. lib_row Y F r n = Some row" for r n using c [of "lib_dir r n"] by (auto simp: lib_row_def)
  then obtain rows where rows: "\<And>ls. all_rows (lib_row Y F (libs_root env)) ls = Some (rows ls)" using all_rows_some by metis
  obtain ls where "collect_libs F (libs_root env) = Some ls" using collect_libs_some [OF assms] by blast
  then show "ends F (cmd_lib_list Y env)" by (simp add: ends_def cmd_lib_list_def Let_def rows)
  show "ends F (cmd_lib_show Y env args)"
  proof (cases "need (parse_args args 5) ''path''")
    case (Inr name)
    obtain files where "collect_md_files F (lib_dir (libs_root env) name) = Some files" using c by blast
    then show ?thesis by (simp add: ends_def cmd_lib_show_def Inr Let_def)
  qed (simp add: ends_def cmd_lib_show_def)
  show "ends F (cmd_lib_validate Y env args)"
  proof (cases "need (parse_args args 5) ''path''")
    case (Inr name)
    obtain files where "collect_md_files F (lib_dir (libs_root env) name) = Some files" using c by blast
    then show ?thesis by (simp add: ends_def cmd_lib_validate_def validate_bundle_lint_def validate_bundle_def Inr Let_def)
  qed (simp add: ends_def cmd_lib_validate_def)
qed

lemma concept_queries_end:
  assumes "fs_ok F"
  shows "ends F (cmd_list Y env args)" "ends F (cmd_show Y env args)" "ends F (cmd_search Y lower env args)"
proof -
  have c: "\<exists>files. collect_md_files F d = Some files" for d by (rule collect_md_some [OF assms])
  show "ends F (cmd_list Y env args)" unfolding cmd_list_def using c by (intro in_lib_ends) simp
  show "ends F (cmd_show Y env args)" unfolding cmd_show_def by (intro in_lib_ends) (simp split: sum.split option.split prod.split)
  show "ends F (cmd_search Y lower env args)" unfolding cmd_search_def using c by (intro in_lib_ends) (simp split: sum.split)
qed

lemmas queries_end = lib_queries_end concept_queries_end

lemma index_ends:
  assumes "fs_ok F"
  shows "\<exists>r F'. cmd_index Y env args F = Some (r, F') \<and> fs_ok F'"
proof -
  obtain r F1 where r: "resolve_lib env args F = (r, F1)" by (cases "resolve_lib env args F")
  have ok: "fs_ok F1" using keepsD [OF keeps_resolve_lib assms, of env args] by (simp add: r)
  show ?thesis
  proof (cases r)
    case (Inr p)
    obtain files where "collect_md_files F1 (fst p) = Some files" using collect_md_some [OF ok] by blast
    moreover have "fs_ok (snd (write_indexes Y (fst p) files F1))" by (rule keepsD [OF keeps_write_indexes ok])
    ultimately show ?thesis using r Inr by (cases p) (auto simp: cmd_index_def generate_index_def, metis prod.collapse)
  qed (use r ok in \<open>simp add: cmd_index_def\<close>)
qed

section \<open>Every invocation\<close>

text \<open>An invocation that returns and leaves a well-formed file system.\<close>

definition fine :: "((okf_error + okf_output) \<times> fs) option \<Rightarrow> bool" where
  "fine x \<longleftrightarrow> (\<exists>r F'. x = Some (r, F') \<and> fs_ok F')"

lemma fine_confirm: "keeps m \<Longrightarrow> fs_ok F \<Longrightarrow> fine (Some (confirm (m F)))"
  by (auto simp: fine_def confirm_def keepsD)

lemma fine_printed: "ends F q \<Longrightarrow> fs_ok F \<Longrightarrow> fine (printed out q F)"
  by (auto simp: fine_def ends_def printed_def)

lemma fine_same: "fs_ok F \<Longrightarrow> fine (Some (r, F))"
  by (simp add: fine_def)

lemma run_lib_fine:
  assumes "fs_ok F"
  shows "fine (run_lib Y lower env secs secs' args F)"
proof -
  have "fine (map_option confirm (cmd_index Y env args F))"
    using index_ends [OF assms, of Y env args] by (auto simp: fine_def confirm_def)
  then show ?thesis
    by (simp add: run_lib_def Let_def fine_confirm fine_printed fine_same keeps_commands queries_end assms)
qed

lemma run_libs_fine:
  assumes "fs_ok F" and "arg_or_help args 4 \<noteq> ''rm''"
  shows "fine (run_libs Y env args F)"
  using assms by (simp add: run_libs_def Let_def fine_confirm fine_printed fine_same keeps_commands queries_end)

text \<open>
  Every invocation of \<open>yggd okf\<close> returns and keeps the disk well formed.  On a well-formed file
  system, whatever the arguments, the environment, the clock and the YAML parser, \<open>okf_run\<close> ends
  with an error or an answer, and afterwards every entry has a proper name and stands in a directory;
  the working directory is still there, unless the invocation is \<open>libs rm\<close>, which may remove it.
\<close>

theorem okf_run_well_formed:
  assumes "fs_ok F"
  shows "\<exists>r F'. okf_run Y lower env secs secs' args F = Some (r, F') \<and> tree_ok F' \<and>
    (node_at F' (cwd F') = Some Dir \<or> take 2 (drop 3 args) = [''libs'', ''rm''])"
proof (cases "arg_or_help args 3 = ''libs'' \<and> arg_or_help args 4 = ''rm''")
  case True
  then have l: "4 < length args" "args ! 3 = ''libs''" "args ! 4 = ''rm''" by (auto simp: arg_or_help_def split: if_splits)
  then have "take 2 (drop 3 args) = [''libs'', ''rm'']"
    by (auto simp: list_eq_iff_nth_eq nth_Cons less_Suc_eq numeral_2_eq_2)
  moreover have "okf_run Y lower env secs secs' args F = Some (confirm (cmd_lib_rm env args F))"
    using True by (simp add: okf_run_def run_libs_def Let_def)
  ultimately show ?thesis using lib_rm_tree [OF assms, of env args] by (auto simp: confirm_def)
next
  case False
  then have "fine (okf_run Y lower env secs secs' args F)"
    using run_lib_fine [OF assms] run_libs_fine [OF assms] by (auto simp: okf_run_def Let_def fine_same assms)
  then show ?thesis by (auto simp: fine_def fs_ok_tree)
qed

definition text_yaml :: "string yaml" where
  "text_yaml = \<lparr>y_from_str = Some, y_get = (\<lambda>_ _. None), y_as_str = (\<lambda>_. None), y_shape = (\<lambda>_. OtherShape)\<rparr>"

theorem okf_run_well_formed_witness:
  "\<exists>r F'. okf_run text_yaml id okf_env 0 0 [''yggd'', ''addr'', ''okf'', ''lib'', ''rm'', ''a.md''] okf_disk = Some (r, F') \<and>
    tree_ok F' \<and> node_at F' (cwd F') = Some Dir"
  using okf_run_well_formed [OF okf_disk_ok, of text_yaml id okf_env 0 0 "[''yggd'', ''addr'', ''okf'', ''lib'', ''rm'', ''a.md'']"]
  by auto

end
