(* ===== verification/Okf_Files.thy ===== *)
theory Okf_Files
  imports Okf_Disk
begin

text \<open>
  Which files an invocation of \<open>yggd okf\<close> (\<open>nsmt-client/src/okf.rs\<close>) can take away or change: the
  checks of the commands as a property of what they leave on the disk.
\<close>

section \<open>Paths without two dots\<close>

definition no_dots :: "path \<Rightarrow> bool" where
  "no_dots p \<longleftrightarrow> ''..'' \<notin> set (split_char CHR ''/'' p)"

lemma split_snoc: "split_char c (p @ [c]) = split_char c p @ [[]]"
  using split_char_append [of c p "[]"] by simp

lemma no_dots_join:
  assumes "no_dots p" and "no_dots q"
  shows "no_dots (join p q)"
proof (cases "p = [] \<or> prefix ''/'' q")
  case True
  then show ?thesis using assms by (auto simp: join_def)
next
  case False
  show ?thesis
  proof (cases "suffix ''/'' p")
    case True
    then obtain u where "p = u @ ''/''" by (auto simp: suffix_def)
    with assms False show ?thesis by (auto simp: join_def no_dots_def split_char_append split_snoc)
  qed (use assms False in \<open>auto simp: join_def no_dots_def split_char_append\<close>)
qed

text \<open>
  Where nothing but directories was added and a path has no two dots, a file that the path reaches
  now was there before, under the same path.
\<close>

definition grown :: "fs \<Rightarrow> fs \<Rightarrow> bool" where
  "grown F G \<longleftrightarrow> cwd G = cwd F \<and> (\<forall>x. node_at F x \<noteq> None \<longrightarrow> node_at G x = node_at F x)"

lemma walk_back:
  assumes "fs_ok F" and "grown F G" and "node_at F q \<noteq> None" and "walk G cur xs = Inr q" and "''..'' \<notin> set xs"
  shows "walk F cur xs = Inr q \<and> prefix cur q"
  using assms(4,5)
proof (induction xs arbitrary: cur)
  case (Cons c cs)
  then have G: "node_at G cur = Some Dir" and w: "walk G (step_to cur c) cs = Inr q" by (simp_all only: walk_Cons)
  from Cons.IH [OF w] Cons.prems(2) have b: "walk F (step_to cur c) cs = Inr q" "prefix (step_to cur c) q" by simp_all
  then have p: "prefix cur q" using Cons.prems(2) by (auto simp: step_to_def dest: append_prefixD split: if_splits)
  then obtain r where r: "q = cur @ r" by (auto simp: prefix_def)
  have "node_at F cur = Some Dir"
  proof (cases "r = []")
    case True
    then show ?thesis using assms(2,3) G r by (simp add: grown_def)
  next
    case False
    then show ?thesis using descend(2) [OF assms(1), of cur r] assms(3) r by simp
  qed
  with b(1) p show ?case by (simp only: walk_Cons)
qed simp

lemma resolve_back:
  assumes "fs_ok F" and "grown F G" and "node_at F q \<noteq> None" and "resolve G p = Inr q" and "no_dots p"
  shows "resolve F p = Inr q"
  using walk_back [OF assms(1-3), of "start_of F p" "split_char CHR ''/'' p"] assms(2,4,5)
  by (auto simp: resolve_def no_dots_def start_of_def grown_def split: if_splits)

section \<open>Files that are lost\<close>

definition lost :: "fs \<Rightarrow> fs \<Rightarrow> string list \<Rightarrow> bool" where
  "lost F F' q \<longleftrightarrow> (\<exists>b. node_at F q = Some (File b) \<and> node_at F' q \<noteq> Some (File b))"

definition below :: "fs \<Rightarrow> path \<Rightarrow> string list \<Rightarrow> bool" where
  "below F p q \<longleftrightarrow> (\<exists>cs. resolve F p = Inr cs \<and> prefix cs q)"

lemma not_lost_same [simp]: "\<not> lost F F q"
  by (simp add: lost_def)

lemma lost_trans: "lost F H q \<Longrightarrow> lost F G q \<or> lost G H q"
  by (auto simp: lost_def)

lemma lost_grown: "grown F G \<Longrightarrow> lost F H q \<longleftrightarrow> lost G H q \<and> node_at F q \<noteq> None"
  by (auto simp: lost_def grown_def)

lemma create_grown: "fs_create_dir_all p F = Inr G \<Longrightarrow> grown F G"
  using create_dir_all_grows by (auto simp: grown_def)

lemma grown_refl [simp]: "grown F F"
  by (simp add: grown_def)

lemma lost_write: "fs_write p bs F = Inr G \<Longrightarrow> lost F G q \<Longrightarrow> resolve F p = Inr q"
  by (drule fs_write_InrD) (auto simp: lost_def split: if_splits, metis node_at_root node_at_set_node option.inject)

lemma lost_remove_dir:
  assumes "fs_ok F" and "fs_remove_dir_all p F = Inr G" and "lost F G q"
  shows "below F p q"
proof -
  obtain cs where r: "resolve F p = Inr cs" using assms(2) by (auto simp: fs_remove_dir_all_def and_then_eq_Inr)
  then have G: "G = F\<lparr>nodes := hm_retain (\<lambda>q n. \<not> prefix cs q) (nodes F)\<rparr>"
    using assms(2) by (cases "node_at F cs"; cases "the (node_at F cs)") (auto simp: fs_remove_dir_all_def)
  have "hm_ok (nodes F)" using assms(1) by (simp add: fs_ok_def)
  then have "\<not> prefix cs q \<longrightarrow> node_at G q = node_at F q" by (auto simp: G node_at_def split: option.split)
  then show ?thesis using assms(3) r by (auto simp: lost_def below_def)
qed

text \<open>A rename takes files away from the old place, and the file at the new one.\<close>

lemma renamed_elsewhere:
  assumes "cs \<noteq> []" and "ds \<noteq> []" and "\<forall>r. node_at F r \<noteq> None \<longrightarrow> \<not> prefix ds r" and "node_at F q \<noteq> None" and "\<not> prefix cs q"
  shows "node_at (F\<lparr>cwd := d, nodes := rebase cs ds (nodes F)\<rparr>) q = node_at F q"
  using node_at_rebase [OF assms(1-4)] assms(5) by (cases "q = []") (simp_all add: moved_def node_at_def)

lemma lost_rename:
  assumes "fs_ok F" and "fs_rename a b F = Inr G" and "lost F G q"
  shows "below F a q \<or> below F b q"
proof (rule ccontr)
  assume no: "\<not> (below F a q \<or> below F b q)"
  from assms(2) obtain cs ds where r: "resolve F a = Inr cs" "resolve F b = Inr ds"
    by (auto simp: fs_rename_def and_then_eq_Inr)
  then have q: "\<not> prefix cs q" "\<not> prefix ds q" using no by (auto simp: below_def)
  have nz: "cs \<noteq> []" "ds \<noteq> []" using q by auto
  consider f where "node_at F cs = Some (File f)" | "node_at F cs = Some Dir"
    using assms(2) by (cases "node_at F cs"; cases "the (node_at F cs)") (auto simp: fs_rename_def r)
  then have "node_at G q = node_at F q" if "node_at F q \<noteq> None"
  proof cases
    case 1
    then have "G = F \<or> G = set_node ds (File f) (F\<lparr>nodes := hm_remove cs (nodes F)\<rparr>)"
      using assms(2) by (cases "node_at F ds"; cases "the (node_at F ds)"; auto simp: fs_rename_def r and_then_eq_Inr split: if_splits)+
    then show ?thesis using q nz by auto
  next
    case 2
    then have "G = F \<or> (\<exists>H. G = F\<lparr>cwd := moved cs ds (cwd F), nodes := rebase cs ds (nodes H)\<rparr> \<and>
        (node_at F ds = None \<and> H = F \<or> children F ds = [] \<and> H = F\<lparr>nodes := hm_remove ds (nodes F)\<rparr>))"
      using assms(2) by (cases "node_at F ds"; cases "the (node_at F ds)")
        (auto simp: fs_rename_def r and_then_eq_Inr split: if_splits)
    then consider "G = F" | H where "G = F\<lparr>cwd := moved cs ds (cwd F), nodes := rebase cs ds (nodes H)\<rparr>"
      "node_at F ds = None \<and> H = F \<or> children F ds = [] \<and> H = F\<lparr>nodes := hm_remove ds (nodes F)\<rparr>" by blast
    then show ?thesis
    proof cases
      case (2 H)
      have "\<not> prefix ds x" if x: "node_at H x \<noteq> None" for x
      proof
        assume "prefix ds x"
        then obtain u where u: "x = ds @ u" by (auto simp: prefix_def)
        show False
        proof (cases u)
          case Nil
          then show ?thesis using 2(2) nz x u by auto
        next
          case (Cons n v)
          then have Fx: "node_at F ((ds @ [n]) @ v) \<noteq> None" using 2(2) nz x u by (auto split: if_splits)
          then have "node_at F (ds @ [n]) \<noteq> None" using descend(2) [OF assms(1) Fx] by (cases "v = []") auto
          moreover from this have "node_at F ds = Some Dir" using descend(2) [OF assms(1), of ds "[n]"] by simp
          ultimately have "children F ds \<noteq> []" "node_at F ds \<noteq> None" using children_iff [OF assms(1), of n ds] by auto
          then show ?thesis using 2(2) by auto
        qed
      qed
      moreover have Hq: "node_at H q = node_at F q" using 2(2) q nz by auto
      moreover have "node_at G q = node_at (H\<lparr>cwd := moved cs ds (cwd F), nodes := rebase cs ds (nodes H)\<rparr>) q" by (simp add: 2(1) node_at_def)
      ultimately show ?thesis using renamed_elsewhere [OF nz, of H q] q that by simp
    qed simp
  qed
  then show False using assms(3) by (auto simp: lost_def)
qed

lemma split_join_last:
  assumes "simple_name n"
  shows "\<exists>xs. split_char CHR ''/'' (join p n) = xs @ [n]"
proof -
  have n: "CHR ''/'' \<notin> set n" "\<not> prefix ''/'' n" using assms by (auto simp: simple_name_def prefix_def)
  show ?thesis
  proof (cases "p = [] \<or> suffix ''/'' p")
    case True
    then show ?thesis using n by (auto simp: join_def suffix_def split_char_append split_char_none)
  qed (use n in \<open>auto simp: join_def split_char_append split_char_none\<close>)
qed

lemma resolve_last:
  assumes "resolve F (join p n) = Inr q" and "simple_name n"
  shows "last q = n"
proof -
  obtain xs where "split_char CHR ''/'' (join p n) = xs @ [n]" using split_join_last [OF assms(2)] by blast
  with assms(1) obtain ds where "walk F ds [n] = Inr q" by (auto simp: resolve_def walk_append and_then_eq_Inr simp del: walk.simps split: if_splits)
  then show ?thesis using assms(2) by (auto simp: simple_name_def split: option.splits node.splits)
qed

section \<open>The commands\<close>

lemma lost_log:
  assumes "k_log secs root t F = (r, G)" and "lost F G q"
  shows "last q = ''log.md''"
proof -
  obtain F1 F2 where "fs_create_dir_all root F = Inr F1" and G: "G = F1 \<or> (\<exists>b. fs_write (join root ''log.md'') b F1 = Inr G)"
    using assms by (auto simp: k_log_def append_log_def Let_def split: sum.splits prod.splits)
  then have "lost F1 G q" using assms(2) lost_grown [OF create_grown] by blast
  with G have "resolve F1 (join root ''log.md'') = Inr q" using lost_write by auto
  then show ?thesis by (rule resolve_last) (simp add: simple_name_def)
qed

text \<open>The library and the path of a command.\<close>

definition lib_of :: "env \<Rightarrow> string list \<Rightarrow> path" where
  "lib_of env args = lib_dir (libs_root env) (args ! 3)"

definition rel_of :: "string list \<Rightarrow> string" where
  "rel_of args = (case hm_get (parse_args args 5) ''path'' of Some rel \<Rightarrow> rel | None \<Rightarrow> [])"

definition forced :: "string list \<Rightarrow> bool" where
  "forced args \<longleftrightarrow> hm_get (parse_args args 5) ''force'' \<in> {Some ''1'', Some ''true''} \<or> ''--force'' \<in> set args"

lemma needD: "need (parse_args args 5) ''path'' = Inr rel \<Longrightarrow> rel_of args = rel"
  by (auto simp: need_def rel_of_def split: option.splits if_splits)

text \<open>One call after the other: what a command has passed when it loses a file.\<close>

lemma lost_guard: "k_bind (guard b e) k F = (r, G) \<Longrightarrow> lost F G q \<Longrightarrow> b \<and> k () F = (r, G)"
  by (cases b) (auto simp: k_simps)

lemma lost_lift: "k_bind (k_lift v) k F = (r, G) \<Longrightarrow> lost F G q \<Longrightarrow> \<exists>x. v = Inr x \<and> k x F = (r, G)"
  by (cases v) (auto simp: k_simps)

lemma k_bind_ret: "k_bind (k_ret x) k F = k x F"
  by (simp add: k_simps)

lemma lost_disk: "k_bind k_disk k F = (r, G) \<Longrightarrow> k F F = (r, G)"
  by (simp add: k_simps)

lemma lost_call: "k_bind (k_call op) k F = (r, G) \<Longrightarrow> lost F G q \<Longrightarrow> \<exists>F1. op F = Inr F1 \<and> k () F1 = (r, G)"
  by (auto simp: k_simps split: sum.splits)

lemma lost_last_call: "k_call op F = (r, G) \<Longrightarrow> lost F G q \<Longrightarrow> op F = Inr G"
  by (auto simp: k_simps split: sum.splits)

lemma lost_create:
  assumes "k_bind (k_call (fs_create_dir_all p)) k F = (r, G)" and "lost F G q"
  shows "\<exists>F1. grown F F1 \<and> k () F1 = (r, G) \<and> lost F1 G q \<and> node_at F q \<noteq> None"
proof -
  from lost_call [OF assms] obtain F1 where F1: "fs_create_dir_all p F = Inr F1" "k () F1 = (r, G)" by blast
  with assms(2) lost_grown [OF create_grown [OF F1(1)]] create_grown [OF F1(1)] show ?thesis by blast
qed

lemma resolve_lib_same: "snd (resolve_lib env args F) = F"
  by (simp add: resolve_lib_def k_simps Let_def)

lemma lost_lib:
  assumes "k_bind (resolve_lib env args) k F = (r, G)" and "lost F G q" and "3 < length args"
  shows "k (lib_of env args, parse_args args 5) F = (r, G)"
proof -
  have n: "(if length args > 3 then args ! 3 else []) = args ! 3" using assms(3) by simp
  show ?thesis
    using assms(1,2) unfolding resolve_lib_def Let_def n lib_of_def
    by (auto simp: k_simps split: if_splits)
qed

text \<open>A path without two dots that does not reach anything is still free after directories were added.\<close>

lemma fresh_write:
  assumes "fs_ok F" and "grown F F1" and "no_dots p" and "\<not> fs_exists F p" and "fs_write p b F1 = Inr F2"
  shows "grown F F2"
proof -
  from fs_write_InrD [OF assms(5)] obtain q where q: "resolve F1 p = Inr q" "node_at F1 q \<noteq> Some Dir" "F2 = set_node q (File b) F1" by blast
  have "node_at F q = None" using resolve_back [OF assms(1,2) _ q(1) assms(3)] assms(4) by (cases "node_at F q") (auto simp: fs_exists_def)
  moreover have "q \<noteq> []" using q(2) by auto
  ultimately show ?thesis using assms(2) q(3) by (auto simp: grown_def)
qed

lemma below_node: "fs_ok F \<Longrightarrow> node_at F q \<noteq> None \<Longrightarrow> prefix cs q \<Longrightarrow> node_at F cs \<noteq> None"
  using descend(2) [of F cs] by (cases "q = cs") (auto simp: prefix_def)

lemma below_back:
  assumes "fs_ok F" and "grown F F1" and "node_at F q \<noteq> None" and "no_dots p" and "below F1 p q"
  shows "below F p q"
  using assms resolve_back below_node unfolding below_def by metis

lemma below_exists:
  assumes "fs_ok F" and "node_at F q \<noteq> None" and "below F p q"
  shows "fs_exists F p"
  using assms below_node [OF assms(1,2)] by (auto simp: below_def fs_exists_def)

lemma exists_joinD:
  assumes "fs_exists F (join p n)" and "p \<noteq> []" and "\<not> suffix ''/'' p" and "simple_name n"
  shows "fs_exists F p"
proof -
  have n: "CHR ''/'' \<notin> set n" and j: "join p n = p @ CHR ''/'' # n" using assms(2-4) by (auto simp: simple_name_def join_def prefix_def)
  have "start_of F (p @ CHR ''/'' # n) = start_of F p" using assms(2) by (cases p) (simp_all add: start_of_def)
  with assms(1,2) obtain ds q where "resolve F p = Inr ds" "walk F ds [n] = Inr q"
    by (auto simp: fs_exists_def j resolve_def split_char_append split_char_none [OF n] walk_append and_then_eq_Inr
        simp del: walk.simps split: if_splits sum.splits)
  then show ?thesis by (auto simp: fs_exists_def split: option.splits)
qed

lemma lost_add:
  assumes "fs_ok F" and "3 < length args" and "no_dots (lib_of env args)" and "no_dots (rel_of args)"
    and "cmd_add env secs secs' args F = (r, G)" and "lost F G q"
  shows "last q = ''log.md''"
proof -
  let ?t = "join (lib_of env args) (rel_of args)"
  note l = assms(6)
  have "\<not> fs_exists F ?t \<and> (\<exists>st new m. k_bind (k_call (fs_create_dir_all (path_parent ?t))) (\<lambda>_.
      k_bind (guard (st \<in> set STATUSES) (InvalidStatus st)) (\<lambda>_.
      k_bind (k_call (fs_write ?t new)) (\<lambda>_. k_log secs' (lib_of env args) m))) F = (r, G))"
    using assms(5) unfolding cmd_add_def Let_def
    by (auto dest!: lost_lib [OF _ l assms(2)] lost_lift [OF _ l] lost_guard [OF _ l] lost_disk needD)
  then obtain st new m where ex: "\<not> fs_exists F ?t" and 1: "k_bind (k_call (fs_create_dir_all (path_parent ?t))) (\<lambda>_.
      k_bind (guard (st \<in> set STATUSES) (InvalidStatus st)) (\<lambda>_.
      k_bind (k_call (fs_write ?t new)) (\<lambda>_. k_log secs' (lib_of env args) m))) F = (r, G)" by blast
  from lost_create [OF 1 l] obtain F1 where g: "grown F F1" "lost F1 G q" and
    2: "k_bind (guard (st \<in> set STATUSES) (InvalidStatus st)) (\<lambda>_.
      k_bind (k_call (fs_write ?t new)) (\<lambda>_. k_log secs' (lib_of env args) m)) F1 = (r, G)" by blast
  from lost_call [OF conjunct2 [OF lost_guard [OF 2 g(2)]] g(2)]
  obtain F2 where w: "fs_write ?t new F1 = Inr F2" "k_log secs' (lib_of env args) m F2 = (r, G)" by blast
  have "lost F2 G q" using lost_grown [OF fresh_write [OF assms(1) g(1) no_dots_join [OF assms(3,4)] ex w(1)]] l by blast
  with w(2) show ?thesis by (rule lost_log)
qed

lemma lost_lib_new:
  assumes "fs_ok F" and "no_dots (libs_root env)" and "no_dots (rel_of args)" and "cmd_lib_new env args F = (r, G)"
  shows "\<not> lost F G q"
proof
  assume l: "lost F G q"
  let ?d = "lib_dir (libs_root env) (rel_of args)"
  have "valid_lib_name (rel_of args) \<and> \<not> fs_exists F ?d \<and> (\<exists>a b. k_bind (k_call (fs_create_dir_all ?d)) (\<lambda>_.
      k_bind (k_call (fs_write (join ?d ''index.md'') a)) (\<lambda>_. k_call (fs_write (join ?d ''log.md'') b))) F = (r, G))"
    using assms(4) unfolding cmd_lib_new_def Let_def
    by (auto dest!: lost_lift [OF _ l] lost_guard [OF _ l] lost_disk needD)
  then obtain a b where ex: "valid_lib_name (rel_of args)" "\<not> fs_exists F ?d" and 1: "k_bind (k_call (fs_create_dir_all ?d)) (\<lambda>_.
      k_bind (k_call (fs_write (join ?d ''index.md'') a)) (\<lambda>_. k_call (fs_write (join ?d ''log.md'') b))) F = (r, G)" by blast
  from lost_create [OF 1 l] obtain F1 where g: "grown F F1" "lost F1 G q" and
    2: "k_bind (k_call (fs_write (join ?d ''index.md'') a)) (\<lambda>_. k_call (fs_write (join ?d ''log.md'') b)) F1 = (r, G)" by blast
  have n: "simple_name ''index.md''" "simple_name ''log.md''" by (simp_all add: simple_name_def)
  have d: "no_dots (join ?d n)" "\<not> fs_exists F (join ?d n)" if "simple_name n" for n
  proof -
    have "no_dots n" using that by (auto simp: no_dots_def simple_name_def split_char_none)
    then show "no_dots (join ?d n)" using no_dots_join [OF no_dots_join [OF assms(2,3)]] by (simp add: lib_dir_def)
    show "\<not> fs_exists F (join ?d n)" using exists_joinD [OF _ valid_lib_name_dir [OF ex(1)] that] ex(2) by blast
  qed
  from lost_call [OF 2 g(2)] obtain F2 where w: "fs_write (join ?d ''index.md'') a F1 = Inr F2"
    "k_call (fs_write (join ?d ''log.md'') b) F2 = (r, G)" by blast
  have g2: "grown F F2" by (rule fresh_write [OF assms(1) g(1) d [OF n(1)] w(1)])
  then have "lost F2 G q" using lost_grown l by blast
  from lost_last_call [OF w(2) this] have "grown F G" by (rule fresh_write [OF assms(1) g2 d [OF n(2)]])
  then show False using l by (auto simp: lost_def grown_def)
qed

lemma lost_rm:
  assumes "fs_ok F" and "3 < length args" and "no_dots (lib_of env args)" and "no_dots (rel_of args)"
    and "cmd_rm env secs args F = (r, G)" and "lost F G q"
  shows "last q = ''log.md'' \<or> rel_of args \<notin> set RESERVED \<and>
    (below F (join (lib_of env args) (rel_of args)) q \<or> below F (join (join (lib_of env args) ''.trash'') (rel_of args)) q)"
proof -
  let ?t = "join (lib_of env args) (rel_of args)" and ?u = "join (join (lib_of env args) ''.trash'') (rel_of args)"
  note l = assms(6)
  have "rel_of args \<notin> set RESERVED \<and> (\<exists>m. k_bind (k_call (fs_create_dir_all (path_parent ?u))) (\<lambda>_.
      k_bind (k_call (fs_rename ?t ?u)) (\<lambda>_. k_log secs (lib_of env args) m)) F = (r, G))"
    using assms(5) unfolding cmd_rm_def Let_def
    by (auto dest!: lost_lib [OF _ l assms(2)] lost_lift [OF _ l] lost_guard [OF _ l] lost_disk needD)
  then obtain m where res: "rel_of args \<notin> set RESERVED" and 1: "k_bind (k_call (fs_create_dir_all (path_parent ?u))) (\<lambda>_.
      k_bind (k_call (fs_rename ?t ?u)) (\<lambda>_. k_log secs (lib_of env args) m)) F = (r, G)" by blast
  from lost_call [OF 1 l] obtain F1 where c: "fs_create_dir_all (path_parent ?u) F = Inr F1" and
    2: "k_bind (k_call (fs_rename ?t ?u)) (\<lambda>_. k_log secs (lib_of env args) m) F1 = (r, G)" by blast
  have g: "grown F F1" "lost F1 G q" "node_at F q \<noteq> None" using create_grown [OF c] lost_grown l by blast+
  have ok: "fs_ok F1" using fs_create_dir_all_ok [OF assms(1) c] .
  from lost_call [OF 2 g(2)] obtain F2 where w: "fs_rename ?t ?u F1 = Inr F2" "k_log secs (lib_of env args) m F2 = (r, G)" by blast
  have "no_dots ''.trash''" by (simp add: no_dots_def)
  then have d: "no_dots ?t" "no_dots ?u" using no_dots_join assms(3,4) by simp_all
  from lost_trans [OF g(2), of F2] lost_log [OF w(2)] lost_rename [OF ok w(1)] below_back [OF assms(1) g(1,3)] d res
  show ?thesis by blast
qed

lemma lost_restore:
  assumes "fs_ok F" and "3 < length args" and "no_dots (lib_of env args)" and "no_dots (rel_of args)"
    and "cmd_restore env secs args F = (r, G)" and "lost F G q"
  shows "last q = ''log.md'' \<or> below F (join (join (lib_of env args) ''.trash'') (rel_of args)) q"
proof -
  let ?t = "join (lib_of env args) (rel_of args)" and ?u = "join (join (lib_of env args) ''.trash'') (rel_of args)"
  note l = assms(6)
  have "\<not> fs_exists F ?t \<and> (\<exists>m. k_bind (k_call (fs_create_dir_all (path_parent ?t))) (\<lambda>_.
      k_bind (k_call (fs_rename ?u ?t)) (\<lambda>_. k_log secs (lib_of env args) m)) F = (r, G))"
    using assms(5) unfolding cmd_restore_def Let_def
    by (auto dest!: lost_lib [OF _ l assms(2)] lost_lift [OF _ l] lost_guard [OF _ l] lost_disk needD)
  then obtain m where ex: "\<not> fs_exists F ?t" and 1: "k_bind (k_call (fs_create_dir_all (path_parent ?t))) (\<lambda>_.
      k_bind (k_call (fs_rename ?u ?t)) (\<lambda>_. k_log secs (lib_of env args) m)) F = (r, G)" by blast
  from lost_call [OF 1 l] obtain F1 where c: "fs_create_dir_all (path_parent ?t) F = Inr F1" and
    2: "k_bind (k_call (fs_rename ?u ?t)) (\<lambda>_. k_log secs (lib_of env args) m) F1 = (r, G)" by blast
  have g: "grown F F1" "lost F1 G q" "node_at F q \<noteq> None" using create_grown [OF c] lost_grown l by blast+
  have ok: "fs_ok F1" using fs_create_dir_all_ok [OF assms(1) c] .
  from lost_call [OF 2 g(2)] obtain F2 where w: "fs_rename ?u ?t F1 = Inr F2" "k_log secs (lib_of env args) m F2 = (r, G)" by blast
  have "no_dots ''.trash''" by (simp add: no_dots_def)
  then have d: "no_dots ?t" "no_dots ?u" using no_dots_join assms(3,4) by simp_all
  have "\<not> below F ?t q"
    using ex below_exists [OF assms(1) g(3)] by blast
  with lost_trans [OF g(2), of F2] lost_log [OF w(2)] lost_rename [OF ok w(1)] below_back [OF assms(1) g(1,3)] d
  show ?thesis by blast
qed

lemma lost_edit:
  assumes "3 < length args" and "cmd_edit Y env secs secs' args F = (r, G)" and "lost F G q"
  shows "last q = ''log.md'' \<or> resolve F (join (lib_of env args) (rel_of args)) = Inr q \<and>
    opt_or (parse_args args 5) ''status'' [] \<in> insert [] (set STATUSES)"
proof -
  let ?t = "join (lib_of env args) (rel_of args)" and ?o = "parse_args args 5"
  note l = assms(3)
  have "opt_or ?o ''status'' [] \<in> insert [] (set STATUSES) \<and>
      (\<exists>new m. k_bind (k_call (fs_write ?t new)) (\<lambda>_. k_log secs' (lib_of env args) m) F = (r, G))"
    using assms(2) l unfolding cmd_edit_def Let_def
    by (auto dest!: lost_lib [OF _ l assms(1)] lost_lift [OF _ l] lost_guard [OF _ l] lost_disk needD
        simp: k_fail_def k_bind_ret opt_or_def split: sum.splits option.splits prod.splits; blast)
  then obtain new m where st: "opt_or ?o ''status'' [] \<in> insert [] (set STATUSES)" and
    2: "k_bind (k_call (fs_write ?t new)) (\<lambda>_. k_log secs' (lib_of env args) m) F = (r, G)" by blast
  from lost_call [OF 2 l] obtain F1 where w: "fs_write ?t new F = Inr F1" "k_log secs' (lib_of env args) m F1 = (r, G)" by blast
  with lost_trans [OF l, of F1] lost_write [OF w(1)] lost_log [OF w(2)] st show ?thesis by blast
qed

lemma lost_rm_lib:
  assumes "fs_ok F" and "cmd_lib_rm env args F = (r, G)" and "lost F G q"
  shows "forced args \<and> below F (lib_dir (libs_root env) (rel_of args)) q"
proof -
  note l = assms(3)
  have "forced args \<and> k_call (fs_remove_dir_all (lib_dir (libs_root env) (rel_of args))) F = (r, G)"
    using assms(2) unfolding cmd_lib_rm_def Let_def forced_def
    by (auto dest!: lost_lift [OF _ l] lost_guard [OF _ l] lost_disk needD)
  then show ?thesis using lost_remove_dir [OF assms(1) _ l] lost_last_call [OF _ l] by blast
qed

lemma lost_index_file: "fs_write (join p ''index.md'') b F = Inr G \<Longrightarrow> lost F G q \<Longrightarrow> last q = ''index.md''"
  using resolve_last [of F p "''index.md''" q] lost_write by (simp add: simple_name_def)

lemma lost_write_groups:
  assumes "write_groups Y root gs F = (r, G)" and "lost F G q"
  shows "last q = ''index.md''"
  using assms
proof (induction gs arbitrary: F)
  case Nil
  then show ?case by (simp add: k_ret_def)
next
  case (Cons g gs)
  obtain d rels where g: "g = (d, rels)" by (rule prod.exhaust)
  obtain r1 F1 where w: "write_group Y root g F = (r1, F1)" by (rule prod.exhaust)
  have first: "last q = ''index.md''" if l: "lost F F1 q"
  proof -
    have "\<exists>b. k_bind (k_call (fs_create_dir_all (path_parent (join (join root d) ''index.md'')))) (\<lambda>_.
        k_call (fs_write (join (join root d) ''index.md'') b)) F = (r1, F1)"
      using w unfolding g write_group_def Let_def prod.case by (auto dest!: lost_disk)
    then obtain b H where "lost H F1 q" "k_call (fs_write (join (join root d) ''index.md'') b) H = (r1, F1)"
      using lost_create [OF _ l] by blast
    then show ?thesis using lost_index_file lost_last_call by blast
  qed
  show ?case
  proof (cases r1)
    case (Inl e)
    then show ?thesis using Cons.prems w first by (simp add: k_bind_def)
  next
    case (Inr u)
    then have "write_groups Y root gs F1 = (r, G)" using Cons.prems w by (simp add: k_bind_def)
    then show ?thesis using Cons.IH first lost_trans [OF Cons.prems(2), of F1] by blast
  qed
qed

lemma lost_write_indexes:
  assumes "write_indexes Y root files F = (r, G)" and "lost F G q"
  shows "last q = ''index.md''"
proof -
  obtain r1 F1 where w: "write_groups Y root (dir_groups files) F = (r1, F1)" by (rule prod.exhaust)
  show ?thesis
  proof (cases "lost F F1 q")
    case True
    then show ?thesis by (rule lost_write_groups [OF w])
  next
    case False
    then have l: "lost F1 G q" using lost_trans [OF assms(2)] by blast
    then have "\<exists>b. k_bind (k_call (fs_create_dir_all root)) (\<lambda>_. k_call (fs_write (join root ''index.md'') b)) F1 = (r, G)"
      using assms(1) w unfolding write_indexes_def Let_def by (cases r1) (auto simp: k_bind_def [of "write_groups _ _ _"] dest!: lost_disk)
    then obtain b H where "lost H G q" "k_call (fs_write (join root ''index.md'') b) H = (r, G)"
      using lost_create [OF _ l] by blast
    then show ?thesis using lost_index_file lost_last_call by blast
  qed
qed

lemma lost_index:
  assumes "3 < length args" and "cmd_index Y env args F = Some (r, G)" and "lost F G q"
  shows "last q = ''index.md''"
proof -
  obtain r1 F1 where r: "resolve_lib env args F = (r1, F1)" by (rule prod.exhaust)
  have F1: "F1 = F" using resolve_lib_same [of env args F] r by simp
  show ?thesis
  proof (cases r1)
    case (Inl e)
    with assms(2) r F1 have "G = F" by (simp add: cmd_index_def)
    then show ?thesis using assms(3) by simp
  next
    case (Inr x)
    obtain dir opts where x: "x = (dir, opts)" by (rule prod.exhaust)
    have "generate_index Y dir F = Some (r, G)" using assms(2) by (simp only: cmd_index_def r Inr x F1 prod.case sum.case)
    then obtain files where "write_indexes Y dir files F = (r, G)" by (auto simp: generate_index_def)
    then show ?thesis using assms(3) by (rule lost_write_indexes)
  qed
qed

section \<open>Every invocation\<close>

definition values_in :: "string set \<Rightarrow> opts \<Rightarrow> bool" where
  "values_in S opts \<longleftrightarrow> (\<forall>k v. hm_get opts k = Some v \<longrightarrow> v = [] \<or> v \<in> S)"

lemma values_in_insert: "values_in S opts \<Longrightarrow> v = [] \<or> v \<in> S \<Longrightarrow> values_in S (hm_insert k v opts)"
  by (simp add: values_in_def)

lemma scan_args_mem:
  "scan_args as opts pos = (opts', pos') \<Longrightarrow> values_in S opts \<Longrightarrow> set pos \<subseteq> S \<Longrightarrow> set as \<subseteq> S \<Longrightarrow> values_in S opts' \<and> set pos' \<subseteq> S"
proof (induction as opts pos rule: scan_args.induct)
  case (2 a rest opts pos)
  show ?case
  proof (cases "strip_prefix ''--'' a")
    case None
    then show ?thesis using "2.IH"(1) [OF None] "2.prems" by simp
  next
    case (Some k)
    show ?thesis
    proof (cases rest)
      case Nil
      then show ?thesis using "2.prems" Some values_in_insert by auto
    next
      case (Cons v vs)
      then show ?thesis using "2.IH"(2) [OF Some Cons] "2.prems" Some values_in_insert [of S opts v k] by simp
    qed
  qed
qed simp

lemma rel_of_mem: "rel_of args = [] \<or> rel_of args \<in> set args"
proof -
  obtain o1 p where s: "scan_args (drop 5 args) [] [] = (o1, p)" by (rule prod.exhaust)
  have "values_in (set args) []" by (simp add: values_in_def hm.get_empty)
  from scan_args_mem [OF s this] have m: "values_in (set args) o1" "set p \<subseteq> set args" using set_drop_subset [of 5 args] by simp_all
  show ?thesis
  proof (cases p)
    case Nil
    then show ?thesis using m(1) by (auto simp: rel_of_def parse_args_def s values_in_def split: option.split)
  next
    case (Cons x xs)
    then show ?thesis using m(2) by (simp add: rel_of_def parse_args_def s)
  qed
qed

text \<open>
  C27: what an invocation of \<open>yggd okf\<close> can take away.  Whatever the arguments, the environment, the
  clock and the YAML parser, when a file of the disk is gone or has other contents after the
  invocation, the command is one of these: \<open>libs rm\<close> with \<open>--force\<close>, and the file is in this
  library; \<open>edit\<close> of this file with a valid status; \<open>rm\<close> of it, or of an older copy in the trash,
  under a name that is not reserved; \<open>restore\<close> of it out of the trash; \<open>index\<close>, and it is an index;
  or it is a log, to which every command that changes a library adds a line.  In particular no
  command replaces a library or a concept that exists, and no other command loses anything.  The
  root of the libraries and the arguments have no component \<open>..\<close>.
\<close>

theorem okf_loses_only:
  assumes "fs_ok F" and "okf_run Y lower env secs secs' args F = Some (r, G)"
    and "no_dots (libs_root env)" and "\<forall>a \<in> set args. no_dots a" and "lost F G q"
  shows "(args ! 3 = ''libs'' \<and> args ! 4 = ''rm'' \<and> forced args \<and> below F (lib_dir (libs_root env) (rel_of args)) q) \<or>
    (args ! 3 \<noteq> ''libs'' \<and>
      (args ! 4 = ''edit'' \<and> resolve F (join (lib_of env args) (rel_of args)) = Inr q \<and>
         opt_or (parse_args args 5) ''status'' [] \<in> insert [] (set STATUSES) \<or>
       args ! 4 = ''rm'' \<and> rel_of args \<notin> set RESERVED \<and>
         (below F (join (lib_of env args) (rel_of args)) q \<or> below F (join (join (lib_of env args) ''.trash'') (rel_of args)) q) \<or>
       args ! 4 = ''restore'' \<and> below F (join (join (lib_of env args) ''.trash'') (rel_of args)) q \<or>
       args ! 4 = ''index'' \<and> last q = ''index.md'' \<or>
       args ! 4 \<in> {''add'', ''rm'', ''restore'', ''edit'', ''log''} \<and> last q = ''log.md''))"
proof -
  note l = assms(5)
  have rel: "no_dots (rel_of args)" using rel_of_mem [of args] assms(4) by (auto simp: no_dots_def)
  have unchanged: "G = F \<Longrightarrow> False" using l by auto
  show ?thesis
  proof (cases "arg_or_help args 3 = ''libs''")
    case True
    then have h: "args ! 3 = ''libs''" by (auto simp: arg_or_help_def split: if_splits)
    have "run_libs Y env args F = Some (r, G)" using assms(2) True by (simp add: okf_run_def)
    then consider r' where "arg_or_help args 4 = ''new''" "cmd_lib_new env args F = (r', G)" | r' where "arg_or_help args 4 = ''rm''" "cmd_lib_rm env args F = (r', G)"
      using unchanged by (cases "cmd_lib_new env args F"; cases "cmd_lib_rm env args F")
        (auto simp: run_libs_def Let_def confirm_def printed_def split: if_splits)
    then show ?thesis
    proof cases
      case 1
      then show ?thesis using lost_lib_new [OF assms(1,3) rel] l by blast
    next
      case 2
      then have "args ! 4 = ''rm''" by (auto simp: arg_or_help_def split: if_splits)
      then show ?thesis using lost_rm_lib [OF assms(1) 2(2) l] h by blast
    qed
  next
    case False
    then have run: "run_lib Y lower env secs secs' args F = Some (r, G)" "3 < length args" "args ! 3 \<noteq> ''libs''"
      using assms(2) unchanged by (auto simp: okf_run_def Let_def arg_or_help_def HELP_def split: if_splits)
    have lib: "no_dots (lib_of env args)" using no_dots_join [OF assms(3)] assms(4) run(2) by (simp add: lib_of_def lib_dir_def)
    have sub: "args ! 4 = c" if "arg_or_help args 4 = c" "c \<noteq> ''help''" for c using that by (auto simp: arg_or_help_def split: if_splits)
    consider r' where "arg_or_help args 4 = ''add''" "cmd_add env secs secs' args F = (r', G)"
      | r' where "arg_or_help args 4 = ''rm''" "cmd_rm env secs' args F = (r', G)"
      | r' where "arg_or_help args 4 = ''restore''" "cmd_restore env secs' args F = (r', G)"
      | r' where "arg_or_help args 4 = ''edit''" "cmd_edit Y env secs secs' args F = (r', G)"
      | r' where "arg_or_help args 4 = ''log''" "cmd_log env secs' args F = (r', G)"
      | r' where "arg_or_help args 4 = ''index''" "cmd_index Y env args F = Some (r', G)"
      using run(1) unchanged
      by (cases "cmd_add env secs secs' args F"; cases "cmd_rm env secs' args F"; cases "cmd_restore env secs' args F";
          cases "cmd_edit Y env secs secs' args F"; cases "cmd_log env secs' args F")
        (auto simp: run_lib_def Let_def confirm_def printed_def split: if_splits)
    then show ?thesis
    proof cases
      case 1
      then show ?thesis using lost_add [OF assms(1) run(2) lib rel _ l] sub run(3) by blast
    next
      case 2
      then show ?thesis using lost_rm [OF assms(1) run(2) lib rel 2(2) l] sub [OF 2(1)] run(3) by blast
    next
      case 3
      then show ?thesis using lost_restore [OF assms(1) run(2) lib rel 3(2) l] sub [OF 3(1)] run(3) by blast
    next
      case 4
      then show ?thesis using lost_edit [OF run(2) 4(2) l] sub [OF 4(1)] run(3) by blast
    next
      case (5 r')
      have "\<exists>m. k_log secs' (lib_of env args) m F = (r', G)"
        using 5(2) unfolding cmd_log_def by (auto dest!: lost_lib [OF _ l run(2)] lost_lift [OF _ l])
      then show ?thesis using lost_log [OF _ l] sub [OF 5(1)] run(3) by blast
    next
      case 6
      then show ?thesis using lost_index [OF run(2) 6(2) l] sub [OF 6(1)] run(3) by blast
    qed
  qed
qed

text \<open>Removing a concept loses it, adding one over it does not.\<close>

lemma okf_args: "no_dots (libs_root okf_env)" "\<forall>a \<in> {''yggd'', ''addr'', ''okf'', ''lib'', ''rm'', ''add'', ''a.md'', ''--type'', ''T''}. no_dots a"
  by (simp_all add: okf_disk_lib(2) no_dots_def)

theorem okf_loses_only_witness:
  "let q = [''k'', ''lib'', ''a.md'']; run = (\<lambda>args. the (okf_run text_yaml id okf_env 0 0 ([''yggd'', ''addr'', ''okf'', ''lib''] @ args) okf_disk)) in
   lost okf_disk (snd (run [''rm'', ''a.md''])) q \<and> (below okf_disk ''/k/lib/a.md'' q \<or> below okf_disk ''/k/lib/.trash/a.md'' q) \<and>
   node_at (snd (run [''add'', ''a.md'', ''--type'', ''T''])) q = Some (File [7])"
proof -
  let ?q = "[''k'', ''lib'', ''a.md'']"
  let ?rm = "[''yggd'', ''addr'', ''okf'', ''lib'', ''rm'', ''a.md'']" and ?add = "[''yggd'', ''addr'', ''okf'', ''lib'', ''add'', ''a.md'', ''--type'', ''T'']"
  obtain r G where rm: "okf_run text_yaml id okf_env 0 0 ?rm okf_disk = Some (r, G)" "node_at G ?q = None"
    using cmd_rm_file [OF okf_disk_lib(1,4,5), of "[7]" 0 "''yggd''" "''addr''" "''okf''" "''rm''"]
    by (auto simp: okf_disk_nodes okf_run_def run_lib_def arg_or_help_def HELP_def confirm_def Let_def)
  then have l: "lost okf_disk G ?q" by (simp add: lost_def okf_disk_nodes)
  have d: "\<forall>a \<in> set ?rm. no_dots a" "\<forall>a \<in> set ?add. no_dots a" using okf_args(2) by simp_all
  have rel: "rel_of ?rm = ''a.md''" "lib_of okf_env ?rm = ''/k/lib''"
    by (simp_all add: rel_of_def parse_args_def strip_prefix_def lib_of_def lib_dir_def okf_disk_lib(2) join_def suffix_to_prefix)
  from okf_loses_only [OF okf_disk_ok rm(1) okf_args(1) d(1) l] rel
  have b: "below okf_disk ''/k/lib/a.md'' ?q \<or> below okf_disk ''/k/lib/.trash/a.md'' ?q"
    by (auto simp: join_def suffix_to_prefix)
  obtain r2 G2 where add: "okf_run text_yaml id okf_env 0 0 ?add okf_disk = Some (r2, G2)"
    by (simp add: okf_run_def run_lib_def arg_or_help_def HELP_def confirm_def Let_def)
  have "\<not> lost okf_disk G2 ?q"
  proof
    assume "lost okf_disk G2 ?q"
    from okf_loses_only [OF okf_disk_ok add okf_args(1) d(2) this] show False by simp
  qed
  then have "node_at G2 ?q = Some (File [7])" by (auto simp: lost_def okf_disk_nodes)
  with l b rm(1) add show ?thesis by simp
qed

text \<open>
  With two dots \<open>add\<close> does replace a concept: the check looks at the path before the directories
  are made.
\<close>

theorem add_dots_overwrites:
  "lost okf_disk (snd (cmd_add okf_env 0 0 [''yggd'', ''addr'', ''okf'', ''lib'', ''add'', ''new/../a.md'', ''--type'', ''T''] okf_disk))
     [''k'', ''lib'', ''a.md'']"
proof -
  let ?args = "[''yggd'', ''addr'', ''okf'', ''lib'', ''add'', ''new/../a.md'', ''--type'', ''T'']" and ?q = "[''k'', ''lib'', ''a.md'']"
  let ?t = "''/k/lib/new/../a.md''" and ?o = "[(''type'', ''T''), (''path'', ''new/../a.md'')]"
  let ?F1 = "set_node [''k'', ''lib'', ''new''] Dir okf_disk"
  have dir: "lib_dir (libs_root okf_env) ''lib'' = ''/k/lib''" by (simp add: okf_disk_lib(2) lib_dir_def join_def suffix_to_prefix)
  have opts: "parse_args ?args 5 = ?o" by (simp add: parse_args_def strip_prefix_def hm_insert_def)
  have lib: "resolve_lib okf_env ?args okf_disk = (Inr (''/k/lib'', ?o), okf_disk)"
    using okf_disk_lib(1,4) by (simp add: resolve_lib_def k_simps dir library_def fs_is_dir_def Let_def opts)
  have par: "path_parent ?t = ''/k/lib/new/..''"
    by (simp add: path_parent_def tidy_end.simps parent_def suffix_to_prefix Let_def)
  have j: "join ''/k/lib'' ''new/../a.md'' = ?t" by (simp add: join_def suffix_to_prefix)
  have ex: "\<not> fs_exists okf_disk ?t" by (simp add: fs_exists_def resolve_def start_of_def okf_disk_nodes)
  have mk: "fs_create_dir_all ''/k/lib/new/..'' okf_disk = Inr ?F1"
    by (simp add: fs_create_dir_all_def start_of_def okf_disk_nodes Let_def)
  have wr: "fs_write ?t b ?F1 = Inr (set_node ?q (File b) ?F1)" for b
    by (simp add: fs_write_def resolve_def start_of_def okf_disk_nodes parent_dir_def)
  have md: "suffix ''.md'' ''new/../a.md''" by (simp add: suffix_to_prefix)
  obtain new m where "cmd_add okf_env 0 0 ?args okf_disk = k_log 0 ''/k/lib'' m (set_node ?q (File (as_bytes (''---'' @ new))) ?F1)"
    by (simp add: cmd_add_def k_bind_def [of "resolve_lib _ _"] lib k_simps need_def hm_get_def RESERVED_def md j par ex mk wr doc_text_def
        opt_or_def STATUSES_def Let_def)
  moreover define H where "H = set_node ?q (File (as_bytes (''---'' @ new))) ?F1"
  ultimately obtain r G where G: "cmd_add okf_env 0 0 ?args okf_disk = (r, G)" "k_log 0 ''/k/lib'' m H = (r, G)"
    by (metis prod.exhaust)
  have "\<not> lost H G ?q" using lost_log [OF G(2)] by force
  then have "node_at G ?q = Some (File (as_bytes (''---'' @ new)))" by (simp add: lost_def H_def)
  then show ?thesis using G(1) by (simp add: lost_def okf_disk_nodes as_bytes_def)
qed

end
