(* ===== verification/Archive.thy ===== *)
theory Archive
  imports Paths Utf8
begin

text \<open>
  The archives of \<open>nsmt-server/src/admin.rs\<close> that back up a tenant: \<open>collect_files\<close>, \<open>tar_dir\<close> and
  \<open>untar_dir\<close>.  An archive is a sequence of entries, each the two lengths as 32-bit little-endian
  numbers, the relative path and the contents.
\<close>

section \<open>Packing\<close>

definition to_string_lossy :: "string \<Rightarrow> string" where
  "to_string_lossy s = map (\<lambda>b. char_of (unat b)) (from_utf8_lossy (as_bytes s))"

partial_function (option) collect_files_in ::
  "fs \<Rightarrow> path \<Rightarrow> path \<Rightarrow> string list \<Rightarrow> (string \<times> path) list \<Rightarrow> (string \<times> path) list option" where
  "collect_files_in F root dir names out =
     (case names of
        [] \<Rightarrow> Some out
      | n # ns \<Rightarrow>
         (let p = join dir n in
          if fs_is_dir F p then
            (case fs_read_dir F p of
               Inl _ \<Rightarrow> collect_files_in F root dir ns out
             | Inr ms \<Rightarrow> Option.bind (collect_files_in F root p ms out) (\<lambda>out'. collect_files_in F root dir ns out'))
          else (case path_strip_prefix root p of
                  Some rel \<Rightarrow> collect_files_in F root dir ns (out @ [(to_string_lossy rel, p)])
                | None \<Rightarrow> collect_files_in F root dir ns out)))"

definition collect_files :: "fs \<Rightarrow> path \<Rightarrow> path \<Rightarrow> (string \<times> path) list \<Rightarrow> (string \<times> path) list option" where
  "collect_files F root dir out =
     (case fs_read_dir F dir of Inl _ \<Rightarrow> Some out | Inr ns \<Rightarrow> collect_files_in F root dir ns out)"

definition tar_entry :: "string \<Rightarrow> bytes \<Rightarrow> bytes" where
  "tar_entry rel data =
     u32_to_le_bytes (of_nat (length rel)) @ u32_to_le_bytes (of_nat (length data)) @ as_bytes rel @ data"

text \<open>Files that cannot be read are left out.\<close>

definition readable :: "fs \<Rightarrow> (string \<times> path) list \<Rightarrow> (string \<times> bytes) list" where
  "readable F files = List.map_filter (\<lambda>(rel, p). case fs_read F p of Inl _ \<Rightarrow> None | Inr d \<Rightarrow> Some (rel, d)) files"

definition tar_bytes :: "(string \<times> bytes) list \<Rightarrow> bytes" where
  "tar_bytes es = concat (map (\<lambda>(rel, d). tar_entry rel d) es)"

definition tar_dir :: "path \<Rightarrow> path \<Rightarrow> fs \<Rightarrow> (int \<times> fs) option" where
  "tar_dir src out F = map_option (\<lambda>files.
     (let es = readable F files in
      case fs_write out (tar_bytes es) F of
        Inl _ \<Rightarrow> (-1, F)
      | Inr F' \<Rightarrow> (int (length es), F'))) (collect_files F src src [])"

section \<open>Unpacking\<close>

definition ignore_error :: "(fs \<Rightarrow> io_error + fs) \<Rightarrow> fs \<Rightarrow> fs" where
  "ignore_error op F = (case op F of Inl _ \<Rightarrow> F | Inr F' \<Rightarrow> F')"

definition restore_entry :: "path \<Rightarrow> string \<times> bytes \<Rightarrow> int \<times> fs \<Rightarrow> int \<times> fs" where
  "restore_entry dst e s =
     (case (e, s) of ((rel, data), cnt, F) \<Rightarrow>
        let target = join dst rel;
            F1 = ignore_error (fs_create_dir_all (path_parent target)) F
        in case fs_write target data F1 of
             Inl _ \<Rightarrow> (cnt, F1)
           | Inr F2 \<Rightarrow> (cnt + 1, F2))"

function untar_loop :: "path \<Rightarrow> bytes \<Rightarrow> int \<times> fs \<Rightarrow> int \<times> fs" where
  "untar_loop dst buf s =
     (if length buf < 8 then s
      else let rel_len = unat (from_le (take 4 buf) :: u32);
               data_len = unat (from_le (take 4 (drop 4 buf)) :: u32);
               r = drop 8 buf
           in if rel_len + data_len > length r then s
              else untar_loop dst (drop (rel_len + data_len) r)
                (restore_entry dst
                  (map (\<lambda>b. char_of (unat b)) (from_utf8_lossy (take rel_len r)), take data_len (drop rel_len r)) s))"
  by pat_completeness auto
termination
  by (relation "measure (\<lambda>(dst, buf, s). length buf)") auto

declare untar_loop.simps [simp del]

definition untar_dir :: "path \<Rightarrow> path \<Rightarrow> fs \<Rightarrow> int \<times> fs" where
  "untar_dir archive dst F =
     (case fs_read F archive of
        Inl _ \<Rightarrow> (-1, F)
      | Inr buf \<Rightarrow> untar_loop dst buf (0, ignore_error (fs_create_dir_all dst) F))"

section \<open>What is packed\<close>

definition pick_file :: "path \<Rightarrow> string list \<Rightarrow> bytes \<Rightarrow> (string \<times> path) list" where
  "pick_file root rel b = [(to_string_lossy (slash_join rel), path_at root rel)]"

lemma collect_files_in_file:
  assumes "resolve F (join dir n) = Inr q" and "node_at F q = Some (File b)" and "path_strip_prefix root (join dir n) = Some rel"
  shows "collect_files_in F root dir (n # ns) out = collect_files_in F root dir ns (out @ [(to_string_lossy rel, join dir n)])"
  using assms by (subst collect_files_in.simps) (simp add: fs_is_dir_def Let_def)

lemma collect_files_in_dir:
  assumes "resolve F (join dir n) = Inr q" and "node_at F q = Some Dir"
    and "collect_files_in F root (join dir n) (children F q) out = Some out'"
  shows "collect_files_in F root dir (n # ns) out = collect_files_in F root dir ns out'"
  using assms by (subst collect_files_in.simps) (simp add: fs_is_dir_def fs_read_dir_def Let_def)

interpretation file_scan: dir_scan collect_files_in "\<lambda>_. False" pick_file
proof unfold_locales
  fix F root dir and out :: "(string \<times> path) list"
  show "collect_files_in F root dir [] out = Some out" by (subst collect_files_in.simps) simp
next
  fix F root rcs rel n b ns and out :: "(string \<times> path) list"
  assume ok: "fs_ok F" and r: "resolve F root = Inr rcs" and f: "node_at F (rcs @ rel @ [n]) = Some (File b)"
  have s: "list_all simple_name (rel @ [n])" using descend(1) [OF ok, of rcs "rel @ [n]"] f by simp
  show "collect_files_in F root (path_at root rel) (n # ns) out =
      collect_files_in F root (path_at root rel) ns (out @ pick_file root (rel @ [n]) b)"
    using collect_files_in_file [OF _ f, of "path_at root rel" n root "slash_join (rel @ [n])"]
      resolve_at [OF ok r, of "rel @ [n]"] f strip_prefix_at [OF s] by (simp add: pick_file_def)
next
  fix F root rcs rel n ns and out out' :: "(string \<times> path) list"
  assume ok: "fs_ok F" and r: "resolve F root = Inr rcs" and d: "node_at F (rcs @ rel @ [n]) = Some Dir"
    and s: "collect_files_in F root (path_at root (rel @ [n])) (children F (rcs @ rel @ [n])) out = Some out'"
  show "collect_files_in F root (path_at root rel) (n # ns) out = collect_files_in F root (path_at root rel) ns out'"
    using collect_files_in_dir [OF _ d] resolve_at [OF ok r, of "rel @ [n]"] d s by simp
qed simp

text \<open>The files below a directory, by their components.\<close>

definition files_below :: "fs \<Rightarrow> string list \<Rightarrow> (string list \<times> bytes) list" where
  "files_below F cs = map (\<lambda>x. (drop (length cs) (fst x), contents (snd x)))
     (filter (\<lambda>x. strict_prefix cs (fst x) \<and> snd x \<noteq> Dir) (nodes F))"

lemma files_below_iff:
  assumes "fs_ok F"
  shows "(r, b) \<in> set (files_below F cs) \<longleftrightarrow> r \<noteq> [] \<and> node_at F (cs @ r) = Some (File b)"
proof
  assume "(r, b) \<in> set (files_below F cs)"
  then obtain x where x: "x \<in> set (nodes F)" "strict_prefix cs (fst x)" "snd x \<noteq> Dir" "r = drop (length cs) (fst x)" "b = contents (snd x)"
    unfolding files_below_def by auto
  obtain zs where zs: "fst x = cs @ zs" "zs \<noteq> []" using x(2) by (auto simp: strict_prefix_def prefix_def)
  obtain b' where b: "snd x = File b'" using x(3) by (cases "snd x") simp_all
  have "(cs @ zs, File b') \<in> set (nodes F)" using x(1) zs(1) b by (metis prod.collapse)
  then have "node_at F (cs @ zs) = Some (File b')" using entry_node [OF assms] by blast
  then show "r \<noteq> [] \<and> node_at F (cs @ r) = Some (File b)" using x(4,5) zs b by (simp add: contents_def)
next
  assume r: "r \<noteq> [] \<and> node_at F (cs @ r) = Some (File b)"
  then have "(cs @ r, File b) \<in> set (nodes F)" using entry_node [OF assms] by simp
  moreover have "strict_prefix cs (cs @ r)" using r by (simp add: strict_prefix_def)
  ultimately have "(cs @ r, File b) \<in> set (filter (\<lambda>x. strict_prefix cs (fst x) \<and> snd x \<noteq> Dir) (nodes F))" by simp
  then show "(r, b) \<in> set (files_below F cs)" unfolding files_below_def set_map
    by (rule rev_image_eqI) (simp add: contents_def)
qed

lemma collect_files_all:
  assumes "fs_ok F" and "resolve F src = Inr cs" and "node_at F cs = Some Dir"
  shows "\<exists>X. collect_files F src src [] = Some X \<and>
    mset X = mset (map (\<lambda>(r, b). (to_string_lossy (slash_join r), path_at src r)) (files_below F cs))"
proof -
  have "file_scan.picked src cs (filter (file_scan.in_scan cs) xs) =
      mset (map (\<lambda>x. (to_string_lossy (slash_join (drop (length cs) (fst x))), path_at src (drop (length cs) (fst x))))
        (filter (\<lambda>x. strict_prefix cs (fst x) \<and> snd x \<noteq> Dir) xs))" for xs
    unfolding file_scan.picked_def
    by (induction xs) (auto simp: file_scan.in_scan_def file_scan.reached_def pick_file_def)
  then show ?thesis using file_scan.scan_exact [OF assms] assms(2,3)
    by (auto simp: collect_files_def fs_read_dir_def files_below_def o_def case_prod_unfold)
qed

lemma lossy_text: "valid_utf8 (as_bytes s) \<Longrightarrow> map (\<lambda>b. char_of (unat b)) (from_utf8_lossy (as_bytes s)) = s"
  by (simp add: lossy_valid) (simp add: as_bytes_def o_def map_idI)

lemma map_filter_mset: "mset xs = mset ys \<Longrightarrow> mset (List.map_filter f xs) = mset (List.map_filter f ys)"
proof -
  have "mset (List.map_filter f zs) = (\<Sum>z \<in># mset zs. case f z of None \<Rightarrow> {#} | Some y \<Rightarrow> {#y#})" for zs
    by (induction zs) (auto simp: List.map_filter_simps split: option.split)
  then show "mset xs = mset ys \<Longrightarrow> mset (List.map_filter f xs) = mset (List.map_filter f ys)" by simp
qed

lemma readable_files:
  assumes "fs_ok F" and "resolve F src = Inr cs" and "\<forall>(r, b) \<in> set rs. node_at F (cs @ r) = Some (File b)"
  shows "readable F (map (\<lambda>(r, b). (f r, path_at src r)) rs) = map (\<lambda>(r, b). (f r, b)) rs"
  using assms(3)
proof (induction rs)
  case (Cons x rs)
  obtain r b where x: "x = (r, b)" by (cases x)
  have "node_at F (cs @ r) = Some (File b)" using Cons.prems x by simp
  then have "fs_read F (path_at src r) = Inr b" using resolve_at [OF assms(1,2), of r] by (simp add: fs_read_def)
  then show ?case using Cons by (simp add: x readable_def List.map_filter_simps)
qed (simp add: readable_def List.map_filter_simps)

section \<open>Reading an archive\<close>

lemma untar_entry:
  assumes "valid_utf8 (as_bytes rel)" and "length rel < 2 ^ 32" and "length data < 2 ^ 32"
  shows "untar_loop dst (tar_entry rel data @ rest) s = untar_loop dst rest (restore_entry dst (rel, data) s)"
proof -
  let ?a = "u32_to_le_bytes (of_nat (length rel))" and ?b = "u32_to_le_bytes (of_nat (length data))"
  have t: "tar_entry rel data @ rest = ?a @ ?b @ as_bytes rel @ data @ rest" by (simp add: tar_entry_def)
  have l: "length ?a = 4" "length ?b = 4" by simp_all
  have n: "unat (from_le ?a :: u32) = length rel" "unat (from_le ?b :: u32) = length data"
    using assms(2,3) by (simp_all add: from_le_to_le unat_of_nat)
  have d: "take 4 (tar_entry rel data @ rest) = ?a" "take 4 (drop 4 (tar_entry rel data @ rest)) = ?b"
    "drop 8 (tar_entry rel data @ rest) = as_bytes rel @ data @ rest" "\<not> length (tar_entry rel data @ rest) < 8"
    unfolding t by (simp_all add: l)
  show ?thesis
    by (subst untar_loop.simps) (simp only: d n Let_def, simp add: lossy_text [OF assms(1)])
qed

definition packable :: "string \<times> bytes \<Rightarrow> bool" where
  "packable e \<longleftrightarrow> valid_utf8 (as_bytes (fst e)) \<and> length (fst e) < 2 ^ 32 \<and> length (snd e) < 2 ^ 32"

lemma untar_tar: "list_all packable es \<Longrightarrow> untar_loop dst (tar_bytes es) s = fold (restore_entry dst) es s"
proof (induction es arbitrary: s)
  case Nil
  then show ?case by (subst untar_loop.simps) (simp add: tar_bytes_def)
next
  case (Cons e es)
  then show ?case using untar_entry [of "fst e" "snd e" dst "tar_bytes es" s]
    by (simp add: tar_bytes_def packable_def case_prod_unfold)
qed

section \<open>Writing the entries\<close>

lemma mkdirs_names:
  assumes "list_all simple_name rel" and "\<forall>p. prefix p rel \<longrightarrow> node_at F (cs @ p) \<in> {None, Some Dir}"
  shows "\<exists>F'. mkdirs cs rel F = Inr F' \<and> cwd F' = cwd F \<and>
    (\<forall>q. node_at F' q = (if \<exists>p. prefix p rel \<and> q = cs @ p then Some Dir else node_at F q))"
  using assms
proof (induction rel arbitrary: cs F)
  case Nil
  then have "node_at F cs \<in> {None, Some Dir}" by simp
  then show ?case by (intro exI [of _ "ensure_dir cs F"]) (auto simp: mkdirs_Nil node_at_ensure_dir simp del: mkdirs.simps)
next
  case (Cons n rel)
  let ?G = "ensure_dir cs F"
  have cs: "node_at F cs \<in> {None, Some Dir}" using Cons.prems(2) [rule_format, of "[]"] by simp
  have n: "step_to cs n = cs @ [n]" using Cons.prems(1) by (simp add: step_to_def simple_name_def)
  have G: "node_at ?G ((cs @ [n]) @ p) = node_at F ((cs @ [n]) @ p)" for p by (simp add: node_at_ensure_dir)
  have "\<forall>p. prefix p rel \<longrightarrow> node_at ?G ((cs @ [n]) @ p) \<in> {None, Some Dir}"
    using Cons.prems(2) unfolding G by auto
  from Cons.IH [OF _ this] Cons.prems(1) obtain F' where F': "mkdirs (cs @ [n]) rel ?G = Inr F'" "cwd F' = cwd F"
    "\<And>q. node_at F' q = (if \<exists>p. prefix p rel \<and> q = (cs @ [n]) @ p then Some Dir else node_at ?G q)" by auto
  have "mkdirs cs (n # rel) F = Inr F'" using cs F'(1) by (simp only: mkdirs_Cons n)
  moreover have "node_at F' q = (if \<exists>p. prefix p (n # rel) \<and> q = cs @ p then Some Dir else node_at F q)" for q
    using cs by (auto simp: F'(3) node_at_ensure_dir prefix_Cons)
  ultimately show ?case using F'(2) by blast
qed

definition ready :: "fs \<Rightarrow> string list \<Rightarrow> string list \<Rightarrow> bool" where
  "ready F cs r \<longleftrightarrow> r \<noteq> [] \<and> list_all simple_name r \<and> node_at F (cs @ r) \<noteq> Some Dir \<and>
     (\<forall>p. strict_prefix p r \<longrightarrow> node_at F (cs @ p) \<in> {None, Some Dir})"

lemma split_path_at:
  assumes "p \<noteq> []" and "\<not> suffix ''/'' p" and "list_all simple_name rel"
  shows "split_char CHR ''/'' (path_at p rel) = split_char CHR ''/'' p @ rel \<and> path_at p rel \<noteq> [] \<and>
    \<not> suffix ''/'' (path_at p rel) \<and> (CHR 0x00 \<in> set (path_at p rel) \<longleftrightarrow> CHR 0x00 \<in> set p) \<and> hd (path_at p rel) = hd p"
  using assms(3)
proof (induction rel rule: rev_induct)
  case Nil
  then show ?case using assms(1,2) by simp
next
  case (snoc n rel)
  then have n: "simple_name n" "n \<noteq> []" "CHR ''/'' \<notin> set n" "CHR 0x00 \<notin> set n" by (auto simp: simple_name_def)
  have IH: "split_char CHR ''/'' (path_at p rel) = split_char CHR ''/'' p @ rel" "path_at p rel \<noteq> []" "\<not> suffix ''/'' (path_at p rel)"
    "CHR 0x00 \<in> set (path_at p rel) \<longleftrightarrow> CHR 0x00 \<in> set p" "hd (path_at p rel) = hd p" using snoc by simp_all
  have j: "path_at p (rel @ [n]) = path_at p rel @ CHR ''/'' # n" using IH(2,3) n(1) by (simp add: join_simple)
  obtain m c where m: "n = m @ [c]" "c \<noteq> CHR ''/''" using n(2,3) by (cases n rule: rev_cases) auto
  show ?case unfolding j using IH n m by (auto simp: split_char_append split_char_none suffix_def)
qed

lemma create_path_at:
  assumes "resolve F dst = Inr cs" and "node_at F cs = Some Dir" and "\<not> suffix ''/'' dst"
    and "list_all simple_name rel" and "\<forall>p. prefix p rel \<longrightarrow> node_at F (cs @ p) \<in> {None, Some Dir}"
  shows "\<exists>F'. fs_create_dir_all (path_at dst rel) F = Inr F' \<and> cwd F' = cwd F \<and>
    (\<forall>q. node_at F' q = (if \<exists>p. prefix p rel \<and> q = cs @ p then Some Dir else node_at F q))"
proof -
  from assms(1) have d: "dst \<noteq> []" "CHR 0x00 \<notin> set dst"
    and w: "walk F (start_of F dst) (split_char CHR ''/'' dst) = Inr cs"
    by (auto simp: resolve_def split: if_splits)
  note s = split_path_at [OF d(1) assms(3,4)]
  have "start_of F (path_at dst rel) = start_of F dst"
    using s d(1) by (cases dst; cases "path_at dst rel") (auto simp: start_of_def)
  then have "fs_create_dir_all (path_at dst rel) F = mkdirs cs rel F"
    using s d mkdirs_append [OF w assms(2)] by (simp add: fs_create_dir_all_def del: mkdirs.simps)
  with mkdirs_names [OF assms(4,5)] show ?thesis by simp
qed

lemma resolve_names:
  assumes "resolve F dst = Inr cs"
  shows "list_all simple_name rel \<Longrightarrow> \<forall>p. prefix p rel \<longrightarrow> node_at F (cs @ p) = Some Dir \<Longrightarrow>
    resolve F (path_at dst rel) = Inr (cs @ rel)"
proof (induction rel rule: rev_induct)
  case (snoc n rel)
  then have "resolve F (path_at dst rel) = Inr (cs @ rel)" "node_at F (cs @ rel) = Some Dir" "simple_name n" by auto
  from resolve_join [OF this] show ?case by simp
qed (simp add: assms)

lemma restore_entry_ok:
  assumes "resolve F dst = Inr cs" and "node_at F cs = Some Dir" and "\<not> suffix ''/'' dst" and "ready F cs r"
  shows "\<exists>F'. restore_entry dst (slash_join r, b) (c, F) = (c + 1, F') \<and> cwd F' = cwd F \<and>
    (\<forall>q. node_at F' q = (if q = cs @ r then Some (File b) else if \<exists>p. strict_prefix p r \<and> q = cs @ p then Some Dir else node_at F q))"
proof -
  obtain rel n where r: "r = rel @ [n]" using assms(4) by (cases r rule: rev_cases) (auto simp: ready_def)
  have s: "list_all simple_name rel" "simple_name n" using assms(4) by (simp_all add: r ready_def)
  have d: "dst \<noteq> []" using assms(1) by (auto simp: resolve_def split: if_splits)
  have pre: "prefix p rel \<longleftrightarrow> strict_prefix p r" for p by (auto simp: r strict_prefix_def)
  have tgt: "join dst (slash_join r) = path_at dst r"
  proof -
    have sj: "slash_join r \<noteq> []" "hd (slash_join r) \<noteq> CHR ''/''" using slash_join_ends [of r] assms(4) by (auto simp: ready_def)
    then have "\<not> prefix ''/'' (slash_join r)" by (cases "slash_join r") auto
    then show ?thesis using path_at_text [of r dst] assms(4) by (simp add: join_def ready_def)
  qed
  have pp: "path_parent (path_at dst r) = path_at dst rel"
    using split_path_at [OF d assms(3) s(1)] s(2) by (simp add: r path_parent_join)
  have "\<forall>p. prefix p rel \<longrightarrow> node_at F (cs @ p) \<in> {None, Some Dir}" using assms(4) by (simp add: pre ready_def)
  from create_path_at [OF assms(1-3) s(1) this] obtain G where G: "fs_create_dir_all (path_at dst rel) F = Inr G" "cwd G = cwd F"
    "\<And>q. node_at G q = (if \<exists>p. prefix p rel \<and> q = cs @ p then Some Dir else node_at F q)" by blast
  have "resolve G dst = Inr cs" by (rule resolve_kept [OF assms(1) create_dir_all_kept [OF G(1)]])
  from resolve_names [OF this s(1)] have es: "resolve G (path_at dst rel) = Inr (cs @ rel)" "node_at G (cs @ rel) = Some Dir"
    by (auto simp: G(3))
  have "node_at G (cs @ r) = node_at F (cs @ r)" by (simp add: G(3) r)
  then have nd: "node_at G ((cs @ rel) @ [n]) \<noteq> Some Dir" using assms(4) by (simp add: ready_def r)
  from write_in_dir [OF es s(2) nd]
  have w: "fs_write (path_at dst r) b G = Inr (set_node (cs @ r) (File b) G)" by (simp add: r)
  have "cs @ r \<noteq> []" by (simp add: r)
  then show ?thesis using G(2) w
    by (intro exI [of _ "set_node (cs @ r) (File b) G"])
      (simp add: restore_entry_def Let_def tgt pp ignore_error_def G(1) G(3) pre)
qed

text \<open>The paths of files: none is below another.\<close>

definition antichain :: "string list list \<Rightarrow> bool" where
  "antichain rs \<longleftrightarrow> distinct rs \<and> (\<forall>r \<in> set rs. \<forall>r' \<in> set rs. \<not> strict_prefix r r')"

lemma restore_all_ok:
  assumes "resolve F dst = Inr cs" and "node_at F cs = Some Dir" and "\<not> suffix ''/'' dst"
    and "\<forall>x \<in> set xs. ready F cs (fst x)" and "antichain (map fst xs)"
  shows "\<exists>F'. fold (restore_entry dst) (map (\<lambda>(r, b). (slash_join r, b)) xs) (c, F) = (c + int (length xs), F') \<and>
    (\<forall>(r, b) \<in> set xs. node_at F' (cs @ r) = Some (File b)) \<and>
    (\<forall>q. (\<forall>x \<in> set xs. \<not> prefix q (cs @ fst x)) \<longrightarrow> node_at F' q = node_at F q)"
  using assms
proof (induction xs arbitrary: c F)
  case (Cons x xs)
  obtain r b where x: "x = (r, b)" by (cases x)
  from restore_entry_ok [OF Cons.prems(1-3), of r b c] Cons.prems(4) obtain G where
    G: "restore_entry dst (slash_join r, b) (c, F) = (c + 1, G)" "cwd G = cwd F"
      "\<And>q. node_at G q = (if q = cs @ r then Some (File b) else if \<exists>p. strict_prefix p r \<and> q = cs @ p then Some Dir else node_at F q)"
    unfolding x by auto
  have r: "ready F cs r" using Cons.prems(4) x by simp
  have other: "\<not> strict_prefix (fst y) r" "\<not> strict_prefix r (fst y)" "fst y \<noteq> r" if "y \<in> set xs" for y
    using Cons.prems(5) that by (auto simp: antichain_def x)
  have kept: "dirs_kept F G" using r G(2) by (auto simp: dirs_kept_def G(3) ready_def)
  have G1: "resolve G dst = Inr cs" "node_at G cs = Some Dir"
    using resolve_kept [OF Cons.prems(1) kept] Cons.prems(2) r by (auto simp: G(3) ready_def)
  have "ready G cs (fst y)" if y: "y \<in> set xs" for y
  proof -
    have "ready F cs (fst y)" using Cons.prems(4) y by simp
    then show ?thesis using other [OF y] by (auto simp: ready_def G(3))
  qed
  then have rdy: "\<forall>y \<in> set xs. ready G cs (fst y)" by blast
  have ac: "antichain (map fst xs)" using Cons.prems(5) by (simp add: antichain_def)
  from Cons.IH [OF G1 Cons.prems(3) rdy ac, of "c + 1"] obtain H where H: "fold (restore_entry dst) (map (\<lambda>(r, b). (slash_join r, b)) xs) (c + 1, G) = (c + 1 + int (length xs), H)"
    "\<forall>(r, b) \<in> set xs. node_at H (cs @ r) = Some (File b)"
    "\<forall>q. (\<forall>x \<in> set xs. \<not> prefix q (cs @ fst x)) \<longrightarrow> node_at H q = node_at G q" by blast
  have "\<not> prefix (cs @ r) (cs @ fst y)" if "y \<in> set xs" for y using other [OF that] by (auto simp: strict_prefix_def)
  then have "node_at H (cs @ r) = node_at G (cs @ r)" using H(3) by blast
  then have "node_at H (cs @ r) = Some (File b)" by (simp add: G(3))
  moreover have "node_at H q = node_at F q" if "\<forall>y \<in> set (x # xs). \<not> prefix q (cs @ fst y)" for q
  proof -
    have "\<not> prefix q (cs @ r)" "\<forall>y \<in> set xs. \<not> prefix q (cs @ fst y)" using that x by simp_all
    moreover from this have "q \<noteq> cs @ r" "\<not> (\<exists>p. strict_prefix p r \<and> q = cs @ p)" by (auto simp: strict_prefix_def)
    moreover from calculation have "node_at H q = node_at G q" using H(3) by blast
    ultimately show ?thesis by (simp only: G(3)) simp
  qed
  ultimately show ?case using G(1) H(1,2) by (auto simp: x add.assoc)
qed simp

section \<open>Properties\<close>

lemma mset_map_obtain: "mset ys = mset (map f xs) \<Longrightarrow> \<exists>zs. mset zs = mset xs \<and> map f zs = ys"
proof (induction ys arbitrary: xs)
  case (Cons y ys)
  then have "y \<in> set (map f xs)" by (metis list.set_intros(1) set_mset_mset)
  then obtain x where "x \<in> set xs" "y = f x" by auto
  then obtain u v where x: "xs = u @ x # v" "y = f x" by (auto simp: in_set_conv_decomp)
  then have "mset ys = mset (map f (u @ v))" using Cons.prems by simp
  from Cons.IH [OF this] obtain zs where "mset zs = mset (u @ v)" "map f zs = ys" by blast
  then show ?case using x by (intro exI [of _ "x # zs"]) simp
qed simp

lemma files_antichain:
  assumes "fs_ok F" and "mset rs = mset (files_below F cs)"
  shows "antichain (map fst rs)"
proof -
  have d: "distinct (map fst (files_below F cs))"
  proof -
    have "distinct (map fst (filter (\<lambda>x. strict_prefix cs (fst x) \<and> snd x \<noteq> Dir) (nodes F)))"
      using assms(1) by (auto simp: fs_ok_def hm_ok_def intro: distinct_map_filter)
    moreover have "inj_on (drop (length cs)) {q. strict_prefix cs q}" by (auto simp: inj_on_def strict_prefix_def prefix_def)
    ultimately show ?thesis unfolding files_below_def
      by (simp add: o_def distinct_map inj_on_def) (metis (no_types, lifting) prod.collapse)
  qed
  then have "distinct (map fst rs)" using assms(2) by (metis mset_map mset_eq_imp_distinct_iff)
  moreover have "\<not> strict_prefix r r'" if "r \<in> set (map fst rs)" "r' \<in> set (map fst rs)" for r r'
  proof
    assume p: "strict_prefix r r'"
    have "set rs = set (files_below F cs)" using assms(2) by (rule mset_eq_setD)
    with that obtain b b' where f: "node_at F (cs @ r) = Some (File b)" "node_at F (cs @ r') = Some (File b')" "r' \<noteq> []"
      using files_below_iff [OF assms(1)] by auto
    then have "(cs @ r', File b') \<in> set (nodes F)" using entry_node [OF assms(1)] by simp
    from file_alone [OF assms(1) f(1) this] p show False by (auto simp: strict_prefix_def)
  qed
  ultimately show ?thesis by (auto simp: antichain_def)
qed

lemma tar_dir_entries:
  assumes "fs_ok F" and "resolve F src = Inr cs" and "node_at F cs = Some Dir"
    and "\<forall>(r, b) \<in> set (files_below F cs). packable (slash_join r, b)"
  shows "\<exists>rs. mset rs = mset (files_below F cs) \<and>
    tar_dir src out F = Some (let es = map (\<lambda>(r, b). (slash_join r, b)) rs in
      case fs_write out (tar_bytes es) F of Inl _ \<Rightarrow> (-1, F) | Inr F' \<Rightarrow> (int (length es), F'))"
proof -
  let ?h = "\<lambda>(r, b). (to_string_lossy (slash_join r), path_at src r)" and ?k = "\<lambda>(r, b). (slash_join r, b)"
  from collect_files_all [OF assms(1-3)] obtain X where X: "collect_files F src src [] = Some X"
    "mset X = mset (map ?h (files_below F cs))" by blast
  from mset_map_obtain [OF X(2)] obtain rs where rs: "mset rs = mset (files_below F cs)" "map ?h rs = X" by blast
  have set: "set rs = set (files_below F cs)" using rs(1) by (rule mset_eq_setD)
  then have "\<forall>(r, b) \<in> set rs. node_at F (cs @ r) = Some (File b)" using files_below_iff [OF assms(1)] by auto
  from readable_files [OF assms(1,2) this, of "\<lambda>r. to_string_lossy (slash_join r)"] rs(2)
  have "readable F X = map (\<lambda>(r, b). (to_string_lossy (slash_join r), b)) rs" by simp
  also have "\<dots> = map ?k rs"
    using assms(4) set lossy_text by (intro map_cong refl) (auto simp: packable_def to_string_lossy_def)
  finally show ?thesis using X(1) rs(1) by (intro exI [of _ rs]) (simp add: tar_dir_def Let_def split: sum.split)
qed

text \<open>
  C23: a backup can be restored.  If the files of a tenant have UTF-8 names and fit the 32-bit lengths
  of the format, and packing its directory reports success, then unpacking the archive into a
  directory where no directory or file is in the way reports the same number of entries and
  recreates every file with its contents; what is not on the way to one of these files is as it was.
\<close>

theorem backup_restore:
  assumes "fs_ok F" and "resolve F src = Inr cs" and "node_at F cs = Some Dir"
    and "\<forall>(r, b) \<in> set (files_below F cs). packable (slash_join r, b)"
    and "tar_dir src out F = Some (cnt, F')" and "0 \<le> cnt"
    and "fs_read G archive = fs_read F' out"
    and "resolve G dst = Inr ds" and "node_at G ds = Some Dir" and "\<not> suffix ''/'' dst"
    and "\<forall>(r, b) \<in> set (files_below F cs). ready G ds r"
  shows "\<exists>G'. untar_dir archive dst G = (cnt, G') \<and> cnt = int (length (files_below F cs)) \<and>
    (\<forall>(r, b) \<in> set (files_below F cs). node_at G' (ds @ r) = Some (File b)) \<and>
    (\<forall>q. (\<forall>x \<in> set (files_below F cs). \<not> prefix q (ds @ fst x)) \<longrightarrow> node_at G' q = node_at G q)"
proof -
  from tar_dir_entries [OF assms(1-4)] obtain rs where rs: "mset rs = mset (files_below F cs)"
    "tar_dir src out F = Some (let es = map (\<lambda>(r, b). (slash_join r, b)) rs in
      case fs_write out (tar_bytes es) F of Inl _ \<Rightarrow> (-1, F) | Inr F' \<Rightarrow> (int (length es), F'))" by blast
  let ?es = "map (\<lambda>(r, b). (slash_join r, b)) rs"
  have set: "set rs = set (files_below F cs)" using rs(1) by (rule mset_eq_setD)
  have len: "length rs = length (files_below F cs)" using rs(1) by (rule mset_eq_length)
  have w: "fs_write out (tar_bytes ?es) F = Inr F'" "cnt = int (length rs)"
    using rs(2) assms(5,6) by (auto simp: Let_def split: sum.splits)
  have rd: "fs_read G archive = Inr (tar_bytes ?es)" using assms(7) fs_write_read [OF w(1)] by simp
  have "\<forall>x \<in> set rs. ready G ds (fst x)" using assms(11) set by auto
  from restore_all_ok [OF assms(8-10) this files_antichain [OF assms(1) rs(1)], of 0] obtain G' where
    G': "fold (restore_entry dst) ?es (0, G) = (0 + int (length rs), G')"
      "\<forall>(r, b) \<in> set rs. node_at G' (ds @ r) = Some (File b)"
      "\<forall>q. (\<forall>x \<in> set rs. \<not> prefix q (ds @ fst x)) \<longrightarrow> node_at G' q = node_at G q" by blast
  have "list_all packable ?es" using assms(4) set by (auto simp: list_all_iff)
  with rd create_dir_all_idem [OF assms(8,9)] G'(1) have "untar_dir archive dst G = (cnt, G')"
    by (simp add: untar_dir_def untar_tar ignore_error_def w(2))
  with G'(2,3) set len w(2) show ?thesis by auto
qed

definition backup_disk :: fs where
  "backup_disk = \<lparr>cwd = [], nodes = [([''a''], Dir), ([''a'', ''f''], File [7]), ([''b''], Dir)]\<rparr>"

lemma backup_disk_facts:
  "node_at backup_disk q = (if q = [] \<or> q = [''a''] \<or> q = [''b''] then Some Dir else if q = [''a'', ''f''] then Some (File [7]) else None)"
  "fs_ok backup_disk" "files_below backup_disk [''a''] = [([''f''], [7])]" "resolve backup_disk ''/a'' = Inr [''a'']"
  "resolve backup_disk ''/b'' = Inr [''b'']" "resolve backup_disk ''/o'' = Inr [''o'']"
proof -
  show n: "node_at backup_disk q = (if q = [] \<or> q = [''a''] \<or> q = [''b''] then Some Dir else if q = [''a'', ''f''] then Some (File [7]) else None)" for q
    by (simp add: backup_disk_def node_at_def hm_get_def)
  show "fs_ok backup_disk" by (simp add: fs_ok_def n) (simp add: backup_disk_def hm_ok_def hm_keys_def simple_name_def)
  show "files_below backup_disk [''a''] = [([''f''], [7])]" by (simp add: files_below_def backup_disk_def strict_prefix_def contents_def)
  show "resolve backup_disk ''/a'' = Inr [''a'']" "resolve backup_disk ''/b'' = Inr [''b'']" "resolve backup_disk ''/o'' = Inr [''o'']"
    by (simp_all add: resolve_def start_of_def n)
qed

theorem backup_restore_witness:
  "\<exists>F' G'. tar_dir ''/a'' ''/o'' backup_disk = Some (1, F') \<and> untar_dir ''/o'' ''/b'' F' = (1, G') \<and>
     node_at G' [''b'', ''f''] = Some (File [7])"
proof -
  note f = backup_disk_facts
  have pk: "\<forall>(r, b) \<in> set (files_below backup_disk [''a'']). packable (slash_join r, b)"
    by (simp add: f(3) packable_def as_bytes_def)
  have a: "node_at backup_disk [''a''] = Some Dir" by (simp add: f(1))
  let ?F = "set_node [''o''] (File (tar_bytes [(''f'', [7])])) backup_disk"
  have "fs_write ''/o'' (tar_bytes [(''f'', [7])]) backup_disk = Inr ?F" by (simp add: fs_write_def f(1,6) parent_dir_def)
  with tar_dir_entries [OF f(2,4) a pk, of "''/o''"] have t: "tar_dir ''/a'' ''/o'' backup_disk = Some (1, ?F)" by (auto simp: f(3))
  have b: "resolve ?F ''/b'' = Inr [''b'']" "node_at ?F [''b''] = Some Dir" "\<not> suffix ''/'' ''/b''"
    using resolve_kept [OF f(5), of ?F] by (auto simp: dirs_kept_def f(1) suffix_to_prefix)
  have rdy: "\<forall>(r, b) \<in> set (files_below backup_disk [''a'']). ready ?F [''b''] r"
    by (auto simp: f(1,3) ready_def simple_name_def strict_prefix_def prefix_Cons)
  from backup_restore [OF f(2,4) a pk t _ refl b rdy] t show ?thesis by (auto simp: f(3))
qed

end
