(* ===== verification/Admin_Api.thy ===== *)
theory Admin_Api
  imports Archive Server_State Tenants
begin

text \<open>
  The control interface of the server, \<open>nsmt-server/src/admin.rs\<close>: its handlers over the shared
  server state, the tenant table, the user database and the disk.  A request is what routing and the
  extractors of \<open>axum\<close> hand to a handler; a JSON answer is a value of \<open>admin_reply\<close>.
\<close>

section \<open>Requests and answers\<close>

datatype admin_request =
    Status
  | AddTenant string string
  | ListTenants
  | ListOnline
  | ListLocks
  | Logs "nat option"
  | RegisterUser string string
  | LoginUser string string
  | SetTenantKey string string
  | ListUsers
  | UpgradeUser string string
  | AdminRestart
  | BackupTenant "string option"
  | RestoreTenant string string

datatype admin_error =
    Unauthorized
  | NoUserDb
  | BadCredentials
  | DbError string
  | TenantError nsmt_error
  | BadPubkey
  | LogFileError path io_error
  | MissingDomain
  | TenantDirMissing path
  | ArchiveMissing path

record user_row =
  ur_name :: string
  ur_plan :: string
  ur_quota :: u64
  ur_usage :: u64
  ur_created :: u64

datatype admin_reply =
    AdminError admin_error
  | StatusReply nat u64 nat "(string, u64) hmap" u64
  | TenantSet string
  | TenantRows "(string \<times> nat \<times> u64) list"
  | OnlineReply "(string, machine_info list) hmap"
  | LocksReply "(string, string) hmap"
  | LogsReply path nat string
  | Registered string string u64
  | LoggedIn string
  | UserRows "user_row list"
  | Upgraded string string u64
  | Restarting nat
  | BackupReply bool string path int
  | RestoreReply bool string int

section \<open>State\<close>

record admin_config =
  ac_log_file :: path
  ac_token :: "string option"

record 'd admin_world =
  aw_state :: "'d server_state"
  aw_tenants :: tenant_store
  aw_fs :: fs
  aw_exiting :: bool

text \<open>What a handler reads from outside: the process id, clocks and random bytes.\<close>

record admin_inputs =
  ai_pid :: nat
  ai_uptime :: u64
  ai_salt :: bytes
  ai_now :: u64
  ai_now1 :: u64
  ai_now2 :: u64

definition nsmt_home_path :: "env \<Rightarrow> path" where
  "nsmt_home_path env =
     (case env ''NSMT_HOME'' of
        Some h \<Rightarrow> h
      | None \<Rightarrow> (case env ''HOME'' of Some h \<Rightarrow> join h ''.nsmt'' | None \<Rightarrow> ''.nsmt''))"

definition admin_config_of :: "env \<Rightarrow> admin_config" where
  "admin_config_of env =
     \<lparr>ac_log_file = (case env ''NSMT_LOG_FILE'' of
          Some f \<Rightarrow> f
        | None \<Rightarrow> (case env ''HOME'' of Some h \<Rightarrow> join h ''.nsmt/logs/ygg.log'' | None \<Rightarrow> ''.nsmt/logs/ygg.log'')),
      ac_token = (case env ''NSMT_ADMIN_TOKEN'' of Some t \<Rightarrow> if t = [] then None else Some t | None \<Rightarrow> None)\<rparr>"

definition admin_authorized :: "admin_config \<Rightarrow> string option \<Rightarrow> bool" where
  "admin_authorized cfg hdr = (case ac_token cfg of Some t \<Rightarrow> hdr = Some t | None \<Rightarrow> True)"

section \<open>Handlers\<close>

definition admin_status :: "env \<Rightarrow> admin_inputs \<Rightarrow> 'd admin_world \<Rightarrow> admin_reply" where
  "admin_status env ins w =
     StatusReply (ai_pid ins) (ai_uptime ins) (tenant_count (aw_tenants w)) (st_usage_bytes (aw_state w)) (quota_bytes env)"

definition admin_add_tenant :: "tenants_json \<Rightarrow> env \<Rightarrow> string \<Rightarrow> string \<Rightarrow> 'd admin_world \<Rightarrow> admin_reply \<times> 'd admin_world" where
  "admin_add_tenant J env domain pubkey w =
     (case upsert_tenant J env domain pubkey (aw_tenants w, aw_fs w) of
        (r, g, F) \<Rightarrow>
          (case r of Inr _ \<Rightarrow> TenantSet domain | Inl e \<Rightarrow> AdminError (TenantError e),
           w\<lparr>aw_tenants := g, aw_fs := F\<rparr>))"

definition admin_list_tenants :: "'d admin_world \<Rightarrow> admin_reply" where
  "admin_list_tenants w =
     TenantRows (map (\<lambda>(d, rec). (d, length (tr_machines rec), usage_of d (aw_state w))) (all_tenants (aw_tenants w)))"

definition admin_list_online :: "'d admin_world \<Rightarrow> admin_reply" where
  "admin_list_online w = OnlineReply (all_online (st_registry (aw_state w)))"

definition admin_list_locks :: "'d admin_world \<Rightarrow> admin_reply" where
  "admin_list_locks w = LocksReply (lock_snapshot (st_locks (aw_state w)))"

definition last_lines :: "nat \<Rightarrow> string \<Rightarrow> string" where
  "last_lines n c = join_with [CHR 0x0A] (rev (take n (rev (str_lines c))))"

definition admin_logs :: "admin_config \<Rightarrow> nat option \<Rightarrow> 'd admin_world \<Rightarrow> admin_reply" where
  "admin_logs cfg q w =
     (let lines = min (case q of Some n \<Rightarrow> n | None \<Rightarrow> 200) 5000 in
      case fs_read_to_string (aw_fs w) (ac_log_file cfg) of
        Inr c \<Rightarrow> LogsReply (ac_log_file cfg) lines (last_lines lines c)
      | Inl e \<Rightarrow> AdminError (LogFileError (ac_log_file cfg) e))"

definition set_db :: "'d \<Rightarrow> 'd admin_world \<Rightarrow> 'd admin_world" where
  "set_db D w = w\<lparr>aw_state := (aw_state w)\<lparr>st_db := Some D\<rparr>\<rparr>"

text \<open>The result of the insertion of the tenant is ignored.\<close>

definition admin_register_user ::
  "tenants_json \<Rightarrow> crates \<Rightarrow> 'd sql \<Rightarrow> env \<Rightarrow> admin_inputs \<Rightarrow> string \<Rightarrow> string \<Rightarrow> 'd admin_world \<Rightarrow> admin_reply \<times> 'd admin_world" where
  "admin_register_user J C Q env ins name password w =
     (case st_db (aw_state w) of
        None \<Rightarrow> (AdminError NoUserDb, w)
      | Some D \<Rightarrow>
         (let username = trim name in
          if username = [] \<or> length username > 64 \<or> length password < 6 then (AdminError BadCredentials, w)
          else (case db_register C Q (ai_salt ins) (ai_now ins) (ai_now1 ins) (ai_now2 ins) username password D of
                  (Inl e, D') \<Rightarrow> (AdminError (DbError e), set_db D' w)
                | (Inr token, D') \<Rightarrow>
                   (case upsert_tenant J env username [] (aw_tenants w, aw_fs w) of
                      (_, g, F) \<Rightarrow>
                        (Registered token username (quota_for_plan ''free''),
                         (set_db D' w)\<lparr>aw_tenants := g, aw_fs := F\<rparr>)))))"

definition admin_login_user ::
  "crates \<Rightarrow> 'd sql \<Rightarrow> admin_inputs \<Rightarrow> string \<Rightarrow> string \<Rightarrow> 'd admin_world \<Rightarrow> admin_reply \<times> 'd admin_world" where
  "admin_login_user C Q ins username password w =
     (case st_db (aw_state w) of
        None \<Rightarrow> (AdminError NoUserDb, w)
      | Some D \<Rightarrow>
         (case db_login C Q (ai_now1 ins) (ai_now2 ins) username password D of
            (Inr token, D') \<Rightarrow> (LoggedIn token, set_db D' w)
          | (Inl e, D') \<Rightarrow> (AdminError (DbError e), set_db D' w)))"

definition admin_set_tenant_key :: "tenants_json \<Rightarrow> env \<Rightarrow> string \<Rightarrow> string \<Rightarrow> 'd admin_world \<Rightarrow> admin_reply \<times> 'd admin_world" where
  "admin_set_tenant_key J env domain pubkey w =
     (if length pubkey \<noteq> 64 then (AdminError BadPubkey, w) else admin_add_tenant J env domain pubkey w)"

definition user_row_of :: "'d server_state \<Rightarrow> string \<times> string \<times> u64 \<Rightarrow> user_row" where
  "user_row_of st row =
     (case row of (u, plan, created) \<Rightarrow>
        \<lparr>ur_name = u, ur_plan = plan, ur_quota = quota_for_plan plan, ur_usage = usage_of u st, ur_created = created\<rparr>)"

definition admin_list_users :: "'d sql \<Rightarrow> 'd admin_world \<Rightarrow> admin_reply" where
  "admin_list_users Q w =
     (case st_db (aw_state w) of
        None \<Rightarrow> AdminError NoUserDb
      | Some D \<Rightarrow>
         (case list_users Q D of
            Inr users \<Rightarrow> UserRows (map (user_row_of (aw_state w)) users)
          | Inl e \<Rightarrow> AdminError (DbError e)))"

definition admin_upgrade_user :: "'d sql \<Rightarrow> string \<Rightarrow> string \<Rightarrow> 'd admin_world \<Rightarrow> admin_reply \<times> 'd admin_world" where
  "admin_upgrade_user Q username plan w =
     (case st_db (aw_state w) of
        None \<Rightarrow> (AdminError NoUserDb, w)
      | Some D \<Rightarrow>
         (case set_plan Q username plan D of
            (Inr p, D') \<Rightarrow> (Upgraded username p (quota_for_plan p), set_db D' w)
          | (Inl e, D') \<Rightarrow> (AdminError (DbError e), set_db D' w)))"

text \<open>The process exits with code 3 a little later.\<close>

definition admin_restart :: "admin_inputs \<Rightarrow> 'd admin_world \<Rightarrow> admin_reply \<times> 'd admin_world" where
  "admin_restart ins w = (Restarting (ai_pid ins), w\<lparr>aw_exiting := True\<rparr>)"

definition admin_backup :: "env \<Rightarrow> u64 \<Rightarrow> string option \<Rightarrow> 'd admin_world \<Rightarrow> (admin_reply \<times> 'd admin_world) option" where
  "admin_backup env ts q w =
     (case q of
        None \<Rightarrow> Some (AdminError MissingDomain, w)
      | Some domain \<Rightarrow>
         (let home = nsmt_home_path env;
              src = join (join home ''server'') (sanitize domain);
              backups = join home ''backups'';
              out = join backups (domain @ ''-'' @ fmt_dec (unat ts) @ ''.tar'')
          in if \<not> fs_exists (aw_fs w) src then Some (AdminError (TenantDirMissing src), w)
             else map_option (\<lambda>(n, F). (BackupReply (n \<ge> 0) domain out (max n 0), w\<lparr>aw_fs := F\<rparr>))
               (tar_dir src out (ignore_error (fs_create_dir_all backups) (aw_fs w)))))"

definition admin_restore :: "env \<Rightarrow> path \<Rightarrow> string \<Rightarrow> 'd admin_world \<Rightarrow> admin_reply \<times> 'd admin_world" where
  "admin_restore env archive domain w =
     (if \<not> fs_exists (aw_fs w) archive then (AdminError (ArchiveMissing archive), w)
      else (case untar_dir archive (join (join (nsmt_home_path env) ''server'') (sanitize domain)) (aw_fs w) of
              (n, F) \<Rightarrow> (RestoreReply (n \<ge> 0) domain (max n 0), w\<lparr>aw_fs := F\<rparr>)))"

section \<open>Dispatch\<close>

definition admin_guard :: "admin_config \<Rightarrow> string option \<Rightarrow> 'd admin_world \<Rightarrow> (admin_reply \<times> 'd admin_world) option \<Rightarrow>
   (admin_reply \<times> 'd admin_world) option" where
  "admin_guard cfg hdr w r = (if \<not> admin_authorized cfg hdr then Some (AdminError Unauthorized, w) else r)"

definition admin_handle ::
  "tenants_json \<Rightarrow> crates \<Rightarrow> 'd sql \<Rightarrow> env \<Rightarrow> admin_config \<Rightarrow> admin_inputs \<Rightarrow> string option \<Rightarrow> admin_request \<Rightarrow>
   'd admin_world \<Rightarrow> (admin_reply \<times> 'd admin_world) option" where
  "admin_handle J C Q env cfg ins hdr req w =
     (case req of
        Status \<Rightarrow> admin_guard cfg hdr w (Some (admin_status env ins w, w))
      | AddTenant domain pubkey \<Rightarrow> admin_guard cfg hdr w (Some (admin_add_tenant J env domain pubkey w))
      | ListTenants \<Rightarrow> admin_guard cfg hdr w (Some (admin_list_tenants w, w))
      | ListOnline \<Rightarrow> admin_guard cfg hdr w (Some (admin_list_online w, w))
      | ListLocks \<Rightarrow> admin_guard cfg hdr w (Some (admin_list_locks w, w))
      | Logs q \<Rightarrow> admin_guard cfg hdr w (Some (admin_logs cfg q w, w))
      | RegisterUser name password \<Rightarrow> Some (admin_register_user J C Q env ins name password w)
      | LoginUser name password \<Rightarrow> Some (admin_login_user C Q ins name password w)
      | SetTenantKey domain pubkey \<Rightarrow> Some (admin_set_tenant_key J env domain pubkey w)
      | ListUsers \<Rightarrow> admin_guard cfg hdr w (Some (admin_list_users Q w, w))
      | UpgradeUser name plan \<Rightarrow> admin_guard cfg hdr w (Some (admin_upgrade_user Q name plan w))
      | AdminRestart \<Rightarrow> admin_guard cfg hdr w (Some (admin_restart ins w))
      | BackupTenant q \<Rightarrow> admin_guard cfg hdr w (admin_backup env (ai_now ins) q w)
      | RestoreTenant archive domain \<Rightarrow> admin_guard cfg hdr w (Some (admin_restore env archive domain w)))"

text \<open>The requests that need no token.\<close>

fun open_request :: "admin_request \<Rightarrow> bool" where
  "open_request (RegisterUser _ _) = True"
| "open_request (LoginUser _ _) = True"
| "open_request (SetTenantKey _ _) = True"
| "open_request _ = False"

section \<open>Properties\<close>

lemma db_same [simp]: "\<exists>D. st = st\<lparr>st_db := D\<rparr>"
  by (rule exI [of _ "st_db st"]) simp

lemma upsert_tenant_table:
  "upsert_tenant J env d pk (g, F) = (r, g', F') \<Longrightarrow> g' = set_domain_pubkey d pk g"
  by (auto simp: upsert_tenant_def Let_def split: prod.splits)

lemma admin_add_tenant_effects:
  assumes "admin_add_tenant J env d pk w = (r, w')"
  shows "aw_tenants w' = set_domain_pubkey d pk (aw_tenants w) \<and> aw_state w' = aw_state w \<and> aw_exiting w' = aw_exiting w"
proof -
  obtain r0 g F where u: "upsert_tenant J env d pk (aw_tenants w, aw_fs w) = (r0, g, F)"
    by (cases "upsert_tenant J env d pk (aw_tenants w, aw_fs w)") auto
  from upsert_tenant_table [OF this] assms u show ?thesis by (auto simp: admin_add_tenant_def)
qed

lemma admin_register_user_effects:
  assumes "admin_register_user J C Q env ins name password w = (r, w')"
  shows "aw_exiting w' = aw_exiting w \<and> (\<exists>D. aw_state w' = (aw_state w)\<lparr>st_db := D\<rparr>) \<and>
    (aw_tenants w' = aw_tenants w \<or> aw_tenants w' = set_domain_pubkey (trim name) [] (aw_tenants w))"
proof (cases "st_db (aw_state w)")
  case None
  then show ?thesis using assms by (auto simp: admin_register_user_def)
next
  case (Some D)
  obtain r0 g F where u: "upsert_tenant J env (trim name) [] (aw_tenants w, aw_fs w) = (r0, g, F)"
    by (cases "upsert_tenant J env (trim name) [] (aw_tenants w, aw_fs w)") auto
  note t = upsert_tenant_table [OF u]
  obtain x D' where d: "db_register C Q (ai_salt ins) (ai_now ins) (ai_now1 ins) (ai_now2 ins) (trim name) password D = (x, D')"
    by (cases "db_register C Q (ai_salt ins) (ai_now ins) (ai_now1 ins) (ai_now2 ins) (trim name) password D")
  have w': "w' = w \<or> w' = set_db D' w \<or> w' = (set_db D' w)\<lparr>aw_tenants := g, aw_fs := F\<rparr>"
    using assms by (auto simp: admin_register_user_def Some Let_def d u split: if_splits sum.splits)
  from w' show ?thesis using t by (auto simp: set_db_def)
qed

lemma admin_login_user_effects:
  assumes "admin_login_user C Q ins name password w = (r, w')"
  shows "aw_exiting w' = aw_exiting w \<and> (\<exists>D. aw_state w' = (aw_state w)\<lparr>st_db := D\<rparr>) \<and> aw_tenants w' = aw_tenants w"
proof -
  have "w' = w \<or> (\<exists>D. w' = set_db D w)"
    using assms by (auto simp: admin_login_user_def split: option.splits prod.splits sum.splits)
  then show ?thesis by (auto simp: set_db_def)
qed

text \<open>
  C22: what a caller without the token can do.  When a token is configured, a request with another
  token or none is refused without any effect, unless it registers a user, logs one in or sets a
  tenant key; and these change nothing of the server state but the user database, do not make the
  process exit, and leave the keys bound to machines alone.
\<close>

theorem unauthorized_effects:
  assumes "ac_token cfg = Some t" and "hdr \<noteq> Some t" and "admin_handle J C Q env cfg ins hdr req w = Some (r, w')"
  shows "(\<not> open_request req \<longrightarrow> r = AdminError Unauthorized \<and> w' = w) \<and> aw_exiting w' = aw_exiting w \<and>
    (\<exists>D. aw_state w' = (aw_state w)\<lparr>st_db := D\<rparr>) \<and>
    (\<forall>d mid. bound_key (aw_tenants w') d mid = bound_key (aw_tenants w) d mid)"
proof (cases "open_request req")
  case False
  then have "r = AdminError Unauthorized \<and> w' = w"
    using assms by (cases req) (auto simp: admin_handle_def admin_guard_def admin_authorized_def)
  then show ?thesis by simp
next
  case True
  from True show ?thesis
  proof (cases req)
    case (RegisterUser name password)
    then have "admin_register_user J C Q env ins name password w = (r, w')" using assms(3) by (simp add: admin_handle_def)
    from admin_register_user_effects [OF this] True show ?thesis by auto
  next
    case (LoginUser name password)
    then have "admin_login_user C Q ins name password w = (r, w')" using assms(3) by (simp add: admin_handle_def)
    from admin_login_user_effects [OF this] True show ?thesis by auto
  next
    case (SetTenantKey d pk)
    then have "admin_set_tenant_key J env d pk w = (r, w')" using assms(3) by (simp add: admin_handle_def)
    then have "w' = w \<or> aw_tenants w' = set_domain_pubkey d pk (aw_tenants w) \<and> aw_state w' = aw_state w \<and> aw_exiting w' = aw_exiting w"
      using admin_add_tenant_effects [of J env d pk w r w'] by (auto simp: admin_set_tenant_key_def split: if_splits)
    then show ?thesis using True by auto
  qed simp_all
qed

text \<open>
  C35: the control interface lets anybody take a tenant over.  Whatever the token and without giving
  one, a caller can set the domain key of any tenant to a key of his own; from then on his signatures
  authenticate as this tenant.
\<close>

theorem tenant_key_takeover:
  assumes "hex_law C" and "ed25519_law C" and "length (public_hex C (generate C rnd)) = 64"
  shows "\<exists>r w'. admin_handle J C Q env cfg ins None (SetTenantKey d (public_hex C (generate C rnd))) w = Some (r, w') \<and>
    (\<forall>nonce. verify_auth C d nonce (sign C (generate C rnd) (as_bytes nonce)) (aw_tenants w') = Inr ())"
proof -
  obtain r w' where h: "admin_add_tenant J env d (public_hex C (generate C rnd)) w = (r, w')"
    by (cases "admin_add_tenant J env d (public_hex C (generate C rnd)) w")
  then have "admin_handle J C Q env cfg ins None (SetTenantKey d (public_hex C (generate C rnd))) w = Some (r, w')"
    using assms(3) by (simp add: admin_handle_def admin_set_tenant_key_def)
  moreover have "aw_tenants w' = set_domain_pubkey d (public_hex C (generate C rnd)) (aw_tenants w)"
    using admin_add_tenant_effects [OF h] by simp
  ultimately show ?thesis using sign_verify_any [OF assms(1,2)]
    by (auto simp: verify_auth_def set_domain_pubkey_def generate_def)
qed

definition sample_sql :: "unit sql" where
  "sample_sql = \<lparr>sql_insert_user = (\<lambda>_ _ _ _ D. (Inr (), D)), sql_select_hash = (\<lambda>_ _. Inr None), sql_select_plan = (\<lambda>_ _. Inr None),
     sql_update_plan = (\<lambda>_ _ D. (Inr 0, D)), sql_select_users = (\<lambda>_. Inr []), sql_insert_session = (\<lambda>_ _ _ D. D),
     argon_hash = (\<lambda>_ _. Inr []), argon_parse = (\<lambda>_. Inr ()), argon_verify = (\<lambda>_ _. True)\<rparr>"

definition admin_sample :: "unit admin_world" where
  "admin_sample = \<lparr>aw_state = server_state_new (\<lambda>_. None) None, aw_tenants = [(''d'', \<lparr>tr_domain_pubkey = ''00'', tr_machines = []\<rparr>)],
     aw_fs = \<lparr>cwd = [], nodes = []\<rparr>, aw_exiting = False\<rparr>"

definition sample_inputs :: admin_inputs where
  "sample_inputs = \<lparr>ai_pid = 1, ai_uptime = 0, ai_salt = [], ai_now = 0, ai_now1 = 0, ai_now2 = 0\<rparr>"

definition sample_tenants_json :: tenants_json where
  "sample_tenants_json = \<lparr>tenants_to_vec_pretty = (\<lambda>_. None), tenants_from_str = (\<lambda>_. None)\<rparr>"

theorem unauthorized_effects_witness:
  "\<exists>r w'. admin_handle sample_tenants_json sample_crates sample_sql (\<lambda>_. None) \<lparr>ac_log_file = [], ac_token = Some ''t''\<rparr>
     sample_inputs None AdminRestart admin_sample = Some (r, w') \<and> \<not> aw_exiting w'"
proof -
  let ?cfg = "\<lparr>ac_log_file = [], ac_token = Some ''t''\<rparr>"
  obtain r w' where h: "admin_handle sample_tenants_json sample_crates sample_sql (\<lambda>_. None) ?cfg sample_inputs None AdminRestart admin_sample =
      Some (r, w')" by (simp add: admin_handle_def admin_guard_def admin_authorized_def)
  from unauthorized_effects [OF _ _ h, of "''t''"] have "aw_exiting w' = aw_exiting admin_sample" by simp
  with h show ?thesis by (auto simp: admin_sample_def)
qed

theorem tenant_key_takeover_witness:
  "\<exists>r w'. admin_handle sample_tenants_json sample_crates sample_sql (\<lambda>_. None) \<lparr>ac_log_file = [], ac_token = Some ''t''\<rparr>
     sample_inputs None (SetTenantKey ''d'' (public_hex sample_crates (generate sample_crates [7]))) admin_sample = Some (r, w') \<and>
     verify_auth sample_crates ''d'' ''n'' (sign sample_crates (generate sample_crates [7]) (as_bytes ''n'')) (aw_tenants w') = Inr ()"
proof -
  have "length (public_hex sample_crates (generate sample_crates [7])) = 64" by code_simp
  from tenant_key_takeover [OF sample_crates_laws(1,2) this] show ?thesis by blast
qed

end
