(* ===== verification/Supervisor.thy ===== *)
theory Supervisor
  imports Errors
begin

text \<open>
  The supervisor \<open>ygg-admin\<close>, \<open>nsmt-admin/src/main.rs\<close>: its command line, the loop that starts the
  server process and restarts it after an exit as a step relation, the restart request, and the
  handlers that pass requests on to the control interface.  What the operating system and the HTTP
  client (\<open>reqwest\<close>) answer comes from outside; JSON texts are opaque.
\<close>

section \<open>Command line\<close>

record sup_config =
  sc_ygg_path :: string
  sc_control_addr :: string
  sc_bind :: string
  sc_token :: "string option"
  sc_ygg_args :: "string list"

definition split_ygg_args :: "string list \<Rightarrow> string list \<times> string list" where
  "split_ygg_args args =
     (let own = takeWhile (\<lambda>a. a \<noteq> ''--'') args in
      if own = args then (args, []) else (own, drop (Suc (length own)) args))"

fun parse_own :: "string list \<Rightarrow> sup_config \<Rightarrow> sup_config" where
  "parse_own [] c = c"
| "parse_own [a] c = (if a = ''--token'' then c\<lparr>sc_token := None\<rparr> else c)"
| "parse_own (a # v # r) c =
     (if a = ''--ygg'' then parse_own r (c\<lparr>sc_ygg_path := v\<rparr>)
      else if a = ''--control'' then parse_own r (c\<lparr>sc_control_addr := v\<rparr>)
      else if a = ''--bind'' then parse_own r (c\<lparr>sc_bind := v\<rparr>)
      else if a = ''--token'' then parse_own r (c\<lparr>sc_token := Some v\<rparr>)
      else parse_own (v # r) c)"

definition sup_config_of :: "(string \<Rightarrow> string option) \<Rightarrow> string list \<Rightarrow> sup_config" where
  "sup_config_of env raw =
     (case split_ygg_args raw of (own, ygg_args) \<Rightarrow>
        parse_own own
          \<lparr>sc_ygg_path = (case env ''YGG_BIN'' of Some b \<Rightarrow> b | None \<Rightarrow> ''ygg''),
           sc_control_addr = ''127.0.0.1:8091'', sc_bind = ''127.0.0.1:8090'',
           sc_token = (case env ''NSMT_ADMIN_TOKEN'' of Some t \<Rightarrow> if t = [] then None else Some t | None \<Rightarrow> None),
           sc_ygg_args = ygg_args\<rparr>)"

section \<open>The process\<close>

record ygg_process =
  yp_pid :: "nat option"
  yp_started_at :: "nat option"
  yp_exit_code :: "int option"
  yp_restarts :: u64
  yp_backoff_ms :: u64
  yp_child :: "nat option"

definition ygg_process_new :: ygg_process where
  "ygg_process_new = \<lparr>yp_pid = None, yp_started_at = None, yp_exit_code = None, yp_restarts = 0, yp_backoff_ms = 0, yp_child = None\<rparr>"

text \<open>
  \<open>os\<close> is the operating system: an error text or the id of the process it created for a program and
  its arguments.
\<close>

definition spawn_ygg ::
  "(string \<Rightarrow> string list \<Rightarrow> string + nat) \<Rightarrow> nat \<Rightarrow> sup_config \<Rightarrow> ygg_process \<Rightarrow> string + ygg_process" where
  "spawn_ygg os now cfg p =
     (case os (sc_ygg_path cfg) (sc_ygg_args cfg) of
        Inl e \<Rightarrow> Inl (''spawn '' @ sc_ygg_path cfg @ '': '' @ e)
      | Inr pid \<Rightarrow>
          Inr (p\<lparr>yp_pid := Some pid, yp_started_at := Some now, yp_exit_code := None, yp_backoff_ms := 0, yp_child := Some pid\<rparr>))"

datatype poll = PollExited "int option" | PollRunning | PollError

text \<open>One turn of \<open>wait_child\<close>: the exit code it returns, or nothing while it goes on waiting.\<close>

definition wait_poll :: "poll \<Rightarrow> ygg_process \<Rightarrow> int option option \<times> ygg_process" where
  "wait_poll r p =
     (case yp_child p of
        None \<Rightarrow> (Some None, p)
      | Some _ \<Rightarrow>
         (case r of
            PollExited code \<Rightarrow> (Some code, p\<lparr>yp_child := None, yp_pid := None\<rparr>)
          | PollRunning \<Rightarrow> (None, p)
          | PollError \<Rightarrow> (Some None, p\<lparr>yp_child := None, yp_pid := None\<rparr>)))"

definition clamp :: "u64 \<Rightarrow> u64 \<Rightarrow> u64 \<Rightarrow> u64" where
  "clamp lo hi x = (if x < lo then lo else if x > hi then hi else x)"

definition after_exit :: "int option \<Rightarrow> ygg_process \<Rightarrow> ygg_process" where
  "after_exit code p =
     (let g = p\<lparr>yp_pid := None, yp_child := None, yp_restarts := yp_restarts p + 1\<rparr> in
      if code = Some 3 then g\<lparr>yp_backoff_ms := 0\<rparr>
      else g\<lparr>yp_backoff_ms := clamp 0 10000 (yp_backoff_ms g * 2)\<rparr>)"

definition backoff :: "ygg_process \<Rightarrow> u64" where
  "backoff p = max (yp_backoff_ms p) 500"

section \<open>The supervision loop\<close>

datatype sup_phase = Checking | Waiting | Sleeping u64

text \<open>The number counts the exits of the process that the supervisor has seen.\<close>

inductive sup_step :: "sup_config \<Rightarrow> nat \<times> sup_phase \<times> ygg_process \<Rightarrow> nat \<times> sup_phase \<times> ygg_process \<Rightarrow> bool" for cfg where
  start: "yp_pid p = None \<Longrightarrow> spawn_ygg os now cfg p = Inr p' \<Longrightarrow> sup_step cfg (n, Checking, p) (n, Waiting, p')"
| start_fails: "yp_pid p = None \<Longrightarrow> spawn_ygg os now cfg p = Inl e \<Longrightarrow> sup_step cfg (n, Checking, p) (n, Sleeping 2000, p)"
| running: "yp_pid p \<noteq> None \<Longrightarrow> sup_step cfg (n, Checking, p) (n, Waiting, p)"
| poll: "wait_poll r p = (None, p') \<Longrightarrow> sup_step cfg (n, Waiting, p) (n, Waiting, p')"
| exited: "wait_poll r p = (Some code, p') \<Longrightarrow>
    sup_step cfg (n, Waiting, p) (Suc n, Sleeping (backoff (after_exit code p')), after_exit code p')"
| wake: "sup_step cfg (n, Sleeping ms, p) (n, Checking, p)"

inductive sup_reach :: "sup_config \<Rightarrow> nat \<times> sup_phase \<times> ygg_process \<Rightarrow> bool" for cfg where
  init: "sup_reach cfg (0, Checking, ygg_process_new)"
| step: "sup_reach cfg s \<Longrightarrow> sup_step cfg s t \<Longrightarrow> sup_reach cfg t"

inductive_cases sup_stepE: "sup_step cfg (n, ph, p) t"

section \<open>Stopping the process\<close>

datatype signal = SigTerm | SigProbe | SigKill

text \<open>\<open>alive\<close> tells for each probe whether the process still exists.\<close>

fun terminate_probes :: "nat \<Rightarrow> nat \<Rightarrow> (nat \<Rightarrow> bool) \<Rightarrow> signal list" where
  "terminate_probes 0 i alive = [SigKill]"
| "terminate_probes (Suc k) i alive = SigProbe # (if alive i then terminate_probes k (Suc i) alive else [])"

definition terminate :: "(nat \<Rightarrow> bool) \<Rightarrow> signal list" where
  "terminate alive = SigTerm # terminate_probes 40 0 alive"

section \<open>Requests\<close>

record 'j http_call =
  hc_post :: bool
  hc_url :: string
  hc_token :: "string option"
  hc_body :: "'j option"

datatype 'j sup_request =
    PTenants
  | PAddTenant 'j
  | POnline
  | PLocks
  | PStatus
  | PLogs "nat option" "string option"
  | PUsers
  | PBackup "string option"
  | PRestore 'j

datatype 'j sup_reply =
    SupUnauthorized
  | Upstream 'j
  | SupError string

definition control_base :: "sup_config \<Rightarrow> string" where
  "control_base cfg = ''http://'' @ sc_control_addr cfg"

definition sup_authorized :: "sup_config \<Rightarrow> string option \<Rightarrow> bool" where
  "sup_authorized cfg hdr = (case sc_token cfg of Some t \<Rightarrow> hdr = Some t | None \<Rightarrow> True)"

definition authed_get :: "sup_config \<Rightarrow> string \<Rightarrow> 'j http_call" where
  "authed_get cfg url = \<lparr>hc_post = False, hc_url = url, hc_token = sc_token cfg, hc_body = None\<rparr>"

definition authed_post :: "sup_config \<Rightarrow> string \<Rightarrow> 'j \<Rightarrow> 'j http_call" where
  "authed_post cfg url b = \<lparr>hc_post = True, hc_url = url, hc_token = sc_token cfg, hc_body = Some b\<rparr>"

definition proxy_call :: "sup_config \<Rightarrow> 'j sup_request \<Rightarrow> 'j http_call" where
  "proxy_call cfg req =
     (let base = control_base cfg in
      case req of
        PTenants \<Rightarrow> authed_get cfg (base @ ''/api/tenants'')
      | PAddTenant b \<Rightarrow> authed_post cfg (base @ ''/api/tenants'') b
      | POnline \<Rightarrow> authed_get cfg (base @ ''/api/online'')
      | PLocks \<Rightarrow> authed_get cfg (base @ ''/api/locks'')
      | PStatus \<Rightarrow> authed_get cfg (base @ ''/api/status'')
      | PLogs q level \<Rightarrow>
          (let lines = (case q of Some n \<Rightarrow> n | None \<Rightarrow> 200); url = base @ ''/api/logs?lines='' @ fmt_dec lines in
           authed_get cfg (case level of Some l \<Rightarrow> url @ ''&filter='' @ l | None \<Rightarrow> url))
      | PUsers \<Rightarrow> authed_get cfg (base @ ''/api/users'')
      | PBackup q \<Rightarrow> authed_get cfg (case q of Some d \<Rightarrow> base @ ''/api/backup?domain='' @ d | None \<Rightarrow> base @ ''/api/backup'')
      | PRestore b \<Rightarrow> authed_post cfg (base @ ''/api/restore'') b)"

text \<open>
  \<open>send\<close> is the HTTP client: an error text, or the body, which may not be JSON; \<open>blank\<close> is the empty
  JSON object.  The result is the answer and the call that was made.
\<close>

definition proxy ::
  "('j http_call \<Rightarrow> string + 'j option) \<Rightarrow> 'j \<Rightarrow> sup_config \<Rightarrow> string option \<Rightarrow> 'j sup_request \<Rightarrow> 'j sup_reply \<times> 'j http_call list" where
  "proxy send blank cfg hdr req =
     (if \<not> sup_authorized cfg hdr then (SupUnauthorized, [])
      else (case send (proxy_call cfg req) of
              Inl e \<Rightarrow> SupError e
            | Inr None \<Rightarrow> Upstream blank
            | Inr (Some v) \<Rightarrow> Upstream v, [proxy_call cfg req]))"

datatype 'j restart_reply = ViaControl nat 'j | ViaKill nat | NotRunning

text \<open>\<open>api_restart\<close> takes no credentials; it sends the configured token on.\<close>

definition restart_call :: "sup_config \<Rightarrow> 'j http_call" where
  "restart_call cfg = \<lparr>hc_post = True, hc_url = control_base cfg @ ''/api/admin/restart'', hc_token = sc_token cfg, hc_body = None\<rparr>"

definition api_restart ::
  "('j http_call \<Rightarrow> string + 'j option) \<Rightarrow> 'j \<Rightarrow> sup_config \<Rightarrow> (nat \<Rightarrow> bool) \<Rightarrow> ygg_process \<Rightarrow>
   'j restart_reply \<times> 'j http_call list \<times> (nat \<times> signal) list" where
  "api_restart send blank cfg alive p =
     (case yp_pid p of
        None \<Rightarrow> (NotRunning, [], [])
      | Some pid \<Rightarrow>
         (case send (restart_call cfg) of
            Inr v \<Rightarrow> (ViaControl pid (case v of Some j \<Rightarrow> j | None \<Rightarrow> blank), [restart_call cfg], [])
          | Inl _ \<Rightarrow> (ViaKill pid, [restart_call cfg], map (\<lambda>s. (pid, s)) (terminate alive))))"

record process_view =
  pv_pid :: "nat option"
  pv_running :: bool
  pv_uptime :: nat
  pv_restarts :: u64
  pv_control :: string

text \<open>The processor and memory figures, asked of the operating system, are left out.\<close>

definition api_process :: "nat \<Rightarrow> sup_config \<Rightarrow> ygg_process \<Rightarrow> process_view" where
  "api_process now cfg p = \<lparr>pv_pid = yp_pid p, pv_running = (yp_pid p \<noteq> None),
     pv_uptime = (case yp_started_at p of Some t \<Rightarrow> now - t | None \<Rightarrow> 0), pv_restarts = yp_restarts p, pv_control = control_base cfg\<rparr>"

section \<open>Properties\<close>

definition sup_inv :: "nat \<times> sup_phase \<times> ygg_process \<Rightarrow> bool" where
  "sup_inv s \<longleftrightarrow> (case s of (n, ph, p) \<Rightarrow>
     yp_backoff_ms p = 0 \<and> yp_restarts p = of_nat n \<and> yp_child p = yp_pid p \<and> (yp_pid p \<noteq> None \<longleftrightarrow> ph = Waiting) \<and>
     (case ph of Sleeping ms \<Rightarrow> ms \<in> {500, 2000} | _ \<Rightarrow> True))"

lemma wait_poll_cases:
  assumes "wait_poll r p = (x, p')" and "yp_child p = yp_pid p" and "yp_pid p \<noteq> None"
  shows "x = None \<and> p' = p \<or> (\<exists>code. x = Some code) \<and> p' = p\<lparr>yp_child := None, yp_pid := None\<rparr>"
  using assms by (auto simp: wait_poll_def split: poll.splits)

lemma sup_inv_step:
  assumes "sup_inv s" and "sup_step cfg s t"
  shows "sup_inv t"
  using assms(2,1)
proof (induction rule: sup_step.induct)
  case (poll r p p' n)
  then show ?case using wait_poll_cases [OF poll(1)] by (auto simp: sup_inv_def)
next
  case (exited r p code p' n)
  then have "p' = p\<lparr>yp_child := None, yp_pid := None\<rparr>" using wait_poll_cases [OF exited(1)] by (auto simp: sup_inv_def)
  with exited show ?case by (auto simp: sup_inv_def after_exit_def backoff_def clamp_def Let_def)
qed (auto simp: sup_inv_def spawn_ygg_def split: sum.splits)

lemma sup_inv_reach: "sup_reach cfg s \<Longrightarrow> sup_inv s"
proof (induction rule: sup_reach.induct)
  case init
  show ?case by (simp add: sup_inv_def ygg_process_new_def)
qed (rule sup_inv_step)

lemma step_checking:
  assumes "yp_pid p = None" and "yp_backoff_ms p = 0"
  shows "sup_step cfg (n, Checking, p) t \<longleftrightarrow> t = (n, Sleeping 2000, p) \<or>
    (\<exists>pid now. t = (n, Waiting, p\<lparr>yp_pid := Some pid, yp_started_at := Some now, yp_exit_code := None, yp_child := Some pid\<rparr>))"
    (is "_ \<longleftrightarrow> _ \<or> (\<exists>pid now. t = (n, Waiting, ?q pid now))")
proof -
  have q: "p\<lparr>yp_pid := Some pid, yp_started_at := Some now, yp_exit_code := None, yp_backoff_ms := 0, yp_child := Some pid\<rparr> = ?q pid now" for pid now
    using assms(2) by simp
  have "sup_step cfg (n, Checking, p) (n, Waiting, ?q pid now)" for pid now
    by (rule sup_step.start [OF assms(1), of "\<lambda>_ _. Inr pid" now]) (simp only: spawn_ygg_def sum.case q)
  moreover have "sup_step cfg (n, Checking, p) (n, Sleeping 2000, p)"
    by (rule sup_step.start_fails [OF assms(1), of "\<lambda>_ _. Inl []"]) (simp add: spawn_ygg_def)
  moreover have "t = (n, Sleeping 2000, p) \<or> (\<exists>pid now. t = (n, Waiting, ?q pid now))" if "sup_step cfg (n, Checking, p) t"
  proof (rule sup_stepE [OF that])
    fix os now r assume t: "t = (n, Waiting, r)" and "spawn_ygg os now cfg p = Inr r"
    then obtain pid where "r = ?q pid now" by (auto simp: spawn_ygg_def q split: sum.splits)
    with t show ?thesis by blast
  qed (use assms(1) in auto)
  ultimately show ?thesis by blast
qed

lemma step_waiting:
  assumes "yp_pid p = Some pid" and "yp_child p = Some pid" and "yp_backoff_ms p = 0" and "yp_restarts p = of_nat n"
  shows "sup_step cfg (n, Waiting, p) t \<longleftrightarrow> t = (n, Waiting, p) \<or>
    t = (Suc n, Sleeping 500, p\<lparr>yp_pid := None, yp_child := None, yp_restarts := of_nat (Suc n)\<rparr>)"
proof -
  have e: "after_exit code (p\<lparr>yp_child := None, yp_pid := None\<rparr>) = p\<lparr>yp_pid := None, yp_child := None, yp_restarts := of_nat (Suc n)\<rparr>" for code
    using assms(3,4) by (simp add: after_exit_def clamp_def Let_def)
  have b: "backoff (after_exit code (p\<lparr>yp_child := None, yp_pid := None\<rparr>)) = 500" for code
    using assms(3) by (simp add: e backoff_def)
  have "wait_poll PollRunning p = (None, p)" "wait_poll PollError p = (Some None, p\<lparr>yp_child := None, yp_pid := None\<rparr>)"
    using assms(2) by (simp_all add: wait_poll_def)
  then have "sup_step cfg (n, Waiting, p) (n, Waiting, p)"
    "sup_step cfg (n, Waiting, p) (Suc n, Sleeping 500, p\<lparr>yp_pid := None, yp_child := None, yp_restarts := of_nat (Suc n)\<rparr>)"
    using sup_step.poll sup_step.exited [of PollError p None _ cfg n] b e by metis+
  moreover have "t = (n, Waiting, p) \<or> t = (Suc n, Sleeping 500, p\<lparr>yp_pid := None, yp_child := None, yp_restarts := of_nat (Suc n)\<rparr>)"
    if "sup_step cfg (n, Waiting, p) t"
  proof (rule sup_stepE [OF that])
    fix r q assume "t = (n, Waiting, q)" and "wait_poll r p = (None, q)"
    then show ?thesis using wait_poll_cases [of r p None q] assms(1,2) by simp
  next
    fix r code q assume t: "t = (Suc n, Sleeping (backoff (after_exit code q)), after_exit code q)" and "wait_poll r p = (Some code, q)"
    then have "q = p\<lparr>yp_child := None, yp_pid := None\<rparr>" using wait_poll_cases [of r p "Some code" q] assms(1,2) by simp
    with t b e show ?thesis by simp
  qed simp_all
  ultimately show ?thesis by blast
qed

text \<open>
  C24: the supervision loop, exactly.  In every reachable state the loop goes on, and in one of the
  following ways only.  Without a process it starts one and waits for it, with the new process
  recorded and the rest as before, or, if the start fails, it sleeps 2 s and tries again; both happen
  whatever the history.  While it waits, exactly one process is recorded, and the loop goes on waiting
  for it or sees its exit: then the process is forgotten, the restart counter, which is the number of
  exits modulo 2^64, grows by one, and the loop sleeps exactly 500 ms, however often the process has
  crashed (the growing wait that the code means to have does not exist).  After a sleep it checks again.
\<close>

theorem supervisor_invariant:
  assumes "sup_reach cfg (n, ph, p)"
  shows "yp_restarts p = of_nat n \<and> yp_child p = yp_pid p \<and> (yp_pid p \<noteq> None \<longleftrightarrow> ph = Waiting) \<and>
    (\<forall>t. sup_step cfg (n, ph, p) t \<longleftrightarrow>
      (case ph of
         Checking \<Rightarrow> t = (n, Sleeping 2000, p) \<or>
           (\<exists>pid now. t = (n, Waiting, p\<lparr>yp_pid := Some pid, yp_started_at := Some now, yp_exit_code := None, yp_child := Some pid\<rparr>))
       | Waiting \<Rightarrow> t = (n, Waiting, p) \<or>
           t = (Suc n, Sleeping 500, p\<lparr>yp_pid := None, yp_child := None, yp_restarts := of_nat (Suc n)\<rparr>)
       | Sleeping ms \<Rightarrow> t = (n, Checking, p)))"
proof -
  have i: "sup_inv (n, ph, p)" using sup_inv_reach [OF assms] .
  show ?thesis
  proof (cases ph)
    case Checking
    with i show ?thesis using step_checking by (simp add: sup_inv_def)
  next
    case Waiting
    with i show ?thesis using step_waiting by (auto simp: sup_inv_def)
  next
    case (Sleeping ms)
    with i show ?thesis by (auto simp: sup_inv_def elim: sup_stepE intro: sup_step.wake)
  qed
qed

text \<open>Five crashes in a row.\<close>

lemma crash_step:
  assumes "sup_reach cfg (n, Checking, p)" and "yp_pid p = None"
  shows "\<exists>p'. sup_reach cfg (Suc n, Checking, p') \<and> yp_pid p' = None"
proof -
  obtain q where q: "spawn_ygg (\<lambda>_ _. Inr 7) 0 cfg p = Inr q" "yp_child q = Some 7" by (auto simp: spawn_ygg_def)
  have "sup_reach cfg (n, Waiting, q)" using assms q(1) by (blast intro: sup_reach.step sup_step.start)
  moreover have "wait_poll (PollExited (Some 1)) q = (Some (Some 1), q\<lparr>yp_child := None, yp_pid := None\<rparr>)"
    using q(2) by (simp add: wait_poll_def)
  ultimately have "sup_reach cfg (Suc n, Checking, after_exit (Some 1) (q\<lparr>yp_child := None, yp_pid := None\<rparr>))"
    by (blast intro: sup_reach.step sup_step.exited sup_step.wake)
  then show ?thesis by (intro exI conjI) (assumption, simp add: after_exit_def Let_def)
qed

lemma crashes: "\<exists>p. sup_reach cfg (n, Checking, p) \<and> yp_pid p = None"
proof (induction n)
  case 0
  show ?case using sup_reach.init [of cfg] by (auto simp: ygg_process_new_def)
qed (use crash_step in blast)

theorem supervisor_invariant_witness:
  "\<exists>p. sup_reach (sup_config_of (\<lambda>_. None) [''--'', ''--control'']) (5, Checking, p) \<and> yp_restarts p = 5 \<and>
    sup_step (sup_config_of (\<lambda>_. None) [''--'', ''--control'']) (5, Checking, p) (5, Sleeping 2000, p) \<and>
    (let q = p\<lparr>yp_pid := Some 9, yp_started_at := Some 0, yp_exit_code := None, yp_child := Some 9\<rparr> in
     \<forall>m ms r. sup_step (sup_config_of (\<lambda>_. None) [''--'', ''--control'']) (5, Waiting, q) (m, Sleeping ms, r) \<longrightarrow> m = 6 \<and> ms = 500)"
  (is "\<exists>p. sup_reach ?c _ \<and> _")
proof -
  obtain p where p: "sup_reach ?c (5, Checking, p)" using crashes by blast
  note c = supervisor_invariant [OF p]
  let ?q = "p\<lparr>yp_pid := Some 9, yp_started_at := Some 0, yp_exit_code := None, yp_child := Some 9\<rparr>"
  have "sup_step ?c (5, Checking, p) (5, Waiting, ?q)" using c by auto
  then have "sup_reach ?c (5, Waiting, ?q)" using p by (blast intro: sup_reach.step)
  note supervisor_invariant [OF this]
  with p c show ?thesis by (intro exI [of _ p]) (simp add: Let_def)
qed

text \<open>
  Requests are passed on with the token of the supervisor only for callers that have it, but a
  restart needs no credentials.  A caller with another token gets nothing from a proxied request and
  causes no call; every call that is made carries the configured token; and whatever the
  configuration, a restart request for a running process is sent to the control interface with this
  token, and if that fails the process is killed.
\<close>

theorem proxy_guarded_restart_open:
  "(\<not> sup_authorized cfg hdr \<longrightarrow> proxy send blank cfg hdr req = (SupUnauthorized, [])) \<and>
   (\<forall>c \<in> set (snd (proxy send blank cfg hdr req)). hc_token c = sc_token cfg) \<and>
   (yp_pid p = Some pid \<longrightarrow> (\<exists>r sigs. api_restart send blank cfg alive p = (r, [restart_call cfg], sigs) \<and>
      hc_token (restart_call cfg :: 'j http_call) = sc_token cfg \<and>
      (\<forall>e. send (restart_call cfg) = Inl e \<longrightarrow> (pid, SigTerm) \<in> set sigs)))"
  for send :: "'j http_call \<Rightarrow> string + 'j option"
proof -
  have "hc_token (proxy_call cfg req) = sc_token cfg"
    by (auto simp: proxy_call_def authed_get_def authed_post_def Let_def split: sup_request.split)
  then show ?thesis
    by (auto simp: proxy_def api_restart_def restart_call_def terminate_def split: sum.splits)
qed

theorem proxy_guarded_restart_open_witness:
  "let cfg = sup_config_of (\<lambda>_. None) [''--token'', ''s3cret'', ''--'', ''--control''];
       send = (\<lambda>c. Inl ''refused'') :: nat http_call \<Rightarrow> string + nat option;
       p = ygg_process_new\<lparr>yp_pid := Some 42\<rparr> in
   proxy send 0 cfg (Some ''guess'') PTenants = (SupUnauthorized, []) \<and>
   (42, SigTerm) \<in> set (snd (snd (api_restart send 0 cfg (\<lambda>_. True) p)))"
proof -
  let ?cfg = "sup_config_of (\<lambda>_. None) [''--token'', ''s3cret'', ''--'', ''--control'']"
  let ?send = "(\<lambda>c. Inl ''refused'') :: nat http_call \<Rightarrow> string + nat option"
  let ?p = "ygg_process_new\<lparr>yp_pid := Some 42\<rparr>"
  have "\<not> sup_authorized ?cfg (Some ''guess'')"
    by (simp add: sup_config_of_def split_ygg_args_def sup_authorized_def)
  moreover have "yp_pid ?p = Some 42" by simp
  ultimately show ?thesis
    using proxy_guarded_restart_open [of ?cfg "Some ''guess''" ?send 0 PTenants ?p 42 "\<lambda>_. True"] by (auto simp: Let_def)
qed

end
