(* ===== verification/Spec2Isabelle.thy ===== *)
theory Spec2Isabelle
  imports Wire Identity Messages Object_Store Store_Refinement Crypto Locks Server_Fs Registry Tenants Memory Server_State
    Session Handshake Upload Client_Stream Client_Fs Peer Directories Client_Tree Conflicts Client_Main Sync Exposure Client_Run Server_Loop Watcher Calendar Okf_Doc Okf Okf_Query Okf_Files Archive Admin_Api Supervisor Start
begin

text \<open>
  NSMT is a system in which the machines of a user share files, a memory and a list of who is online
  through a server.  This development models its Rust crates (below \<open>src/crates/\<close>) as HOL functions
  and proves what makes them correct.  This theory imports all others.

  The parts of the program and how they interact.

  A client \<open>yggd\<close> (\<open>nsmt-client\<close>) opens a QUIC stream to the server \<open>ygg\<close> (\<open>nsmt-server\<close>).  On the
  stream both exchange frames (\<open>nsmt-core/src/frame.rs\<close>, \<open>wire.rs\<close>) that carry JSON messages
  (\<open>messages.rs\<close>) or raw chunks.  A connection is admitted by a handshake: the server sends a nonce,
  the client signs it with the key of its domain (the tenant) and then registers its machine key
  (\<open>session.rs\<close>, \<open>tenants.rs\<close>).  An admitted client announces itself in the registry
  (\<open>registry.rs\<close>), takes leases on paths (\<open>LockRegistry\<close> in \<open>fs.rs\<close>), uploads and downloads
  content-addressed objects in chunks (\<open>ServerFs\<close> in \<open>fs.rs\<close>, the stores of \<open>nsmt-fs\<close>), compares file
  trees, and records or recalls memory through HTTP gateways (\<open>memory.rs\<close>, \<open>nsmt-memory\<close>).  Objects
  may be encrypted end to end (\<open>e2e.rs\<close>) and fetched directly from a peer.  The server also has an
  HTTP control interface (\<open>admin.rs\<close>), which the supervisor \<open>ygg-admin\<close> (\<open>nsmt-admin\<close>) calls; the
  supervisor starts the server process and restarts it.  Conflict resolution
  (\<open>conflicts_web.rs\<close>) and knowledge bundles (\<open>okf.rs\<close>) are commands of the client on local files.

  Foundations.

  \<^item> \<open>Prelude\<close>: machine integers as words, byte strings, the parts of \<open>str\<close> that are used, \<open>HashMap\<close>
    as the locale \<open>hash_map\<close>, interpreted on association lists.  A text is the list of its UTF-8
    bytes, one character each.
  \<^item> \<open>File_System\<close>, \<open>Directories\<close>, \<open>Paths\<close>, \<open>Dir_Scan\<close>, \<open>Dir_Moves\<close>: \<open>std::fs\<close> and \<open>std::path\<close>.  A
    path is resolved component by component as the kernel does it.  \<open>fs_ok\<close> is well-formedness, kept
    by every call.  The locale \<open>dir_scan\<close> states what one turn of a recursive directory scan does and
    shows that the scan ends and is exact; the scans of the client tree, of the knowledge bundles and
    of the archives interpret it.
  \<^item> \<open>Utf8\<close>, \<open>Calendar\<close>, \<open>Socket_Addr\<close>: lossy decoding and lines of texts, dates, and the parser of
    socket addresses.

  Protocol, \<open>nsmt-core\<close> and \<open>nsmt-fs\<close>.

  \<^item> \<open>Errors\<close> (\<open>error.rs\<close>), \<open>Identity\<close> (\<open>identity.rs\<close>), \<open>Messages\<close> (\<open>messages.rs\<close>): codes, names with
    printer and parser, one record per message.
  \<^item> \<open>Frame_Codec\<close> (\<open>frame.rs\<close>): encoder and incremental decoder, exact inverses of each other, as an
    interpretation of the locale \<open>wire_codec\<close>.  \<open>Wire\<close> (\<open>wire.rs\<close>): \<open>FrameStream\<close> over a byte stream
    that is cut into arbitrary pieces; what is received does not depend on the cutting.
  \<^item> \<open>Crypto\<close> (\<open>crypto.rs\<close>, \<open>e2e.rs\<close>): keys, signatures, key files, encryption with key rotation.
  \<^item> \<open>Object_Store\<close> (\<open>nsmt-fs/src/lib.rs\<close>): the trait as the locale \<open>object_store\<close>, interpreted on the
    local store; tenants that share a bucket are kept apart.  \<open>Store_Refinement\<close>: the local store
    refines an abstract map that never overwrites, for any sequence of calls.

  Server, \<open>nsmt-server\<close> and \<open>nsmt-memory\<close>.

  \<^item> \<open>Locks\<close> and \<open>Server_Fs\<close> (\<open>fs.rs\<close>): leases under any interleaving of operations with clock readings
    (locale \<open>lease\<close>), trees on disk, their difference and hash.
  \<^item> \<open>Registry\<close> (\<open>registry.rs\<close>): machines and subscribers, delivery of announcements, pruning in its
    separate lock sections.  \<open>Tenants\<close> (\<open>tenants.rs\<close>): keys of domains and machines and their
    persistence.  \<open>Memory\<close> (\<open>memory.rs\<close>, \<open>nsmt-memory\<close>): sharded recall and capture.
    \<open>Server_State\<close> and \<open>Db_Connect\<close> (\<open>state.rs\<close>, \<open>db.rs\<close>): quotas, owners, users, and how the
    database is reached.
  \<^item> \<open>Session\<close> (\<open>session.rs\<close>): the connection handler as one step function over the session and the
    shared world, with all frame types, timer and broadcasts.  \<open>Handshake\<close>: who becomes ready.
    \<open>Upload\<close>: chunks in any order assemble to the file, and a download returns it.
  \<^item> \<open>Server_Loop\<close> (\<open>main.rs\<close>): the accept loop with any number of connections and the tasks that prune
    registry and locks, as steps in any order, with the states that are reached.  \<open>confined\<close> says
    that a step changes only what the server keeps in memory for one tenant (\<open>tenant_view\<close>: machines and
    waiting frames, keys, the handle of the store, owners, usage); every handler is.  \<open>Confinement\<close>: what
    a session writes to the disk lies below the directory of its tenant.
  \<^item> \<open>Archive\<close> and \<open>Admin_Api\<close> (\<open>admin.rs\<close>): backups of tenants, and every handler of the control
    interface.  \<open>Start\<close> (\<open>main.rs\<close>): command line, provisioning, certificate, up to the accept loop.

  Client, \<open>nsmt-client\<close>, and supervisor, \<open>nsmt-admin\<close>.

  \<^item> \<open>Client_Stream\<close>: conversations over an abstract stream, which a server session can be plugged
    into, or a script, the course of a conversation as turns \<open>Says\<close> and \<open>Hears\<close> in the order of time.  \<open>Client_Fs\<close> and \<open>Client_Tree\<close> (\<open>fs.rs\<close>): uploads and downloads against the server session,
    cache, conflict copies, scan of the shared directory.  \<open>Peer\<close> and \<open>Client_Main\<close> (\<open>main.rs\<close>):
    direct connections, handshake, memory, synchronisation, online mode.  \<open>Watcher\<close>: the task that
    keeps a watcher on the shared directory.  \<open>Start\<close>: the beginning of \<open>main.rs\<close>.  \<open>Client_Run\<close>: the
    rest of it, from the connection to the end of the command, with the loop of \<open>fs_mode\<close> over its
    events and the reaction to hints (\<open>PEER_HINT_HOOK\<close>, \<open>hole_punch\<close>).
  \<^item> \<open>Sync\<close>: the synchronisation of two clients with the same server, composed of the push of one, the
    server session with its trees and stores, and the tick of the other.  \<open>in_sync\<close> says that a
    shared directory holds exactly the files of a list of entries, \<open>served\<close> that the server answers
    a request for an object, \<open>client_disk_ok\<close> that the directories of the client are there.
    Both speak of files at the top of the shared directory only; \<open>Conflicts\<close> shows what goes wrong below a
    subdirectory.  \<open>Exposure\<close>: what object ids and paths that come from others reach.
  \<^item> \<open>Conflicts\<close> (\<open>conflicts_web.rs\<close> and \<open>conflicts_cli\<close>): listing and resolution of conflict copies.
  \<^item> \<open>Okf_Doc\<close>, \<open>Okf\<close>, \<open>Okf_Query\<close>, \<open>Okf_Disk\<close> (\<open>okf.rs\<close>): documents, commands that write, commands
    that go through a library, and that every invocation returns and keeps the disk well formed.
    \<open>Okf_Files\<close>: which files an invocation can take away, and by which command.
  \<^item> \<open>Supervisor\<close> (\<open>nsmt-admin/src/main.rs\<close>): the supervision loop as a step relation with its
    invariant, restart, and the proxies to the control interface.

  What the theorems show.  The properties are the theorems whose text starts with a numbered label.
  The first group follows a file through the whole system: what one client pushes another gets back,
  over the client code, the server session, the stores and the encryption, with chunks in any order,
  and a tree that one client pushes appears in the shared directory of the other with its next tick.
  The next is about admission: with any number of connections in any
  order only authenticated ones become ready, none touches what is kept for another tenant, a machine keeps its key,
  and an honest client is admitted and its command carried out.  Then come frames, leases, tree
  differences, scans and conflict copies; what a client that agrees with the server does, and what
  clients with an old tree or a hostile one can do to others; provisioning, the control interface, backups and the supervisor; knowledge bundles; and the
  registry, stores, peers, memory, encryption and quotas.  Some theorems state a behaviour that
  is not what the code means to do; they prove defects of the code.

  Parameters.  What is not below \<open>src/\<close> is an argument of the definitions: the crates for hashing,
  hexadecimal texts, signatures and encryption (record \<open>crates\<close>, with the laws \<open>hex_law\<close>,
  \<open>ed25519_law\<close> and the like as hypotheses), serde_json and serde_yaml (records of encoders and
  decoders), SQL and password hashing (record \<open>sql\<close>), the backends of the crate object_store, HTTP
  clients, clocks, random bytes, and the tables behind \<open>to_lowercase\<close>.  Every theorem with such
  a hypothesis has a witness that instantiates it by a concrete function.

  Loops.  Loops whose end depends on what arrives or on the disk are partial functions into \<open>option\<close>,
  where \<open>None\<close> is a run that does not end; the theorems then state that the result is \<open>Some\<close>.  There
  is no fuel.  A receive with nothing to come ends with the error of the idle timeout of the connection
  (30 s by default in \<open>quinn\<close>, which the code does not change).  All other recursion is shown to terminate.  Integers that can overflow are words of
  their width (\<open>u32\<close>, \<open>u64\<close>); lengths and indices of what is in memory are natural numbers.

  Concurrency.  The tasks of the server share state behind locks.  A lock section is one step, and
  the theorems on leases, registry and uploads quantify over the order of the steps.  In \<open>Server_Loop\<close> a
  step is a whole turn of the handler of one connection.

  Not modelled: symbolic links, permissions and faults of devices, and the directories that
  \<open>create_dir_all\<close> has made before it fails; the cancellation of a half-received frame by
  \<open>tokio::select!\<close>; QUIC and TLS, the generation of certificates, the listener for peers and the certificate
  verifier that accepts everything between them; HTTP routing and HTML pages; output to the terminal other than the values that
  commands print; \<open>ps_usage\<close> of \<open>nsmt-admin/src/proc.rs\<close>, which reads the output of the command ps;
  \<open>set_fm\<close> of \<open>okf.rs\<close>, which nothing calls; and the tests.
\<close>

section \<open>From the start to the accept loop\<close>

text \<open>The state that the accept loop starts with: nobody is online.\<close>

lemma started_registry:
  assumes "server_main J env cert endpoint V args F = (Serving b c st g, F')"
  shows "st_registry st = registry_default"
  using server_main_serving [OF assms] by (auto simp: server_state_start_def server_state_new_def case_prod_unfold)

end
